(* ===== verification/Pi_Prelude.thy ===== *)
theory Pi_Prelude
  imports Complex_Main "HOL-Library.AList" "HOL-Library.Sublist"
begin

text \<open>
  Shared ground of the development: the JavaScript library operations the modelled
  sources call (string joining and searching, insertion-ordered maps and sets,
  decimal rendering), and the programs of the asynchronous components.

  An asynchronous function of the source is a \<^emph>\<open>program\<close>: it reads and updates the
  world its awaited callbacks act on and either throws (\<open>Inl\<close>, the rendered error
  message) or returns a value (\<open>Inr\<close>).
\<close>

named_theorems prog_simps
  \<open>unfolding rules of the program combinators\<close>
named_theorems jsmap_simps
  \<open>lookup, key order and distinctness of insertion-ordered maps\<close>

section \<open>Programs: state, exceptions, sequencing\<close>

type_synonym js_error = string
type_synonym 'a exc = "js_error + 'a"
type_synonym ('w, 'a) prog = "'w \<Rightarrow> 'a exc \<times> 'w"

definition ret :: "'a \<Rightarrow> ('w, 'a) prog" where
  "ret x = (\<lambda>w. (Inr x, w))"

definition throw :: "js_error \<Rightarrow> ('w, 'a) prog" where
  "throw e = (\<lambda>w. (Inl e, w))"

definition bindp :: "('w, 'a) prog \<Rightarrow> ('a \<Rightarrow> ('w, 'b) prog) \<Rightarrow> ('w, 'b) prog" where
  "bindp m f = (\<lambda>w. case m w of (Inl e, w') \<Rightarrow> (Inl e, w') | (Inr x, w') \<Rightarrow> f x w')"

definition seqp :: "('w, 'a) prog \<Rightarrow> ('w, 'b) prog \<Rightarrow> ('w, 'b) prog" where
  "seqp m k = bindp m (\<lambda>_. k)"

definition catchp :: "('w, 'a) prog \<Rightarrow> (js_error \<Rightarrow> ('w, 'a) prog) \<Rightarrow> ('w, 'a) prog" where
  "catchp m h = (\<lambda>w. case m w of (Inl e, w') \<Rightarrow> h e w' | (Inr x, w') \<Rightarrow> (Inr x, w'))"

definition readp :: "('w \<Rightarrow> 'a) \<Rightarrow> ('w, 'a) prog" where
  "readp f = (\<lambda>w. (Inr (f w), w))"

definition liftp :: "'a exc \<Rightarrow> ('w, 'a) prog" where
  "liftp r = (\<lambda>w. (r, w))"

text \<open>\<open>for (const x of xs) await f(x)\<close>\<close>

fun forp :: "('a \<Rightarrow> ('w, unit) prog) \<Rightarrow> 'a list \<Rightarrow> ('w, unit) prog" where
  "forp f [] = ret ()"
| "forp f (x # xs) = seqp (f x) (forp f xs)"

lemma ret_apply [prog_simps]: "ret x w = (Inr x, w)"
  by (simp add: ret_def)

lemma throw_apply [prog_simps]: "throw e w = (Inl e, w)"
  by (simp add: throw_def)

lemma readp_apply [prog_simps]: "readp f w = (Inr (f w), w)"
  by (simp add: readp_def)

lemma liftp_apply [prog_simps]: "liftp r w = (r, w)"
  by (simp add: liftp_def)

lemma bindp_ret [simp]: "bindp (ret x) f = f x"
  by (simp add: bindp_def ret_def)

lemma bindp_throw [simp]: "bindp (throw e) f = throw e"
  by (simp add: bindp_def throw_def)

lemma bindp_right_ret [simp]: "bindp m ret = m"
  by (rule ext) (simp add: bindp_def ret_def split: prod.split sum.split)

lemma bindp_assoc: "bindp (bindp m f) g = bindp m (\<lambda>x. bindp (f x) g)"
  by (rule ext) (simp add: bindp_def split: prod.split sum.split)

lemma bindp_Inr_iff:
  "bindp m f w = (Inr y, w'') \<longleftrightarrow> (\<exists>x w'. m w = (Inr x, w') \<and> f x w' = (Inr y, w''))"
  by (cases "m w") (auto simp: bindp_def split: sum.splits)

lemma bindp_InrE:
  assumes "bindp m f w = (Inr y, w'')"
  obtains x w' where "m w = (Inr x, w')" and "f x w' = (Inr y, w'')"
  using assms by (auto simp: bindp_Inr_iff)

lemma seqp_InrE:
  assumes "seqp m k w = (Inr y, w'')"
  obtains x w' where "m w = (Inr x, w')" and "k w' = (Inr y, w'')"
  using assms by (auto simp: seqp_def bindp_Inr_iff)

lemma bindp_eval [prog_simps]:
  "m w = (Inr x, w') \<Longrightarrow> bindp m f w = f x w'"
  "m w = (Inl e, w') \<Longrightarrow> bindp m f w = (Inl e, w')"
  by (simp_all add: bindp_def)

lemma seqp_eval [prog_simps]:
  "m w = (Inr x, w') \<Longrightarrow> seqp m k w = k w'"
  "m w = (Inl e, w') \<Longrightarrow> seqp m k w = (Inl e, w')"
  by (simp_all add: seqp_def bindp_def)

lemma catchp_eval [prog_simps]:
  "m w = (Inr x, w') \<Longrightarrow> catchp m h w = (Inr x, w')"
  "m w = (Inl e, w') \<Longrightarrow> catchp m h w = h e w'"
  by (simp_all add: catchp_def)

text \<open>
  A predicate that every step of a program keeps, whether it returns or throws, is kept
  by the program: the rules below lift one-step facts through the combinators.
\<close>

definition keeps :: "('w \<Rightarrow> bool) \<Rightarrow> ('w, 'a) prog \<Rightarrow> bool" where
  "keeps I m \<longleftrightarrow> (\<forall>w. I w \<longrightarrow> I (snd (m w)))"

named_theorems keeps_intros \<open>rules lifting invariants through programs\<close>

lemma keeps_ret [keeps_intros]: "keeps I (ret x)"
  by (simp add: keeps_def ret_def)

lemma keeps_throw [keeps_intros]: "keeps I (throw e)"
  by (simp add: keeps_def throw_def)

lemma keeps_readp [keeps_intros]: "keeps I (readp f)"
  by (simp add: keeps_def readp_def)

lemma keeps_liftp [keeps_intros]: "keeps I (liftp r)"
  by (simp add: keeps_def liftp_def)

lemma keeps_bindp [keeps_intros]:
  assumes "keeps I m" and "\<And>x. keeps I (f x)"
  shows "keeps I (bindp m f)"
  unfolding keeps_def
proof (intro allI impI)
  fix w assume "I w"
  with assms(1) have "I (snd (m w))" by (simp add: keeps_def)
  with assms(2) show "I (snd (bindp m f w))"
    by (cases "m w") (auto simp: bindp_def keeps_def split: sum.splits)
qed

lemma keeps_seqp [keeps_intros]: "keeps I m \<Longrightarrow> keeps I k \<Longrightarrow> keeps I (seqp m k)"
  by (simp add: seqp_def keeps_bindp)

lemma keeps_catchp [keeps_intros]:
  assumes "keeps I m" and "\<And>e. keeps I (h e)"
  shows "keeps I (catchp m h)"
  unfolding keeps_def
proof (intro allI impI)
  fix w assume "I w"
  with assms(1) have "I (snd (m w))" by (simp add: keeps_def)
  with assms(2) show "I (snd (catchp m h w))"
    by (cases "m w") (auto simp: catchp_def keeps_def split: sum.splits)
qed

lemma keeps_forp [keeps_intros]: "(\<And>x. keeps I (f x)) \<Longrightarrow> keeps I (forp f xs)"
  by (induction xs) (auto intro: keeps_intros)

lemma keeps_apply: "keeps I m \<Longrightarrow> I w \<Longrightarrow> m w = (r, w') \<Longrightarrow> I w'"
  unfolding keeps_def by (metis snd_conv)

section \<open>Strings and arrays\<close>

abbreviation NL :: char where "NL \<equiv> CHR 0x0A"
abbreviation CR :: char where "CR \<equiv> CHR 0x0D"
abbreviation DQ :: char where "DQ \<equiv> CHR 0x22"

text \<open>\<open>Array.prototype.join\<close>\<close>

fun js_join :: "'a list \<Rightarrow> 'a list list \<Rightarrow> 'a list" where
  "js_join sep [] = []"
| "js_join sep [x] = x"
| "js_join sep (x # y # ys) = x @ sep @ js_join sep (y # ys)"

lemma js_join_Cons: "js_join sep (x # xs) = (if xs = [] then x else x @ sep @ js_join sep xs)"
  by (cases xs) simp_all

lemma js_join_append:
  "xs \<noteq> [] \<Longrightarrow> ys \<noteq> [] \<Longrightarrow> js_join sep (xs @ ys) = js_join sep xs @ sep @ js_join sep ys"
  by (induction xs) (auto simp: js_join_Cons)

text \<open>\<open>String.prototype.split\<close> on a one-character separator.\<close>

fun split_on :: "'a \<Rightarrow> 'a list \<Rightarrow> 'a list list" where
  "split_on c [] = [[]]"
| "split_on c (x # xs) =
     (if x = c then [] # split_on c xs
      else case split_on c xs of [] \<Rightarrow> [[x]] | l # ls \<Rightarrow> (x # l) # ls)"

lemma split_on_nonempty [simp]: "split_on c s \<noteq> []"
  by (induction s) (auto split: list.splits)

lemma js_join_split_on [simp]: "js_join [c] (split_on c s) = s"
proof (induction s)
  case (Cons x xs)
  then show ?case
    by (cases "split_on c xs") (auto simp: js_join_Cons)
qed simp

lemma split_on_no_sep: "l \<in> set (split_on c s) \<Longrightarrow> c \<notin> set l"
  by (induction s arbitrary: l) (auto split: if_splits list.splits)

text \<open>\<open>String.prototype.indexOf\<close> (from the start); \<open>None\<close> stands for \<open>-1\<close>.\<close>

fun js_index_of :: "'a list \<Rightarrow> 'a list \<Rightarrow> nat option" where
  "js_index_of pat [] = (if pat = [] then Some 0 else None)"
| "js_index_of pat (x # xs) =
     (if prefix pat (x # xs) then Some 0 else map_option Suc (js_index_of pat xs))"

lemma js_index_of_Some:
  "js_index_of pat s = Some i \<Longrightarrow>
     i + length pat \<le> length s \<and> take (length pat) (drop i s) = pat"
proof (induction s arbitrary: i)
  case (Cons x xs)
  show ?case
  proof (cases "prefix pat (x # xs)")
    case True
    with Cons.prems have "i = 0" by simp
    with True show ?thesis
      using prefix_length_le [OF True] by (auto simp: prefix_def)
  next
    case False
    with Cons.prems obtain j where "js_index_of pat xs = Some j" "i = Suc j" by auto
    with Cons.IH show ?thesis by auto
  qed
qed (auto split: if_splits)

lemma js_index_of_None:
  "js_index_of pat s = None \<longleftrightarrow> \<not> sublist pat s"
proof (induction s)
  case (Cons x xs)
  then show ?case by (auto simp: sublist_Cons_right)
qed auto

lemma js_index_of_least:
  "js_index_of pat s = Some i \<Longrightarrow> j < i \<Longrightarrow> \<not> prefix pat (drop j s)"
proof (induction s arbitrary: i j)
  case (Cons x xs)
  then show ?case
    by (cases j) (auto split: if_splits)
qed (auto split: if_splits)

text \<open>\<open>Array.prototype.findIndex\<close>; \<open>None\<close> stands for \<open>-1\<close>.\<close>

fun find_index :: "('a \<Rightarrow> bool) \<Rightarrow> 'a list \<Rightarrow> nat option" where
  "find_index P [] = None"
| "find_index P (x # xs) = (if P x then Some 0 else map_option Suc (find_index P xs))"

lemma find_index_Some:
  "find_index P xs = Some i \<Longrightarrow> i < length xs \<and> P (xs ! i) \<and> (\<forall>j<i. \<not> P (xs ! j))"
proof (induction xs arbitrary: i)
  case (Cons x xs)
  then show ?case
    by (auto split: if_splits simp: nth_Cons split: nat.splits)
qed simp

lemma find_index_None: "find_index P xs = None \<longleftrightarrow> (\<forall>x\<in>set xs. \<not> P x)"
  by (induction xs) auto

lemma map_filter_append: "List.map_filter f (xs @ ys) = List.map_filter f xs @ List.map_filter f ys"
  by (simp add: List.map_filter_def)

text \<open>\<open>xs ?? []\<close>\<close>

definition opt_list :: "'a list option \<Rightarrow> 'a list" where
  "opt_list xo = (case xo of None \<Rightarrow> [] | Some xs \<Rightarrow> xs)"

lemma opt_list_simps [simp]: "opt_list None = []" "opt_list (Some xs) = xs"
  by (simp_all add: opt_list_def)

section \<open>Decimal rendering\<close>

fun dec :: "nat \<Rightarrow> string" where
  "dec n = (if n < 10 then [char_of (48 + n)] else dec (n div 10) @ [char_of (48 + n mod 10)])"

declare dec.simps [simp del]

definition dec_int :: "int \<Rightarrow> string" where
  "dec_int i = (if i < 0 then ''-'' @ dec (nat (- i)) else dec (nat i))"

lemma dec_nonempty [simp]: "dec n \<noteq> []"
  by (subst dec.simps) simp

section \<open>Insertion-ordered maps and sets\<close>

text \<open>
  A JavaScript \<open>Map\<close> keeps its keys in the order of their first insertion: \<open>set\<close> on a
  present key keeps its place, \<open>delete\<close> removes it. That is an association list with
  distinct keys under \<open>AList.update\<close> and \<open>AList.delete\<close>.
\<close>

type_synonym ('k, 'v) jsmap = "('k \<times> 'v) list"

definition jsmap_keys :: "('k, 'v) jsmap \<Rightarrow> 'k list" where
  "jsmap_keys m = List.map fst m"

definition jsmap_values :: "('k, 'v) jsmap \<Rightarrow> 'v list" where
  "jsmap_values m = List.map snd m"

definition jsmap_of :: "('k \<times> 'v) list \<Rightarrow> ('k, 'v) jsmap" where
  "jsmap_of kvs = fold (\<lambda>(k, v) m. AList.update k v m) kvs []"

definition wf_jsmap :: "('k, 'v) jsmap \<Rightarrow> bool" where
  "wf_jsmap m \<longleftrightarrow> distinct (jsmap_keys m)"

locale js_map =
  fixes lookup :: "'m \<Rightarrow> 'k \<Rightarrow> 'v option"
    and put :: "'k \<Rightarrow> 'v \<Rightarrow> 'm \<Rightarrow> 'm"
    and del :: "'k \<Rightarrow> 'm \<Rightarrow> 'm"
  assumes lookup_put: "lookup (put k v m) k' = (if k' = k then Some v else lookup m k')"
    and lookup_del: "lookup (del k m) k' = (if k' = k then None else lookup m k')"
begin

lemma lookup_put_same: "lookup (put k v m) k = Some v"
  by (simp add: lookup_put)

lemma lookup_put_other: "k' \<noteq> k \<Longrightarrow> lookup (put k v m) k' = lookup m k'"
  by (simp add: lookup_put)

lemma lookup_put_all:
  "lookup (fold (\<lambda>(k, v). put k v) kvs m) k' =
     (case map_of (rev kvs) k' of Some v \<Rightarrow> Some v | None \<Rightarrow> lookup m k')"
  by (induction kvs arbitrary: m)
     (auto simp: lookup_put map_add_Some_iff map_add_def split: option.splits)

lemma lookup_del_all:
  "lookup (fold del ks m) k' = (if k' \<in> set ks then None else lookup m k')"
  by (induction ks arbitrary: m) (auto simp: lookup_del)

end

interpretation jm: js_map "map_of :: ('k, 'v) jsmap \<Rightarrow> 'k \<Rightarrow> 'v option" AList.update AList.delete
  by unfold_locales (simp_all add: AList.update_conv' AList.delete_conv')

lemma set_update_sub: "(a, b) \<in> set (AList.update k v m) \<Longrightarrow> (a, b) = (k, v) \<or> (a, b) \<in> set m"
  by (induction m) (auto split: if_splits)

lemma wf_jsmap_Nil [jsmap_simps, simp]: "wf_jsmap []"
  by (simp add: wf_jsmap_def jsmap_keys_def)

lemma wf_jsmap_update [jsmap_simps]: "wf_jsmap m \<Longrightarrow> wf_jsmap (AList.update k v m)"
  by (simp add: wf_jsmap_def jsmap_keys_def AList.distinct_update)

lemma wf_jsmap_delete [jsmap_simps]: "wf_jsmap m \<Longrightarrow> wf_jsmap (AList.delete k m)"
  by (simp add: wf_jsmap_def jsmap_keys_def AList.distinct_delete)

lemma wf_jsmap_fold_update: "wf_jsmap m \<Longrightarrow> wf_jsmap (fold (\<lambda>(k, v). AList.update k v) kvs m)"
  by (induction kvs arbitrary: m) (auto intro: wf_jsmap_update)

lemma wf_jsmap_fold_delete: "wf_jsmap m \<Longrightarrow> wf_jsmap (fold AList.delete ks m)"
  by (induction ks arbitrary: m) (auto intro: wf_jsmap_delete)

lemma wf_jsmap_of [jsmap_simps, simp]: "wf_jsmap (jsmap_of kvs)"
  by (simp add: jsmap_of_def wf_jsmap_fold_update)

lemma map_of_jsmap_of: "map_of (jsmap_of kvs) k = map_of (rev kvs) k"
  using jm.lookup_put_all [of kvs "[]" k]
  by (simp add: jsmap_of_def split: option.splits)

lemma map_of_rev_distinct: "distinct (map fst kvs) \<Longrightarrow> map_of (rev kvs) = map_of kvs"
proof (induction kvs)
  case (Cons kv kvs)
  then have "map_of kvs (fst kv) = None" by (simp add: map_of_eq_None_iff)
  with Cons show ?case by (auto simp: fun_eq_iff map_add_def split: option.splits)
qed simp

text \<open>\<open>Set.prototype.add\<close> on an insertion-ordered set.\<close>

definition set_add :: "'a \<Rightarrow> 'a list \<Rightarrow> 'a list" where
  "set_add x xs = (if x \<in> set xs then xs else xs @ [x])"

lemma set_set_add [simp]: "set (set_add x xs) = insert x (set xs)"
  by (auto simp: set_add_def)

lemma distinct_set_add [simp]: "distinct xs \<Longrightarrow> distinct (set_add x xs)"
  by (simp add: set_add_def)

lemma set_fold_set_add [simp]: "set (fold set_add ys xs) = set ys \<union> set xs"
  by (induction ys arbitrary: xs) auto

lemma distinct_fold_set_add [simp]: "distinct xs \<Longrightarrow> distinct (fold set_add ys xs)"
  by (induction ys arbitrary: xs) auto

section \<open>Programs that always return\<close>

definition returns :: "('w, 'a) prog \<Rightarrow> bool" where
  "returns m \<longleftrightarrow> (\<forall>w. \<exists>x w'. m w = (Inr x, w'))"

named_theorems returns_intros \<open>programs built from programs that return\<close>

lemma returnsD:
  assumes "returns m"
  obtains x w' where "m w = (Inr x, w')"
  using assms unfolding returns_def by blast

lemma returns_ret [returns_intros]: "returns (ret x)"
  by (simp add: returns_def ret_def)

lemma returns_readp [returns_intros]: "returns (readp f)"
  by (simp add: returns_def readp_def)

lemma returns_liftp [returns_intros]: "returns (liftp (Inr x))"
  by (simp add: returns_def liftp_def)

lemma returns_bindp [returns_intros]:
  assumes "returns m" and "\<And>x. returns (f x)"
  shows "returns (bindp m f)"
  unfolding returns_def
proof
  fix w
  obtain x w1 where 1: "m w = (Inr x, w1)" using assms(1) by (rule returnsD)
  obtain y w2 where 2: "f x w1 = (Inr y, w2)" using assms(2) by (rule returnsD)
  from 1 2 show "\<exists>y w'. bindp m f w = (Inr y, w')" by (simp add: bindp_def)
qed

lemma returns_seqp [returns_intros]: "returns m \<Longrightarrow> returns k \<Longrightarrow> returns (seqp m k)"
  by (simp add: seqp_def returns_bindp)

lemma returns_catchp [returns_intros]:
  assumes "\<And>e. returns (h e)"
  shows "returns (catchp m h)"
  unfolding returns_def
proof
  fix w show "\<exists>x w'. catchp m h w = (Inr x, w')"
  proof (cases "m w")
    case (Pair r w1)
    then show ?thesis
      using assms by (cases r) (auto simp: catchp_def returns_def)
  qed
qed

lemma returns_forp [returns_intros]: "(\<And>x. returns (f x)) \<Longrightarrow> returns (forp f xs)"
  by (induction xs) (auto intro: returns_intros)

end
