(* ===== verification/Js_Json.thy ===== *)
theory Js_Json
  imports Pi_Prelude
begin

text \<open>
  JSON values as the sources build and serialise them, with \<open>JSON.stringify\<close> and the
  round trip \<open>JSON.parse(JSON.stringify(v))\<close>. A value may still hold \<open>undefined\<close>, as
  the in-memory objects of the program do; serialisation drops it. A number is kept as
  the text JSON gives it, and an object as its properties in their order.
\<close>

datatype json =
    JUndefined
  | JNull
  | JBool bool
  | JNum string
  | JStr string
  | JArr "json list"
  | JObj "(string \<times> json) list"

definition hex_digit :: "nat \<Rightarrow> char" where
  "hex_digit n = (if n < 10 then char_of (48 + n) else char_of (87 + n))"

text \<open>\<open>JSON.stringify\<close> of one character of a string.\<close>

definition json_escape :: "char \<Rightarrow> string" where
  "json_escape c =
     (if c = DQ then [CHR 0x5C, DQ]
      else if c = CHR 0x5C then [CHR 0x5C, CHR 0x5C]
      else if c = CHR 0x08 then [CHR 0x5C, CHR ''b'']
      else if c = CHR 0x0C then [CHR 0x5C, CHR ''f'']
      else if c = NL then [CHR 0x5C, CHR ''n'']
      else if c = CR then [CHR 0x5C, CHR ''r'']
      else if c = CHR 0x09 then [CHR 0x5C, CHR ''t'']
      else if of_char c < (32 :: nat)
        then [CHR 0x5C, CHR ''u'', CHR ''0'', CHR ''0'',
              hex_digit (of_char c div 16), hex_digit (of_char c mod 16)]
      else [c])"

definition json_quote :: "string \<Rightarrow> string" where
  "json_quote s = [DQ] @ concat (map json_escape s) @ [DQ]"

text \<open>
  \<open>JSON.stringify\<close>: \<open>undefined\<close> has no text (\<open>None\<close>); inside an array it becomes
  \<open>null\<close>, inside an object its property is left out.
\<close>

fun json_text :: "json \<Rightarrow> string option"
and json_elems :: "json list \<Rightarrow> string list"
and json_props :: "(string \<times> json) list \<Rightarrow> string list" where
  "json_text JUndefined = None"
| "json_text JNull = Some ''null''"
| "json_text (JBool b) = Some (if b then ''true'' else ''false'')"
| "json_text (JNum n) = Some n"
| "json_text (JStr s) = Some (json_quote s)"
| "json_text (JArr vs) = Some (''['' @ js_join '','' (json_elems vs) @ '']'')"
| "json_text (JObj kvs) = Some (''{'' @ js_join '','' (json_props kvs) @ ''}'')"
| "json_elems [] = []"
| "json_elems (v # vs) =
     (case json_text v of None \<Rightarrow> ''null'' | Some t \<Rightarrow> t) # json_elems vs"
| "json_props [] = []"
| "json_props ((k, v) # kvs) =
     (case json_text v of
        None \<Rightarrow> json_props kvs
      | Some t \<Rightarrow> (json_quote k @ '':'' @ t) # json_props kvs)"

text \<open>
  The value \<open>JSON.parse(JSON.stringify(v))\<close> reads back: properties that are
  \<open>undefined\<close> are gone, array elements that are \<open>undefined\<close> are \<open>null\<close>.
\<close>

fun json_roundtrip :: "json \<Rightarrow> json"
and json_roundtrip_elems :: "json list \<Rightarrow> json list"
and json_roundtrip_props :: "(string \<times> json) list \<Rightarrow> (string \<times> json) list" where
  "json_roundtrip (JArr vs) = JArr (json_roundtrip_elems vs)"
| "json_roundtrip (JObj kvs) = JObj (json_roundtrip_props kvs)"
| "json_roundtrip v = v"
| "json_roundtrip_elems [] = []"
| "json_roundtrip_elems (v # vs) =
     (if v = JUndefined then JNull else json_roundtrip v) # json_roundtrip_elems vs"
| "json_roundtrip_props [] = []"
| "json_roundtrip_props ((k, v) # kvs) =
     (if v = JUndefined then json_roundtrip_props kvs
      else (k, json_roundtrip v) # json_roundtrip_props kvs)"

lemma json_text_None_iff: "json_text v = None \<longleftrightarrow> v = JUndefined"
  by (cases v) auto

lemma json_roundtrip_undefined [simp]: "json_roundtrip v = JUndefined \<longleftrightarrow> v = JUndefined"
  by (cases v) auto

text \<open>Serialising the value read back gives the same text, and reading twice changes nothing.\<close>

lemma json_text_roundtrip:
  "json_text (json_roundtrip v) = json_text v"
  "json_elems (json_roundtrip_elems vs) = json_elems vs"
  "json_props (json_roundtrip_props kvs) = json_props kvs"
proof (induction v and vs and kvs rule: json_text_json_elems_json_props.induct)
  case (11 k v kvs)
  then show ?case
    by (cases "v = JUndefined") (auto simp: json_text_None_iff split: option.splits)
qed (auto split: option.splits)

lemma json_roundtrip_idem:
  "json_roundtrip (json_roundtrip v) = json_roundtrip v"
  "json_roundtrip_elems (json_roundtrip_elems vs) = json_roundtrip_elems vs"
  "json_roundtrip_props (json_roundtrip_props kvs) = json_roundtrip_props kvs"
  by (induction v and vs and kvs rule: json_text_json_elems_json_props.induct) auto

text \<open>\<open>JSON.stringify(v).length\<close> where \<open>v\<close> is an object or array.\<close>

definition json_length :: "json \<Rightarrow> nat" where
  "json_length v = (case json_text v of None \<Rightarrow> 0 | Some t \<Rightarrow> length t)"

text \<open>A property of an object; \<open>JUndefined\<close> where it has none.\<close>

fun json_get :: "json \<Rightarrow> string \<Rightarrow> json" where
  "json_get (JObj kvs) k = (case map_of kvs k of Some v \<Rightarrow> v | None \<Rightarrow> JUndefined)"
| "json_get _ k = JUndefined"

end
