(* ===== verification/Messages.thy ===== *)
theory Messages
  imports Js_Json
begin

text \<open>
  The message vocabulary of the program: content blocks, tools and the messages of
  \<open>packages/ai/src/types.ts\<close>, the text helpers of \<open>packages/ai/src/utils/text.ts\<close>, and
  the message kinds the coding agent adds with their conversion to model messages
  (\<open>packages/coding-agent/src/core/messages.ts\<close>). The last section shows that the
  conversion yields only messages a provider accepts.
\<close>

section \<open>Content blocks\<close>

record tool_call =
  tc_id :: string
  tc_name :: string
  tc_arguments :: json
  tc_thoughtSignature :: "string option"
  tc_namespace :: "string option"

datatype block =
    TextContent string "string option"
  | ThinkingContent string "string option" "bool option"
  | ImageContent string string
  | ToolCall tool_call

text \<open>
  Message content is a string or an array of blocks. Session files are parsed without
  validation, so content can also be \<open>null\<close> or missing (\<open>NoContent\<close>).
\<close>

datatype content = NoContent | TextOnly string | Blocks "block list"

fun is_text_block :: "block \<Rightarrow> bool" where
  "is_text_block (TextContent _ _) = True"
| "is_text_block _ = False"

fun block_text :: "block \<Rightarrow> string" where
  "block_text (TextContent t _) = t"
| "block_text _ = ''''"

fun block_tool_call :: "block \<Rightarrow> tool_call option" where
  "block_tool_call (ToolCall c) = Some c"
| "block_tool_call _ = None"

section \<open>Usage and stop reasons\<close>

record usage_cost =
  uc_input :: rat
  uc_output :: rat
  uc_cacheRead :: rat
  uc_cacheWrite :: rat
  uc_total :: rat

record usage =
  us_input :: nat
  us_output :: nat
  us_cacheRead :: nat
  us_cacheWrite :: nat
  us_cacheWrite1h :: "nat option"
  us_reasoning :: "nat option"
  us_totalTokens :: nat
  us_cost :: usage_cost

datatype stop_reason =
  StopPending | StopStop | StopLength | StopToolUse | StopError | StopAborted | StopDeferred

section \<open>Tools\<close>

datatype constrained_sampling =
    NoConstrainedSampling
  | JsonSchemaSampling string
  | GrammarSampling "(string \<times> string) list"

record tool =
  t_name :: string
  t_description :: string
  t_parameters :: "(string \<times> json) list"
  t_constrainedSampling :: "constrained_sampling option"

record tool_reference =
  ref_name :: string

section \<open>Messages\<close>

record system_message =
  sm_content :: content
  sm_sections :: "(string \<times> string option) list option"
  sm_toolsAdded :: "tool list option"
  sm_toolsRemoved :: "tool_reference list option"
  sm_timestamp :: int

record user_message =
  um_content :: content
  um_timestamp :: int

record deferred_handle =
  dh_provider :: string
  dh_modelId :: string
  dh_api :: string
  dh_id :: string
  dh_expiresAt :: "int option"
  dh_pollAfterMs :: "int option"
  dh_data :: "json option"

datatype thinking_level = TLOff | TLMinimal | TLLow | TLMedium | TLHigh | TLXhigh | TLMax

record assistant_message =
  am_content :: content
  am_api :: string
  am_provider :: string
  am_model :: string
  am_responseModel :: "string option"
  am_responseId :: "string option"
  am_providerThinkingLevel :: "string option"
  am_thinkingLevel :: "thinking_level option"
  am_diagnostics :: "json option"
  am_usage :: "usage option"
  am_stopReason :: stop_reason
  am_deferred :: "deferred_handle option"
  am_errorMessage :: "string option"
  am_rawStopReason :: "string option"
  am_endTurn :: "bool option"
  am_timestamp :: int
  am_durationMs :: "int option"

datatype nested_status = NestedOk | NestedError | NestedUnfinished

record nested_tool_call =
  nc_id :: string
  nc_name :: string
  nc_arguments :: "json option"
  nc_argumentsBytes :: "nat option"
  nc_status :: nested_status
  nc_durationMs :: "int option"
  nc_error :: "string option"

record nested_tool_calls =
  ntc_calls :: "nested_tool_call list"
  ntc_complete :: bool

record tool_result_message =
  tr_toolCallId :: string
  tr_toolName :: string
  tr_content :: content
  tr_details :: "json option"
  tr_usage :: "usage option"
  tr_nestedCalls :: "nested_tool_calls option"
  tr_isError :: bool
  tr_timestamp :: int
  tr_durationMs :: "int option"

record bash_execution_message =
  bx_command :: string
  bx_output :: string
  bx_exitCode :: "int option"
  bx_cancelled :: bool
  bx_truncated :: bool
  bx_fullOutputPath :: "string option"
  bx_timestamp :: int
  bx_excludeFromContext :: bool

record custom_message =
  cm_customType :: string
  cm_content :: content
  cm_display :: bool
  cm_details :: "json option"
  cm_timestamp :: int

record branch_summary_message =
  bs_summary :: string
  bs_fromId :: "string option"
  bs_timestamp :: int

record compaction_summary_message =
  cs_summary :: string
  cs_tokensBefore :: nat
  cs_timestamp :: int

text \<open>
  \<open>HookMsg\<close> is the role \<open>hookMessage\<close> of session files before version 3; the migration
  turns it into \<open>CustomMsg\<close>.
\<close>

datatype agent_message =
    SystemMsg system_message
  | UserMsg user_message
  | AssistantMsg assistant_message
  | ToolResultMsg tool_result_message
  | BashMsg bash_execution_message
  | CustomMsg custom_message
  | BranchSummaryMsg branch_summary_message
  | CompactionSummaryMsg compaction_summary_message
  | HookMsg custom_message

fun is_system :: "agent_message \<Rightarrow> bool" where
  "is_system (SystemMsg _) = True"
| "is_system _ = False"

fun is_assistant :: "agent_message \<Rightarrow> bool" where
  "is_assistant (AssistantMsg _) = True"
| "is_assistant _ = False"

fun is_llm_message :: "agent_message \<Rightarrow> bool" where
  "is_llm_message (SystemMsg _) = True"
| "is_llm_message (UserMsg _) = True"
| "is_llm_message (AssistantMsg _) = True"
| "is_llm_message (ToolResultMsg _) = True"
| "is_llm_message _ = False"

section \<open>Stream events of one assistant response\<close>

text \<open>
  Every event up to the final one carries the response so far; \<open>EvDone\<close> and \<open>EvError\<close>
  carry the final message.
\<close>

datatype assistant_event =
    EvStart assistant_message
  | EvTextStart nat assistant_message
  | EvTextDelta nat string assistant_message
  | EvTextEnd nat string assistant_message
  | EvThinkingStart nat assistant_message
  | EvThinkingDelta nat string assistant_message
  | EvThinkingEnd nat string assistant_message
  | EvToolcallStart nat assistant_message
  | EvToolcallDelta nat string assistant_message
  | EvToolcallEnd nat tool_call assistant_message
  | EvDone stop_reason assistant_message
  | EvError stop_reason assistant_message

section \<open>Text of messages\<close>

text \<open>\<open>contentText\<close>; missing content cannot be filtered and throws.\<close>

definition content_text :: "content \<Rightarrow> string \<Rightarrow> string exc" where
  "content_text c separator =
     (case c of
        NoContent \<Rightarrow> Inl ''Cannot read properties of null (reading filter)''
      | TextOnly s \<Rightarrow> Inr s
      | Blocks bs \<Rightarrow> Inr (js_join separator (map block_text (filter is_text_block bs))))"

text \<open>\<open>contentText\<close> where the caller's type rules missing content out.\<close>

definition text_of :: "content \<Rightarrow> string \<Rightarrow> string" where
  "text_of c separator = (case content_text c separator of Inl _ \<Rightarrow> '''' | Inr t \<Rightarrow> t)"

definition getSystemMessageText :: "system_message \<Rightarrow> string" where
  "getSystemMessageText message =
     js_join [NL, NL]
       (filter (\<lambda>part. part \<noteq> [])
         (text_of (sm_content message) [NL] #
          List.map_filter snd (case sm_sections message of None \<Rightarrow> [] | Some s \<Rightarrow> s)))"

definition renderSystemMessageUpdate :: "system_message \<Rightarrow> string" where
  "renderSystemMessageUpdate message =
     js_join [NL, NL]
       ((let text = text_of (sm_content message) [NL] in if text \<noteq> [] then [text] else [])
        @ map (\<lambda>(name, value).
            case value of
              None \<Rightarrow> ''Removed system prompt section '' @ [DQ] @ name @ [DQ] @ ''.''
            | Some v \<Rightarrow> ''Updated system prompt section '' @ [DQ] @ name @ [DQ] @ '':''
                        @ [NL, NL] @ v)
            (case sm_sections message of None \<Rightarrow> [] | Some s \<Rightarrow> s))"

section \<open>Conversion to model messages\<close>

definition COMPACTION_SUMMARY_PREFIX :: string where
  "COMPACTION_SUMMARY_PREFIX =
     ''The conversation history before this point was compacted into the following summary:''
     @ [NL, NL] @ ''<summary>'' @ [NL]"

definition COMPACTION_SUMMARY_SUFFIX :: string where
  "COMPACTION_SUMMARY_SUFFIX = [NL] @ ''</summary>''"

definition BRANCH_SUMMARY_PREFIX :: string where
  "BRANCH_SUMMARY_PREFIX =
     ''The following is a summary of a branch that this conversation came back from:''
     @ [NL, NL] @ ''<summary>'' @ [NL]"

definition BRANCH_SUMMARY_SUFFIX :: string where
  "BRANCH_SUMMARY_SUFFIX = ''</summary>''"

definition fence :: string where
  "fence = replicate 3 (CHR 0x60)"

definition bashExecutionToText :: "bash_execution_message \<Rightarrow> string" where
  "bashExecutionToText msg =
     ''Ran '' @ [CHR 0x60] @ bx_command msg @ [CHR 0x60, NL]
     @ (if bx_output msg \<noteq> [] then fence @ [NL] @ bx_output msg @ [NL] @ fence
        else ''(no output)'')
     @ (if bx_cancelled msg then [NL, NL] @ ''(command cancelled)''
        else case bx_exitCode msg of
               None \<Rightarrow> ''''
             | Some code \<Rightarrow> if code \<noteq> 0
                 then [NL, NL] @ ''Command exited with code '' @ dec_int code else '''')
     @ (case bx_fullOutputPath msg of
          None \<Rightarrow> ''''
        | Some p \<Rightarrow> if bx_truncated msg \<and> p \<noteq> []
            then [NL, NL] @ ''[Output truncated. Full output: '' @ p @ '']'' else '''')"

definition createBranchSummaryMessage :: "string \<Rightarrow> string \<Rightarrow> int \<Rightarrow> branch_summary_message" where
  "createBranchSummaryMessage summary fromId timestamp =
     \<lparr>bs_summary = summary, bs_fromId = Some fromId, bs_timestamp = timestamp\<rparr>"

definition createCompactionSummaryMessage ::
  "string \<Rightarrow> nat \<Rightarrow> int \<Rightarrow> compaction_summary_message" where
  "createCompactionSummaryMessage summary tokensBefore timestamp =
     \<lparr>cs_summary = summary, cs_tokensBefore = tokensBefore, cs_timestamp = timestamp\<rparr>"

definition createCustomMessage ::
  "string \<Rightarrow> content \<Rightarrow> bool \<Rightarrow> json option \<Rightarrow> int \<Rightarrow> custom_message" where
  "createCustomMessage customType c display details timestamp =
     \<lparr>cm_customType = customType, cm_content = c, cm_display = display,
      cm_details = details, cm_timestamp = timestamp\<rparr>"

definition text_user_message :: "string \<Rightarrow> int \<Rightarrow> agent_message" where
  "text_user_message t timestamp =
     UserMsg \<lparr>um_content = Blocks [TextContent t None], um_timestamp = timestamp\<rparr>"

fun convert_message :: "agent_message \<Rightarrow> agent_message option" where
  "convert_message (BashMsg m) =
     (if bx_excludeFromContext m then None
      else Some (text_user_message (bashExecutionToText m) (bx_timestamp m)))"
| "convert_message (CustomMsg m) =
     Some (UserMsg
       \<lparr>um_content = (case cm_content m of TextOnly s \<Rightarrow> Blocks [TextContent s None] | c \<Rightarrow> c),
        um_timestamp = cm_timestamp m\<rparr>)"
| "convert_message (BranchSummaryMsg m) =
     Some (text_user_message (BRANCH_SUMMARY_PREFIX @ bs_summary m @ BRANCH_SUMMARY_SUFFIX)
             (bs_timestamp m))"
| "convert_message (CompactionSummaryMsg m) =
     Some (text_user_message
             (COMPACTION_SUMMARY_PREFIX @ cs_summary m @ COMPACTION_SUMMARY_SUFFIX)
             (cs_timestamp m))"
| "convert_message (HookMsg _) = None"
| "convert_message m = Some m"

definition convertToLlm :: "agent_message list \<Rightarrow> agent_message list" where
  "convertToLlm messages = List.map_filter convert_message messages"

section \<open>The conversion is closed\<close>

lemma convert_message_llm: "convert_message m = Some m' \<Longrightarrow> is_llm_message m'"
  by (cases m) (auto simp: text_user_message_def split: if_splits)

lemma convert_message_id: "is_llm_message m \<Longrightarrow> convert_message m = Some m"
  by (cases m) auto

lemma convertToLlm_append:
  "convertToLlm (xs @ ys) = convertToLlm xs @ convertToLlm ys"
  by (simp add: convertToLlm_def List.map_filter_def)

lemma convertToLlm_llm: "m \<in> set (convertToLlm ms) \<Longrightarrow> is_llm_message m"
  by (auto simp: convertToLlm_def List.map_filter_def dest: convert_message_llm)

lemma convertToLlm_id: "(\<forall>m \<in> set ms. is_llm_message m) \<Longrightarrow> convertToLlm ms = ms"
  by (induction ms) (auto simp: convertToLlm_def List.map_filter_simps convert_message_id)

section \<open>What the model is shown\<close>

text \<open>
  A message is kept from the model when it is a \<open>!!\<close> command or of a kind the program no
  longer writes.
\<close>

fun kept_from_model :: "agent_message \<Rightarrow> bool" where
  "kept_from_model (BashMsg b) = bx_excludeFromContext b"
| "kept_from_model (HookMsg _) = True"
| "kept_from_model _ = False"

text \<open>
  The report of a command: what was run with its output, then the remarks that apply, set
  apart by blank lines.
\<close>

definition bash_report :: "bash_execution_message \<Rightarrow> string list" where
  "bash_report b =
     [''Ran '' @ [CHR 0x60] @ bx_command b @ [CHR 0x60, NL] @
        (if bx_output b = [] then ''(no output)'' else fence @ [NL] @ bx_output b @ [NL] @ fence)]
     @ (if bx_cancelled b then [''(command cancelled)'']
        else if bx_exitCode b \<in> {None, Some 0} then []
        else [''Command exited with code '' @ dec_int (the (bx_exitCode b))])
     @ (if bx_truncated b \<and> bx_fullOutputPath b \<notin> {None, Some []}
        then [''[Output truncated. Full output: '' @ the (bx_fullOutputPath b) @ '']''] else [])"

text \<open>
  How one message is shown. The model's own roles are shown as they are; every other kind
  speaks as a user message of the same time, with one text, or with the blocks it has.
\<close>

fun shown_as :: "agent_message \<Rightarrow> agent_message \<Rightarrow> bool" where
  "shown_as (BashMsg b) m \<longleftrightarrow> m = text_user_message (js_join [NL, NL] (bash_report b)) (bx_timestamp b)"
| "shown_as (CustomMsg c) m \<longleftrightarrow> (case m of UserMsg u \<Rightarrow> um_timestamp u = cm_timestamp c \<and>
       content_text (um_content u) [NL] = content_text (cm_content c) [NL] \<and>
       (\<forall>bs. cm_content c = Blocks bs \<longrightarrow> um_content u = Blocks bs) \<and>
       (\<forall>s. um_content u \<noteq> TextOnly s)
     | _ \<Rightarrow> False)"
| "shown_as (BranchSummaryMsg b) m \<longleftrightarrow> m = text_user_message
     (''The following is a summary of a branch that this conversation came back from:'' @
      [NL, NL] @ ''<summary>'' @ [NL] @ bs_summary b @ ''</summary>'') (bs_timestamp b)"
| "shown_as (CompactionSummaryMsg c) m \<longleftrightarrow> m = text_user_message
     (''The conversation history before this point was compacted into the following summary:'' @
      [NL, NL] @ ''<summary>'' @ [NL] @ cs_summary c @ [NL] @ ''</summary>'') (cs_timestamp c)"
| "shown_as (HookMsg _) m \<longleftrightarrow> False"
| "shown_as m m' \<longleftrightarrow> m' = m"

lemma bash_report_text: "bashExecutionToText b = js_join [NL, NL] (bash_report b)"
  by (auto simp: bashExecutionToText_def bash_report_def split: option.split)

lemma convert_message_kept: "convert_message m = None \<longleftrightarrow> kept_from_model m"
  by (cases m) auto

lemma convert_message_shown: "convert_message m = Some m' \<Longrightarrow> shown_as m m'"
  by (cases m)
    (auto simp: bash_report_text BRANCH_SUMMARY_PREFIX_def BRANCH_SUMMARY_SUFFIX_def
      COMPACTION_SUMMARY_PREFIX_def COMPACTION_SUMMARY_SUFFIX_def content_text_def
      split: if_splits content.splits)

lemma convertToLlm_shown: "list_all2 shown_as (filter (\<lambda>m. \<not> kept_from_model m) ms) (convertToLlm ms)"
proof (induction ms)
  case (Cons m ms)
  show ?case
  proof (cases "convert_message m")
    case None
    with Cons.IH show ?thesis
      by (simp add: convertToLlm_def List.map_filter_simps flip: convert_message_kept)
  next
    case (Some m')
    then have "\<not> kept_from_model m" by (simp flip: convert_message_kept)
    with Cons.IH Some convert_message_shown [OF Some] show ?thesis
      by (simp add: convertToLlm_def List.map_filter_simps)
  qed
qed (simp add: convertToLlm_def List.map_filter_simps)

section \<open>Property of the conversion\<close>

text \<open>
  C36: The conversion shows the model, in order and once each, exactly the messages that are
  not kept from it: \<open>!!\<close> commands and unknown kinds are left out, the model's own roles pass
  unchanged, commands are reported with their output, exit code and truncation, and both
  kinds of summary are marked as what they are. The result has only roles a provider
  accepts, so converting it again changes nothing.
\<close>

theorem convertToLlm_closed:
  "list_all2 shown_as (filter (\<lambda>m. \<not> kept_from_model m) ms) (convertToLlm ms) \<and>
   list_all is_llm_message (convertToLlm ms) \<and>
   convertToLlm (convertToLlm ms) = convertToLlm ms"
  by (simp add: list_all_iff convertToLlm_shown convertToLlm_id convertToLlm_llm)

end
