(* ===== verification/Transcript.thy ===== *)
theory Transcript
  imports Messages
begin

text \<open>
  The transcript replay of \<open>packages/ai/src/utils/transcript.ts\<close>: the system messages of
  a transcript carry the prompt and the tool set as deltas, and replaying them in order
  gives the current prompt, sections and tools. The lemmas show that the delta between
  two tool states replays to the second one, that collapsing a transcript keeps its
  replayed state, and when the top-level request field plus in-place additions is exact.
\<close>

section \<open>Replay\<close>

definition createInitialSystemMessage ::
  "string option \<Rightarrow> tool list option \<Rightarrow> system_message option" where
  "createInitialSystemMessage systemPrompt tools =
     (let hasSystemPrompt = (systemPrompt \<noteq> None \<and> systemPrompt \<noteq> Some []);
          hasTools = (tools \<noteq> None \<and> tools \<noteq> Some [])
      in if \<not> hasSystemPrompt \<and> \<not> hasTools then None
         else Some \<lparr>sm_content = TextOnly (case systemPrompt of None \<Rightarrow> [] | Some p \<Rightarrow> p),
                    sm_sections = None,
                    sm_toolsAdded = (if hasTools then tools else None),
                    sm_toolsRemoved = None,
                    sm_timestamp = 0\<rparr>)"

record llm_context =
  ctx_systemPrompt :: "string option"
  ctx_llmMessages :: "agent_message list"
  ctx_llmTools :: "tool list option"

definition normalizeContext :: "llm_context \<Rightarrow> agent_message list" where
  "normalizeContext ctx =
     (case createInitialSystemMessage (ctx_systemPrompt ctx) (ctx_llmTools ctx) of
        Some initialMessage \<Rightarrow> SystemMsg initialMessage # ctx_llmMessages ctx
      | None \<Rightarrow> ctx_llmMessages ctx)"

fun getInitialSystemMessage :: "agent_message list \<Rightarrow> system_message option" where
  "getInitialSystemMessage (SystemMsg m # _) = Some m"
| "getInitialSystemMessage _ = None"

definition withoutInitialSystemMessage :: "agent_message list \<Rightarrow> agent_message list" where
  "withoutInitialSystemMessage messages =
     (if getInitialSystemMessage messages \<noteq> None then tl messages else messages)"

text \<open>One system message applied to the tool map: removals first, then additions.\<close>

definition apply_tool_delta ::
  "system_message \<Rightarrow> (string, tool) jsmap \<Rightarrow> (string, tool) jsmap" where
  "apply_tool_delta m tools =
     fold (\<lambda>(k, v). AList.update k v) (map (\<lambda>t. (t_name t, t)) (opt_list (sm_toolsAdded m)))
       (fold AList.delete (map ref_name (opt_list (sm_toolsRemoved m))) tools)"

fun replay_step ::
  "agent_message \<Rightarrow> (string, tool) jsmap \<Rightarrow> (string, tool) jsmap" where
  "replay_step (SystemMsg m) tools = apply_tool_delta m tools"
| "replay_step _ tools = tools"

definition replay_tools :: "agent_message list \<Rightarrow> (string, tool) jsmap" where
  "replay_tools messages = fold replay_step messages []"

definition getCurrentTools :: "agent_message list \<Rightarrow> tool list" where
  "getCurrentTools messages = jsmap_values (replay_tools messages)"

definition apply_section ::
  "string \<times> string option \<Rightarrow> (string, string) jsmap \<Rightarrow> (string, string) jsmap" where
  "apply_section nv sections =
     (case nv of (name, None) \<Rightarrow> AList.delete name sections
      | (name, Some value) \<Rightarrow> AList.update name value sections)"

record replayed_prompt =
  rp_content :: "string list"
  rp_sections :: "(string, string) jsmap"
  rp_timestamp :: "int option"

fun replay_prompt_step :: "agent_message \<Rightarrow> replayed_prompt \<Rightarrow> replayed_prompt" where
  "replay_prompt_step (SystemMsg m) st =
     (let text = text_of (sm_content m) [NL]
      in \<lparr>rp_content = (if text \<noteq> [] then rp_content st @ [text] else rp_content st),
          rp_sections = fold apply_section (opt_list (sm_sections m)) (rp_sections st),
          rp_timestamp = (case rp_timestamp st of None \<Rightarrow> Some (sm_timestamp m) | t \<Rightarrow> t)\<rparr>)"
| "replay_prompt_step _ st = st"

definition replay_prompt :: "agent_message list \<Rightarrow> replayed_prompt" where
  "replay_prompt messages =
     fold replay_prompt_step messages
       \<lparr>rp_content = [], rp_sections = [], rp_timestamp = None\<rparr>"

definition getCurrentSystemMessage :: "agent_message list \<Rightarrow> system_message option" where
  "getCurrentSystemMessage messages =
     (let st = replay_prompt messages; tools = getCurrentTools messages
      in if rp_timestamp st = None \<and> tools = [] then None
         else Some
           \<lparr>sm_content = TextOnly (js_join [NL, NL] (rp_content st)),
            sm_sections = (if rp_sections st \<noteq> []
              then Some (map (\<lambda>(k, v). (k, Some v)) (rp_sections st)) else None),
            sm_toolsAdded = (if tools \<noteq> [] then Some tools else None),
            sm_toolsRemoved = None,
            sm_timestamp = (case rp_timestamp st of None \<Rightarrow> 0 | Some t \<Rightarrow> t)\<rparr>)"

definition getCurrentSystemPrompt :: "agent_message list \<Rightarrow> string" where
  "getCurrentSystemPrompt messages =
     (case getCurrentSystemMessage messages of
        Some message \<Rightarrow> getSystemMessageText message | None \<Rightarrow> [])"

definition collapseSystemMessages :: "agent_message list \<Rightarrow> agent_message list" where
  "collapseSystemMessages messages =
     (let rest = filter (\<lambda>m. \<not> is_system m) messages
      in case getCurrentSystemMessage messages of
           Some head \<Rightarrow> SystemMsg head # rest | None \<Rightarrow> rest)"

definition resolveTranscript :: "agent_message list \<Rightarrow> bool \<Rightarrow> agent_message list" where
  "resolveTranscript messages supportsMidConvoSystemMessages =
     (if supportsMidConvoSystemMessages then messages else collapseSystemMessages messages)"

section \<open>Tool declarations and their differences\<close>

text \<open>
  \<open>toToolDeclaration\<close> applies to tools with further (executable, display) fields: the
  extension part of the record is dropped.
\<close>

definition toToolDeclaration :: "'a tool_scheme \<Rightarrow> tool" where
  "toToolDeclaration t =
     \<lparr>t_name = t_name t,
      t_description = t_description t,
      t_parameters = json_roundtrip_props (t_parameters t),
      t_constrainedSampling = t_constrainedSampling t\<rparr>"

fun sampling_json :: "constrained_sampling \<Rightarrow> json" where
  "sampling_json NoConstrainedSampling = JBool False"
| "sampling_json (JsonSchemaSampling strict) =
     JObj [(''type'', JStr ''json_schema''), (''strict'', JStr strict)]"
| "sampling_json (GrammarSampling variants) =
     JObj [(''type'', JStr ''grammar''), (''variants'', JObj (map (\<lambda>(k, v). (k, JStr v)) variants))]"

definition tool_json :: "tool \<Rightarrow> json" where
  "tool_json t =
     JObj ([(''name'', JStr (t_name t)), (''description'', JStr (t_description t)),
            (''parameters'', JObj (t_parameters t))]
           @ (case t_constrainedSampling t of None \<Rightarrow> []
              | Some c \<Rightarrow> [(''constrainedSampling'', sampling_json c)]))"

definition declarationsEqual :: "'a tool_scheme \<Rightarrow> 'b tool_scheme \<Rightarrow> bool" where
  "declarationsEqual left right \<longleftrightarrow>
     json_text (tool_json (toToolDeclaration left)) = json_text (tool_json (toToolDeclaration right))"

record tool_state_changes =
  tsc_toolsAdded :: "tool list"
  tsc_toolsRemoved :: "tool_reference list"

definition getToolStateChanges :: "tool list \<Rightarrow> tool list \<Rightarrow> tool_state_changes" where
  "getToolStateChanges previous current =
     (let previousTools = jsmap_of (map (\<lambda>t. (t_name t, t)) previous);
          currentTools = jsmap_of (map (\<lambda>t. (t_name t, t)) current)
      in \<lparr>tsc_toolsAdded =
            map toToolDeclaration
              (filter (\<lambda>t. case map_of previousTools (t_name t) of
                  None \<Rightarrow> True | Some p \<Rightarrow> \<not> declarationsEqual p t) current),
          tsc_toolsRemoved =
            map (\<lambda>t. \<lparr>ref_name = t_name t\<rparr>)
              (filter (\<lambda>t. case map_of currentTools (t_name t) of
                  None \<Rightarrow> True | Some c \<Rightarrow> \<not> declarationsEqual t c) previous)\<rparr>)"

fun declare_step :: "agent_message \<Rightarrow> (string, tool) jsmap \<Rightarrow> (string, tool) jsmap" where
  "declare_step (SystemMsg m) ds =
     fold (\<lambda>(k, v). AList.update k v) (map (\<lambda>t. (t_name t, t)) (opt_list (sm_toolsAdded m))) ds"
| "declare_step _ ds = ds"

definition getDeclaredTools :: "agent_message list \<Rightarrow> tool list" where
  "getDeclaredTools messages = jsmap_values (fold declare_step messages [])"

fun redefines_in :: "tool list \<Rightarrow> (string, tool) jsmap \<Rightarrow> (string, tool) jsmap option" where
  "redefines_in [] declared = Some declared"
| "redefines_in (t # ts) declared =
     (case map_of declared (t_name t) of
        Some previous \<Rightarrow> if \<not> declarationsEqual previous t then None
                        else redefines_in ts (AList.update (t_name t) t declared)
      | None \<Rightarrow> redefines_in ts (AList.update (t_name t) t declared))"

fun hasToolRedefinitions_from :: "agent_message list \<Rightarrow> (string, tool) jsmap \<Rightarrow> bool" where
  "hasToolRedefinitions_from [] declared = False"
| "hasToolRedefinitions_from (SystemMsg m # ms) declared =
     (case redefines_in (opt_list (sm_toolsAdded m)) declared of
        None \<Rightarrow> True | Some declared' \<Rightarrow> hasToolRedefinitions_from ms declared')"
| "hasToolRedefinitions_from (_ # ms) declared = hasToolRedefinitions_from ms declared"

definition hasToolRedefinitions :: "agent_message list \<Rightarrow> bool" where
  "hasToolRedefinitions messages = hasToolRedefinitions_from messages []"

fun add_names :: "tool list \<Rightarrow> string list \<Rightarrow> string list option" where
  "add_names [] declared = Some declared"
| "add_names (t # ts) declared =
     (if t_name t \<in> set declared then None else add_names ts (set_add (t_name t) declared))"

fun hasNonAdditive_from :: "agent_message list \<Rightarrow> string list \<Rightarrow> bool" where
  "hasNonAdditive_from [] declared = False"
| "hasNonAdditive_from (SystemMsg m # ms) declared =
     (if opt_list (sm_toolsRemoved m) \<noteq> [] then True
      else case add_names (opt_list (sm_toolsAdded m)) declared of
             None \<Rightarrow> True | Some declared' \<Rightarrow> hasNonAdditive_from ms declared')"
| "hasNonAdditive_from (_ # ms) declared = hasNonAdditive_from ms declared"

definition hasNonAdditiveToolChanges :: "agent_message list \<Rightarrow> bool" where
  "hasNonAdditiveToolChanges messages = hasNonAdditive_from messages []"

record transcript_tools =
  tt_requestTools :: "tool list"
  tt_anchorsAdditions :: bool

definition resolveTranscriptTools :: "agent_message list \<Rightarrow> bool \<Rightarrow> transcript_tools" where
  "resolveTranscriptTools messages supportsToolAdditions =
     (let anchorsAdditions = (supportsToolAdditions \<and> \<not> hasNonAdditiveToolChanges messages)
      in \<lparr>tt_requestTools =
            (if anchorsAdditions
             then (case getInitialSystemMessage messages of
                     None \<Rightarrow> [] | Some m \<Rightarrow> opt_list (sm_toolsAdded m))
             else getCurrentTools messages),
          tt_anchorsAdditions = anchorsAdditions\<rparr>)"

section \<open>Keyed tool maps\<close>

definition keyed :: "(string, tool) jsmap \<Rightarrow> bool" where
  "keyed m \<longleftrightarrow> wf_jsmap m \<and> (\<forall>(k, t) \<in> set m. k = t_name t)"

definition tool_lookup :: "'a tool_scheme list \<Rightarrow> string \<Rightarrow> 'a tool_scheme option" where
  "tool_lookup ts = map_of (map (\<lambda>t. (t_name t, t)) ts)"

lemma keyed_Nil [simp]: "keyed []"
  by (simp add: keyed_def)

lemma keyed_update: "keyed m \<Longrightarrow> keyed (AList.update (t_name t) t m)"
  by (auto simp: keyed_def wf_jsmap_update dest: set_update_sub)

lemma keyed_delete: "keyed m \<Longrightarrow> keyed (AList.delete k m)"
  using wf_jsmap_delete [of m k] by (auto simp: keyed_def AList.delete_eq)

lemma keyed_fold_update:
  "keyed m \<Longrightarrow> keyed (fold (\<lambda>(k, v). AList.update k v) (map (\<lambda>t. (t_name t, t)) ts) m)"
  by (induction ts arbitrary: m) (auto intro: keyed_update)

lemma keyed_fold_delete: "keyed m \<Longrightarrow> keyed (fold AList.delete ks m)"
  by (induction ks arbitrary: m) (auto intro: keyed_delete)

lemma keyed_replay_step: "keyed m \<Longrightarrow> keyed (replay_step msg m)"
  by (cases msg) (auto simp: apply_tool_delta_def intro: keyed_fold_update keyed_fold_delete)

lemma keyed_fold_replay: "keyed m \<Longrightarrow> keyed (fold replay_step msgs m)"
  by (induction msgs arbitrary: m) (auto intro: keyed_replay_step)

lemma keyed_replay_tools [simp]: "keyed (replay_tools msgs)"
  by (simp add: replay_tools_def keyed_fold_replay)

lemma keyed_values_map: "keyed m \<Longrightarrow> map (\<lambda>t. (t_name t, t)) (jsmap_values m) = m"
  by (auto simp: keyed_def jsmap_values_def intro!: map_idI)

lemma distinct_keyed_values: "keyed m \<Longrightarrow> distinct (map t_name (jsmap_values m))"
proof -
  assume k: "keyed m"
  then have "map t_name (jsmap_values m) = jsmap_keys m"
    by (auto simp: keyed_def jsmap_values_def jsmap_keys_def)
  with k show ?thesis by (simp add: keyed_def wf_jsmap_def)
qed

lemma distinct_getCurrentTools [simp]: "distinct (map t_name (getCurrentTools msgs))"
  by (simp add: getCurrentTools_def distinct_keyed_values)

lemma tool_lookup_getCurrentTools:
  "tool_lookup (getCurrentTools msgs) = map_of (replay_tools msgs)"
  by (simp add: tool_lookup_def getCurrentTools_def keyed_values_map)

lemma map_of_jsmap_of_tools:
  "distinct (map t_name ts) \<Longrightarrow>
     map_of (jsmap_of (map (\<lambda>t. (t_name t, t)) ts)) = tool_lookup ts"
  by (rule ext) (simp add: map_of_jsmap_of tool_lookup_def map_of_rev_distinct comp_def)

lemma tool_lookup_Some:
  "tool_lookup ts k = Some t \<Longrightarrow> t \<in> set ts \<and> t_name t = k"
  by (auto simp: tool_lookup_def dest!: map_of_SomeD)

lemma tool_lookup_mem:
  "distinct (map t_name ts) \<Longrightarrow> t \<in> set ts \<Longrightarrow> tool_lookup ts (t_name t) = Some t"
  by (auto simp: tool_lookup_def comp_def intro!: map_of_is_SomeI)

lemma tool_lookup_None: "tool_lookup ts k = None \<longleftrightarrow> k \<notin> t_name ` set ts"
  by (force simp: tool_lookup_def map_of_eq_None_iff image_image)

section \<open>Declarations compare as equivalence\<close>

lemma t_name_declaration [simp]: "t_name (toToolDeclaration t) = t_name t"
  by (simp add: toToolDeclaration_def)

lemma toToolDeclaration_idem [simp]:
  "toToolDeclaration (toToolDeclaration t) = toToolDeclaration t"
  by (simp add: toToolDeclaration_def json_roundtrip_idem)

lemma declarationsEqual_refl [simp]: "declarationsEqual t t"
  by (simp add: declarationsEqual_def)

lemma declarationsEqual_declaration [simp]:
  "declarationsEqual (toToolDeclaration t) u = declarationsEqual t u"
  "declarationsEqual t (toToolDeclaration u) = declarationsEqual t u"
  by (simp_all add: declarationsEqual_def)

section \<open>A difference replays to the state it was computed for\<close>

lemma replay_tools_append_system:
  "map_of (replay_tools (msgs @ [SystemMsg m])) k =
     (case tool_lookup (rev (opt_list (sm_toolsAdded m))) k of
        Some t \<Rightarrow> Some t
      | None \<Rightarrow> if k \<in> ref_name ` set (opt_list (sm_toolsRemoved m)) then None
                else map_of (replay_tools msgs) k)"
proof -
  have "replay_tools (msgs @ [SystemMsg m]) = apply_tool_delta m (replay_tools msgs)"
    by (simp add: replay_tools_def)
  then show ?thesis
    by (simp add: apply_tool_delta_def jm.lookup_put_all jm.lookup_del_all tool_lookup_def
        rev_map split: option.splits)
qed

lemma tool_lookup_rev: "distinct (map t_name ts) \<Longrightarrow> tool_lookup (rev ts) = tool_lookup ts"
  by (simp add: tool_lookup_def flip: rev_map) (rule map_of_rev_distinct, simp add: comp_def)

lemma distinct_map_filter: "distinct (map f xs) \<Longrightarrow> distinct (map f (filter P xs))"
  by (induction xs) auto

lemma tool_changes_lookup:
  fixes previous current :: "tool list"
  assumes p: "distinct (map t_name previous)" and c: "distinct (map t_name current)"
  defines "ch \<equiv> getToolStateChanges previous current"
  shows "tool_lookup (tsc_toolsAdded ch) k =
     (case tool_lookup current k of
        None \<Rightarrow> None
      | Some t \<Rightarrow> (case tool_lookup previous k of
            None \<Rightarrow> Some (toToolDeclaration t)
          | Some p \<Rightarrow> if declarationsEqual p t then None else Some (toToolDeclaration t)))"
    and "k \<in> ref_name ` set (tsc_toolsRemoved ch) \<longleftrightarrow>
     (case tool_lookup previous k of
        None \<Rightarrow> False
      | Some p \<Rightarrow> (case tool_lookup current k of
            None \<Rightarrow> True | Some t \<Rightarrow> \<not> declarationsEqual p t))"
    and "distinct (map t_name (tsc_toolsAdded ch))"
proof -
  define keep where "keep t = (case tool_lookup previous (t_name t) of
      None \<Rightarrow> True | Some p \<Rightarrow> \<not> declarationsEqual p t)" for t :: tool
  have added: "tsc_toolsAdded ch = map toToolDeclaration (filter keep current)"
    by (simp add: ch_def getToolStateChanges_def keep_def [abs_def] map_of_jsmap_of_tools p)
  have removed: "tsc_toolsRemoved ch = map (\<lambda>t. \<lparr>ref_name = t_name t\<rparr>)
      (filter (\<lambda>t. case tool_lookup current (t_name t) of
          None \<Rightarrow> True | Some c \<Rightarrow> \<not> declarationsEqual t c) previous)"
    by (simp add: ch_def getToolStateChanges_def map_of_jsmap_of_tools c)
  show dist: "distinct (map t_name (tsc_toolsAdded ch))"
    by (simp add: added comp_def distinct_map_filter c)
  show "tool_lookup (tsc_toolsAdded ch) k =
     (case tool_lookup current k of
        None \<Rightarrow> None
      | Some t \<Rightarrow> (case tool_lookup previous k of
            None \<Rightarrow> Some (toToolDeclaration t)
          | Some p \<Rightarrow> if declarationsEqual p t then None else Some (toToolDeclaration t)))"
  proof (cases "tool_lookup current k")
    case None
    then have "tool_lookup (tsc_toolsAdded ch) k = None"
      by (auto simp: tool_lookup_None added)
    with None show ?thesis by simp
  next
    case (Some t)
    then have t: "t \<in> set current" "t_name t = k" by (auto dest: tool_lookup_Some)
    show ?thesis
    proof (cases "keep t")
      case True
      with t have "toToolDeclaration t \<in> set (tsc_toolsAdded ch)" by (auto simp: added)
      from tool_lookup_mem [OF dist this] t True Some show ?thesis
        by (auto simp: keep_def split: option.splits)
    next
      case False
      with t c have "k \<notin> t_name ` set (tsc_toolsAdded ch)"
        by (auto simp: added) (metis Some option.inject tool_lookup_mem)
      then have "tool_lookup (tsc_toolsAdded ch) k = None" by (simp add: tool_lookup_None)
      with Some False t show ?thesis by (auto simp: keep_def split: option.splits)
    qed
  qed
  define gone where "gone t = (case tool_lookup current (t_name t) of
      None \<Rightarrow> True | Some c \<Rightarrow> \<not> declarationsEqual t c)" for t :: tool
  have mem: "k \<in> ref_name ` set (tsc_toolsRemoved ch) \<longleftrightarrow>
      (\<exists>q\<in>set previous. t_name q = k \<and> gone q)"
    by (force simp: removed gone_def [symmetric] image_image)
  show "k \<in> ref_name ` set (tsc_toolsRemoved ch) \<longleftrightarrow>
     (case tool_lookup previous k of
        None \<Rightarrow> False
      | Some p \<Rightarrow> (case tool_lookup current k of
            None \<Rightarrow> True | Some t \<Rightarrow> \<not> declarationsEqual p t))"
  proof (cases "tool_lookup previous k")
    case None
    then have "k \<notin> t_name ` set previous" by (simp add: tool_lookup_None)
    then have "\<not> (\<exists>q\<in>set previous. t_name q = k \<and> gone q)" by blast
    with None mem show ?thesis by simp
  next
    case (Some q)
    then have q: "q \<in> set previous" "t_name q = k" by (auto dest: tool_lookup_Some)
    have "q' = q" if "q' \<in> set previous" "t_name q' = k" for q'
      using that p Some by (metis option.inject tool_lookup_mem)
    with q have "(\<exists>q\<in>set previous. t_name q = k \<and> gone q) \<longleftrightarrow> gone q" by blast
    with Some mem q show ?thesis by (simp add: gone_def)
  qed
qed

lemma tool_changes_replay:
  assumes c: "distinct (map t_name current)"
    and "opt_list (sm_toolsAdded m) = tsc_toolsAdded (getToolStateChanges (getCurrentTools msgs) current)"
    and "opt_list (sm_toolsRemoved m) = tsc_toolsRemoved (getToolStateChanges (getCurrentTools msgs) current)"
  shows "rel_option declarationsEqual
           (tool_lookup (getCurrentTools (msgs @ [SystemMsg m])) k) (tool_lookup current k)"
proof -
  note ch = tool_changes_lookup [OF distinct_getCurrentTools [of msgs] c]
  have rev: "tool_lookup (rev (opt_list (sm_toolsAdded m))) =
      tool_lookup (tsc_toolsAdded (getToolStateChanges (getCurrentTools msgs) current))"
    unfolding assms(2) by (rule tool_lookup_rev) (rule ch(3))
  show ?thesis
    unfolding tool_lookup_getCurrentTools replay_tools_append_system rev assms(3) ch(1,2)
    by (simp add: tool_lookup_getCurrentTools split: option.split)
qed

lemma replay_tools_append: "replay_tools (xs @ ys) = fold replay_step ys (replay_tools xs)"
  by (simp add: replay_tools_def)

lemma fold_replay_no_system: "\<forall>m\<in>set ms. \<not> is_system m \<Longrightarrow> fold replay_step ms tools = tools"
proof (induction ms arbitrary: tools)
  case (Cons m ms)
  then show ?case by (cases m) auto
qed simp

section \<open>Collapsing a transcript keeps its replayed state\<close>

lemma update_fresh: "k \<notin> fst ` set m \<Longrightarrow> AList.update k v m = m @ [(k, v)]"
  by (induction m) auto

lemma fold_update_fresh:
  "distinct (map fst (m @ kvs)) \<Longrightarrow> fold (\<lambda>(k, v). AList.update k v) kvs m = m @ kvs"
proof (induction kvs arbitrary: m)
  case (Cons kv kvs)
  obtain k v where kv: "kv = (k, v)" by fastforce
  from Cons.prems kv have "k \<notin> fst ` set m" by auto
  then have "AList.update k v m = m @ [(k, v)]" by (rule update_fresh)
  with Cons kv show ?case by simp
qed simp

lemma replay_tools_single:
  "distinct (map t_name ts) \<Longrightarrow> opt_list (sm_toolsAdded m) = ts \<Longrightarrow> opt_list (sm_toolsRemoved m) = [] \<Longrightarrow>
     getCurrentTools [SystemMsg m] = ts"
  by (simp add: getCurrentTools_def replay_tools_def apply_tool_delta_def fold_update_fresh comp_def
      jsmap_values_def)

lemma getCurrentTools_collapsed:
  assumes "getCurrentSystemMessage msgs = Some m"
  shows "getCurrentTools [SystemMsg m] = getCurrentTools msgs"
proof (rule replay_tools_single)
  show "distinct (map t_name (getCurrentTools msgs))" by simp
qed (use assms in \<open>auto simp: getCurrentSystemMessage_def Let_def split: if_splits\<close>)

lemma wf_apply_section: "wf_jsmap m \<Longrightarrow> wf_jsmap (apply_section nv m)"
  by (cases nv) (auto simp: apply_section_def jsmap_simps split: option.splits)

lemma wf_fold_section: "wf_jsmap m \<Longrightarrow> wf_jsmap (fold apply_section nvs m)"
  by (induction nvs arbitrary: m) (auto intro: wf_apply_section)

lemma wf_replay_prompt_step: "wf_jsmap (rp_sections st) \<Longrightarrow> wf_jsmap (rp_sections (replay_prompt_step msg st))"
  by (cases msg) (auto simp: Let_def wf_fold_section)

lemma wf_fold_prompt: "wf_jsmap (rp_sections st) \<Longrightarrow> wf_jsmap (rp_sections (fold replay_prompt_step msgs st))"
  by (induction msgs arbitrary: st) (auto intro: wf_replay_prompt_step)

lemma wf_replay_prompt [simp]: "wf_jsmap (rp_sections (replay_prompt msgs))"
  by (simp add: replay_prompt_def wf_fold_prompt)

lemma fold_section_fresh:
  "distinct (map fst (m @ kvs)) \<Longrightarrow> fold apply_section (map (\<lambda>(k, v). (k, Some v)) kvs) m = m @ kvs"
proof (induction kvs arbitrary: m)
  case (Cons kv kvs)
  obtain k v where kv: "kv = (k, v)" by fastforce
  from Cons.prems kv have "k \<notin> fst ` set m" by auto
  then have "AList.update k v m = m @ [(k, v)]" by (rule update_fresh)
  with Cons kv show ?case by (simp add: apply_section_def)
qed simp

text \<open>The parts the replay keeps are non-empty, so joining and reading them again is stable.\<close>

lemma rp_content_nonempty_step:
  "[] \<notin> set (rp_content st) \<Longrightarrow> [] \<notin> set (rp_content (replay_prompt_step msg st))"
  by (cases msg) (auto simp: Let_def)

lemma rp_content_nonempty: "[] \<notin> set (rp_content (replay_prompt msgs))"
proof -
  have "[] \<notin> set (rp_content st) \<Longrightarrow> [] \<notin> set (rp_content (fold replay_prompt_step msgs st))" for st
    by (induction msgs arbitrary: st) (auto simp: rp_content_nonempty_step)
  then show ?thesis by (simp add: replay_prompt_def)
qed

lemma js_join_Nil_iff: "[] \<notin> set ps \<Longrightarrow> js_join sep ps = [] \<longleftrightarrow> ps = []"
  by (cases ps) (auto simp: js_join_Cons)

lemma text_of_TextOnly [simp]: "text_of (TextOnly t) sep = t"
  by (simp add: text_of_def content_text_def)

lemma replay_prompt_single:
  "replay_prompt [SystemMsg m] =
     \<lparr>rp_content = (if text_of (sm_content m) [NL] \<noteq> [] then [text_of (sm_content m) [NL]] else []),
      rp_sections = fold apply_section (opt_list (sm_sections m)) [],
      rp_timestamp = Some (sm_timestamp m)\<rparr>"
  by (simp add: replay_prompt_def Let_def)

lemma getCurrentSystemMessage_idem:
  assumes "getCurrentSystemMessage msgs = Some m"
  shows "getCurrentSystemMessage [SystemMsg m] = Some m"
proof -
  let ?st = "replay_prompt msgs"
  let ?tools = "getCurrentTools msgs"
  have dist: "distinct (map fst (rp_sections ?st))"
    using wf_replay_prompt [of msgs] by (simp add: wf_jsmap_def jsmap_keys_def)
  have tools: "getCurrentTools [SystemMsg m] = ?tools"
    by (rule getCurrentTools_collapsed) (rule assms)
  from assms have m: "m =
      \<lparr>sm_content = TextOnly (js_join [NL, NL] (rp_content ?st)),
       sm_sections = (if rp_sections ?st \<noteq> []
         then Some (map (\<lambda>(k, v). (k, Some v)) (rp_sections ?st)) else None),
       sm_toolsAdded = (if ?tools \<noteq> [] then Some ?tools else None),
       sm_toolsRemoved = None,
       sm_timestamp = (case rp_timestamp ?st of None \<Rightarrow> 0 | Some t \<Rightarrow> t)\<rparr>"
    by (auto simp: getCurrentSystemMessage_def Let_def split: if_splits)
  have sections: "fold apply_section (opt_list (sm_sections m)) [] = rp_sections ?st"
    using fold_section_fresh [of "[]" "rp_sections ?st"] dist by (auto simp: m)
  have content: "text_of (sm_content m) [NL] = js_join [NL, NL] (rp_content ?st)"
    by (simp add: m)
  have replay: "replay_prompt [SystemMsg m] =
      \<lparr>rp_content = (if rp_content ?st = [] then [] else [js_join [NL, NL] (rp_content ?st)]),
       rp_sections = rp_sections ?st, rp_timestamp = Some (sm_timestamp m)\<rparr>"
    unfolding replay_prompt_single sections content
    by (simp add: js_join_Nil_iff [OF rp_content_nonempty])
  show ?thesis
    unfolding getCurrentSystemMessage_def Let_def replay tools
    by (subst m) (auto simp: m)
qed

lemma fold_prompt_no_system:
  "\<forall>m\<in>set ms. \<not> is_system m \<Longrightarrow> fold replay_prompt_step ms st = st"
proof (induction ms arbitrary: st)
  case (Cons m ms)
  then show ?case by (cases m) auto
qed simp

lemma getCurrentSystemMessage_tail:
  assumes "\<forall>m\<in>set ms. \<not> is_system m"
  shows "getCurrentSystemMessage (xs @ ms) = getCurrentSystemMessage xs"
    and "getCurrentTools (xs @ ms) = getCurrentTools xs"
  using assms
  by (simp_all add: getCurrentSystemMessage_def getCurrentTools_def replay_tools_def replay_prompt_def
      fold_replay_no_system fold_prompt_no_system)

lemma getCurrentTools_None:
  "getCurrentSystemMessage ms = None \<Longrightarrow> getCurrentTools ms = []"
  by (auto simp: getCurrentSystemMessage_def Let_def split: if_splits)

lemma collapse_keeps_state:
  "getCurrentSystemMessage (collapseSystemMessages ms) = getCurrentSystemMessage ms"
  "getCurrentTools (collapseSystemMessages ms) = getCurrentTools ms"
proof -
  let ?rest = "filter (\<lambda>m. \<not> is_system m) ms"
  have rest: "\<forall>m\<in>set ?rest. \<not> is_system m" by simp
  have "getCurrentSystemMessage (collapseSystemMessages ms) = getCurrentSystemMessage ms \<and>
        getCurrentTools (collapseSystemMessages ms) = getCurrentTools ms"
  proof (cases "getCurrentSystemMessage ms")
    case None
    have "getCurrentSystemMessage [] = None"
      by (simp add: getCurrentSystemMessage_def replay_prompt_def getCurrentTools_def
          replay_tools_def jsmap_values_def)
    moreover have "getCurrentTools [] = []"
      by (simp add: getCurrentTools_def replay_tools_def jsmap_values_def)
    ultimately show ?thesis
      using None getCurrentSystemMessage_tail [OF rest, of "[]"]
      by (simp add: collapseSystemMessages_def getCurrentTools_None)
  next
    case (Some head)
    then show ?thesis
      using getCurrentSystemMessage_tail [OF rest, of "[SystemMsg head]"]
        getCurrentSystemMessage_idem [OF Some] getCurrentTools_collapsed [OF Some]
      by (simp add: collapseSystemMessages_def)
  qed
  then show "getCurrentSystemMessage (collapseSystemMessages ms) = getCurrentSystemMessage ms"
    and "getCurrentTools (collapseSystemMessages ms) = getCurrentTools ms" by auto
qed

section \<open>Addition-only transcripts\<close>

fun added_tools :: "agent_message list \<Rightarrow> tool list" where
  "added_tools [] = []"
| "added_tools (SystemMsg m # ms) = opt_list (sm_toolsAdded m) @ added_tools ms"
| "added_tools (_ # ms) = added_tools ms"

lemma add_names_Some:
  "add_names ts ns = Some ns' \<Longrightarrow>
     set ns' = set ns \<union> t_name ` set ts \<and> distinct (map t_name ts) \<and> set ns \<inter> t_name ` set ts = {}"
proof (induction ts arbitrary: ns)
  case (Cons t ts)
  from Cons.prems have t: "t_name t \<notin> set ns" "add_names ts (set_add (t_name t) ns) = Some ns'"
    by (auto split: if_splits)
  from Cons.IH [OF t(2)] t(1) show ?case by auto
qed auto

lemma additive_replay:
  assumes "\<not> hasNonAdditive_from ms ns" and "set ns = fst ` set m" and "distinct (map fst m)"
  shows "fold replay_step ms m = m @ map (\<lambda>t. (t_name t, t)) (added_tools ms)
     \<and> distinct (map t_name (added_tools ms)) \<and> set ns \<inter> t_name ` set (added_tools ms) = {}"
  using assms
proof (induction ms ns arbitrary: m rule: hasNonAdditive_from.induct)
  case (2 msg ms ns)
  let ?ts = "opt_list (sm_toolsAdded msg)"
  from 2(2) obtain ns' where r: "opt_list (sm_toolsRemoved msg) = []"
    and ns': "add_names ?ts ns = Some ns'" and rest: "\<not> hasNonAdditive_from ms ns'"
    by (auto split: if_splits option.splits)
  note names = add_names_Some [OF ns']
  let ?m = "m @ map (\<lambda>t. (t_name t, t)) ?ts"
  have keys: "set ns' = fst ` set ?m" and dist: "distinct (map fst ?m)"
    using names 2(3,4) by (auto simp: image_image image_Un comp_def)
  have step: "replay_step (SystemMsg msg) m = ?m"
    using fold_update_fresh [OF dist] r by (simp add: apply_tool_delta_def)
  from r have "\<not> opt_list (sm_toolsRemoved msg) \<noteq> []" by simp
  from 2(1) [OF this ns' rest keys dist] show ?case
    using names by (auto simp: step simp del: replay_step.simps)
qed auto

lemma additive_current_tools:
  assumes "\<not> hasNonAdditiveToolChanges ms"
  shows "getCurrentTools ms = added_tools ms"
  using additive_replay [of ms "[]" "[]"] assms
  by (simp add: hasNonAdditiveToolChanges_def getCurrentTools_def replay_tools_def jsmap_values_def comp_def)

section \<open>Properties of the replay\<close>

lemma non_system_collapse: "filter (\<lambda>m. \<not> is_system m) (collapseSystemMessages ms) = filter (\<lambda>m. \<not> is_system m) ms"
  by (simp add: collapseSystemMessages_def Let_def split: option.splits)

text \<open>
  C28: Collapsing a transcript for a model without mid-conversation system messages keeps
  the replayed system message, tool set and prompt and every other message in order,
  leaves no system message after the first place, and collapsing again changes nothing.
\<close>

theorem collapse_preserves_replay:
  "getCurrentSystemMessage (collapseSystemMessages ms) = getCurrentSystemMessage ms \<and>
   getCurrentTools (collapseSystemMessages ms) = getCurrentTools ms \<and>
   getCurrentSystemPrompt (collapseSystemMessages ms) = getCurrentSystemPrompt ms \<and>
   filter (\<lambda>m. \<not> is_system m) (collapseSystemMessages ms) = filter (\<lambda>m. \<not> is_system m) ms \<and>
   list_all (\<lambda>m. \<not> is_system m) (withoutInitialSystemMessage (collapseSystemMessages ms)) \<and>
   collapseSystemMessages (collapseSystemMessages ms) = collapseSystemMessages ms"
proof -
  have clean: "list_all (\<lambda>m. \<not> is_system m) (withoutInitialSystemMessage (collapseSystemMessages ms))"
  proof (cases "getCurrentSystemMessage ms")
    case None
    have "withoutInitialSystemMessage xs = xs" if "\<forall>m\<in>set xs. \<not> is_system m" for xs
      using that by (cases xs rule: getInitialSystemMessage.cases)
        (auto simp: withoutInitialSystemMessage_def)
    with None show ?thesis by (simp add: collapseSystemMessages_def Let_def list_all_iff)
  qed (simp add: collapseSystemMessages_def Let_def list_all_iff withoutInitialSystemMessage_def)
  have idem: "collapseSystemMessages (collapseSystemMessages ms) = collapseSystemMessages ms"
    by (subst collapseSystemMessages_def [of "collapseSystemMessages ms"])
      (simp only: collapse_keeps_state non_system_collapse, simp add: collapseSystemMessages_def)
  from clean idem show ?thesis
    by (simp add: collapse_keeps_state non_system_collapse getCurrentSystemPrompt_def)
qed

lemma added_tools_split:
  "added_tools ms = (case getInitialSystemMessage ms of None \<Rightarrow> [] | Some m \<Rightarrow> opt_list (sm_toolsAdded m))
     @ added_tools (withoutInitialSystemMessage ms)"
  by (cases ms rule: getInitialSystemMessage.cases) (simp_all add: withoutInitialSystemMessage_def)

text \<open>
  The tools of a request are exact: what the top-level field carries, followed by the
  additions the later system messages anchor in place when they may, is the current tool
  list.
\<close>

theorem request_tools_exact:
  "getCurrentTools ms =
     tt_requestTools (resolveTranscriptTools ms b) @
     (if tt_anchorsAdditions (resolveTranscriptTools ms b)
      then added_tools (withoutInitialSystemMessage ms) else [])"
  using additive_current_tools [of ms] added_tools_split [of ms]
  by (auto simp: resolveTranscriptTools_def Let_def)

end
