(* ===== verification/Event_Stream.thy ===== *)
theory Event_Stream
  imports Messages
begin

text \<open>
  The event stream of \<open>packages/ai/src/utils/event-stream.ts\<close>: a two-list FIFO queue, and
  a stream whose producer pushes events and whose consumers either find a queued event or
  wait for the next one. The queue implements the list interface \<open>fifo\<close>; the stream
  theorems show that what consumers have received followed by what is still queued is
  exactly what was accepted, in order.
\<close>

section \<open>FifoQueue\<close>

record 'a fifo_queue =
  incoming :: "'a list"
  outgoing :: "'a list"

definition empty_queue :: "'a fifo_queue" where
  "empty_queue = \<lparr>incoming = [], outgoing = []\<rparr>"

definition queue_length :: "'a fifo_queue \<Rightarrow> nat" where
  "queue_length q = length (incoming q) + length (outgoing q)"

text \<open>
  Arrays are kept with their end at the end of the list: \<open>push\<close> appends, \<open>pop\<close> takes the
  last element. \<open>shift_in\<close> is the loop that moves \<open>incoming\<close> over.
\<close>

definition enqueue :: "'a \<Rightarrow> 'a fifo_queue \<Rightarrow> 'a fifo_queue" where
  "enqueue value q = q\<lparr>incoming := incoming q @ [value]\<rparr>"

function shift_in :: "'a list \<Rightarrow> 'a list \<Rightarrow> 'a list" where
  "shift_in inc out = (if inc = [] then out else shift_in (butlast inc) (out @ [last inc]))"
  by pat_completeness auto
termination
  by (relation "measure (\<lambda>(inc, _). length inc)") auto

declare shift_in.simps [simp del]

definition dequeue :: "'a fifo_queue \<Rightarrow> 'a option \<times> 'a fifo_queue" where
  "dequeue q =
     (let q' = (if outgoing q = []
                then \<lparr>incoming = [], outgoing = shift_in (incoming q) (outgoing q)\<rparr> else q)
      in if outgoing q' = [] then (None, q')
         else (Some (last (outgoing q')), q'\<lparr>outgoing := butlast (outgoing q')\<rparr>))"

definition queue_list :: "'a fifo_queue \<Rightarrow> 'a list" where
  "queue_list q = rev (outgoing q) @ incoming q"

lemma shift_in_rev: "shift_in inc out = out @ rev inc"
proof (induction inc out rule: shift_in.induct)
  case (1 inc out)
  show ?case
  proof (cases inc rule: rev_cases)
    case Nil
    then show ?thesis by (simp add: shift_in.simps)
  next
    case (snoc ys y)
    with 1 show ?thesis by (subst shift_in.simps) simp
  qed
qed

text \<open>The interface: a queue is a list that grows at its end and is read from its front.\<close>

locale fifo =
  fixes content :: "'q \<Rightarrow> 'a list"
    and empty :: "'q"
    and enq :: "'a \<Rightarrow> 'q \<Rightarrow> 'q"
    and deq :: "'q \<Rightarrow> 'a option \<times> 'q"
    and len :: "'q \<Rightarrow> nat"
  assumes content_empty: "content empty = []"
    and content_enq: "content (enq x q) = content q @ [x]"
    and deq_nil: "content q = [] \<Longrightarrow> fst (deq q) = None \<and> content (snd (deq q)) = []"
    and deq_cons: "content q = x # xs \<Longrightarrow> fst (deq q) = Some x \<and> content (snd (deq q)) = xs"
    and len_content: "len q = length (content q)"
begin

lemma content_fold_enq: "content (fold enq xs q) = content q @ xs"
  by (induction xs arbitrary: q) (simp_all add: content_enq)

lemma deq_result: "fst (deq q) = (case content q of [] \<Rightarrow> None | x # _ \<Rightarrow> Some x)"
  using deq_nil [of q] deq_cons [of q] by (cases "content q") auto

lemma deq_content: "content (snd (deq q)) = tl (content q)"
  using deq_nil [of q] deq_cons [of q] by (cases "content q") auto

lemma len_zero: "len q = 0 \<longleftrightarrow> content q = []"
  by (simp add: len_content)

fun deq_all :: "nat \<Rightarrow> 'q \<Rightarrow> 'a list" where
  "deq_all 0 q = []"
| "deq_all (Suc n) q = (case deq q of (None, _) \<Rightarrow> [] | (Some x, q') \<Rightarrow> x # deq_all n q')"

lemma deq_all_take: "deq_all n q = take n (content q)"
proof (induction n arbitrary: q)
  case (Suc n)
  show ?case
    using deq_nil [of q] deq_cons [of q] Suc
    by (cases "content q"; cases "deq q") (auto split: option.splits)
qed simp

end

interpretation fq: fifo queue_list empty_queue enqueue dequeue queue_length
  by unfold_locales
     (auto simp: queue_list_def empty_queue_def enqueue_def dequeue_def queue_length_def
       shift_in_rev Let_def append_eq_Cons_conv rev_eq_Cons_iff)

section \<open>EventStream\<close>

text \<open>
  A waiting consumer is the \<open>resolve\<close> function of the promise it awaits, here the number of
  that consumer; what the stream hands to consumers is recorded in \<open>es_delivered\<close>, one
  entry per resolved promise or direct read (\<open>None\<close> for a done result). The final result
  is a promise: the first \<open>resolveFinalResult\<close> decides it.
\<close>

record ('e, 'r) event_stream =
  es_queue :: "'e fifo_queue"
  es_waiting :: "nat fifo_queue"
  es_done :: bool
  es_finalResult :: "'r option"
  es_delivered :: "(nat \<times> 'e option) list"

definition new_stream :: "('e, 'r) event_stream" where
  "new_stream = \<lparr>es_queue = empty_queue, es_waiting = empty_queue, es_done = False,
     es_finalResult = None, es_delivered = []\<rparr>"

definition resolve_final :: "'r \<Rightarrow> ('e, 'r) event_stream \<Rightarrow> ('e, 'r) event_stream" where
  "resolve_final r s = (case es_finalResult s of None \<Rightarrow> s\<lparr>es_finalResult := Some r\<rparr> | Some _ \<Rightarrow> s)"

definition stream_push ::
  "('e \<Rightarrow> bool) \<Rightarrow> ('e \<Rightarrow> 'r) \<Rightarrow> 'e \<Rightarrow> ('e, 'r) event_stream \<Rightarrow> ('e, 'r) event_stream" where
  "stream_push isComplete extractResult event s =
     (if es_done s then s
      else let s1 = (if isComplete event
                     then resolve_final (extractResult event) (s\<lparr>es_done := True\<rparr>) else s)
           in case dequeue (es_waiting s1) of
                (Some waiter, ws) \<Rightarrow>
                  s1\<lparr>es_waiting := ws, es_delivered := es_delivered s1 @ [(waiter, Some event)]\<rparr>
              | (None, ws) \<Rightarrow> s1\<lparr>es_waiting := ws, es_queue := enqueue event (es_queue s1)\<rparr>)"

function notify_done :: "nat fifo_queue \<Rightarrow> (nat \<times> 'e option) list \<Rightarrow> nat fifo_queue \<times> (nat \<times> 'e option) list" where
  "notify_done ws delivered =
     (if queue_length ws = 0 then (ws, delivered)
      else case dequeue ws of
             (Some waiter, ws') \<Rightarrow> notify_done ws' (delivered @ [(waiter, None)])
           | (None, ws') \<Rightarrow> (ws', delivered))"
  by pat_completeness auto
termination
proof (relation "measure (\<lambda>(ws, _). queue_length ws)")
  fix ws :: "nat fifo_queue" and x y waiter ws'
  assume "queue_length ws \<noteq> 0" "(x, y) = dequeue ws" "x = Some waiter"
  then have "queue_list (snd (dequeue ws)) = tl (queue_list ws)" "queue_list ws \<noteq> []"
    by (auto simp: fq.deq_content fq.len_content)
  then have "queue_length (snd (dequeue ws)) < queue_length ws"
    by (simp add: fq.len_content)
  then show "((y, delivered @ [(waiter, None)]), ws, delivered)
      \<in> measure (\<lambda>(ws, _). queue_length ws)" for delivered :: "(nat \<times> 'e option) list"
    using \<open>(x, y) = dequeue ws\<close> by (metis case_prod_conv in_measure snd_conv)
qed auto

declare notify_done.simps [simp del]

definition stream_end :: "'r option \<Rightarrow> ('e, 'r) event_stream \<Rightarrow> ('e, 'r) event_stream" where
  "stream_end result s =
     (let s1 = s\<lparr>es_done := True\<rparr>;
          s2 = (case result of Some r \<Rightarrow> resolve_final r s1 | None \<Rightarrow> s1);
          (ws, delivered) = notify_done (es_waiting s2) (es_delivered s2)
      in s2\<lparr>es_waiting := ws, es_delivered := delivered\<rparr>)"

text \<open>
  One step of the async iterator of consumer \<open>c\<close>: yield a queued event, return, or wait.
  The result says whether the iterator yielded, finished or is now waiting.
\<close>

datatype 'e iter_step = Yielded 'e | Returned | Awaiting

definition stream_next :: "nat \<Rightarrow> ('e, 'r) event_stream \<Rightarrow> 'e iter_step \<times> ('e, 'r) event_stream" where
  "stream_next c s =
     (if queue_length (es_queue s) > 0
      then (case dequeue (es_queue s) of
              (Some e, q) \<Rightarrow> (Yielded e, s\<lparr>es_queue := q, es_delivered := es_delivered s @ [(c, Some e)]\<rparr>)
            | (None, q) \<Rightarrow> (Returned, s\<lparr>es_queue := q\<rparr>))
      else if es_done s then (Returned, s)
      else (Awaiting, s\<lparr>es_waiting := enqueue c (es_waiting s)\<rparr>))"

definition stream_result :: "('e, 'r) event_stream \<Rightarrow> 'r option" where
  "stream_result s = es_finalResult s"

section \<open>AssistantMessageEventStream\<close>

definition js_round :: "rat \<Rightarrow> int" where
  "js_round x = \<lfloor>x + 1 / 2\<rfloor>"

record assistant_stream =
  ams_stream :: "(assistant_event, assistant_message) event_stream"
  ams_startedAt :: int
  ams_startedAtMonotonic :: rat

text \<open>
  \<open>now\<close> is \<open>performance.now()\<close> when the message arrives. The final message is timed once:
  not when the stream is done, not when it has a duration, not when it predates the stream.
\<close>

definition time_message :: "assistant_stream \<Rightarrow> rat \<Rightarrow> assistant_message \<Rightarrow> assistant_message" where
  "time_message st now message =
     (if es_done (ams_stream st) \<or> am_durationMs message \<noteq> None
         \<or> am_timestamp message < ams_startedAt st then message
      else message\<lparr>am_durationMs := Some (max 0 (js_round (now - ams_startedAtMonotonic st)))\<rparr>)"

fun is_final_event :: "assistant_event \<Rightarrow> bool" where
  "is_final_event (EvDone _ _) = True"
| "is_final_event (EvError _ _) = True"
| "is_final_event _ = False"

fun event_message :: "assistant_event \<Rightarrow> assistant_message" where
  "event_message (EvStart m) = m"
| "event_message (EvTextStart _ m) = m"
| "event_message (EvTextDelta _ _ m) = m"
| "event_message (EvTextEnd _ _ m) = m"
| "event_message (EvThinkingStart _ m) = m"
| "event_message (EvThinkingDelta _ _ m) = m"
| "event_message (EvThinkingEnd _ _ m) = m"
| "event_message (EvToolcallStart _ m) = m"
| "event_message (EvToolcallDelta _ _ m) = m"
| "event_message (EvToolcallEnd _ _ m) = m"
| "event_message (EvDone _ m) = m"
| "event_message (EvError _ m) = m"

definition assistant_push :: "assistant_stream \<Rightarrow> rat \<Rightarrow> assistant_event \<Rightarrow> assistant_stream" where
  "assistant_push st now event =
     (let event' = (case event of
            EvDone reason m \<Rightarrow> EvDone reason (time_message st now m)
          | EvError reason m \<Rightarrow> EvError reason (time_message st now m)
          | e \<Rightarrow> e)
      in st\<lparr>ams_stream := stream_push is_final_event event_message event' (ams_stream st)\<rparr>)"

definition assistant_end :: "assistant_stream \<Rightarrow> rat \<Rightarrow> assistant_message option \<Rightarrow> assistant_stream" where
  "assistant_end st now result =
     st\<lparr>ams_stream := stream_end (map_option (time_message st now) result) (ams_stream st)\<rparr>"

section \<open>What a stream accepts and delivers\<close>

datatype ('e, 'r) stream_op = Push 'e | End "'r option" | Next nat

fun stream_step ::
  "('e \<Rightarrow> bool) \<Rightarrow> ('e \<Rightarrow> 'r) \<Rightarrow> ('e, 'r) stream_op \<Rightarrow> ('e, 'r) event_stream \<Rightarrow> ('e, 'r) event_stream" where
  "stream_step isC ext (Push e) s = stream_push isC ext e s"
| "stream_step isC ext (End r) s = stream_end r s"
| "stream_step isC ext (Next c) s = snd (stream_next c s)"

definition stream_run ::
  "('e \<Rightarrow> bool) \<Rightarrow> ('e \<Rightarrow> 'r) \<Rightarrow> ('e, 'r) stream_op list \<Rightarrow> ('e, 'r) event_stream" where
  "stream_run isC ext ops = fold (stream_step isC ext) ops new_stream"

text \<open>The specification: events pushed before the stream is done, up to and including the completing one.\<close>

fun accepted :: "('e \<Rightarrow> bool) \<Rightarrow> bool \<Rightarrow> ('e, 'r) stream_op list \<Rightarrow> 'e list" where
  "accepted isC d [] = []"
| "accepted isC d (Push e # ops) = (if d then accepted isC d ops else e # accepted isC (isC e) ops)"
| "accepted isC d (End r # ops) = accepted isC True ops"
| "accepted isC d (Next c # ops) = accepted isC d ops"

text \<open>The first completing push or \<open>end(result)\<close> decides the final result.\<close>

fun first_result :: "('e \<Rightarrow> bool) \<Rightarrow> ('e \<Rightarrow> 'r) \<Rightarrow> bool \<Rightarrow> ('e, 'r) stream_op list \<Rightarrow> 'r option" where
  "first_result isC ext d [] = None"
| "first_result isC ext d (Push e # ops) =
     (if \<not> d \<and> isC e then Some (ext e) else first_result isC ext d ops)"
| "first_result isC ext d (End r # ops) =
     (case r of Some x \<Rightarrow> Some x | None \<Rightarrow> first_result isC ext True ops)"
| "first_result isC ext d (Next c # ops) = first_result isC ext d ops"

definition delivered_events :: "('e, 'r) event_stream \<Rightarrow> 'e list" where
  "delivered_events s = List.map_filter snd (es_delivered s)"

definition stream_inv :: "('e, 'r) event_stream \<Rightarrow> bool" where
  "stream_inv s \<longleftrightarrow> queue_list (es_queue s) = [] \<or> queue_list (es_waiting s) = []"

lemma map_filter_snoc: "List.map_filter f (xs @ [x]) = List.map_filter f xs @ (case f x of None \<Rightarrow> [] | Some y \<Rightarrow> [y])"
  by (simp add: List.map_filter_def split: option.splits)

lemma dequeue_cases:
  obtains (empty) q' where "queue_list q = []" "dequeue q = (None, q')" "queue_list q' = []"
  | (elem) x q' where "queue_list q = x # queue_list q'" "dequeue q = (Some x, q')"
proof (cases "queue_list q")
  case Nil
  from fq.deq_nil [OF this] Nil empty show thesis by (cases "dequeue q") auto
next
  case (Cons x xs)
  from fq.deq_cons [OF this] Cons elem show thesis by (cases "dequeue q") auto
qed

lemma resolve_final_fields [simp]:
  "es_queue (resolve_final r s) = es_queue s"
  "es_waiting (resolve_final r s) = es_waiting s"
  "es_done (resolve_final r s) = es_done s"
  "es_delivered (resolve_final r s) = es_delivered s"
  "es_finalResult (resolve_final r s) = (case es_finalResult s of None \<Rightarrow> Some r | Some x \<Rightarrow> Some x)"
  by (simp_all add: resolve_final_def split: option.splits)

lemma stream_push_effect:
  assumes "stream_inv s" and "\<not> es_done s"
  shows "stream_inv (stream_push isC ext e s)"
    and "delivered_events (stream_push isC ext e s) @ queue_list (es_queue (stream_push isC ext e s)) =
         delivered_events s @ queue_list (es_queue s) @ [e]"
    and "es_done (stream_push isC ext e s) = isC e"
    and "es_finalResult (stream_push isC ext e s) =
         (if isC e then Some (case es_finalResult s of None \<Rightarrow> ext e | Some x \<Rightarrow> x) else es_finalResult s)"
proof -
  have "stream_inv (stream_push isC ext e s) \<and>
      delivered_events (stream_push isC ext e s) @ queue_list (es_queue (stream_push isC ext e s)) =
        delivered_events s @ queue_list (es_queue s) @ [e] \<and>
      es_done (stream_push isC ext e s) = isC e \<and>
      es_finalResult (stream_push isC ext e s) =
        (if isC e then Some (case es_finalResult s of None \<Rightarrow> ext e | Some x \<Rightarrow> x) else es_finalResult s)"
    using assms
    by (cases rule: dequeue_cases [of "es_waiting s"])
       (auto simp: stream_push_def Let_def stream_inv_def delivered_events_def map_filter_snoc
         fq.content_enq split: option.splits)
  then show "stream_inv (stream_push isC ext e s)"
    and "delivered_events (stream_push isC ext e s) @ queue_list (es_queue (stream_push isC ext e s)) =
         delivered_events s @ queue_list (es_queue s) @ [e]"
    and "es_done (stream_push isC ext e s) = isC e"
    and "es_finalResult (stream_push isC ext e s) =
         (if isC e then Some (case es_finalResult s of None \<Rightarrow> ext e | Some x \<Rightarrow> x) else es_finalResult s)"
    by blast+
qed

lemma notify_done_effect:
  "queue_list (fst (notify_done ws d)) = []"
  "snd (notify_done ws d) = d @ map (\<lambda>w. (w, None)) (queue_list ws)"
proof -
  have "queue_list (fst (notify_done ws d)) = [] \<and>
    snd (notify_done ws d) = d @ map (\<lambda>w. (w, None)) (queue_list ws)"
  proof (induction ws d rule: notify_done.induct)
    case (1 ws d)
    show ?case
      by (cases rule: dequeue_cases [of ws])
         (use 1 in \<open>auto simp: notify_done.simps [of ws d] fq.len_content\<close>)
  qed
  then show "queue_list (fst (notify_done ws d)) = []"
    and "snd (notify_done ws d) = d @ map (\<lambda>w. (w, None)) (queue_list ws)" by auto
qed

lemma map_filter_none: "List.map_filter snd (map (\<lambda>w. (w, None)) ws) = []"
  by (induction ws) (simp_all add: List.map_filter_simps)

lemma stream_end_effect:
  shows "stream_inv (stream_end r s)"
    and "delivered_events (stream_end r s) = delivered_events s"
    and "es_queue (stream_end r s) = es_queue s"
    and "es_done (stream_end r s)"
    and "queue_list (es_waiting (stream_end r s)) = []"
    and "es_finalResult (stream_end r s) = (case es_finalResult s of None \<Rightarrow> r | Some x \<Rightarrow> Some x)"
  by (auto simp: stream_end_def Let_def case_prod_beta stream_inv_def delivered_events_def
      notify_done_effect List.map_filter_def filter_empty_conv split: option.splits)

lemma stream_next_effect:
  assumes "stream_inv s"
  shows "stream_inv (snd (stream_next c s))"
    and "delivered_events (snd (stream_next c s)) @ queue_list (es_queue (snd (stream_next c s))) =
         delivered_events s @ queue_list (es_queue s)"
    and "es_done (snd (stream_next c s)) = es_done s"
    and "es_finalResult (snd (stream_next c s)) = es_finalResult s"
  by (cases rule: dequeue_cases [of "es_queue s"],
      use assms in \<open>auto simp: stream_next_def stream_inv_def delivered_events_def map_filter_snoc
        fq.len_content fq.content_enq\<close>)+

lemma stream_push_done: "es_done s \<Longrightarrow> stream_push isC ext e s = s"
  by (simp add: stream_push_def)

lemma stream_step_effect:
  assumes "stream_inv s"
  shows "stream_inv (stream_step isC ext op s)"
    and "delivered_events (stream_step isC ext op s) @ queue_list (es_queue (stream_step isC ext op s)) =
         delivered_events s @ queue_list (es_queue s) @
         (case op of Push e \<Rightarrow> if es_done s then [] else [e] | _ \<Rightarrow> [])"
    and "es_done (stream_step isC ext op s) =
         (es_done s \<or> (case op of Push e \<Rightarrow> isC e | End _ \<Rightarrow> True | Next _ \<Rightarrow> False))"
    and "es_finalResult (stream_step isC ext op s) =
         (case es_finalResult s of Some x \<Rightarrow> Some x
          | None \<Rightarrow> (case op of Push e \<Rightarrow> if \<not> es_done s \<and> isC e then Some (ext e) else None
                     | End r \<Rightarrow> r | Next _ \<Rightarrow> None))"
  by (cases op; cases "es_done s",
      use assms in \<open>auto simp: stream_push_effect stream_push_done stream_end_effect
        stream_next_effect split: option.splits\<close>)+

lemma stream_run_from:
  assumes "stream_inv s"
  shows "stream_inv (fold (stream_step isC ext) ops s) \<and>
         delivered_events (fold (stream_step isC ext) ops s) @
           queue_list (es_queue (fold (stream_step isC ext) ops s)) =
         delivered_events s @ queue_list (es_queue s) @ accepted isC (es_done s) ops \<and>
         es_finalResult (fold (stream_step isC ext) ops s) =
         (case es_finalResult s of Some x \<Rightarrow> Some x | None \<Rightarrow> first_result isC ext (es_done s) ops)"
  using assms
proof (induction ops arbitrary: s)
  case (Cons op ops)
  note step = stream_step_effect [OF Cons.prems, of isC ext op]
  from Cons.IH [OF step(1)] step show ?case
    by (cases op; cases "es_done s") (auto split: option.splits simp flip: append_assoc)
qed (auto split: option.splits)

lemma stream_inv_new [simp]: "stream_inv new_stream"
  by (simp add: stream_inv_def new_stream_def empty_queue_def queue_list_def)

section \<open>Properties of the stream\<close>

text \<open>
  C33: For every sequence of pushes, ends and iterator steps of any number of consumers,
  what the consumers have received followed by what is still queued is exactly what the
  stream accepted, in order: every event pushed up to and including the completing one,
  none lost, duplicated or reordered. Events are never queued while a consumer waits.
\<close>

theorem stream_delivers_in_order:
  "delivered_events (stream_run isC ext ops) @ queue_list (es_queue (stream_run isC ext ops)) =
     accepted isC False ops \<and>
   stream_inv (stream_run isC ext ops)"
  using stream_run_from [OF stream_inv_new, of isC ext ops]
  by (simp add: stream_run_def new_stream_def delivered_events_def List.map_filter_simps
      empty_queue_def queue_list_def)

text \<open>
  The stream's result is settled by the first completing push or \<open>end(result)\<close> and never
  changes after.
\<close>

theorem stream_result_first:
  "stream_result (stream_run isC ext ops) = first_result isC ext False ops"
  using stream_run_from [OF stream_inv_new, of isC ext ops]
  by (simp add: stream_run_def stream_result_def new_stream_def)

end
