(* ===== verification/Tool_Calls.thy ===== *)
theory Tool_Calls
  imports Transcript Event_Stream "HOL-Library.Multiset"
begin

text \<open>
  Tool execution of the agent loop (\<open>packages/agent/src/agent-loop.ts\<close> from
  \<open>failToolCallsFromTruncatedMessage\<close> on, with the types of
  \<open>packages/agent/src/types.ts\<close>): preparing, executing and finalizing a tool call, the
  sequential and the parallel batch, and the batch that fails calls of a truncated
  message.

  The hooks, tools and the event sink of the embedding application are programs over its
  world \<open>'w\<close>. A run keeps the events it emitted in \<open>run_log\<close>, which no callback can
  touch, beside that world. Parallel execution is an explicit interleaving: each started
  call is a task of up to three atomic steps (execute, finalize, emit its end event), and
  the schedule that orders the steps is read from the world.
\<close>

section \<open>Types\<close>

record tool_result =
  res_content :: content
  res_details :: "json option"
  res_structuredContent :: "json option"
  res_usage :: "usage option"
  res_isError :: "bool option"
  res_terminate :: "bool option"

datatype execution_mode = Sequential | Parallel

datatype replay_policy = ReplayNever | ReplaySafe

text \<open>
  \<open>execute\<close> yields the partial results it passed to its update callback before its promise
  settled, and then its result or the error it threw.
\<close>

record 'w agent_tool = tool +
  at_label :: string
  at_prepareArguments :: "(json \<Rightarrow> json exc) option"
  at_outputSchema :: "json option"
  at_execute :: "string \<Rightarrow> json \<Rightarrow> 'w \<Rightarrow> (tool_result list \<times> tool_result exc) \<times> 'w"
  at_replay :: "replay_policy option"
  at_executionMode :: "execution_mode option"

record 'w agent_context =
  ac_messages :: "agent_message list"
  ac_tools :: "'w agent_tool list option"

record before_tool_call_result =
  btr_block :: "bool option"
  btr_reason :: "string option"
  btr_terminate :: "bool option"

record after_tool_call_result =
  atr_content :: "block list option"
  atr_details :: "json option"
  atr_structuredContent :: "json option"
  atr_isError :: "bool option"
  atr_usage :: "usage option"
  atr_terminate :: "bool option"

record tool_call_outcome =
  oc_toolCall :: tool_call
  oc_result :: tool_result
  oc_isError :: bool
  oc_durationMs :: "int option"

datatype agent_event =
    AgentStart
  | AgentEnd "agent_message list"
  | TurnStart
  | TurnEnd agent_message "tool_result_message list"
  | MessageStart agent_message
  | MessageUpdate agent_message assistant_event
  | MessageEnd agent_message
  | ToolExecutionStart string string json
  | ToolExecutionUpdate string string json tool_result
  | ToolExecutionEnd string string tool_result bool "int option"

record 'w tool_hooks =
  hk_beforeToolCall ::
    "(assistant_message \<Rightarrow> tool_call \<Rightarrow> json \<Rightarrow> 'w agent_context
      \<Rightarrow> ('w, before_tool_call_result option) prog) option"
  hk_afterToolCall ::
    "(assistant_message \<Rightarrow> tool_call \<Rightarrow> json \<Rightarrow> tool_result \<Rightarrow> bool \<Rightarrow> 'w agent_context
      \<Rightarrow> ('w, after_tool_call_result option) prog) option"

text \<open>
  What a run takes from its surroundings: the clocks, the abort flag, the schema validator
  of the tool arguments, the order in which concurrent tool calls progress, and the sink
  that consumes events.
\<close>

record 'w env =
  env_now :: "'w \<Rightarrow> int"
  env_perf :: "'w \<Rightarrow> rat"
  env_aborted :: "'w \<Rightarrow> bool"
  env_validate :: "'w agent_tool \<Rightarrow> tool_call \<Rightarrow> json exc"
  env_schedule :: "'w \<Rightarrow> nat list"
  env_sink :: "agent_event \<Rightarrow> ('w, unit) prog"

record 'w run =
  run_log :: "agent_event list"
  run_world :: 'w

definition emit :: "'w env \<Rightarrow> agent_event \<Rightarrow> ('w run, unit) prog" where
  "emit env event = (\<lambda>r.
     case env_sink env event (run_world r) of
       (x, w') \<Rightarrow> (x, r\<lparr>run_log := run_log r @ [event], run_world := w'\<rparr>))"

definition on_world :: "('w, 'a) prog \<Rightarrow> ('w run, 'a) prog" where
  "on_world m = (\<lambda>r. case m (run_world r) of (x, w') \<Rightarrow> (x, r\<lparr>run_world := w'\<rparr>))"

definition is_aborted :: "'w env \<Rightarrow> ('w, bool) prog" where
  "is_aborted env = readp (env_aborted env)"

section \<open>Preparing a call\<close>

definition createErrorToolResult :: "string \<Rightarrow> tool_result" where
  "createErrorToolResult message =
     \<lparr>res_content = Blocks [TextContent message None], res_details = Some (JObj []),
      res_structuredContent = None, res_usage = None, res_isError = None, res_terminate = None\<rparr>"

datatype 'w preparation = Prepared tool_call "'w agent_tool" json | Immediate tool_result bool

definition prepareToolCallArguments :: "'w agent_tool \<Rightarrow> tool_call \<Rightarrow> tool_call exc" where
  "prepareToolCallArguments t tc =
     (case at_prepareArguments t of
        None \<Rightarrow> Inr tc
      | Some prepare \<Rightarrow>
          (case prepare (tc_arguments tc) of
             Inl e \<Rightarrow> Inl e
           | Inr args \<Rightarrow> Inr (if args = tc_arguments tc then tc else tc\<lparr>tc_arguments := args\<rparr>)))"

definition blocked_result :: "before_tool_call_result \<Rightarrow> tool_result" where
  "blocked_result b =
     (let result = createErrorToolResult
            (case btr_reason b of
               None \<Rightarrow> ''Tool execution was blocked''
             | Some reason \<Rightarrow> if reason = [] then ''Tool execution was blocked'' else reason)
      in if btr_terminate b = Some True then result\<lparr>res_terminate := Some True\<rparr> else result)"

definition unless_aborted :: "'w env \<Rightarrow> ('w, 'w preparation) prog \<Rightarrow> ('w, 'w preparation) prog" where
  "unless_aborted env k =
     bindp (is_aborted env) (\<lambda>aborted.
       if aborted then ret (Immediate (createErrorToolResult ''Operation aborted'') True) else k)"

definition prepareToolCall ::
  "'w env \<Rightarrow> 'w agent_context \<Rightarrow> assistant_message \<Rightarrow> tool_call \<Rightarrow> ('w, 'x) tool_hooks_scheme
   \<Rightarrow> 'w agent_tool list \<Rightarrow> ('w, 'w preparation) prog" where
  "prepareToolCall env context assistantMessage tc config tools =
     (case List.find (\<lambda>t. t_name t = tc_name tc) tools of
        None \<Rightarrow> ret (Immediate (createErrorToolResult (''Tool '' @ tc_name tc @ '' not found'')) True)
      | Some t \<Rightarrow>
          catchp
            (bindp (liftp (prepareToolCallArguments t tc)) (\<lambda>preparedToolCall.
             bindp (liftp (env_validate env t preparedToolCall)) (\<lambda>validatedArgs.
             let finish = unless_aborted env (ret (Prepared tc t validatedArgs))
             in case hk_beforeToolCall config of
                  None \<Rightarrow> finish
                | Some before \<Rightarrow>
                    bindp (before assistantMessage tc validatedArgs context) (\<lambda>beforeResult.
                    unless_aborted env
                      (case beforeResult of
                         None \<Rightarrow> finish
                       | Some b \<Rightarrow> if btr_block b = Some True
                                   then ret (Immediate (blocked_result b) True) else finish)))))
            (\<lambda>e. ret (Immediate (createErrorToolResult e) True)))"

section \<open>Executing and finalizing a call\<close>

record executed_tool_call =
  ex_result :: tool_result
  ex_isError :: bool
  ex_durationMs :: int

text \<open>
  Every partial result is handed to the update sink at once; the promises are awaited
  together after the tool settled, so all updates are delivered and the first rejection
  is the one that surfaces.
\<close>

fun deliver_updates ::
  "(tool_result \<Rightarrow> ('w run, unit) prog) \<Rightarrow> tool_result list \<Rightarrow> 'w run \<Rightarrow> js_error option \<times> 'w run" where
  "deliver_updates onUpdate [] r = (None, r)"
| "deliver_updates onUpdate (p # ps) r =
     (case onUpdate p r of
        (Inl e, r') \<Rightarrow> (Some e, snd (deliver_updates onUpdate ps r'))
      | (Inr _, r') \<Rightarrow> deliver_updates onUpdate ps r')"

definition executePreparedToolCall ::
  "'w env \<Rightarrow> tool_call \<Rightarrow> 'w agent_tool \<Rightarrow> json \<Rightarrow> (tool_result \<Rightarrow> ('w run, unit) prog)
   \<Rightarrow> ('w run, executed_tool_call) prog" where
  "executePreparedToolCall env tc t args onUpdate = (\<lambda>r.
     let startedAt = env_perf env (run_world r) in
     case at_execute t (tc_id tc) args (run_world r) of
       ((partials, outcome), w') \<Rightarrow>
         let durationMs = js_round (env_perf env w' - startedAt) in
         case deliver_updates onUpdate partials (r\<lparr>run_world := w'\<rparr>) of
           (Some e, r') \<Rightarrow> (Inl e, r')
         | (None, r') \<Rightarrow>
             (case outcome of
                Inr result \<Rightarrow>
                  (Inr \<lparr>ex_result = result, ex_isError = (res_isError result = Some True),
                        ex_durationMs = durationMs\<rparr>, r')
              | Inl e \<Rightarrow>
                  (Inr \<lparr>ex_result = createErrorToolResult e, ex_isError = True,
                        ex_durationMs = durationMs\<rparr>, r')))"

text \<open>\<open>a ?? b\<close> on values that may be undefined or null.\<close>

definition nullish :: "json option \<Rightarrow> json option \<Rightarrow> json option" where
  "nullish a b = (case a of None \<Rightarrow> b | Some JNull \<Rightarrow> b | Some JUndefined \<Rightarrow> b | Some v \<Rightarrow> Some v)"

definition or_else :: "'a option \<Rightarrow> 'a option \<Rightarrow> 'a option" where
  "or_else a b = (case a of None \<Rightarrow> b | Some v \<Rightarrow> Some v)"

definition merge_after_result :: "after_tool_call_result \<Rightarrow> tool_result \<Rightarrow> tool_result" where
  "merge_after_result ar result =
     result\<lparr>res_content := (case atr_content ar of None \<Rightarrow> res_content result | Some c \<Rightarrow> Blocks c),
            res_details := nullish (atr_details ar) (res_details result),
            res_structuredContent := nullish (atr_structuredContent ar)
              (if atr_content ar \<noteq> None then None else res_structuredContent result),
            res_usage := or_else (atr_usage ar) (res_usage result),
            res_terminate := or_else (atr_terminate ar) (res_terminate result)\<rparr>"

definition finalizeExecutedToolCall ::
  "'w agent_context \<Rightarrow> assistant_message \<Rightarrow> tool_call \<Rightarrow> json \<Rightarrow> executed_tool_call
   \<Rightarrow> ('w, 'x) tool_hooks_scheme \<Rightarrow> ('w, tool_call_outcome) prog" where
  "finalizeExecutedToolCall context assistantMessage tc args executed config =
     (let outcome = (\<lambda>(result, isError).
            \<lparr>oc_toolCall = tc, oc_result = result, oc_isError = isError,
             oc_durationMs = Some (ex_durationMs executed)\<rparr>);
          unchanged = (ex_result executed, ex_isError executed)
      in case hk_afterToolCall config of
           None \<Rightarrow> ret (outcome unchanged)
         | Some after \<Rightarrow>
             catchp
               (bindp (after assistantMessage tc args (ex_result executed) (ex_isError executed) context)
                 (\<lambda>afterResult. ret (outcome
                    (case afterResult of
                       None \<Rightarrow> unchanged
                     | Some ar \<Rightarrow> (merge_after_result ar (ex_result executed),
                                   (case atr_isError ar of None \<Rightarrow> ex_isError executed | Some b \<Rightarrow> b))))))
               (\<lambda>e. ret (outcome (createErrorToolResult e, True))))"

text \<open>\<open>runToolCall\<close>: the same steps without events and messages, for tools that call tools.\<close>

definition runToolCall ::
  "'w env \<Rightarrow> tool_call \<Rightarrow> ('w, 'x) tool_hooks_scheme \<Rightarrow> 'w agent_tool list \<Rightarrow> assistant_message
   \<Rightarrow> 'w agent_context \<Rightarrow> (tool_result \<Rightarrow> ('w run, unit) prog) option
   \<Rightarrow> ('w run, tool_call_outcome) prog" where
  "runToolCall env tc config tools assistantMessage context onUpdate =
     bindp (on_world (prepareToolCall env context assistantMessage tc config tools)) (\<lambda>preparation.
       case preparation of
         Immediate result isError \<Rightarrow>
           ret \<lparr>oc_toolCall = tc, oc_result = result, oc_isError = isError, oc_durationMs = None\<rparr>
       | Prepared tc' t args \<Rightarrow>
           bindp (executePreparedToolCall env tc' t args
                    (case onUpdate of None \<Rightarrow> (\<lambda>_. ret ()) | Some f \<Rightarrow> f)) (\<lambda>executed.
           on_world (finalizeExecutedToolCall context assistantMessage tc' args executed config)))"

section \<open>Events and messages of a call\<close>

definition emitToolExecutionStart :: "'w env \<Rightarrow> tool_call \<Rightarrow> ('w run, unit) prog" where
  "emitToolExecutionStart env tc =
     emit env (ToolExecutionStart (tc_id tc) (tc_name tc) (tc_arguments tc))"

definition emitToolExecutionUpdate :: "'w env \<Rightarrow> tool_call \<Rightarrow> tool_result \<Rightarrow> ('w run, unit) prog" where
  "emitToolExecutionUpdate env tc partialResult =
     emit env (ToolExecutionUpdate (tc_id tc) (tc_name tc) (tc_arguments tc) partialResult)"

definition emitToolExecutionEnd :: "'w env \<Rightarrow> tool_call_outcome \<Rightarrow> ('w run, unit) prog" where
  "emitToolExecutionEnd env finalized =
     emit env (ToolExecutionEnd (tc_id (oc_toolCall finalized)) (tc_name (oc_toolCall finalized))
       (oc_result finalized) (oc_isError finalized) (oc_durationMs finalized))"

definition createToolResultMessage :: "int \<Rightarrow> tool_call_outcome \<Rightarrow> tool_result_message" where
  "createToolResultMessage now finalized =
     \<lparr>tr_toolCallId = tc_id (oc_toolCall finalized),
      tr_toolName = tc_name (oc_toolCall finalized),
      tr_content = (case res_content (oc_result finalized) of NoContent \<Rightarrow> Blocks [] | c \<Rightarrow> c),
      tr_details = res_details (oc_result finalized),
      tr_usage = res_usage (oc_result finalized),
      tr_nestedCalls = None,
      tr_isError = oc_isError finalized,
      tr_timestamp = now,
      tr_durationMs = oc_durationMs finalized\<rparr>"

definition emitToolResultMessage :: "'w env \<Rightarrow> tool_result_message \<Rightarrow> ('w run, unit) prog" where
  "emitToolResultMessage env m =
     seqp (emit env (MessageStart (ToolResultMsg m))) (emit env (MessageEnd (ToolResultMsg m)))"

text \<open>Create the result message of a finalized call and emit it.\<close>

definition publishToolResult :: "'w env \<Rightarrow> tool_call_outcome \<Rightarrow> ('w run, tool_result_message) prog" where
  "publishToolResult env finalized =
     bindp (on_world (readp (env_now env))) (\<lambda>now.
       let m = createToolResultMessage now finalized
       in seqp (emitToolResultMessage env m) (ret m))"

section \<open>Batches\<close>

record tool_call_batch =
  tb_messages :: "tool_result_message list"
  tb_terminate :: bool

definition shouldTerminateToolBatch :: "tool_call_outcome list \<Rightarrow> bool" where
  "shouldTerminateToolBatch finalizedCalls \<longleftrightarrow>
     finalizedCalls \<noteq> [] \<and> list_all (\<lambda>c. res_terminate (oc_result c) = Some True) finalizedCalls"

definition truncated_call_error :: "string \<Rightarrow> string" where
  "truncated_call_error name =
     ''Tool call '' @ [DQ] @ name @ [DQ]
     @ '' was not executed: the response hit the output token limit, so its arguments may be ''
     @ ''truncated. Re-issue the tool call with complete arguments.''"

fun failToolCallsFromTruncatedMessage ::
  "'w env \<Rightarrow> tool_call list \<Rightarrow> ('w run, tool_call_batch) prog" where
  "failToolCallsFromTruncatedMessage env [] = ret \<lparr>tb_messages = [], tb_terminate = False\<rparr>"
| "failToolCallsFromTruncatedMessage env (tc # tcs) =
     seqp (emitToolExecutionStart env tc)
       (let finalized = \<lparr>oc_toolCall = tc,
              oc_result = createErrorToolResult (truncated_call_error (tc_name tc)),
              oc_isError = True, oc_durationMs = None\<rparr>
        in seqp (emitToolExecutionEnd env finalized)
             (bindp (publishToolResult env finalized) (\<lambda>m.
              bindp (failToolCallsFromTruncatedMessage env tcs) (\<lambda>rest.
              ret (rest\<lparr>tb_messages := m # tb_messages rest\<rparr>)))))"

definition context_tools :: "'w agent_context \<Rightarrow> 'w agent_tool list" where
  "context_tools context = opt_list (ac_tools context)"

text \<open>One call of the sequential batch: start event, preparation, execution, outcome.\<close>

definition runSequentialCall ::
  "'w env \<Rightarrow> 'w agent_context \<Rightarrow> assistant_message \<Rightarrow> ('w, 'x) tool_hooks_scheme \<Rightarrow> tool_call
   \<Rightarrow> ('w run, tool_call_outcome) prog" where
  "runSequentialCall env context assistantMessage config tc =
     seqp (emitToolExecutionStart env tc)
       (bindp (on_world (prepareToolCall env context assistantMessage tc config (context_tools context)))
         (\<lambda>preparation. case preparation of
            Immediate result isError \<Rightarrow>
              ret \<lparr>oc_toolCall = tc, oc_result = result, oc_isError = isError, oc_durationMs = None\<rparr>
          | Prepared tc' t args \<Rightarrow>
              bindp (executePreparedToolCall env tc' t args (emitToolExecutionUpdate env tc)) (\<lambda>executed.
              on_world (finalizeExecutedToolCall context assistantMessage tc' args executed config))))"

fun sequential_calls ::
  "'w env \<Rightarrow> 'w agent_context \<Rightarrow> assistant_message \<Rightarrow> ('w, 'x) tool_hooks_scheme \<Rightarrow> tool_call list
   \<Rightarrow> tool_call_outcome list \<Rightarrow> tool_result_message list
   \<Rightarrow> ('w run, tool_call_outcome list \<times> tool_result_message list) prog" where
  "sequential_calls env context am config [] finalizedCalls messages = ret (finalizedCalls, messages)"
| "sequential_calls env context am config (tc # tcs) finalizedCalls messages =
     bindp (runSequentialCall env context am config tc) (\<lambda>finalized.
     seqp (emitToolExecutionEnd env finalized)
       (bindp (publishToolResult env finalized) (\<lambda>m.
        bindp (on_world (is_aborted env)) (\<lambda>aborted.
        if aborted then ret (finalizedCalls @ [finalized], messages @ [m])
        else sequential_calls env context am config tcs (finalizedCalls @ [finalized]) (messages @ [m])))))"

definition executeToolCallsSequential ::
  "'w env \<Rightarrow> 'w agent_context \<Rightarrow> assistant_message \<Rightarrow> tool_call list \<Rightarrow> ('w, 'x) tool_hooks_scheme
   \<Rightarrow> ('w run, tool_call_batch) prog" where
  "executeToolCallsSequential env context am toolCalls config =
     bindp (sequential_calls env context am config toolCalls [] []) (\<lambda>(finalizedCalls, messages).
       ret \<lparr>tb_messages = messages, tb_terminate = shouldTerminateToolBatch finalizedCalls\<rparr>)"

subsection \<open>Parallel execution\<close>

datatype 'w task =
    TaskReady tool_call "'w agent_tool" json
  | TaskExecuted tool_call json executed_tool_call
  | TaskFinal tool_call_outcome
  | TaskDone tool_call_outcome

fun task_call :: "'w task \<Rightarrow> tool_call" where
  "task_call (TaskReady tc _ _) = tc"
| "task_call (TaskExecuted tc _ _) = tc"
| "task_call (TaskFinal finalized) = oc_toolCall finalized"
| "task_call (TaskDone finalized) = oc_toolCall finalized"

text \<open>
  The first loop of \<open>executeToolCallsParallel\<close>: start events and preparation in source
  order; an immediate outcome is finished on the spot, a prepared call becomes a task.
\<close>

fun prepare_tasks ::
  "'w env \<Rightarrow> 'w agent_context \<Rightarrow> assistant_message \<Rightarrow> ('w, 'x) tool_hooks_scheme \<Rightarrow> tool_call list
   \<Rightarrow> ('w run, 'w task list) prog" where
  "prepare_tasks env context am config [] = ret []"
| "prepare_tasks env context am config (tc # tcs) =
     seqp (emitToolExecutionStart env tc)
       (bindp (on_world (prepareToolCall env context am tc config (context_tools context))) (\<lambda>preparation.
        bindp (case preparation of
             Immediate result isError \<Rightarrow>
               (let finalized = \<lparr>oc_toolCall = tc, oc_result = result, oc_isError = isError,
                      oc_durationMs = None\<rparr>
                in seqp (emitToolExecutionEnd env finalized) (ret (TaskDone finalized)))
           | Prepared tc' t args \<Rightarrow> ret (TaskReady tc t args)) (\<lambda>entry.
        bindp (on_world (is_aborted env)) (\<lambda>aborted.
        if aborted then ret [entry]
        else bindp (prepare_tasks env context am config tcs) (\<lambda>rest. ret (entry # rest))))))"

text \<open>One atomic step of a deferred call.\<close>

fun task_step ::
  "'w env \<Rightarrow> 'w agent_context \<Rightarrow> assistant_message \<Rightarrow> ('w, 'x) tool_hooks_scheme \<Rightarrow> 'w task
   \<Rightarrow> ('w run, 'w task) prog" where
  "task_step env context am config (TaskReady tc t args) =
     bindp (on_world (is_aborted env)) (\<lambda>aborted.
       if aborted
       then ret (TaskFinal \<lparr>oc_toolCall = tc, oc_result = createErrorToolResult ''Operation aborted'',
                   oc_isError = True, oc_durationMs = None\<rparr>)
       else bindp (executePreparedToolCall env tc t args (emitToolExecutionUpdate env tc)) (\<lambda>executed.
            ret (TaskExecuted tc args executed)))"
| "task_step env context am config (TaskExecuted tc args executed) =
     bindp (on_world (finalizeExecutedToolCall context am tc args executed config)) (\<lambda>finalized.
       ret (TaskFinal finalized))"
| "task_step env context am config (TaskFinal finalized) =
     seqp (emitToolExecutionEnd env finalized) (ret (TaskDone finalized))"
| "task_step env context am config (TaskDone finalized) = ret (TaskDone finalized)"

text \<open>
  A schedule names the task that moves next; when it is used up the remaining tasks run to
  their end in order. Any interleaving of the task steps is the run of some schedule. A
  task that throws rejects the whole batch.
\<close>

fun finish_tasks ::
  "'w env \<Rightarrow> 'w agent_context \<Rightarrow> assistant_message \<Rightarrow> ('w, 'x) tool_hooks_scheme \<Rightarrow> 'w task list
   \<Rightarrow> ('w run, 'w task list) prog" where
  "finish_tasks env context am config [] = ret []"
| "finish_tasks env context am config (t # ts) =
     bindp (task_step env context am config t) (\<lambda>t1.
     bindp (task_step env context am config t1) (\<lambda>t2.
     bindp (task_step env context am config t2) (\<lambda>t3.
     bindp (finish_tasks env context am config ts) (\<lambda>ts'. ret (t3 # ts')))))"

fun run_tasks ::
  "'w env \<Rightarrow> 'w agent_context \<Rightarrow> assistant_message \<Rightarrow> ('w, 'x) tool_hooks_scheme \<Rightarrow> nat list
   \<Rightarrow> 'w task list \<Rightarrow> ('w run, 'w task list) prog" where
  "run_tasks env context am config [] tasks = finish_tasks env context am config tasks"
| "run_tasks env context am config (i # schedule) tasks =
     (if i < length tasks
      then bindp (task_step env context am config (tasks ! i)) (\<lambda>t.
           run_tasks env context am config schedule (tasks[i := t]))
      else run_tasks env context am config schedule tasks)"

fun task_outcome :: "'w task \<Rightarrow> tool_call_outcome option" where
  "task_outcome (TaskDone finalized) = Some finalized"
| "task_outcome _ = None"

fun publish_all :: "'w env \<Rightarrow> tool_call_outcome list \<Rightarrow> ('w run, tool_result_message list) prog" where
  "publish_all env [] = ret []"
| "publish_all env (finalized # rest) =
     bindp (publishToolResult env finalized) (\<lambda>m.
     bindp (publish_all env rest) (\<lambda>ms. ret (m # ms)))"

definition executeToolCallsParallel ::
  "'w env \<Rightarrow> 'w agent_context \<Rightarrow> assistant_message \<Rightarrow> tool_call list \<Rightarrow> ('w, 'x) tool_hooks_scheme
   \<Rightarrow> ('w run, tool_call_batch) prog" where
  "executeToolCallsParallel env context am toolCalls config =
     bindp (prepare_tasks env context am config toolCalls) (\<lambda>finalizedCalls.
     bindp (on_world (readp (env_schedule env))) (\<lambda>schedule.
     bindp (run_tasks env context am config schedule finalizedCalls) (\<lambda>settled.
     let ordered = List.map_filter task_outcome settled
     in bindp (publish_all env ordered) (\<lambda>messages.
        ret \<lparr>tb_messages = messages, tb_terminate = shouldTerminateToolBatch ordered\<rparr>))))"

text \<open>\<open>message.content.filter(c => c.type === "toolCall")\<close>\<close>

definition tool_calls_of :: "assistant_message \<Rightarrow> tool_call list exc" where
  "tool_calls_of m =
     (case am_content m of
        Blocks bs \<Rightarrow> Inr (List.map_filter block_tool_call bs)
      | NoContent \<Rightarrow> Inl ''Cannot read properties of null (reading filter)''
      | TextOnly _ \<Rightarrow> Inl ''message.content.filter is not a function'')"

definition has_sequential_call :: "'w agent_context \<Rightarrow> tool_call list \<Rightarrow> bool" where
  "has_sequential_call context toolCalls \<longleftrightarrow>
     list_ex (\<lambda>tc. case List.find (\<lambda>t. t_name t = tc_name tc) (context_tools context) of
         None \<Rightarrow> False | Some t \<Rightarrow> at_executionMode t = Some Sequential) toolCalls"

definition executeToolCalls ::
  "'w env \<Rightarrow> execution_mode option \<Rightarrow> 'w agent_context \<Rightarrow> assistant_message
   \<Rightarrow> ('w, 'x) tool_hooks_scheme \<Rightarrow> ('w run, tool_call_batch) prog" where
  "executeToolCalls env toolExecution context am config =
     bindp (liftp (tool_calls_of am)) (\<lambda>toolCalls.
       if toolExecution = Some Sequential \<or> has_sequential_call context toolCalls
       then executeToolCallsSequential env context am toolCalls config
       else executeToolCallsParallel env context am toolCalls config)"

section \<open>What a program adds to the log\<close>

text \<open>
  \<open>logs P m\<close>: whenever \<open>m\<close> returns \<open>x\<close> it has appended events \<open>l\<close> with \<open>P x l\<close>. The
  rules follow the structure of a program.
\<close>

definition logs :: "('a \<Rightarrow> agent_event list \<Rightarrow> bool) \<Rightarrow> ('w run, 'a) prog \<Rightarrow> bool" where
  "logs P m \<longleftrightarrow> (\<forall>r x r'. m r = (Inr x, r') \<longrightarrow> (\<exists>l. run_log r' = run_log r @ l \<and> P x l))"

named_theorems logs_intros \<open>rules for what programs append to the log\<close>

lemma logsD:
  assumes "logs P m" and "m r = (Inr x, r')"
  obtains l where "run_log r' = run_log r @ l" and "P x l"
  using assms unfolding logs_def by blast

lemma logs_ret [logs_intros]: "P x [] \<Longrightarrow> logs P (ret x)"
  by (simp add: logs_def ret_def)

lemma logs_throw [logs_intros]: "logs P (throw e)"
  by (simp add: logs_def throw_def)

lemma logs_liftp [logs_intros]: "(\<And>x. r = Inr x \<Longrightarrow> P x []) \<Longrightarrow> logs P (liftp r)"
  by (auto simp: logs_def liftp_def)

lemma logs_on_world [logs_intros]: "(\<And>x. P x []) \<Longrightarrow> logs P (on_world m)"
  by (auto simp: logs_def on_world_def split: prod.splits)

lemma logs_on_world_value:
  "(\<And>w x w'. m w = (Inr x, w') \<Longrightarrow> P x []) \<Longrightarrow> logs P (on_world m)"
  by (auto simp: logs_def on_world_def split: prod.splits)

lemma logs_emit [logs_intros]: "P () [e] \<Longrightarrow> logs P (emit env e)"
  by (auto simp: logs_def emit_def split: prod.splits)

lemma logs_weaken: "logs Q m \<Longrightarrow> (\<And>x l. Q x l \<Longrightarrow> P x l) \<Longrightarrow> logs P m"
  unfolding logs_def by blast

lemma logs_bindp:
  assumes m: "logs Q m" and f: "\<And>x l. Q x l \<Longrightarrow> logs (\<lambda>y l'. P y (l @ l')) (f x)"
  shows "logs P (bindp m f)"
  unfolding logs_def
proof (intro allI impI)
  fix r y r'' assume "bindp m f r = (Inr y, r'')"
  then obtain x r' where mr: "m r = (Inr x, r')" and fr: "f x r' = (Inr y, r'')"
    by (rule bindp_InrE)
  from m mr obtain l where l: "run_log r' = run_log r @ l" "Q x l" by (rule logsD)
  from f [OF l(2)] fr obtain l' where "run_log r'' = run_log r' @ l'" "P y (l @ l')"
    by (rule logsD)
  with l show "\<exists>l. run_log r'' = run_log r @ l \<and> P y l" by simp
qed

lemma logs_seqp:
  assumes "logs Q m" and "\<And>x l. Q x l \<Longrightarrow> logs (\<lambda>y l'. P y (l @ l')) k"
  shows "logs P (seqp m k)"
  unfolding seqp_def by (rule logs_bindp [OF assms])

lemma logs_seqp_emit:
  "logs (\<lambda>y l. P y (e # l)) k \<Longrightarrow> logs P (seqp (emit env e) k)"
  by (rule logs_seqp [where Q = "\<lambda>_ l. l = [e]"]) (auto intro: logs_intros)

lemma logs_bindp_world:
  "(\<And>x. logs P (f x)) \<Longrightarrow> logs P (bindp (on_world m) f)"
  by (rule logs_bindp [where Q = "\<lambda>_ l. l = []"]) (auto intro: logs_intros)

lemma logs_bindp_world_value:
  assumes "\<And>w x w'. m w = (Inr x, w') \<Longrightarrow> V x" and "\<And>x. V x \<Longrightarrow> logs P (f x)"
  shows "logs P (bindp (on_world m) f)"
  by (rule logs_bindp [where Q = "\<lambda>x l. V x \<and> l = []"])
    (auto intro: assms logs_on_world_value)

lemma logs_bindp_readp [logs_intros]: "(\<And>x. logs P (f x)) \<Longrightarrow> logs P (bindp (readp g) f)"
  by (auto simp: logs_def bindp_def readp_def)

text \<open>The tool events of a log.\<close>

definition started_ids :: "agent_event list \<Rightarrow> string list" where
  "started_ids = List.map_filter (\<lambda>e. case e of ToolExecutionStart i _ _ \<Rightarrow> Some i | _ \<Rightarrow> None)"

definition ended_ids :: "agent_event list \<Rightarrow> string list" where
  "ended_ids = List.map_filter (\<lambda>e. case e of ToolExecutionEnd i _ _ _ _ \<Rightarrow> Some i | _ \<Rightarrow> None)"

definition begun_messages :: "agent_event list \<Rightarrow> agent_message list" where
  "begun_messages = List.map_filter (\<lambda>e. case e of MessageStart m \<Rightarrow> Some m | _ \<Rightarrow> None)"

definition ended_messages :: "agent_event list \<Rightarrow> agent_message list" where
  "ended_messages = List.map_filter (\<lambda>e. case e of MessageEnd m \<Rightarrow> Some m | _ \<Rightarrow> None)"

lemmas log_projections = started_ids_def ended_ids_def begun_messages_def ended_messages_def

declare map_filter_append [simp]

lemma projections_append [simp]:
  "started_ids (xs @ ys) = started_ids xs @ started_ids ys"
  "ended_ids (xs @ ys) = ended_ids xs @ ended_ids ys"
  "begun_messages (xs @ ys) = begun_messages xs @ begun_messages ys"
  "ended_messages (xs @ ys) = ended_messages xs @ ended_messages ys"
  by (simp_all add: log_projections)

lemma projections_Nil [simp]:
  "started_ids [] = []" "ended_ids [] = []" "begun_messages [] = []" "ended_messages [] = []"
  by (simp_all add: log_projections List.map_filter_simps)

lemma projections_Cons [simp]:
  "started_ids (e # l) = (case e of ToolExecutionStart i _ _ \<Rightarrow> [i] | _ \<Rightarrow> []) @ started_ids l"
  "ended_ids (e # l) = (case e of ToolExecutionEnd i _ _ _ _ \<Rightarrow> [i] | _ \<Rightarrow> []) @ ended_ids l"
  "begun_messages (e # l) = (case e of MessageStart m \<Rightarrow> [m] | _ \<Rightarrow> []) @ begun_messages l"
  "ended_messages (e # l) = (case e of MessageEnd m \<Rightarrow> [m] | _ \<Rightarrow> []) @ ended_messages l"
  by (simp_all add: log_projections List.map_filter_simps split: agent_event.splits)

text \<open>Logs that only hold update events of tool executions.\<close>

fun is_tool_update :: "agent_event \<Rightarrow> bool" where
  "is_tool_update (ToolExecutionUpdate _ _ _ _) = True"
| "is_tool_update _ = False"

definition updates_only :: "agent_event list \<Rightarrow> bool" where
  "updates_only l \<longleftrightarrow> (\<forall>e\<in>set l. is_tool_update e)"

lemma updates_only_projections [simp]:
  assumes "updates_only l"
  shows "started_ids l = []" "ended_ids l = []" "begun_messages l = []" "ended_messages l = []"
  using assms unfolding updates_only_def
  by (induction l; force split: agent_event.splits)+

lemma updates_only_simps [simp]:
  "updates_only []" "updates_only (e # l) \<longleftrightarrow> is_tool_update e \<and> updates_only l"
  "updates_only (l @ l') \<longleftrightarrow> updates_only l \<and> updates_only l'"
  by (auto simp: updates_only_def)


section \<open>One call\<close>

lemma prepareToolCall_call:
  "prepareToolCall env context am tc config tools w = (Inr (Prepared tc' t args), w') \<Longrightarrow> tc' = tc"
  by (auto simp: prepareToolCall_def unless_aborted_def catchp_def bindp_def liftp_def ret_def
      is_aborted_def readp_def Let_def split: option.splits sum.splits if_splits prod.splits)

lemma deliver_updates_log:
  assumes "\<And>p r x r'. sink p r = (x, r') \<Longrightarrow> \<exists>l. run_log r' = run_log r @ l \<and> updates_only l"
  shows "deliver_updates sink ps r = (e, r') \<Longrightarrow> \<exists>l. run_log r' = run_log r @ l \<and> updates_only l"
proof (induction ps arbitrary: r e r')
  case (Cons p ps)
  obtain x r1 where p1: "sink p r = (x, r1)" by (cases "sink p r")
  obtain e2 r2 where p2: "deliver_updates sink ps r1 = (e2, r2)"
    by (cases "deliver_updates sink ps r1")
  from assms [OF p1] obtain l1 where l1: "run_log r1 = run_log r @ l1" "updates_only l1" by blast
  from Cons.IH [OF p2] obtain l2 where l2: "run_log r2 = run_log r1 @ l2" "updates_only l2" by blast
  have "r' = r2"
    using Cons.prems p1 p2 by (auto split: sum.splits)
  with l1 l2 show ?case
    by (intro exI [of _ "l1 @ l2"]) simp
qed (auto intro!: exI [of _ "[]"])

lemma emit_update_log:
  "emitToolExecutionUpdate env tc p r = (x, r') \<Longrightarrow> \<exists>l. run_log r' = run_log r @ l \<and> updates_only l"
  by (auto simp: emitToolExecutionUpdate_def emit_def split: prod.splits
      intro!: exI [of _ "[ToolExecutionUpdate a b c d]" for a b c d])

lemma executePreparedToolCall_logs:
  "logs (\<lambda>_. updates_only) (executePreparedToolCall env tc t args (emitToolExecutionUpdate env tc0))"
  unfolding logs_def executePreparedToolCall_def
proof (intro allI impI)
  fix r x r'
  assume a: "(let startedAt = env_perf env (run_world r) in
     case at_execute t (tc_id tc) args (run_world r) of
       ((partials, outcome), w') \<Rightarrow>
         let durationMs = js_round (env_perf env w' - startedAt) in
         case deliver_updates (emitToolExecutionUpdate env tc0) partials (r\<lparr>run_world := w'\<rparr>) of
           (Some e, r') \<Rightarrow> (Inl e, r')
         | (None, r') \<Rightarrow>
             (case outcome of
                Inr result \<Rightarrow>
                  (Inr \<lparr>ex_result = result, ex_isError = (res_isError result = Some True),
                        ex_durationMs = durationMs\<rparr>, r')
              | Inl e \<Rightarrow>
                  (Inr \<lparr>ex_result = createErrorToolResult e, ex_isError = True,
                        ex_durationMs = durationMs\<rparr>, r'))) = (Inr x, r')"
  obtain partials outcome w' where ex: "at_execute t (tc_id tc) args (run_world r) = ((partials, outcome), w')"
    by (metis prod.exhaust_sel)
  obtain e r2 where d: "deliver_updates (emitToolExecutionUpdate env tc0) partials (r\<lparr>run_world := w'\<rparr>) = (e, r2)"
    by (cases "deliver_updates (emitToolExecutionUpdate env tc0) partials (r\<lparr>run_world := w'\<rparr>)")
  have "\<exists>l. run_log r2 = run_log (r\<lparr>run_world := w'\<rparr>) @ l \<and> updates_only l"
    by (rule deliver_updates_log [OF _ d]) (rule emit_update_log)
  then obtain l where "run_log r2 = run_log (r\<lparr>run_world := w'\<rparr>) @ l" "updates_only l" by blast
  moreover have "r2 = r'"
    using a by (simp add: ex d Let_def split: option.splits sum.splits)
  ultimately show "\<exists>l. run_log r' = run_log r @ l \<and> updates_only l" by auto
qed

lemma finalize_call:
  "finalizeExecutedToolCall context am tc args executed config w = (Inr oc, w') \<Longrightarrow> oc_toolCall oc = tc"
  by (auto simp: finalizeExecutedToolCall_def catchp_def bindp_def ret_def Let_def
      split: option.splits sum.splits prod.splits)

lemma finalize_returns:
  "\<exists>oc w'. finalizeExecutedToolCall context am tc args executed config w = (Inr oc, w')"
  by (auto simp: finalizeExecutedToolCall_def catchp_def bindp_def ret_def Let_def
      split: option.splits sum.splits prod.splits)

lemma prepareToolCall_returns:
  "\<exists>p w'. prepareToolCall env context am tc config tools w = (Inr p, w')"
  by (auto simp: prepareToolCall_def catchp_def ret_def split: option.splits sum.splits prod.splits)

lemma runSequentialCall_logs:
  "logs (\<lambda>oc l. oc_toolCall oc = tc \<and>
      (\<exists>u. l = ToolExecutionStart (tc_id tc) (tc_name tc) (tc_arguments tc) # u \<and> updates_only u))
     (runSequentialCall env context am config tc)"
  unfolding runSequentialCall_def emitToolExecutionStart_def
proof (rule logs_seqp_emit, rule logs_bindp_world_value
    [where V = "\<lambda>p. case p of Prepared tc' _ _ \<Rightarrow> tc' = tc | _ \<Rightarrow> True"])
  fix w p w'
  assume "prepareToolCall env context am tc config (context_tools context) w = (Inr p, w')"
  then show "case p of Prepared tc' _ _ \<Rightarrow> tc' = tc | _ \<Rightarrow> True"
    by (auto split: preparation.split dest: prepareToolCall_call)
next
  fix p :: "'a preparation"
  assume p: "case p of Prepared tc' _ _ \<Rightarrow> tc' = tc | _ \<Rightarrow> True"
  show "logs (\<lambda>oc l. oc_toolCall oc = tc \<and>
      (\<exists>u. ToolExecutionStart (tc_id tc) (tc_name tc) (tc_arguments tc) # l =
        ToolExecutionStart (tc_id tc) (tc_name tc) (tc_arguments tc) # u \<and> updates_only u))
     (case p of Immediate result isError \<Rightarrow>
              ret \<lparr>oc_toolCall = tc, oc_result = result, oc_isError = isError, oc_durationMs = None\<rparr>
          | Prepared tc' t args \<Rightarrow>
              bindp (executePreparedToolCall env tc' t args (emitToolExecutionUpdate env tc)) (\<lambda>executed.
              on_world (finalizeExecutedToolCall context am tc' args executed config)))"
  proof (cases p)
    case (Prepared tc' t args)
    with p show ?thesis
      by (auto intro!: logs_bindp [OF executePreparedToolCall_logs] logs_on_world_value
          dest: finalize_call)
  qed (auto intro: logs_intros)
qed

section \<open>What a batch logs\<close>

text \<open>
  The contract of a batch over the calls \<open>tcs\<close> of an assistant message: one result message
  per attempted call, in source order and under the call's own id and name; exactly one
  start event and one end event per attempted call, starts in source order; the result
  messages are emitted in that order. \<open>attempted_all\<close> demands that every call was attempted.
\<close>

definition call_key :: "tool_call \<Rightarrow> string \<times> string" where
  "call_key tc = (tc_id tc, tc_name tc)"

definition result_key :: "tool_result_message \<Rightarrow> string \<times> string" where
  "result_key m = (tr_toolCallId m, tr_toolName m)"

definition batch_contract ::
  "bool \<Rightarrow> tool_call list \<Rightarrow> tool_result_message list \<Rightarrow> agent_event list \<Rightarrow> bool" where
  "batch_contract attempted_all tcs messages l \<longleftrightarrow>
     (\<exists>n \<le> length tcs. (attempted_all \<longrightarrow> n = length tcs) \<and>
        map result_key messages = map call_key (take n tcs) \<and>
        started_ids l = map tc_id (take n tcs) \<and>
        mset (ended_ids l) = mset (map tc_id (take n tcs)) \<and>
        begun_messages l = map ToolResultMsg messages \<and>
        ended_messages l = map ToolResultMsg messages)"

definition never_aborted :: "'w env \<Rightarrow> bool" where
  "never_aborted env \<longleftrightarrow> (\<forall>w. \<not> env_aborted env w)"

lemma batch_contract_Nil: "batch_contract c [] [] []"
  by (simp add: batch_contract_def)

lemma batch_contract_Cons:
  assumes "batch_contract c tcs ms l" and "result_key m = call_key tc"
    and "started_ids h = [tc_id tc]" and "ended_ids h = [tc_id tc]"
    and "begun_messages h = [ToolResultMsg m]" and "ended_messages h = [ToolResultMsg m]"
  shows "batch_contract c (tc # tcs) (m # ms) (h @ l)"
proof -
  from assms(1) obtain n where "n \<le> length tcs" "c \<longrightarrow> n = length tcs"
    "map result_key ms = map call_key (take n tcs)" "started_ids l = map tc_id (take n tcs)"
    "mset (ended_ids l) = mset (map tc_id (take n tcs))"
    "begun_messages l = map ToolResultMsg ms" "ended_messages l = map ToolResultMsg ms"
    unfolding batch_contract_def by blast
  with assms(2-) show ?thesis
    unfolding batch_contract_def by (intro exI [of _ "Suc n"]) simp
qed

lemma batch_contract_stop:
  assumes "result_key m = call_key tc"
    and "started_ids h = [tc_id tc]" and "ended_ids h = [tc_id tc]"
    and "begun_messages h = [ToolResultMsg m]" and "ended_messages h = [ToolResultMsg m]"
  shows "batch_contract False (tc # tcs) [m] h"
  unfolding batch_contract_def by (rule exI [of _ 1]) (use assms in simp)

lemma publishToolResult_logs:
  "logs (\<lambda>m l. result_key m = call_key (oc_toolCall oc) \<and> tr_isError m = oc_isError oc \<and>
      l = [MessageStart (ToolResultMsg m), MessageEnd (ToolResultMsg m)])
     (publishToolResult env oc)"
  unfolding publishToolResult_def Let_def emitToolResultMessage_def
  by (rule logs_bindp_world, rule logs_seqp
      [where Q = "\<lambda>_ l. l = [MessageStart (ToolResultMsg (createToolResultMessage x oc)),
         MessageEnd (ToolResultMsg (createToolResultMessage x oc))]" for x])
    (auto intro!: logs_intros logs_seqp_emit
       simp: createToolResultMessage_def result_key_def call_key_def)

lemma truncated_batch_logs:
  "logs (\<lambda>b l. batch_contract c tcs (tb_messages b) l \<and> \<not> tb_terminate b \<and>
        (\<forall>m\<in>set (tb_messages b). tr_isError m))
     (failToolCallsFromTruncatedMessage env tcs)"
proof (induction tcs)
  case Nil
  show ?case by (auto intro!: logs_intros simp: batch_contract_Nil)
next
  case (Cons tc tcs)
  show ?case
    unfolding failToolCallsFromTruncatedMessage.simps Let_def emitToolExecutionStart_def
      emitToolExecutionEnd_def
    by (intro logs_seqp_emit logs_bindp [OF publishToolResult_logs] logs_bindp [OF Cons.IH] logs_ret)
      (auto simp: call_key_def intro!: batch_contract_Cons
        [where h = "[ToolExecutionStart _ _ _, ToolExecutionEnd _ _ _ _ _, MessageStart _, MessageEnd _]",
         simplified])
qed


lemma sequential_calls_logs:
  "logs (\<lambda>y l. \<exists>fs' ms'. y = (finalizedCalls @ fs', messages @ ms') \<and>
        batch_contract (never_aborted env) tcs ms' l)
     (sequential_calls env context am config tcs finalizedCalls messages)"
proof (induction tcs arbitrary: finalizedCalls messages)
  case Nil
  show ?case by (auto intro!: logs_intros simp: batch_contract_Nil)
next
  case (Cons tc tcs)
  let ?start = "ToolExecutionStart (tc_id tc) (tc_name tc) (tc_arguments tc)"
  show ?case
    unfolding sequential_calls.simps emitToolExecutionEnd_def
  proof (rule logs_bindp [OF runSequentialCall_logs], rule logs_seqp_emit,
      rule logs_bindp [OF publishToolResult_logs],
      rule logs_bindp_world_value [where V = "\<lambda>aborted. aborted \<longrightarrow> \<not> never_aborted env"])
    fix w x w' assume "is_aborted env w = (Inr x, w')"
    then show "x \<longrightarrow> \<not> never_aborted env"
      by (auto simp: is_aborted_def readp_def never_aborted_def)
  next
    fix oc :: tool_call_outcome and l :: "agent_event list" and m :: tool_result_message and l' aborted
    assume oc: "oc_toolCall oc = tc \<and> (\<exists>u. l = ?start # u \<and> updates_only u)"
      and m: "result_key m = call_key (oc_toolCall oc) \<and> tr_isError m = oc_isError oc \<and>
        l' = [MessageStart (ToolResultMsg m), MessageEnd (ToolResultMsg m)]"
      and ab: "aborted \<longrightarrow> \<not> never_aborted env"
    let ?h = "l @ ToolExecutionEnd (tc_id (oc_toolCall oc)) (tc_name (oc_toolCall oc))
       (oc_result oc) (oc_isError oc) (oc_durationMs oc) # l'"
    from oc m have h: "started_ids ?h = [tc_id tc]" "ended_ids ?h = [tc_id tc]"
      "begun_messages ?h = [ToolResultMsg m]" "ended_messages ?h = [ToolResultMsg m]"
      "result_key m = call_key tc"
      by auto
    note cons = batch_contract_Cons [OF _ h(5) h(1-4)] and stop = batch_contract_stop [OF h(5) h(1-4)]
    show "logs (\<lambda>y l''. \<exists>fs' ms'. y = (finalizedCalls @ fs', messages @ ms') \<and> batch_contract (never_aborted env) (tc # tcs) ms'
           (l @ ToolExecutionEnd (tc_id (oc_toolCall oc)) (tc_name (oc_toolCall oc))
             (oc_result oc) (oc_isError oc) (oc_durationMs oc) # l' @ l''))
        (if aborted then ret (finalizedCalls @ [oc], messages @ [m])
         else sequential_calls env context am config tcs (finalizedCalls @ [oc]) (messages @ [m]))"
    proof (cases aborted)
      case True
      with ab stop show ?thesis by (auto intro!: logs_intros)
    next
      case False
      show ?thesis
        by (simp only: False if_False)
          (rule logs_weaken [OF Cons.IH], auto dest: cons)
    qed
  qed
qed

lemma sequential_batch_logs:
  "logs (\<lambda>b l. batch_contract (never_aborted env) tcs (tb_messages b) l)
     (executeToolCallsSequential env context am tcs config)"
  unfolding executeToolCallsSequential_def
  by (rule logs_bindp [OF sequential_calls_logs]) (auto intro!: logs_intros)

subsection \<open>The parallel batch\<close>

definition task_ended :: "'w task list \<Rightarrow> string list" where
  "task_ended ts = List.map_filter (map_option (tc_id \<circ> oc_toolCall) \<circ> task_outcome) ts"

lemma task_step_logs:
  "logs (\<lambda>t' l. task_call t' = task_call t \<and> started_ids l = [] \<and> begun_messages l = [] \<and>
       ended_messages l = [] \<and> task_ended [t'] = task_ended [t] @ ended_ids l)
     (task_step env context am config t)"
proof (cases t)
  case (TaskReady tc tl args)
  show ?thesis
    unfolding TaskReady task_step.simps
  proof (rule logs_bindp_world)
    fix aborted
    show "logs (\<lambda>t' l. task_call t' = task_call (TaskReady tc tl args) \<and> started_ids l = [] \<and>
         begun_messages l = [] \<and> ended_messages l = [] \<and>
         task_ended [t'] = task_ended [TaskReady tc tl args] @ ended_ids l)
       (if aborted
        then ret (TaskFinal \<lparr>oc_toolCall = tc, oc_result = createErrorToolResult ''Operation aborted'',
                   oc_isError = True, oc_durationMs = None\<rparr>)
        else bindp (executePreparedToolCall env tc tl args (emitToolExecutionUpdate env tc)) (\<lambda>executed.
            ret (TaskExecuted tc args executed)))"
      by (cases aborted; simp only: if_True if_False)
        (auto intro!: logs_intros logs_bindp [OF executePreparedToolCall_logs]
          simp: task_ended_def List.map_filter_simps)
  qed
next
  case (TaskExecuted tc args executed)
  then show ?thesis
    by (auto intro!: logs_bindp_world_value [where V = "\<lambda>oc. oc_toolCall oc = tc"] logs_intros
        dest: finalize_call simp: task_ended_def List.map_filter_simps)
next
  case (TaskFinal oc)
  then show ?thesis
    by (auto intro!: logs_seqp_emit logs_intros
        simp: emitToolExecutionEnd_def task_ended_def List.map_filter_simps)
next
  case (TaskDone oc)
  then show ?thesis by (auto intro!: logs_intros)
qed


lemma task_ended_Cons: "task_ended (t # ts) = task_ended [t] @ task_ended ts"
  by (simp add: task_ended_def List.map_filter_simps split: option.splits)

lemma task_ended_update:
  "i < length ts \<Longrightarrow>
     mset (task_ended (ts[i := t])) + mset (task_ended [ts ! i]) = mset (task_ended ts) + mset (task_ended [t])"
proof (induction ts arbitrary: i)
  case (Cons u us)
  show ?case
  proof (cases i)
    case 0
    then show ?thesis
      by (simp add: task_ended_Cons [of _ "us"])
  next
    case (Suc j)
    with Cons.prems have "mset (task_ended (us[j := t])) + mset (task_ended [us ! j]) =
        mset (task_ended us) + mset (task_ended [t])"
      by (intro Cons.IH) simp
    with Suc show ?thesis
      by (simp add: task_ended_Cons [of _ "us"] task_ended_Cons [of _ "us[j := t]"])
  qed
qed simp

text \<open>What running tasks keeps: the calls, and the balance of end events.\<close>

definition tasks_progress :: "'w task list \<Rightarrow> 'w task list \<Rightarrow> agent_event list \<Rightarrow> bool" where
  "tasks_progress ts ts' l \<longleftrightarrow>
     map task_call ts' = map task_call ts \<and> started_ids l = [] \<and> begun_messages l = [] \<and>
     ended_messages l = [] \<and> mset (task_ended ts') = mset (task_ended ts) + mset (ended_ids l)"

lemma tasks_progress_refl: "tasks_progress ts ts []"
  by (simp add: tasks_progress_def)

lemma tasks_progress_trans:
  "tasks_progress ts ts1 l \<Longrightarrow> tasks_progress ts1 ts2 l' \<Longrightarrow> tasks_progress ts ts2 (l @ l')"
  by (simp add: tasks_progress_def)

lemma tasks_progress_Cons:
  "tasks_progress [t] [t'] l \<Longrightarrow> tasks_progress ts ts' l' \<Longrightarrow> tasks_progress (t # ts) (t' # ts') (l @ l')"
  by (simp add: tasks_progress_def task_ended_Cons [of _ ts] task_ended_Cons [of _ ts'])

lemma tasks_progress_update:
  assumes i: "i < length ts" and p: "tasks_progress [ts ! i] [t] l"
  shows "tasks_progress ts (ts[i := t]) l"
proof -
  from p have c: "task_call t = task_call (ts ! i)" by (simp add: tasks_progress_def)
  from i c have "map task_call (ts[i := t]) = map task_call ts"
    by (metis list_update_id map_update)
  moreover from p task_ended_update [OF i, of t]
  have "mset (task_ended (ts[i := t])) = mset (task_ended ts) + mset (ended_ids l)"
    by (simp add: tasks_progress_def)
  ultimately show ?thesis using p by (simp add: tasks_progress_def)
qed

lemma task_step_progress:
  "logs (\<lambda>t' l. tasks_progress [t] [t'] l) (task_step env context am config t)"
  by (rule logs_weaken [OF task_step_logs]) (auto simp: tasks_progress_def)

fun is_done :: "'w task \<Rightarrow> bool" where
  "is_done (TaskDone _) = True"
| "is_done _ = False"

text \<open>Three steps finish every task.\<close>

fun steps_left :: "'w task \<Rightarrow> nat" where
  "steps_left (TaskReady _ _ _) = 3"
| "steps_left (TaskExecuted _ _ _) = 2"
| "steps_left (TaskFinal _) = 1"
| "steps_left (TaskDone _) = 0"

lemma task_step_rank:
  "task_step env context am config t r = (Inr t', r') \<Longrightarrow> steps_left t' \<le> steps_left t - 1"
  by (cases t)
    (auto simp: on_world_def is_aborted_def readp_def ret_def seqp_def bindp_Inr_iff split: if_splits prod.splits)

lemma steps_left_0: "steps_left t = 0 \<longleftrightarrow> is_done t"
  by (cases t) auto

lemma task_steps_logs:
  "logs (\<lambda>t' l. tasks_progress [t] [t'] l \<and> steps_left t' \<le> steps_left t - 1) (task_step env context am config t)"
proof -
  have "logs (\<lambda>t' l. tasks_progress [t] [t'] l) (task_step env context am config t)"
    by (rule task_step_progress)
  then show ?thesis
    unfolding logs_def using task_step_rank by blast
qed

lemma finish_tasks_logs:
  "logs (\<lambda>ts' l. tasks_progress ts ts' l \<and> (\<forall>t\<in>set ts'. is_done t))
     (finish_tasks env context am config ts)"
proof (induction ts)
  case Nil
  show ?case by (auto intro!: logs_intros simp: tasks_progress_refl)
next
  case (Cons t ts)
  have le: "steps_left t \<le> 3" for t :: "'a task" by (cases t) auto
  show ?case
    unfolding finish_tasks.simps
  proof (rule logs_bindp [OF task_steps_logs], rule logs_bindp [OF task_steps_logs],
      rule logs_bindp [OF task_steps_logs], rule logs_bindp [OF Cons.IH], rule logs_ret)
    fix t1 l1 t2 l2 t3 l3 ts' l'
    assume a: "tasks_progress [t] [t1] l1 \<and> steps_left t1 \<le> steps_left t - 1"
      "tasks_progress [t1] [t2] l2 \<and> steps_left t2 \<le> steps_left t1 - 1"
      "tasks_progress [t2] [t3] l3 \<and> steps_left t3 \<le> steps_left t2 - 1"
      "tasks_progress ts ts' l' \<and> (\<forall>t\<in>set ts'. is_done t)"
    have "steps_left t3 = 0" using a le [of t] by linarith
    then have "is_done t3" by (simp only: steps_left_0)
    moreover from a have "tasks_progress [t] [t3] (l1 @ l2 @ l3)"
      by (blast intro: tasks_progress_trans)
    ultimately show "tasks_progress (t # ts) (t3 # ts') (l1 @ l2 @ l3 @ l' @ []) \<and> (\<forall>t\<in>set (t3 # ts'). is_done t)"
      using a(4) tasks_progress_Cons [of t t3 "l1 @ l2 @ l3" ts ts' l'] by simp
  qed
qed

lemma run_tasks_logs:
  "logs (\<lambda>ts' l. tasks_progress ts ts' l \<and> (\<forall>t\<in>set ts'. is_done t))
     (run_tasks env context am config schedule ts)"
proof (induction schedule arbitrary: ts)
  case Nil
  show ?case by (simp add: finish_tasks_logs)
next
  case (Cons i schedule)
  show ?case
  proof (cases "i < length ts")
    case True
    then show ?thesis
      by (simp only: run_tasks.simps if_True)
        (rule logs_bindp [OF task_step_progress], rule logs_weaken [OF Cons.IH],
         blast intro: tasks_progress_trans tasks_progress_update)
  next
    case False
    then show ?thesis using Cons.IH by simp
  qed
qed

lemma prepare_tasks_logs:
  "logs (\<lambda>ts l. \<exists>n\<le>length tcs. (never_aborted env \<longrightarrow> n = length tcs) \<and>
        map task_call ts = take n tcs \<and> started_ids l = map tc_id (take n tcs) \<and>
        begun_messages l = [] \<and> ended_messages l = [] \<and> mset (task_ended ts) = mset (ended_ids l))
     (prepare_tasks env context am config tcs)"
proof (induction tcs)
  case Nil
  show ?case by (auto intro!: logs_intros simp: task_ended_def List.map_filter_simps)
next
  case (Cons tc tcs)
  let ?start = "ToolExecutionStart (tc_id tc) (tc_name tc) (tc_arguments tc)"
  have entry: "logs (\<lambda>t l. task_call t = tc \<and> started_ids l = [] \<and> begun_messages l = [] \<and>
        ended_messages l = [] \<and> task_ended [t] = ended_ids l)
     (case p of
             Immediate result isError \<Rightarrow>
               (let finalized = \<lparr>oc_toolCall = tc, oc_result = result, oc_isError = isError,
                      oc_durationMs = None\<rparr>
                in seqp (emitToolExecutionEnd env finalized) (ret (TaskDone finalized)))
           | Prepared tc' t args \<Rightarrow> ret (TaskReady tc t args))" for p :: "'a preparation"
    by (cases p) (auto intro!: logs_intros logs_seqp_emit
        simp: emitToolExecutionEnd_def Let_def task_ended_def List.map_filter_simps)
  show ?case
    unfolding prepare_tasks.simps emitToolExecutionStart_def
  proof (rule logs_seqp_emit, rule logs_bindp_world, rule logs_bindp [OF entry],
      rule logs_bindp_world_value [where V = "\<lambda>aborted. aborted \<longrightarrow> \<not> never_aborted env"])
    fix w x w' assume "is_aborted env w = (Inr x, w')"
    then show "x \<longrightarrow> \<not> never_aborted env"
      by (auto simp: is_aborted_def readp_def never_aborted_def)
  next
    fix t :: "'a task" and l :: "agent_event list" and aborted :: bool
    assume t: "task_call t = tc \<and> started_ids l = [] \<and> begun_messages l = [] \<and>
        ended_messages l = [] \<and> task_ended [t] = ended_ids l"
      and ab: "aborted \<longrightarrow> \<not> never_aborted env"
    show "logs (\<lambda>ts l'. \<exists>n\<le>length (tc # tcs). (never_aborted env \<longrightarrow> n = length (tc # tcs)) \<and>
        map task_call ts = take n (tc # tcs) \<and> started_ids (?start # l @ l') = map tc_id (take n (tc # tcs)) \<and>
        begun_messages (?start # l @ l') = [] \<and> ended_messages (?start # l @ l') = [] \<and>
        mset (task_ended ts) = mset (ended_ids (?start # l @ l')))
      (if aborted then ret [t]
       else bindp (prepare_tasks env context am config tcs) (\<lambda>rest. ret (t # rest)))"
    proof (cases aborted)
      case True
      with t ab show ?thesis
        by (auto intro!: logs_intros exI [of _ 1])
    next
      case False
      show ?thesis
      proof (simp only: False if_False, rule logs_bindp [OF Cons.IH], rule logs_ret)
        fix ts :: "'a task list" and l' :: "agent_event list"
        assume "\<exists>n\<le>length tcs. (never_aborted env \<longrightarrow> n = length tcs) \<and>
          map task_call ts = take n tcs \<and> started_ids l' = map tc_id (take n tcs) \<and>
          begun_messages l' = [] \<and> ended_messages l' = [] \<and> mset (task_ended ts) = mset (ended_ids l')"
        then obtain n where "n \<le> length tcs" "never_aborted env \<longrightarrow> n = length tcs"
          "map task_call ts = take n tcs" "started_ids l' = map tc_id (take n tcs)"
          "begun_messages l' = []" "ended_messages l' = []" "mset (task_ended ts) = mset (ended_ids l')"
          by blast
        with t show "\<exists>n\<le>length (tc # tcs). (never_aborted env \<longrightarrow> n = length (tc # tcs)) \<and>
          map task_call (t # ts) = take n (tc # tcs) \<and>
          started_ids (?start # l @ l' @ []) = map tc_id (take n (tc # tcs)) \<and>
          begun_messages (?start # l @ l' @ []) = [] \<and> ended_messages (?start # l @ l' @ []) = [] \<and>
          mset (task_ended (t # ts)) = mset (ended_ids (?start # l @ l' @ []))"
          by (intro exI [of _ "Suc n"]) (simp add: task_ended_Cons [of _ ts])
      qed
    qed
  qed
qed

lemma publish_all_logs:
  "logs (\<lambda>ms l. map result_key ms = map (call_key \<circ> oc_toolCall) ocs \<and> started_ids l = [] \<and>
        ended_ids l = [] \<and> begun_messages l = map ToolResultMsg ms \<and>
        ended_messages l = map ToolResultMsg ms)
     (publish_all env ocs)"
proof (induction ocs)
  case Nil
  show ?case by (auto intro!: logs_intros)
next
  case (Cons f ocs)
  show ?case
    unfolding publish_all.simps
    by (rule logs_bindp [OF publishToolResult_logs], rule logs_bindp [OF Cons.IH], rule logs_ret) auto
qed

lemma done_outcomes:
  "\<forall>t\<in>set ts. is_done t \<Longrightarrow>
     map oc_toolCall (List.map_filter task_outcome ts) = map task_call ts \<and>
     task_ended ts = map tc_id (map task_call ts)"
proof (induction ts)
  case (Cons t ts)
  then show ?case by (cases t) (auto simp: task_ended_def List.map_filter_simps)
qed (simp add: task_ended_def List.map_filter_simps)

lemma parallel_batch_logs:
  "logs (\<lambda>b l. batch_contract (never_aborted env) tcs (tb_messages b) l)
     (executeToolCallsParallel env context am tcs config)"
  unfolding executeToolCallsParallel_def Let_def
proof (rule logs_bindp [OF prepare_tasks_logs], rule logs_bindp_world, rule logs_bindp [OF run_tasks_logs],
    rule logs_bindp [OF publish_all_logs], rule logs_ret)
  fix ts l0 ts' l1 ms l2
  assume 0: "\<exists>n\<le>length tcs. (never_aborted env \<longrightarrow> n = length tcs) \<and>
        map task_call ts = take n tcs \<and> started_ids l0 = map tc_id (take n tcs) \<and>
        begun_messages l0 = [] \<and> ended_messages l0 = [] \<and> mset (task_ended ts) = mset (ended_ids l0)"
    and 1: "tasks_progress ts ts' l1 \<and> (\<forall>t\<in>set ts'. is_done t)"
    and 2: "map result_key ms = map (call_key \<circ> oc_toolCall) (List.map_filter task_outcome ts') \<and>
        started_ids l2 = [] \<and> ended_ids l2 = [] \<and> begun_messages l2 = map ToolResultMsg ms \<and>
        ended_messages l2 = map ToolResultMsg ms"
  from 0 obtain n where n: "n \<le> length tcs" "never_aborted env \<longrightarrow> n = length tcs"
    "map task_call ts = take n tcs" "started_ids l0 = map tc_id (take n tcs)"
    "begun_messages l0 = []" "ended_messages l0 = []" "mset (task_ended ts) = mset (ended_ids l0)"
    by blast
  from 1 n(3) have calls: "map task_call ts' = take n tcs" by (simp add: tasks_progress_def)
  from done_outcomes [of ts'] 1 calls
  have d: "map oc_toolCall (List.map_filter task_outcome ts') = take n tcs"
    "task_ended ts' = map tc_id (take n tcs)" by auto
  have keys: "map result_key ms = map call_key (take n tcs)"
    using 2 by (simp flip: d(1))
  show "batch_contract (never_aborted env) tcs
     (tb_messages \<lparr>tb_messages = ms,
        tb_terminate = shouldTerminateToolBatch (List.map_filter task_outcome ts')\<rparr>)
     (l0 @ l1 @ l2 @ [])"
    unfolding batch_contract_def
  proof (intro exI [of _ n] conjI)
    show "mset (ended_ids (l0 @ l1 @ l2 @ [])) = mset (map tc_id (take n tcs))"
      using 1 2 n(7) d(2) by (simp add: tasks_progress_def)
  qed (use n keys 1 2 in \<open>auto simp: tasks_progress_def\<close>)
qed

text \<open>
  Whatever the schedule, the hooks, the tools and the sink do, a batch that returns has
  kept the contract.
\<close>

lemma executeToolCalls_logs:
  assumes "tool_calls_of am = Inr tcs"
  shows "logs (\<lambda>b l. batch_contract (never_aborted env) tcs (tb_messages b) l)
     (executeToolCalls env mode context am config)"
proof -
  have "executeToolCalls env mode context am config =
    (if mode = Some Sequential \<or> has_sequential_call context tcs
     then executeToolCallsSequential env context am tcs config
     else executeToolCallsParallel env context am tcs config)"
    by (rule ext) (simp add: assms executeToolCalls_def liftp_def bindp_def)
  then show ?thesis by (simp add: sequential_batch_logs parallel_batch_logs)
qed

section \<open>Errors of a call are values\<close>

lemma deliver_updates_silent:
  "(\<And>p r. \<exists>r'. onUpdate p r = (Inr (), r')) \<Longrightarrow> \<exists>r'. deliver_updates onUpdate ps r = (None, r')"
proof (induction ps arbitrary: r)
  case (Cons p ps)
  then obtain r1 where "onUpdate p r = (Inr (), r1)" by blast
  with Cons show ?case by auto
qed auto

lemma executePreparedToolCall_returns:
  assumes "\<And>p r. \<exists>r'. onUpdate p r = (Inr (), r')"
  shows "\<exists>x r'. executePreparedToolCall env tc t args onUpdate r = (Inr x, r')"
proof -
  obtain partials outcome w' where ex: "at_execute t (tc_id tc) args (run_world r) = ((partials, outcome), w')"
    by (metis prod.exhaust_sel)
  obtain r2 where "deliver_updates onUpdate partials (r\<lparr>run_world := w'\<rparr>) = (None, r2)"
    using deliver_updates_silent [of onUpdate partials] assms by blast
  with ex show ?thesis
    by (auto simp: executePreparedToolCall_def Let_def split: sum.splits)
qed

lemma returns_on_world [returns_intros]: "returns m \<Longrightarrow> returns (on_world m)"
  by (auto simp: returns_def on_world_def split: prod.splits) (metis prod.inject)

text \<open>A sink that never rejects an event.\<close>

definition quiet_sink :: "'w env \<Rightarrow> bool" where
  "quiet_sink env \<longleftrightarrow> (\<forall>event. returns (env_sink env event))"

lemma returns_emit [returns_intros]: "quiet_sink env \<Longrightarrow> returns (emit env e)"
  unfolding returns_def emit_def quiet_sink_def by (metis (no_types, lifting) case_prod_conv)

lemma returns_is_aborted [returns_intros]: "returns (is_aborted env)"
  by (simp add: is_aborted_def returns_intros)

lemma returns_prepareToolCall [returns_intros]:
  "returns (prepareToolCall env context am tc config tools)"
  by (simp add: returns_def prepareToolCall_returns)

lemma returns_finalize [returns_intros]:
  "returns (finalizeExecutedToolCall context am tc args executed config)"
  by (simp add: returns_def finalize_returns)

lemma returns_execute [returns_intros]:
  "(\<And>p. returns (onUpdate p)) \<Longrightarrow> returns (executePreparedToolCall env tc t args onUpdate)"
  using executePreparedToolCall_returns [of onUpdate] unfolding returns_def by simp

lemma returns_tool_events [returns_intros]:
  assumes "quiet_sink env"
  shows "returns (emitToolExecutionStart env tc)" "returns (emitToolExecutionUpdate env tc p)"
    "returns (emitToolExecutionEnd env oc)" "returns (publishToolResult env oc)"
  using assms
  by (auto simp: emitToolExecutionStart_def emitToolExecutionUpdate_def emitToolExecutionEnd_def
      publishToolResult_def emitToolResultMessage_def Let_def intro!: returns_intros)

lemma returns_runSequentialCall [returns_intros]:
  "quiet_sink env \<Longrightarrow> returns (runSequentialCall env context am config tc)"
  unfolding runSequentialCall_def
  by (auto intro!: returns_intros split: preparation.split)

lemma returns_sequential_calls [returns_intros]:
  "quiet_sink env \<Longrightarrow> returns (sequential_calls env context am config tcs fs ms)"
  by (induction tcs arbitrary: fs ms) (auto intro!: returns_intros)

lemma returns_prepare_tasks [returns_intros]:
  "quiet_sink env \<Longrightarrow> returns (prepare_tasks env context am config tcs)"
  by (induction tcs) (auto simp: Let_def intro!: returns_intros split: preparation.split)

lemma returns_task_step [returns_intros]:
  "quiet_sink env \<Longrightarrow> returns (task_step env context am config t)"
  by (cases t) (auto intro!: returns_intros)

lemma returns_finish_tasks [returns_intros]:
  "quiet_sink env \<Longrightarrow> returns (finish_tasks env context am config ts)"
  by (induction ts) (auto intro!: returns_intros)

lemma returns_run_tasks [returns_intros]:
  "quiet_sink env \<Longrightarrow> returns (run_tasks env context am config schedule ts)"
  by (induction schedule arbitrary: ts) (auto intro!: returns_intros)

lemma returns_publish_all [returns_intros]:
  "quiet_sink env \<Longrightarrow> returns (publish_all env ocs)"
  by (induction ocs) (auto intro!: returns_intros)

lemma returns_truncated [returns_intros]:
  "quiet_sink env \<Longrightarrow> returns (failToolCallsFromTruncatedMessage env tcs)"
  by (induction tcs) (auto simp: Let_def intro!: returns_intros)

lemma returns_executeToolCalls:
  assumes "quiet_sink env" and "tool_calls_of am = Inr tcs"
  shows "returns (executeToolCalls env mode context am config)"
  using assms
  by (auto simp: executeToolCalls_def executeToolCallsSequential_def executeToolCallsParallel_def
      Let_def case_prod_beta intro!: returns_intros)

lemma returns_runToolCall:
  assumes "\<And>f p. onUpdate = Some f \<Longrightarrow> returns (f p)"
  shows "returns (runToolCall env tc config tools am context onUpdate)"
  unfolding runToolCall_def
  using assms by (auto intro!: returns_intros split: preparation.split option.split)

section \<open>Properties of tool execution\<close>

text \<open>A small application to instantiate the properties with: the world is a counter.\<close>

definition demo_env :: "nat env" where
  "demo_env = \<lparr>env_now = int, env_perf = of_nat, env_aborted = (\<lambda>w. w > 100),
     env_validate = (\<lambda>t tc. Inr (tc_arguments tc)), env_schedule = (\<lambda>w. [1, 0, 1]),
     env_sink = (\<lambda>e w. (Inr (), Suc w))\<rparr>"

definition demo_tool :: "string \<Rightarrow> nat agent_tool" where
  "demo_tool name = \<lparr>t_name = name, t_description = ''demo'', t_parameters = [],
     t_constrainedSampling = None, at_label = name, at_prepareArguments = None,
     at_outputSchema = None,
     at_execute = (\<lambda>i args w. (([], Inl ''tool failed''), w + 10)),
     at_replay = None, at_executionMode = None\<rparr>"

definition demo_call :: "string \<Rightarrow> string \<Rightarrow> tool_call" where
  "demo_call i name = \<lparr>tc_id = i, tc_name = name, tc_arguments = JObj [],
     tc_thoughtSignature = None, tc_namespace = None\<rparr>"

definition demo_assistant :: "block list \<Rightarrow> stop_reason \<Rightarrow> assistant_message" where
  "demo_assistant blocks reason = \<lparr>am_content = Blocks blocks, am_api = ''api'', am_provider = ''p'',
     am_model = ''m'', am_responseModel = None, am_responseId = None,
     am_providerThinkingLevel = None, am_thinkingLevel = None, am_diagnostics = None,
     am_usage = None, am_stopReason = reason, am_deferred = None, am_errorMessage = None,
     am_rawStopReason = None, am_endTurn = None, am_timestamp = 0, am_durationMs = None\<rparr>"

definition demo_hooks :: "nat tool_hooks" where
  "demo_hooks = \<lparr>hk_beforeToolCall = Some (\<lambda>am tc args context.
       ret (if tc_name tc = ''rm'' then Some \<lparr>btr_block = Some True, btr_reason = Some ''denied'',
              btr_terminate = None\<rparr> else None)),
     hk_afterToolCall = None\<rparr>"

definition demo_context :: "nat agent_context" where
  "demo_context = \<lparr>ac_messages = [], ac_tools = Some [demo_tool ''ls'', demo_tool ''rm'']\<rparr>"

lemma demo_quiet [simp]: "quiet_sink demo_env"
  by (simp add: quiet_sink_def demo_env_def returns_def)

text \<open>
  C4: Executing the tool calls of an assistant message returns a batch whenever the event
  sink does not throw, in either execution mode and for every interleaving of concurrent
  calls; it has appended to the event log exactly one start and one end event per
  attempted call, the starts in source order, and emitted one result message per attempted
  call, in source order, under the id and name of its call. Every call is attempted unless
  the run is aborted.
\<close>

theorem executeToolCalls_contract:
  assumes "quiet_sink env" and "tool_calls_of am = Inr tcs"
  shows "\<exists>b r' l. executeToolCalls env mode context am config r = (Inr b, r') \<and>
           run_log r' = run_log r @ l \<and> batch_contract (never_aborted env) tcs (tb_messages b) l"
proof -
  from returns_executeToolCalls [OF assms]
  obtain b r' where b: "executeToolCalls env mode context am config r = (Inr b, r')"
    by (rule returnsD)
  from executeToolCalls_logs [OF assms(2)] b
  obtain l where "run_log r' = run_log r @ l"
    "batch_contract (never_aborted env) tcs (tb_messages b) l"
    by (rule logsD)
  with b show ?thesis by blast
qed

theorem executeToolCalls_contract_witness:
  "\<exists>b r' l. executeToolCalls demo_env None demo_context
       (demo_assistant [ToolCall (demo_call ''1'' ''ls''), ToolCall (demo_call ''2'' ''rm'')] StopToolUse)
       demo_hooks \<lparr>run_log = [AgentStart], run_world = 7\<rparr> = (Inr b, r') \<and>
     run_log r' = [AgentStart] @ l \<and>
     batch_contract (never_aborted demo_env) [demo_call ''1'' ''ls'', demo_call ''2'' ''rm'']
       (tb_messages b) l"
  using executeToolCalls_contract [of demo_env
      "demo_assistant [ToolCall (demo_call ''1'' ''ls''), ToolCall (demo_call ''2'' ''rm'')] StopToolUse"
      "[demo_call ''1'' ''ls'', demo_call ''2'' ''rm'']" None demo_context demo_hooks
      "\<lparr>run_log = [AgentStart], run_world = 7\<rparr>"]
  by (simp add: demo_assistant_def tool_calls_of_def List.map_filter_simps)

text \<open>
  The calls of a message cut off by the token limit are all answered without running
  anything: one error result per call, in order, and the batch asks for another turn.
\<close>

theorem truncated_calls_fail:
  assumes "quiet_sink env"
  shows "\<exists>b r' l. failToolCallsFromTruncatedMessage env tcs r = (Inr b, r') \<and>
     run_log r' = run_log r @ l \<and> batch_contract True tcs (tb_messages b) l \<and>
     \<not> tb_terminate b \<and> (\<forall>m\<in>set (tb_messages b). tr_isError m)"
proof -
  obtain b r' where b: "failToolCallsFromTruncatedMessage env tcs r = (Inr b, r')"
    using returns_truncated [OF assms] by (rule returnsD)
  from truncated_batch_logs b show ?thesis by (rule logsD) (use b in blast)
qed

theorem truncated_calls_fail_witness:
  "\<exists>b r' l. failToolCallsFromTruncatedMessage demo_env [demo_call ''1'' ''ls''] \<lparr>run_log = [], run_world = 0\<rparr>
       = (Inr b, r') \<and>
     run_log r' = [] @ l \<and> batch_contract True [demo_call ''1'' ''ls''] (tb_messages b) l \<and>
     \<not> tb_terminate b \<and> (\<forall>m\<in>set (tb_messages b). tr_isError m)"
  using truncated_calls_fail [of demo_env "[demo_call ''1'' ''ls'']" "\<lparr>run_log = [], run_world = 0\<rparr>"]
  by simp

lemma runToolCall_toolCall:
  "runToolCall env tc config tools am context onUpdate r = (Inr oc, r') \<Longrightarrow> oc_toolCall oc = tc"
  unfolding runToolCall_def
  by (auto elim!: bindp_InrE simp: on_world_def ret_def split: preparation.splits prod.splits
      dest!: finalize_call prepareToolCall_call)

text \<open>
  \<open>runToolCall\<close> never rejects for tool failures: with an update callback that does not
  throw it returns an outcome for the call, whatever the tool, its argument preparation,
  validation and the hooks do.
\<close>

theorem runToolCall_outcome:
  assumes "\<And>f p. onUpdate = Some f \<Longrightarrow> returns (f p)"
  shows "\<exists>oc r'. runToolCall env tc config tools am context onUpdate r = (Inr oc, r') \<and>
           oc_toolCall oc = tc"
proof -
  have "returns (runToolCall env tc config tools am context onUpdate)"
    using assms by (rule returns_runToolCall)
  then obtain oc r' where oc: "runToolCall env tc config tools am context onUpdate r = (Inr oc, r')"
    by (rule returnsD)
  with runToolCall_toolCall [OF oc] show ?thesis by blast
qed

theorem runToolCall_outcome_witness:
  "\<exists>oc r'. runToolCall demo_env (demo_call ''1'' ''ls'') demo_hooks [demo_tool ''ls'']
       (demo_assistant [] StopStop) demo_context None \<lparr>run_log = [], run_world = 0\<rparr> = (Inr oc, r') \<and>
     oc_toolCall oc = demo_call ''1'' ''ls''"
  by (rule runToolCall_outcome) simp

text \<open>
  A call that \<open>beforeToolCall\<close> blocks is answered with the hook's reason as an error
  and its tool is not executed: the state after the call is the one the hook left, with no
  event logged.
\<close>

theorem blocked_call_not_executed:
  assumes "List.find (\<lambda>t. t_name t = tc_name tc) tools = Some t"
    and "prepareToolCallArguments t tc = Inr prepared"
    and "env_validate env t prepared = Inr args"
    and "hk_beforeToolCall config = Some before"
    and "before am tc args context (run_world r) = (Inr (Some b), w)"
    and "btr_block b = Some True" and "\<not> env_aborted env w"
  shows "runToolCall env tc config tools am context onUpdate r =
    (Inr \<lparr>oc_toolCall = tc, oc_result = blocked_result b, oc_isError = True, oc_durationMs = None\<rparr>,
     r\<lparr>run_world := w\<rparr>)"
  using assms
  by (simp add: runToolCall_def prepareToolCall_def on_world_def catchp_def bindp_def liftp_def
      Let_def unless_aborted_def is_aborted_def readp_def ret_def)

theorem blocked_call_not_executed_witness:
  "runToolCall demo_env (demo_call ''2'' ''rm'') demo_hooks [demo_tool ''ls'', demo_tool ''rm'']
     (demo_assistant [] StopStop) demo_context None \<lparr>run_log = [], run_world = 3\<rparr> =
   (Inr \<lparr>oc_toolCall = demo_call ''2'' ''rm'',
      oc_result = blocked_result \<lparr>btr_block = Some True, btr_reason = Some ''denied'', btr_terminate = None\<rparr>,
      oc_isError = True, oc_durationMs = None\<rparr>, \<lparr>run_log = [], run_world = 3\<rparr>\<lparr>run_world := 3\<rparr>)"
  by (rule blocked_call_not_executed [where t = "demo_tool ''rm''" and prepared = "demo_call ''2'' ''rm''"
        and args = "JObj []"
        and before = "\<lambda>am tc args context. ret (if tc_name tc = ''rm'' then Some \<lparr>btr_block = Some True,
              btr_reason = Some ''denied'', btr_terminate = None\<rparr> else None)"])
    (simp_all add: demo_tool_def demo_call_def demo_env_def demo_hooks_def prepareToolCallArguments_def ret_def)

text \<open>
  What the validator or the argument preparation of a tool throws becomes the error
  outcome of the call, with the thrown message as its text, and the tool is not executed.
\<close>

theorem invalid_arguments_not_executed:
  assumes "List.find (\<lambda>t. t_name t = tc_name tc) tools = Some t"
    and "prepareToolCallArguments t tc = Inl e \<or>
      (\<exists>prepared. prepareToolCallArguments t tc = Inr prepared \<and> env_validate env t prepared = Inl e)"
  shows "runToolCall env tc config tools am context onUpdate r =
    (Inr \<lparr>oc_toolCall = tc, oc_result = createErrorToolResult e, oc_isError = True, oc_durationMs = None\<rparr>, r)"
  using assms
  by (auto simp: runToolCall_def prepareToolCall_def on_world_def catchp_def bindp_def liftp_def ret_def)

theorem invalid_arguments_not_executed_witness:
  "runToolCall (demo_env\<lparr>env_validate := (\<lambda>t tc. Inl ''missing path'')\<rparr>) (demo_call ''1'' ''ls'') demo_hooks
     [demo_tool ''ls''] (demo_assistant [] StopStop) demo_context None \<lparr>run_log = [], run_world = 3\<rparr> =
   (Inr \<lparr>oc_toolCall = demo_call ''1'' ''ls'', oc_result = createErrorToolResult ''missing path'',
      oc_isError = True, oc_durationMs = None\<rparr>, \<lparr>run_log = [], run_world = 3\<rparr>)"
  by (rule invalid_arguments_not_executed [where t = "demo_tool ''ls''"])
    (simp_all add: demo_tool_def demo_call_def prepareToolCallArguments_def)

end
