(* ===== verification/Agent_Loop.thy ===== *)
theory Agent_Loop
  imports Tool_Calls
begin

text \<open>
  The agent loop of \<open>packages/agent/src/agent-loop.ts\<close>: declaring tool changes, streaming
  one assistant response, one turn, and the loop over turns with its steering and
  follow-up queues, started by a prompt or continued.

  The callbacks of the loop configuration are programs over the world. The stream function
  answers with the events it will produce, each a program that is run when the loop pulls
  it, and the program of its final result. The loop may run for as long as the model calls
  tools, so \<open>run_loop\<close> takes fuel; \<open>None\<close> says that the fuel was used up.
\<close>

section \<open>Configuration\<close>

record model =
  md_id :: string
  md_name :: string
  md_api :: string
  md_provider :: string
  md_baseUrl :: string
  md_reasoning :: bool
  md_contextWindow :: nat
  md_maxTokens :: nat

record 'w turn_context =
  tn_message :: assistant_message
  tn_toolResults :: "tool_result_message list"
  tn_context :: "'w agent_context"
  tn_newMessages :: "agent_message list"

datatype turn_decision = TurnContinue | TurnFinish

record 'w request_update =
  ru_context :: "'w agent_context option"
  ru_model :: "model option"
  ru_thinkingLevel :: "thinking_level option"

record 'w turn_update = "'w request_update" +
  tu_messages :: "agent_message list option"

record 'w request_context =
  rq_context :: "'w agent_context"
  rq_model :: model
  rq_thinkingLevel :: thinking_level

record 'w loop_config = "'w tool_hooks" +
  lc_model :: model
  lc_reasoning :: "thinking_level option"
  lc_apiKey :: "string option"
  lc_convertToLlm :: "agent_message list \<Rightarrow> ('w, agent_message list) prog"
  lc_transformContext :: "(agent_message list \<Rightarrow> ('w, agent_message list) prog) option"
  lc_getApiKey :: "(string \<Rightarrow> ('w, string option) prog) option"
  lc_finishTurn :: "('w turn_context \<Rightarrow> ('w, turn_decision option) prog) option"
  lc_prepareRequest :: "('w request_context \<Rightarrow> ('w, 'w request_update option) prog) option"
  lc_prepareNextTurn :: "('w turn_context \<Rightarrow> ('w, 'w turn_update option) prog) option"
  lc_getSteeringMessages :: "('w, agent_message list) prog option"
  lc_getFollowUpMessages :: "('w, agent_message list) prog option"
  lc_toolExecution :: "execution_mode option"

record 'w response =
  rs_events :: "('w, assistant_event) prog list"
  rs_result :: "('w, assistant_message) prog"

type_synonym 'w stream_fn =
  "model \<Rightarrow> agent_message list \<Rightarrow> 'w loop_config \<Rightarrow> ('w, 'w response) prog"

section \<open>Declaring tool changes\<close>

definition NO_CHANGES :: tool_state_changes where
  "NO_CHANGES = \<lparr>tsc_toolsAdded = [], tsc_toolsRemoved = []\<rparr>"

definition withToolChanges :: "system_message \<Rightarrow> tool_state_changes \<Rightarrow> system_message" where
  "withToolChanges message changes =
     message\<lparr>sm_toolsAdded := (if tsc_toolsAdded changes \<noteq> [] then Some (tsc_toolsAdded changes) else None),
             sm_toolsRemoved := (if tsc_toolsRemoved changes \<noteq> [] then Some (tsc_toolsRemoved changes) else None)\<rparr>"

text \<open>
  The last system message of a list, with what comes before and after it: the backwards
  search for \<open>systemIndex\<close>.
\<close>

fun split_last_system ::
  "agent_message list \<Rightarrow> (agent_message list \<times> system_message \<times> agent_message list) option" where
  "split_last_system [] = None"
| "split_last_system (m # ms) =
     (case split_last_system ms of
        Some (before, s, after) \<Rightarrow> Some (m # before, s, after)
      | None \<Rightarrow> (case m of SystemMsg s \<Rightarrow> Some ([], s, ms) | _ \<Rightarrow> None))"

definition declareToolChanges ::
  "int \<Rightarrow> 'w agent_context \<Rightarrow> agent_message list \<Rightarrow> agent_message list" where
  "declareToolChanges now context pendingMessages =
     (let system = split_last_system pendingMessages;
          baseline = (case system of
              Some (before, pending, after) \<Rightarrow>
                before @ SystemMsg (withToolChanges pending NO_CHANGES) # after
            | None \<Rightarrow> pendingMessages);
          changes = getToolStateChanges (getCurrentTools (ac_messages context @ baseline))
                      (map toToolDeclaration (context_tools context));
          unchanged = (tsc_toolsAdded changes = [] \<and> tsc_toolsRemoved changes = [])
      in case system of
           Some (before, pending, after) \<Rightarrow>
             (if unchanged \<and> opt_list (sm_toolsAdded pending) = [] \<and> opt_list (sm_toolsRemoved pending) = []
              then pendingMessages
              else before @ SystemMsg (withToolChanges pending changes) # after)
         | None \<Rightarrow>
             (if unchanged then pendingMessages
              else let update = withToolChanges
                         \<lparr>sm_content = TextOnly [], sm_sections = None, sm_toolsAdded = None,
                          sm_toolsRemoved = None, sm_timestamp = now\<rparr> changes;
                       insertIndex = find_index (\<lambda>m. \<not> is_system m) pendingMessages;
                       index = (case insertIndex of None \<Rightarrow> length pendingMessages | Some i \<Rightarrow> i)
                   in take index pendingMessages @ SystemMsg update # drop index pendingMessages))"

section \<open>Streaming one assistant response\<close>

text \<open>\<open>messages[messages.length - 1] = m\<close>; on an empty array that sets no element.\<close>

definition set_last :: "'a list \<Rightarrow> 'a \<Rightarrow> 'a list" where
  "set_last ms m = (if ms = [] then [] else butlast ms @ [m])"

text \<open>
  The end of a response, reached from \<open>done\<close>, \<open>error\<close> and the end of the stream alike:
  await the result, record the requested level, put it in place of the partial message.
\<close>

definition finish_response ::
  "'w env \<Rightarrow> 'w loop_config \<Rightarrow> 'w response \<Rightarrow> bool \<Rightarrow> agent_message list
   \<Rightarrow> ('w run, assistant_message \<times> agent_message list) prog" where
  "finish_response env config response addedPartial messages =
     bindp (on_world (rs_result response)) (\<lambda>result.
     let finalMessage = result\<lparr>am_thinkingLevel :=
           Some (case lc_reasoning config of None \<Rightarrow> TLOff | Some level \<Rightarrow> level)\<rparr>;
         messages' = (if addedPartial then set_last messages (AssistantMsg finalMessage)
                      else messages @ [AssistantMsg finalMessage])
     in seqp (if addedPartial then ret () else emit env (MessageStart (AssistantMsg finalMessage)))
          (seqp (emit env (MessageEnd (AssistantMsg finalMessage)))
             (ret (finalMessage, messages'))))"

text \<open>
  The \<open>for await\<close> loop. \<open>partialMessage\<close> is set exactly when a partial message was added
  to the context, so one flag stands for both variables.
\<close>

fun consume_events ::
  "'w env \<Rightarrow> 'w loop_config \<Rightarrow> 'w response \<Rightarrow> ('w, assistant_event) prog list \<Rightarrow> bool
   \<Rightarrow> agent_message list \<Rightarrow> ('w run, assistant_message \<times> agent_message list) prog" where
  "consume_events env config response [] addedPartial messages =
     finish_response env config response addedPartial messages"
| "consume_events env config response (next_event # events) addedPartial messages =
     bindp (on_world next_event) (\<lambda>event.
       case event of
         EvStart partial \<Rightarrow>
           seqp (emit env (MessageStart (AssistantMsg partial)))
             (consume_events env config response events True (messages @ [AssistantMsg partial]))
       | EvDone _ _ \<Rightarrow> finish_response env config response addedPartial messages
       | EvError _ _ \<Rightarrow> finish_response env config response addedPartial messages
       | _ \<Rightarrow>
           (if addedPartial
            then seqp (emit env (MessageUpdate (AssistantMsg (event_message event)) event))
                   (consume_events env config response events True
                     (set_last messages (AssistantMsg (event_message event))))
            else consume_events env config response events False messages))"

definition resolve_api_key :: "'w loop_config \<Rightarrow> ('w, string option) prog" where
  "resolve_api_key config =
     (case lc_getApiKey config of
        None \<Rightarrow> ret (lc_apiKey config)
      | Some getKey \<Rightarrow>
          bindp (getKey (md_provider (lc_model config))) (\<lambda>key.
            ret (case key of
                   None \<Rightarrow> lc_apiKey config
                 | Some k \<Rightarrow> if k = [] then lc_apiKey config else Some k)))"

definition streamAssistantResponse ::
  "'w env \<Rightarrow> 'w stream_fn \<Rightarrow> 'w agent_context \<Rightarrow> 'w loop_config
   \<Rightarrow> ('w run, assistant_message \<times> 'w agent_context) prog" where
  "streamAssistantResponse env streamFunction context config =
     bindp (on_world (case lc_transformContext config of
              None \<Rightarrow> ret (ac_messages context) | Some transform \<Rightarrow> transform (ac_messages context))) (\<lambda>messages.
     bindp (on_world (lc_convertToLlm config messages)) (\<lambda>llmMessages.
     let llmContext = normalizeContext
           \<lparr>ctx_systemPrompt = None, ctx_llmMessages = llmMessages, ctx_llmTools = None\<rparr>
     in bindp (on_world (resolve_api_key config)) (\<lambda>resolvedApiKey.
        bindp (on_world (streamFunction (lc_model config) llmContext
                           (config\<lparr>lc_apiKey := resolvedApiKey\<rparr>))) (\<lambda>response.
        bindp (consume_events env config response (rs_events response) False (ac_messages context))
          (\<lambda>(message, messages'). ret (message, context\<lparr>ac_messages := messages'\<rparr>))))))"

section \<open>One turn\<close>

text \<open>
  The variables of \<open>runLoop\<close>. \<open>lastCompletedTurn\<close> holds references to the context and the
  message list; both are unchanged between the turn's end and their use, so their values
  at the turn's end are kept.
\<close>

record 'w loop_state =
  ls_context :: "'w agent_context"
  ls_newMessages :: "agent_message list"
  ls_config :: "'w loop_config"
  ls_lastCompletedTurn :: "'w turn_context option"
  ls_explicitContinuation :: bool
  ls_pendingMessages :: "agent_message list"
  ls_hasMoreToolCalls :: bool

definition apply_update :: "('w, 'x) request_update_scheme \<Rightarrow> 'w loop_config \<Rightarrow> 'w loop_config" where
  "apply_update u config =
     config\<lparr>lc_model := (case ru_model u of None \<Rightarrow> lc_model config | Some m \<Rightarrow> m),
            lc_reasoning := (case ru_thinkingLevel u of
                None \<Rightarrow> lc_reasoning config
              | Some level \<Rightarrow> if level = TLOff then None else Some level)\<rparr>"

text \<open>\<open>(await poll?.()) || []\<close>\<close>

definition poll :: "('w, agent_message list) prog option \<Rightarrow> ('w, agent_message list) prog" where
  "poll source = (case source of None \<Rightarrow> ret [] | Some p \<Rightarrow> p)"

text \<open>
  After a completed turn: ask \<open>prepareNextTurn\<close> for replacement state and messages, pick up
  steering messages that arrived meanwhile, and announce the turn.
\<close>

definition prepare_next_turn ::
  "'w env \<Rightarrow> 'w loop_state \<Rightarrow> ('w run, agent_message list \<times> 'w loop_state) prog" where
  "prepare_next_turn env st =
     (case ls_lastCompletedTurn st of
        None \<Rightarrow> ret ([], st)
      | Some turn \<Rightarrow>
          bindp (on_world (case lc_prepareNextTurn (ls_config st) of
                   None \<Rightarrow> ret None | Some prepare \<Rightarrow> prepare turn)) (\<lambda>snapshot.
          let (preparedMessages, st1) = (case snapshot of
                None \<Rightarrow> ([], st)
              | Some u \<Rightarrow>
                  (opt_list (tu_messages u),
                   st\<lparr>ls_context := (case ru_context u of None \<Rightarrow> ls_context st | Some c \<Rightarrow> c),
                      ls_config := apply_update u (ls_config st)\<rparr>))
          in bindp (if ls_pendingMessages st1 = []
                    then on_world (poll (lc_getSteeringMessages (ls_config st1)))
                    else ret (ls_pendingMessages st1)) (\<lambda>pending.
             seqp (emit env TurnStart)
               (ret (preparedMessages, st1\<lparr>ls_pendingMessages := pending\<rparr>)))))"

text \<open>Emit messages and append each to the context and the new messages.\<close>

fun append_messages ::
  "'w env \<Rightarrow> agent_message list \<Rightarrow> 'w loop_state \<Rightarrow> ('w run, 'w loop_state) prog" where
  "append_messages env [] st = ret st"
| "append_messages env (m # ms) st =
     seqp (emit env (MessageStart m))
       (seqp (emit env (MessageEnd m))
         (append_messages env ms
           (st\<lparr>ls_context := (ls_context st)\<lparr>ac_messages := ac_messages (ls_context st) @ [m]\<rparr>,
               ls_newMessages := ls_newMessages st @ [m]\<rparr>)))"

definition prepare_request :: "'w loop_state \<Rightarrow> ('w, 'w loop_state) prog" where
  "prepare_request st =
     (case lc_prepareRequest (ls_config st) of
        None \<Rightarrow> ret st
      | Some prepare \<Rightarrow>
          bindp (prepare \<lparr>rq_context = ls_context st, rq_model = lc_model (ls_config st),
                   rq_thinkingLevel = (case lc_reasoning (ls_config st) of None \<Rightarrow> TLOff | Some l \<Rightarrow> l)\<rparr>)
            (\<lambda>update. ret (case update of
                None \<Rightarrow> st
              | Some u \<Rightarrow> st\<lparr>ls_context := (case ru_context u of None \<Rightarrow> ls_context st | Some c \<Rightarrow> c),
                            ls_config := apply_update u (ls_config st)\<rparr>)))"

definition finish_turn ::
  "'w loop_state \<Rightarrow> 'w turn_context \<Rightarrow> ('w, turn_decision option) prog" where
  "finish_turn st turn =
     (case lc_finishTurn (ls_config st) of None \<Rightarrow> ret None | Some finish \<Rightarrow> finish turn)"

text \<open>Whether the run is over after a turn.\<close>

datatype 'w turn_outcome = RunOver "'w loop_state" | RunOn "'w loop_state"

fun outcome_state :: "'w turn_outcome \<Rightarrow> 'w loop_state" where
  "outcome_state (RunOver st) = st"
| "outcome_state (RunOn st) = st"

definition run_tool_batch ::
  "'w env \<Rightarrow> 'w loop_state \<Rightarrow> assistant_message \<Rightarrow> ('w run, tool_call_batch option) prog" where
  "run_tool_batch env st message =
     bindp (liftp (tool_calls_of message)) (\<lambda>toolCalls.
       if toolCalls = [] then ret None
       else bindp (if am_stopReason message = StopLength
                   then failToolCallsFromTruncatedMessage env toolCalls
                   else executeToolCalls env (lc_toolExecution (ls_config st)) (ls_context st) message (ls_config st))
              (\<lambda>batch. ret (Some batch)))"

text \<open>The assistant message is in: run its tools, end the turn, poll for steering messages.\<close>

definition complete_turn ::
  "'w env \<Rightarrow> 'w loop_state \<Rightarrow> assistant_message \<Rightarrow> ('w run, 'w turn_outcome) prog" where
  "complete_turn env st message =
     (let turn_of = (\<lambda>st toolResults. \<lparr>tn_message = message, tn_toolResults = toolResults,
            tn_context = ls_context st, tn_newMessages = ls_newMessages st\<rparr>)
      in if am_stopReason message = StopError \<or> am_stopReason message = StopAborted
         then seqp (on_world (finish_turn st (turn_of st [])))
                (seqp (emit env (TurnEnd (AssistantMsg message) []))
                  (seqp (emit env (AgentEnd (ls_newMessages st)))
                    (ret (RunOver (st\<lparr>ls_lastCompletedTurn := Some (turn_of st [])\<rparr>)))))
         else bindp (run_tool_batch env st message) (\<lambda>batch.
           let toolResults = (case batch of None \<Rightarrow> [] | Some b \<Rightarrow> tb_messages b);
               hasMoreToolCalls = (case batch of None \<Rightarrow> False | Some b \<Rightarrow> \<not> tb_terminate b);
               results = map ToolResultMsg toolResults;
               st1 = st\<lparr>ls_context := (ls_context st)\<lparr>ac_messages := ac_messages (ls_context st) @ results\<rparr>,
                        ls_newMessages := ls_newMessages st @ results,
                        ls_hasMoreToolCalls := hasMoreToolCalls\<rparr>;
               turn = turn_of st1 toolResults;
               st2 = st1\<lparr>ls_lastCompletedTurn := Some turn\<rparr>
           in bindp (on_world (finish_turn st2 turn)) (\<lambda>decision.
              seqp (emit env (TurnEnd (AssistantMsg message) toolResults))
                (if decision = Some TurnFinish
                 then seqp (emit env (AgentEnd (ls_newMessages st2))) (ret (RunOver st2))
                 else bindp (on_world (poll (lc_getSteeringMessages (ls_config st2)))) (\<lambda>pending.
                      ret (RunOn (st2\<lparr>ls_pendingMessages := pending,
                           ls_explicitContinuation :=
                             (decision = Some TurnContinue \<and> \<not> (hasMoreToolCalls \<or> pending \<noteq> []))\<rparr>)))))))"

definition run_turn ::
  "'w env \<Rightarrow> 'w stream_fn \<Rightarrow> 'w loop_state \<Rightarrow> ('w run, 'w turn_outcome) prog" where
  "run_turn env streamFunction st =
     bindp (prepare_next_turn env st) (\<lambda>(preparedMessages, st1).
     bindp (on_world (readp (env_now env))) (\<lambda>now.
     bindp (append_messages env
              (declareToolChanges now (ls_context st1) (preparedMessages @ ls_pendingMessages st1)) st1) (\<lambda>st2.
     bindp (on_world (prepare_request (st2\<lparr>ls_pendingMessages := []\<rparr>))) (\<lambda>st3.
     bindp (streamAssistantResponse env streamFunction (ls_context st3) (ls_config st3)) (\<lambda>(message, context).
     complete_turn env (st3\<lparr>ls_context := context,
       ls_newMessages := ls_newMessages st3 @ [AssistantMsg message]\<rparr>) message)))))"

section \<open>The loop\<close>

fun run_loop ::
  "'w env \<Rightarrow> 'w stream_fn \<Rightarrow> nat \<Rightarrow> 'w loop_state \<Rightarrow> ('w run, agent_message list option) prog" where
  "run_loop env streamFunction 0 st = ret None"
| "run_loop env streamFunction (Suc fuel) st =
     (if ls_hasMoreToolCalls st \<or> ls_pendingMessages st \<noteq> []
      then bindp (run_turn env streamFunction st) (\<lambda>outcome.
             case outcome of
               RunOver st' \<Rightarrow> ret (Some (ls_newMessages st'))
             | RunOn st' \<Rightarrow> run_loop env streamFunction fuel st')
      else bindp (on_world (poll (lc_getFollowUpMessages (ls_config st)))) (\<lambda>followUpMessages.
             if followUpMessages \<noteq> []
             then run_loop env streamFunction fuel
                    (st\<lparr>ls_explicitContinuation := False, ls_pendingMessages := followUpMessages,
                        ls_hasMoreToolCalls := True\<rparr>)
             else if ls_explicitContinuation st
             then run_loop env streamFunction fuel
                    (st\<lparr>ls_explicitContinuation := False, ls_hasMoreToolCalls := True\<rparr>)
             else seqp (emit env (AgentEnd (ls_newMessages st))) (ret (Some (ls_newMessages st)))))"

definition runLoop ::
  "'w env \<Rightarrow> 'w stream_fn \<Rightarrow> nat \<Rightarrow> 'w agent_context \<Rightarrow> agent_message list \<Rightarrow> 'w loop_config
   \<Rightarrow> ('w run, agent_message list option) prog" where
  "runLoop env streamFunction fuel initialContext newMessages config =
     bindp (on_world (poll (lc_getSteeringMessages config))) (\<lambda>pendingMessages.
     run_loop env streamFunction fuel
       \<lparr>ls_context = initialContext, ls_newMessages = newMessages, ls_config = config,
        ls_lastCompletedTurn = None, ls_explicitContinuation = False,
        ls_pendingMessages = pendingMessages, ls_hasMoreToolCalls = True\<rparr>)"

definition emit_message :: "'w env \<Rightarrow> agent_message \<Rightarrow> ('w run, unit) prog" where
  "emit_message env m = seqp (emit env (MessageStart m)) (emit env (MessageEnd m))"

definition runAgentLoop ::
  "'w env \<Rightarrow> 'w stream_fn \<Rightarrow> nat \<Rightarrow> agent_message list \<Rightarrow> 'w agent_context \<Rightarrow> 'w loop_config
   \<Rightarrow> ('w run, agent_message list option) prog" where
  "runAgentLoop env streamFunction fuel prompts context config =
     bindp (on_world (readp (env_now env))) (\<lambda>now.
     let initialMessages = declareToolChanges now context prompts
     in seqp (emit env AgentStart)
          (seqp (emit env TurnStart)
            (seqp (forp (emit_message env) initialMessages)
              (runLoop env streamFunction fuel
                 (context\<lparr>ac_messages := ac_messages context @ initialMessages\<rparr>)
                 initialMessages config))))"

definition runAgentLoopContinue ::
  "'w env \<Rightarrow> 'w stream_fn \<Rightarrow> nat \<Rightarrow> 'w agent_context \<Rightarrow> 'w loop_config
   \<Rightarrow> ('w run, agent_message list option) prog" where
  "runAgentLoopContinue env streamFunction fuel context config =
     (if ac_messages context = [] then throw ''Cannot continue: no messages in context''
      else if is_assistant (last (ac_messages context))
      then throw ''Cannot continue from message role: assistant''
      else seqp (emit env AgentStart)
             (seqp (emit env TurnStart)
               (runLoop env streamFunction fuel context [] config)))"

section \<open>The declared tools are the executable tools\<close>

lemma split_last_system_None:
  "split_last_system ms = None \<Longrightarrow> \<forall>m\<in>set ms. \<not> is_system m"
proof (induction ms)
  case (Cons m ms)
  then show ?case
    by (cases "split_last_system ms"; cases m) (auto split: prod.splits)
qed simp

lemma split_last_system_Some:
  "split_last_system ms = Some (before, s, after) \<Longrightarrow>
     ms = before @ SystemMsg s # after \<and> (\<forall>m\<in>set after. \<not> is_system m)"
proof (induction ms arbitrary: before s after)
  case (Cons m ms)
  then show ?case
    by (cases "split_last_system ms"; cases m) (auto split: prod.splits dest: split_last_system_None)
qed simp


lemma opt_list_withToolChanges [simp]:
  "opt_list (sm_toolsAdded (withToolChanges m ch)) = tsc_toolsAdded ch"
  "opt_list (sm_toolsRemoved (withToolChanges m ch)) = tsc_toolsRemoved ch"
  by (simp_all add: withToolChanges_def)

lemma NO_CHANGES_fields [simp]: "tsc_toolsAdded NO_CHANGES = []" "tsc_toolsRemoved NO_CHANGES = []"
  by (simp_all add: NO_CHANGES_def)

lemma apply_tool_delta_none:
  "opt_list (sm_toolsAdded m) = [] \<Longrightarrow> opt_list (sm_toolsRemoved m) = [] \<Longrightarrow> apply_tool_delta m ts = ts"
  by (simp add: apply_tool_delta_def)

lemma current_tools_snoc_none:
  assumes "opt_list (sm_toolsAdded m) = []" "opt_list (sm_toolsRemoved m) = []"
    and "\<forall>m\<in>set after. \<not> is_system m"
  shows "getCurrentTools (ms @ SystemMsg m # after) = getCurrentTools ms"
  using assms
  by (simp add: getCurrentTools_def replay_tools_append apply_tool_delta_none fold_replay_no_system)

lemma current_tools_no_system:
  "\<forall>m\<in>set after. \<not> is_system m \<Longrightarrow> getCurrentTools (ms @ after) = getCurrentTools ms"
  by (simp add: getCurrentTools_def replay_tools_append fold_replay_no_system)

lemma distinct_context_declarations:
  "distinct (map t_name ts) \<Longrightarrow> distinct (map t_name (map toToolDeclaration ts))"
  by (simp add: comp_def)

text \<open>Whatever system message carries the delta, the replay ends in the wanted tools.\<close>

lemma delta_message_replays:
  fixes wanted :: "tool list"
  assumes "distinct (map t_name wanted)"
    and "opt_list (sm_toolsAdded m) = tsc_toolsAdded (getToolStateChanges (getCurrentTools ms) wanted)"
    and "opt_list (sm_toolsRemoved m) = tsc_toolsRemoved (getToolStateChanges (getCurrentTools ms) wanted)"
    and "\<forall>m\<in>set after. \<not> is_system m"
  shows "rel_option declarationsEqual
    (tool_lookup (getCurrentTools (ms @ SystemMsg m # after)) k) (tool_lookup wanted k)"
proof -
  have "getCurrentTools (ms @ SystemMsg m # after) = getCurrentTools (ms @ [SystemMsg m])"
    using current_tools_no_system [of after "ms @ [SystemMsg m]"] assms(4) by simp
  with tool_changes_replay [OF assms(1-3), of k] show ?thesis by simp
qed

lemma declareToolChanges_replay:
  assumes d: "distinct (map t_name (context_tools context))"
  shows "rel_option declarationsEqual
     (tool_lookup (getCurrentTools (ac_messages context @ declareToolChanges now context pending)) k)
     (tool_lookup (map toToolDeclaration (context_tools context)) k)"
proof -
  let ?wanted = "map toToolDeclaration (context_tools context)"
  let ?ctx = "ac_messages context"
  note w = distinct_context_declarations [OF d]
  show ?thesis
  proof (cases "split_last_system pending")
    case None
    note plain = split_last_system_None [OF None]
    let ?ch = "getToolStateChanges (getCurrentTools ?ctx) ?wanted"
    have base: "getCurrentTools (?ctx @ pending) = getCurrentTools ?ctx"
      using plain by (rule current_tools_no_system)
    have index: "(case find_index (\<lambda>m. \<not> is_system m) pending of None \<Rightarrow> length pending | Some i \<Rightarrow> i) = 0"
      using plain by (cases pending) auto
    show ?thesis
    proof (cases "tsc_toolsAdded ?ch = [] \<and> tsc_toolsRemoved ?ch = []")
      case True
      let ?m = "withToolChanges \<lparr>sm_content = TextOnly [], sm_sections = None, sm_toolsAdded = None,
          sm_toolsRemoved = None, sm_timestamp = 0\<rparr> NO_CHANGES"
      from True have "rel_option declarationsEqual
          (tool_lookup (getCurrentTools (?ctx @ SystemMsg ?m # [])) k) (tool_lookup ?wanted k)"
        by (intro delta_message_replays [OF w]) simp_all
      with True None base show ?thesis
        by (simp add: declareToolChanges_def current_tools_snoc_none)
    next
      case False
      then have "declareToolChanges now context pending =
          SystemMsg (withToolChanges \<lparr>sm_content = TextOnly [], sm_sections = None,
            sm_toolsAdded = None, sm_toolsRemoved = None, sm_timestamp = now\<rparr> ?ch) # pending"
        using None base index by (auto simp: declareToolChanges_def Let_def)
      with plain show ?thesis by (simp add: delta_message_replays [OF w])
    qed
  next
    case (Some t)
    then obtain before s after where split: "split_last_system pending = Some (before, s, after)"
      by (cases t) auto
    from split_last_system_Some [OF split]
    have pending: "pending = before @ SystemMsg s # after" and plain: "\<forall>m\<in>set after. \<not> is_system m"
      by auto
    let ?ms = "?ctx @ before"
    let ?ch = "getToolStateChanges (getCurrentTools ?ms) ?wanted"
    have base: "getCurrentTools (?ctx @ before @ SystemMsg (withToolChanges s NO_CHANGES) # after) =
        getCurrentTools ?ms"
      using current_tools_snoc_none [of "withToolChanges s NO_CHANGES" after ?ms] plain by simp
    show ?thesis
    proof (cases "tsc_toolsAdded ?ch = [] \<and> tsc_toolsRemoved ?ch = [] \<and>
        opt_list (sm_toolsAdded s) = [] \<and> opt_list (sm_toolsRemoved s) = []")
      case True
      then have "rel_option declarationsEqual
          (tool_lookup (getCurrentTools (?ms @ SystemMsg s # after)) k) (tool_lookup ?wanted k)"
        by (intro delta_message_replays [OF w] plain) simp_all
      with True split base pending show ?thesis
        by (simp add: declareToolChanges_def)
    next
      case False
      then have "declareToolChanges now context pending = before @ SystemMsg (withToolChanges s ?ch) # after"
        using split base by (auto simp: declareToolChanges_def Let_def)
      with delta_message_replays [OF w, of "withToolChanges s ?ch" ?ms after k] plain
      show ?thesis by simp
    qed
  qed
qed

lemma filter_declareToolChanges:
  "filter (\<lambda>m. \<not> is_system m) (declareToolChanges now context pending) = filter (\<lambda>m. \<not> is_system m) pending"
proof (cases "split_last_system pending")
  case None
  have "filter P (take i pending) @ filter P (drop i pending) = filter P pending" for P i
    by (simp flip: filter_append)
  with None show ?thesis by (simp add: declareToolChanges_def Let_def)
next
  case (Some t)
  then obtain before s after where split: "split_last_system pending = Some (before, s, after)"
    by (cases t) auto
  with split_last_system_Some [OF split] show ?thesis
    by (simp add: declareToolChanges_def Let_def)
qed


section \<open>The phases of a run\<close>

text \<open>
  The order of lifecycle events: a run opens with \<open>AgentStart\<close>, consists of turns, and
  closes with \<open>AgentEnd\<close>; messages and tool executions happen inside a turn, updates
  inside a message. A stream that starts its message again keeps the message open.
\<close>

datatype phase = Idle | Between | InTurn | InMessage | Over

fun phase_step :: "phase \<Rightarrow> agent_event \<Rightarrow> phase option" where
  "phase_step Idle AgentStart = Some Between"
| "phase_step Between TurnStart = Some InTurn"
| "phase_step Between (AgentEnd _) = Some Over"
| "phase_step InTurn (MessageStart _) = Some InMessage"
| "phase_step InTurn (ToolExecutionStart _ _ _) = Some InTurn"
| "phase_step InTurn (ToolExecutionUpdate _ _ _ _) = Some InTurn"
| "phase_step InTurn (ToolExecutionEnd _ _ _ _ _) = Some InTurn"
| "phase_step InTurn (TurnEnd _ _) = Some Between"
| "phase_step InMessage (MessageStart _) = Some InMessage"
| "phase_step InMessage (MessageUpdate _ _) = Some InMessage"
| "phase_step InMessage (MessageEnd _) = Some InTurn"
| "phase_step _ _ = None"

fun phase_run :: "phase \<Rightarrow> agent_event list \<Rightarrow> phase option" where
  "phase_run p [] = Some p"
| "phase_run p (e # l) = Option.bind (phase_step p e) (\<lambda>q. phase_run q l)"

lemma phase_run_append [simp]:
  "phase_run p (l @ l') = Option.bind (phase_run p l) (\<lambda>q. phase_run q l')"
  by (induction l arbitrary: p) (auto split: Option.bind_split)

text \<open>Programs that run inside a turn and leave it open.\<close>

definition in_turn :: "('w run, 'a) prog \<Rightarrow> bool" where
  "in_turn m \<longleftrightarrow> logs (\<lambda>_ l. phase_run InTurn l = Some InTurn) m"

named_theorems in_turn_intros \<open>programs that stay inside the turn\<close>

lemma in_turn_basic [in_turn_intros]:
  "in_turn (ret x)" "in_turn (throw e)" "in_turn (on_world p)" "in_turn (liftp r)"
  by (auto simp: in_turn_def intro!: logs_intros)

lemma in_turn_bindp [in_turn_intros]:
  "in_turn m \<Longrightarrow> (\<And>x. in_turn (f x)) \<Longrightarrow> in_turn (bindp m f)"
  unfolding in_turn_def by (erule logs_bindp) simp

lemma in_turn_seqp [in_turn_intros]: "in_turn m \<Longrightarrow> in_turn k \<Longrightarrow> in_turn (seqp m k)"
  unfolding seqp_def by (rule in_turn_bindp)

lemma in_turn_tool_events [in_turn_intros]:
  "in_turn (emitToolExecutionStart env tc)" "in_turn (emitToolExecutionUpdate env tc p)"
  "in_turn (emitToolExecutionEnd env oc)" "in_turn (publishToolResult env oc)"
  by (auto simp: in_turn_def emitToolExecutionStart_def emitToolExecutionUpdate_def
      emitToolExecutionEnd_def publishToolResult_def emitToolResultMessage_def Let_def
      intro!: logs_intros logs_bindp_world logs_seqp_emit logs_seqp [where Q = "\<lambda>_ l. phase_run InTurn l = Some InTurn"])

lemma phase_run_updates: "updates_only l \<Longrightarrow> phase_run InTurn l = Some InTurn"
proof (induction l)
  case (Cons e l)
  then show ?case by (cases e) auto
qed simp

lemma in_turn_execute [in_turn_intros]:
  "in_turn (executePreparedToolCall env tc t args (emitToolExecutionUpdate env tc0))"
  unfolding in_turn_def by (rule logs_weaken [OF executePreparedToolCall_logs]) (rule phase_run_updates)

lemma in_turn_sequential [in_turn_intros]:
  "in_turn (sequential_calls env context am config tcs fs ms)"
  by (induction tcs arbitrary: fs ms)
    (auto simp: runSequentialCall_def intro!: in_turn_intros split: preparation.split)

lemma in_turn_prepare_tasks [in_turn_intros]: "in_turn (prepare_tasks env context am config tcs)"
  by (induction tcs) (auto simp: Let_def intro!: in_turn_intros split: preparation.split)

lemma in_turn_task_step [in_turn_intros]: "in_turn (task_step env context am config t)"
  by (cases t) (auto intro!: in_turn_intros)

lemma in_turn_finish_tasks [in_turn_intros]: "in_turn (finish_tasks env context am config ts)"
  by (induction ts) (auto intro!: in_turn_intros)

lemma in_turn_run_tasks [in_turn_intros]: "in_turn (run_tasks env context am config schedule ts)"
  by (induction schedule arbitrary: ts) (auto intro!: in_turn_intros)

lemma in_turn_publish_all [in_turn_intros]: "in_turn (publish_all env ocs)"
  by (induction ocs) (auto intro!: in_turn_intros)

lemma in_turn_truncated [in_turn_intros]: "in_turn (failToolCallsFromTruncatedMessage env tcs)"
  by (induction tcs) (auto simp: Let_def intro!: in_turn_intros)

lemma in_turn_executeToolCalls [in_turn_intros]: "in_turn (executeToolCalls env mode context am config)"
  by (auto simp: executeToolCalls_def executeToolCallsSequential_def executeToolCallsParallel_def
      Let_def case_prod_beta intro!: in_turn_intros)

lemma in_turn_batch [in_turn_intros]: "in_turn (run_tool_batch env st message)"
  by (auto simp: run_tool_batch_def intro!: in_turn_intros)

lemma logs_conj:
  assumes "logs P m" and "logs Q m"
  shows "logs (\<lambda>x l. P x l \<and> Q x l) m"
  using assms unfolding logs_def by (metis same_append_eq)

section \<open>What a turn adds\<close>

lemma append_messages_logs:
  "logs (\<lambda>st' l. ended_messages l = ms \<and> phase_run InTurn l = Some InTurn \<and>
       st' = st\<lparr>ls_context := (ls_context st)\<lparr>ac_messages := ac_messages (ls_context st) @ ms\<rparr>,
               ls_newMessages := ls_newMessages st @ ms\<rparr>)
     (append_messages env ms st)"
proof (induction ms arbitrary: st)
  case Nil
  show ?case by (auto intro!: logs_intros)
next
  case (Cons m ms)
  show ?case
    unfolding append_messages.simps
    by (intro logs_seqp_emit, rule logs_weaken [OF Cons.IH]) auto
qed

text \<open>
  A response yields one finished message. It stands last in the context; before it stand
  only partial messages of a stream that started more than once.
\<close>

definition streamed ::
  "bool \<Rightarrow> agent_message list \<Rightarrow> assistant_message \<times> agent_message list \<Rightarrow> agent_event list \<Rightarrow> bool" where
  "streamed added base y l \<longleftrightarrow>
     ended_messages l = [AssistantMsg (fst y)] \<and>
     phase_run (if added then InMessage else InTurn) l = Some InTurn \<and>
     (\<exists>ps. snd y = base @ ps @ [AssistantMsg (fst y)])"

lemma set_last_snoc [simp]: "set_last (xs @ [x]) y = xs @ [y]"
  by (simp add: set_last_def)

lemma logs_seqp_ret: "logs P k \<Longrightarrow> logs P (seqp (ret ()) k)"
  by (simp add: seqp_def)

lemma finish_response_logs:
  assumes "added \<Longrightarrow> \<exists>ps p. messages = base @ ps @ [p]" and "\<not> added \<Longrightarrow> messages = base"
  shows "logs (streamed added base) (finish_response env config response added messages)"
proof (cases added)
  case True
  with assms obtain ps p where "messages = (base @ ps) @ [p]" by auto
  then have set: "set_last messages m = base @ ps @ [m]" for m
    by (metis append.assoc set_last_snoc)
  show ?thesis
    unfolding finish_response_def Let_def
    by (simp only: True if_True)
      (rule logs_bindp_world, rule logs_seqp_ret, rule logs_seqp_emit, rule logs_ret,
       simp add: streamed_def set)
next
  case False
  with assms show ?thesis
    unfolding finish_response_def Let_def
    by (simp only: if_False)
      (rule logs_bindp_world, intro logs_seqp_emit logs_ret, simp add: streamed_def)
qed

lemma consume_events_logs:
  assumes "added \<Longrightarrow> \<exists>ps p. messages = base @ ps @ [p]" and "\<not> added \<Longrightarrow> messages = base"
  shows "logs (streamed added base) (consume_events env config response events added messages)"
  using assms
proof (induction events arbitrary: added messages)
  case Nil
  then show ?case by (simp only: consume_events.simps) (rule finish_response_logs)
next
  case (Cons ev events)
  have fin: "logs (streamed added base) (finish_response env config response added messages)"
    using Cons.prems by (rule finish_response_logs)
  have upd: "logs (streamed added base)
      (if added
       then seqp (emit env (MessageUpdate (AssistantMsg (event_message e)) e))
              (consume_events env config response events True
                (set_last messages (AssistantMsg (event_message e))))
       else consume_events env config response events False messages)" for e
  proof (cases added)
    case True
    with Cons.prems obtain ps p where "messages = (base @ ps) @ [p]" by auto
    then have set: "set_last messages m = base @ ps @ [m]" for m
      by (metis append.assoc set_last_snoc)
    show ?thesis
      by (simp only: True if_True set)
        (rule logs_seqp_emit, rule logs_weaken [OF Cons.IH], auto simp: streamed_def)
  next
    case False
    with Cons.prems Cons.IH [of False messages] show ?thesis by simp
  qed
  have start: "logs (streamed added base)
      (seqp (emit env (MessageStart (AssistantMsg p)))
             (consume_events env config response events True (messages @ [AssistantMsg p])))" for p
    using Cons.prems
    by (intro logs_seqp_emit, intro logs_weaken [OF Cons.IH])
      (cases added; force simp: streamed_def)+
  show ?case
    unfolding consume_events.simps
  proof (rule logs_bindp_world)
    fix e
    show "logs (streamed added base)
      (case e of
         EvStart partial \<Rightarrow>
           seqp (emit env (MessageStart (AssistantMsg partial)))
             (consume_events env config response events True (messages @ [AssistantMsg partial]))
       | EvDone _ _ \<Rightarrow> finish_response env config response added messages
       | EvError _ _ \<Rightarrow> finish_response env config response added messages
       | _ \<Rightarrow>
           (if added
            then seqp (emit env (MessageUpdate (AssistantMsg (event_message e)) e))
                   (consume_events env config response events True
                     (set_last messages (AssistantMsg (event_message e))))
            else consume_events env config response events False messages))"
      using fin upd start by (cases e) (simp_all only: assistant_event.case)
  qed
qed

lemma streamAssistantResponse_logs:
  "logs (\<lambda>y l. ended_messages l = [AssistantMsg (fst y)] \<and> phase_run InTurn l = Some InTurn \<and>
        (\<exists>ps. snd y = context\<lparr>ac_messages := ac_messages context @ ps @ [AssistantMsg (fst y)]\<rparr>))
     (streamAssistantResponse env streamFunction context config)"
  unfolding streamAssistantResponse_def Let_def
  by (intro logs_bindp_world, rule logs_bindp [OF consume_events_logs [where base = "ac_messages context"]])
    (auto simp: streamed_def intro!: logs_intros)

section \<open>What is supplied to a turn\<close>

text \<open>
  Messages that come from outside the loop: anything but an assistant message and a tool
  result, which only the loop adds. A configuration supplies messages of a kind \<open>P\<close> when its
  queues and hooks do; the system messages the loop adds itself have to be among them.
\<close>

fun incoming :: "agent_message \<Rightarrow> bool" where
  "incoming (AssistantMsg _) = False"
| "incoming (ToolResultMsg _) = False"
| "incoming _ = True"

definition supplies :: "(agent_message \<Rightarrow> bool) \<Rightarrow> 'w loop_config \<Rightarrow> bool" where
  "supplies P config \<longleftrightarrow> (\<forall>s. P (SystemMsg s)) \<and>
     (\<forall>w ms w'. poll (lc_getSteeringMessages config) w = (Inr ms, w') \<longrightarrow> list_all P ms) \<and>
     (\<forall>w ms w'. poll (lc_getFollowUpMessages config) w = (Inr ms, w') \<longrightarrow> list_all P ms) \<and>
     (\<forall>f turn w u w'. lc_prepareNextTurn config = Some f \<longrightarrow> f turn w = (Inr (Some u), w') \<longrightarrow>
        list_all P (opt_list (tu_messages u)))"

definition supplied :: "(agent_message \<Rightarrow> bool) \<Rightarrow> 'w loop_state \<Rightarrow> bool" where
  "supplied P st \<longleftrightarrow> supplies P (ls_config st) \<and> list_all P (ls_pendingMessages st)"

lemma supplies_apply_update [simp]: "supplies P (apply_update u config) = supplies P config"
  by (simp add: supplies_def apply_update_def)

lemma all_declareToolChanges:
  assumes sys: "\<forall>s. P (SystemMsg s)"
  shows "list_all P ms \<Longrightarrow> list_all P (declareToolChanges now context ms)"
proof (cases "split_last_system ms")
  case None
  assume "list_all P ms"
  then have "list_all P (take i ms)" "list_all P (drop i ms)" for i
    by (auto simp: list_all_iff dest: in_set_takeD in_set_dropD)
  with None \<open>list_all P ms\<close> sys show ?thesis by (simp add: declareToolChanges_def Let_def)
next
  case (Some t)
  assume "list_all P ms"
  moreover from Some obtain before s after where split: "split_last_system ms = Some (before, s, after)"
    by (cases t) auto
  ultimately show ?thesis
    using split_last_system_Some [OF split] sys by (auto simp: declareToolChanges_def Let_def)
qed

section \<open>What a whole turn logs\<close>

lemma prepare_next_turn_logs:
  assumes st: "supplied P st"
  shows "logs (\<lambda>y l. ended_messages l = [] \<and> ls_newMessages (snd y) = ls_newMessages st \<and>
       l = (if ls_lastCompletedTurn st = None then [] else [TurnStart]) \<and>
       list_all P (fst y) \<and> supplied P (snd y))
     (prepare_next_turn env st)"
proof (cases "ls_lastCompletedTurn st")
  case None
  with st show ?thesis by (auto simp: prepare_next_turn_def intro: logs_ret)
next
  case (Some turn)
  from st have hook: "list_all P (opt_list (tu_messages u))"
    if "lc_prepareNextTurn (ls_config st) = Some f" "f turn w = (Inr (Some u), w')" for f w u w'
    using that unfolding supplied_def supplies_def by blast
  show ?thesis
    unfolding prepare_next_turn_def Some option.case Let_def case_prod_beta
  proof (rule logs_bindp_world_value [where V = "\<lambda>s. \<forall>u. s = Some u \<longrightarrow> list_all P (opt_list (tu_messages u))"],
      goal_cases)
    case (1 w s w')
    then show ?case by (auto simp: ret_def dest: hook split: option.splits)
  next
    case (2 s)
    let ?st1 = "snd (case s of None \<Rightarrow> ([], st)
       | Some u \<Rightarrow> (opt_list (tu_messages u), st\<lparr>ls_context := (case ru_context u of None \<Rightarrow> ls_context st | Some c \<Rightarrow> c),
            ls_config := apply_update u (ls_config st)\<rparr>))"
    from st have st1: "supplied P ?st1" "ls_newMessages ?st1 = ls_newMessages st"
      by (auto simp: supplied_def split: option.split)
    have poll: "list_all P pending"
      if "poll (lc_getSteeringMessages (ls_config ?st1)) w = (Inr pending, w')" for w pending w'
      using that st1(1) unfolding supplied_def supplies_def by blast
    show ?case
    proof (rule logs_bindp [where Q = "\<lambda>pending l. l = [] \<and> list_all P pending"], goal_cases)
      case 1
      with st1(1) show ?case
        by (auto simp: supplied_def intro!: logs_ret logs_on_world_value dest: poll)
    next
      case (2 pending l)
      with st1 \<open>\<forall>u. s = Some u \<longrightarrow> _\<close> Some show ?case
        by (intro logs_seqp_emit logs_ret) (auto simp: supplied_def split: option.splits)
    qed
  qed
qed

lemma prepare_request_same:
  "prepare_request st w = (Inr st', w') \<Longrightarrow> ls_newMessages st' = ls_newMessages st \<and> (supplied P st \<longrightarrow> supplied P st')"
  by (auto simp: prepare_request_def ret_def supplied_def elim!: bindp_InrE split: option.splits)

definition failed_turn :: "assistant_message \<Rightarrow> bool" where
  "failed_turn m \<longleftrightarrow> am_stopReason m = StopError \<or> am_stopReason m = StopAborted"

text \<open>The tool results that may follow a message: none after a failure, else one per attempted call.\<close>

definition turn_results :: "bool \<Rightarrow> assistant_message \<Rightarrow> tool_result_message list \<Rightarrow> bool" where
  "turn_results attempted_all m rs \<longleftrightarrow>
     (if failed_turn m then rs = []
      else \<exists>tcs n. tool_calls_of m = Inr tcs \<and> n \<le> length tcs \<and> (attempted_all \<longrightarrow> n = length tcs) \<and>
             map result_key rs = map call_key (take n tcs))"

definition batch_results :: "tool_call_batch option \<Rightarrow> tool_result_message list" where
  "batch_results b = (case b of None \<Rightarrow> [] | Some b \<Rightarrow> tb_messages b)"

lemma run_tool_batch_logs:
  assumes "\<not> failed_turn m"
  shows "logs (\<lambda>b l. turn_results (never_aborted env) m (batch_results b) \<and>
        ended_messages l = map ToolResultMsg (batch_results b) \<and> phase_run InTurn l = Some InTurn)
     (run_tool_batch env st m)"
proof -
  have "logs (\<lambda>b l. turn_results (never_aborted env) m (batch_results b) \<and>
        ended_messages l = map ToolResultMsg (batch_results b)) (run_tool_batch env st m)"
  proof (cases "tool_calls_of m")
    case (Inl e)
    then show ?thesis by (simp add: run_tool_batch_def logs_def liftp_def bindp_def)
  next
    case (Inr tcs)
    have some: "logs (\<lambda>b l. turn_results (never_aborted env) m (batch_results b) \<and>
          ended_messages l = map ToolResultMsg (batch_results b)) (bindp p (\<lambda>b. ret (Some b)))"
      if "logs (\<lambda>b l. batch_contract (never_aborted env) tcs (tb_messages b) l) p" for p
      using assms Inr
      by (intro logs_bindp [OF that] logs_ret)
        (auto simp: batch_contract_def turn_results_def batch_results_def)
    have "run_tool_batch env st m = (if tcs = [] then ret None
       else bindp (if am_stopReason m = StopLength then failToolCallsFromTruncatedMessage env tcs
                   else executeToolCalls env (lc_toolExecution (ls_config st)) (ls_context st) m (ls_config st))
              (\<lambda>batch. ret (Some batch)))"
      by (rule ext) (simp add: run_tool_batch_def Inr liftp_def bindp_def)
    moreover have "logs (\<lambda>b l. batch_contract (never_aborted env) tcs (tb_messages b) l)
        (failToolCallsFromTruncatedMessage env tcs)"
      by (rule logs_weaken [OF truncated_batch_logs [where c = "never_aborted env"]]) simp
    ultimately show ?thesis
      using Inr assms
      by (cases "tcs = []"; simp only: if_True if_False simp_thms)
        (simp add: logs_ret turn_results_def batch_results_def, rule some,
         simp add: executeToolCalls_logs)
  qed
  from logs_conj [OF this in_turn_batch [unfolded in_turn_def]]
  show ?thesis by (rule logs_weaken) auto
qed

fun over :: "'w turn_outcome \<Rightarrow> bool" where
  "over (RunOver _) = True"
| "over (RunOn _) = False"

definition turn_ended :: "'w turn_outcome \<Rightarrow> phase \<Rightarrow> agent_event list \<Rightarrow> bool" where
  "turn_ended out p l \<longleftrightarrow>
     phase_run p l = Some (if over out then Over else Between) \<and>
     (over out \<longrightarrow> l \<noteq> [] \<and> last l = AgentEnd (ls_newMessages (outcome_state out))) \<and>
     (\<not> over out \<longrightarrow> ls_lastCompletedTurn (outcome_state out) \<noteq> None)"

lemma turn_ended_prepend:
  "phase_run p l = Some q \<Longrightarrow> turn_ended out q l' \<Longrightarrow> turn_ended out p (l @ l')"
  by (auto simp: turn_ended_def)

lemma complete_turn_logs:
  assumes st: "supplied P st"
  shows "logs (\<lambda>out l. turn_ended out InTurn l \<and> (over out \<or> \<not> failed_turn m) \<and> supplied P (outcome_state out) \<and>
        (\<exists>rs. ended_messages l = map ToolResultMsg rs \<and> turn_results (never_aborted env) m rs \<and>
           ls_newMessages (outcome_state out) = ls_newMessages st @ map ToolResultMsg rs))
     (complete_turn env st m)"
proof (cases "failed_turn m")
  case True
  then show ?thesis
    unfolding complete_turn_def Let_def failed_turn_def
    by (simp only: if_True seqp_def [of "on_world _"])
      (intro logs_bindp_world logs_seqp_emit logs_ret,
       use st in \<open>simp add: turn_ended_def turn_results_def failed_turn_def supplied_def\<close>)
next
  case False
  have rs: "(case b of None \<Rightarrow> [] | Some b \<Rightarrow> tb_messages b) = batch_results b" for b
    by (simp add: batch_results_def)
  have poll: "list_all P pending"
    if "poll (lc_getSteeringMessages (ls_config st)) w = (Inr pending, w')" for w pending w'
    using that st unfolding supplied_def supplies_def by blast
  from False show ?thesis
    unfolding complete_turn_def Let_def failed_turn_def rs
    by (simp only: if_False)
      (rule logs_bindp [OF run_tool_batch_logs],
        simp add: failed_turn_def,
        intro logs_bindp_world logs_seqp_emit,
        use st poll in \<open>auto intro!: logs_bindp_world_value [where V = "list_all P"] logs_seqp_emit logs_ret
          simp: turn_ended_def supplied_def\<close>)
qed

text \<open>
  The messages a turn adds: prepared and pending ones, none of which is an assistant message
  or a tool result, the assistant message, its results.
\<close>

definition turn_adds ::
  "(agent_message \<Rightarrow> bool) \<Rightarrow> bool \<Rightarrow> agent_message list \<Rightarrow> assistant_message \<Rightarrow> tool_result_message list \<Rightarrow> agent_message list \<Rightarrow> bool" where
  "turn_adds P attempted_all pend m rs ms \<longleftrightarrow>
     ms = pend @ AssistantMsg m # map ToolResultMsg rs \<and> list_all P pend \<and> turn_results attempted_all m rs"

lemma run_turn_logs:
  assumes st: "supplied P st"
  shows "logs (\<lambda>out l. turn_ended out (if ls_lastCompletedTurn st = None then InTurn else Between) l \<and>
        (\<exists>pend m rs. (over out \<or> \<not> failed_turn m) \<and> turn_adds P (never_aborted env) pend m rs (ended_messages l)) \<and>
        ls_newMessages (outcome_state out) = ls_newMessages st @ ended_messages l \<and> supplied P (outcome_state out))
     (run_turn env streamFunction st)"
  unfolding run_turn_def case_prod_beta
proof (rule logs_bindp [OF prepare_next_turn_logs [OF st]], rule logs_bindp_world,
    rule logs_bindp [OF append_messages_logs])
  fix y :: "agent_message list \<times> 'a loop_state" and l0 now and st2 :: "'a loop_state" and l1
  let ?pend = "declareToolChanges now (ls_context (snd y)) (fst y @ ls_pendingMessages (snd y))"
  assume 0: "ended_messages l0 = [] \<and> ls_newMessages (snd y) = ls_newMessages st \<and>
       l0 = (if ls_lastCompletedTurn st = None then [] else [TurnStart]) \<and>
       list_all P (fst y) \<and> supplied P (snd y)"
    and 1: "ended_messages l1 = ?pend \<and> phase_run InTurn l1 = Some InTurn \<and>
       st2 = (snd y)\<lparr>ls_context := (ls_context (snd y))\<lparr>ac_messages :=
            ac_messages (ls_context (snd y)) @ ?pend\<rparr>,
          ls_newMessages := ls_newMessages (snd y) @ ?pend\<rparr>"
  have new2: "ls_newMessages st2 = ls_newMessages st @ ?pend" "supplied P (st2\<lparr>ls_pendingMessages := []\<rparr>)"
    using 0 1 by (simp_all add: supplied_def)
  have pend: "list_all P ?pend"
    using 0 by (intro all_declareToolChanges) (simp_all add: supplied_def supplies_def)
  show "logs (\<lambda>out l. turn_ended out (if ls_lastCompletedTurn st = None then InTurn else Between) (l0 @ l1 @ l) \<and>
        (\<exists>pend m rs. (over out \<or> \<not> failed_turn m) \<and> turn_adds P (never_aborted env) pend m rs (ended_messages (l0 @ l1 @ l))) \<and>
        ls_newMessages (outcome_state out) = ls_newMessages st @ ended_messages (l0 @ l1 @ l) \<and> supplied P (outcome_state out))
     (bindp (on_world (prepare_request (st2\<lparr>ls_pendingMessages := []\<rparr>))) (\<lambda>st3.
      bindp (streamAssistantResponse env streamFunction (ls_context st3) (ls_config st3)) (\<lambda>z.
      complete_turn env (st3\<lparr>ls_context := snd z,
        ls_newMessages := ls_newMessages st3 @ [AssistantMsg (fst z)]\<rparr>) (fst z))))"
  proof (rule logs_bindp_world_value [where V = "\<lambda>st3. ls_newMessages st3 = ls_newMessages st @ ?pend \<and> supplied P st3"])
    fix w x w'
    assume "prepare_request (st2\<lparr>ls_pendingMessages := []\<rparr>) w = (Inr x, w')"
    from prepare_request_same [OF this] new2
    show "ls_newMessages x = ls_newMessages st @ ?pend \<and> supplied P x" by simp
  next
    fix st3 :: "'a loop_state" assume new3: "ls_newMessages st3 = ls_newMessages st @ ?pend \<and> supplied P st3"
    then have sup3: "supplied P (st3\<lparr>ls_context := c, ls_newMessages := ns\<rparr>)" for c ns by (simp add: supplied_def)
    show "logs (\<lambda>out l. turn_ended out (if ls_lastCompletedTurn st = None then InTurn else Between) (l0 @ l1 @ l) \<and>
        (\<exists>pend m rs. (over out \<or> \<not> failed_turn m) \<and> turn_adds P (never_aborted env) pend m rs (ended_messages (l0 @ l1 @ l))) \<and>
        ls_newMessages (outcome_state out) = ls_newMessages st @ ended_messages (l0 @ l1 @ l) \<and> supplied P (outcome_state out))
      (bindp (streamAssistantResponse env streamFunction (ls_context st3) (ls_config st3)) (\<lambda>z.
       complete_turn env (st3\<lparr>ls_context := snd z,
        ls_newMessages := ls_newMessages st3 @ [AssistantMsg (fst z)]\<rparr>) (fst z)))"
    proof (rule logs_bindp [OF streamAssistantResponse_logs], rule logs_weaken [OF complete_turn_logs [OF sup3]])
      fix z l2 out l3
      assume 2: "ended_messages l2 = [AssistantMsg (fst z)] \<and> phase_run InTurn l2 = Some InTurn \<and>
          (\<exists>ps. snd z = (ls_context st3)\<lparr>ac_messages := ac_messages (ls_context st3) @ ps @ [AssistantMsg (fst z)]\<rparr>)"
        and 3: "turn_ended out InTurn l3 \<and> (over out \<or> \<not> failed_turn (fst z)) \<and> supplied P (outcome_state out) \<and>
          (\<exists>rs. ended_messages l3 = map ToolResultMsg rs \<and> turn_results (never_aborted env) (fst z) rs \<and>
             ls_newMessages (outcome_state out) =
               ls_newMessages (st3\<lparr>ls_context := snd z, ls_newMessages := ls_newMessages st3 @ [AssistantMsg (fst z)]\<rparr>)
                 @ map ToolResultMsg rs)"
      then obtain rs where rs: "ended_messages l3 = map ToolResultMsg rs"
        "turn_results (never_aborted env) (fst z) rs"
        "ls_newMessages (outcome_state out) =
           (ls_newMessages st3 @ [AssistantMsg (fst z)]) @ map ToolResultMsg rs" by auto
      have "phase_run (if ls_lastCompletedTurn st = None then InTurn else Between) (l0 @ l1 @ l2) = Some InTurn"
        using 0 1 2 by simp
      with 3 have "turn_ended out (if ls_lastCompletedTurn st = None then InTurn else Between) ((l0 @ l1 @ l2) @ l3)"
        by (blast intro: turn_ended_prepend)
      then have A: "turn_ended out (if ls_lastCompletedTurn st = None then InTurn else Between) (l0 @ l1 @ l2 @ l3)"
        by simp
      have B: "turn_adds P (never_aborted env) ?pend (fst z) rs (ended_messages (l0 @ l1 @ l2 @ l3))"
        using 0 1 2 rs pend by (simp add: turn_adds_def)
      have C: "ls_newMessages (outcome_state out) = ls_newMessages st @ ended_messages (l0 @ l1 @ l2 @ l3)"
        using 0 1 2 rs new3 by simp
      from 3 A B C show "turn_ended out (if ls_lastCompletedTurn st = None then InTurn else Between) (l0 @ l1 @ l2 @ l3) \<and>
        (\<exists>pend m rs. (over out \<or> \<not> failed_turn m) \<and> turn_adds P (never_aborted env) pend m rs (ended_messages (l0 @ l1 @ l2 @ l3))) \<and>
        ls_newMessages (outcome_state out) = ls_newMessages st @ ended_messages (l0 @ l1 @ l2 @ l3) \<and>
        supplied P (outcome_state out)"
        by blast
    qed
  qed
qed


section \<open>What a run logs\<close>

text \<open>
  The messages of a run are those of its turns; a turn whose response failed or was
  aborted is the last.
\<close>

inductive transcript_turns :: "(agent_message \<Rightarrow> bool) \<Rightarrow> bool \<Rightarrow> agent_message list \<Rightarrow> bool" for P attempted_all where
  no_turn: "transcript_turns P attempted_all []"
| last_turn: "turn_adds P attempted_all pend m rs t \<Longrightarrow> transcript_turns P attempted_all t"
| next_turn: "turn_adds P attempted_all pend m rs t \<Longrightarrow> \<not> failed_turn m \<Longrightarrow>
    transcript_turns P attempted_all ms \<Longrightarrow> transcript_turns P attempted_all (t @ ms)"

definition run_ended ::
  "(agent_message \<Rightarrow> bool) \<Rightarrow> bool \<Rightarrow> agent_message list \<Rightarrow> phase \<Rightarrow> agent_message list option \<Rightarrow> agent_event list \<Rightarrow> bool" where
  "run_ended P attempted_all before p result l \<longleftrightarrow>
     (case result of None \<Rightarrow> True
      | Some ms \<Rightarrow> ms = before @ ended_messages l \<and> phase_run p l = Some Over \<and>
          l \<noteq> [] \<and> last l = AgentEnd ms \<and> transcript_turns P attempted_all (ended_messages l))"

definition loop_phase :: "'w loop_state \<Rightarrow> phase" where
  "loop_phase st = (if ls_lastCompletedTurn st = None then InTurn else Between)"

lemma run_loop_logs:
  "(ls_lastCompletedTurn st = None \<longrightarrow> ls_hasMoreToolCalls st) \<Longrightarrow> supplied P st \<Longrightarrow>
   logs (run_ended P (never_aborted env) (ls_newMessages st) (loop_phase st))
     (run_loop env streamFunction fuel st)"
proof (induction fuel arbitrary: st)
  case 0
  show ?case by (auto intro!: logs_intros simp: run_ended_def)
next
  case (Suc fuel)
  show ?case
  proof (cases "ls_hasMoreToolCalls st \<or> ls_pendingMessages st \<noteq> []")
    case True
    then show ?thesis
    proof (simp only: run_loop.simps if_True, intro logs_bindp [OF run_turn_logs [OF Suc.prems(2)]])
      fix out :: "'a turn_outcome" and l
      assume o: "turn_ended out (if ls_lastCompletedTurn st = None then InTurn else Between) l \<and>
        (\<exists>pend m rs. (over out \<or> \<not> failed_turn m) \<and> turn_adds P (never_aborted env) pend m rs (ended_messages l)) \<and>
        ls_newMessages (outcome_state out) = ls_newMessages st @ ended_messages l \<and> supplied P (outcome_state out)"
      then obtain pend m rs where t: "over out \<or> \<not> failed_turn m"
        "turn_adds P (never_aborted env) pend m rs (ended_messages l)" by blast
      show "logs (\<lambda>result l'. run_ended P (never_aborted env) (ls_newMessages st) (loop_phase st) result (l @ l'))
        (case out of RunOver st' \<Rightarrow> ret (Some (ls_newMessages st'))
         | RunOn st' \<Rightarrow> run_loop env streamFunction fuel st')"
      proof (cases out)
        case (RunOver st')
        with o t show ?thesis
          by (auto intro!: logs_ret intro: last_turn
              simp: run_ended_def turn_ended_def loop_phase_def)
      next
        case (RunOn st')
        with o have last: "ls_lastCompletedTurn st' \<noteq> None" by (simp add: turn_ended_def)
        have "run_ended P (never_aborted env) (ls_newMessages st) (loop_phase st) result (l @ l')"
          if "run_ended P (never_aborted env) (ls_newMessages st') (loop_phase st') result l'" for result l'
          using that o t RunOn last
          by (auto simp: run_ended_def turn_ended_def loop_phase_def intro: next_turn split: option.splits)
        then show ?thesis
          unfolding RunOn turn_outcome.case
          by (intro logs_weaken [OF Suc.IH]) (use last o RunOn in auto)
      qed
    qed
  next
    case False
    with Suc.prems have last: "ls_lastCompletedTurn st \<noteq> None" by auto
    have again: "logs (run_ended P (never_aborted env) (ls_newMessages st) (loop_phase st))
        (run_loop env streamFunction fuel (st\<lparr>ls_explicitContinuation := e, ls_pendingMessages := p,
           ls_hasMoreToolCalls := True\<rparr>))" if "list_all P p" for e p
      using that Suc.prems(2) Suc.IH [of "st\<lparr>ls_explicitContinuation := e, ls_pendingMessages := p,
           ls_hasMoreToolCalls := True\<rparr>"] by (simp add: loop_phase_def supplied_def)
    have again': "logs (run_ended P (never_aborted env) (ls_newMessages st) (loop_phase st))
        (run_loop env streamFunction fuel (st\<lparr>ls_explicitContinuation := e,
           ls_hasMoreToolCalls := True\<rparr>))" for e
      using Suc.prems(2) Suc.IH [of "st\<lparr>ls_explicitContinuation := e, ls_hasMoreToolCalls := True\<rparr>"]
      by (simp add: loop_phase_def supplied_def)
    have stop: "logs (run_ended P (never_aborted env) (ls_newMessages st) (loop_phase st))
        (seqp (emit env (AgentEnd (ls_newMessages st))) (ret (Some (ls_newMessages st))))"
      using last by (intro logs_seqp_emit logs_ret) (simp add: run_ended_def loop_phase_def no_turn)
    have poll: "list_all P ms"
      if "poll (lc_getFollowUpMessages (ls_config st)) w = (Inr ms, w')" for w ms w'
      using that Suc.prems(2) unfolding supplied_def supplies_def by blast
    from False show ?thesis
      by (simp only: run_loop.simps if_False)
        (rule logs_bindp_world_value [where V = "list_all P"], auto intro: again again' stop poll)
  qed
qed

lemma emit_messages_logs:
  "logs (\<lambda>_ l. ended_messages l = ms \<and> phase_run InTurn l = Some InTurn) (forp (emit_message env) ms)"
proof (induction ms)
  case Nil
  show ?case by (auto intro!: logs_intros)
next
  case (Cons m ms)
  show ?case
    unfolding forp.simps emit_message_def
    by (rule logs_seqp [where Q = "\<lambda>_ l. l = [MessageStart m, MessageEnd m]"])
      (auto intro!: logs_seqp_emit logs_emit logs_weaken [OF Cons.IH [unfolded emit_message_def]])
qed

lemma runLoop_logs:
  assumes "supplies P config"
  shows "logs (run_ended P (never_aborted env) newMessages InTurn)
     (runLoop env streamFunction fuel context newMessages config)"
proof -
  have "logs (run_ended P (never_aborted env) newMessages InTurn) (run_loop env streamFunction fuel
       \<lparr>ls_context = context, ls_newMessages = newMessages, ls_config = config,
        ls_lastCompletedTurn = None, ls_explicitContinuation = False,
        ls_pendingMessages = pending, ls_hasMoreToolCalls = True\<rparr>)" if "list_all P pending" for pending
    using that assms run_loop_logs [of "\<lparr>ls_context = context, ls_newMessages = newMessages, ls_config = config,
        ls_lastCompletedTurn = None, ls_explicitContinuation = False,
        ls_pendingMessages = pending, ls_hasMoreToolCalls = True\<rparr>" P env streamFunction fuel]
    by (simp add: loop_phase_def supplied_def)
  moreover have "list_all P pending"
    if "poll (lc_getSteeringMessages config) w = (Inr pending, w')" for w pending w'
    using that assms unfolding supplies_def by blast
  ultimately show ?thesis
    unfolding runLoop_def by (intro logs_bindp_world_value [where V = "list_all P"])
qed

section \<open>The context follows the log\<close>

text \<open>A stream that keeps to its protocol: only its first event may be a start.\<close>

definition never_starts :: "('w, assistant_event) prog \<Rightarrow> bool" where
  "never_starts p \<longleftrightarrow> (\<forall>w m w'. p w \<noteq> (Inr (EvStart m), w'))"

definition start_first :: "('w, assistant_event) prog list \<Rightarrow> bool" where
  "start_first events \<longleftrightarrow> (\<forall>p\<in>set (tl events). never_starts p)"

definition follows_protocol :: "'w stream_fn \<Rightarrow> bool" where
  "follows_protocol fn \<longleftrightarrow>
     (\<forall>model messages config w response w'.
        fn model messages config w = (Inr response, w') \<longrightarrow> start_first (rs_events response))"

definition replaces_partial ::
  "agent_message list \<Rightarrow> assistant_message \<times> agent_message list \<Rightarrow> bool" where
  "replaces_partial base y \<longleftrightarrow> snd y = base @ [AssistantMsg (fst y)]"

lemma finish_response_exact:
  assumes "messages = (if added then base @ [p] else base)"
  shows "logs (\<lambda>y _. replaces_partial base y) (finish_response env config response added messages)"
  using assms unfolding finish_response_def Let_def
  by (cases added; simp only: if_True if_False)
    (intro logs_bindp_world logs_seqp_ret logs_seqp_emit logs_ret; simp add: replaces_partial_def)+

lemma consume_events_exact:
  "\<forall>p\<in>set events. never_starts p \<Longrightarrow> messages = (if added then base @ [p] else base) \<Longrightarrow>
   logs (\<lambda>y _. replaces_partial base y) (consume_events env config response events added messages)"
proof (induction events arbitrary: messages p)
  case Nil
  then show ?case
    by (simp only: consume_events.simps) (rule finish_response_exact [of _ _ _ p], simp)
next
  case (Cons ev events)
  have fin: "logs (\<lambda>y _. replaces_partial base y) (finish_response env config response added messages)"
    using Cons.prems(2) by (rule finish_response_exact)
  have upd: "logs (\<lambda>y _. replaces_partial base y)
      (if added
       then seqp (emit env (MessageUpdate (AssistantMsg (event_message e)) e))
              (consume_events env config response events True
                (set_last messages (AssistantMsg (event_message e))))
       else consume_events env config response events False messages)" for e
  proof (cases added)
    case True
    with Cons.prems have "set_last messages (AssistantMsg (event_message e)) =
        base @ [AssistantMsg (event_message e)]" by simp
    with True Cons.IH [of "base @ [AssistantMsg (event_message e)]" "AssistantMsg (event_message e)"] Cons.prems
    show ?thesis by (auto intro: logs_seqp_emit)
  next
    case False
    with Cons.IH [of messages p] Cons.prems show ?thesis by simp
  qed
  from Cons.prems have "never_starts ev" by simp
  then have nostart: "ev w = (Inr e, w') \<Longrightarrow> e \<noteq> EvStart m" for w e w' m
    by (auto simp: never_starts_def)
  show ?case
    unfolding consume_events.simps
  proof (rule logs_bindp_world_value [where V = "\<lambda>e. \<forall>m. e \<noteq> EvStart m"])
    fix e assume "\<forall>m. e \<noteq> EvStart m"
    then show "logs (\<lambda>y _. replaces_partial base y)
      (case e of
         EvStart partial \<Rightarrow>
           seqp (emit env (MessageStart (AssistantMsg partial)))
             (consume_events env config response events True (messages @ [AssistantMsg partial]))
       | EvDone _ _ \<Rightarrow> finish_response env config response added messages
       | EvError _ _ \<Rightarrow> finish_response env config response added messages
       | _ \<Rightarrow>
           (if added
            then seqp (emit env (MessageUpdate (AssistantMsg (event_message e)) e))
                   (consume_events env config response events True
                     (set_last messages (AssistantMsg (event_message e))))
            else consume_events env config response events False messages))"
      using fin upd by (cases e) (simp_all only: assistant_event.case, simp)
  qed (use nostart in blast)
qed

lemma consume_events_start_first:
  assumes "start_first events"
  shows "logs (\<lambda>y _. replaces_partial base y) (consume_events env config response events False base)"
proof (cases events)
  case Nil
  then show ?thesis by (simp add: finish_response_exact)
next
  case (Cons ev rest)
  with assms have rest: "\<forall>p\<in>set rest. never_starts p" by (simp add: start_first_def)
  show ?thesis
    unfolding Cons consume_events.simps
  proof (rule logs_bindp_world)
    fix e
    show "logs (\<lambda>y _. replaces_partial base y)
      (case e of
         EvStart partial \<Rightarrow>
           seqp (emit env (MessageStart (AssistantMsg partial)))
             (consume_events env config response rest True (base @ [AssistantMsg partial]))
       | EvDone _ _ \<Rightarrow> finish_response env config response False base
       | EvError _ _ \<Rightarrow> finish_response env config response False base
       | _ \<Rightarrow>
           (if False
            then seqp (emit env (MessageUpdate (AssistantMsg (event_message e)) e))
                   (consume_events env config response rest True
                     (set_last base (AssistantMsg (event_message e))))
            else consume_events env config response rest False base))"
      using consume_events_exact [OF rest, of base False base]
        consume_events_exact [OF rest, of "base @ [AssistantMsg m]" True base "AssistantMsg m" for m]
        finish_response_exact [of base False base]
      by (cases e) (auto intro!: logs_seqp_emit)
  qed
qed

lemma streamAssistantResponse_exact:
  assumes "follows_protocol streamFunction"
  shows "logs (\<lambda>y _. snd y = context\<lparr>ac_messages := ac_messages context @ [AssistantMsg (fst y)]\<rparr>)
     (streamAssistantResponse env streamFunction context config)"
  unfolding streamAssistantResponse_def Let_def
proof (rule logs_bindp_world, rule logs_bindp_world, rule logs_bindp_world)
  fix messages llmMessages key
  show "logs (\<lambda>y _. snd y = context\<lparr>ac_messages := ac_messages context @ [AssistantMsg (fst y)]\<rparr>)
     (bindp (on_world (streamFunction (lc_model config)
          (normalizeContext \<lparr>ctx_systemPrompt = None, ctx_llmMessages = llmMessages, ctx_llmTools = None\<rparr>)
          (config\<lparr>lc_apiKey := key\<rparr>))) (\<lambda>response.
      bindp (consume_events env config response (rs_events response) False (ac_messages context))
          (\<lambda>(message, messages'). ret (message, context\<lparr>ac_messages := messages'\<rparr>))))"
  proof (rule logs_bindp_world_value [where V = "\<lambda>response. start_first (rs_events response)"])
    fix response :: "'a response" assume "start_first (rs_events response)"
    then show "logs (\<lambda>y _. snd y = context\<lparr>ac_messages := ac_messages context @ [AssistantMsg (fst y)]\<rparr>)
      (bindp (consume_events env config response (rs_events response) False (ac_messages context))
          (\<lambda>(message, messages'). ret (message, context\<lparr>ac_messages := messages'\<rparr>)))"
      by (intro logs_bindp [OF consume_events_start_first])
        (auto simp: replaces_partial_def intro: logs_ret)
  qed (use assms in \<open>unfold follows_protocol_def, blast\<close>)
qed

definition extends_context :: "'w loop_state \<Rightarrow> 'w loop_state \<Rightarrow> agent_message list \<Rightarrow> bool" where
  "extends_context st st' ms \<longleftrightarrow> ls_config st' = ls_config st \<and>
     ls_context st' = (ls_context st)\<lparr>ac_messages := ac_messages (ls_context st) @ ms\<rparr>"

lemma complete_turn_context:
  "logs (\<lambda>out l. extends_context st (outcome_state out) (ended_messages l)) (complete_turn env st m)"
proof (cases "failed_turn m")
  case True
  then show ?thesis
    unfolding complete_turn_def Let_def failed_turn_def
    by (simp only: if_True seqp_def [of "on_world _"])
      (intro logs_bindp_world logs_seqp_emit logs_ret, simp add: extends_context_def)
next
  case False
  have rs: "(case b of None \<Rightarrow> [] | Some b \<Rightarrow> tb_messages b) = batch_results b" for b
    by (simp add: batch_results_def)
  from False show ?thesis
    unfolding complete_turn_def Let_def failed_turn_def rs
    by (simp only: if_False)
      (rule logs_bindp [OF run_tool_batch_logs],
        simp add: failed_turn_def,
        intro logs_bindp_world logs_seqp_emit,
        auto intro!: logs_bindp_world logs_seqp_emit logs_ret simp: extends_context_def)
qed

lemma on_world_ret [simp]: "on_world (ret x) = ret x"
  by (rule ext) (simp add: on_world_def ret_def)

lemma run_turn_context:
  assumes next_none: "lc_prepareNextTurn (ls_config st) = None"
    and request_none: "lc_prepareRequest (ls_config st) = None"
    and protocol: "follows_protocol streamFunction"
  shows "logs (\<lambda>out l. extends_context st (outcome_state out) (ended_messages l)) (run_turn env streamFunction st)"
proof -
  have prep: "logs (\<lambda>y l. ended_messages l = [] \<and> ls_context (snd y) = ls_context st \<and>
       ls_config (snd y) = ls_config st) (prepare_next_turn env st)"
    using next_none unfolding prepare_next_turn_def
    by (auto simp: Let_def intro!: logs_intros logs_bindp [where Q = "\<lambda>_ l. l = []"] logs_seqp_emit split: option.split)
  show ?thesis
    unfolding run_turn_def case_prod_beta
  proof (rule logs_bindp [OF prep], rule logs_bindp_world, rule logs_bindp [OF append_messages_logs])
    fix y :: "agent_message list \<times> 'a loop_state" and l0 now and st2 :: "'a loop_state" and l1
    let ?pend = "declareToolChanges now (ls_context (snd y)) (fst y @ ls_pendingMessages (snd y))"
    assume 0: "ended_messages l0 = [] \<and> ls_context (snd y) = ls_context st \<and> ls_config (snd y) = ls_config st"
      and 1: "ended_messages l1 = ?pend \<and> phase_run InTurn l1 = Some InTurn \<and>
       st2 = (snd y)\<lparr>ls_context := (ls_context (snd y))\<lparr>ac_messages :=
            ac_messages (ls_context (snd y)) @ ?pend\<rparr>,
          ls_newMessages := ls_newMessages (snd y) @ ?pend\<rparr>"
    let ?st3 = "st2\<lparr>ls_pendingMessages := []\<rparr>"
    have ctx: "ls_config ?st3 = ls_config st"
      "ls_context ?st3 = (ls_context st)\<lparr>ac_messages := ac_messages (ls_context st) @ ?pend\<rparr>"
      using 0 1 by auto
    have req: "prepare_request ?st3 = ret ?st3"
      using ctx(1) request_none by (simp add: prepare_request_def)
    show "logs (\<lambda>out l. extends_context st (outcome_state out) (ended_messages (l0 @ l1 @ l)))
     (bindp (on_world (prepare_request ?st3)) (\<lambda>st3.
      bindp (streamAssistantResponse env streamFunction (ls_context st3) (ls_config st3)) (\<lambda>z.
      complete_turn env (st3\<lparr>ls_context := snd z,
        ls_newMessages := ls_newMessages st3 @ [AssistantMsg (fst z)]\<rparr>) (fst z))))"
      unfolding req on_world_ret bindp_ret
    proof (rule logs_bindp [OF logs_conj [OF streamAssistantResponse_logs streamAssistantResponse_exact [OF protocol]]],
        rule logs_weaken [OF complete_turn_context])
      fix z l2 out l3
      assume "(ended_messages l2 = [AssistantMsg (fst z)] \<and> phase_run InTurn l2 = Some InTurn \<and>
          (\<exists>ps. snd z = (ls_context ?st3)\<lparr>ac_messages := ac_messages (ls_context ?st3) @ ps @ [AssistantMsg (fst z)]\<rparr>)) \<and>
        snd z = (ls_context ?st3)\<lparr>ac_messages := ac_messages (ls_context ?st3) @ [AssistantMsg (fst z)]\<rparr>"
        and "extends_context (?st3\<lparr>ls_context := snd z,
           ls_newMessages := ls_newMessages ?st3 @ [AssistantMsg (fst z)]\<rparr>) (outcome_state out) (ended_messages l3)"
      with 0 1 ctx show "extends_context st (outcome_state out) (ended_messages (l0 @ l1 @ l2 @ l3))"
        by (simp add: extends_context_def)
    qed
  qed
qed

section \<open>Fuel\<close>

text \<open>More fuel never changes a result.\<close>

lemma run_loop_more_fuel:
  "run_loop env fn n st r = (x, r') \<Longrightarrow> x \<noteq> Inr None \<Longrightarrow> n \<le> k \<Longrightarrow> run_loop env fn k st r = (x, r')"
proof (induction n arbitrary: st r k)
  case (Suc n)
  then obtain k' where k: "k = Suc k'" "n \<le> k'" by (cases k) auto
  note IH = Suc.IH [OF _ Suc.prems(2) k(2)]
  show ?case
    using Suc.prems(1) unfolding k(1)
    by (auto simp: bindp_def IH split: prod.splits sum.splits turn_outcome.splits if_splits)
qed (simp add: ret_def)

text \<open>
  An application for the witnesses: a model that counts its responses down in the world and
  asks for a tool, which does not exist, in one of them; no hooks and no queues. The abort
  signal is raised when the count is used up.
\<close>

definition demo_loop_env :: "nat env" where
  "demo_loop_env = demo_env\<lparr>env_sink := (\<lambda>e w. (Inr (), w)), env_aborted := (\<lambda>w. w = 0)\<rparr>"

definition demo_model :: model where
  "demo_model = \<lparr>md_id = ''m'', md_name = ''m'', md_api = ''api'', md_provider = ''p'',
     md_baseUrl = '''', md_reasoning = False, md_contextWindow = 1000, md_maxTokens = 100\<rparr>"

definition demo_config :: "nat loop_config" where
  "demo_config = \<lparr>hk_beforeToolCall = None, hk_afterToolCall = None, lc_model = demo_model,
     lc_reasoning = None, lc_apiKey = None, lc_convertToLlm = (\<lambda>ms. ret (convertToLlm ms)),
     lc_transformContext = None, lc_getApiKey = None, lc_finishTurn = None,
     lc_prepareRequest = None, lc_prepareNextTurn = None, lc_getSteeringMessages = None,
     lc_getFollowUpMessages = None, lc_toolExecution = Some Sequential\<rparr>"

definition demo_answer :: "nat \<Rightarrow> assistant_message" where
  "demo_answer w = (if w = 3 then demo_assistant [ToolCall (demo_call ''1'' ''ls'')] StopToolUse
     else demo_assistant [TextContent ''done'' None] StopStop)"

definition demo_stream :: "nat stream_fn" where
  "demo_stream model messages config =
     ret \<lparr>rs_events = [], rs_result = (\<lambda>w. (Inr (demo_answer w), w - 1))\<rparr>"

definition demo_state :: "nat loop_state" where
  "demo_state = \<lparr>ls_context = \<lparr>ac_messages = [text_user_message ''hi'' 0], ac_tools = None\<rparr>,
     ls_newMessages = [], ls_config = demo_config, ls_lastCompletedTurn = None,
     ls_explicitContinuation = False, ls_pendingMessages = [], ls_hasMoreToolCalls = True\<rparr>"

lemma demo_protocol: "follows_protocol demo_stream"
  by (auto simp: follows_protocol_def demo_stream_def ret_def start_first_def)

lemma demo_emit: "emit demo_loop_env e r = (Inr (), r\<lparr>run_log := run_log r @ [e]\<rparr>)"
  by (simp add: emit_def demo_loop_env_def)

lemma demo_append:
  "\<exists>st' r'. append_messages demo_loop_env ms st r = (Inr st', r') \<and> run_world r' = run_world r \<and>
     ls_config st' = ls_config st \<and> ac_tools (ls_context st') = ac_tools (ls_context st)"
proof (induction ms arbitrary: st r)
  case (Cons m ms)
  show ?case
    using Cons.IH [of "st\<lparr>ls_context := (ls_context st)\<lparr>ac_messages := ac_messages (ls_context st) @ [m]\<rparr>,
               ls_newMessages := ls_newMessages st @ [m]\<rparr>"
        "r\<lparr>run_log := run_log r @ [MessageStart m, MessageEnd m]\<rparr>"]
    by (simp add: seqp_def bindp_def demo_emit)
qed (simp add: ret_def)

definition demo_ready :: "nat loop_state \<Rightarrow> bool" where
  "demo_ready st \<longleftrightarrow> ls_config st = demo_config \<and> ac_tools (ls_context st) = None"

lemma demo_prepare:
  "demo_ready st \<Longrightarrow>
     \<exists>ms st' r'. prepare_next_turn demo_loop_env st r = (Inr (ms, st'), r') \<and> run_world r' = run_world r \<and>
       demo_ready st'"
  by (auto simp: prepare_next_turn_def demo_config_def demo_ready_def ret_def bindp_def seqp_def on_world_def
      poll_def demo_emit split: option.split)

lemma demo_response:
  "\<exists>m ctx r'. streamAssistantResponse demo_loop_env demo_stream context demo_config r = (Inr (m, ctx), r') \<and>
     run_world r' = run_world r - 1 \<and> am_content m = am_content (demo_answer (run_world r)) \<and>
     am_stopReason m = am_stopReason (demo_answer (run_world r)) \<and> ac_tools ctx = ac_tools context"
  by (simp add: streamAssistantResponse_def demo_config_def demo_stream_def resolve_api_key_def
      finish_response_def ret_def bindp_def seqp_def on_world_def demo_emit Let_def)

text \<open>The tool the model asks for is not there; the call is answered with an error.\<close>

lemma demo_tools:
  assumes "demo_ready st" and "am_content m = Blocks [ToolCall (demo_call ''1'' ''ls'')]" and "am_stopReason m = StopToolUse"
  shows "\<exists>b r'. run_tool_batch demo_loop_env st m r = (Inr (Some b), r') \<and> run_world r' = run_world r \<and> \<not> tb_terminate b"
proof -
  from assms(2) have calls: "tool_calls_of m = Inr [demo_call ''1'' ''ls'']"
    by (simp add: tool_calls_of_def List.map_filter_simps)
  have none: "context_tools (ls_context st) = []" "lc_toolExecution (ls_config st) = Some Sequential"
    using assms(1) by (simp_all add: demo_ready_def context_tools_def demo_config_def)
  show ?thesis
    using assms(3) none
    by (cases "env_aborted demo_loop_env (run_world r)")
      (simp_all add: run_tool_batch_def calls executeToolCalls_def executeToolCallsSequential_def runSequentialCall_def
        prepareToolCall_def emitToolExecutionStart_def emitToolExecutionEnd_def publishToolResult_def
        emitToolResultMessage_def demo_emit bindp_def seqp_def ret_def liftp_def readp_def is_aborted_def
        on_world_def Let_def shouldTerminateToolBatch_def createErrorToolResult_def)
qed

lemma demo_complete:
  assumes "demo_ready st" and "am_content m = am_content (demo_answer w)" and "am_stopReason m = am_stopReason (demo_answer w)"
  shows "\<exists>st' r'. complete_turn demo_loop_env st m r = (Inr (RunOn st'), r') \<and> run_world r' = run_world r \<and>
     demo_ready st' \<and> (ls_hasMoreToolCalls st' \<longleftrightarrow> w = 3) \<and> ls_pendingMessages st' = [] \<and>
     \<not> ls_explicitContinuation st'"
proof (cases "w = 3")
  case True
  with assms have m: "am_content m = Blocks [ToolCall (demo_call ''1'' ''ls'')]" "am_stopReason m = StopToolUse"
    by (simp_all add: demo_answer_def demo_assistant_def)
  from demo_tools [OF assms(1) m, of r] obtain b r1 where
    "run_tool_batch demo_loop_env st m r = (Inr (Some b), r1)" "run_world r1 = run_world r" "\<not> tb_terminate b" by blast
  with True m assms(1) show ?thesis
    by (simp add: complete_turn_def demo_ready_def ret_def bindp_def seqp_def on_world_def demo_emit
        finish_turn_def poll_def demo_config_def Let_def)
next
  case False
  with assms show ?thesis
    by (simp add: complete_turn_def run_tool_batch_def tool_calls_of_def List.map_filter_simps liftp_def
        ret_def bindp_def seqp_def on_world_def demo_emit finish_turn_def poll_def demo_config_def Let_def
        demo_ready_def demo_answer_def demo_assistant_def)
qed

lemma demo_turn:
  assumes "demo_ready st"
  shows "\<exists>st' r'. run_turn demo_loop_env demo_stream st r = (Inr (RunOn st'), r') \<and> run_world r' = run_world r - 1 \<and>
     demo_ready st' \<and> (ls_hasMoreToolCalls st' \<longleftrightarrow> run_world r = 3) \<and> ls_pendingMessages st' = [] \<and>
     \<not> ls_explicitContinuation st'"
proof -
  from demo_prepare [OF assms, of r] obtain ms st1 r1 where 1:
    "prepare_next_turn demo_loop_env st r = (Inr (ms, st1), r1)" "run_world r1 = run_world r" "demo_ready st1" by blast
  let ?now = "env_now demo_loop_env (run_world r1)"
  let ?pend = "declareToolChanges ?now (ls_context st1) (ms @ ls_pendingMessages st1)"
  from demo_append [of ?pend st1 r1] 1 obtain st2 r2 where 2:
    "append_messages demo_loop_env ?pend st1 r1 = (Inr st2, r2)" "run_world r2 = run_world r1" "demo_ready st2"
    by (auto simp: demo_ready_def)
  let ?st3 = "st2\<lparr>ls_pendingMessages := []\<rparr>"
  from demo_response [of "ls_context ?st3" r2] obtain m ctx r3 where 3:
    "streamAssistantResponse demo_loop_env demo_stream (ls_context ?st3) demo_config r2 = (Inr (m, ctx), r3)"
    "run_world r3 = run_world r2 - 1" "am_content m = am_content (demo_answer (run_world r2))"
    "am_stopReason m = am_stopReason (demo_answer (run_world r2))" "ac_tools ctx = ac_tools (ls_context ?st3)" by blast
  have "prepare_request ?st3 = ret ?st3"
    using 2 by (simp add: prepare_request_def demo_config_def demo_ready_def)
  with 1 2 3 have turn: "run_turn demo_loop_env demo_stream st r = complete_turn demo_loop_env
      (?st3\<lparr>ls_context := ctx, ls_newMessages := ls_newMessages ?st3 @ [AssistantMsg m]\<rparr>) m r3"
    by (simp add: run_turn_def bindp_def on_world_def readp_def ret_def demo_ready_def)
  have "demo_ready (?st3\<lparr>ls_context := ctx, ls_newMessages := ls_newMessages ?st3 @ [AssistantMsg m]\<rparr>)"
    using 2 3(5) by (simp add: demo_ready_def)
  from demo_complete [OF this 3(3,4), of r3] show ?thesis
    unfolding turn using 1 2 3 by auto
qed

text \<open>A whole run: with the count at three, one turn that asks for a tool and one that does not.\<close>

lemma demo_loop:
  assumes "demo_ready st" and "run_world r = 3" and "ls_hasMoreToolCalls st"
  shows "\<exists>ms r'. run_loop demo_loop_env demo_stream 3 st r = (Inr (Some ms), r') \<and> run_world r' = 1"
proof -
  from demo_turn [OF assms(1), of r] assms(2) obtain st1 r1 where 1:
    "run_turn demo_loop_env demo_stream st r = (Inr (RunOn st1), r1)" "run_world r1 = 2" "demo_ready st1"
    "ls_hasMoreToolCalls st1" by auto
  from demo_turn [OF 1(3), of r1] 1(2) obtain st2 r2 where 2:
    "run_turn demo_loop_env demo_stream st1 r1 = (Inr (RunOn st2), r2)" "run_world r2 = 1" "demo_ready st2"
    "\<not> ls_hasMoreToolCalls st2" "ls_pendingMessages st2 = []" "\<not> ls_explicitContinuation st2" by auto
  from 1 2 assms(3) show ?thesis
    by (simp add: numeral_3_eq_3 bindp_def seqp_def ret_def on_world_def poll_def demo_ready_def demo_config_def demo_emit)
qed

lemma demo_run:
  "\<exists>ms r'. runAgentLoop demo_loop_env demo_stream 3 [text_user_message ''hi'' 0] \<lparr>ac_messages = [], ac_tools = None\<rparr>
     demo_config \<lparr>run_log = [], run_world = 3\<rparr> = (Inr (Some ms), r') \<and> run_world r' = 1"
proof -
  have forp: "\<exists>r'. forp (emit_message demo_loop_env) ms r = (Inr (), r') \<and> run_world r' = run_world r" for ms r
  proof (induction ms arbitrary: r)
    case (Cons m ms)
    then show ?case
      using Cons.IH [of "r\<lparr>run_log := run_log r @ [MessageStart m, MessageEnd m]\<rparr>"]
      by (simp add: emit_message_def seqp_def bindp_def demo_emit)
  qed (simp add: ret_def)
  have steering: "poll (lc_getSteeringMessages demo_config) = ret []" by (simp add: poll_def demo_config_def)
  have clock: "on_world (readp f) r = (Inr (f (run_world r)), r)" for f :: "nat \<Rightarrow> int" and r
    by (simp add: on_world_def readp_def)
  let ?ms = "declareToolChanges (env_now demo_loop_env 3) \<lparr>ac_messages = [], ac_tools = None :: nat agent_tool list option\<rparr>
      [text_user_message ''hi'' 0]"
  from forp [of ?ms "\<lparr>run_log = [AgentStart, TurnStart], run_world = 3\<rparr>"] obtain r1 where
    "forp (emit_message demo_loop_env) ?ms \<lparr>run_log = [AgentStart, TurnStart], run_world = 3\<rparr> = (Inr (), r1)" "run_world r1 = 3"
    by auto
  moreover have "demo_ready \<lparr>ls_context = \<lparr>ac_messages = ?ms, ac_tools = None\<rparr>, ls_newMessages = ?ms, ls_config = demo_config,
        ls_lastCompletedTurn = None, ls_explicitContinuation = False, ls_pendingMessages = [], ls_hasMoreToolCalls = True\<rparr>"
    by (simp add: demo_ready_def)
  ultimately show ?thesis
    using demo_loop [of "\<lparr>ls_context = \<lparr>ac_messages = ?ms, ac_tools = None\<rparr>, ls_newMessages = ?ms, ls_config = demo_config,
        ls_lastCompletedTurn = None, ls_explicitContinuation = False, ls_pendingMessages = [], ls_hasMoreToolCalls = True\<rparr>" r1]
    unfolding runAgentLoop_def runLoop_def steering on_world_ret bindp_ret Let_def
    by (simp add: bindp_def seqp_def clock demo_emit)
qed

section \<open>Properties of the loop\<close>

text \<open>
  C29: Declaring tool changes makes the transcript say exactly what the runtime can
  execute: after the returned messages the replayed tool set holds, for every name, a
  tool that declares the same interface as the executable one, and no other; and the
  other messages pass through unchanged and in order.
\<close>

theorem declared_tools_are_executable:
  assumes "distinct (map t_name (context_tools context))"
  shows "rel_option declarationsEqual
     (tool_lookup (getCurrentTools (ac_messages context @ declareToolChanges now context pending)) k)
     (tool_lookup (map toToolDeclaration (context_tools context)) k) \<and>
   filter (\<lambda>m. \<not> is_system m) (declareToolChanges now context pending) = filter (\<lambda>m. \<not> is_system m) pending"
  using declareToolChanges_replay [OF assms] by (simp add: filter_declareToolChanges)

theorem declared_tools_are_executable_witness:
  "rel_option declarationsEqual
     (tool_lookup (getCurrentTools (ac_messages demo_context @ declareToolChanges 5 demo_context
        [text_user_message ''hi'' 1])) ''rm'')
     (tool_lookup (map toToolDeclaration (context_tools demo_context)) ''rm'') \<and>
   filter (\<lambda>m. \<not> is_system m) (declareToolChanges 5 demo_context [text_user_message ''hi'' 1]) =
   filter (\<lambda>m. \<not> is_system m) [text_user_message ''hi'' 1]"
  by (rule declared_tools_are_executable) (simp add: demo_context_def demo_tool_def context_tools_def)

text \<open>
  The events of a run that returns, when the abort flag is never raised: well bracketed, with
  the messages the run returns as those that were ended, in order, and these are the prompts
  with their declared tool changes and then whole turns.
\<close>

lemma runAgentLoop_logs:
  assumes "supplies P config"
  shows "logs (\<lambda>result l. case result of None \<Rightarrow> True
     | Some ms \<Rightarrow> phase_run Idle l = Some Over \<and> last l = AgentEnd ms \<and> ended_messages l = ms \<and>
        (\<exists>now turns. ms = declareToolChanges now context prompts @ turns \<and>
           transcript_turns P (never_aborted env) turns))
     (runAgentLoop env streamFunction fuel prompts context config)"
  unfolding runAgentLoop_def Let_def
proof (rule logs_bindp_world, intro logs_seqp_emit, rule logs_seqp [OF emit_messages_logs],
    rule logs_weaken [OF runLoop_logs [OF assms]])
  fix now l result l'
  let ?init = "declareToolChanges now context prompts"
  assume "ended_messages l = ?init \<and> phase_run InTurn l = Some InTurn"
    and "run_ended P (never_aborted env) ?init InTurn result l'"
  then show "case result of None \<Rightarrow> True
     | Some ms \<Rightarrow> phase_run Idle (AgentStart # TurnStart # l @ l') = Some Over \<and>
        last (AgentStart # TurnStart # l @ l') = AgentEnd ms \<and>
        ended_messages (AgentStart # TurnStart # l @ l') = ms \<and>
        (\<exists>now turns. ms = declareToolChanges now context prompts @ turns \<and>
           transcript_turns P (never_aborted env) turns)"
    by (auto simp: run_ended_def split: option.splits)
qed

text \<open>
  Continuing from an empty transcript or after an assistant message is refused before
  anything is emitted; otherwise the continued run's events are well bracketed and the
  messages it returns are exactly its turns.
\<close>

theorem runAgentLoopContinue_log:
  assumes "supplies P config"
  shows "(if ac_messages context = [] \<or> is_assistant (last (ac_messages context))
    then \<exists>e. runAgentLoopContinue env streamFunction fuel context config r = (Inl e, r)
    else logs (\<lambda>result l. case result of None \<Rightarrow> True
       | Some ms \<Rightarrow> phase_run Idle l = Some Over \<and> last l = AgentEnd ms \<and> ended_messages l = ms \<and>
          transcript_turns P (never_aborted env) ms)
       (runAgentLoopContinue env streamFunction fuel context config))"
proof (cases "ac_messages context = [] \<or> is_assistant (last (ac_messages context))")
  case True
  then show ?thesis by (auto simp: runAgentLoopContinue_def throw_def)
next
  case False
  then have "runAgentLoopContinue env streamFunction fuel context config =
      seqp (emit env AgentStart) (seqp (emit env TurnStart) (runLoop env streamFunction fuel context [] config))"
    by (simp add: runAgentLoopContinue_def)
  with False show ?thesis
    by (auto intro!: logs_seqp_emit logs_weaken [OF runLoop_logs [OF assms]] simp: run_ended_def split: option.splits)
qed

text \<open>
  While no hook replaces the context and the provider keeps to the stream protocol,
  the context the next request is built from is the context before the turn followed by
  exactly the messages the turn ended: the model sees what was recorded.
\<close>

theorem turn_context_is_log:
  assumes "lc_prepareNextTurn (ls_config st) = None" and "lc_prepareRequest (ls_config st) = None"
    and "follows_protocol streamFunction"
    and "run_turn env streamFunction st r = (Inr out, r')"
  shows "\<exists>l. run_log r' = run_log r @ l \<and>
    ac_messages (ls_context (outcome_state out)) = ac_messages (ls_context st) @ ended_messages l \<and>
    ac_tools (ls_context (outcome_state out)) = ac_tools (ls_context st)"
  using run_turn_context [OF assms(1-3)] assms(4)
  by (rule logsD) (auto simp: extends_context_def)

theorem turn_context_is_log_witness:
  "\<exists>l out r'. run_turn demo_loop_env demo_stream demo_state \<lparr>run_log = [], run_world = 1\<rparr> = (Inr out, r') \<and>
     run_log r' = [] @ l \<and>
     ac_messages (ls_context (outcome_state out)) = [text_user_message ''hi'' 0] @ ended_messages l"
proof -
  obtain st' r' where t: "run_turn demo_loop_env demo_stream demo_state \<lparr>run_log = [], run_world = 1\<rparr> =
      (Inr (RunOn st'), r')"
    using demo_turn [of demo_state "\<lparr>run_log = [], run_world = 1\<rparr>"] by (auto simp: demo_state_def demo_ready_def)
  have "lc_prepareNextTurn (ls_config demo_state) = None" "lc_prepareRequest (ls_config demo_state) = None"
    by (simp_all add: demo_state_def demo_config_def)
  from turn_context_is_log [OF this demo_protocol t] t show ?thesis
    by (auto simp: demo_state_def)
qed

end
