(* ===== verification/Run_Invariants.thy ===== *)
theory Run_Invariants
  imports Agent_Loop
begin

text \<open>
  Invariants of a run. The callbacks of a run act on the world; a \<^emph>\<open>frame\<close> is a relation
  that bounds what they may do to it. The locale \<open>run_invariant\<close> is the contract between
  the loop and the application: an invariant of runs that every emitted event and every
  framed change of the world keeps. Inside the locale every function of the loop is shown
  to keep it, whether it returns or throws.
\<close>

definition framed :: "('w \<Rightarrow> 'w \<Rightarrow> bool) \<Rightarrow> ('w, 'a) prog \<Rightarrow> bool" where
  "framed R p \<longleftrightarrow> (\<forall>w. R w (snd (p w)))"

definition framed_opt :: "('w \<Rightarrow> 'w \<Rightarrow> bool) \<Rightarrow> ('w, 'a) prog option \<Rightarrow> bool" where
  "framed_opt R po \<longleftrightarrow> (case po of None \<Rightarrow> True | Some p \<Rightarrow> framed R p)"

definition framed_fun :: "('w \<Rightarrow> 'w \<Rightarrow> bool) \<Rightarrow> ('x \<Rightarrow> ('w, 'a) prog) option \<Rightarrow> bool" where
  "framed_fun R fo \<longleftrightarrow> (case fo of None \<Rightarrow> True | Some f \<Rightarrow> \<forall>x. framed R (f x))"

definition tools_framed :: "('w \<Rightarrow> 'w \<Rightarrow> bool) \<Rightarrow> 'w agent_tool list \<Rightarrow> bool" where
  "tools_framed R ts \<longleftrightarrow> (\<forall>t\<in>set ts. \<forall>i args w. R w (snd (at_execute t i args w)))"

definition hooks_framed :: "('w \<Rightarrow> 'w \<Rightarrow> bool) \<Rightarrow> ('w, 'x) tool_hooks_scheme \<Rightarrow> bool" where
  "hooks_framed R h \<longleftrightarrow>
     (\<forall>f am tc args c. hk_beforeToolCall h = Some f \<longrightarrow> framed R (f am tc args c)) \<and>
     (\<forall>f am tc args res err c. hk_afterToolCall h = Some f \<longrightarrow> framed R (f am tc args res err c))"

text \<open>An update hook may also replace the context; then the new tools have to be framed.\<close>

definition update_framed ::
  "('w \<Rightarrow> 'w \<Rightarrow> bool) \<Rightarrow> ('c \<Rightarrow> ('w, ('w, 'x) request_update_scheme option) prog) option \<Rightarrow> bool" where
  "update_framed R fo \<longleftrightarrow> framed_fun R fo \<and>
     (\<forall>f x w u w' c. fo = Some f \<longrightarrow> f x w = (Inr (Some u), w') \<longrightarrow> ru_context u = Some c \<longrightarrow>
        tools_framed R (context_tools c))"

definition config_framed :: "('w \<Rightarrow> 'w \<Rightarrow> bool) \<Rightarrow> 'w loop_config \<Rightarrow> bool" where
  "config_framed R c \<longleftrightarrow> hooks_framed R c \<and> (\<forall>ms. framed R (lc_convertToLlm c ms)) \<and>
     framed_fun R (lc_transformContext c) \<and> framed_fun R (lc_getApiKey c) \<and>
     framed_fun R (lc_finishTurn c) \<and> update_framed R (lc_prepareRequest c) \<and>
     update_framed R (lc_prepareNextTurn c) \<and>
     framed_opt R (lc_getSteeringMessages c) \<and> framed_opt R (lc_getFollowUpMessages c)"

lemma update_framedD:
  "update_framed R (Some f) \<Longrightarrow> f x w = (Inr (Some u), w') \<Longrightarrow> ru_context u = Some c \<Longrightarrow>
     tools_framed R (context_tools c)"
  unfolding update_framed_def by blast

text \<open>The stream function, the events it produces and its result.\<close>

definition stream_framed :: "('w \<Rightarrow> 'w \<Rightarrow> bool) \<Rightarrow> 'w stream_fn \<Rightarrow> bool" where
  "stream_framed R fn \<longleftrightarrow> (\<forall>model ms c. framed R (fn model ms c)) \<and>
     (\<forall>model ms c w resp w'. fn model ms c w = (Inr resp, w') \<longrightarrow>
        framed R (rs_result resp) \<and> (\<forall>p\<in>set (rs_events resp). framed R p))"

definition prepared_ok :: "('w \<Rightarrow> 'w \<Rightarrow> bool) \<Rightarrow> 'w preparation \<Rightarrow> bool" where
  "prepared_ok R p \<longleftrightarrow> (case p of Prepared _ t _ \<Rightarrow> \<forall>i args w. R w (snd (at_execute t i args w)) | _ \<Rightarrow> True)"

definition task_ok :: "('w \<Rightarrow> 'w \<Rightarrow> bool) \<Rightarrow> 'w task \<Rightarrow> bool" where
  "task_ok R k \<longleftrightarrow> (case k of TaskReady _ t _ \<Rightarrow> \<forall>i args w. R w (snd (at_execute t i args w)) | _ \<Rightarrow> True)"

definition state_ok :: "('w \<Rightarrow> 'w \<Rightarrow> bool) \<Rightarrow> 'w loop_state \<Rightarrow> bool" where
  "state_ok R st \<longleftrightarrow> config_framed R (ls_config st) \<and> tools_framed R (context_tools (ls_context st))"

text \<open>An invariant kept together with a fact about the returned value.\<close>

definition yields :: "('w \<Rightarrow> bool) \<Rightarrow> ('a \<Rightarrow> bool) \<Rightarrow> ('w, 'a) prog \<Rightarrow> bool" where
  "yields I V m \<longleftrightarrow> (\<forall>w. I w \<longrightarrow> I (snd (m w)) \<and> (\<forall>x. fst (m w) = Inr x \<longrightarrow> V x))"

named_theorems yields_intros \<open>rules lifting invariants and value facts\<close>

lemma yields_ret [yields_intros]: "V x \<Longrightarrow> yields I V (ret x)"
  by (simp add: yields_def ret_def)

lemma yields_throw [yields_intros]: "yields I V (throw e)"
  by (simp add: yields_def throw_def)

lemma yields_liftp [yields_intros]: "(\<And>x. r = Inr x \<Longrightarrow> V x) \<Longrightarrow> yields I V (liftp r)"
  by (simp add: yields_def liftp_def)

lemma yields_bindp:
  assumes m: "yields I U m" and f: "\<And>x. U x \<Longrightarrow> yields I V (f x)"
  shows "yields I V (bindp m f)"
  unfolding yields_def
proof (intro allI impI)
  fix w assume "I w"
  obtain r w1 where mw: "m w = (r, w1)" by fastforce
  with m \<open>I w\<close> have 1: "I w1" "\<And>x. r = Inr x \<Longrightarrow> U x" unfolding yields_def by auto
  show "I (snd (bindp m f w)) \<and> (\<forall>x. fst (bindp m f w) = Inr x \<longrightarrow> V x)"
  proof (cases r)
    case (Inr x)
    with f [OF 1(2) [OF Inr]] 1(1) mw show ?thesis by (auto simp: yields_def bindp_def)
  qed (use mw 1 in \<open>simp add: bindp_def\<close>)
qed

lemma yields_seqp:
  "yields I U m \<Longrightarrow> yields I V k \<Longrightarrow> yields I V (seqp m k)"
  unfolding seqp_def by (rule yields_bindp)

lemma yields_weaken: "yields I U m \<Longrightarrow> (\<And>x. U x \<Longrightarrow> V x) \<Longrightarrow> yields I V m"
  unfolding yields_def by blast

lemma yields_forp: "(\<And>x. yields I (\<lambda>_. True) (f x)) \<Longrightarrow> yields I (\<lambda>_. True) (forp f xs)"
  by (induction xs) (auto intro: yields_intros yields_seqp)

abbreviation any :: "'a \<Rightarrow> bool" where "any \<equiv> \<lambda>_. True"

lemmas yields_any = yields_bindp [where U = any] yields_seqp [where U = any]

locale world_frame =
  fixes R :: "'w \<Rightarrow> 'w \<Rightarrow> bool"
  assumes R_refl: "R w w" and R_trans: "R w1 w2 \<Longrightarrow> R w2 w3 \<Longrightarrow> R w1 w3"
begin

lemma framed_basic: "framed R (ret x)" "framed R (throw e)" "framed R (liftp r)" "framed R (readp f)"
  by (simp_all add: framed_def R_refl ret_def throw_def liftp_def readp_def)

lemma framed_bindp:
  assumes "framed R m" and "\<And>x. framed R (f x)"
  shows "framed R (bindp m f)"
  unfolding framed_def
proof
  fix w
  obtain r w1 where mw: "m w = (r, w1)" by fastforce
  with assms(1) have "R w w1" unfolding framed_def by (metis snd_conv)
  with mw assms(2) show "R w (snd (bindp m f w))"
    by (cases r) (auto simp: bindp_def framed_def intro: R_trans)
qed

lemma framed_catchp:
  assumes "framed R m" and "\<And>e. framed R (h e)"
  shows "framed R (catchp m h)"
  unfolding framed_def
proof
  fix w
  obtain r w1 where mw: "m w = (r, w1)" by fastforce
  with assms(1) have "R w w1" unfolding framed_def by (metis snd_conv)
  with mw assms(2) show "R w (snd (catchp m h w))"
    by (cases r) (auto simp: catchp_def framed_def intro: R_trans)
qed

lemma framed_prepareToolCall:
  assumes "hooks_framed R config"
  shows "framed R (prepareToolCall env context am tc config tools)"
  using assms
  by (auto simp: prepareToolCall_def unless_aborted_def is_aborted_def hooks_framed_def Let_def
      intro!: framed_basic framed_bindp framed_catchp split: option.split)

lemma framed_finalize:
  assumes "hooks_framed R config"
  shows "framed R (finalizeExecutedToolCall context am tc args executed config)"
  using assms
  by (auto simp: finalizeExecutedToolCall_def hooks_framed_def Let_def
      intro!: framed_basic framed_bindp framed_catchp split: option.split)

lemma framed_poll: "framed_opt R po \<Longrightarrow> framed R (poll po)"
  by (auto simp: framed_opt_def poll_def framed_basic split: option.splits)

end

locale run_invariant = world_frame R for R :: "'w \<Rightarrow> 'w \<Rightarrow> bool" +
  fixes env :: "'w env" and I :: "'w run \<Rightarrow> bool"
  assumes I_frame: "I r \<Longrightarrow> R (run_world r) w \<Longrightarrow> I (r\<lparr>run_world := w\<rparr>)"
    and I_emit: "yields I (\<lambda>_. True) (emit env e)"
begin

lemma on_world_yields: "framed R m \<Longrightarrow> (\<And>w x w'. m w = (Inr x, w') \<Longrightarrow> V x) \<Longrightarrow> yields I V (on_world m)"
  unfolding yields_def on_world_def framed_def
  by (auto split: prod.split intro: I_frame) (metis I_frame snd_conv)

lemma on_world_any: "framed R m \<Longrightarrow> yields I any (on_world m)"
  by (rule on_world_yields) simp_all

lemma aborted_any: "yields I any (on_world (is_aborted env))"
  by (simp add: is_aborted_def framed_basic on_world_any)

lemma clock_any: "yields I any (on_world (readp f))"
  by (simp add: framed_basic on_world_any)

text \<open>Tool execution.\<close>

lemma tool_event_any:
  "yields I any (emitToolExecutionStart env tc)" "yields I any (emitToolExecutionUpdate env tc p)"
  "yields I any (emitToolExecutionEnd env oc)" "yields I any (publishToolResult env oc)"
  by (auto simp: emitToolExecutionStart_def emitToolExecutionUpdate_def emitToolExecutionEnd_def
      publishToolResult_def emitToolResultMessage_def Let_def
      intro!: I_emit yields_any clock_any yields_ret)

lemma deliver_updates_keeps:
  assumes "\<And>p. yields I any (sink p)"
  shows "I r \<Longrightarrow> I (snd (deliver_updates sink ps r))"
proof (induction ps arbitrary: r)
  case (Cons p ps)
  obtain x r1 where p1: "sink p r = (x, r1)" by fastforce
  with assms [of p] Cons.prems have "I r1" unfolding yields_def by (metis snd_conv)
  with Cons.IH p1 show ?case by (auto split: sum.split)
qed simp

lemma execute_any:
  assumes "\<And>i args w. R w (snd (at_execute t i args w))"
  shows "yields I any (executePreparedToolCall env tc t args (emitToolExecutionUpdate env tc0))"
  unfolding yields_def
proof (intro allI impI conjI)
  fix r assume r: "I r"
  obtain partials outcome w where ex: "at_execute t (tc_id tc) args (run_world r) = ((partials, outcome), w)"
    by (metis prod.exhaust_sel)
  with assms have "R (run_world r) w" by (metis snd_conv)
  with r have "I (r\<lparr>run_world := w\<rparr>)" by (rule I_frame)
  then have "I (snd (deliver_updates (emitToolExecutionUpdate env tc0) partials (r\<lparr>run_world := w\<rparr>)))"
    by (rule deliver_updates_keeps [OF tool_event_any(2)])
  with ex show "I (snd (executePreparedToolCall env tc t args (emitToolExecutionUpdate env tc0) r))"
    by (auto simp: executePreparedToolCall_def Let_def split: prod.split option.split sum.split)
qed auto

text \<open>A preparation that came out of \<open>tools\<close> runs one of its tools.\<close>

lemma prepareToolCall_tool:
  "prepareToolCall env context am tc config tools w = (Inr (Prepared tc' t args), w') \<Longrightarrow> t \<in> set tools"
  by (auto simp: prepareToolCall_def unless_aborted_def catchp_def bindp_def liftp_def ret_def
      is_aborted_def readp_def Let_def dest: find_Some_iff [THEN iffD1]
      split: option.splits sum.splits if_splits prod.splits)

lemma prepare_yields:
  assumes "hooks_framed R config" and "tools_framed R tools"
  shows "yields I (prepared_ok R) (on_world (prepareToolCall env context am tc config tools))"
  using assms
  by (intro on_world_yields framed_prepareToolCall)
    (auto simp: prepared_ok_def tools_framed_def split: preparation.split dest!: prepareToolCall_tool)

lemma finalize_any:
  "hooks_framed R config \<Longrightarrow> yields I any (on_world (finalizeExecutedToolCall context am tc args executed config))"
  by (intro on_world_any framed_finalize)

lemma prepareTool_split:
  assumes "hooks_framed R config" and "tools_framed R tools"
    and "\<And>r e. yields I V (f (Immediate r e))"
    and "\<And>tc' t args. (\<And>i args w. R w (snd (at_execute t i args w))) \<Longrightarrow> yields I V (f (Prepared tc' t args))"
  shows "yields I V (bindp (on_world (prepareToolCall env context am tc config tools)) f)"
proof (rule yields_bindp [OF prepare_yields [OF assms(1,2)]])
  fix p assume "prepared_ok R p"
  then show "yields I V (f p)"
    by (cases p) (auto simp: prepared_ok_def intro: assms(3,4))
qed

lemma sequential_call_any:
  assumes "hooks_framed R config" and "tools_framed R (context_tools context)"
  shows "yields I any (runSequentialCall env context am config tc)"
  unfolding runSequentialCall_def
  by (intro yields_any tool_event_any prepareTool_split assms)
    (auto intro!: yields_ret yields_any execute_any finalize_any assms)

lemma sequential_any:
  assumes "hooks_framed R config" and "tools_framed R (context_tools context)"
  shows "yields I any (sequential_calls env context am config tcs fs ms)"
  by (induction tcs arbitrary: fs ms)
    (auto intro!: yields_ret yields_any sequential_call_any tool_event_any aborted_any assms)

lemma prepare_tasks_yields:
  assumes "hooks_framed R config" and "tools_framed R (context_tools context)"
  shows "yields I (list_all (task_ok R)) (prepare_tasks env context am config tcs)"
proof (induction tcs)
  case Nil
  show ?case by (auto intro: yields_ret)
next
  case (Cons tc tcs)
  have rest: "yields I (list_all (task_ok R)) (bindp (on_world (is_aborted env)) (\<lambda>aborted.
        if aborted then ret [entry]
        else bindp (prepare_tasks env context am config tcs) (\<lambda>rest. ret (entry # rest))))"
    if "task_ok R entry" for entry
    by (rule yields_any(1) [OF aborted_any])
      (use that Cons.IH in \<open>auto intro!: yields_ret yields_bindp [where U = "list_all (task_ok R)"]\<close>)
  show ?case
    unfolding prepare_tasks.simps
    by (intro yields_any tool_event_any prepareTool_split assms yields_bindp [where U = "task_ok R"] rest)
      (auto simp: Let_def task_ok_def intro!: yields_ret yields_any(2) tool_event_any)
qed

lemma task_step_yields:
  assumes "hooks_framed R config" and "task_ok R k"
  shows "yields I (task_ok R) (task_step env context am config k)"
  using assms
  by (cases k)
    (auto simp: task_ok_def intro!: yields_ret yields_any aborted_any execute_any finalize_any tool_event_any)

lemma finish_tasks_any:
  assumes "hooks_framed R config"
  shows "list_all (task_ok R) ks \<Longrightarrow> yields I any (finish_tasks env context am config ks)"
proof (induction ks)
  case (Cons k ks)
  then show ?case
    unfolding finish_tasks.simps
    by (intro yields_bindp [OF task_step_yields [OF assms]] yields_any(1) [of _ "finish_tasks _ _ _ _ _"] yields_ret)
      auto
qed (auto intro: yields_ret)

lemma run_tasks_any:
  assumes "hooks_framed R config"
  shows "list_all (task_ok R) ks \<Longrightarrow> yields I any (run_tasks env context am config schedule ks)"
proof (induction schedule arbitrary: ks)
  case Nil
  then show ?case by (simp add: finish_tasks_any assms)
next
  case (Cons i schedule)
  show ?case
  proof (cases "i < length ks")
    case True
    have upd: "list_all (task_ok R) (ks[i := k])" if "task_ok R k" for k
      using Cons.prems that True by (auto simp: list_all_length nth_list_update)
    from True Cons.prems have "task_ok R (ks ! i)" by (simp add: list_all_length)
    with True show ?thesis
      by (auto intro!: yields_bindp [OF task_step_yields] assms Cons.IH upd)
  next
    case False
    then show ?thesis using Cons by simp
  qed
qed

lemma publish_all_any: "yields I any (publish_all env ocs)"
  by (induction ocs) (auto intro!: yields_ret yields_any tool_event_any)

lemma truncated_any: "yields I any (failToolCallsFromTruncatedMessage env tcs)"
  by (induction tcs) (auto simp: Let_def intro!: yields_ret yields_any tool_event_any)

lemma executeToolCalls_any:
  assumes "hooks_framed R config" and "tools_framed R (context_tools context)"
  shows "yields I any (executeToolCalls env mode context am config)"
proof -
  have seq: "yields I any (executeToolCallsSequential env context am tcs config)" for tcs
    unfolding executeToolCallsSequential_def case_prod_beta
    by (intro yields_any sequential_any assms yields_ret) simp
  have par: "yields I any (executeToolCallsParallel env context am tcs config)" for tcs
    unfolding executeToolCallsParallel_def Let_def
    by (rule yields_bindp [OF prepare_tasks_yields [OF assms]])
      (intro yields_any clock_any run_tasks_any publish_all_any assms yields_ret; simp)
  show ?thesis
    unfolding executeToolCalls_def
    by (intro yields_any yields_liftp) (simp_all add: seq par)
qed

lemma batch_any: "state_ok R st \<Longrightarrow> yields I any (run_tool_batch env st m)"
  unfolding run_tool_batch_def
  by (intro yields_any yields_liftp)
    (auto simp: state_ok_def config_framed_def
      intro!: yields_ret yields_any truncated_any executeToolCalls_any)

text \<open>The loop.\<close>

lemma poll_any: "framed_opt R po \<Longrightarrow> yields I any (on_world (poll po))"
  by (intro on_world_any framed_poll)

lemma hook_any: "framed_fun R fo \<Longrightarrow> yields I any (on_world (case fo of None \<Rightarrow> ret d | Some f \<Rightarrow> f x))"
  by (auto simp: framed_fun_def intro!: on_world_any yields_ret split: option.splits)

lemma update_config: "config_framed R c \<Longrightarrow> config_framed R (apply_update u c)"
  by (simp add: config_framed_def apply_update_def hooks_framed_def)

lemma prepare_next_turn_yields:
  assumes "state_ok R st"
  shows "yields I (\<lambda>y. state_ok R (snd y)) (prepare_next_turn env st)"
proof (cases "ls_lastCompletedTurn st")
  case None
  with assms show ?thesis by (auto simp: prepare_next_turn_def intro: yields_ret)
next
  case (Some turn)
  let ?hook = "case lc_prepareNextTurn (ls_config st) of None \<Rightarrow> ret None | Some prepare \<Rightarrow> prepare turn"
  from assms have u: "update_framed R (lc_prepareNextTurn (ls_config st))"
    by (simp add: state_ok_def config_framed_def)
  then have "framed R ?hook"
    by (auto simp: update_framed_def framed_fun_def intro: framed_basic split: option.splits)
  moreover have "tools_framed R (context_tools c)"
    if "?hook w = (Inr (Some u), w')" "ru_context u = Some c" for w u w' c
    using that u by (auto simp: update_framed_def ret_def split: option.splits)
  ultimately have hook: "yields I (\<lambda>s. \<forall>u c. s = Some u \<longrightarrow> ru_context u = Some c \<longrightarrow> tools_framed R (context_tools c))
      (on_world ?hook)"
    by (intro on_world_yields) auto
  show ?thesis
    unfolding prepare_next_turn_def Some option.case Let_def case_prod_beta
  proof (rule yields_bindp [OF hook], rule yields_any(1), goal_cases)
    case (1 s)
    have "framed_opt R (lc_getSteeringMessages (ls_config (snd (case s of None \<Rightarrow> ([], st)
       | Some u \<Rightarrow> (opt_list (tu_messages u), st\<lparr>ls_context := (case ru_context u of None \<Rightarrow> ls_context st | Some c \<Rightarrow> c),
            ls_config := apply_update u (ls_config st)\<rparr>)))))"
      using assms update_config by (auto simp: state_ok_def config_framed_def split: option.split)
    then show ?case by (auto intro: poll_any yields_ret)
  next
    case (2 s pending)
    with assms show ?case
      by (intro yields_any(2) I_emit yields_ret)
        (auto simp: state_ok_def update_config split: option.split)
  qed
qed

lemma append_messages_yields:
  "state_ok R st \<Longrightarrow> yields I (state_ok R) (append_messages env ms st)"
  by (induction ms arbitrary: st)
    (auto simp: state_ok_def context_tools_def intro!: yields_ret yields_any(2) I_emit)

lemma prepare_request_yields:
  assumes "state_ok R st"
  shows "yields I (state_ok R) (on_world (prepare_request st))"
proof (rule on_world_yields)
  from assms have u: "update_framed R (lc_prepareRequest (ls_config st))"
    by (simp add: state_ok_def config_framed_def)
  then show "framed R (prepare_request st)"
    by (auto simp: prepare_request_def update_framed_def framed_fun_def
        intro!: framed_basic framed_bindp split: option.split)
  fix w st' w' assume p: "prepare_request st w = (Inr st', w')"
  show "state_ok R st'"
  proof (cases "lc_prepareRequest (ls_config st)")
    case None
    with p assms show ?thesis by (simp add: prepare_request_def ret_def)
  next
    case (Some f)
    note D = update_framedD [OF u [unfolded Some]]
    from Some p assms show ?thesis
      by (auto simp: prepare_request_def ret_def state_ok_def update_config dest: D
          elim!: bindp_InrE split: option.splits)
  qed
qed

lemma finish_turn_any: "state_ok R st \<Longrightarrow> yields I any (on_world (finish_turn st turn))"
  by (auto simp: finish_turn_def state_ok_def config_framed_def intro!: hook_any)

lemma finish_response_any:
  assumes "framed R (rs_result response)"
  shows "yields I any (finish_response env config response added messages)"
  unfolding finish_response_def Let_def
  by (intro yields_any on_world_any assms I_emit yields_ret) (auto intro: I_emit yields_ret)

lemma consume_any:
  assumes "framed R (rs_result response)"
  shows "\<forall>p\<in>set events. framed R p \<Longrightarrow> yields I any (consume_events env config response events added messages)"
proof (induction events arbitrary: added messages)
  case Nil
  show ?case by (simp add: finish_response_any assms)
next
  case (Cons p events)
  have IH: "yields I any (consume_events env config response events added messages)" for added messages
    using Cons by simp
  show ?case
    unfolding consume_events.simps
    by (rule yields_any(1) [OF on_world_any])
      (use Cons.prems in \<open>auto intro!: yields_any(2) I_emit IH finish_response_any assms split: assistant_event.split\<close>)
qed

lemma api_key_framed: "config_framed R c \<Longrightarrow> framed R (resolve_api_key c)"
  by (auto simp: resolve_api_key_def config_framed_def framed_fun_def intro!: framed_basic framed_bindp
      split: option.splits)

lemma stream_any:
  assumes fn: "stream_framed R fn" and c: "config_framed R config"
  shows "yields I (\<lambda>y. ac_tools (snd y) = ac_tools context) (streamAssistantResponse env fn context config)"
proof -
  have t: "framed R (case lc_transformContext config of
              None \<Rightarrow> ret (ac_messages context) | Some transform \<Rightarrow> transform (ac_messages context))"
    using c by (auto simp: config_framed_def framed_fun_def intro: framed_basic split: option.splits)
  have l: "framed R (lc_convertToLlm config ms)" for ms using c by (simp add: config_framed_def)
  have r: "yields I (\<lambda>resp. framed R (rs_result resp) \<and> (\<forall>p\<in>set (rs_events resp). framed R p))
      (on_world (fn model ms cfg))" for model ms cfg
    using fn unfolding stream_framed_def by (intro on_world_yields) blast+
  show ?thesis
    unfolding streamAssistantResponse_def Let_def
    by (rule yields_any(1) [OF on_world_any [OF t]], rule yields_any(1) [OF on_world_any [OF l]],
        rule yields_any(1) [OF on_world_any [OF api_key_framed [OF c]]], rule yields_bindp [OF r],
        rule yields_any(1) [OF consume_any])
      (auto intro: yields_ret)
qed

lemma complete_turn_yields:
  assumes "state_ok R st"
  shows "yields I (state_ok R \<circ> outcome_state) (complete_turn env st m)"
proof -
  have ok: "state_ok R (st\<lparr>ls_context := (ls_context st)\<lparr>ac_messages := ms\<rparr>, ls_newMessages := ns,
      ls_hasMoreToolCalls := h, ls_lastCompletedTurn := t\<rparr>)" for ms ns h t
    using assms by (simp add: state_ok_def context_tools_def)
  have ok': "state_ok R (st\<lparr>ls_context := (ls_context st)\<lparr>ac_messages := ms\<rparr>, ls_newMessages := ns,
      ls_hasMoreToolCalls := h, ls_lastCompletedTurn := t, ls_pendingMessages := p, ls_explicitContinuation := e\<rparr>)"
    for ms ns h t p e using assms by (simp add: state_ok_def context_tools_def)
  have steering: "framed_opt R (lc_getSteeringMessages (ls_config st))"
    using assms by (simp add: state_ok_def config_framed_def)
  show ?thesis
  proof (cases "failed_turn m")
    case True
    then show ?thesis
      unfolding complete_turn_def Let_def failed_turn_def
      by (simp only: if_True)
        (intro yields_any(2) finish_turn_any I_emit yields_ret assms,
         use assms in \<open>simp add: state_ok_def\<close>)
  next
    case False
    then show ?thesis
      unfolding complete_turn_def Let_def failed_turn_def
      by (simp only: if_False)
        (rule yields_any(1) [OF batch_any [OF assms]], rule yields_any(1) [OF finish_turn_any [OF ok]],
         rule yields_any(2) [OF I_emit],
         auto intro!: yields_any I_emit yields_ret poll_any steering simp: ok ok')
  qed
qed

lemma run_turn_yields:
  assumes fn: "stream_framed R fn" and st: "state_ok R st"
  shows "yields I (state_ok R \<circ> outcome_state) (run_turn env fn st)"
  unfolding run_turn_def case_prod_beta
proof (rule yields_bindp [OF prepare_next_turn_yields [OF st]], rule yields_any(1) [OF clock_any],
    rule yields_bindp [OF append_messages_yields], assumption, rule yields_bindp [OF prepare_request_yields])
  fix st2 :: "'w loop_state" assume "state_ok R st2"
  then show "state_ok R (st2\<lparr>ls_pendingMessages := []\<rparr>)" by (simp add: state_ok_def)
next
  fix st3 :: "'w loop_state" assume st3: "state_ok R st3"
  then have "config_framed R (ls_config st3)" by (simp add: state_ok_def)
  from stream_any [OF fn this]
  show "yields I (state_ok R \<circ> outcome_state)
     (bindp (streamAssistantResponse env fn (ls_context st3) (ls_config st3)) (\<lambda>z.
      complete_turn env (st3\<lparr>ls_context := snd z,
        ls_newMessages := ls_newMessages st3 @ [AssistantMsg (fst z)]\<rparr>) (fst z)))"
    by (rule yields_bindp) (use st3 in \<open>auto intro!: complete_turn_yields simp: state_ok_def context_tools_def\<close>)
qed

lemma run_loop_any:
  assumes fn: "stream_framed R fn"
  shows "state_ok R st \<Longrightarrow> yields I any (run_loop env fn fuel st)"
proof (induction fuel arbitrary: st)
  case 0
  show ?case by (auto intro: yields_ret)
next
  case (Suc fuel)
  from Suc.prems have f: "framed_opt R (lc_getFollowUpMessages (ls_config st))"
    by (simp add: state_ok_def config_framed_def)
  have turn: "yields I any (bindp (run_turn env fn st) (\<lambda>outcome. case outcome of
      RunOver st' \<Rightarrow> ret (Some (ls_newMessages st')) | RunOn st' \<Rightarrow> run_loop env fn fuel st'))"
    by (rule yields_bindp [OF run_turn_yields [OF fn Suc.prems]])
      (auto intro: yields_ret Suc.IH split: turn_outcome.split)
  have more: "state_ok R (st\<lparr>ls_explicitContinuation := e, ls_pendingMessages := p, ls_hasMoreToolCalls := h\<rparr>)"
    "state_ok R (st\<lparr>ls_explicitContinuation := e, ls_hasMoreToolCalls := h\<rparr>)" for e p h
    using Suc.prems by (simp_all add: state_ok_def)
  show ?case
    using turn by (auto intro!: yields_any(1) [OF poll_any [OF f]] yields_any(2) I_emit yields_ret Suc.IH more)
qed

lemma runLoop_any:
  assumes "stream_framed R fn" and "config_framed R config" and "tools_framed R (context_tools context)"
  shows "yields I any (runLoop env fn fuel context newMessages config)"
  unfolding runLoop_def
  by (rule yields_any(1) [OF poll_any]) (use assms in \<open>auto simp: config_framed_def state_ok_def intro!: run_loop_any\<close>)

lemma runAgentLoop_any:
  assumes "stream_framed R fn" and "config_framed R config" and "tools_framed R (context_tools context)"
  shows "yields I any (runAgentLoop env fn fuel prompts context config)"
  unfolding runAgentLoop_def Let_def emit_message_def [abs_def]
  by (intro yields_any(1) [OF clock_any] yields_any(2) I_emit yields_forp runLoop_any assms)
    (use assms in \<open>simp add: context_tools_def\<close>)

lemma runAgentLoopContinue_any:
  assumes "stream_framed R fn" and "config_framed R config" and "tools_framed R (context_tools context)"
  shows "yields I any (runAgentLoopContinue env fn fuel context config)"
  unfolding runAgentLoopContinue_def
  by (auto intro!: yields_throw yields_any(2) I_emit runLoop_any assms)

end

end
