(* ===== verification/Agent.thy ===== *)
theory Agent
  imports Run_Invariants
begin

text \<open>
  The \<open>Agent\<close> class of \<open>packages/agent/src/agent.ts\<close>: the transcript and run state it
  reduces loop events into, its steering and follow-up queues, and the life cycle of a run.

  What a run may change is the record \<open>agent_state\<close>; it is the world the loop's callbacks
  act on, with the application's own world \<open>'v\<close> inside. What stays fixed during a run
  (tools, hooks, listeners, the stream function and the clocks) is \<open>agent_options\<close>. An
  active run is the flag of its abort controller. The variable \<open>skipInitialSteeringPoll\<close>
  of a loop configuration belongs to the one active run and is kept in the state.
\<close>

section \<open>The pending message queue\<close>

datatype queue_mode = DrainAll | OneAtATime

record message_queue =
  pq_messages :: "agent_message list"
  pq_mode :: queue_mode

definition new_queue :: "queue_mode \<Rightarrow> message_queue" where
  "new_queue mode = \<lparr>pq_messages = [], pq_mode = mode\<rparr>"

definition pq_enqueue :: "agent_message \<Rightarrow> message_queue \<Rightarrow> message_queue" where
  "pq_enqueue message q = q\<lparr>pq_messages := pq_messages q @ [message]\<rparr>"

definition pq_hasItems :: "message_queue \<Rightarrow> bool" where
  "pq_hasItems q \<longleftrightarrow> length (pq_messages q) > 0"

definition pq_peek :: "message_queue \<Rightarrow> agent_message list" where
  "pq_peek q =
     (if pq_mode q = DrainAll then pq_messages q
      else case pq_messages q of [] \<Rightarrow> [] | first # _ \<Rightarrow> [first])"

definition pq_drain :: "message_queue \<Rightarrow> agent_message list \<times> message_queue" where
  "pq_drain q =
     (let drained = pq_peek q in (drained, q\<lparr>pq_messages := drop (length drained) (pq_messages q)\<rparr>))"

definition pq_clear :: "message_queue \<Rightarrow> message_queue" where
  "pq_clear q = q\<lparr>pq_messages := []\<rparr>"

section \<open>State and options\<close>

record 'v agent_state =
  ag_model :: model
  ag_thinkingLevel :: thinking_level
  ag_messages :: "agent_message list"
  ag_isStreaming :: bool
  ag_streamingMessage :: "agent_message option"
  ag_pendingToolCalls :: "string list"
  ag_errorMessage :: "string option"
  ag_steering :: message_queue
  ag_followUp :: message_queue
  ag_skipInitialSteeringPoll :: bool
  ag_activeRun :: "bool option"
  ag_world :: 'v

record 'v agent_options =
  ao_tools :: "'v agent_state agent_tool list"
  ao_convertToLlm :: "agent_message list \<Rightarrow> ('v agent_state, agent_message list) prog"
  ao_transformContext :: "(agent_message list \<Rightarrow> ('v agent_state, agent_message list) prog) option"
  ao_streamFunction :: "'v agent_state stream_fn"
  ao_getApiKey :: "(string \<Rightarrow> ('v agent_state, string option) prog) option"
  ao_hooks :: "'v agent_state tool_hooks"
  ao_finishTurn :: "('v agent_state turn_context \<Rightarrow> ('v agent_state, turn_decision option) prog) option"
  ao_prepareRequest ::
    "('v agent_state request_context \<Rightarrow> ('v agent_state, 'v agent_state request_update option) prog) option"
  ao_prepareNextTurn :: "('v agent_state, 'v agent_state turn_update option) prog option"
  ao_prepareNextTurnWithContext ::
    "('v agent_state turn_context \<Rightarrow> ('v agent_state, 'v agent_state turn_update option) prog) option"
  ao_toolExecution :: execution_mode
  ao_listeners :: "(agent_event \<Rightarrow> ('v agent_state, unit) prog) list"
  ao_now :: "'v \<Rightarrow> int"
  ao_perf :: "'v \<Rightarrow> rat"
  ao_validate :: "'v agent_state agent_tool \<Rightarrow> tool_call \<Rightarrow> json exc"
  ao_schedule :: "'v \<Rightarrow> nat list"

definition defaultConvertToLlm :: "agent_message list \<Rightarrow> agent_message list" where
  "defaultConvertToLlm messages = filter is_llm_message messages"

definition EMPTY_USAGE :: usage where
  "EMPTY_USAGE = \<lparr>us_input = 0, us_output = 0, us_cacheRead = 0, us_cacheWrite = 0,
     us_cacheWrite1h = None, us_reasoning = None, us_totalTokens = 0,
     us_cost = \<lparr>uc_input = 0, uc_output = 0, uc_cacheRead = 0, uc_cacheWrite = 0, uc_total = 0\<rparr>\<rparr>"

definition DEFAULT_MODEL :: model where
  "DEFAULT_MODEL = \<lparr>md_id = ''unknown'', md_name = ''unknown'', md_api = ''unknown'',
     md_provider = ''unknown'', md_baseUrl = [], md_reasoning = False, md_contextWindow = 0,
     md_maxTokens = 0\<rparr>"

text \<open>The transcript \<open>createMutableAgentState\<close> starts with.\<close>

definition initial_messages :: "string option \<Rightarrow> 'a tool_scheme list \<Rightarrow> agent_message list \<Rightarrow> agent_message list" where
  "initial_messages systemPrompt tools messages =
     (case createInitialSystemMessage systemPrompt (Some (map toToolDeclaration tools)) of
        None \<Rightarrow> messages
      | Some m \<Rightarrow> if getInitialSystemMessage messages = None then SystemMsg m # messages else messages)"

definition createAgent ::
  "string option \<Rightarrow> model option \<Rightarrow> thinking_level option \<Rightarrow> 'a tool_scheme list \<Rightarrow> agent_message list
   \<Rightarrow> queue_mode option \<Rightarrow> queue_mode option \<Rightarrow> 'v \<Rightarrow> 'v agent_state" where
  "createAgent systemPrompt model thinkingLevel tools messages steeringMode followUpMode v =
     \<lparr>ag_model = (case model of None \<Rightarrow> DEFAULT_MODEL | Some m \<Rightarrow> m),
      ag_thinkingLevel = (case thinkingLevel of None \<Rightarrow> TLOff | Some l \<Rightarrow> l),
      ag_messages = initial_messages systemPrompt tools messages,
      ag_isStreaming = False, ag_streamingMessage = None, ag_pendingToolCalls = [],
      ag_errorMessage = None,
      ag_steering = new_queue (case steeringMode of None \<Rightarrow> OneAtATime | Some m \<Rightarrow> m),
      ag_followUp = new_queue (case followUpMode of None \<Rightarrow> OneAtATime | Some m \<Rightarrow> m),
      ag_skipInitialSteeringPoll = False, ag_activeRun = None, ag_world = v\<rparr>"

definition agent_systemPrompt :: "'v agent_state \<Rightarrow> string" where
  "agent_systemPrompt a = getCurrentSystemPrompt (ag_messages a)"

section \<open>Queues of the agent\<close>

definition steer :: "agent_message \<Rightarrow> 'v agent_state \<Rightarrow> 'v agent_state" where
  "steer message a = a\<lparr>ag_steering := pq_enqueue message (ag_steering a)\<rparr>"

definition followUp :: "agent_message \<Rightarrow> 'v agent_state \<Rightarrow> 'v agent_state" where
  "followUp message a = a\<lparr>ag_followUp := pq_enqueue message (ag_followUp a)\<rparr>"

definition clearSteeringQueue :: "'v agent_state \<Rightarrow> 'v agent_state" where
  "clearSteeringQueue a = a\<lparr>ag_steering := pq_clear (ag_steering a)\<rparr>"

definition clearFollowUpQueue :: "'v agent_state \<Rightarrow> 'v agent_state" where
  "clearFollowUpQueue a = a\<lparr>ag_followUp := pq_clear (ag_followUp a)\<rparr>"

definition clearAllQueues :: "'v agent_state \<Rightarrow> 'v agent_state" where
  "clearAllQueues a = clearFollowUpQueue (clearSteeringQueue a)"

definition hasQueuedMessages :: "'v agent_state \<Rightarrow> bool" where
  "hasQueuedMessages a \<longleftrightarrow> pq_hasItems (ag_steering a) \<or> pq_hasItems (ag_followUp a)"

definition peekQueuedMessages :: "'v agent_state \<Rightarrow> agent_message list" where
  "peekQueuedMessages a =
     (let steering = pq_peek (ag_steering a)
      in if length steering > 0 then steering else pq_peek (ag_followUp a))"

definition abort :: "'v agent_state \<Rightarrow> 'v agent_state" where
  "abort a = (case ag_activeRun a of None \<Rightarrow> a | Some _ \<Rightarrow> a\<lparr>ag_activeRun := Some True\<rparr>)"

definition reset :: "('v agent_state, unit) prog" where
  "reset a =
     (if ag_activeRun a \<noteq> None
      then (Inl ''Agent is already processing. Wait for completion before resetting.'', a)
      else (Inr (), clearSteeringQueue (clearFollowUpQueue
             (a\<lparr>ag_messages := (case getCurrentSystemMessage (ag_messages a) of
                    None \<Rightarrow> [] | Some baseline \<Rightarrow> [SystemMsg baseline]),
                ag_isStreaming := False, ag_streamingMessage := None,
                ag_pendingToolCalls := [], ag_errorMessage := None\<rparr>))))"

definition drain_steering :: "('v agent_state, agent_message list) prog" where
  "drain_steering a = (case pq_drain (ag_steering a) of (ms, q) \<Rightarrow> (Inr ms, a\<lparr>ag_steering := q\<rparr>))"

definition drain_followUp :: "('v agent_state, agent_message list) prog" where
  "drain_followUp a = (case pq_drain (ag_followUp a) of (ms, q) \<Rightarrow> (Inr ms, a\<lparr>ag_followUp := q\<rparr>))"

section \<open>Reducing events\<close>

fun reduce_event :: "agent_event \<Rightarrow> 'v agent_state \<Rightarrow> 'v agent_state" where
  "reduce_event (MessageStart m) a = a\<lparr>ag_streamingMessage := Some m\<rparr>"
| "reduce_event (MessageUpdate m _) a = a\<lparr>ag_streamingMessage := Some m\<rparr>"
| "reduce_event (MessageEnd m) a =
     a\<lparr>ag_streamingMessage := None, ag_messages := ag_messages a @ [m]\<rparr>"
| "reduce_event (ToolExecutionStart i _ _) a =
     a\<lparr>ag_pendingToolCalls := set_add i (ag_pendingToolCalls a)\<rparr>"
| "reduce_event (ToolExecutionEnd i _ _ _ _) a =
     a\<lparr>ag_pendingToolCalls := removeAll i (ag_pendingToolCalls a)\<rparr>"
| "reduce_event (TurnEnd m _) a =
     (case m of
        AssistantMsg am \<Rightarrow>
          (case am_errorMessage am of
             Some e \<Rightarrow> if e \<noteq> [] then a\<lparr>ag_errorMessage := Some e\<rparr> else a
           | None \<Rightarrow> a)
      | _ \<Rightarrow> a)"
| "reduce_event (AgentEnd _) a = a\<lparr>ag_streamingMessage := None\<rparr>"
| "reduce_event _ a = a"

definition processEvents :: "'v agent_options \<Rightarrow> agent_event \<Rightarrow> ('v agent_state, unit) prog" where
  "processEvents opts event a =
     (let a' = reduce_event event a
      in if ag_activeRun a' = None then (Inl ''Agent listener invoked outside active run'', a')
         else forp (\<lambda>listener. listener event) (ao_listeners opts) a')"

section \<open>Runs\<close>

definition createContextSnapshot :: "'v agent_options \<Rightarrow> 'v agent_state \<Rightarrow> 'v agent_state agent_context" where
  "createContextSnapshot opts a = \<lparr>ac_messages = ag_messages a, ac_tools = Some (ao_tools opts)\<rparr>"

definition poll_steering :: "('v agent_state, agent_message list) prog" where
  "poll_steering a =
     (if ag_skipInitialSteeringPoll a then (Inr [], a\<lparr>ag_skipInitialSteeringPoll := False\<rparr>)
      else drain_steering a)"

definition createLoopConfig :: "'v agent_options \<Rightarrow> 'v agent_state \<Rightarrow> 'v agent_state loop_config" where
  "createLoopConfig opts a =
     \<lparr>hk_beforeToolCall = hk_beforeToolCall (ao_hooks opts),
      hk_afterToolCall = hk_afterToolCall (ao_hooks opts),
      lc_model = ag_model a,
      lc_reasoning = (if ag_thinkingLevel a = TLOff then None else Some (ag_thinkingLevel a)),
      lc_apiKey = None,
      lc_convertToLlm = ao_convertToLlm opts,
      lc_transformContext = ao_transformContext opts,
      lc_getApiKey = ao_getApiKey opts,
      lc_finishTurn = ao_finishTurn opts,
      lc_prepareRequest = ao_prepareRequest opts,
      lc_prepareNextTurn =
        (case ao_prepareNextTurnWithContext opts of
           Some prepare \<Rightarrow> Some prepare
         | None \<Rightarrow> map_option (\<lambda>prepare _. prepare) (ao_prepareNextTurn opts)),
      lc_getSteeringMessages = Some poll_steering,
      lc_getFollowUpMessages = Some drain_followUp,
      lc_toolExecution = Some (ao_toolExecution opts)\<rparr>"

definition agent_env :: "'v agent_options \<Rightarrow> 'v agent_state env" where
  "agent_env opts =
     \<lparr>env_now = ao_now opts \<circ> ag_world, env_perf = ao_perf opts \<circ> ag_world,
      env_aborted = (\<lambda>a. ag_activeRun a = Some True), env_validate = ao_validate opts,
      env_schedule = ao_schedule opts \<circ> ag_world, env_sink = processEvents opts\<rparr>"

definition finishRun :: "'v agent_state \<Rightarrow> 'v agent_state" where
  "finishRun a = a\<lparr>ag_isStreaming := False, ag_streamingMessage := None,
     ag_pendingToolCalls := [], ag_activeRun := None\<rparr>"

definition failure_message :: "js_error \<Rightarrow> bool \<Rightarrow> int \<Rightarrow> model \<Rightarrow> assistant_message" where
  "failure_message e aborted now model =
     \<lparr>am_content = Blocks [TextContent [] None], am_api = md_api model, am_provider = md_provider model,
      am_model = md_id model, am_responseModel = None, am_responseId = None,
      am_providerThinkingLevel = None, am_thinkingLevel = None, am_diagnostics = None,
      am_usage = Some EMPTY_USAGE, am_stopReason = (if aborted then StopAborted else StopError),
      am_deferred = None, am_errorMessage = Some e, am_rawStopReason = None, am_endTurn = None,
      am_timestamp = now, am_durationMs = None\<rparr>"

definition handleRunFailure :: "'v agent_options \<Rightarrow> js_error \<Rightarrow> bool \<Rightarrow> ('v agent_state, unit) prog" where
  "handleRunFailure opts e aborted =
     bindp (readp (\<lambda>a. failure_message e aborted (ao_now opts (ag_world a)) (ag_model a))) (\<lambda>m.
     seqp (processEvents opts (MessageStart (AssistantMsg m)))
       (seqp (processEvents opts (MessageEnd (AssistantMsg m)))
         (seqp (processEvents opts (TurnEnd (AssistantMsg m) []))
           (processEvents opts (AgentEnd [AssistantMsg m])))))"

text \<open>
  The executor is given fuel through the loop; \<open>Inr None\<close> says that the run is still
  going on, so neither the failure handler nor \<open>finishRun\<close> has run.
\<close>

definition runWithLifecycle ::
  "'v agent_options \<Rightarrow> ('v agent_state, 'r option) prog \<Rightarrow> ('v agent_state, unit option) prog" where
  "runWithLifecycle opts executor a =
     (if ag_activeRun a \<noteq> None then (Inl ''Agent is already processing.'', a)
      else case executor (a\<lparr>ag_activeRun := Some False, ag_isStreaming := True,
                  ag_streamingMessage := None, ag_errorMessage := None\<rparr>) of
             (Inr None, a') \<Rightarrow> (Inr None, a')
           | (Inr (Some _), a') \<Rightarrow> (Inr (Some ()), finishRun a')
           | (Inl e, a') \<Rightarrow>
               (case handleRunFailure opts e (ag_activeRun a' = Some True) a' of
                  (Inr _, a'') \<Rightarrow> (Inr (Some ()), finishRun a'')
                | (Inl e', a'') \<Rightarrow> (Inl e', finishRun a'')))"

text \<open>A program over runs as a program over the agent: its log is not part of the agent.\<close>

definition as_run :: "('w run, 'a) prog \<Rightarrow> ('w, 'a) prog" where
  "as_run m w = (case m \<lparr>run_log = [], run_world = w\<rparr> of (x, r) \<Rightarrow> (x, run_world r))"

definition runPromptMessages ::
  "'v agent_options \<Rightarrow> nat \<Rightarrow> bool \<Rightarrow> agent_message list \<Rightarrow> ('v agent_state, unit option) prog" where
  "runPromptMessages opts fuel skipInitialSteeringPoll messages =
     runWithLifecycle opts (\<lambda>a.
       let a' = a\<lparr>ag_skipInitialSteeringPoll := skipInitialSteeringPoll\<rparr>
       in as_run (runAgentLoop (agent_env opts) (ao_streamFunction opts) fuel messages
            (createContextSnapshot opts a') (createLoopConfig opts a')) a')"

definition runContinuation :: "'v agent_options \<Rightarrow> nat \<Rightarrow> ('v agent_state, unit option) prog" where
  "runContinuation opts fuel =
     runWithLifecycle opts (\<lambda>a.
       let a' = a\<lparr>ag_skipInitialSteeringPoll := False\<rparr>
       in as_run (runAgentLoopContinue (agent_env opts) (ao_streamFunction opts) fuel
            (createContextSnapshot opts a') (createLoopConfig opts a')) a')"

datatype prompt_input = PromptText string "block list" | PromptMessage agent_message | PromptBatch "agent_message list"

fun normalizePromptInput :: "int \<Rightarrow> prompt_input \<Rightarrow> agent_message list" where
  "normalizePromptInput now (PromptBatch ms) = ms"
| "normalizePromptInput now (PromptMessage m) = [m]"
| "normalizePromptInput now (PromptText input images) =
     [UserMsg \<lparr>um_content = Blocks (TextContent input None # images), um_timestamp = now\<rparr>]"

definition prompt :: "'v agent_options \<Rightarrow> nat \<Rightarrow> prompt_input \<Rightarrow> ('v agent_state, unit option) prog" where
  "prompt opts fuel input a =
     (if ag_activeRun a \<noteq> None
      then (Inl (''Agent is already processing a prompt. Use steer() or followUp() to queue messages, ''
                 @ ''or wait for completion.''), a)
      else runPromptMessages opts fuel False (normalizePromptInput (ao_now opts (ag_world a)) input) a)"

definition continue_run :: "'v agent_options \<Rightarrow> nat \<Rightarrow> ('v agent_state, unit option) prog" where
  "continue_run opts fuel a =
     (if ag_activeRun a \<noteq> None
      then (Inl ''Agent is already processing. Wait for completion before continuing.'', a)
      else if ag_messages a = [] \<or> list_all is_system (ag_messages a)
      then (Inl ''No messages to continue from'', a)
      else if is_assistant (last (ag_messages a))
      then (case drain_steering a of
              (Inl e, a1) \<Rightarrow> (Inl e, a1)
            | (Inr queuedSteering, a1) \<Rightarrow>
                if queuedSteering \<noteq> [] then runPromptMessages opts fuel True queuedSteering a1
                else (case drain_followUp a1 of
                        (Inl e, a2) \<Rightarrow> (Inl e, a2)
                      | (Inr queuedFollowUps, a2) \<Rightarrow>
                          if queuedFollowUps \<noteq> [] then runPromptMessages opts fuel False queuedFollowUps a2
                          else (Inl ''Cannot continue from message role: assistant'', a2)))
      else runContinuation opts fuel a)"

section \<open>The agent state mirrors the event log\<close>

text \<open>
  The part of the state that events write. Callbacks of the application may queue
  messages, abort the run and act on their own world, but not write it nor end the run:
  that is \<open>agent_frame\<close>.
\<close>

definition agent_view ::
  "'v agent_state \<Rightarrow> agent_message list \<times> agent_message option \<times> string list \<times> string option" where
  "agent_view a = (ag_messages a, ag_streamingMessage a, ag_pendingToolCalls a, ag_errorMessage a)"

definition agent_frame :: "'v agent_state \<Rightarrow> 'v agent_state \<Rightarrow> bool" where
  "agent_frame a a' \<longleftrightarrow> agent_view a' = agent_view a \<and> (ag_activeRun a' = None \<longleftrightarrow> ag_activeRun a = None)"

definition options_framed :: "'v agent_options \<Rightarrow> bool" where
  "options_framed opts \<longleftrightarrow>
     tools_framed agent_frame (ao_tools opts) \<and> hooks_framed agent_frame (ao_hooks opts) \<and>
     (\<forall>ms. framed agent_frame (ao_convertToLlm opts ms)) \<and>
     framed_fun agent_frame (ao_transformContext opts) \<and> framed_fun agent_frame (ao_getApiKey opts) \<and>
     framed_fun agent_frame (ao_finishTurn opts) \<and> update_framed agent_frame (ao_prepareRequest opts) \<and>
     update_framed agent_frame (map_option (\<lambda>p (_ :: unit). p) (ao_prepareNextTurn opts)) \<and>
     update_framed agent_frame (ao_prepareNextTurnWithContext opts) \<and>
     stream_framed agent_frame (ao_streamFunction opts) \<and>
     (\<forall>l\<in>set (ao_listeners opts). \<forall>e. framed agent_frame (l e))"

definition mirrors :: "'v agent_state \<Rightarrow> 'v agent_state run \<Rightarrow> bool" where
  "mirrors a r \<longleftrightarrow> agent_view (run_world r) = agent_view (fold reduce_event (run_log r) a) \<and>
     ag_activeRun (run_world r) \<noteq> None"

lemma reduce_event_view:
  "agent_view a = agent_view b \<Longrightarrow> agent_view (reduce_event e a) = agent_view (reduce_event e b)"
  by (cases e) (auto simp: agent_view_def split: agent_message.split option.split)

lemma reduce_event_active [simp]: "ag_activeRun (reduce_event e a) = ag_activeRun a"
  by (cases e) (auto split: agent_message.split option.split)

lemma reduce_events_messages:
  "ag_messages (fold reduce_event l a) = ag_messages a @ ended_messages l"
proof (induction l arbitrary: a)
  case (Cons e l)
  have "ag_messages (reduce_event e a) = ag_messages a @ ended_messages [e]"
    by (cases e) (auto split: agent_message.split option.split)
  with Cons show ?case by simp
qed simp

lemma agent_frame_world: "world_frame agent_frame"
  by unfold_locales (auto simp: agent_frame_def)

interpretation af: world_frame agent_frame
  by (rule agent_frame_world)

lemma framed_forp: "(\<And>x. x \<in> set xs \<Longrightarrow> framed agent_frame (f x)) \<Longrightarrow> framed agent_frame (forp f xs)"
  by (induction xs) (auto simp: seqp_def intro!: af.framed_basic af.framed_bindp)

lemma processEvents_view:
  assumes "options_framed opts" and "ag_activeRun a \<noteq> None"
  shows "agent_view (snd (processEvents opts e a)) = agent_view (reduce_event e a) \<and>
     ag_activeRun (snd (processEvents opts e a)) \<noteq> None"
proof -
  have "framed agent_frame (forp (\<lambda>listener. listener e) (ao_listeners opts))"
    using assms(1) by (intro framed_forp) (auto simp: options_framed_def)
  then have "agent_frame (reduce_event e a) (snd (forp (\<lambda>listener. listener e) (ao_listeners opts) (reduce_event e a)))"
    by (simp add: framed_def)
  with assms(2) show ?thesis by (auto simp: processEvents_def agent_frame_def Let_def)
qed

text \<open>The runs of an agent whose callbacks keep the frame.\<close>

interpretation agent_run: run_invariant agent_frame "agent_env opts" "\<lambda>r. options_framed opts \<and> mirrors a r"
  for opts a
proof (intro run_invariant.intro agent_frame_world run_invariant_axioms.intro)
  fix r :: "'a agent_state run" and w
  assume "options_framed opts \<and> mirrors a r" "agent_frame (run_world r) w"
  then show "options_framed opts \<and> mirrors a (r\<lparr>run_world := w\<rparr>)" by (auto simp: mirrors_def agent_frame_def)
next
  fix e
  show "yields (\<lambda>r. options_framed opts \<and> mirrors a r) any (emit (agent_env opts) e)"
    unfolding yields_def
  proof (intro allI impI conjI)
    fix r assume m: "options_framed opts \<and> mirrors a r"
    then have "ag_activeRun (run_world r) \<noteq> None" by (simp add: mirrors_def)
    from processEvents_view [OF _ this, of opts e] m
      reduce_event_view [of "run_world r" "fold reduce_event (run_log r) a" e]
    show "options_framed opts" "mirrors a (snd (emit (agent_env opts) e r))"
      by (auto simp: mirrors_def emit_def agent_env_def split: prod.split)
  qed auto
qed

lemma agent_polls_framed: "framed agent_frame poll_steering" "framed agent_frame drain_followUp"
  "framed agent_frame drain_steering"
  by (auto simp: framed_def poll_steering_def drain_steering_def drain_followUp_def agent_frame_def
      agent_view_def split: prod.split)

lemma createLoopConfig_framed:
  assumes "options_framed opts"
  shows "config_framed agent_frame (createLoopConfig opts a)"
proof -
  have "update_framed agent_frame (case ao_prepareNextTurnWithContext opts of
           Some prepare \<Rightarrow> Some prepare
         | None \<Rightarrow> map_option (\<lambda>prepare _. prepare) (ao_prepareNextTurn opts))"
    using assms
    by (auto simp: options_framed_def update_framed_def framed_fun_def split: option.splits)
  with assms agent_polls_framed show ?thesis
    by (auto simp: config_framed_def options_framed_def createLoopConfig_def hooks_framed_def framed_opt_def)
qed

lemma snapshot_framed:
  "options_framed opts \<Longrightarrow> tools_framed agent_frame (context_tools (createContextSnapshot opts a))"
  by (simp add: createContextSnapshot_def context_tools_def options_framed_def)

text \<open>
  Whether the loop returns or throws, after it the agent's transcript, streaming message,
  pending tool calls and error are the reduction of the events the run emitted.
\<close>

lemma agent_loop_mirrors:
  assumes "options_framed opts" and "ag_activeRun a \<noteq> None"
    and "m = runAgentLoop (agent_env opts) (ao_streamFunction opts) fuel prompts (createContextSnapshot opts b) (createLoopConfig opts b)
      \<or> m = runAgentLoopContinue (agent_env opts) (ao_streamFunction opts) fuel (createContextSnapshot opts b) (createLoopConfig opts b)"
    and "m \<lparr>run_log = [], run_world = a\<rparr> = (x, r)"
  shows "mirrors a r"
proof -
  have fn: "stream_framed agent_frame (ao_streamFunction opts)"
    using assms(1) by (simp add: options_framed_def)
  have "yields (\<lambda>r. options_framed opts \<and> mirrors a r) any m"
    using assms(3)
      agent_run.runAgentLoop_any [OF fn createLoopConfig_framed [OF assms(1)] snapshot_framed [OF assms(1)]]
      agent_run.runAgentLoopContinue_any [OF fn createLoopConfig_framed [OF assms(1)] snapshot_framed [OF assms(1)]]
    by blast
  moreover have "options_framed opts \<and> mirrors a \<lparr>run_log = [], run_world = a\<rparr>"
    using assms(1,2) by (simp add: mirrors_def)
  ultimately show ?thesis using assms(4) unfolding yields_def by (metis snd_conv)
qed

section \<open>The queues as a specification\<close>

datatype queue_op = OpEnqueue agent_message | OpDrain | OpMode queue_mode

fun queue_step :: "queue_op \<Rightarrow> agent_message list list \<times> message_queue \<Rightarrow> agent_message list list \<times> message_queue" where
  "queue_step (OpEnqueue m) (out, q) = (out, pq_enqueue m q)"
| "queue_step OpDrain (out, q) = (case pq_drain q of (ms, q') \<Rightarrow> (out @ [ms], q'))"
| "queue_step (OpMode mode) (out, q) = (out, q\<lparr>pq_mode := mode\<rparr>)"

fun enqueued :: "queue_op list \<Rightarrow> agent_message list" where
  "enqueued [] = []"
| "enqueued (OpEnqueue m # ops) = m # enqueued ops"
| "enqueued (_ # ops) = enqueued ops"

lemma pq_drain_split: "fst (pq_drain q) @ pq_messages (snd (pq_drain q)) = pq_messages q"
  by (simp add: pq_drain_def pq_peek_def Let_def split: list.split)

lemma queue_run_content:
  "concat (fst (fold queue_step ops (out, q))) @ pq_messages (snd (fold queue_step ops (out, q))) =
   concat out @ pq_messages q @ enqueued ops"
proof (induction ops arbitrary: out q)
  case (Cons op ops)
  show ?case
  proof (cases op)
    case OpDrain
    then show ?thesis
      using Cons.IH [of "out @ [fst (pq_drain q)]" "snd (pq_drain q)"] pq_drain_split [of q]
      by (simp add: case_prod_beta)
  qed (use Cons.IH in \<open>simp_all add: pq_enqueue_def\<close>)
qed simp

section \<open>Runs end idle\<close>

definition idle :: "'v agent_state \<Rightarrow> bool" where
  "idle a \<longleftrightarrow> ag_activeRun a = None \<and> \<not> ag_isStreaming a \<and> ag_streamingMessage a = None \<and>
     ag_pendingToolCalls a = []"

lemma finishRun_idle [simp]: "idle (finishRun a)"
  by (simp add: idle_def finishRun_def)

lemma finishRun_messages [simp]: "ag_messages (finishRun a) = ag_messages a"
  by (simp add: finishRun_def)

lemma runWithLifecycle_idle:
  assumes "runWithLifecycle opts executor a = (x, a')" and "ag_activeRun a = None" and "x \<noteq> Inr None"
  shows "idle a'"
  using assms by (auto simp: runWithLifecycle_def split: prod.splits sum.splits option.splits)

lemma runWithLifecycle_busy:
  "ag_activeRun a \<noteq> None \<Longrightarrow> runWithLifecycle opts executor a = (Inl ''Agent is already processing.'', a)"
  by (simp add: runWithLifecycle_def)

text \<open>The failure handler records one failed assistant message, and its error in the state.\<close>

lemma handleRunFailure_messages:
  assumes "options_framed opts" and "ag_activeRun a \<noteq> None"
    and "handleRunFailure opts e aborted a = (Inr (), a')"
  shows "ag_messages a' = ag_messages a @ [AssistantMsg (failure_message e aborted (ao_now opts (ag_world a)) (ag_model a))] \<and>
    (if e = [] then True else ag_errorMessage a' = Some e)"
proof -
  let ?m = "failure_message e aborted (ao_now opts (ag_world a)) (ag_model a)"
  have err: "ag_errorMessage a2 = ag_errorMessage (reduce_event ev a1)"
    if "processEvents opts ev a1 = (r, a2)" "ag_activeRun a1 \<noteq> None" for ev r a1 a2
    using processEvents_view [OF assms(1) that(2), of ev] that(1) by (simp add: agent_view_def)
  have step: "ag_messages a2 = ag_messages a1 @ ended_messages [ev] \<and> ag_activeRun a2 \<noteq> None"
    if "processEvents opts ev a1 = (r, a2)" "ag_activeRun a1 \<noteq> None" for ev r a1 a2
    using processEvents_view [OF assms(1) that(2), of ev] that(1) reduce_events_messages [of "[ev]" a1]
    by (simp add: agent_view_def)
  from assms(3) obtain a1 a2 a3 where
    "processEvents opts (MessageStart (AssistantMsg ?m)) a = (Inr (), a1)"
    "processEvents opts (MessageEnd (AssistantMsg ?m)) a1 = (Inr (), a2)"
    and turn: "processEvents opts (TurnEnd (AssistantMsg ?m) []) a2 = (Inr (), a3)"
    and ends: "processEvents opts (AgentEnd [AssistantMsg ?m]) a3 = (Inr (), a')"
    by (auto simp: handleRunFailure_def bindp_def readp_def elim!: seqp_InrE)
  with assms(2) have "ag_activeRun a1 \<noteq> None" "ag_activeRun a2 \<noteq> None" "ag_activeRun a3 \<noteq> None"
      "ag_messages a' = ag_messages a @ [AssistantMsg ?m]"
    by (auto dest!: step)
  moreover have "ag_errorMessage a' = ag_errorMessage (reduce_event (TurnEnd (AssistantMsg ?m) []) a2)"
    using err [OF ends] err [OF turn] calculation by simp
  moreover have "am_errorMessage ?m = Some e" by (simp add: failure_message_def)
  ultimately show ?thesis by auto
qed

lemma handleRunFailure_returns:
  assumes "options_framed opts" and "ag_activeRun a \<noteq> None"
    and quiet: "\<forall>l\<in>set (ao_listeners opts). \<forall>e. returns (l e)"
  shows "\<exists>a'. handleRunFailure opts e aborted a = (Inr (), a')"
proof -
  have listeners: "returns (forp (\<lambda>listener. listener ev) ls)"
    if "\<forall>l\<in>set ls. \<forall>e. returns (l e)" for ev ls
    using that by (induction ls) (auto intro!: returns_intros)
  have step: "\<exists>a2. processEvents opts ev a1 = (Inr (), a2) \<and> ag_activeRun a2 \<noteq> None"
    if "ag_activeRun a1 \<noteq> None" for ev a1
  proof -
    from listeners [OF quiet, of ev] obtain u a2 where
      "forp (\<lambda>listener. listener ev) (ao_listeners opts) (reduce_event ev a1) = (Inr u, a2)"
      by (rule returnsD)
    with that processEvents_view [OF assms(1) that, of ev] show ?thesis
      by (auto simp: processEvents_def Let_def)
  qed
  let ?m = "failure_message e aborted (ao_now opts (ag_world a)) (ag_model a)"
  from step [OF assms(2)] obtain a1 where 1: "processEvents opts (MessageStart (AssistantMsg ?m)) a = (Inr (), a1)"
    "ag_activeRun a1 \<noteq> None" by blast
  from step [OF 1(2)] obtain a2 where 2: "processEvents opts (MessageEnd (AssistantMsg ?m)) a1 = (Inr (), a2)"
    "ag_activeRun a2 \<noteq> None" by blast
  from step [OF 2(2)] obtain a3 where 3: "processEvents opts (TurnEnd (AssistantMsg ?m) []) a2 = (Inr (), a3)"
    "ag_activeRun a3 \<noteq> None" by blast
  from step [OF 3(2)] obtain a4 where 4: "processEvents opts (AgentEnd [AssistantMsg ?m]) a3 = (Inr (), a4)" by blast
  from 1 2 3 4 show ?thesis by (simp add: handleRunFailure_def bindp_def seqp_def readp_def)
qed

section \<open>Properties of the agent\<close>

text \<open>An agent for the witnesses.\<close>

definition demo_options :: "nat agent_options" where
  "demo_options = \<lparr>ao_tools = [], ao_convertToLlm = (\<lambda>ms. ret (defaultConvertToLlm ms)),
     ao_transformContext = None,
     ao_streamFunction = (\<lambda>model ms config. ret \<lparr>rs_events = [],
        rs_result = ret (demo_assistant [TextContent ''done'' None] StopStop)\<rparr>),
     ao_getApiKey = None,
     ao_hooks = \<lparr>hk_beforeToolCall = None, hk_afterToolCall = None\<rparr>, ao_finishTurn = None,
     ao_prepareRequest = None, ao_prepareNextTurn = None, ao_prepareNextTurnWithContext = None,
     ao_toolExecution = Parallel,
     ao_listeners = [\<lambda>e a. (Inr (), a\<lparr>ag_world := Suc (ag_world a)\<rparr>)],
     ao_now = int, ao_perf = of_nat, ao_validate = (\<lambda>t tc. Inr (tc_arguments tc)), ao_schedule = (\<lambda>_. [])\<rparr>"

definition demo_agent :: "nat agent_state" where
  "demo_agent = createAgent (Some ''Be brief.'') (Some demo_model) None ([] :: tool list) [] None None 0"

lemma demo_options_framed: "options_framed demo_options"
  by (auto simp: demo_options_def options_framed_def tools_framed_def hooks_framed_def framed_fun_def
      update_framed_def stream_framed_def framed_def ret_def agent_frame_def agent_view_def)

text \<open>
  The steering and follow-up queues are FIFO whatever the drain mode and however it is
  switched: over any sequence of enqueues, drains and mode changes, the drained batches in
  order followed by what is still queued are exactly the enqueued messages in order.
\<close>

theorem pending_queue_fifo:
  "concat (fst (fold queue_step ops ([], new_queue mode))) @
     pq_messages (snd (fold queue_step ops ([], new_queue mode))) = enqueued ops"
  using queue_run_content [of ops "[]" "new_queue mode"] by (simp add: new_queue_def)

text \<open>
  A drain hands out what \<open>peek\<close> showed: everything in mode \<open>all\<close>, and in mode
  one-at-a-time the oldest message alone; it is empty only when the queue is.
\<close>

theorem drain_respects_mode:
  "fst (pq_drain q) = pq_peek q \<and>
   (if pq_mode q = DrainAll then fst (pq_drain q) = pq_messages q
    else fst (pq_drain q) = take 1 (pq_messages q)) \<and>
   (fst (pq_drain q) = [] \<longleftrightarrow> \<not> pq_hasItems q)"
  by (auto simp: pq_drain_def pq_peek_def pq_hasItems_def Let_def split: list.split)

text \<open>
  A prompt to an idle agent that comes back, by returning or by throwing, leaves the
  agent idle: no active run, not streaming, no streaming message, no pending tool call,
  whatever the hooks, tools, listeners and provider did.
\<close>

theorem prompt_ends_idle:
  assumes "prompt opts fuel input a = (x, a')" and "ag_activeRun a = None" and "x \<noteq> Inr None"
  shows "idle a'"
  using assms by (auto simp: prompt_def runPromptMessages_def intro: runWithLifecycle_idle)

theorem prompt_ends_idle_witness:
  "idle (snd (prompt demo_options 3 (PromptText ''hi'' []) demo_agent))"
proof -
  have "fst (prompt demo_options 3 (PromptText ''hi'' []) demo_agent) = Inr (Some ())"
    by code_simp
  then obtain a' where p: "prompt demo_options 3 (PromptText ''hi'' []) demo_agent = (Inr (Some ()), a')"
    by (metis prod.collapse)
  then have "idle a'"
    by (rule prompt_ends_idle) (simp_all add: demo_agent_def createAgent_def)
  with p show ?thesis by simp
qed

text \<open>
  While a run is active, \<open>prompt\<close>, \<open>continue\<close> and \<open>reset\<close> throw and change nothing.
\<close>

theorem busy_agent_refuses:
  assumes "ag_activeRun a \<noteq> None"
  shows "(\<exists>e. prompt opts fuel input a = (Inl e, a)) \<and> (\<exists>e. continue_run opts fuel a = (Inl e, a)) \<and>
    (\<exists>e. reset a = (Inl e, a))"
  using assms by (simp add: prompt_def continue_run_def reset_def)

theorem busy_agent_refuses_witness:
  "(\<exists>e. prompt demo_options 1 (PromptText ''hi'' []) (demo_agent\<lparr>ag_activeRun := Some False\<rparr>) =
      (Inl e, demo_agent\<lparr>ag_activeRun := Some False\<rparr>)) \<and>
   (\<exists>e. continue_run demo_options 1 (demo_agent\<lparr>ag_activeRun := Some False\<rparr>) =
      (Inl e, demo_agent\<lparr>ag_activeRun := Some False\<rparr>)) \<and>
   (\<exists>e. reset (demo_agent\<lparr>ag_activeRun := Some False\<rparr>) = (Inl e, demo_agent\<lparr>ag_activeRun := Some False\<rparr>))"
  by (rule busy_agent_refuses) simp

lemma lifecycle_start:
  "ag_messages (a\<lparr>ag_activeRun := Some False, ag_isStreaming := True, ag_streamingMessage := None,
     ag_errorMessage := None, ag_skipInitialSteeringPoll := b\<rparr>) = ag_messages a"
  by simp

text \<open>The state a run starts in.\<close>

definition started :: "bool \<Rightarrow> 'v agent_state \<Rightarrow> 'v agent_state" where
  "started skip a = a\<lparr>ag_activeRun := Some False, ag_isStreaming := True, ag_streamingMessage := None,
     ag_errorMessage := None, ag_skipInitialSteeringPoll := skip\<rparr>"

definition agent_run_of ::
  "'v agent_options \<Rightarrow> nat \<Rightarrow> agent_message list \<Rightarrow> 'v agent_state \<Rightarrow> agent_message list option exc \<times> 'v agent_state run" where
  "agent_run_of opts fuel ms b =
     runAgentLoop (agent_env opts) (ao_streamFunction opts) fuel ms (createContextSnapshot opts b) (createLoopConfig opts b)
       \<lparr>run_log = [], run_world = b\<rparr>"

text \<open>
  How a finished run of the loop is recorded: a run that returned in full, with the events
  of its log; one that threw up to where it came, and then a failed message that carries the
  error and says whether the run was aborted.
\<close>

definition records_run ::
  "'v agent_options \<Rightarrow> 'v agent_state \<Rightarrow> agent_message list option exc \<times> 'v agent_state run \<Rightarrow> 'v agent_state \<Rightarrow> bool" where
  "records_run opts a result a' \<longleftrightarrow>
     (case result of
        (Inr None, r) \<Rightarrow> False
      | (Inr (Some ns), r) \<Rightarrow>
          phase_run Idle (run_log r) = Some Over \<and> ended_messages (run_log r) = ns \<and>
          ag_messages a' = ag_messages a @ ns
      | (Inl e, r) \<Rightarrow>
          ag_messages a' = ag_messages a @ ended_messages (run_log r) @
            [AssistantMsg (failure_message e (ag_activeRun (run_world r) = Some True)
               (ao_now opts (ag_world (run_world r))) (ag_model (run_world r)))] \<and>
          (if e = [] then True else ag_errorMessage a' = Some e))"

lemma supplies_any: "supplies any config"
  by (simp add: supplies_def list_all_iff)

lemma finishRun_error [simp]: "ag_errorMessage (finishRun a) = ag_errorMessage a"
  by (simp add: finishRun_def)

lemma prompt_messages_run:
  assumes o: "options_framed opts" and i: "ag_activeRun a = None"
    and p: "runPromptMessages opts fuel skip ms a = (Inr (Some ()), a')"
  shows "records_run opts a (agent_run_of opts fuel ms (started skip a)) a'"
proof -
  let ?a1 = "started skip a"
  let ?run = "runAgentLoop (agent_env opts) (ao_streamFunction opts) fuel ms
     (createContextSnapshot opts ?a1) (createLoopConfig opts ?a1)"
  obtain x r where run: "?run \<lparr>run_log = [], run_world = ?a1\<rparr> = (x, r)" by fastforce
  have mir: "mirrors ?a1 r"
    by (rule agent_loop_mirrors [OF o, where m = "?run"]) (use run in \<open>auto simp: started_def\<close>)
  then have msgs: "ag_messages (run_world r) = ag_messages a @ ended_messages (run_log r)"
    and active: "ag_activeRun (run_world r) \<noteq> None"
    by (auto simp: mirrors_def agent_view_def reduce_events_messages started_def)
  note defs = runPromptMessages_def runWithLifecycle_def as_run_def Let_def started_def
  show ?thesis
  proof (cases x)
    case (Inr y)
    with p i run obtain ns where y: "y = Some ns" and a': "a' = finishRun (run_world r)"
      by (auto simp: defs split: option.splits)
    from logsD [OF runAgentLoop_logs [OF supplies_any] run [unfolded Inr y]] obtain l where
      "run_log r = l" "ended_messages l = ns" "phase_run Idle l = Some Over" by auto
    with msgs a' run show ?thesis by (simp add: records_run_def agent_run_of_def Inr y)
  next
    case (Inl e)
    with p i run obtain a2 where
      h: "handleRunFailure opts e (ag_activeRun (run_world r) = Some True) (run_world r) = (Inr (), a2)"
      and a': "a' = finishRun a2"
      by (auto simp: defs split: prod.splits sum.splits)
    from handleRunFailure_messages [OF o active h] msgs a' run show ?thesis
      by (simp add: records_run_def agent_run_of_def Inl)
  qed
qed

text \<open>
  C22: A prompt that returns has run the loop on its messages, from the transcript and the
  options of the agent, to its end, and has recorded in the transcript exactly the messages
  that run ended: those it returned, after events that are well bracketed from \<open>AgentStart\<close> to
  \<open>AgentEnd\<close>, or, when the loop threw, what it had ended so far and one failed assistant
  message, which carries the thrown error (as the state's error message does) and the stop
  reason aborted exactly when the run had been aborted. The agent is idle again.
\<close>

theorem prompt_records_run:
  assumes "options_framed opts" and "ag_activeRun a = None"
    and "prompt opts fuel input a = (Inr (Some ()), a')"
  shows "records_run opts a
     (agent_run_of opts fuel (normalizePromptInput (ao_now opts (ag_world a)) input) (started False a)) a' \<and>
   idle a'"
proof
  from assms(2,3) have run: "runPromptMessages opts fuel False (normalizePromptInput (ao_now opts (ag_world a)) input) a =
      (Inr (Some ()), a')" by (simp add: prompt_def)
  from prompt_messages_run [OF assms(1,2) run]
  show "records_run opts a (agent_run_of opts fuel (normalizePromptInput (ao_now opts (ag_world a)) input) (started False a)) a'" .
  from run assms(2) show "idle a'" by (auto simp: runPromptMessages_def intro: runWithLifecycle_idle)
qed

theorem prompt_records_run_witness:
  "\<exists>a'. prompt demo_options 3 (PromptText ''hi'' []) demo_agent = (Inr (Some ()), a') \<and>
     records_run demo_options demo_agent (agent_run_of demo_options 3
       (normalizePromptInput 0 (PromptText ''hi'' [])) (started False demo_agent)) a' \<and> idle a'"
proof -
  have "fst (prompt demo_options 3 (PromptText ''hi'' []) demo_agent) = Inr (Some ())"
    by code_simp
  then obtain a' where p: "prompt demo_options 3 (PromptText ''hi'' []) demo_agent = (Inr (Some ()), a')"
    by (metis prod.collapse)
  have "ag_activeRun demo_agent = None" "ao_now demo_options (ag_world demo_agent) = 0"
    by (simp_all add: demo_agent_def createAgent_def demo_options_def)
  with prompt_records_run [OF demo_options_framed this(1) p] p show ?thesis by auto
qed

text \<open>
  With listeners that neither throw nor tamper with the transcript, a prompt to an idle
  agent never rejects: whatever the provider, a tool, a hook or a conversion throws ends
  as a recorded failed assistant message, and the call returns.
\<close>

theorem prompt_never_rejects:
  assumes "options_framed opts" and "ag_activeRun a = None"
    and "\<forall>l\<in>set (ao_listeners opts). \<forall>e. returns (l e)"
  shows "\<exists>x a'. prompt opts fuel input a = (Inr x, a')"
proof -
  let ?ms = "normalizePromptInput (ao_now opts (ag_world a)) input"
  let ?a1 = "a\<lparr>ag_activeRun := Some False, ag_isStreaming := True, ag_streamingMessage := None,
     ag_errorMessage := None, ag_skipInitialSteeringPoll := False\<rparr>"
  let ?run = "runAgentLoop (agent_env opts) (ao_streamFunction opts) fuel ?ms
     (createContextSnapshot opts ?a1) (createLoopConfig opts ?a1)"
  obtain x r where run: "?run \<lparr>run_log = [], run_world = ?a1\<rparr> = (x, r)" by fastforce
  have "mirrors ?a1 r"
    by (rule agent_loop_mirrors [OF assms(1), where m = "?run"]) (use run in auto)
  then have active: "ag_activeRun (run_world r) \<noteq> None" by (simp add: mirrors_def)
  note handler = handleRunFailure_returns [OF assms(1) active assms(3)]
  show ?thesis
  proof (cases x)
    case (Inl e)
    with handler [of e "ag_activeRun (run_world r) = Some True"] assms(2) run show ?thesis
      by (auto simp: prompt_def runPromptMessages_def runWithLifecycle_def as_run_def Let_def)
  next
    case (Inr y)
    with assms(2) run show ?thesis
      by (auto simp: prompt_def runPromptMessages_def runWithLifecycle_def as_run_def Let_def split: option.split)
  qed
qed

theorem prompt_never_rejects_witness:
  "\<exists>x a'. prompt demo_options 5 (PromptMessage (AssistantMsg (demo_assistant [] StopStop))) demo_agent = (Inr x, a')"
  by (rule prompt_never_rejects [OF demo_options_framed])
    (simp_all add: demo_agent_def createAgent_def demo_options_def returns_def)

lemma clear_queue_fields [simp]:
  "ag_messages (clearSteeringQueue b) = ag_messages b" "ag_messages (clearFollowUpQueue b) = ag_messages b"
  "ag_isStreaming (clearSteeringQueue b) = ag_isStreaming b" "ag_isStreaming (clearFollowUpQueue b) = ag_isStreaming b"
  "ag_activeRun (clearSteeringQueue b) = ag_activeRun b" "ag_activeRun (clearFollowUpQueue b) = ag_activeRun b"
  "ag_streamingMessage (clearSteeringQueue b) = ag_streamingMessage b"
  "ag_streamingMessage (clearFollowUpQueue b) = ag_streamingMessage b"
  "ag_pendingToolCalls (clearSteeringQueue b) = ag_pendingToolCalls b"
  "ag_pendingToolCalls (clearFollowUpQueue b) = ag_pendingToolCalls b"
  by (simp_all add: clearSteeringQueue_def clearFollowUpQueue_def)

text \<open>
  Resetting an idle agent empties the conversation and both queues but keeps the
  replayed prompt and tools: the transcript holds no message but the system message, which
  replays to the same state as before.
\<close>

theorem reset_keeps_baseline:
  assumes "ag_activeRun a = None"
  shows "\<exists>a'. reset a = (Inr (), a') \<and> idle a' \<and> \<not> hasQueuedMessages a' \<and>
     list_all is_system (ag_messages a') \<and>
     getCurrentSystemMessage (ag_messages a') = getCurrentSystemMessage (ag_messages a) \<and>
     agent_systemPrompt a' = agent_systemPrompt a"
proof -
  let ?ms = "case getCurrentSystemMessage (ag_messages a) of None \<Rightarrow> [] | Some baseline \<Rightarrow> [SystemMsg baseline]"
  have same: "getCurrentSystemMessage ?ms = getCurrentSystemMessage (ag_messages a)"
  proof (cases "getCurrentSystemMessage (ag_messages a)")
    case None
    then show ?thesis
      by (simp add: getCurrentSystemMessage_def [of "[]"] replay_prompt_def getCurrentTools_def
          replay_tools_def jsmap_values_def)
  qed (simp add: getCurrentSystemMessage_idem)
  with assms show ?thesis
    by (auto simp: reset_def idle_def hasQueuedMessages_def pq_hasItems_def clearSteeringQueue_def
        clearFollowUpQueue_def pq_clear_def agent_systemPrompt_def getCurrentSystemPrompt_def split: option.split)
qed

theorem reset_keeps_baseline_witness:
  "\<exists>a'. reset (steer (text_user_message ''x'' 0) demo_agent) = (Inr (), a') \<and> idle a' \<and> \<not> hasQueuedMessages a' \<and>
     list_all is_system (ag_messages a') \<and>
     getCurrentSystemMessage (ag_messages a') =
       getCurrentSystemMessage (ag_messages (steer (text_user_message ''x'' 0) demo_agent)) \<and>
     agent_systemPrompt a' = agent_systemPrompt (steer (text_user_message ''x'' 0) demo_agent)"
  by (rule reset_keeps_baseline) (simp add: steer_def demo_agent_def createAgent_def)

text \<open>
  Continuing an idle agent whose transcript ends in an assistant message runs exactly
  the messages \<open>peekQueuedMessages\<close> previews, steering before follow-ups, as a prompt; with
  nothing queued it throws and changes nothing.
\<close>

theorem continue_runs_peeked:
  assumes "ag_activeRun a = None" and "ag_messages a \<noteq> []" and "is_assistant (last (ag_messages a))"
  shows "if hasQueuedMessages a
    then \<exists>skip a1. continue_run opts fuel a = runPromptMessages opts fuel skip (peekQueuedMessages a) a1 \<and>
       ag_messages a1 = ag_messages a \<and>
       peekQueuedMessages a @ pq_messages (ag_steering a1) @ pq_messages (ag_followUp a1) =
         pq_messages (ag_steering a) @ pq_messages (ag_followUp a)
    else \<exists>e. continue_run opts fuel a = (Inl e, a)"
proof -
  have "\<not> list_all is_system (ag_messages a)"
  proof
    assume "list_all is_system (ag_messages a)"
    with assms(2) have "is_system (last (ag_messages a))" by (simp add: list_all_iff)
    with assms(3) show False by (cases "last (ag_messages a)") auto
  qed
  with assms have c: "continue_run opts fuel a =
      (case drain_steering a of
              (Inl e, a1) \<Rightarrow> (Inl e, a1)
            | (Inr queuedSteering, a1) \<Rightarrow>
                if queuedSteering \<noteq> [] then runPromptMessages opts fuel True queuedSteering a1
                else (case drain_followUp a1 of
                        (Inl e, a2) \<Rightarrow> (Inl e, a2)
                      | (Inr queuedFollowUps, a2) \<Rightarrow>
                          if queuedFollowUps \<noteq> [] then runPromptMessages opts fuel False queuedFollowUps a2
                          else (Inl ''Cannot continue from message role: assistant'', a2)))"
    by (simp add: continue_run_def)
  have empty: "pq_drain q = ([], q)" if "pq_messages q = []" for q
    using that by (cases q) (auto simp: pq_drain_def pq_peek_def)
  have split: "pq_peek q @ drop (length (pq_peek q)) (pq_messages q) = pq_messages q" for q
    using pq_drain_split [of q] by (simp add: pq_drain_def Let_def)
  have peek: "pq_peek q \<noteq> [] \<longleftrightarrow> pq_messages q \<noteq> []" for q
    by (auto simp: pq_peek_def split: list.split)
  show ?thesis
  proof (cases "pq_messages (ag_steering a) = []")
    case False
    let ?a1 = "a\<lparr>ag_steering := snd (pq_drain (ag_steering a))\<rparr>"
    from False peek have "continue_run opts fuel a = runPromptMessages opts fuel True (pq_peek (ag_steering a)) ?a1"
      by (simp add: c drain_steering_def pq_drain_def Let_def)
    moreover have "pq_peek (ag_steering a) @ pq_messages (ag_steering ?a1) @ pq_messages (ag_followUp ?a1) =
        pq_messages (ag_steering a) @ pq_messages (ag_followUp a)"
      using pq_drain_split [of "ag_steering a"] by (simp add: pq_drain_def Let_def flip: append_assoc)
    moreover have "peekQueuedMessages a = pq_peek (ag_steering a)" "hasQueuedMessages a"
      using False peek by (auto simp: peekQueuedMessages_def hasQueuedMessages_def pq_hasItems_def)
    ultimately show ?thesis by (auto intro!: exI [of _ True] exI [of _ ?a1])
  next
    case True
    note st = True
    have "a\<lparr>ag_steering := ag_steering a\<rparr> = a" by simp
    with True have d: "drain_steering a = (Inr [], a)"
      by (simp add: drain_steering_def empty)
    show ?thesis
    proof (cases "pq_messages (ag_followUp a) = []")
      case True
      then have "drain_followUp a = (Inr [], a)" by (simp add: drain_followUp_def empty)
      with d st True show ?thesis by (auto simp: c hasQueuedMessages_def pq_hasItems_def)
    next
      case False
      let ?a1 = "a\<lparr>ag_followUp := snd (pq_drain (ag_followUp a))\<rparr>"
      from False peek d have "continue_run opts fuel a = runPromptMessages opts fuel False (pq_peek (ag_followUp a)) ?a1"
        by (simp add: c drain_followUp_def pq_drain_def Let_def)
      moreover have "pq_peek (ag_followUp a) @ pq_messages (ag_steering ?a1) @ pq_messages (ag_followUp ?a1) =
          pq_messages (ag_steering a) @ pq_messages (ag_followUp a)"
        using pq_drain_split [of "ag_followUp a"] st by (simp add: pq_drain_def Let_def)
      moreover have "peekQueuedMessages a = pq_peek (ag_followUp a)" "hasQueuedMessages a"
        using False st peek by (auto simp: peekQueuedMessages_def hasQueuedMessages_def pq_hasItems_def)
      ultimately show ?thesis by (auto intro!: exI [of _ False] exI [of _ ?a1])
    qed
  qed
qed

theorem continue_runs_peeked_witness:
  "\<exists>skip a1. continue_run demo_options 3 (steer (text_user_message ''go on'' 0)
       (demo_agent\<lparr>ag_messages := [AssistantMsg (demo_assistant [] StopStop)]\<rparr>)) =
     runPromptMessages demo_options 3 skip [text_user_message ''go on'' 0] a1 \<and>
     ag_messages a1 = [AssistantMsg (demo_assistant [] StopStop)]"
  using continue_runs_peeked [of "steer (text_user_message ''go on'' 0)
      (demo_agent\<lparr>ag_messages := [AssistantMsg (demo_assistant [] StopStop)]\<rparr>)" demo_options 3]
  by (auto simp: steer_def demo_agent_def createAgent_def hasQueuedMessages_def pq_hasItems_def
      pq_enqueue_def new_queue_def peekQueuedMessages_def pq_peek_def)

end
