(* ===== verification/Run_Outcomes.thy ===== *)
theory Run_Outcomes
  imports Run_Invariants
begin

text \<open>
  What a run comes to. An abort signal is never taken back, so a run whose signal is not
  raised at its end was never cut short: it is the run of the same loop without a signal, and
  every tool call of it is answered.
\<close>

section \<open>Two runs that agree\<close>

text \<open>
  \<open>agrees D V p q\<close>: \<open>p\<close> never leaves the states in \<open>D\<close>, returns values in \<open>V\<close>, and does what \<open>q\<close>
  does whenever it ends outside \<open>D\<close>.
\<close>

definition agrees :: "('w \<Rightarrow> bool) \<Rightarrow> ('a \<Rightarrow> bool) \<Rightarrow> ('w, 'a) prog \<Rightarrow> ('w, 'a) prog \<Rightarrow> bool" where
  "agrees D V p q \<longleftrightarrow> (\<forall>w. (D w \<longrightarrow> D (snd (p w))) \<and> (\<forall>x. fst (p w) = Inr x \<longrightarrow> V x) \<and>
     (\<not> D (snd (p w)) \<longrightarrow> q w = p w))"

lemma agrees_same_any: "yields D any p \<Longrightarrow> agrees D any p p"
  by (simp add: agrees_def yields_def)

lemma agrees_ret: "V x \<Longrightarrow> agrees D V (ret x) (ret x)"
  by (simp add: agrees_def ret_def)

lemma agrees_liftp: "(\<And>x. r = Inr x \<Longrightarrow> V x) \<Longrightarrow> agrees D V (liftp r) (liftp r)"
  by (simp add: agrees_def liftp_def)

lemma agrees_bindp:
  assumes p: "agrees D U p q" and f: "\<And>x. U x \<Longrightarrow> agrees D V (f x) (g x)"
  shows "agrees D V (bindp p f) (bindp q g)"
  unfolding agrees_def
proof (intro allI)
  fix w
  obtain y w1 where y: "p w = (y, w1)" by fastforce
  with p have 1: "D w \<longrightarrow> D w1" "\<And>x. y = Inr x \<Longrightarrow> U x" "\<not> D w1 \<longrightarrow> q w = (y, w1)"
    unfolding agrees_def by (metis fst_conv snd_conv)+
  show "(D w \<longrightarrow> D (snd (bindp p f w))) \<and> (\<forall>x. fst (bindp p f w) = Inr x \<longrightarrow> V x) \<and>
      (\<not> D (snd (bindp p f w)) \<longrightarrow> bindp q g w = bindp p f w)"
  proof (cases y)
    case (Inl e)
    with y 1 show ?thesis by (auto simp: bindp_def)
  next
    case (Inr x)
    with f [OF 1(2)] have "D w1 \<longrightarrow> D (snd (f x w1))" "\<forall>z. fst (f x w1) = Inr z \<longrightarrow> V z"
      "\<not> D (snd (f x w1)) \<longrightarrow> g x w1 = f x w1"
      unfolding agrees_def by auto
    with y 1 Inr show ?thesis by (auto simp: bindp_def)
  qed
qed

lemma agrees_seqp:
  "agrees D U p q \<Longrightarrow> agrees D V k k' \<Longrightarrow> agrees D V (seqp p k) (seqp q k')"
  unfolding seqp_def by (rule agrees_bindp)

lemma agrees_catchp:
  assumes p: "agrees D V p q" and h: "\<And>e. agrees D V (h e) (k e)"
  shows "agrees D V (catchp p h) (catchp q k)"
  unfolding agrees_def
proof (intro allI)
  fix w
  obtain y w1 where y: "p w = (y, w1)" by fastforce
  with p have 1: "D w \<longrightarrow> D w1" "\<And>x. y = Inr x \<Longrightarrow> V x" "\<not> D w1 \<longrightarrow> q w = (y, w1)"
    unfolding agrees_def by (metis fst_conv snd_conv)+
  show "(D w \<longrightarrow> D (snd (catchp p h w))) \<and> (\<forall>x. fst (catchp p h w) = Inr x \<longrightarrow> V x) \<and>
      (\<not> D (snd (catchp p h w)) \<longrightarrow> catchp q k w = catchp p h w)"
  proof (cases y)
    case (Inr x)
    with y 1 show ?thesis by (auto simp: catchp_def)
  next
    case (Inl e)
    from h [of e] have "D w1 \<longrightarrow> D (snd (h e w1))" "\<forall>z. fst (h e w1) = Inr z \<longrightarrow> V z"
      "\<not> D (snd (h e w1)) \<longrightarrow> k e w1 = h e w1"
      unfolding agrees_def by auto
    with y 1 Inl show ?thesis by (auto simp: catchp_def)
  qed
qed

lemmas agrees_then = agrees_bindp [where U = any] agrees_seqp [where U = any]

section \<open>A lasting abort signal\<close>

text \<open>The abort flag of an \<open>AbortSignal\<close> is never lowered again.\<close>

definition abort_lasts :: "'w env \<Rightarrow> 'w \<Rightarrow> 'w \<Rightarrow> bool" where
  "abort_lasts env w w' \<longleftrightarrow> (env_aborted env w \<longrightarrow> env_aborted env w')"

definition sink_lasts :: "'w env \<Rightarrow> bool" where
  "sink_lasts env \<longleftrightarrow> (\<forall>e. framed (abort_lasts env) (env_sink env e))"

definition stopped :: "'w env \<Rightarrow> 'w run \<Rightarrow> bool" where
  "stopped env r \<longleftrightarrow> sink_lasts env \<and> env_aborted env (run_world r)"

lemma abort_frame: "world_frame (abort_lasts env)"
  by unfold_locales (auto simp: abort_lasts_def)

interpretation lasting: run_invariant "abort_lasts env" env "stopped env" for env
proof (intro run_invariant.intro abort_frame run_invariant_axioms.intro)
  show "stopped env r \<Longrightarrow> abort_lasts env (run_world r) w \<Longrightarrow> stopped env (r\<lparr>run_world := w\<rparr>)" for r w
    by (simp add: stopped_def abort_lasts_def)
  show "yields (stopped env) any (emit env e)" for e
    unfolding yields_def
  proof (intro allI impI conjI)
    fix r assume "stopped env r"
    moreover obtain x w' where "env_sink env e (run_world r) = (x, w')" by fastforce
    ultimately show "stopped env (snd (emit env e r))"
      unfolding stopped_def sink_lasts_def framed_def abort_lasts_def emit_def by (auto dest!: spec [of _ e] spec [of _ "run_world r"])
  qed simp
qed

interpretation always: run_invariant "abort_lasts env" env "\<lambda>_. True" for env
  by (intro run_invariant.intro abort_frame run_invariant_axioms.intro) (simp_all add: yields_def)

text \<open>The same surroundings without the signal.\<close>

definition calm :: "'w env \<Rightarrow> 'w env" where
  "calm env = env\<lparr>env_aborted := \<lambda>_. False\<rparr>"

lemma never_aborted_calm: "never_aborted (calm env)"
  by (simp add: never_aborted_def calm_def)

lemma calm_fields [simp]:
  "env_now (calm env) = env_now env" "env_perf (calm env) = env_perf env"
  "env_validate (calm env) = env_validate env" "env_schedule (calm env) = env_schedule env"
  "env_sink (calm env) = env_sink env" "env_aborted (calm env) = (\<lambda>_. False)"
  by (simp_all add: calm_def)

lemma calm_emit [simp]: "emit (calm env) e = emit env e"
  by (simp add: emit_def)

lemma calm_tool_events [simp]:
  "emitToolExecutionStart (calm env) tc = emitToolExecutionStart env tc"
  "emitToolExecutionUpdate (calm env) tc = emitToolExecutionUpdate env tc"
  "emitToolExecutionEnd (calm env) oc = emitToolExecutionEnd env oc"
  "publishToolResult (calm env) oc = publishToolResult env oc"
  "executePreparedToolCall (calm env) tc t args = executePreparedToolCall env tc t args"
  "emit_message (calm env) m = emit_message env m"
  by (auto simp: emitToolExecutionStart_def emitToolExecutionUpdate_def emitToolExecutionEnd_def
      publishToolResult_def emitToolResultMessage_def executePreparedToolCall_def emit_message_def fun_eq_iff)

lemma calm_publish [simp]: "publish_all (calm env) ocs = publish_all env ocs"
  by (induction ocs) simp_all

lemma calm_truncated [simp]:
  "failToolCallsFromTruncatedMessage (calm env) tcs = failToolCallsFromTruncatedMessage env tcs"
  by (induction tcs) (simp_all add: Let_def)

lemma calm_finish_response [simp]:
  "finish_response (calm env) config response added ms = finish_response env config response added ms"
  unfolding finish_response_def calm_emit ..

lemma calm_consume [simp]:
  "consume_events (calm env) config response events added ms = consume_events env config response events added ms"
proof (induction events arbitrary: added ms)
  case (Cons e events)
  show ?case unfolding consume_events.simps calm_emit calm_finish_response Cons.IH ..
qed simp

lemma calm_append [simp]: "append_messages (calm env) ms st = append_messages env ms st"
  by (induction ms arbitrary: st) simp_all

lemma calm_turn [simp]:
  "streamAssistantResponse (calm env) fn context config = streamAssistantResponse env fn context config"
  "prepare_next_turn (calm env) st = prepare_next_turn env st"
  unfolding streamAssistantResponse_def prepare_next_turn_def calm_emit calm_consume by simp_all

section \<open>A run that is not stopped\<close>

lemma agrees_on_world:
  fixes env :: "'w env"
  assumes "sink_lasts env" and "agrees (env_aborted env) V p q"
  shows "agrees (stopped env) V (on_world p) (on_world q)"
  unfolding agrees_def
proof
  fix r :: "'w run"
  obtain x w where "p (run_world r) = (x, w)" by fastforce
  with assms show "(stopped env r \<longrightarrow> stopped env (snd (on_world p r))) \<and>
      (\<forall>x. fst (on_world p r) = Inr x \<longrightarrow> V x) \<and>
      (\<not> stopped env (snd (on_world p r)) \<longrightarrow> on_world q r = on_world p r)"
    unfolding agrees_def by (auto simp: on_world_def stopped_def dest!: spec [of _ "run_world r"])
qed

lemma agrees_is_aborted: "agrees (env_aborted env) any (is_aborted env) (is_aborted (calm env))"
  by (simp add: agrees_def is_aborted_def readp_def)

lemma agrees_aborted:
  "sink_lasts env \<Longrightarrow> agrees (stopped env) any (on_world (is_aborted env)) (on_world (is_aborted (calm env)))"
  by (intro agrees_on_world agrees_is_aborted)

lemma agrees_framed: "framed (abort_lasts env) p \<Longrightarrow> agrees (env_aborted env) any p p"
  by (simp add: agrees_def framed_def abort_lasts_def)

lemma agrees_prepareToolCall:
  assumes "hooks_framed (abort_lasts env) config"
  shows "agrees (env_aborted env) any (prepareToolCall env context am tc config tools)
     (prepareToolCall (calm env) context am tc config tools)"
  using assms
  by (auto simp: prepareToolCall_def unless_aborted_def Let_def hooks_framed_def lasting.framed_basic
      intro!: agrees_ret agrees_catchp agrees_liftp agrees_is_aborted agrees_framed
        agrees_bindp [where U = any] split: option.split)

text \<open>Where both runs take the same steps, the invariants of a run are enough.\<close>

lemmas agrees_steps =
  agrees_same_any [OF lasting.I_emit] agrees_same_any [OF lasting.clock_any]
  lasting.tool_event_any [THEN agrees_same_any] agrees_same_any [OF lasting.publish_all_any]
  agrees_same_any [OF lasting.truncated_any]

definition calls_framed :: "'w env \<Rightarrow> 'w agent_context \<Rightarrow> ('w, 'x) tool_hooks_scheme \<Rightarrow> bool" where
  "calls_framed env context config \<longleftrightarrow> sink_lasts env \<and> hooks_framed (abort_lasts env) config \<and>
     tools_framed (abort_lasts env) (context_tools context)"

lemma calls_framedD:
  assumes "calls_framed env context config"
  shows "sink_lasts env" "hooks_framed (abort_lasts env) config"
    "tools_framed (abort_lasts env) (context_tools context)"
  using assms by (simp_all add: calls_framed_def)

lemma agrees_prepare:
  assumes "calls_framed env context config"
  shows "agrees (stopped env) (prepared_ok (abort_lasts env))
     (on_world (prepareToolCall env context am tc config (context_tools context)))
     (on_world (prepareToolCall (calm env) context am tc config (context_tools context)))"
proof -
  note c = calls_framedD [OF assms]
  have "agrees (stopped env) any
     (on_world (prepareToolCall env context am tc config (context_tools context)))
     (on_world (prepareToolCall (calm env) context am tc config (context_tools context)))"
    by (intro agrees_on_world agrees_prepareToolCall c)
  moreover have "yields any (prepared_ok (abort_lasts env))
     (on_world (prepareToolCall env context am tc config (context_tools context)))"
    by (rule always.prepare_yields [OF c(2,3)])
  ultimately show ?thesis by (simp add: agrees_def yields_def)
qed

lemma agrees_prepare_split:
  assumes "calls_framed env context config"
    and "\<And>r e. agrees (stopped env) V (f (Immediate r e)) (g (Immediate r e))"
    and "\<And>tc' t args. (\<And>i args w. abort_lasts env w (snd (at_execute t i args w))) \<Longrightarrow>
      agrees (stopped env) V (f (Prepared tc' t args)) (g (Prepared tc' t args))"
  shows "agrees (stopped env) V
     (bindp (on_world (prepareToolCall env context am tc config (context_tools context))) f)
     (bindp (on_world (prepareToolCall (calm env) context am tc config (context_tools context))) g)"
proof (rule agrees_bindp [OF agrees_prepare [OF assms(1)]])
  fix p assume "prepared_ok (abort_lasts env) p"
  then show "agrees (stopped env) V (f p) (g p)"
    by (cases p) (auto simp: prepared_ok_def intro: assms(2,3))
qed

lemma agrees_execute:
  "(\<And>i args w. abort_lasts env w (snd (at_execute t i args w))) \<Longrightarrow>
   agrees (stopped env) any (executePreparedToolCall env tc t args (emitToolExecutionUpdate env tc0))
     (executePreparedToolCall env tc t args (emitToolExecutionUpdate env tc0))"
  by (intro agrees_same_any lasting.execute_any)

lemma agrees_finalize:
  "calls_framed env context config \<Longrightarrow>
   agrees (stopped env) any (on_world (finalizeExecutedToolCall context' am tc args executed config))
     (on_world (finalizeExecutedToolCall context' am tc args executed config))"
  by (intro agrees_same_any lasting.finalize_any) (simp add: calls_framed_def)

lemma agrees_sequential_call:
  assumes "calls_framed env context config"
  shows "agrees (stopped env) any (runSequentialCall env context am config tc)
     (runSequentialCall (calm env) context am config tc)"
  unfolding runSequentialCall_def calm_tool_events
  by (intro agrees_then(2) agrees_steps agrees_prepare_split assms)
    (auto intro!: agrees_ret agrees_then agrees_execute agrees_finalize assms)

lemma agrees_sequential:
  assumes "calls_framed env context config"
  shows "agrees (stopped env) any (sequential_calls env context am config tcs fs ms)
     (sequential_calls (calm env) context am config tcs fs ms)"
  by (induction tcs arbitrary: fs ms)
    (auto intro!: agrees_ret agrees_then agrees_sequential_call agrees_steps agrees_aborted assms calls_framedD(1) [OF assms])

lemma agrees_prepare_tasks:
  assumes "calls_framed env context config"
  shows "agrees (stopped env) (list_all (task_ok (abort_lasts env))) (prepare_tasks env context am config tcs)
     (prepare_tasks (calm env) context am config tcs)"
proof (induction tcs)
  case Nil
  show ?case by (auto intro: agrees_ret)
next
  case (Cons tc tcs)
  have rest: "agrees (stopped env) (list_all (task_ok (abort_lasts env)))
      (bindp (on_world (is_aborted env)) (\<lambda>aborted. if aborted then ret [entry]
        else bindp (prepare_tasks env context am config tcs) (\<lambda>rest. ret (entry # rest))))
      (bindp (on_world (is_aborted (calm env))) (\<lambda>aborted. if aborted then ret [entry]
        else bindp (prepare_tasks (calm env) context am config tcs) (\<lambda>rest. ret (entry # rest))))"
    if "task_ok (abort_lasts env) entry" for entry
    by (rule agrees_then(1) [OF agrees_aborted [OF calls_framedD(1) [OF assms]]])
      (use that Cons.IH in \<open>auto intro!: agrees_ret agrees_bindp [where U = "list_all (task_ok (abort_lasts env))"]\<close>)
  show ?case
    unfolding prepare_tasks.simps calm_tool_events
    by (intro agrees_then(2) agrees_steps agrees_prepare_split assms
        agrees_bindp [where U = "task_ok (abort_lasts env)"] rest)
      (auto simp: Let_def task_ok_def intro!: agrees_ret agrees_then(2) agrees_steps)
qed

lemma agrees_task_step:
  assumes "calls_framed env context config" and "task_ok (abort_lasts env) k"
  shows "agrees (stopped env) (task_ok (abort_lasts env)) (task_step env context am config k)
     (task_step (calm env) context am config k)"
  using assms(2)
  by (cases k)
    (auto simp: task_ok_def intro!: agrees_ret agrees_then agrees_aborted [OF calls_framedD(1) [OF assms(1)]]
      agrees_execute agrees_finalize [OF assms(1)] agrees_steps)

lemma agrees_finish_tasks:
  assumes "calls_framed env context config"
  shows "list_all (task_ok (abort_lasts env)) ks \<Longrightarrow>
    agrees (stopped env) any (finish_tasks env context am config ks) (finish_tasks (calm env) context am config ks)"
proof (induction ks)
  case (Cons k ks)
  then show ?case
    unfolding finish_tasks.simps
    by (intro agrees_bindp [OF agrees_task_step [OF assms]]
        agrees_then(1) [of _ "finish_tasks _ _ _ _ _"] agrees_ret) auto
qed (auto intro: agrees_ret)

lemma agrees_run_tasks:
  assumes "calls_framed env context config"
  shows "list_all (task_ok (abort_lasts env)) ks \<Longrightarrow>
    agrees (stopped env) any (run_tasks env context am config schedule ks)
      (run_tasks (calm env) context am config schedule ks)"
proof (induction schedule arbitrary: ks)
  case Nil
  then show ?case by (simp add: agrees_finish_tasks assms)
next
  case (Cons i schedule)
  show ?case
  proof (cases "i < length ks")
    case True
    have upd: "list_all (task_ok (abort_lasts env)) (ks[i := k])" if "task_ok (abort_lasts env) k" for k
      using Cons.prems that True by (auto simp: list_all_length nth_list_update)
    from True Cons.prems have "task_ok (abort_lasts env) (ks ! i)" by (simp add: list_all_length)
    with True show ?thesis
      by (auto intro!: agrees_bindp [OF agrees_task_step] assms Cons.IH upd)
  next
    case False
    then show ?thesis using Cons by simp
  qed
qed

lemma agrees_executeToolCalls:
  assumes "calls_framed env context config"
  shows "agrees (stopped env) any (executeToolCalls env mode context am config)
     (executeToolCalls (calm env) mode context am config)"
proof -
  have seq: "agrees (stopped env) any (executeToolCallsSequential env context am tcs config)
      (executeToolCallsSequential (calm env) context am tcs config)" for tcs
    unfolding executeToolCallsSequential_def case_prod_beta
    by (intro agrees_then agrees_sequential assms agrees_ret) simp
  have par: "agrees (stopped env) any (executeToolCallsParallel env context am tcs config)
      (executeToolCallsParallel (calm env) context am tcs config)" for tcs
    unfolding executeToolCallsParallel_def Let_def calm_fields calm_publish
    by (rule agrees_bindp [OF agrees_prepare_tasks [OF assms]])
      (intro agrees_then agrees_steps agrees_run_tasks assms agrees_ret; simp)
  show ?thesis
    unfolding executeToolCalls_def
    by (intro agrees_then agrees_liftp) (simp_all add: seq par)
qed

text \<open>The loop. Only the tool batch looks at the signal.\<close>

lemma agrees_both: "yields D V p \<Longrightarrow> yields any V p \<Longrightarrow> agrees D V p p"
  by (simp add: agrees_def yields_def)

definition loop_ok :: "'w env \<Rightarrow> 'w loop_state \<Rightarrow> bool" where
  "loop_ok env st \<longleftrightarrow> sink_lasts env \<and> state_ok (abort_lasts env) st"

lemma loop_ok_calls: "loop_ok env st \<Longrightarrow> calls_framed env (ls_context st) (ls_config st)"
  by (simp add: loop_ok_def calls_framed_def state_ok_def config_framed_def)

lemma agrees_batch:
  assumes "loop_ok env st"
  shows "agrees (stopped env) any (run_tool_batch env st m) (run_tool_batch (calm env) st m)"
  unfolding run_tool_batch_def calm_truncated
  by (intro agrees_then agrees_liftp)
    (auto intro!: agrees_ret agrees_then agrees_steps agrees_executeToolCalls loop_ok_calls [OF assms])

lemma agrees_poll:
  "framed_opt (abort_lasts env) po \<Longrightarrow> agrees (stopped env) any (on_world (poll po)) (on_world (poll po))"
  by (intro agrees_same_any lasting.poll_any)

lemma agrees_complete_turn:
  assumes "loop_ok env st"
  shows "agrees (stopped env) (loop_ok env \<circ> outcome_state) (complete_turn env st m) (complete_turn (calm env) st m)"
proof -
  from assms have ok: "state_ok (abort_lasts env) st" "sink_lasts env" by (simp_all add: loop_ok_def)
  have "agrees (stopped env) any (complete_turn env st m) (complete_turn (calm env) st m)"
  proof (cases "failed_turn m")
    case True
    then have "complete_turn (calm env) st m = complete_turn env st m"
      by (simp add: complete_turn_def failed_turn_def)
    with lasting.complete_turn_yields [OF ok(1), of m] show ?thesis
      by (simp add: agrees_def yields_def)
  next
    case False
    have turn: "agrees (stopped env) any (on_world (finish_turn st' turn)) (on_world (finish_turn st' turn))"
      if "ls_config st' = ls_config st" for st' turn
      using ok that by (intro agrees_same_any)
        (auto simp: finish_turn_def state_ok_def config_framed_def intro!: lasting.hook_any)
    have steering: "framed_opt (abort_lasts env) (lc_getSteeringMessages (ls_config st))"
      using ok by (simp add: state_ok_def config_framed_def)
    from False show ?thesis
      unfolding complete_turn_def Let_def failed_turn_def calm_emit
      by (simp only: if_False)
        (rule agrees_then(1) [OF agrees_batch [OF assms]], rule agrees_then(1) [OF turn], simp,
         rule agrees_then(2) [OF agrees_steps(1)],
         auto intro!: agrees_then agrees_steps agrees_ret agrees_poll steering)
  qed
  moreover from always.complete_turn_yields [OF ok(1), of m]
  have "yields any (loop_ok env \<circ> outcome_state) (complete_turn env st m)"
    by (rule yields_weaken) (simp add: loop_ok_def ok(2))
  ultimately show ?thesis by (simp add: agrees_def yields_def)
qed

lemma agrees_run_turn:
  assumes fn: "stream_framed (abort_lasts env) fn" and st: "loop_ok env st"
  shows "agrees (stopped env) (loop_ok env \<circ> outcome_state) (run_turn env fn st) (run_turn (calm env) fn st)"
proof -
  from st have ok: "state_ok (abort_lasts env) st" and sink: "sink_lasts env" by (simp_all add: loop_ok_def)
  have next_turn: "agrees (stopped env) (\<lambda>y. state_ok (abort_lasts env) (snd y)) (prepare_next_turn env st) (prepare_next_turn env st)"
    by (rule agrees_both [OF lasting.prepare_next_turn_yields [OF ok] always.prepare_next_turn_yields [OF ok]])
  have app: "agrees (stopped env) (state_ok (abort_lasts env)) (append_messages env ms st) (append_messages env ms st)"
    if "state_ok (abort_lasts env) st" for ms st
    by (rule agrees_both [OF lasting.append_messages_yields [OF that] always.append_messages_yields [OF that]])
  have request: "agrees (stopped env) (state_ok (abort_lasts env)) (on_world (prepare_request st)) (on_world (prepare_request st))"
    if "state_ok (abort_lasts env) st" for st
    by (rule agrees_both [OF lasting.prepare_request_yields [OF that] always.prepare_request_yields [OF that]])
  have stream: "agrees (stopped env) (\<lambda>y. ac_tools (snd y) = ac_tools c)
      (streamAssistantResponse env fn c config) (streamAssistantResponse env fn c config)"
    if "config_framed (abort_lasts env) config" for c config
    by (rule agrees_both [OF lasting.stream_any [OF fn that] always.stream_any [OF fn that]])
  show ?thesis
    unfolding run_turn_def case_prod_beta calm_turn calm_append calm_fields
  proof (rule agrees_bindp [OF next_turn], rule agrees_then(1) [OF agrees_steps(2)], rule agrees_bindp [OF app],
      assumption, rule agrees_bindp [OF request])
    fix st2 :: "'a loop_state" assume "state_ok (abort_lasts env) st2"
    then show "state_ok (abort_lasts env) (st2\<lparr>ls_pendingMessages := []\<rparr>)" by (simp add: state_ok_def)
  next
    fix st3 :: "'a loop_state" assume st3: "state_ok (abort_lasts env) st3"
    then have "config_framed (abort_lasts env) (ls_config st3)" by (simp add: state_ok_def)
    from stream [OF this]
    show "agrees (stopped env) (loop_ok env \<circ> outcome_state)
       (bindp (streamAssistantResponse env fn (ls_context st3) (ls_config st3)) (\<lambda>z.
        complete_turn env (st3\<lparr>ls_context := snd z,
          ls_newMessages := ls_newMessages st3 @ [AssistantMsg (fst z)]\<rparr>) (fst z)))
       (bindp (streamAssistantResponse env fn (ls_context st3) (ls_config st3)) (\<lambda>z.
        complete_turn (calm env) (st3\<lparr>ls_context := snd z,
          ls_newMessages := ls_newMessages st3 @ [AssistantMsg (fst z)]\<rparr>) (fst z)))"
      by (rule agrees_bindp)
        (use st3 sink in \<open>auto intro!: agrees_complete_turn simp: loop_ok_def state_ok_def context_tools_def\<close>)
  qed
qed

lemma agrees_run_loop:
  assumes fn: "stream_framed (abort_lasts env) fn"
  shows "loop_ok env st \<Longrightarrow> agrees (stopped env) any (run_loop env fn fuel st) (run_loop (calm env) fn fuel st)"
proof (induction fuel arbitrary: st)
  case 0
  show ?case by (auto intro: agrees_ret)
next
  case (Suc fuel)
  from Suc.prems have f: "framed_opt (abort_lasts env) (lc_getFollowUpMessages (ls_config st))"
    by (simp add: loop_ok_def state_ok_def config_framed_def)
  have turn: "agrees (stopped env) any
      (bindp (run_turn env fn st) (\<lambda>outcome. case outcome of
        RunOver st' \<Rightarrow> ret (Some (ls_newMessages st')) | RunOn st' \<Rightarrow> run_loop env fn fuel st'))
      (bindp (run_turn (calm env) fn st) (\<lambda>outcome. case outcome of
        RunOver st' \<Rightarrow> ret (Some (ls_newMessages st')) | RunOn st' \<Rightarrow> run_loop (calm env) fn fuel st'))"
    by (rule agrees_bindp [OF agrees_run_turn [OF fn Suc.prems]])
      (auto intro: agrees_ret Suc.IH split: turn_outcome.split)
  have more: "loop_ok env (st\<lparr>ls_explicitContinuation := e, ls_pendingMessages := p, ls_hasMoreToolCalls := h\<rparr>)"
    "loop_ok env (st\<lparr>ls_explicitContinuation := e, ls_hasMoreToolCalls := h\<rparr>)" for e p h
    using Suc.prems by (simp_all add: loop_ok_def state_ok_def)
  show ?case
    using turn unfolding run_loop.simps calm_emit
    by (auto intro!: agrees_then(1) [OF agrees_poll [OF f]] agrees_then(2) agrees_steps agrees_ret Suc.IH more)
qed

lemma agrees_runAgentLoop:
  assumes "sink_lasts env" and "stream_framed (abort_lasts env) fn" and "config_framed (abort_lasts env) config"
    and "tools_framed (abort_lasts env) (context_tools context)"
  shows "agrees (stopped env) any (runAgentLoop env fn fuel prompts context config)
     (runAgentLoop (calm env) fn fuel prompts context config)"
proof -
  have steering: "framed_opt (abort_lasts env) (lc_getSteeringMessages config)"
    using assms(3) by (simp add: config_framed_def)
  have loop: "agrees (stopped env) any (runLoop env fn fuel (context\<lparr>ac_messages := ms\<rparr>) ms' config)
      (runLoop (calm env) fn fuel (context\<lparr>ac_messages := ms\<rparr>) ms' config)" for ms ms'
    unfolding runLoop_def
    by (rule agrees_then(1) [OF agrees_poll [OF steering]])
      (use assms in \<open>auto simp: loop_ok_def state_ok_def context_tools_def intro!: agrees_run_loop\<close>)
  have said: "agrees (stopped env) any (forp (emit_message env) ms) (forp (emit_message env) ms)" for ms
    by (intro agrees_same_any yields_forp) (simp add: emit_message_def yields_any(2) lasting.I_emit)
  have "emit_message (calm env) = emit_message env" by (rule ext) simp
  then show ?thesis
    unfolding runAgentLoop_def Let_def calm_emit calm_fields
    by (simp only:) (intro agrees_then agrees_steps said loop)
qed

section \<open>Every tool call is answered\<close>

lemma demo_framed:
  assumes "\<And>w. R w w" and "\<And>w. R w (w - 1)"
  shows "framed R (env_sink demo_loop_env e)" "stream_framed R demo_stream" "config_framed R demo_config"
    "tools_framed R (context_tools \<lparr>ac_messages = ms, ac_tools = None\<rparr>)"
  using assms
  by (auto simp: demo_loop_env_def demo_stream_def demo_config_def framed_def stream_framed_def config_framed_def
      hooks_framed_def framed_fun_def update_framed_def framed_opt_def tools_framed_def context_tools_def ret_def)

lemma demo_supplies: "supplies incoming demo_config"
  by (simp add: supplies_def demo_config_def poll_def ret_def)

lemma demo_lasts: "abort_lasts demo_loop_env w w" "abort_lasts demo_loop_env w (w - 1)"
  by (simp_all add: abort_lasts_def demo_loop_env_def)

text \<open>
  C1: The events of a run that returns are well bracketed: \<open>AgentStart\<close>, then turns with
  their messages and tool executions inside, then \<open>AgentEnd\<close> as the last event, which
  carries the messages the run returns; those are the messages that were ended, in order;
  and they are the prompts with their declared tool changes followed by whole turns: messages
  that were supplied from outside, one assistant message, and its tool results, a failed or
  aborted response being the last. Unless the run ends aborted, the results answer every
  tool call of the turn's message, in order; if it does, they answer the first of them.
\<close>

theorem runAgentLoop_log:
  assumes "supplies incoming config"
    and "sink_lasts env" "stream_framed (abort_lasts env) fn" "config_framed (abort_lasts env) config"
    and "tools_framed (abort_lasts env) (context_tools context)"
    and run: "runAgentLoop env fn fuel prompts context config r = (Inr (Some ms), r')"
  shows "\<exists>l. run_log r' = run_log r @ l \<and> phase_run Idle l = Some Over \<and> last l = AgentEnd ms \<and>
     ended_messages l = ms \<and>
     (\<exists>now turns. ms = declareToolChanges now context prompts @ turns \<and>
        transcript_turns incoming (\<not> env_aborted env (run_world r')) turns)"
proof (cases "env_aborted env (run_world r')")
  case True
  from runAgentLoop_logs [OF assms(1)] run obtain l where "run_log r' = run_log r @ l"
    "phase_run Idle l = Some Over" "last l = AgentEnd ms" "ended_messages l = ms"
    "\<exists>now turns. ms = declareToolChanges now context prompts @ turns \<and> transcript_turns incoming (never_aborted env) turns"
    by (rule logsD) auto
  moreover from True have "never_aborted env = False" by (auto simp: never_aborted_def)
  ultimately show ?thesis using True by auto
next
  case False
  from agrees_runAgentLoop [OF assms(2-5), of fuel prompts] run False
  have calm: "runAgentLoop (calm env) fn fuel prompts context config r = (Inr (Some ms), r')"
    by (auto simp: agrees_def stopped_def dest!: spec [of _ r])
  from runAgentLoop_logs [OF assms(1)] calm obtain l where "run_log r' = run_log r @ l"
    "phase_run Idle l = Some Over" "last l = AgentEnd ms" "ended_messages l = ms"
    "\<exists>now turns. ms = declareToolChanges now context prompts @ turns \<and> transcript_turns incoming (never_aborted (calm env)) turns"
    by (rule logsD) auto
  with False show ?thesis by (auto simp: never_aborted_calm)
qed

theorem runAgentLoop_log_witness:
  "\<exists>l ms turns r'. runAgentLoop demo_loop_env demo_stream 3 [text_user_message ''hi'' 0]
       \<lparr>ac_messages = [], ac_tools = None\<rparr> demo_config \<lparr>run_log = [], run_world = 3\<rparr> = (Inr (Some ms), r') \<and>
     run_log r' = [] @ l \<and> phase_run Idle l = Some Over \<and> ended_messages l = ms \<and>
     transcript_turns incoming True turns \<and>
     (\<exists>now. ms = declareToolChanges now \<lparr>ac_messages = [], ac_tools = None :: nat agent_tool list option\<rparr>
        [text_user_message ''hi'' 0] @ turns)"
proof -
  obtain ms r' where run: "runAgentLoop demo_loop_env demo_stream 3 [text_user_message ''hi'' 0]
       \<lparr>ac_messages = [], ac_tools = None\<rparr> demo_config \<lparr>run_log = [], run_world = 3\<rparr> = (Inr (Some ms), r')"
    and w: "run_world r' = 1" using demo_run by blast
  note framed = demo_framed [of "abort_lasts demo_loop_env", OF demo_lasts]
  have "sink_lasts demo_loop_env" by (simp add: sink_lasts_def framed)
  from runAgentLoop_log [OF demo_supplies this framed(2-4) run] w run show ?thesis
    by (auto simp: demo_loop_env_def)
qed

section \<open>A run that ends\<close>

text \<open>
  A measure of the world that nothing makes larger and that every reason to go on makes
  smaller: a response that asks for tools, a batch of steering or follow-up messages, and a
  hook that asks for another turn.
\<close>

definition no_more :: "('w \<Rightarrow> nat) \<Rightarrow> 'w \<Rightarrow> 'w \<Rightarrow> bool" where
  "no_more \<mu> w w' \<longleftrightarrow> \<mu> w' \<le> \<mu> w"

definition sink_spends :: "('w \<Rightarrow> nat) \<Rightarrow> 'w env \<Rightarrow> bool" where
  "sink_spends \<mu> env \<longleftrightarrow> (\<forall>e. framed (no_more \<mu>) (env_sink env e))"

definition asks_tools :: "assistant_message \<Rightarrow> bool" where
  "asks_tools m \<longleftrightarrow> (\<exists>tc tcs. tool_calls_of m = Inr (tc # tcs))"

definition stream_spends :: "('w \<Rightarrow> nat) \<Rightarrow> 'w stream_fn \<Rightarrow> bool" where
  "stream_spends \<mu> fn \<longleftrightarrow> stream_framed (no_more \<mu>) fn \<and>
     (\<forall>model ms c w response w' v m v'. fn model ms c w = (Inr response, w') \<longrightarrow>
        rs_result response v = (Inr m, v') \<longrightarrow> asks_tools m \<longrightarrow> \<mu> v' < \<mu> v)"

definition polls_spend :: "('w \<Rightarrow> nat) \<Rightarrow> 'w loop_config \<Rightarrow> bool" where
  "polls_spend \<mu> config \<longleftrightarrow>
     (\<forall>w ms w'. poll (lc_getSteeringMessages config) w = (Inr ms, w') \<longrightarrow> ms \<noteq> [] \<longrightarrow> \<mu> w' < \<mu> w) \<and>
     (\<forall>w ms w'. poll (lc_getFollowUpMessages config) w = (Inr ms, w') \<longrightarrow> ms \<noteq> [] \<longrightarrow> \<mu> w' < \<mu> w) \<and>
     (\<forall>f turn w w'. lc_finishTurn config = Some f \<longrightarrow> f turn w = (Inr (Some TurnContinue), w') \<longrightarrow> \<mu> w' < \<mu> w)"

definition config_spends :: "('w \<Rightarrow> nat) \<Rightarrow> 'w loop_config \<Rightarrow> bool" where
  "config_spends \<mu> config \<longleftrightarrow> config_framed (no_more \<mu>) config \<and> polls_spend \<mu> config"

lemma polls_spend_update [simp]: "polls_spend \<mu> (apply_update u config) = polls_spend \<mu> config"
  by (simp add: polls_spend_def apply_update_def)

lemma no_more_frame: "world_frame (no_more \<mu>)"
  by unfold_locales (auto simp: no_more_def)

interpretation bounded: run_invariant "no_more \<mu>" env "\<lambda>r. sink_spends \<mu> env \<and> \<mu> (run_world r) \<le> k" for \<mu> env k
proof (intro run_invariant.intro no_more_frame run_invariant_axioms.intro)
  show "sink_spends \<mu> env \<and> \<mu> (run_world r) \<le> k \<Longrightarrow> no_more \<mu> (run_world r) w \<Longrightarrow>
      sink_spends \<mu> env \<and> \<mu> (run_world (r\<lparr>run_world := w\<rparr>)) \<le> k" for r w
    by (simp add: no_more_def)
  show "yields (\<lambda>r. sink_spends \<mu> env \<and> \<mu> (run_world r) \<le> k) any (emit env e)" for e
    unfolding yields_def
  proof (intro allI impI conjI)
    fix r :: "'a run" assume r: "sink_spends \<mu> env \<and> \<mu> (run_world r) \<le> k"
    then show "sink_spends \<mu> env" by simp
    obtain x w' where "env_sink env e (run_world r) = (x, w')" by fastforce
    with r show "\<mu> (run_world (snd (emit env e r))) \<le> k"
      unfolding sink_spends_def framed_def no_more_def emit_def
      by (auto dest!: spec [of _ e] spec [of _ "run_world r"])
  qed simp
qed

text \<open>\<open>costs \<mu> V c p\<close>: \<open>p\<close> never adds to the measure, and returns values in \<open>V\<close> at their cost \<open>c\<close>.\<close>

definition costs :: "('w \<Rightarrow> nat) \<Rightarrow> ('a \<Rightarrow> bool) \<Rightarrow> ('a \<Rightarrow> nat) \<Rightarrow> ('w run, 'a) prog \<Rightarrow> bool" where
  "costs \<mu> V c p \<longleftrightarrow> (\<forall>r x r'. p r = (Inr x, r') \<longrightarrow> V x \<and> \<mu> (run_world r') + c x \<le> \<mu> (run_world r))"

lemma costsD: "costs \<mu> V (\<lambda>_. 0) p \<Longrightarrow> p r = (Inr x, r') \<Longrightarrow> \<mu> (run_world r') \<le> \<mu> (run_world r)"
  unfolding costs_def by force

lemma costs_bindp:
  assumes "costs \<mu> U b p" and "\<And>x. U x \<Longrightarrow> costs \<mu> V (\<lambda>y. c y - b x) (f x)"
  shows "costs \<mu> V c (bindp p f)"
  unfolding costs_def
proof (intro allI impI)
  fix r y r' assume "bindp p f r = (Inr y, r')"
  then obtain x r1 where x: "p r = (Inr x, r1)" "f x r1 = (Inr y, r')"
    by (auto elim: bindp_InrE)
  with assms(1) have 1: "U x" "\<mu> (run_world r1) + b x \<le> \<mu> (run_world r)" unfolding costs_def by blast+
  from assms(2) [OF 1(1)] x(2) have "V y" "\<mu> (run_world r') + (c y - b x) \<le> \<mu> (run_world r1)"
    unfolding costs_def by blast+
  with 1 show "V y \<and> \<mu> (run_world r') + c y \<le> \<mu> (run_world r)" by simp
qed

lemma costs_nothing:
  assumes "sink_spends \<mu> env" and "\<And>k. yields (\<lambda>r. sink_spends \<mu> env \<and> \<mu> (run_world r) \<le> k) V p"
  shows "costs \<mu> V (\<lambda>_. 0) p"
  unfolding costs_def
proof (intro allI impI)
  fix r x r' assume "p r = (Inr x, r')"
  with assms(1) assms(2) [of "\<mu> (run_world r)"] show "V x \<and> \<mu> (run_world r') + 0 \<le> \<mu> (run_world r)"
    unfolding yields_def by (auto dest!: spec [of _ r])
qed

lemma costs_ret: "V x \<Longrightarrow> c x = 0 \<Longrightarrow> costs \<mu> V c (ret x)"
  by (auto simp: costs_def ret_def)

lemma costs_on_world:
  "(\<And>w x w'. p w = (Inr x, w') \<Longrightarrow> V x \<and> \<mu> w' + c x \<le> \<mu> w) \<Longrightarrow> costs \<mu> V c (on_world p)"
  by (auto simp: costs_def on_world_def split: prod.splits)

lemma costs_conj:
  "costs \<mu> V (\<lambda>_. 0) p \<Longrightarrow> costs \<mu> any c p \<Longrightarrow> costs \<mu> V c p"
  unfolding costs_def by blast

lemmas costs_then = costs_bindp [where U = any and b = "\<lambda>_. 0", simplified]

text \<open>One response.\<close>

abbreviation asked :: "assistant_message \<Rightarrow> nat" where
  "asked m \<equiv> (if asks_tools m then 1 else 0)"

lemma costs_emit: "sink_spends \<mu> env \<Longrightarrow> costs \<mu> any (\<lambda>_. 0) (emit env e)"
  by (rule costs_nothing, assumption, rule bounded.I_emit)

lemma costs_finish_response:
  assumes s: "sink_spends \<mu> env"
    and result: "\<And>v m v'. rs_result response v = (Inr m, v') \<Longrightarrow> \<mu> v' + asked m \<le> \<mu> v"
  shows "costs \<mu> any (\<lambda>y. asked (fst y)) (finish_response env config response added ms)"
proof -
  have "asks_tools (m\<lparr>am_thinkingLevel := l\<rparr>) = asks_tools m" for m l
    by (simp add: asks_tools_def tool_calls_of_def)
  then show ?thesis
    unfolding finish_response_def Let_def
    by (intro costs_bindp [where U = any and b = asked] costs_on_world)
      (auto simp: seqp_def result intro!: costs_then [OF costs_emit [OF s]] costs_then [OF costs_ret] costs_ret)
qed

lemma costs_consume:
  assumes s: "sink_spends \<mu> env"
    and result: "\<And>v m v'. rs_result response v = (Inr m, v') \<Longrightarrow> \<mu> v' + asked m \<le> \<mu> v"
  shows "\<forall>p\<in>set events. framed (no_more \<mu>) p \<Longrightarrow>
    costs \<mu> any (\<lambda>y. asked (fst y)) (consume_events env config response events added ms)"
proof (induction events arbitrary: added ms)
  case Nil
  show ?case by (simp add: costs_finish_response assms)
next
  case (Cons p events)
  then have IH: "costs \<mu> any (\<lambda>y. asked (fst y)) (consume_events env config response events added ms)" for added ms
    by simp
  have p: "costs \<mu> any (\<lambda>_. 0) (on_world p)"
    using s Cons.prems by (intro costs_nothing [OF s] bounded.on_world_any) simp
  note fin = costs_finish_response [OF s result]
  show ?case
    unfolding consume_events.simps
    by (rule costs_then [OF p])
      (auto simp: seqp_def intro!: costs_then [OF costs_emit [OF s]] IH fin split: assistant_event.split)
qed

lemma costs_stream:
  assumes s: "sink_spends \<mu> env" and fn: "stream_spends \<mu> fn" and c: "config_framed (no_more \<mu>) config"
  shows "costs \<mu> (\<lambda>y. ac_tools (snd y) = ac_tools context) (\<lambda>y. asked (fst y))
     (streamAssistantResponse env fn context config)"
proof (rule costs_conj)
  have framed: "stream_framed (no_more \<mu>) fn" using fn by (simp add: stream_spends_def)
  show "costs \<mu> (\<lambda>y. ac_tools (snd y) = ac_tools context) (\<lambda>_. 0) (streamAssistantResponse env fn context config)"
    by (rule costs_nothing [OF s bounded.stream_any [OF framed c]])
  have world: "costs \<mu> any (\<lambda>_. 0) (on_world p)" if "framed (no_more \<mu>) p" for p :: "('a, 'b) prog"
    by (rule costs_nothing [OF s bounded.on_world_any [OF that]])
  have t: "framed (no_more \<mu>) (case lc_transformContext config of
              None \<Rightarrow> ret (ac_messages context) | Some transform \<Rightarrow> transform (ac_messages context))"
    using c by (auto simp: config_framed_def framed_fun_def intro: bounded.framed_basic split: option.splits)
  have l: "framed (no_more \<mu>) (lc_convertToLlm config ms)" for ms using c by (simp add: config_framed_def)
  define ok where "ok response \<longleftrightarrow> (\<forall>p\<in>set (rs_events response). framed (no_more \<mu>) p) \<and>
      (\<forall>v m v'. rs_result response v = (Inr m, v') \<longrightarrow> \<mu> v' + asked m \<le> \<mu> v)" for response :: "'a response"
  have response: "costs \<mu> ok (\<lambda>_. 0) (on_world (fn model ms cfg))" for model ms cfg
  proof (rule costs_on_world)
    fix w x w' assume x: "fn model ms cfg w = (Inr x, w')"
    with framed have r: "framed (no_more \<mu>) (rs_result x)" "\<forall>p\<in>set (rs_events x). framed (no_more \<mu>) p"
      "no_more \<mu> w w'" unfolding stream_framed_def framed_def by (metis snd_conv)+
    moreover have "\<mu> v' + asked m \<le> \<mu> v" if v: "rs_result x v = (Inr m, v')" for v m v'
    proof (cases "asks_tools m")
      case True
      with fn x v have "\<mu> v' < \<mu> v" unfolding stream_spends_def by blast
      with True show ?thesis by simp
    next
      case False
      from r(1) v have "no_more \<mu> v v'" unfolding framed_def by (metis snd_conv)
      with False show ?thesis by (simp add: no_more_def)
    qed
    ultimately show "ok x \<and> \<mu> w' + 0 \<le> \<mu> w" by (simp add: ok_def no_more_def)
  qed
  show "costs \<mu> any (\<lambda>y. asked (fst y)) (streamAssistantResponse env fn context config)"
    unfolding streamAssistantResponse_def Let_def
    by (rule costs_then [OF costs_nothing [OF s bounded.on_world_any [OF t]]],
        rule costs_then [OF costs_nothing [OF s bounded.on_world_any [OF l]]],
        rule costs_then [OF costs_nothing [OF s bounded.on_world_any [OF bounded.api_key_framed [OF c]]]],
        rule costs_bindp [OF response],
        rule costs_bindp [OF costs_consume [OF s]])
      (auto simp: ok_def intro: costs_ret)
qed

text \<open>One turn: what keeps the run going was paid for.\<close>

definition steady :: "('w \<Rightarrow> nat) \<Rightarrow> 'w loop_state \<Rightarrow> bool" where
  "steady \<mu> st \<longleftrightarrow> state_ok (no_more \<mu>) st \<and> polls_spend \<mu> (ls_config st)"

definition wants_turn :: "'w loop_state \<Rightarrow> bool" where
  "wants_turn st \<longleftrightarrow> ls_hasMoreToolCalls st \<or> ls_pendingMessages st \<noteq> []"

fun goes_on :: "'w turn_outcome \<Rightarrow> nat" where
  "goes_on (RunOver _) = 0"
| "goes_on (RunOn st) = (if wants_turn st \<or> ls_explicitContinuation st then 1 else 0)"

text \<open>A turn leaves at most one reason to go on besides the other.\<close>

fun settled :: "'w turn_outcome \<Rightarrow> bool" where
  "settled (RunOver _) = True"
| "settled (RunOn st) = (\<not> (wants_turn st \<and> ls_explicitContinuation st))"

lemma goes_on_le: "goes_on out \<le> 1"
  by (cases out) auto

lemma costs_complete_turn:
  assumes s: "sink_spends \<mu> env" and st: "steady \<mu> st"
  shows "costs \<mu> (\<lambda>out. steady \<mu> (outcome_state out) \<and> settled out) (\<lambda>out. goes_on out - asked m) (complete_turn env st m)"
proof (rule costs_conj)
  from st have ok: "state_ok (no_more \<mu>) st" by (simp add: steady_def)
  have "costs \<mu> (state_ok (no_more \<mu>) \<circ> outcome_state) (\<lambda>_. 0) (complete_turn env st m)"
    by (rule costs_nothing [OF s bounded.complete_turn_yields [OF ok]])
  moreover have "polls_spend \<mu> (ls_config (outcome_state out)) \<and> settled out"
    if "complete_turn env st m r = (Inr out, r')" for r out r'
    using that st
    by (auto simp: complete_turn_def Let_def steady_def ret_def wants_turn_def elim!: bindp_InrE seqp_InrE split: if_splits)
  ultimately show "costs \<mu> (\<lambda>out. steady \<mu> (outcome_state out) \<and> settled out) (\<lambda>_. 0) (complete_turn env st m)"
    unfolding costs_def steady_def comp_def by blast
  show "costs \<mu> any (\<lambda>out. goes_on out - asked m) (complete_turn env st m)"
  proof (cases "asks_tools m")
    case True
    then have "(\<lambda>out :: 'a turn_outcome. goes_on out - asked m) = (\<lambda>_. 0)"
      using goes_on_le by (intro ext) simp
    with costs_nothing [OF s bounded.complete_turn_yields [OF ok], of m] show ?thesis
      by (auto simp: costs_def)
  next
    case False
    then have none: "run_tool_batch env st m r = (Inr b, r') \<Longrightarrow> b = None \<and> r' = r" for r b r'
      by (auto simp: run_tool_batch_def asks_tools_def liftp_def bindp_def ret_def neq_Nil_conv split: sum.splits if_splits)
    have turn: "costs \<mu> any (\<lambda>d. if d = Some TurnContinue then 1 else 0) (on_world (finish_turn st' turn))"
      if "ls_config st' = ls_config st" for st' turn
    proof (rule costs_on_world)
      fix w d w' assume d: "finish_turn st' turn w = (Inr d, w')"
      have "framed_fun (no_more \<mu>) (lc_finishTurn (ls_config st'))"
        using ok that by (simp add: state_ok_def config_framed_def)
      with d have "no_more \<mu> w w'"
        by (cases "lc_finishTurn (ls_config st')")
          (auto simp: finish_turn_def framed_fun_def framed_def ret_def no_more_def dest!: spec [of _ turn] spec [of _ w])
      moreover have "\<mu> w' < \<mu> w" if "d = Some TurnContinue"
        using d that st \<open>ls_config st' = ls_config st\<close>
        by (auto simp: finish_turn_def ret_def steady_def polls_spend_def split: option.splits)
      ultimately show "any d \<and> \<mu> w' + (if d = Some TurnContinue then 1 else 0) \<le> \<mu> w"
        by (auto simp: no_more_def)
    qed
    have poll: "costs \<mu> any (\<lambda>ms. if ms = [] then 0 else 1) (on_world (poll (lc_getSteeringMessages (ls_config st))))"
    proof (rule costs_on_world)
      fix w ms w' assume ms: "poll (lc_getSteeringMessages (ls_config st)) w = (Inr ms, w')"
      have "framed (no_more \<mu>) (poll (lc_getSteeringMessages (ls_config st)))"
        using ok by (intro bounded.framed_poll) (simp add: state_ok_def config_framed_def)
      with ms have "no_more \<mu> w w'" unfolding framed_def by (metis snd_conv)
      with ms st show "any ms \<and> \<mu> w' + (if ms = [] then 0 else 1) \<le> \<mu> w"
        unfolding steady_def polls_spend_def by (auto simp: no_more_def Suc_le_eq)
    qed
    have batch: "costs \<mu> (\<lambda>b. b = None) (\<lambda>_. 0) (run_tool_batch env st m)"
      using none unfolding costs_def by fastforce
    show ?thesis
    proof (cases "failed_turn m")
      case True
      then have "goes_on out = 0" if "complete_turn env st m r = (Inr out, r')" for out r r'
        using that by (auto simp: complete_turn_def failed_turn_def Let_def ret_def elim!: seqp_InrE)
      with costs_nothing [OF s bounded.complete_turn_yields [OF ok], of m] show ?thesis
        by (auto simp: costs_def)
    next
      case failed: False
      show ?thesis
        using failed unfolding complete_turn_def Let_def failed_turn_def
        by (simp only: if_False)
          (rule costs_bindp [OF batch], rule costs_bindp [OF turn], simp, unfold seqp_def,
           rule costs_then [OF costs_emit [OF s]],
           auto intro!: costs_then [OF costs_emit [OF s]] costs_ret costs_bindp [OF poll] simp: wants_turn_def False)
    qed
  qed
qed

lemma costs_run_turn:
  assumes s: "sink_spends \<mu> env" and fn: "stream_spends \<mu> fn" and st: "steady \<mu> st"
  shows "costs \<mu> (\<lambda>out. steady \<mu> (outcome_state out) \<and> settled out) goes_on (run_turn env fn st)"
proof -
  have kept: "polls_spend \<mu> (ls_config (snd y))" if "prepare_next_turn env st r = (Inr y, r')" for y r r'
    using that st
    by (auto simp: prepare_next_turn_def Let_def steady_def ret_def elim!: bindp_InrE seqp_InrE split: option.splits if_splits)
  from st have ok: "state_ok (no_more \<mu>) st" by (simp add: steady_def)
  have next_turn: "costs \<mu> (\<lambda>y. steady \<mu> (snd y)) (\<lambda>_. 0) (prepare_next_turn env st)"
    using costs_nothing [OF s bounded.prepare_next_turn_yields [OF ok]] kept
    unfolding costs_def steady_def by blast
  have app: "costs \<mu> (steady \<mu>) (\<lambda>_. 0) (append_messages env ms st)" if "steady \<mu> st" for ms st
  proof -
    have "ls_config st' = ls_config st" if "append_messages env ms st r = (Inr st', r')" for st' r r'
      using logsD [OF append_messages_logs that] by force
    with costs_nothing [OF s bounded.append_messages_yields, of st ms] that show ?thesis
      unfolding costs_def steady_def by metis
  qed
  have request: "costs \<mu> (steady \<mu>) (\<lambda>_. 0) (on_world (prepare_request st))" if "steady \<mu> st" for st
  proof -
    have "polls_spend \<mu> (ls_config st')" if "prepare_request st w = (Inr st', w')" for st' w w'
      using that \<open>steady \<mu> st\<close>
      by (auto simp: prepare_request_def ret_def steady_def elim!: bindp_InrE split: option.splits)
    then have "polls_spend \<mu> (ls_config st')" if "on_world (prepare_request st) r = (Inr st', r')" for st' r r'
      using that by (auto simp: on_world_def split: prod.splits)
    with costs_nothing [OF s bounded.prepare_request_yields, of st] that show ?thesis
      unfolding costs_def steady_def by metis
  qed
  show ?thesis
    unfolding run_turn_def case_prod_beta
  proof (rule costs_bindp [OF next_turn], simp only: diff_zero, rule costs_then [OF costs_nothing [OF s bounded.clock_any]],
      rule costs_bindp [OF app], assumption, simp only: diff_zero, rule costs_bindp [OF request])
    fix st2 :: "'a loop_state" assume "steady \<mu> st2"
    then show "steady \<mu> (st2\<lparr>ls_pendingMessages := []\<rparr>)" by (simp add: steady_def state_ok_def)
  next
    fix st3 :: "'a loop_state" assume st3: "steady \<mu> st3"
    then have "config_framed (no_more \<mu>) (ls_config st3)" by (simp add: steady_def state_ok_def)
    from costs_stream [OF s fn this]
    show "costs \<mu> (\<lambda>out. steady \<mu> (outcome_state out) \<and> settled out) (\<lambda>y. goes_on y - 0)
       (bindp (streamAssistantResponse env fn (ls_context st3) (ls_config st3)) (\<lambda>z.
        complete_turn env (st3\<lparr>ls_context := snd z,
          ls_newMessages := ls_newMessages st3 @ [AssistantMsg (fst z)]\<rparr>) (fst z)))"
      unfolding diff_zero
      by (rule costs_bindp)
        (rule costs_complete_turn [OF s], use st3 in \<open>simp add: steady_def state_ok_def context_tools_def\<close>)
  qed
qed

text \<open>The loop needs two units of fuel for every unit of the measure.\<close>

definition fuel_needed :: "('w \<Rightarrow> nat) \<Rightarrow> 'w loop_state \<Rightarrow> 'w run \<Rightarrow> nat" where
  "fuel_needed \<mu> st r = 2 * \<mu> (run_world r) + (if wants_turn st then 1 else 0) +
     (if ls_explicitContinuation st then 2 else 0)"

lemma run_loop_ends:
  assumes s: "sink_spends \<mu> env" and fn: "stream_spends \<mu> fn"
  shows "steady \<mu> st \<Longrightarrow> fuel_needed \<mu> st r < fuel \<Longrightarrow> fst (run_loop env fn fuel st r) \<noteq> Inr None"
proof (induction fuel arbitrary: st r)
  case (Suc fuel)
  show ?case
  proof (cases "wants_turn st")
    case True
    obtain x r' where x: "run_turn env fn st r = (x, r')" by fastforce
    have "fst (run_loop env fn fuel st' r') \<noteq> Inr None" if "x = Inr (RunOn st')" for st'
    proof (rule Suc.IH)
      from costs_run_turn [OF s fn Suc.prems(1)] x that
      have "steady \<mu> st'" "settled (RunOn st')" "\<mu> (run_world r') + goes_on (RunOn st') \<le> \<mu> (run_world r)"
        unfolding costs_def by fastforce+
      then show "steady \<mu> st'" "fuel_needed \<mu> st' r' < fuel"
        using Suc.prems(2) True by (auto simp: fuel_needed_def split: if_splits)
    qed
    with True x show ?thesis
      by (auto simp: wants_turn_def bindp_def ret_def split: sum.split turn_outcome.split)
  next
    case False
    obtain x r' where x: "on_world (poll (lc_getFollowUpMessages (ls_config st))) r = (x, r')" by fastforce
    then obtain w' where w: "poll (lc_getFollowUpMessages (ls_config st)) (run_world r) = (x, w')" "run_world r' = w'"
      by (auto simp: on_world_def split: prod.splits)
    have "framed (no_more \<mu>) (poll (lc_getFollowUpMessages (ls_config st)))"
      using Suc.prems(1) by (intro bounded.framed_poll) (simp add: steady_def state_ok_def config_framed_def)
    with w have le: "\<mu> (run_world r') \<le> \<mu> (run_world r)" unfolding framed_def no_more_def by (metis snd_conv)
    have less: "\<mu> (run_world r') < \<mu> (run_world r)" if "x = Inr ms" "ms \<noteq> []" for ms
      using w that Suc.prems(1) unfolding steady_def polls_spend_def by blast
    have more: "steady \<mu> (st\<lparr>ls_explicitContinuation := False, ls_pendingMessages := ms, ls_hasMoreToolCalls := True\<rparr>)"
      "steady \<mu> (st\<lparr>ls_explicitContinuation := False, ls_hasMoreToolCalls := True\<rparr>)" for ms
      using Suc.prems(1) by (simp_all add: steady_def state_ok_def)
    have "fst (run_loop env fn fuel (st\<lparr>ls_explicitContinuation := False, ls_pendingMessages := ms, ls_hasMoreToolCalls := True\<rparr>) r') \<noteq> Inr None"
      if "x = Inr ms" "ms \<noteq> []" for ms
      using less [OF that] Suc.prems(2) False
      by (intro Suc.IH more) (simp add: fuel_needed_def wants_turn_def)
    moreover have "fst (run_loop env fn fuel (st\<lparr>ls_explicitContinuation := False, ls_hasMoreToolCalls := True\<rparr>) r') \<noteq> Inr None"
      if "ls_explicitContinuation st"
      using le that Suc.prems(2) False
      by (intro Suc.IH more) (simp add: fuel_needed_def wants_turn_def)
    ultimately show ?thesis
      using False x by (auto simp: wants_turn_def bindp_def seqp_def emit_def ret_def split: sum.split prod.split)
  qed
qed simp

lemma bindp_refines:
  assumes "bindp m f r = (z, r')" and "z \<noteq> Inr None"
    and "\<And>x s. f x s = (z, r') \<Longrightarrow> g x s = (z, r')"
  shows "bindp m g r = (z, r')"
  using assms by (auto simp: bindp_def split: prod.splits sum.splits)

lemma runAgentLoop_more_fuel:
  assumes "runAgentLoop env fn n prompts context config r = (x, r')" and "x \<noteq> Inr None" and "n \<le> k"
  shows "runAgentLoop env fn k prompts context config r = (x, r')"
  using assms(1) run_loop_more_fuel [OF _ assms(2,3)] unfolding runAgentLoop_def runLoop_def Let_def seqp_def
  by (elim bindp_refines [OF _ assms(2)]) blast

lemma runAgentLoop_ends:
  assumes s: "sink_spends \<mu> env" and fn: "stream_spends \<mu> fn" and c: "config_spends \<mu> config"
    and tools: "tools_framed (no_more \<mu>) (context_tools context)"
  shows "fst (runAgentLoop env fn (2 * \<mu> (run_world r) + 2) prompts context config r) \<noteq> Inr None"
proof
  let ?fuel = "2 * \<mu> (run_world r) + 2"
  assume "fst (runAgentLoop env fn ?fuel prompts context config r) = Inr None"
  then obtain r' where none: "runAgentLoop env fn ?fuel prompts context config r = (Inr None, r')"
    by (metis prod.collapse)
  have emits: "costs \<mu> any (\<lambda>_. 0) (forp (emit_message env) ms)" for ms
    by (rule costs_nothing [OF s])
      (auto intro!: yields_forp yields_any(2) bounded.I_emit simp: emit_message_def)
  have poll: "costs \<mu> any (\<lambda>_. 0) (on_world (poll (lc_getSteeringMessages config)))"
    by (rule costs_nothing [OF s bounded.poll_any]) (use c in \<open>simp add: config_spends_def config_framed_def\<close>)
  have now: "costs \<mu> any (\<lambda>_. 0) (on_world (readp (env_now env)))"
    by (rule costs_nothing [OF s bounded.clock_any])
  from none obtain ms pending r5 where loop: "run_loop env fn ?fuel
       \<lparr>ls_context = context\<lparr>ac_messages := ac_messages context @ ms\<rparr>, ls_newMessages = ms, ls_config = config,
        ls_lastCompletedTurn = None, ls_explicitContinuation = False, ls_pendingMessages = pending,
        ls_hasMoreToolCalls = True\<rparr> r5 = (Inr None, r')"
    and r5: "\<mu> (run_world r5) \<le> \<mu> (run_world r)"
  proof -
    from none obtain now r1 r2 r3 r4 r5 pending u1 u2 u3 where
      steps: "on_world (readp (env_now env)) r = (Inr now, r1)" "emit env AgentStart r1 = (Inr u1, r2)"
        "emit env TurnStart r2 = (Inr u2, r3)"
        "forp (emit_message env) (declareToolChanges now context prompts) r3 = (Inr u3, r4)"
        "on_world (poll (lc_getSteeringMessages config)) r4 = (Inr pending, r5)"
      and loop: "run_loop env fn ?fuel
       \<lparr>ls_context = context\<lparr>ac_messages := ac_messages context @ declareToolChanges now context prompts\<rparr>,
        ls_newMessages = declareToolChanges now context prompts, ls_config = config,
        ls_lastCompletedTurn = None, ls_explicitContinuation = False, ls_pendingMessages = pending,
        ls_hasMoreToolCalls = True\<rparr> r5 = (Inr None, r')"
      unfolding runAgentLoop_def runLoop_def Let_def by (elim bindp_InrE seqp_InrE) blast
    have "\<mu> (run_world r5) \<le> \<mu> (run_world r)"
      using costsD [OF now steps(1)] costsD [OF costs_emit [OF s] steps(2)] costsD [OF costs_emit [OF s] steps(3)]
        costsD [OF emits steps(4)] costsD [OF poll steps(5)] by simp
    with loop that show thesis by blast
  qed
  let ?st = "\<lparr>ls_context = context\<lparr>ac_messages := ac_messages context @ ms\<rparr>, ls_newMessages = ms, ls_config = config,
        ls_lastCompletedTurn = None, ls_explicitContinuation = False, ls_pendingMessages = pending,
        ls_hasMoreToolCalls = True\<rparr>"
  have "steady \<mu> ?st"
    using c tools by (simp add: steady_def config_spends_def state_ok_def context_tools_def)
  moreover have "fuel_needed \<mu> ?st r5 < ?fuel" using r5 by (simp add: fuel_needed_def)
  ultimately show False using run_loop_ends [OF s fn, of ?st r5 ?fuel] loop by simp
qed

text \<open>
  C35: The loop ends by itself. When some measure of the application's world is never made
  larger, and is made smaller by every response that asks for tools, every batch of steering
  or follow-up messages and every hook decision to go on, then a run returns or rejects, with
  two units of fuel for every unit of the measure: there is no other reason to go on. More
  fuel does not change the outcome.
\<close>

theorem runAgentLoop_terminates:
  assumes "sink_spends \<mu> env" and "stream_spends \<mu> fn" and "config_spends \<mu> config"
    and "tools_framed (no_more \<mu>) (context_tools context)"
  shows "\<exists>x r'. x \<noteq> Inr None \<and>
     (\<forall>fuel > 2 * \<mu> (run_world r) + 1. runAgentLoop env fn fuel prompts context config r = (x, r'))"
proof -
  let ?fuel = "2 * \<mu> (run_world r) + 2"
  obtain x r' where x: "runAgentLoop env fn ?fuel prompts context config r = (x, r')" by fastforce
  with runAgentLoop_ends [OF assms, of r prompts] have "x \<noteq> Inr None" by simp
  with runAgentLoop_more_fuel [OF x this] show ?thesis by (intro exI [of _ x] exI [of _ r']) auto
qed

theorem runAgentLoop_terminates_witness:
  "\<exists>x r'. x \<noteq> Inr None \<and> (\<forall>fuel > 7. runAgentLoop demo_loop_env demo_stream fuel [text_user_message ''hi'' 0]
     \<lparr>ac_messages = [], ac_tools = None\<rparr> demo_config \<lparr>run_log = [], run_world = 3\<rparr> = (x, r'))"
proof -
  have f: "no_more (\<lambda>w. w) w w" "no_more (\<lambda>w. w) w (w - 1)" for w by (simp_all add: no_more_def)
  note framed = demo_framed [of "no_more (\<lambda>w. w)", OF f]
  have "asks_tools (demo_answer v) \<Longrightarrow> v = 3" for v
    by (auto simp: demo_answer_def asks_tools_def tool_calls_of_def demo_assistant_def List.map_filter_simps split: if_splits)
  then have "stream_spends (\<lambda>w. w) demo_stream"
    using framed(2) by (fastforce simp: stream_spends_def demo_stream_def ret_def)
  moreover have "sink_spends (\<lambda>w. w) demo_loop_env" by (simp add: sink_spends_def framed)
  moreover have "config_spends (\<lambda>w. w) demo_config"
    by (simp add: config_spends_def framed polls_spend_def) (simp add: demo_config_def poll_def ret_def)
  ultimately show ?thesis
    using runAgentLoop_terminates [of "\<lambda>w. w" demo_loop_env demo_stream demo_config "\<lparr>ac_messages = [], ac_tools = None\<rparr>"
        "\<lparr>run_log = [], run_world = 3\<rparr>" "[text_user_message ''hi'' 0]"] framed(4) by simp
qed

end
