(* ===== verification/Session_Entries.thy ===== *)
theory Session_Entries
  imports Transcript
begin

text \<open>
  Session files of \<open>packages/coding-agent/src/core/session-manager.ts\<close>: entries and
  headers, entry ids, the migrations of older versions and the line-wise reading of a
  file. An entry's time stamp is the instant its ISO text denotes. JSON text of one entry
  is a parameter (\<open>encode\<close>, \<open>decode\<close>); so is the source of random UUIDs, a sequence of
  which \<open>n\<close> have been drawn.
\<close>

section \<open>Entries\<close>

definition CURRENT_SESSION_VERSION :: nat where
  "CURRENT_SESSION_VERSION = 3"

record session_header =
  sh_version :: "nat option"
  sh_id :: string
  sh_timestamp :: int
  sh_cwd :: "string option"
  sh_parentSession :: "string option"

text \<open>\<open>firstKeptEntryIndex\<close> is the field version 1 files have in place of \<open>firstKeptEntryId\<close>.\<close>

record compaction_data =
  co_summary :: string
  co_firstKeptEntryId :: "string option"
  co_firstKeptEntryIndex :: "nat option"
  co_tokensBefore :: nat
  co_details :: "json option"
  co_usage :: "usage option"
  co_fromHook :: "bool option"
  co_systemMessage :: "system_message option"

record branch_summary_data =
  br_fromId :: string
  br_summary :: string
  br_details :: "json option"
  br_usage :: "usage option"
  br_fromHook :: "bool option"

record usage_data =
  ud_kind :: string
  ud_provider :: string
  ud_model :: string
  ud_usage :: usage
  ud_note :: "string option"

datatype entry_kind =
    MessageEntry agent_message
  | ThinkingLevelChange string
  | ModelChange string string
  | UsageEntry usage_data
  | Compaction compaction_data
  | BranchSummary branch_summary_data
  | CustomEntry string "json option"
  | CustomMessageEntry string content "json option" bool
  | ContextEdit string "content option"
  | LabelEntry string "string option"
  | SessionInfoEntry "string option"

text \<open>Entries of version 1 files have no id; it is the empty string until they are migrated.\<close>

record session_entry =
  se_id :: string
  se_parentId :: "string option"
  se_timestamp :: int
  se_kind :: entry_kind

datatype file_entry = HeaderEntry session_header | EntryLine session_entry

fun entry_of :: "file_entry \<Rightarrow> session_entry option" where
  "entry_of (EntryLine e) = Some e"
| "entry_of (HeaderEntry _) = None"

fun header_of :: "file_entry \<Rightarrow> session_header option" where
  "header_of (HeaderEntry h) = Some h"
| "header_of (EntryLine _) = None"

definition session_entries :: "file_entry list \<Rightarrow> session_entry list" where
  "session_entries fes = List.map_filter entry_of fes"

definition find_header :: "file_entry list \<Rightarrow> session_header option" where
  "find_header fes = (case List.map_filter header_of fes of [] \<Rightarrow> None | h # _ \<Rightarrow> Some h)"

fun is_compaction :: "entry_kind \<Rightarrow> bool" where
  "is_compaction (Compaction _) = True"
| "is_compaction _ = False"

fun is_label :: "entry_kind \<Rightarrow> bool" where
  "is_label (LabelEntry _ _) = True"
| "is_label _ = False"

fun is_system_entry :: "entry_kind \<Rightarrow> bool" where
  "is_system_entry (MessageEntry m) = is_system m"
| "is_system_entry _ = False"

section \<open>Ids\<close>

definition char_code :: "char \<Rightarrow> nat" where
  "char_code c = of_char c"

definition is_alnum :: "char \<Rightarrow> bool" where
  "is_alnum c \<longleftrightarrow>
     (let k = char_code c
      in (65 \<le> k \<and> k \<le> 90) \<or> (97 \<le> k \<and> k \<le> 122) \<or> (48 \<le> k \<and> k \<le> 57))"

definition is_id_char :: "char \<Rightarrow> bool" where
  "is_id_char c \<longleftrightarrow> is_alnum c \<or> c = CHR ''.'' \<or> c = CHR ''_'' \<or> c = CHR ''-''"

text \<open>The regular expression anchored at both ends: one alphanumeric character, or two with id characters between.\<close>

definition valid_session_id :: "string \<Rightarrow> bool" where
  "valid_session_id i \<longleftrightarrow> i \<noteq> [] \<and> is_alnum (hd i) \<and> is_alnum (last i) \<and> list_all is_id_char i"

definition assertValidSessionId :: "string \<Rightarrow> unit exc" where
  "assertValidSessionId i =
     (if valid_session_id i then Inr ()
      else Inl (''Session id must be non-empty, contain only alphanumeric characters, '' @
        [CHR 0x27] @ ''-'' @ [CHR 0x27] @ '', '' @ [CHR 0x27] @ ''_'' @ [CHR 0x27] @ '', and '' @
        [CHR 0x27] @ ''.'' @ [CHR 0x27] @ '', and start and end with an alphanumeric character''))"

fun generateId_tries :: "nat \<Rightarrow> (nat \<Rightarrow> string) \<Rightarrow> nat \<Rightarrow> string list \<Rightarrow> string \<times> nat" where
  "generateId_tries 0 uuid n ids = (uuid n, Suc n)"
| "generateId_tries (Suc tries) uuid n ids =
     (let i = take 8 (uuid n)
      in if i \<notin> set ids then (i, Suc n) else generateId_tries tries uuid (Suc n) ids)"

definition generateId :: "(nat \<Rightarrow> string) \<Rightarrow> nat \<Rightarrow> string list \<Rightarrow> string \<times> nat" where
  "generateId uuid n ids = generateId_tries 100 uuid n ids"

section \<open>Migrations\<close>

text \<open>
  The set passed to \<open>generateId\<close> stays empty throughout the migration. \<open>done\<close> holds the
  entries already migrated, so that \<open>firstKeptEntryIndex\<close> can be resolved in the array as
  it is at that moment.
\<close>

definition resolve_first_kept :: "file_entry list \<Rightarrow> compaction_data \<Rightarrow> compaction_data" where
  "resolve_first_kept entries c =
     (case co_firstKeptEntryIndex c of
        None \<Rightarrow> c
      | Some i \<Rightarrow>
          c\<lparr>co_firstKeptEntryIndex := None,
            co_firstKeptEntryId :=
              (if i < length entries
               then case entries ! i of
                      EntryLine t \<Rightarrow> if se_id t = [] then None else Some (se_id t)
                    | HeaderEntry _ \<Rightarrow> co_firstKeptEntryId c
               else co_firstKeptEntryId c)\<rparr>)"

fun migrateV1_from ::
  "(nat \<Rightarrow> string) \<Rightarrow> nat \<Rightarrow> string option \<Rightarrow> file_entry list \<Rightarrow> file_entry list \<Rightarrow> file_entry list \<times> nat" where
  "migrateV1_from uuid n prevId done [] = (done, n)"
| "migrateV1_from uuid n prevId done (HeaderEntry h # rest) =
     migrateV1_from uuid n prevId (done @ [HeaderEntry (h\<lparr>sh_version := Some 2\<rparr>)]) rest"
| "migrateV1_from uuid n prevId done (EntryLine e # rest) =
     (case generateId uuid n [] of
        (i, n') \<Rightarrow>
          let e1 = e\<lparr>se_id := i, se_parentId := prevId\<rparr>;
              e2 = (case se_kind e1 of
                      Compaction c \<Rightarrow>
                        e1\<lparr>se_kind := Compaction (resolve_first_kept (done @ EntryLine e1 # rest) c)\<rparr>
                    | _ \<Rightarrow> e1)
          in migrateV1_from uuid n' (Some i) (done @ [EntryLine e2]) rest)"

definition migrateV1ToV2 :: "(nat \<Rightarrow> string) \<Rightarrow> nat \<Rightarrow> file_entry list \<Rightarrow> file_entry list \<times> nat" where
  "migrateV1ToV2 uuid n entries = migrateV1_from uuid n None [] entries"

fun migrateV2_entry :: "file_entry \<Rightarrow> file_entry" where
  "migrateV2_entry (HeaderEntry h) = HeaderEntry (h\<lparr>sh_version := Some 3\<rparr>)"
| "migrateV2_entry (EntryLine e) =
     EntryLine (case se_kind e of
       MessageEntry (HookMsg m) \<Rightarrow> e\<lparr>se_kind := MessageEntry (CustomMsg m)\<rparr>
     | _ \<Rightarrow> e)"

definition migrateV2ToV3 :: "file_entry list \<Rightarrow> file_entry list" where
  "migrateV2ToV3 entries = map migrateV2_entry entries"

definition session_version :: "file_entry list \<Rightarrow> nat" where
  "session_version entries =
     (case find_header entries of
        None \<Rightarrow> 1
      | Some h \<Rightarrow> (case sh_version h of None \<Rightarrow> 1 | Some v \<Rightarrow> v))"

text \<open>The result says whether a migration ran, with the entries and the UUIDs drawn.\<close>

definition migrateToCurrentVersion ::
  "(nat \<Rightarrow> string) \<Rightarrow> nat \<Rightarrow> file_entry list \<Rightarrow> bool \<times> file_entry list \<times> nat" where
  "migrateToCurrentVersion uuid n entries =
     (let version = session_version entries
      in if version \<ge> CURRENT_SESSION_VERSION then (False, entries, n)
         else let (es1, n1) = (if version < 2 then migrateV1ToV2 uuid n entries else (entries, n));
                  es2 = (if version < 3 then migrateV2ToV3 es1 else es1)
              in (True, es2, n1))"

section \<open>Reading files\<close>

text \<open>White space of \<open>String.prototype.trim\<close> among the code units below 256.\<close>

definition is_js_space :: "char \<Rightarrow> bool" where
  "is_js_space c \<longleftrightarrow> c \<in> {CHR 0x09, NL, CHR 0x0B, CHR 0x0C, CR, CHR 0x20, CHR 0xA0}"

definition js_trim_start :: "string \<Rightarrow> string" where
  "js_trim_start s = dropWhile is_js_space s"

definition js_trim_end :: "string \<Rightarrow> string" where
  "js_trim_end s = rev (dropWhile is_js_space (rev s))"

definition js_trim :: "string \<Rightarrow> string" where
  "js_trim s = js_trim_end (js_trim_start s)"

text \<open>\<open>decode\<close> is \<open>JSON.parse\<close> of a line: \<open>None\<close> when it throws.\<close>

definition parseSessionEntryLine :: "(string \<Rightarrow> file_entry option) \<Rightarrow> string \<Rightarrow> file_entry option" where
  "parseSessionEntryLine decode line = (if js_trim line = [] then None else decode line)"

definition parseSessionEntries :: "(string \<Rightarrow> file_entry option) \<Rightarrow> string \<Rightarrow> file_entry list" where
  "parseSessionEntries decode s =
     List.map_filter (parseSessionEntryLine decode) (split_on NL (js_trim s))"

text \<open>
  One chunk of decoded text: \<open>pending\<close> is the unfinished last line so far; complete lines
  are parsed as they end.
\<close>

fun scan_lines ::
  "(string \<Rightarrow> file_entry option) \<Rightarrow> string list \<Rightarrow> file_entry list \<Rightarrow> string \<times> file_entry list" where
  "scan_lines decode [] entries = ([], entries)"
| "scan_lines decode [rest] entries = (rest, entries)"
| "scan_lines decode (line # l # ls) entries =
     scan_lines decode (l # ls)
       (entries @ (case parseSessionEntryLine decode line of None \<Rightarrow> [] | Some e \<Rightarrow> [e]))"

fun scan_chunks ::
  "(string \<Rightarrow> file_entry option) \<Rightarrow> string list \<Rightarrow> string \<times> file_entry list \<Rightarrow> string \<times> file_entry list" where
  "scan_chunks decode [] st = st"
| "scan_chunks decode (chunk # chunks) (pending, entries) =
     scan_chunks decode chunks (scan_lines decode (split_on NL (pending @ chunk)) entries)"

definition is_header :: "file_entry \<Rightarrow> bool" where
  "is_header fe = (case fe of HeaderEntry _ \<Rightarrow> True | EntryLine _ \<Rightarrow> False)"

text \<open>
  \<open>loadEntriesFromFile\<close> on the decoded reads of an existing file and the decoder's final
  text: the entries, none when the first is not a header, and whether the missing final
  newline is appended to the file.
\<close>

definition loadEntriesFromFile ::
  "(string \<Rightarrow> file_entry option) \<Rightarrow> string list \<Rightarrow> string \<Rightarrow> file_entry list \<times> bool" where
  "loadEntriesFromFile decode chunks final =
     (let (rest, complete) = scan_chunks decode chunks ([], []);
          pending = rest @ final;
          entries = complete @
            (case parseSessionEntryLine decode pending of None \<Rightarrow> [] | Some e \<Rightarrow> [e])
      in if entries = [] then ([], False)
         else if \<not> is_header (hd entries) then ([], False)
         else (entries, pending \<noteq> []))"

definition MAX_SESSION_HEADER_SCAN_BYTES :: nat where
  "MAX_SESSION_HEADER_SCAN_BYTES = 1024 * 1024"

text \<open>\<open>None\<close> keeps scanning, \<open>Some None\<close> is a parsed entry that is not a header.\<close>

definition parseSessionHeaderCandidate ::
  "(string \<Rightarrow> file_entry option) \<Rightarrow> string \<Rightarrow> session_header option option" where
  "parseSessionHeaderCandidate decode line =
     (if js_trim line = [] then None
      else case parseSessionEntryLine decode line of
             None \<Rightarrow> None
           | Some fe \<Rightarrow> Some (header_of fe))"

fun header_in_lines ::
  "(string \<Rightarrow> file_entry option) \<Rightarrow> string list \<Rightarrow> session_header option option \<times> string" where
  "header_in_lines decode [] = (None, [])"
| "header_in_lines decode [rest] = (None, rest)"
| "header_in_lines decode (line # l # ls) =
     (case parseSessionHeaderCandidate decode line of
        Some h \<Rightarrow> (Some h, [])
      | None \<Rightarrow> header_in_lines decode (l # ls))"

text \<open>
  The reads of the file with the bytes each returned; no more reads is the end of file.
  Beyond the scan limit one more byte is an error.
\<close>

fun readHeader_from ::
  "(string \<Rightarrow> file_entry option) \<Rightarrow> string \<Rightarrow> string \<Rightarrow> nat \<Rightarrow> string \<Rightarrow> (nat \<times> string) list
     \<Rightarrow> session_header option exc" where
  "readHeader_from decode path final scanned pending [] =
     Inr (case parseSessionHeaderCandidate decode (pending @ final) of None \<Rightarrow> None | Some h \<Rightarrow> h)"
| "readHeader_from decode path final scanned pending ((bytes, chunk) # reads) =
     (if scanned < MAX_SESSION_HEADER_SCAN_BYTES
      then case header_in_lines decode (split_on NL (pending @ chunk)) of
             (Some h, _) \<Rightarrow> Inr h
           | (None, pending') \<Rightarrow> readHeader_from decode path final (scanned + bytes) pending' reads
      else Inl (''Session header exceeds '' @ dec MAX_SESSION_HEADER_SCAN_BYTES @
                ''-byte scan limit: '' @ path))"

definition readSessionHeader ::
  "(string \<Rightarrow> file_entry option) \<Rightarrow> string \<Rightarrow> string \<Rightarrow> (nat \<times> string) list
     \<Rightarrow> session_header option exc" where
  "readSessionHeader decode path final reads = readHeader_from decode path final 0 [] reads"

definition readSessionHeaderForDiscovery ::
  "(string \<Rightarrow> file_entry option) \<Rightarrow> string \<Rightarrow> string \<Rightarrow> (nat \<times> string) list
     \<Rightarrow> session_header option" where
  "readSessionHeaderForDiscovery decode path final reads =
     (case readSessionHeader decode path final reads of Inl _ \<Rightarrow> None | Inr h \<Rightarrow> h)"

definition getLatestCompactionEntry :: "session_entry list \<Rightarrow> session_entry option" where
  "getLatestCompactionEntry entries = List.find (\<lambda>e. is_compaction (se_kind e)) (rev entries)"

section \<open>Fresh ids\<close>

text \<open>
  The UUID source: drawn UUIDs are distinct and longer than the eight characters a short id
  takes, and none of the ids in use is a UUID still to be drawn.
\<close>

definition uuid_ok :: "(nat \<Rightarrow> string) \<Rightarrow> bool" where
  "uuid_ok uuid \<longleftrightarrow> inj uuid \<and> (\<forall>k. 8 < length (uuid k))"

definition unused_from :: "(nat \<Rightarrow> string) \<Rightarrow> nat \<Rightarrow> string set \<Rightarrow> bool" where
  "unused_from uuid n ids \<longleftrightarrow> (\<forall>k\<ge>n. uuid k \<notin> ids)"

lemma unused_from_mono: "unused_from uuid n ids \<Longrightarrow> n \<le> n' \<Longrightarrow> unused_from uuid n' ids"
  by (simp add: unused_from_def)

lemma generateId_tries_spec:
  assumes u: "uuid_ok uuid" and "unused_from uuid n (set ids)"
    and "generateId_tries tries uuid n ids = (i, n')"
  shows "i \<notin> set ids \<and> n < n' \<and> i \<noteq> [] \<and> unused_from uuid n' (insert i (set ids))"
  using assms(2,3)
proof (induction tries arbitrary: n)
  case 0
  have "uuid k \<noteq> []" for k using u by (auto simp: uuid_ok_def dest!: spec [of _ k])
  with 0 show ?case
    using u by (auto simp: uuid_ok_def unused_from_def dest: injD)
next
  case (Suc tries)
  show ?case
  proof (cases "take 8 (uuid n) \<in> set ids")
    case True
    with Suc show ?thesis
      using unused_from_mono [of uuid n "set ids" "Suc n"] by (fastforce simp: Let_def)
  next
    case False
    have l: "8 < length (uuid k)" for k using u by (simp add: uuid_ok_def)
    then have "length (take 8 (uuid n)) = 8" by (simp add: less_imp_le min_absorb2)
    with l have "uuid k \<noteq> take 8 (uuid n)" "take 8 (uuid n) \<noteq> []" for k
      by (metis less_irrefl, metis l list.size(3) not_less0 length_0_conv take_eq_Nil zero_neq_numeral)
    with False Suc.prems show ?thesis
      by (auto simp: Let_def unused_from_def)
  qed
qed

lemma generateId_spec:
  assumes "uuid_ok uuid" and "unused_from uuid n (set ids)" and "generateId uuid n ids = (i, n')"
  shows "i \<notin> set ids" and "n < n'" and "i \<noteq> []" and "unused_from uuid n' (insert i (set ids))"
  using generateId_tries_spec [of uuid n ids 100 i n'] assms by (simp_all add: generateId_def)

section \<open>Reading is line by line\<close>

lemma split_on_append:
  "split_on c (a @ b) = butlast (split_on c a) @ split_on c (last (split_on c a) @ b)"
proof (induction a)
  case (Cons x a)
  have ne: "split_on c (y @ b) \<noteq> []" for y by simp
  obtain l ls where l: "split_on c a = l # ls" by (cases "split_on c a") auto
  show ?case
  proof (cases "x = c")
    case True
    then show ?thesis using Cons by simp
  next
    case False
    then show ?thesis using Cons l by (cases ls) (auto split: list.splits)
  qed
qed simp

lemma split_on_no_sep_id: "c \<notin> set s \<Longrightarrow> split_on c s = [s]"
  by (induction s) auto

lemma last_split_on_no_sep: "c \<notin> set (last (split_on c s))"
  by (rule split_on_no_sep [of _ c s]) simp

lemma scan_lines_eq:
  "ls \<noteq> [] \<Longrightarrow> scan_lines decode ls es =
     (last ls, es @ List.map_filter (parseSessionEntryLine decode) (butlast ls))"
  by (induction decode ls es rule: scan_lines.induct)
     (auto simp: List.map_filter_simps split: option.splits)

lemma scan_chunks_eq:
  "NL \<notin> set p \<Longrightarrow> scan_chunks decode chunks (p, es) =
     (last (split_on NL (p @ concat chunks)),
      es @ List.map_filter (parseSessionEntryLine decode) (butlast (split_on NL (p @ concat chunks))))"
proof (induction chunks arbitrary: p es)
  case Nil
  then show ?case by (simp add: split_on_no_sep_id List.map_filter_simps)
next
  case (Cons chunk chunks)
  let ?ls = "split_on NL (p @ chunk)"
  have "split_on NL (p @ concat (chunk # chunks)) =
      butlast ?ls @ split_on NL (last ?ls @ concat chunks)"
    using split_on_append [of NL "p @ chunk" "concat chunks"] by simp
  moreover have "scan_chunks decode chunks
      (last ?ls, es @ List.map_filter (parseSessionEntryLine decode) (butlast ?ls)) =
     (last (split_on NL (last ?ls @ concat chunks)),
      (es @ List.map_filter (parseSessionEntryLine decode) (butlast ?ls)) @
      List.map_filter (parseSessionEntryLine decode)
        (butlast (split_on NL (last ?ls @ concat chunks))))"
    by (rule Cons.IH) (rule last_split_on_no_sep)
  ultimately show ?case
    by (simp add: scan_lines_eq butlast_append List.map_filter_def)
qed

lemma loadEntriesFromFile_eq:
  "loadEntriesFromFile decode chunks final =
     (let ls = split_on NL (concat chunks);
          pending = last ls @ final;
          entries = List.map_filter (parseSessionEntryLine decode) (butlast ls @ [pending])
      in if entries = [] \<or> \<not> is_header (hd entries) then ([], False) else (entries, pending \<noteq> []))"
  by (simp add: loadEntriesFromFile_def scan_chunks_eq Let_def List.map_filter_def
      split: option.splits)

section \<open>What the migrations produce\<close>

text \<open>The ids a chain of entries carries, and the parents a linear history gives them.\<close>

fun linear_from :: "string option \<Rightarrow> session_entry list \<Rightarrow> bool" where
  "linear_from p [] = True"
| "linear_from p (e # es) = (se_parentId e = p \<and> linear_from (Some (se_id e)) es)"

fun same_payload :: "entry_kind \<Rightarrow> entry_kind \<Rightarrow> bool" where
  "same_payload (Compaction c) (Compaction c') =
     (c\<lparr>co_firstKeptEntryId := None, co_firstKeptEntryIndex := None\<rparr> =
      c'\<lparr>co_firstKeptEntryId := None, co_firstKeptEntryIndex := None\<rparr>)"
| "same_payload k k' = (k = k')"

lemma session_entries_simps [simp]:
  "session_entries [] = []"
  "session_entries (HeaderEntry h # fes) = session_entries fes"
  "session_entries (EntryLine e # fes) = e # session_entries fes"
  "session_entries (fes @ fes') = session_entries fes @ session_entries fes'"
  by (simp_all add: session_entries_def List.map_filter_def)

lemma same_payload_refl [simp]: "same_payload k k"
  by (cases k) auto

lemma generateId_Nil: "generateId uuid n [] = (take 8 (uuid n), Suc n)"
proof -
  have "generateId_tries (Suc t) uuid n [] = (take 8 (uuid n), Suc n)" for t by simp
  from this [of 99] show ?thesis by (simp add: generateId_def del: generateId_tries.simps)
qed

definition migrated_entry :: "session_entry \<Rightarrow> session_entry \<Rightarrow> bool" where
  "migrated_entry e e' \<longleftrightarrow>
     se_timestamp e' = se_timestamp e \<and> same_payload (se_kind e) (se_kind e')"

lemma same_payload_resolve:
  "same_payload (Compaction c) (Compaction (resolve_first_kept es c))"
  by (simp add: resolve_first_kept_def split: option.splits file_entry.splits)

lemma migrateV1_from_spec:
  "migrateV1_from uuid n prevId before fes = (out, n') \<Longrightarrow>
   \<exists>mid. out = before @ mid \<and> n' = n + length (session_entries fes) \<and>
     linear_from prevId (session_entries mid) \<and>
     map se_id (session_entries mid) = map (\<lambda>k. take 8 (uuid k)) [n..<n'] \<and>
     list_all2 migrated_entry (session_entries fes) (session_entries mid)"
proof (induction uuid n prevId before fes arbitrary: out n' rule: migrateV1_from.induct)
  case (2 uuid n prevId before h rest)
  from 2(1) [of out n'] 2(2) obtain mid where
    "out = (before @ [HeaderEntry (h\<lparr>sh_version := Some 2\<rparr>)]) @ mid"
    "n' = n + length (session_entries rest)" "linear_from prevId (session_entries mid)"
    "map se_id (session_entries mid) = map (\<lambda>k. take 8 (uuid k)) [n..<n']"
    "list_all2 migrated_entry (session_entries rest) (session_entries mid)" by auto
  then show ?case
    by (intro exI [of _ "HeaderEntry (h\<lparr>sh_version := Some 2\<rparr>) # mid"]) simp
next
  case (3 uuid n prevId before e rest)
  let ?i = "take 8 (uuid n)"
  let ?e1 = "e\<lparr>se_id := ?i, se_parentId := prevId\<rparr>"
  let ?e2 = "case se_kind ?e1 of
                Compaction c \<Rightarrow>
                  ?e1\<lparr>se_kind := Compaction (resolve_first_kept (before @ EntryLine ?e1 # rest) c)\<rparr>
              | _ \<Rightarrow> ?e1"
  have e2: "se_id ?e2 = ?i" "se_parentId ?e2 = prevId" "migrated_entry e ?e2"
    by (simp_all add: migrated_entry_def same_payload_resolve del: same_payload.simps
        split: entry_kind.split)
  from 3(2) have "migrateV1_from uuid (Suc n) (Some ?i) (before @ [EntryLine ?e2]) rest = (out, n')"
    by (simp add: generateId_Nil Let_def)
  from 3(1) [OF generateId_Nil [symmetric] refl refl this]
  obtain mid where m:
    "out = (before @ [EntryLine ?e2]) @ mid"
    "n' = Suc n + length (session_entries rest)" "linear_from (Some ?i) (session_entries mid)"
    "map se_id (session_entries mid) = map (\<lambda>k. take 8 (uuid k)) [Suc n..<n']"
    "list_all2 migrated_entry (session_entries rest) (session_entries mid)" by blast
  have cons: "[n..<n'] = n # [Suc n..<n']" using m(2) by (intro upt_conv_Cons) simp
  have "map se_id (session_entries (EntryLine ?e2 # mid)) = map (\<lambda>k. take 8 (uuid k)) [n..<n']"
    by (simp only: session_entries_simps list.map e2 m(4) cons)
  moreover have "n' = n + length (session_entries (EntryLine e # rest))"
    "linear_from prevId (session_entries (EntryLine ?e2 # mid))"
    "list_all2 migrated_entry (session_entries (EntryLine e # rest)) (session_entries (EntryLine ?e2 # mid))"
    using m e2 by (simp_all del: upt_Suc)
  ultimately show ?case using m(1)
    by (intro exI [of _ "EntryLine ?e2 # mid"]) (simp only: append_Cons append_assoc append_Nil simp_thms)
qed simp

lemma migrateV1ToV2_spec:
  assumes "migrateV1ToV2 uuid n fes = (out, n')"
  shows "n' = n + length (session_entries fes)" and "linear_from None (session_entries out)"
    and "map se_id (session_entries out) = map (\<lambda>k. take 8 (uuid k)) [n..<n']"
    and "list_all2 migrated_entry (session_entries fes) (session_entries out)"
  using migrateV1_from_spec [OF assms [unfolded migrateV1ToV2_def]] by auto

section \<open>Properties of the session file format\<close>

text \<open>
  Loading a session file does not depend on how its text is cut into reads: the loader,
  which parses lines as chunks arrive and carries an unfinished line over, returns exactly
  the parsed non-blank lines of the whole text, or nothing when the first parsed line is
  not a header; malformed lines are skipped, and the file is repaired exactly when a loaded
  text lacks its final newline.
\<close>

theorem load_is_by_lines:
  assumes "NL \<notin> set final"
  shows "loadEntriesFromFile decode chunks final =
     (let lines = split_on NL (concat chunks @ final);
          entries = List.map_filter (parseSessionEntryLine decode) lines
      in if entries = [] \<or> \<not> is_header (hd entries) then ([], False)
         else (entries, last lines \<noteq> []))"
proof -
  have "NL \<notin> set (last (split_on NL (concat chunks)) @ final)"
    using assms last_split_on_no_sep [of NL "concat chunks"] by auto
  then have "split_on NL (concat chunks @ final) =
      butlast (split_on NL (concat chunks)) @ [last (split_on NL (concat chunks)) @ final]"
    using split_on_append [of NL "concat chunks" final] by (simp add: split_on_no_sep_id)
  then show ?thesis by (simp add: loadEntriesFromFile_eq Let_def)
qed

definition demo_header :: "session_header" where
  "demo_header = \<lparr>sh_version = None, sh_id = ''s'', sh_timestamp = 0, sh_cwd = None, sh_parentSession = None\<rparr>"

definition demo_line :: "session_entry" where
  "demo_line = \<lparr>se_id = [], se_parentId = None, se_timestamp = 0, se_kind = ThinkingLevelChange ''low''\<rparr>"

definition demo_decode :: "string \<Rightarrow> file_entry option" where
  "demo_decode line =
     (if line = ''h'' then Some (HeaderEntry demo_header)
      else if line = ''e'' then Some (EntryLine demo_line) else None)"

theorem load_is_by_lines_witness:
  "loadEntriesFromFile demo_decode [''h'' @ [NL], ''x'' @ [NL], ''e''] [] =
     ([HeaderEntry demo_header, EntryLine demo_line], True)"
proof -
  have "NL \<notin> set []" by simp
  from load_is_by_lines [OF this, of demo_decode "[''h'' @ [NL], ''x'' @ [NL], ''e'']"]
  show ?thesis
    by (simp add: parseSessionEntryLine_def demo_decode_def js_trim_def js_trim_start_def
        js_trim_end_def is_js_space_def is_header_def List.map_filter_simps)
qed

text \<open>
  Migrating a version 1 file, a flat list, gives the linear history it denotes: the
  first entry is a root, every later one a child of the entry before it, each gets the id
  cut from its own UUID, and nothing of an entry's payload or time changes but the
  reference to the first kept entry of a compaction.
\<close>

theorem migrateV1_makes_a_chain:
  assumes "migrateV1ToV2 uuid n fes = (out, n')"
  shows "linear_from None (session_entries out) \<and>
     map se_id (session_entries out) = map (\<lambda>k. take 8 (uuid k)) [n..<n + length (session_entries fes)] \<and>
     list_all2 migrated_entry (session_entries fes) (session_entries out)"
  using migrateV1ToV2_spec [OF assms] by simp

definition demo_uuid :: "nat \<Rightarrow> string" where
  "demo_uuid n = replicate n (CHR ''x'') @ replicate 9 (CHR ''-'')"

lemma demo_uuid_ok [simp]: "uuid_ok demo_uuid"
proof -
  have "length (demo_uuid n) = n + 9" for n by (simp add: demo_uuid_def)
  then have "inj demo_uuid" by (metis add_right_cancel injI)
  then show ?thesis by (simp add: uuid_ok_def demo_uuid_def)
qed

definition demo_v1_file :: "file_entry list" where
  "demo_v1_file =
     [HeaderEntry demo_header, EntryLine demo_line, EntryLine demo_line]"

theorem migrateV1_makes_a_chain_witness:
  "let (out, n') = migrateV1ToV2 demo_uuid 0 demo_v1_file
   in linear_from None (session_entries out) \<and>
      map se_id (session_entries out) = [''--------'', ''x-------'']"
proof -
  obtain out n' where m: "migrateV1ToV2 demo_uuid 0 demo_v1_file = (out, n')" by fastforce
  have "map (\<lambda>k. take 8 (demo_uuid k)) [0..<0 + length (session_entries demo_v1_file)] =
      [''--------'', ''x-------'']" by code_simp
  with migrateV1_makes_a_chain [OF m] m show ?thesis by simp
qed

text \<open>
  C37: The migration hands \<open>generateId\<close> a set it never fills, so its ids are not checked
  against each other: two distinct UUIDs that agree in their first eight characters make
  an entry its own parent.
\<close>

theorem migrateV1_ids_unchecked:
  assumes "take 8 (uuid n) = take 8 (uuid (Suc n))"
  shows "let migrated = session_entries (fst (migrateV1ToV2 uuid n [EntryLine e, EntryLine e']))
     in se_parentId (migrated ! 1) = Some (se_id (migrated ! 1))"
proof -
  obtain out n' where m: "migrateV1ToV2 uuid n [EntryLine e, EntryLine e'] = (out, n')"
    by fastforce
  from migrateV1ToV2_spec(1,3) [OF m]
  have ids: "map se_id (session_entries out) = [take 8 (uuid n), take 8 (uuid (Suc n))]"
    by (simp add: upt_rec)
  then obtain a b where ab: "session_entries out = [a, b]" by (cases "session_entries out") auto
  with ids migrateV1ToV2_spec(2) [OF m] assms m show ?thesis by simp
qed

definition clashing_uuid :: "nat \<Rightarrow> string" where
  "clashing_uuid n = replicate 8 (CHR ''a'') @ dec n"

theorem migrateV1_ids_unchecked_witness:
  "let migrated = session_entries (fst (migrateV1ToV2 clashing_uuid 0 [EntryLine demo_line, EntryLine demo_line]))
   in se_parentId (migrated ! 1) = Some (se_id (migrated ! 1))"
  by (rule migrateV1_ids_unchecked) (simp add: clashing_uuid_def)

end
