(* ===== verification/Session_Context.thy ===== *)
theory Session_Context
  imports Session_Entries
begin

text \<open>
  From the entries of a session to the context of the model: the path from a leaf to its
  root, the settings along it, the compaction-aware entry list and the projection to
  messages with context edits (\<open>packages/coding-agent/src/core/session-manager.ts\<close>).
  Following parents need not end on a file with a cycle, so the path is \<open>None\<close> there.
\<close>

section \<open>The path of a leaf\<close>

definition buildEntryIndex ::
  "session_entry list \<Rightarrow> (string, session_entry) jsmap option \<Rightarrow> (string, session_entry) jsmap" where
  "buildEntryIndex entries byId =
     (case byId of Some m \<Rightarrow> m | None \<Rightarrow> fold (\<lambda>e. AList.update (se_id e) e) entries [])"

text \<open>\<open>current.parentId ? index.get(current.parentId) : undefined\<close>; the empty string is falsy.\<close>

definition parent_in :: "(string, session_entry) jsmap \<Rightarrow> session_entry \<Rightarrow> session_entry option" where
  "parent_in index e =
     (case se_parentId e of None \<Rightarrow> None | Some p \<Rightarrow> if p = [] then None else map_of index p)"

text \<open>The pushed path, already reversed.\<close>

partial_function (option) walk_up ::
  "(string, session_entry) jsmap \<Rightarrow> session_entry \<Rightarrow> session_entry list \<Rightarrow> session_entry list option" where
  [code]: "walk_up index current path =
     (case parent_in index current of
        None \<Rightarrow> Some (current # path)
      | Some p \<Rightarrow> walk_up index p (current # path))"

datatype leaf_arg = LeafUndefined | LeafNull | LeafId string

definition path_leaf ::
  "session_entry list \<Rightarrow> leaf_arg \<Rightarrow> (string, session_entry) jsmap \<Rightarrow> session_entry option" where
  "path_leaf entries leafId index =
     (case (case leafId of LeafId i \<Rightarrow> if i = [] then None else map_of index i | _ \<Rightarrow> None) of
        Some e \<Rightarrow> Some e
      | None \<Rightarrow> if entries = [] then None else Some (last entries))"

definition buildSessionPath ::
  "session_entry list \<Rightarrow> leaf_arg \<Rightarrow> (string, session_entry) jsmap option \<Rightarrow> session_entry list option" where
  "buildSessionPath entries leafId byId =
     (let index = buildEntryIndex entries byId
      in if leafId = LeafNull then Some []
         else case path_leaf entries leafId index of
                None \<Rightarrow> Some []
              | Some leaf \<Rightarrow> walk_up index leaf [])"

section \<open>Settings along a path\<close>

record model_ref =
  mr_provider :: string
  mr_modelId :: string

fun settings_step :: "session_entry \<Rightarrow> string \<times> model_ref option \<Rightarrow> string \<times> model_ref option" where
  "settings_step e (thinkingLevel, model) =
     (case se_kind e of
        ThinkingLevelChange l \<Rightarrow> (l, model)
      | ModelChange p m \<Rightarrow> (thinkingLevel, Some \<lparr>mr_provider = p, mr_modelId = m\<rparr>)
      | MessageEntry (AssistantMsg a) \<Rightarrow>
          (thinkingLevel, Some \<lparr>mr_provider = am_provider a, mr_modelId = am_model a\<rparr>)
      | _ \<Rightarrow> (thinkingLevel, model))"

definition getSessionContextSettings :: "session_entry list \<Rightarrow> string \<times> model_ref option" where
  "getSessionContextSettings path = fold settings_step path (''off'', None)"

section \<open>Entries and messages of the context\<close>

fun repair_content :: "agent_message \<Rightarrow> agent_message" where
  "repair_content (SystemMsg m) =
     SystemMsg (if sm_content m = NoContent then m\<lparr>sm_content := TextOnly []\<rparr> else m)"
| "repair_content (UserMsg m) =
     UserMsg (if um_content m = NoContent then m\<lparr>um_content := Blocks []\<rparr> else m)"
| "repair_content (AssistantMsg m) =
     AssistantMsg (if am_content m = NoContent then m\<lparr>am_content := Blocks []\<rparr> else m)"
| "repair_content (ToolResultMsg m) =
     ToolResultMsg (if tr_content m = NoContent then m\<lparr>tr_content := Blocks []\<rparr> else m)"
| "repair_content m = m"

definition sessionEntryToContextMessages :: "session_entry \<Rightarrow> agent_message list" where
  "sessionEntryToContextMessages e =
     (case se_kind e of
        MessageEntry m \<Rightarrow> [repair_content m]
      | CustomMessageEntry ct c details display \<Rightarrow>
          [CustomMsg (createCustomMessage ct (if c = NoContent then Blocks [] else c) display details
             (se_timestamp e))]
      | BranchSummary b \<Rightarrow>
          if br_summary b \<noteq> []
          then [BranchSummaryMsg (createBranchSummaryMessage (br_summary b) (br_fromId b) (se_timestamp e))]
          else []
      | Compaction c \<Rightarrow>
          let summary = CompactionSummaryMsg
                (createCompactionSummaryMessage (co_summary c) (co_tokensBefore c) (se_timestamp e))
          in (case co_systemMessage c of Some m \<Rightarrow> [SystemMsg m, summary] | None \<Rightarrow> [summary])
      | _ \<Rightarrow> [])"

text \<open>The loop over the entries before the compaction, with its flag.\<close>

fun kept_before :: "string option \<Rightarrow> bool \<Rightarrow> session_entry list \<Rightarrow> session_entry list" where
  "kept_before firstKept found [] = []"
| "kept_before firstKept found (e # es) =
     (let found' = (found \<or> firstKept = Some (se_id e))
      in if found' \<and> \<not> is_system_entry (se_kind e) then e # kept_before firstKept found' es
         else kept_before firstKept found' es)"

definition latest_compaction :: "session_entry list \<Rightarrow> (session_entry \<times> compaction_data) option" where
  "latest_compaction path =
     fold (\<lambda>e c. case se_kind e of Compaction d \<Rightarrow> Some (e, d) | _ \<Rightarrow> c) path None"

definition compacted_path :: "session_entry list \<Rightarrow> session_entry list" where
  "compacted_path path =
     (case latest_compaction path of
        None \<Rightarrow> path
      | Some (c, d) \<Rightarrow>
          (case find_index (\<lambda>e. se_id e = se_id c) path of
             None \<Rightarrow> path
           | Some i \<Rightarrow> c # kept_before (co_firstKeptEntryId d) False (take i path) @ drop (Suc i) path))"

definition buildContextEntries ::
  "session_entry list \<Rightarrow> leaf_arg \<Rightarrow> (string, session_entry) jsmap option \<Rightarrow> session_entry list option" where
  "buildContextEntries entries leafId byId =
     (case buildSessionPath entries leafId byId of None \<Rightarrow> None | Some path \<Rightarrow> Some (compacted_path path))"

text \<open>A string replaces the content of an assistant or tool result message as one text block.\<close>

definition as_blocks :: "content \<Rightarrow> content" where
  "as_blocks c = (case c of TextOnly s \<Rightarrow> Blocks [TextContent s None] | _ \<Rightarrow> c)"

fun replace_content :: "content \<Rightarrow> agent_message \<Rightarrow> agent_message" where
  "replace_content c (UserMsg m) = UserMsg (m\<lparr>um_content := c\<rparr>)"
| "replace_content c (AssistantMsg m) = AssistantMsg (m\<lparr>am_content := as_blocks c\<rparr>)"
| "replace_content c (ToolResultMsg m) = ToolResultMsg (m\<lparr>tr_content := as_blocks c\<rparr>)"
| "replace_content c (CustomMsg m) = CustomMsg (m\<lparr>cm_content := c\<rparr>)"
| "replace_content c m = m"

text \<open>The edit, when there is one, is its replacement: \<open>None\<close> omits the entry.\<close>

definition projectContextEntry :: "session_entry \<Rightarrow> content option option \<Rightarrow> agent_message list" where
  "projectContextEntry e edit =
     (let messages = sessionEntryToContextMessages e
      in case edit of
           None \<Rightarrow> messages
         | Some None \<Rightarrow> []
         | Some (Some c) \<Rightarrow> map (replace_content c) messages)"

record projected_entry =
  pe_sourceEntry :: session_entry
  pe_messages :: "agent_message list"

record session_projection =
  sp_entries :: "projected_entry list"
  sp_messages :: "agent_message list"
  sp_thinkingLevel :: string
  sp_model :: "model_ref option"

definition context_edits :: "session_entry list \<Rightarrow> (string, content option) jsmap" where
  "context_edits entries =
     fold (\<lambda>e edits. case se_kind e of ContextEdit t r \<Rightarrow> AList.update t r edits | _ \<Rightarrow> edits) entries []"

definition project_at ::
  "(string, content option) jsmap \<Rightarrow> nat \<times> session_entry \<Rightarrow> projected_entry" where
  "project_at edits ie =
     (case ie of (index, e) \<Rightarrow>
        \<lparr>pe_sourceEntry = e,
         pe_messages = (if is_compaction (se_kind e) \<and> index > 0 then []
                        else projectContextEntry e (map_of edits (se_id e)))\<rparr>)"

definition project_entries :: "session_entry list \<Rightarrow> projected_entry list" where
  "project_entries contextEntries =
     map (project_at (context_edits contextEntries)) (List.enumerate 0 contextEntries)"

definition project_path :: "session_entry list \<Rightarrow> session_entry list \<Rightarrow> session_projection" where
  "project_path path contextEntries =
     (let (thinkingLevel, model) = getSessionContextSettings path;
          projectedEntries = project_entries contextEntries
      in \<lparr>sp_entries = projectedEntries,
          sp_messages = concat (map pe_messages projectedEntries),
          sp_thinkingLevel = thinkingLevel,
          sp_model = model\<rparr>)"

definition buildSessionProjection ::
  "session_entry list \<Rightarrow> leaf_arg \<Rightarrow> (string, session_entry) jsmap option \<Rightarrow> session_projection option" where
  "buildSessionProjection entries leafId byId =
     (case buildSessionPath entries leafId byId of
        None \<Rightarrow> None
      | Some path \<Rightarrow>
          (case buildContextEntries entries leafId byId of
             None \<Rightarrow> None
           | Some contextEntries \<Rightarrow> Some (project_path path contextEntries)))"

record session_context =
  sx_messages :: "agent_message list"
  sx_thinkingLevel :: string
  sx_model :: "model_ref option"

definition buildSessionContext ::
  "session_entry list \<Rightarrow> leaf_arg \<Rightarrow> (string, session_entry) jsmap option \<Rightarrow> session_context option" where
  "buildSessionContext entries leafId byId =
     (case buildSessionProjection entries leafId byId of
        None \<Rightarrow> None
      | Some p \<Rightarrow> Some \<lparr>sx_messages = sp_messages p, sx_thinkingLevel = sp_thinkingLevel p,
                        sx_model = sp_model p\<rparr>)"

section \<open>Histories\<close>

text \<open>
  The history of a session as the manager writes it: every id is new and not empty, and a
  parent is an entry written before.
\<close>

fun rooted_from :: "string set \<Rightarrow> session_entry list \<Rightarrow> bool" where
  "rooted_from S [] = True"
| "rooted_from S (e # es) =
     (se_id e \<notin> S \<and> se_id e \<noteq> [] \<and>
      (case se_parentId e of None \<Rightarrow> True | Some p \<Rightarrow> p \<in> S) \<and>
      rooted_from (insert (se_id e) S) es)"

definition rooted :: "session_entry list \<Rightarrow> bool" where
  "rooted es = rooted_from {} es"

abbreviation ids_of :: "session_entry list \<Rightarrow> string set" where
  "ids_of es \<equiv> se_id ` set es"

lemma rooted_from_append:
  "rooted_from S (es @ es') \<longleftrightarrow> rooted_from S es \<and> rooted_from (S \<union> ids_of es) es'"
  by (induction es arbitrary: S) auto

lemma rooted_Nil [simp]: "rooted []"
  by (simp add: rooted_def)

lemma rooted_snoc:
  "rooted (es @ [e]) \<longleftrightarrow>
     rooted es \<and> se_id e \<notin> ids_of es \<and> se_id e \<noteq> [] \<and>
     (case se_parentId e of None \<Rightarrow> True | Some p \<Rightarrow> p \<in> ids_of es)"
  by (simp add: rooted_def rooted_from_append split: option.splits)

lemma rooted_distinct: "rooted es \<Longrightarrow> distinct (map se_id es)"
  by (induction es rule: rev_induct) (auto simp: rooted_snoc)

lemma rooted_id_nonempty: "rooted es \<Longrightarrow> e \<in> set es \<Longrightarrow> se_id e \<noteq> []"
  by (induction es rule: rev_induct) (auto simp: rooted_snoc)

lemma rooted_nonempty_id: "rooted es \<Longrightarrow> [] \<notin> ids_of es"
  using rooted_id_nonempty by force

lemma rooted_parent_mem:
  "rooted es \<Longrightarrow> e \<in> set es \<Longrightarrow> se_parentId e = Some p \<Longrightarrow> p \<in> ids_of es"
  by (induction es rule: rev_induct) (auto simp: rooted_snoc)

lemma rooted_parent:
  "rooted es \<Longrightarrow> e \<in> set es \<Longrightarrow> se_parentId e = Some p \<Longrightarrow> p \<in> ids_of es \<and> p \<noteq> []"
  using rooted_parent_mem [of es e p] rooted_nonempty_id [of es] by blast

text \<open>The index of a history maps each id to its entry.\<close>

definition indexes :: "(string, session_entry) jsmap \<Rightarrow> session_entry list \<Rightarrow> bool" where
  "indexes index es \<longleftrightarrow> map_of index = map_of (map (\<lambda>e. (se_id e, e)) es)"

lemma indexes_lookup:
  "indexes index es \<Longrightarrow> distinct (map se_id es) \<Longrightarrow> e \<in> set es \<Longrightarrow> map_of index (se_id e) = Some e"
  by (simp add: indexes_def comp_def map_of_is_SomeI)

lemma indexes_Some:
  "indexes index es \<Longrightarrow> map_of index i = Some e \<Longrightarrow> e \<in> set es \<and> se_id e = i"
  by (auto simp: indexes_def dest!: map_of_SomeD)

lemma indexes_dom: "indexes index es \<Longrightarrow> fst ` set index = ids_of es"
  by (metis (no_types, lifting) indexes_def dom_map_of_conv_image_fst list.map_comp list.set_map
      comp_def fst_conv map_eq_conv)

lemma indexes_build:
  assumes "distinct (map se_id es)"
  shows "indexes (buildEntryIndex es None) es"
proof -
  have "buildEntryIndex es None = jsmap_of (map (\<lambda>e. (se_id e, e)) es)"
    by (simp add: buildEntryIndex_def jsmap_of_def fold_map comp_def)
  with assms show ?thesis
    by (simp add: indexes_def fun_eq_iff map_of_jsmap_of map_of_rev_distinct comp_def)
qed

lemma indexes_snoc:
  "indexes index es \<Longrightarrow> se_id e \<notin> ids_of es \<Longrightarrow> indexes (AList.update (se_id e) e index) (es @ [e])"
  by (auto simp: indexes_def fun_eq_iff AList.update_conv' map_add_def map_of_eq_None_iff
      split: option.splits)
     (force simp: map_of_eq_None_iff dest: map_of_SomeD)+

section \<open>The path is one backward pass over the history\<close>

text \<open>
  The reference reading: going back through the history, take the entry looked for and
  look for its parent from there.
\<close>

fun trace_back :: "session_entry list \<Rightarrow> string option \<Rightarrow> session_entry list" where
  "trace_back [] target = []"
| "trace_back (e # before) target =
     (if target = Some (se_id e) then trace_back before (se_parentId e) @ [e]
      else trace_back before target)"

definition path_to :: "session_entry list \<Rightarrow> string option \<Rightarrow> session_entry list" where
  "path_to es target = trace_back (rev es) target"

lemma path_to_Nil [simp]: "path_to [] t = []"
  by (simp add: path_to_def)

lemma path_to_snoc:
  "path_to (es @ [e]) t = (if t = Some (se_id e) then path_to es (se_parentId e) @ [e] else path_to es t)"
  by (simp add: path_to_def)

lemma path_to_absent: "(\<forall>i. t = Some i \<longrightarrow> i \<notin> ids_of es) \<Longrightarrow> path_to es t = []"
  by (induction es arbitrary: t rule: rev_induct) (auto simp: path_to_snoc)

lemma path_to_None [simp]: "path_to es None = []"
  by (simp add: path_to_absent)

lemma path_to_append:
  assumes "rooted (es @ es')" and "\<forall>i. t = Some i \<longrightarrow> i \<in> ids_of es"
  shows "path_to (es @ es') t = path_to es t"
  using assms(1)
proof (induction es' rule: rev_induct)
  case (snoc e es')
  then have "t \<noteq> Some (se_id e)" "rooted (es @ es')"
    using assms(2) rooted_snoc [of "es @ es'" e] by auto
  with snoc.IH path_to_snoc [of "es @ es'" e t] show ?case by simp
qed simp

lemma set_path_to: "set (path_to es t) \<subseteq> set es"
proof (induction es arbitrary: t rule: rev_induct)
  case (snoc e es)
  from snoc [of t] snoc [of "se_parentId e"] show ?case by (auto simp: path_to_snoc)
qed simp

lemma path_to_last:
  "rooted es \<Longrightarrow> i \<in> ids_of es \<Longrightarrow> path_to es (Some i) \<noteq> [] \<and> se_id (last (path_to es (Some i))) = i"
  by (induction es rule: rev_induct) (auto simp: path_to_snoc rooted_snoc)

lemma linear_from_snoc:
  "linear_from p (es @ [e]) \<longleftrightarrow>
     linear_from p es \<and> se_parentId e = (if es = [] then p else Some (se_id (last es)))"
  by (induction es arbitrary: p) auto

lemma path_to_linear: "rooted es \<Longrightarrow> linear_from None (path_to es t)"
proof (induction es arbitrary: t rule: rev_induct)
  case (snoc e es)
  show ?case
  proof (cases "t = Some (se_id e) \<and> se_parentId e \<noteq> None")
    case True
    then obtain p where p: "se_parentId e = Some p" by auto
    with snoc.prems have "rooted es" "p \<in> ids_of es" by (auto simp: rooted_snoc)
    with path_to_last [of es p] snoc.IH [of "Some p"] p True show ?thesis
      by (simp add: path_to_snoc linear_from_snoc)
  next
    case False
    then show ?thesis using snoc by (auto simp: path_to_snoc linear_from_snoc rooted_snoc)
  qed
qed simp

lemma distinct_path_to: "rooted es \<Longrightarrow> distinct (map se_id (path_to es t))"
proof (induction es arbitrary: t rule: rev_induct)
  case (snoc e es)
  then have "se_id e \<notin> se_id ` set (path_to es u)" for u
    using set_path_to [of es u] by (auto simp: rooted_snoc)
  with snoc show ?case by (auto simp: path_to_snoc rooted_snoc)
qed simp

lemma sublist_path_to: "subseq (path_to es t) es"
  by (induction es arbitrary: t rule: rev_induct)
     (auto simp: path_to_snoc subseq_append_iff intro: list_emb_append2)

lemma linear_determined:
  assumes "rooted es" and "linear_from None path" and "set path \<subseteq> set es" and "path \<noteq> []"
  shows "path = path_to es (Some (se_id (last path)))"
  using assms
proof (induction es arbitrary: path rule: rev_induct)
  case (snoc e es)
  obtain q x where path: "path = q @ [x]" using snoc.prems(4) by (cases path rule: rev_cases) auto
  have r: "rooted es" and fresh: "se_id e \<notin> ids_of es" using snoc.prems(1) by (auto simp: rooted_snoc)
  have before: "set q \<subseteq> set es" if "linear_from None (q @ [x])" "set (q @ [x]) \<subseteq> set (es @ [e])"
    for q x using that
  proof (induction q arbitrary: x rule: rev_induct)
    case (snoc y q)
    then have "se_parentId x = Some (se_id y)" "x \<in> set (es @ [e])"
      by (simp_all add: linear_from_snoc flip: append_assoc)
    then have "se_id y \<in> ids_of es"
      using \<open>rooted (es @ [e])\<close> rooted_parent_mem [OF r, of x "se_id y"] by (auto simp: rooted_snoc)
    then have "y \<in> set es" using snoc.prems fresh by auto
    moreover have "set q \<subseteq> set es"
    proof (rule snoc.IH)
      show "linear_from None (q @ [y])" using snoc.prems(1) linear_from_snoc [of None "q @ [y]" x] by blast
      show "set (q @ [y]) \<subseteq> set (es @ [e])" using snoc.prems(2) by auto
    qed
    ultimately show ?case by simp
  qed simp
  from before [of q x] snoc.prems path have q: "set q \<subseteq> set es" by simp
  have lin: "linear_from None q" "se_parentId x = (if q = [] then None else Some (se_id (last q)))"
    using snoc.prems(2) path by (simp_all add: linear_from_snoc)
  show ?case
  proof (cases "x = e")
    case True
    with lin path q snoc.IH [OF r lin(1) q] show ?thesis
      by (auto simp: path_to_snoc)
  next
    case False
    then have x: "x \<in> set es" using snoc.prems(3) path by auto
    with fresh have "se_id x \<noteq> se_id e" by (metis image_eqI)
    have "se_id (last path) \<noteq> se_id e" using path \<open>se_id x \<noteq> se_id e\<close> by simp
    moreover have "path = path_to es (Some (se_id (last path)))"
    proof (rule snoc.IH [OF r snoc.prems(2) _ snoc.prems(4)])
      show "set path \<subseteq> set es" using x q path by simp
    qed
    ultimately show ?thesis
      using path_to_snoc [of es e "Some (se_id (last path))"] by simp
  qed
qed simp

lemma walk_up_trace:
  assumes lk: "\<And>x. x \<in> set all \<Longrightarrow> map_of index (se_id x) = Some x"
  shows "rooted es \<Longrightarrow> set es \<subseteq> set all \<Longrightarrow> e \<in> set es \<Longrightarrow>
    walk_up index e acc = Some (path_to es (Some (se_id e)) @ acc)"
proof (induction es arbitrary: e acc rule: rev_induct)
  case (snoc x es)
  then have r: "rooted es" and fresh: "se_id x \<notin> ids_of es" by (auto simp: rooted_snoc)
  show ?case
  proof (cases "e = x")
    case True
    show ?thesis
    proof (cases "se_parentId e")
      case None
      then show ?thesis using True
        by (subst walk_up.simps) (simp add: parent_in_def path_to_snoc)
    next
      case (Some p)
      then have "p \<in> ids_of es" using snoc.prems(1) True by (simp add: rooted_snoc)
      then obtain y where y: "y \<in> set es" "se_id y = p" by auto
      moreover have "p \<noteq> []" using \<open>p \<in> ids_of es\<close> rooted_nonempty_id [OF r] by blast
      moreover have "map_of index p = Some y" using lk [of y] y snoc.prems(2) by auto
      moreover have "walk_up index y (e # acc) = Some (path_to es (Some p) @ e # acc)"
        using snoc.IH [OF r _ y(1)] snoc.prems(2) y by simp
      ultimately show ?thesis using True Some
        by (subst walk_up.simps) (simp add: parent_in_def path_to_snoc)
    qed
  next
    case False
    with snoc.prems have "e \<in> set es" by auto
    moreover from this fresh have "se_id e \<noteq> se_id x" by (metis image_eqI)
    ultimately show ?thesis using snoc.IH [OF r] snoc.prems(2) by (simp add: path_to_snoc)
  qed
qed simp

lemma walk_up_path:
  assumes "rooted es" and "indexes index es" and "e \<in> set es"
  shows "walk_up index e acc = Some (path_to es (Some (se_id e)) @ acc)"
  using walk_up_trace [of es index es e acc] indexes_lookup [OF assms(2)] rooted_distinct assms
  by blast

definition leaf_id :: "session_entry list \<Rightarrow> leaf_arg \<Rightarrow> string option" where
  "leaf_id es l =
     (case l of
        LeafNull \<Rightarrow> None
      | LeafUndefined \<Rightarrow> if es = [] then None else Some (se_id (last es))
      | LeafId i \<Rightarrow> if i \<in> ids_of es then Some i else if es = [] then None else Some (se_id (last es)))"

lemma buildSessionPath_eq:
  assumes "rooted es" and "indexes (buildEntryIndex es byId) es"
  shows "buildSessionPath es leaf byId = Some (path_to es (leaf_id es leaf))"
proof -
  let ?ix = "buildEntryIndex es byId"
  have walk: "walk_up ?ix e [] = Some (path_to es (Some (se_id e)))" if "e \<in> set es" for e
    using walk_up_path [OF assms that] by simp
  have miss: "i = [] \<or> map_of ?ix i = None" if "i \<notin> ids_of es" for i
    using that indexes_Some [OF assms(2), of i] by (cases "map_of ?ix i") auto
  have hit: "i \<noteq> [] \<and> (\<exists>e. map_of ?ix i = Some e \<and> e \<in> set es \<and> se_id e = i)" if "i \<in> ids_of es" for i
    using that rooted_nonempty_id [OF assms(1)] indexes_lookup [OF assms(2) rooted_distinct [OF assms(1)]]
    by force
  show ?thesis
  proof (cases leaf)
    case (LeafId i)
    show ?thesis
    proof (cases "i \<in> ids_of es")
      case True
      with hit [OF True] walk LeafId show ?thesis
        by (auto simp: buildSessionPath_def path_leaf_def leaf_id_def Let_def)
    next
      case False
      with miss [OF False] walk LeafId show ?thesis
        by (auto simp: buildSessionPath_def path_leaf_def leaf_id_def Let_def)
    qed
  qed (use walk in \<open>auto simp: buildSessionPath_def path_leaf_def leaf_id_def Let_def\<close>)
qed

section \<open>Compaction of a path\<close>

lemma kept_before_found:
  "kept_before fk True es = filter (\<lambda>e. \<not> is_system_entry (se_kind e)) es"
  by (induction es) (simp_all add: Let_def)

lemma kept_before_eq:
  "kept_before fk False es =
     filter (\<lambda>e. \<not> is_system_entry (se_kind e)) (dropWhile (\<lambda>e. fk \<noteq> Some (se_id e)) es)"
  by (induction es) (simp_all add: Let_def kept_before_found)

lemma latest_compaction_fold:
  "(\<forall>e \<in> set es. \<not> is_compaction (se_kind e)) \<Longrightarrow>
     fold (\<lambda>e c. case se_kind e of Compaction d \<Rightarrow> Some (e, d) | _ \<Rightarrow> c) es acc = acc"
  by (induction es arbitrary: acc) (auto split: entry_kind.splits)

lemma latest_compaction_None:
  "(\<forall>e \<in> set path. \<not> is_compaction (se_kind e)) \<Longrightarrow> latest_compaction path = None"
  by (simp add: latest_compaction_def latest_compaction_fold)

lemma latest_compaction_split:
  assumes "se_kind c = Compaction d" and "\<forall>e \<in> set post. \<not> is_compaction (se_kind e)"
  shows "latest_compaction (pre @ c # post) = Some (c, d)"
  using assms by (simp add: latest_compaction_def latest_compaction_fold)

lemma find_index_split:
  "P x \<Longrightarrow> (\<forall>y \<in> set xs. \<not> P y) \<Longrightarrow> find_index P (xs @ x # ys) = Some (length xs)"
  by (induction xs) auto

lemma compacted_path_plain:
  "(\<forall>e \<in> set path. \<not> is_compaction (se_kind e)) \<Longrightarrow> compacted_path path = path"
  by (simp add: compacted_path_def latest_compaction_None)

definition kept_tail :: "compaction_data \<Rightarrow> session_entry list \<Rightarrow> session_entry list" where
  "kept_tail d pre =
     filter (\<lambda>e. \<not> is_system_entry (se_kind e))
       (dropWhile (\<lambda>e. co_firstKeptEntryId d \<noteq> Some (se_id e)) pre)"

lemma compacted_path_split:
  assumes "se_kind c = Compaction d" and "\<forall>e \<in> set post. \<not> is_compaction (se_kind e)"
    and "distinct (map se_id (pre @ c # post))"
  shows "compacted_path (pre @ c # post) = c # kept_tail d pre @ post"
proof -
  have "find_index (\<lambda>e. se_id e = se_id c) (pre @ c # post) = Some (length pre)"
    using assms(3) by (intro find_index_split) (auto simp: image_iff)
  with latest_compaction_split [OF assms(1,2), of pre] show ?thesis
    by (simp add: compacted_path_def kept_before_eq kept_tail_def)
qed

text \<open>Every path is plain, or splits at its last compaction.\<close>

lemma path_cases:
  obtains (plain) "\<forall>e \<in> set path. \<not> is_compaction (se_kind e)"
  | (compacted) pre c d post where "path = pre @ c # post" "se_kind c = Compaction d"
      "\<forall>e \<in> set post. \<not> is_compaction (se_kind e)"
proof (cases "\<exists>e \<in> set path. is_compaction (se_kind e)")
  case True
  from split_list_last_prop [OF this] obtain pre c post where
    "path = pre @ c # post" "is_compaction (se_kind c)" "\<forall>e \<in> set post. \<not> is_compaction (se_kind e)"
    by blast
  then show ?thesis using compacted by (cases "se_kind c") auto
qed (use plain in blast)

section \<open>Appending to a path\<close>

lemma compacted_path_snoc:
  assumes "distinct (map se_id (path @ [e]))" and "\<not> is_compaction (se_kind e)"
  shows "compacted_path (path @ [e]) = compacted_path path @ [e]"
proof (cases path rule: path_cases)
  case plain
  with assms(2) show ?thesis by (simp add: compacted_path_plain)
next
  case (compacted pre c d post)
  have "distinct (map se_id (pre @ c # post))" using assms(1) compacted by simp
  from compacted_path_split [OF compacted(2,3) this]
  have 1: "compacted_path path = c # kept_tail d pre @ post" using compacted by simp
  have "distinct (map se_id (pre @ c # (post @ [e])))" using assms(1) compacted by simp
  moreover have "\<forall>x \<in> set (post @ [e]). \<not> is_compaction (se_kind x)" using compacted assms by auto
  ultimately have "compacted_path (pre @ c # (post @ [e])) = c # kept_tail d pre @ post @ [e]"
    using compacted_path_split [OF compacted(2)] by blast
  with 1 show ?thesis using compacted by simp
qed

definition is_edit :: "entry_kind \<Rightarrow> bool" where
  "is_edit k = (case k of ContextEdit _ _ \<Rightarrow> True | _ \<Rightarrow> False)"

lemma context_edits_snoc:
  "context_edits (es @ [e]) =
     (case se_kind e of ContextEdit t r \<Rightarrow> AList.update t r (context_edits es) | _ \<Rightarrow> context_edits es)"
  by (simp add: context_edits_def split: entry_kind.split)

lemma context_edits_target:
  "map_of (context_edits es) t = Some r \<Longrightarrow> \<exists>e \<in> set es. se_kind e = ContextEdit t r"
proof (induction es rule: rev_induct)
  case (snoc e es)
  then show ?case
    by (auto simp: context_edits_snoc AList.update_conv' split: entry_kind.splits if_splits)
qed (simp add: context_edits_def)

text \<open>The last edit of an entry decides.\<close>

lemma context_edits_latest:
  "map_of (context_edits es) t =
     (case List.map_filter (\<lambda>e. case se_kind e of ContextEdit u r \<Rightarrow> if u = t then Some r else None | _ \<Rightarrow> None)
        (rev es) of [] \<Rightarrow> None | r # _ \<Rightarrow> Some r)"
  by (induction es rule: rev_induct)
     (auto simp: context_edits_def List.map_filter_simps AList.update_conv' split: entry_kind.splits)

lemma project_entries_snoc:
  assumes "\<not> is_edit (se_kind e)"
  shows "project_entries (es @ [e]) =
     project_entries es @ [project_at (context_edits es) (length es, e)]"
proof -
  have "context_edits (es @ [e]) = context_edits es"
    using assms by (simp add: context_edits_snoc is_edit_def split: entry_kind.splits)
  then show ?thesis by (simp add: project_entries_def enumerate_append_eq)
qed

definition projected_messages :: "session_entry list \<Rightarrow> agent_message list" where
  "projected_messages es = concat (map pe_messages (project_entries es))"

lemma sp_messages_project_path [simp]:
  "sp_messages (project_path path ces) = projected_messages ces"
  by (simp add: project_path_def projected_messages_def Let_def split: prod.split)

lemma projected_messages_snoc:
  assumes "\<not> is_edit (se_kind e)" and "\<not> is_compaction (se_kind e)"
    and "map_of (context_edits es) (se_id e) = None"
  shows "projected_messages (es @ [e]) = projected_messages es @ sessionEntryToContextMessages e"
  using assms
  by (simp add: projected_messages_def project_entries_snoc project_at_def projectContextEntry_def)

lemma project_from_pos:
  "0 < n \<Longrightarrow> concat (map pe_messages (map (project_at edits) (List.enumerate n es))) =
     concat (map (\<lambda>e. projectContextEntry e (map_of edits (se_id e)))
       (filter (\<lambda>e. \<not> is_compaction (se_kind e)) es))"
  by (induction es arbitrary: n) (simp_all add: project_at_def)

lemma projected_messages_Cons:
  "projected_messages (c # es) =
     projectContextEntry c (map_of (context_edits (c # es)) (se_id c)) @
     concat (map (\<lambda>e. projectContextEntry e (map_of (context_edits (c # es)) (se_id e)))
       (filter (\<lambda>e. \<not> is_compaction (se_kind e)) es))"
  using project_from_pos [of "Suc 0" "context_edits (c # es)" es]
  by (simp add: projected_messages_def project_entries_def project_at_def)

lemma buildSessionProjection_eq:
  assumes "rooted es" and "indexes (buildEntryIndex es byId) es"
  shows "buildSessionProjection es leaf byId =
     (let path = path_to es (leaf_id es leaf) in Some (project_path path (compacted_path path)))"
  using buildSessionPath_eq [OF assms]
  by (simp add: buildSessionProjection_def buildContextEntries_def Let_def)

lemma buildSessionContext_eq:
  assumes "rooted es" and "indexes (buildEntryIndex es byId) es"
  shows "\<exists>sx. buildSessionContext es leaf byId = Some sx \<and>
     sx_messages sx = projected_messages (compacted_path (path_to es (leaf_id es leaf)))"
  using buildSessionProjection_eq [OF assms]
  by (auto simp: buildSessionContext_def Let_def)

section \<open>Properties of session contexts\<close>

text \<open>
  C30: On a history whose parents precede their children, following parents from an entry
  ends, and the result is the one path from a root to it: it starts at an entry without a
  parent, every later entry is a child of the one before, no entry repeats, the order is
  that of the file, and any other chain from a root to the entry is the same list. It is
  also what one backward pass over the file collects.
\<close>

theorem session_path_unique:
  assumes "rooted es" and "indexes (buildEntryIndex es byId) es" and "i \<in> ids_of es"
  shows "\<exists>path. buildSessionPath es (LeafId i) byId = Some path \<and>
     path = trace_back (rev es) (Some i) \<and> path \<noteq> [] \<and> se_id (last path) = i \<and>
     linear_from None path \<and> distinct (map se_id path) \<and> subseq path es \<and>
     (\<forall>q. linear_from None q \<and> set q \<subseteq> set es \<and> q \<noteq> [] \<and> se_id (last q) = i \<longrightarrow> q = path)"
proof (intro exI conjI allI impI)
  show "buildSessionPath es (LeafId i) byId = Some (path_to es (Some i))"
    using buildSessionPath_eq [OF assms(1,2)] assms(3) by (simp add: leaf_id_def)
  show "path_to es (Some i) = trace_back (rev es) (Some i)" by (simp add: path_to_def)
  show "path_to es (Some i) \<noteq> []" "se_id (last (path_to es (Some i))) = i"
    using path_to_last [OF assms(1,3)] by blast+
  show "linear_from None (path_to es (Some i))" by (rule path_to_linear [OF assms(1)])
  show "distinct (map se_id (path_to es (Some i)))" by (rule distinct_path_to [OF assms(1)])
  show "subseq (path_to es (Some i)) es" by (rule sublist_path_to)
next
  fix q assume "linear_from None q \<and> set q \<subseteq> set es \<and> q \<noteq> [] \<and> se_id (last q) = i"
  then show "q = path_to es (Some i)" using linear_determined [OF assms(1), of q] by auto
qed

definition demo_entry :: "string \<Rightarrow> string option \<Rightarrow> entry_kind \<Rightarrow> session_entry" where
  "demo_entry i p k = \<lparr>se_id = i, se_parentId = p, se_timestamp = 0, se_kind = k\<rparr>"

definition demo_user :: "string \<Rightarrow> entry_kind" where
  "demo_user s = MessageEntry (UserMsg \<lparr>um_content = TextOnly s, um_timestamp = 0\<rparr>)"

definition demo_compaction :: "string \<Rightarrow> entry_kind" where
  "demo_compaction kept = Compaction
     \<lparr>co_summary = ''s'', co_firstKeptEntryId = Some kept, co_firstKeptEntryIndex = None, co_tokensBefore = 9,
      co_details = None, co_usage = None, co_fromHook = None, co_systemMessage = None\<rparr>"

text \<open>A history with a side branch (\<open>d\<close>), a compaction (\<open>c\<close>) and an entry after it.\<close>

definition demo_history :: "session_entry list" where
  "demo_history =
     [demo_entry ''a'' None (demo_user ''one''), demo_entry ''b'' (Some ''a'') (demo_user ''two''),
      demo_entry ''d'' (Some ''a'') (demo_user ''side''), demo_entry ''c'' (Some ''b'') (demo_compaction ''b''),
      demo_entry ''e'' (Some ''c'') (demo_user ''three'')]"

lemma demo_history_ok [simp]:
  "rooted demo_history" "indexes (buildEntryIndex demo_history None) demo_history"
proof -
  show "rooted demo_history" by (simp add: rooted_def demo_history_def demo_entry_def)
  then show "indexes (buildEntryIndex demo_history None) demo_history"
    by (intro indexes_build rooted_distinct)
qed

theorem session_path_unique_witness:
  "\<exists>path. buildSessionPath demo_history (LeafId ''e'') None = Some path \<and>
     map se_id path = [''a'', ''b'', ''c'', ''e'']"
proof -
  have "''e'' \<in> ids_of demo_history" by (simp add: demo_history_def demo_entry_def)
  from session_path_unique [OF demo_history_ok this] obtain path where
    "buildSessionPath demo_history (LeafId ''e'') None = Some path"
    "path = trace_back (rev demo_history) (Some ''e'')" by blast
  moreover have "map se_id (trace_back (rev demo_history) (Some ''e'')) = [''a'', ''b'', ''c'', ''e'']"
    by (simp add: demo_history_def demo_entry_def)
  ultimately show ?thesis by simp
qed

text \<open>
  C20: When the path of a session has a compaction, the model sees exactly: what the last
  compaction contributes (its checkpoint system message and its summary), then the entries
  before it from its first kept entry on, without their system messages, then the entries
  after it; older compactions contribute nothing, and the latest edit of an entry decides
  what the entry contributes.
\<close>

theorem compacted_context:
  assumes "rooted es" and "indexes (buildEntryIndex es byId) es"
    and "path_to es (leaf_id es leaf) = pre @ c # post"
    and "se_kind c = Compaction d" and "\<forall>e \<in> set post. \<not> is_compaction (se_kind e)"
  shows "\<exists>sx edits. buildSessionContext es leaf byId = Some sx \<and>
     edits = map_of (context_edits (c # kept_tail d pre @ post)) \<and>
     sx_messages sx = projectContextEntry c (edits (se_id c)) @
       concat (map (\<lambda>e. projectContextEntry e (edits (se_id e)))
         (filter (\<lambda>e. \<not> is_compaction (se_kind e)) (kept_tail d pre) @ post))"
proof -
  have "distinct (map se_id (pre @ c # post))" using distinct_path_to [OF assms(1)] assms(3) by metis
  then have "compacted_path (pre @ c # post) = c # kept_tail d pre @ post"
    using compacted_path_split [OF assms(4,5)] by blast
  moreover have "filter (\<lambda>e. \<not> is_compaction (se_kind e)) post = post" using assms(5) by simp
  ultimately show ?thesis
    using buildSessionContext_eq [OF assms(1,2), of leaf] assms(3) by (auto simp: projected_messages_Cons)
qed

theorem compacted_context_witness:
  "\<exists>sx. buildSessionContext demo_history (LeafId ''e'') None = Some sx \<and>
     sx_messages sx =
       [CompactionSummaryMsg \<lparr>cs_summary = ''s'', cs_tokensBefore = 9, cs_timestamp = 0\<rparr>,
        UserMsg \<lparr>um_content = TextOnly ''two'', um_timestamp = 0\<rparr>,
        UserMsg \<lparr>um_content = TextOnly ''three'', um_timestamp = 0\<rparr>]"
proof -
  let ?e = "demo_entry"
  let ?pre = "[?e ''a'' None (demo_user ''one''), ?e ''b'' (Some ''a'') (demo_user ''two'')]"
  let ?c = "?e ''c'' (Some ''b'') (demo_compaction ''b'')"
  let ?post = "[?e ''e'' (Some ''c'') (demo_user ''three'')]"
  obtain d where d: "se_kind ?c = Compaction d" by (simp add: demo_entry_def demo_compaction_def)
  have "path_to demo_history (leaf_id demo_history (LeafId ''e'')) = ?pre @ ?c # ?post"
    by (simp add: path_to_def leaf_id_def demo_history_def demo_entry_def)
  moreover have "\<forall>e \<in> set ?post. \<not> is_compaction (se_kind e)" by (simp add: demo_entry_def demo_user_def)
  ultimately obtain sx edits where sx: "buildSessionContext demo_history (LeafId ''e'') None = Some sx"
    "edits = map_of (context_edits (?c # kept_tail d ?pre @ ?post))"
    "sx_messages sx = projectContextEntry ?c (edits (se_id ?c)) @
       concat (map (\<lambda>e. projectContextEntry e (edits (se_id e)))
         (filter (\<lambda>e. \<not> is_compaction (se_kind e)) (kept_tail d ?pre) @ ?post))"
    using compacted_context [OF demo_history_ok _ d, of "LeafId ''e''" ?pre ?post] by blast
  with d show ?thesis
    by (auto simp: demo_entry_def demo_compaction_def demo_user_def kept_tail_def context_edits_def
        projectContextEntry_def sessionEntryToContextMessages_def createCompactionSummaryMessage_def)
qed

end
