(* ===== verification/Summary_Utils.thy ===== *)
theory Summary_Utils
  imports Session_Context "HOL-Library.Char_ord" "HOL-Library.List_Lexorder"
begin

text \<open>
  What compaction and branch summaries share: the files a conversation touched and the text
  of a conversation (\<open>packages/coding-agent/src/core/compaction/utils.ts\<close>), and the sums of
  usages (\<open>packages/coding-agent/src/core/usage-totals.ts\<close>). The code sorts file names by
  their code units, which is the lexicographic order on strings here.
\<close>

section \<open>File operations\<close>

record file_operations =
  fo_read :: "string list"
  fo_written :: "string list"
  fo_edited :: "string list"

definition createFileOps :: file_operations where
  "createFileOps = \<lparr>fo_read = [], fo_written = [], fo_edited = []\<rparr>"

text \<open>The sets are insertion-ordered; a path that is no string, or empty, is ignored.\<close>

definition addFileOp :: "string \<Rightarrow> json option \<Rightarrow> file_operations \<Rightarrow> file_operations" where
  "addFileOp toolName args ops =
     (case (case args of None \<Rightarrow> JUndefined | Some a \<Rightarrow> json_get a ''path'') of
        JStr path \<Rightarrow>
          if path = [] then ops
          else if toolName = ''read'' then ops\<lparr>fo_read := set_add path (fo_read ops)\<rparr>
          else if toolName = ''write'' then ops\<lparr>fo_written := set_add path (fo_written ops)\<rparr>
          else if toolName = ''edit'' then ops\<lparr>fo_edited := set_add path (fo_edited ops)\<rparr>
          else ops
      | _ \<Rightarrow> ops)"

fun extractFileOpsFromMessage :: "agent_message \<Rightarrow> file_operations \<Rightarrow> file_operations" where
  "extractFileOpsFromMessage (ToolResultMsg m) ops =
     fold (\<lambda>c. addFileOp (nc_name c) (nc_arguments c))
       (case tr_nestedCalls m of None \<Rightarrow> [] | Some n \<Rightarrow> ntc_calls n) ops"
| "extractFileOpsFromMessage (AssistantMsg m) ops =
     (case am_content m of
        Blocks bs \<Rightarrow> fold (\<lambda>c. addFileOp (tc_name c) (Some (tc_arguments c)))
                      (List.map_filter block_tool_call bs) ops
      | _ \<Rightarrow> ops)"
| "extractFileOpsFromMessage _ ops = ops"

definition computeFileLists :: "file_operations \<Rightarrow> string list \<times> string list" where
  "computeFileLists ops =
     (let modified = fold set_add (fo_written ops) (fold set_add (fo_edited ops) []);
          readOnly = sort (filter (\<lambda>f. f \<notin> set modified) (fo_read ops))
      in (readOnly, sort modified))"

definition file_section :: "string \<Rightarrow> string list \<Rightarrow> string list" where
  "file_section tag files =
     (if files = [] then []
      else [''<'' @ tag @ ''>'' @ [NL] @ js_join [NL] files @ [NL] @ ''</'' @ tag @ ''>''])"

definition formatFileOperations :: "string list \<Rightarrow> string list \<Rightarrow> string" where
  "formatFileOperations readFiles modifiedFiles =
     (let sections = file_section ''read-files'' readFiles @ file_section ''modified-files'' modifiedFiles
      in if sections = [] then [] else [NL, NL] @ js_join [NL, NL] sections)"

section \<open>The text of a conversation\<close>

definition TOOL_RESULT_MAX_CHARS :: nat where
  "TOOL_RESULT_MAX_CHARS = 2000"

definition truncateForSummary :: "string \<Rightarrow> nat \<Rightarrow> string" where
  "truncateForSummary t maxChars =
     (if length t \<le> maxChars then t
      else take maxChars t @ [NL, NL] @ ''[... '' @ dec (length t - maxChars) @ '' more characters truncated]'')"

text \<open>\<open>undefined\<close> in a template is the word \<open>undefined\<close>.\<close>

definition argument_text :: "string \<times> json \<Rightarrow> string" where
  "argument_text kv = fst kv @ ''='' @ (case json_text (snd kv) of None \<Rightarrow> ''undefined'' | Some t \<Rightarrow> t)"

definition object_entries :: "json \<Rightarrow> (string \<times> json) list" where
  "object_entries v = (case v of JObj kvs \<Rightarrow> kvs | _ \<Rightarrow> [])"

definition tool_call_text :: "tool_call \<Rightarrow> string" where
  "tool_call_text c =
     tc_name c @ ''('' @ js_join '', '' (map argument_text (object_entries (tc_arguments c))) @ '')''"

definition content_blocks :: "content \<Rightarrow> block list" where
  "content_blocks c = (case c of Blocks bs \<Rightarrow> bs | _ \<Rightarrow> [])"

fun conversation_parts :: "agent_message \<Rightarrow> string list" where
  "conversation_parts (UserMsg m) =
     (let t = text_of (um_content m) [] in if t \<noteq> [] then [''[User]: '' @ t] else [])"
| "conversation_parts (AssistantMsg m) =
     (let blocks = content_blocks (am_content m);
          calls = map tool_call_text (List.map_filter block_tool_call blocks)
      in (if list_ex is_text_block blocks then [''[Assistant]: '' @ text_of (am_content m) [NL]] else [])
         @ (if calls \<noteq> [] then [''[Assistant tool calls]: '' @ js_join ''; '' calls] else []))"
| "conversation_parts (ToolResultMsg m) =
     (let t = text_of (tr_content m) []
      in if t \<noteq> [] then [''[Tool result]: '' @ truncateForSummary t TOOL_RESULT_MAX_CHARS] else [])"
| "conversation_parts _ = []"

definition serializeConversation :: "agent_message list \<Rightarrow> string" where
  "serializeConversation messages = js_join [NL, NL] (concat (map conversation_parts messages))"

section \<open>Sums of usages\<close>

record usage_totals =
  ut_input :: nat
  ut_output :: nat
  ut_cacheRead :: nat
  ut_cacheWrite :: nat
  ut_cost :: rat

definition createUsageTotals :: usage_totals where
  "createUsageTotals = \<lparr>ut_input = 0, ut_output = 0, ut_cacheRead = 0, ut_cacheWrite = 0, ut_cost = 0\<rparr>"

definition addUsageToTotals :: "usage_totals \<Rightarrow> usage \<Rightarrow> usage_totals" where
  "addUsageToTotals t u =
     \<lparr>ut_input = ut_input t + us_input u, ut_output = ut_output t + us_output u,
      ut_cacheRead = ut_cacheRead t + us_cacheRead u, ut_cacheWrite = ut_cacheWrite t + us_cacheWrite u,
      ut_cost = ut_cost t + uc_total (us_cost u)\<rparr>"

definition add_split :: "nat option \<Rightarrow> nat option \<Rightarrow> nat option" where
  "add_split a b =
     (if a \<noteq> None \<or> b \<noteq> None
      then Some ((case a of None \<Rightarrow> 0 | Some n \<Rightarrow> n) + (case b of None \<Rightarrow> 0 | Some n \<Rightarrow> n)) else None)"

definition combineUsage :: "usage \<Rightarrow> usage \<Rightarrow> usage" where
  "combineUsage first second =
     \<lparr>us_input = us_input first + us_input second, us_output = us_output first + us_output second,
      us_cacheRead = us_cacheRead first + us_cacheRead second,
      us_cacheWrite = us_cacheWrite first + us_cacheWrite second,
      us_cacheWrite1h = add_split (us_cacheWrite1h first) (us_cacheWrite1h second),
      us_reasoning = add_split (us_reasoning first) (us_reasoning second),
      us_totalTokens = us_totalTokens first + us_totalTokens second,
      us_cost =
        \<lparr>uc_input = uc_input (us_cost first) + uc_input (us_cost second),
         uc_output = uc_output (us_cost first) + uc_output (us_cost second),
         uc_cacheRead = uc_cacheRead (us_cost first) + uc_cacheRead (us_cost second),
         uc_cacheWrite = uc_cacheWrite (us_cost first) + uc_cacheWrite (us_cost second),
         uc_total = uc_total (us_cost first) + uc_total (us_cost second)\<rparr>\<rparr>"

record usage_cost_entry =
  ue_key :: string
  ue_cost :: rat
  ue_tokens :: nat

text \<open>The bucket and usage of an entry; entries without either are skipped.\<close>

fun attributed_usage :: "entry_kind \<Rightarrow> (string \<times> usage) option" where
  "attributed_usage (MessageEntry (AssistantMsg m)) =
     (case am_usage m of
        None \<Rightarrow> None
      | Some u \<Rightarrow> Some (am_provider m @ ''/'' @
          (case am_responseModel m of None \<Rightarrow> am_model m | Some r \<Rightarrow> r), u))"
| "attributed_usage (UsageEntry d) = Some (ud_provider d @ ''/'' @ ud_model d, ud_usage d)"
| "attributed_usage (MessageEntry (ToolResultMsg m)) =
     map_option (\<lambda>u. (''Tools/summaries'', u)) (tr_usage m)"
| "attributed_usage (BranchSummary d) = map_option (\<lambda>u. (''Tools/summaries'', u)) (br_usage d)"
| "attributed_usage (Compaction d) = map_option (\<lambda>u. (''Tools/summaries'', u)) (co_usage d)"
| "attributed_usage _ = None"

definition add_attributed :: "session_entry \<Rightarrow> (string, usage_totals) jsmap \<Rightarrow> (string, usage_totals) jsmap" where
  "add_attributed e totals =
     (case attributed_usage (se_kind e) of
        None \<Rightarrow> totals
      | Some (key, u) \<Rightarrow>
          AList.update key
            (addUsageToTotals (case map_of totals key of None \<Rightarrow> createUsageTotals | Some t \<Rightarrow> t) u) totals)"

definition cost_entry :: "string \<times> usage_totals \<Rightarrow> usage_cost_entry" where
  "cost_entry kt =
     \<lparr>ue_key = fst kt, ue_cost = ut_cost (snd kt),
      ue_tokens = ut_input (snd kt) + ut_output (snd kt) + ut_cacheRead (snd kt) + ut_cacheWrite (snd kt)\<rparr>"

definition getUsageCostBreakdown :: "session_entry list \<Rightarrow> usage_cost_entry list" where
  "getUsageCostBreakdown entries =
     sort_key (\<lambda>e. - ue_cost e)
       (filter (\<lambda>e. ue_cost e > 0 \<or> ue_tokens e > 0)
         (map cost_entry (fold add_attributed entries [])))"

section \<open>File lists\<close>

definition touched :: "file_operations \<Rightarrow> string set" where
  "touched ops = set (fo_read ops) \<union> set (fo_written ops) \<union> set (fo_edited ops)"

lemma computeFileLists_sets:
  assumes "computeFileLists ops = (r, m)"
  shows "set m = set (fo_written ops) \<union> set (fo_edited ops)" and "set r = set (fo_read ops) - set m"
    and "sorted r" and "sorted m"
  using assms by (auto simp: computeFileLists_def Let_def)

definition fo_distinct :: "file_operations \<Rightarrow> bool" where
  "fo_distinct ops \<longleftrightarrow> distinct (fo_read ops) \<and> distinct (fo_written ops) \<and> distinct (fo_edited ops)"

lemma fo_distinct_add: "fo_distinct ops \<Longrightarrow> fo_distinct (addFileOp t a ops)"
  by (auto simp: addFileOp_def fo_distinct_def split: json.splits)

lemma fo_distinct_fold: "fo_distinct ops \<Longrightarrow> fo_distinct (fold (\<lambda>c. addFileOp (f c) (g c)) cs ops)"
  by (induction cs arbitrary: ops) (auto intro: fo_distinct_add)

lemma fo_distinct_extract: "fo_distinct ops \<Longrightarrow> fo_distinct (extractFileOpsFromMessage m ops)"
  by (cases m) (auto intro!: fo_distinct_fold split: content.split)

lemma fo_distinct_extract_all: "fo_distinct ops \<Longrightarrow> fo_distinct (fold extractFileOpsFromMessage ms ops)"
  by (induction ms arbitrary: ops) (auto intro: fo_distinct_extract)

text \<open>The tool calls of a message that name a path: tool and path.\<close>

fun call_path :: "string \<Rightarrow> json option \<Rightarrow> (string \<times> string) list" where
  "call_path name args =
     (case (case args of None \<Rightarrow> JUndefined | Some a \<Rightarrow> json_get a ''path'') of
        JStr p \<Rightarrow> if p = [] then [] else [(name, p)] | _ \<Rightarrow> [])"

fun message_paths :: "agent_message \<Rightarrow> (string \<times> string) list" where
  "message_paths (ToolResultMsg m) =
     concat (map (\<lambda>c. call_path (nc_name c) (nc_arguments c))
       (case tr_nestedCalls m of None \<Rightarrow> [] | Some n \<Rightarrow> ntc_calls n))"
| "message_paths (AssistantMsg m) =
     (case am_content m of
        Blocks bs \<Rightarrow> concat (map (\<lambda>c. call_path (tc_name c) (Some (tc_arguments c)))
                       (List.map_filter block_tool_call bs))
      | _ \<Rightarrow> [])"
| "message_paths _ = []"

definition ops_set :: "file_operations \<Rightarrow> (string \<times> string) set" where
  "ops_set ops = {''read''} \<times> set (fo_read ops) \<union> {''write''} \<times> set (fo_written ops) \<union>
     {''edit''} \<times> set (fo_edited ops)"

definition file_tools :: "string set" where
  "file_tools = {''read'', ''write'', ''edit''}"

lemma ops_set_add:
  "ops_set (addFileOp t a ops) = ops_set ops \<union> {tp \<in> set (call_path t a). fst tp \<in> file_tools}"
proof (cases "case a of None \<Rightarrow> JUndefined | Some v \<Rightarrow> json_get v ''path''")
  case (JStr p)
  show ?thesis
  proof (cases "p = []")
    case False
    consider "t = ''read''" | "t = ''write''" | "t = ''edit''" | "t \<notin> file_tools" by (auto simp: file_tools_def)
    then show ?thesis
      by cases (use JStr False in \<open>auto simp: addFileOp_def ops_set_def file_tools_def\<close>)
  qed (use JStr in \<open>simp add: addFileOp_def\<close>)
qed (simp_all add: addFileOp_def)

lemma ops_set_fold:
  "ops_set (fold (\<lambda>c. addFileOp (f c) (g c)) cs ops) =
     ops_set ops \<union> {tp \<in> set (concat (map (\<lambda>c. call_path (f c) (g c)) cs)). fst tp \<in> file_tools}"
  by (induction cs arbitrary: ops) (auto simp: ops_set_add simp del: call_path.simps)

lemma ops_set_extract:
  "ops_set (extractFileOpsFromMessage m ops) =
     ops_set ops \<union> {tp \<in> set (message_paths m). fst tp \<in> file_tools}"
  by (cases m) (auto simp: ops_set_fold simp del: call_path.simps split: content.split)

lemma ops_set_extract_all:
  "ops_set (fold extractFileOpsFromMessage ms ops) =
     ops_set ops \<union> {tp \<in> set (concat (map message_paths ms)). fst tp \<in> file_tools}"
  by (induction ms arbitrary: ops) (auto simp: ops_set_extract)

section \<open>Usage is conserved\<close>

definition usage_tokens :: "usage \<Rightarrow> nat" where
  "usage_tokens u = us_input u + us_output u + us_cacheRead u + us_cacheWrite u"

definition totals_tokens :: "usage_totals \<Rightarrow> nat" where
  "totals_tokens t = ut_input t + ut_output t + ut_cacheRead t + ut_cacheWrite t"

text \<open>What a bucket holds, zero where there is none.\<close>

definition bucket :: "(string, usage_totals) jsmap \<Rightarrow> string \<Rightarrow> nat \<times> rat" where
  "bucket m k = (case map_of m k of None \<Rightarrow> (0, 0) | Some t \<Rightarrow> (totals_tokens t, ut_cost t))"

definition attributed_to :: "string \<Rightarrow> session_entry list \<Rightarrow> usage list" where
  "attributed_to k es =
     List.map_filter (\<lambda>e. case attributed_usage (se_kind e) of
        Some (k', u) \<Rightarrow> if k' = k then Some u else None | None \<Rightarrow> None) es"

lemma bucket_add:
  "bucket (add_attributed e m) k =
     (fst (bucket m k) + sum_list (map usage_tokens (attributed_to k [e])),
      snd (bucket m k) + sum_list (map (\<lambda>u. uc_total (us_cost u)) (attributed_to k [e])))"
  by (auto simp: add_attributed_def bucket_def attributed_to_def List.map_filter_simps jm.lookup_put
      addUsageToTotals_def totals_tokens_def usage_tokens_def createUsageTotals_def split: option.splits)

lemma attributed_to_Cons: "attributed_to k (e # es) = attributed_to k [e] @ attributed_to k es"
  by (simp add: attributed_to_def List.map_filter_def)

lemma bucket_fold:
  "bucket (fold add_attributed es m) k =
     (fst (bucket m k) + sum_list (map usage_tokens (attributed_to k es)),
      snd (bucket m k) + sum_list (map (\<lambda>u. uc_total (us_cost u)) (attributed_to k es)))"
proof (induction es arbitrary: m)
  case Nil
  then show ?case by (simp add: attributed_to_def List.map_filter_simps)
next
  case (Cons e es)
  then show ?case by (simp add: bucket_add attributed_to_Cons [of k e es])
qed

lemma wf_add_attributed: "wf_jsmap m \<Longrightarrow> wf_jsmap (add_attributed e m)"
  by (auto simp: add_attributed_def intro!: wf_jsmap_update split: option.split)

lemma wf_fold_attributed: "wf_jsmap m \<Longrightarrow> wf_jsmap (fold add_attributed es m)"
  by (induction es arbitrary: m) (auto intro: wf_add_attributed)

section \<open>Properties of the summary utilities\<close>

text \<open>
  The file lists of a conversation: exactly the non-empty paths its read, write and
  edit calls name, those recorded for nested calls included; a path is modified when it
  was written or edited and listed as read only when it was not; both lists are sorted and
  without repetition.
\<close>

theorem file_lists_exact:
  assumes "computeFileLists (fold extractFileOpsFromMessage ms createFileOps) = (readFiles, modifiedFiles)"
  shows "set modifiedFiles = {p. (''write'', p) \<in> set (concat (map message_paths ms)) \<or>
            (''edit'', p) \<in> set (concat (map message_paths ms))} \<and>
     set readFiles = {p. (''read'', p) \<in> set (concat (map message_paths ms))} - set modifiedFiles \<and>
     sorted readFiles \<and> distinct readFiles \<and> sorted modifiedFiles \<and> distinct modifiedFiles"
proof -
  let ?ops = "fold extractFileOpsFromMessage ms createFileOps"
  have "ops_set ?ops = {tp \<in> set (concat (map message_paths ms)). fst tp \<in> file_tools}"
    using ops_set_extract_all [of ms createFileOps] by (simp add: ops_set_def createFileOps_def)
  moreover have "(''read'', p) \<in> ops_set ?ops \<longleftrightarrow> p \<in> set (fo_read ?ops)"
    "(''write'', p) \<in> ops_set ?ops \<longleftrightarrow> p \<in> set (fo_written ?ops)"
    "(''edit'', p) \<in> ops_set ?ops \<longleftrightarrow> p \<in> set (fo_edited ?ops)" for p
    by (auto simp: ops_set_def)
  ultimately have
    "p \<in> set (fo_read ?ops) \<longleftrightarrow> (''read'', p) \<in> set (concat (map message_paths ms))"
    "p \<in> set (fo_written ?ops) \<longleftrightarrow> (''write'', p) \<in> set (concat (map message_paths ms))"
    "p \<in> set (fo_edited ?ops) \<longleftrightarrow> (''edit'', p) \<in> set (concat (map message_paths ms))" for p
    by (simp_all add: file_tools_def)
  moreover have "fo_distinct ?ops"
    by (rule fo_distinct_extract_all) (simp add: fo_distinct_def createFileOps_def)
  then have "distinct readFiles" "distinct modifiedFiles"
    using assms by (auto simp: computeFileLists_def Let_def fo_distinct_def)
  ultimately show ?thesis using computeFileLists_sets [OF assms] by auto
qed

definition demo_file_call :: "string \<Rightarrow> string \<Rightarrow> block" where
  "demo_file_call tool path = ToolCall
     \<lparr>tc_id = ''1'', tc_name = tool, tc_arguments = JObj [(''path'', JStr path)],
      tc_thoughtSignature = None, tc_namespace = None\<rparr>"

definition demo_file_message :: agent_message where
  "demo_file_message = AssistantMsg
     \<lparr>am_content = Blocks [demo_file_call ''read'' ''b'', demo_file_call ''read'' ''a'', demo_file_call ''edit'' ''a''],
      am_api = [], am_provider = [], am_model = [], am_responseModel = None, am_responseId = None,
      am_providerThinkingLevel = None, am_thinkingLevel = None, am_diagnostics = None, am_usage = None,
      am_stopReason = StopToolUse, am_deferred = None, am_errorMessage = None, am_rawStopReason = None,
      am_endTurn = None, am_timestamp = 0, am_durationMs = None\<rparr>"

theorem file_lists_exact_witness:
  "computeFileLists (fold extractFileOpsFromMessage [demo_file_message] createFileOps) = ([''b''], [''a'']) \<and>
   set [''a''] = {p. (''write'', p) \<in> set (message_paths demo_file_message) \<or>
      (''edit'', p) \<in> set (message_paths demo_file_message)}"
proof -
  have c: "computeFileLists (fold extractFileOpsFromMessage [demo_file_message] createFileOps) = ([''b''], [''a''])"
    by code_simp
  from file_lists_exact [OF c] c show ?thesis by simp
qed

text \<open>
  The cost breakdown conserves usage: each model has one line, its tokens and cost are
  the sums over the entries attributed to it, a line is missing only when both sums are
  zero or the cost is not positive and there are no tokens, and lines come by falling cost.
\<close>

theorem cost_breakdown_conserves:
  "distinct (map ue_key (getUsageCostBreakdown es)) \<and>
   (\<forall>k. let tokens = sum_list (map usage_tokens (attributed_to k es));
            cost = sum_list (map (\<lambda>u. uc_total (us_cost u)) (attributed_to k es))
        in if tokens = 0 \<and> cost \<le> 0 then k \<notin> ue_key ` set (getUsageCostBreakdown es)
           else \<lparr>ue_key = k, ue_cost = cost, ue_tokens = tokens\<rparr> \<in> set (getUsageCostBreakdown es)) \<and>
   sorted (map (\<lambda>e. - ue_cost e) (getUsageCostBreakdown es))"
proof -
  let ?m = "fold add_attributed es []"
  have wf: "distinct (map fst ?m)"
    using wf_fold_attributed [of "[]" es] by (simp add: wf_jsmap_def jsmap_keys_def)
  have b: "bucket ?m k = (sum_list (map usage_tokens (attributed_to k es)),
      sum_list (map (\<lambda>u. uc_total (us_cost u)) (attributed_to k es)))" for k
    using bucket_fold [of es "[]" k] by (simp add: bucket_def)
  have mem: "e \<in> set (getUsageCostBreakdown es) \<longleftrightarrow>
      (\<exists>t. map_of ?m (ue_key e) = Some t \<and> e = cost_entry (ue_key e, t) \<and> (ue_cost e > 0 \<or> ue_tokens e > 0))" for e
  proof -
    have "e \<in> set (getUsageCostBreakdown es) \<longleftrightarrow>
        e \<in> cost_entry ` set ?m \<and> (ue_cost e > 0 \<or> ue_tokens e > 0)"
      by (auto simp: getUsageCostBreakdown_def)
    also have "e \<in> cost_entry ` set ?m \<longleftrightarrow> (\<exists>t. (ue_key e, t) \<in> set ?m \<and> e = cost_entry (ue_key e, t))"
    proof
      assume "e \<in> cost_entry ` set ?m"
      then obtain k t where "(k, t) \<in> set ?m" "e = cost_entry (k, t)" by auto
      then show "\<exists>t. (ue_key e, t) \<in> set ?m \<and> e = cost_entry (ue_key e, t)" by (auto simp: cost_entry_def)
    qed blast
    finally show ?thesis unfolding map_of_eq_Some_iff [OF wf] by blast
  qed
  have "map ue_key (map cost_entry ?m) = map fst ?m" by (simp add: cost_entry_def comp_def)
  with wf have "distinct (map ue_key (filter P (map cost_entry ?m)))" for P
    by (metis distinct_map_filter)
  then have dist: "distinct (map ue_key (getUsageCostBreakdown es))"
    unfolding getUsageCostBreakdown_def by (simp add: distinct_map)
  have line: "let tokens = sum_list (map usage_tokens (attributed_to k es));
            cost = sum_list (map (\<lambda>u. uc_total (us_cost u)) (attributed_to k es))
        in if tokens = 0 \<and> cost \<le> 0 then k \<notin> ue_key ` set (getUsageCostBreakdown es)
           else \<lparr>ue_key = k, ue_cost = cost, ue_tokens = tokens\<rparr> \<in> set (getUsageCostBreakdown es)" for k
  proof (cases "map_of ?m k")
    case None
    with b [of k] mem show ?thesis by (auto simp: bucket_def Let_def)
  next
    case (Some t)
    with b [of k] have t: "totals_tokens t = sum_list (map usage_tokens (attributed_to k es))"
      "ut_cost t = sum_list (map (\<lambda>u. uc_total (us_cost u)) (attributed_to k es))" by (simp_all add: bucket_def)
    have ce: "cost_entry (k, t) = \<lparr>ue_key = k, ue_cost = ut_cost t, ue_tokens = totals_tokens t\<rparr>"
      by (simp add: cost_entry_def totals_tokens_def)
    have in_iff: "cost_entry (k, t) \<in> set (getUsageCostBreakdown es) \<longleftrightarrow> ut_cost t > 0 \<or> totals_tokens t > 0"
      using mem [of "cost_entry (k, t)"] Some ce by simp
    have "x = cost_entry (k, t)" if "x \<in> set (getUsageCostBreakdown es)" "ue_key x = k" for x
      using mem [of x] that Some by auto
    then have "k \<in> ue_key ` set (getUsageCostBreakdown es) \<Longrightarrow> cost_entry (k, t) \<in> set (getUsageCostBreakdown es)"
      by auto
    with in_iff ce show ?thesis unfolding Let_def t(1) [symmetric] t(2) [symmetric]
      by (auto simp: not_less)
  qed
  have "sorted (map (\<lambda>e. - ue_cost e) (getUsageCostBreakdown es))"
    unfolding getUsageCostBreakdown_def by (rule sorted_sort_key)
  with dist line show ?thesis by blast
qed

end
