(* ===== verification/Compaction_Prompts.thy ===== *)
theory Compaction_Prompts
  imports Pi_Prelude
begin

text \<open>
  The fixed texts of the summarization requests (\<open>packages/coding-agent/src/core/compaction\<close>,
  files \<open>utils.ts\<close> and \<open>compaction.ts\<close>).
\<close>

definition SUMMARIZATION_SYSTEM_PROMPT :: string where
  "SUMMARIZATION_SYSTEM_PROMPT =
     js_join [NL]
      [''You are a context summarization assistant. Your task is to read a conversation between a user and an AI'' @
        '' assistant, then produce a structured summary following the exact format specified.'',
       [],
       ''Do NOT continue the conversation. Do NOT respond to any questions in the conversation. ONLY output the structured summary.'']"

definition SUMMARIZATION_PROMPT :: string where
  "SUMMARIZATION_PROMPT =
     js_join [NL]
      [''The messages above are a conversation to summarize. Create a structured context checkpoint summary that'' @
        '' another LLM will use to continue the work.'',
       [],
       ''Use this EXACT format:'',
       [],
       ''## Goal'',
       ''[What is the user trying to accomplish? Can be multiple items if the session covers different tasks.]'',
       [],
       ''## Constraints & Preferences'',
       ''- [Any constraints, preferences, or requirements mentioned by user]'',
       ''- [Or '' @ [DQ] @ ''(none)'' @ [DQ] @ '' if none were mentioned]'',
       [],
       ''## Progress'',
       ''### Done'',
       ''- [x] [Completed tasks/changes]'',
       [],
       ''### In Progress'',
       ''- [ ] [Current work]'',
       [],
       ''### Blocked'',
       ''- [Issues preventing progress, if any]'',
       [],
       ''## Key Decisions'',
       ''- **[Decision]**: [Brief rationale]'',
       [],
       ''## Next Steps'',
       ''1. [Ordered list of what should happen next]'',
       [],
       ''## Critical Context'',
       ''- [Any data, examples, or references needed to continue]'',
       ''- [Or '' @ [DQ] @ ''(none)'' @ [DQ] @ '' if not applicable]'',
       [],
       ''Keep each section concise. Preserve exact file paths, function names, and error messages.'']"

definition UPDATE_SUMMARIZATION_INSTRUCTIONS :: string where
  "UPDATE_SUMMARIZATION_INSTRUCTIONS =
     js_join [NL]
      [''Update the existing structured summary with new information. RULES:'',
       ''- PRESERVE all existing information from the previous summary'',
       ''- ADD new progress, decisions, and context from the new messages'',
       ''- UPDATE the Progress section: move items from '' @ [DQ] @ ''In Progress'' @ [DQ] @ '' to '' @ [DQ] @ ''Done'' @ [DQ] @ '' when completed'',
       ''- UPDATE '' @ [DQ] @ ''Next Steps'' @ [DQ] @ '' based on what was accomplished'',
       ''- PRESERVE exact file paths, function names, and error messages'',
       ''- If something is no longer relevant, you may remove it'',
       [],
       ''Use this EXACT format:'',
       [],
       ''## Goal'',
       ''[Preserve existing goals, add new ones if the task expanded]'',
       [],
       ''## Constraints & Preferences'',
       ''- [Preserve existing, add new ones discovered]'',
       [],
       ''## Progress'',
       ''### Done'',
       ''- [x] [Include previously done items AND newly completed items]'',
       [],
       ''### In Progress'',
       ''- [ ] [Current work - update based on progress]'',
       [],
       ''### Blocked'',
       ''- [Current blockers - remove if resolved]'',
       [],
       ''## Key Decisions'',
       ''- **[Decision]**: [Brief rationale] (preserve all previous, add new)'',
       [],
       ''## Next Steps'',
       ''1. [Update based on current state]'',
       [],
       ''## Critical Context'',
       ''- [Preserve important context, add new if needed]'',
       [],
       ''Keep each section concise. Preserve exact file paths, function names, and error messages.'']"

definition UPDATE_SUMMARIZATION_PROMPT :: string where
  "UPDATE_SUMMARIZATION_PROMPT =
     ''The messages above are NEW conversation messages to incorporate into the existing summary provided in <previous-summary> tags.''
     @ [NL, NL] @ UPDATE_SUMMARIZATION_INSTRUCTIONS"

definition TURN_PREFIX_SUMMARIZATION_PROMPT :: string where
  "TURN_PREFIX_SUMMARIZATION_PROMPT =
     js_join [NL]
      [''The messages above are earlier context from an ongoing conversation. Later messages are stored separately and'' @
        '' do not need to be reconstructed.'',
       [],
       ''Create a concise checkpoint of the user'' @ [CHR 0x27] @ ''s request and the progress shown above. This'' @
        '' checkpoint will be placed before the later messages so the conversation can continue with the necessary context.'',
       [],
       ''## Original Request'',
       ''[What did the user ask for?]'',
       [],
       ''## Progress So Far'',
       ''- [Key decisions and work completed in these messages]'',
       [],
       ''## Context Needed to Continue'',
       ''- [Information from these messages needed to understand the later work]'',
       [],
       ''Only summarize information explicitly present above. Do not infer or recreate later messages.'']"

end
