(* ===== verification/Session_Manager.thy ===== *)
theory Session_Manager
  imports Session_Context
begin

text \<open>
  The class \<open>SessionManager\<close> of \<open>packages/coding-agent/src/core/session-manager.ts\<close>: an
  append-only tree of entries with a leaf, label maps and a JSONL file. An operation maps
  the session state to a result, or a thrown error, and the new state. The file system is
  part of the state, as a map from paths to texts; \<open>encode\<close> and \<open>decode\<close> are the JSON of
  one line, \<open>uuid\<close> the UUIDs the process draws and \<open>now\<close> the clock of the call.
\<close>

section \<open>State\<close>

record session =
  ss_sessionId :: string
  ss_sessionFile :: "string option"
  ss_sessionDir :: string
  ss_cwd :: string
  ss_persist :: bool
  ss_flushed :: bool
  ss_fileEntries :: "file_entry list"
  ss_byId :: "(string, session_entry) jsmap"
  ss_labelsById :: "(string, string) jsmap"
  ss_labelTimestampsById :: "(string, int) jsmap"
  ss_leafId :: "string option"
  ss_disk :: "string \<Rightarrow> string option"
  ss_drawn :: nat

text \<open>
  What the manager takes from its surroundings: the JSON of a line, UUIDs, the id of a new
  session, the file name of a time stamp and id, and path joining.
\<close>

record session_env =
  sv_encode :: "file_entry \<Rightarrow> string"
  sv_decode :: "string \<Rightarrow> file_entry option"
  sv_uuid :: "nat \<Rightarrow> string"
  sv_sessionId :: "nat \<Rightarrow> string"
  sv_fileTimestamp :: "int \<Rightarrow> string"
  sv_joinPath :: "string \<Rightarrow> string \<Rightarrow> string"

type_synonym 'a session_op = "(session, 'a) prog"

definition getEntries :: "session \<Rightarrow> session_entry list" where
  "getEntries s = session_entries (ss_fileEntries s)"

definition getHeader :: "session \<Rightarrow> session_header option" where
  "getHeader s = find_header (ss_fileEntries s)"

definition getEntryCount :: "session \<Rightarrow> nat" where
  "getEntryCount s = length (ss_byId s)"

definition getLeafEntry :: "session \<Rightarrow> session_entry option" where
  "getLeafEntry s =
     (case ss_leafId s of None \<Rightarrow> None | Some i \<Rightarrow> if i = [] then None else map_of (ss_byId s) i)"

definition getEntry :: "string \<Rightarrow> session \<Rightarrow> session_entry option" where
  "getEntry i s = map_of (ss_byId s) i"

definition getChildren :: "string \<Rightarrow> session \<Rightarrow> session_entry list" where
  "getChildren parentId s = filter (\<lambda>e. se_parentId e = Some parentId) (jsmap_values (ss_byId s))"

definition getLabel :: "string \<Rightarrow> session \<Rightarrow> string option" where
  "getLabel i s = map_of (ss_labelsById s) i"

text \<open>\<open>getBranch\<close>: \<open>None\<close> is a walk that never ends.\<close>

definition getBranch :: "string option \<Rightarrow> session \<Rightarrow> session_entry list option" where
  "getBranch fromId s =
     (let startId = (case fromId of Some i \<Rightarrow> Some i | None \<Rightarrow> ss_leafId s)
      in case (case startId of None \<Rightarrow> None | Some i \<Rightarrow> if i = [] then None else map_of (ss_byId s) i) of
           None \<Rightarrow> Some []
         | Some e \<Rightarrow> walk_up (ss_byId s) e [])"

definition leaf_of :: "session \<Rightarrow> leaf_arg" where
  "leaf_of s = (case ss_leafId s of None \<Rightarrow> LeafNull | Some i \<Rightarrow> LeafId i)"

definition sessionContextEntries :: "session \<Rightarrow> session_entry list option" where
  "sessionContextEntries s = buildContextEntries (getEntries s) (leaf_of s) (Some (ss_byId s))"

definition sessionProjection :: "session \<Rightarrow> session_projection option" where
  "sessionProjection s = buildSessionProjection (getEntries s) (leaf_of s) (Some (ss_byId s))"

definition sessionContext :: "session \<Rightarrow> session_context option" where
  "sessionContext s =
     (case sessionProjection s of
        None \<Rightarrow> None
      | Some p \<Rightarrow> Some \<lparr>sx_messages = sp_messages p, sx_thinkingLevel = sp_thinkingLevel p,
                        sx_model = sp_model p\<rparr>)"

section \<open>The index\<close>

definition index_label :: "string \<Rightarrow> string option \<Rightarrow> int \<Rightarrow> session \<Rightarrow> session" where
  "index_label targetId label time s =
     (case label of
        Some l \<Rightarrow>
          if l \<noteq> []
          then s\<lparr>ss_labelsById := AList.update targetId l (ss_labelsById s),
                 ss_labelTimestampsById := AList.update targetId time (ss_labelTimestampsById s)\<rparr>
          else s\<lparr>ss_labelsById := AList.delete targetId (ss_labelsById s),
                 ss_labelTimestampsById := AList.delete targetId (ss_labelTimestampsById s)\<rparr>
      | None \<Rightarrow>
          s\<lparr>ss_labelsById := AList.delete targetId (ss_labelsById s),
            ss_labelTimestampsById := AList.delete targetId (ss_labelTimestampsById s)\<rparr>)"

definition index_entry :: "session_entry \<Rightarrow> session \<Rightarrow> session" where
  "index_entry e s =
     (let s1 = s\<lparr>ss_byId := AList.update (se_id e) e (ss_byId s), ss_leafId := Some (se_id e)\<rparr>
      in case se_kind e of
           LabelEntry targetId label \<Rightarrow> index_label targetId label (se_timestamp e) s1
         | _ \<Rightarrow> s1)"

definition buildIndex :: "session \<Rightarrow> session" where
  "buildIndex s =
     fold index_entry (session_entries (ss_fileEntries s))
       (s\<lparr>ss_byId := [], ss_labelsById := [], ss_labelTimestampsById := [], ss_leafId := None\<rparr>)"

section \<open>The file\<close>

definition file_text :: "session_env \<Rightarrow> file_entry list \<Rightarrow> string" where
  "file_text env fes = concat (map (\<lambda>e. sv_encode env e @ [NL]) fes)"

definition rewriteFile :: "session_env \<Rightarrow> session \<Rightarrow> session" where
  "rewriteFile env s =
     (case ss_sessionFile s of
        Some path \<Rightarrow>
          if ss_persist s \<and> path \<noteq> []
          then s\<lparr>ss_disk := (ss_disk s)(path \<mapsto> file_text env (ss_fileEntries s))\<rparr> else s
      | None \<Rightarrow> s)"

fun is_conversation :: "entry_kind \<Rightarrow> bool" where
  "is_conversation (MessageEntry (UserMsg _)) = True"
| "is_conversation (MessageEntry (AssistantMsg _)) = True"
| "is_conversation _ = False"

definition hasConversation :: "session \<Rightarrow> bool" where
  "hasConversation s = list_ex (\<lambda>e. is_conversation (se_kind e)) (session_entries (ss_fileEntries s))"

text \<open>The first write of a session creates its file and fails when it exists (flag \<open>wx\<close>).\<close>

definition persist :: "session_env \<Rightarrow> session_entry \<Rightarrow> unit session_op" where
  "persist env e s =
     (case ss_sessionFile s of
        None \<Rightarrow> (Inr (), s)
      | Some path \<Rightarrow>
          if \<not> ss_persist s \<or> path = [] then (Inr (), s)
          else if \<not> ss_flushed s
          then if \<not> hasConversation s then (Inr (), s)
               else if ss_disk s path \<noteq> None
               then (Inl (''EEXIST: file already exists, open '' @ path), s)
               else (Inr (), s\<lparr>ss_disk := (ss_disk s)(path \<mapsto> file_text env (ss_fileEntries s)),
                              ss_flushed := True\<rparr>)
          else (Inr (), s\<lparr>ss_disk := (ss_disk s)(path \<mapsto>
                  (case ss_disk s path of None \<Rightarrow> [] | Some old \<Rightarrow> old)
                  @ sv_encode env (EntryLine e) @ [NL])\<rparr>))"

definition appendEntry :: "session_env \<Rightarrow> session_entry \<Rightarrow> unit session_op" where
  "appendEntry env e s =
     persist env e
       (s\<lparr>ss_fileEntries := ss_fileEntries s @ [EntryLine e],
          ss_byId := AList.update (se_id e) e (ss_byId s),
          ss_leafId := Some (se_id e)\<rparr>)"

section \<open>Starting and loading\<close>

record new_session_options =
  ns_id :: "string option"
  ns_parentSession :: "string option"

definition NO_OPTIONS :: new_session_options where
  "NO_OPTIONS = \<lparr>ns_id = None, ns_parentSession = None\<rparr>"

definition session_path :: "session_env \<Rightarrow> string \<Rightarrow> int \<Rightarrow> string \<Rightarrow> string" where
  "session_path env dir now i =
     sv_joinPath env dir (sv_fileTimestamp env now @ ''_'' @ i @ ''.jsonl'')"

definition newSession :: "session_env \<Rightarrow> int \<Rightarrow> new_session_options \<Rightarrow> string option session_op" where
  "newSession env now opts s =
     (case (case ns_id opts of None \<Rightarrow> Inr () | Some i \<Rightarrow> assertValidSessionId i) of
        Inl e \<Rightarrow> (Inl e, s)
      | Inr _ \<Rightarrow>
          let (i, drawn) = (case ns_id opts of
                 Some i \<Rightarrow> (i, ss_drawn s)
               | None \<Rightarrow> (sv_sessionId env (ss_drawn s), Suc (ss_drawn s)));
              header = \<lparr>sh_version = Some CURRENT_SESSION_VERSION, sh_id = i, sh_timestamp = now,
                        sh_cwd = Some (ss_cwd s), sh_parentSession = ns_parentSession opts\<rparr>;
              file = (if ss_persist s then Some (session_path env (ss_sessionDir s) now i)
                      else ss_sessionFile s)
          in (Inr file,
              s\<lparr>ss_sessionId := i, ss_fileEntries := [HeaderEntry header], ss_byId := [],
                ss_labelsById := [], ss_labelTimestampsById := [], ss_leafId := None,
                ss_flushed := False, ss_sessionFile := file, ss_drawn := drawn\<rparr>))"

definition loadEntries ::
  "session_env \<Rightarrow> int \<Rightarrow> new_session_options \<Rightarrow> file_entry list \<Rightarrow> unit session_op" where
  "loadEntries env now opts entries s =
     (case find_header entries of
        Some header \<Rightarrow>
          (case migrateToCurrentVersion (sv_uuid env) (ss_drawn s) entries of
             (migrated, entries', drawn) \<Rightarrow>
               let s1 = s\<lparr>ss_fileEntries := entries', ss_sessionId := sh_id header, ss_drawn := drawn\<rparr>;
                   s2 = (if migrated then rewriteFile env s1 else s1)
               in (Inr (), buildIndex s2))
      | None \<Rightarrow>
          (case newSession env now opts s of
             (Inl e, s1) \<Rightarrow> (Inl e, s1)
           | (Inr _, s1) \<Rightarrow>
               (Inr (), buildIndex (s1\<lparr>ss_fileEntries := ss_fileEntries s1 @ entries\<rparr>))))"

text \<open>
  \<open>setSessionFile\<close> on a resolved path. A file that is empty is initialised, one that is not
  a session is refused, and one that does not exist is left to the first write.
\<close>

definition setSessionFile ::
  "session_env \<Rightarrow> int \<Rightarrow> string \<Rightarrow> file_entry list option \<Rightarrow> unit session_op" where
  "setSessionFile env now path preloaded s0 =
     (let s = s0\<lparr>ss_sessionFile := Some path\<rparr>
      in case ss_disk s path of
           Some content \<Rightarrow>
             let (entries, repair) = (case preloaded of
                    Some es \<Rightarrow> (es, False)
                  | None \<Rightarrow> loadEntriesFromFile (sv_decode env) [content] []);
                 s1 = (if repair then s\<lparr>ss_disk := (ss_disk s)(path \<mapsto> content @ [NL])\<rparr> else s)
             in if entries = []
                then if content \<noteq> [] then (Inl (''Session file is not a valid pi session: '' @ path), s1)
                     else (case newSession env now NO_OPTIONS s1 of
                             (Inl e, s2) \<Rightarrow> (Inl e, s2)
                           | (Inr _, s2) \<Rightarrow>
                               (Inr (), (rewriteFile env (s2\<lparr>ss_sessionFile := Some path\<rparr>))
                                          \<lparr>ss_flushed := True\<rparr>))
                else (case loadEntries env now NO_OPTIONS entries s1 of
                        (Inl e, s2) \<Rightarrow> (Inl e, s2)
                      | (Inr _, s2) \<Rightarrow> (Inr (), s2\<lparr>ss_flushed := True\<rparr>))
         | None \<Rightarrow>
             (case newSession env now NO_OPTIONS s of
                (Inl e, s2) \<Rightarrow> (Inl e, s2)
              | (Inr _, s2) \<Rightarrow> (Inr (), s2\<lparr>ss_sessionFile := Some path\<rparr>)))"

section \<open>Appending\<close>

text \<open>Every append makes an entry with a fresh id under the leaf and returns it.\<close>

definition appendKind ::
  "session_env \<Rightarrow> int \<Rightarrow> entry_kind \<Rightarrow> session_entry session_op" where
  "appendKind env now k s =
     (let (i, drawn) = generateId (sv_uuid env) (ss_drawn s) (jsmap_keys (ss_byId s));
          e = \<lparr>se_id = i, se_parentId = ss_leafId s, se_timestamp = now, se_kind = k\<rparr>
      in case appendEntry env e (s\<lparr>ss_drawn := drawn\<rparr>) of
           (Inl err, s') \<Rightarrow> (Inl err, s')
         | (Inr _, s') \<Rightarrow> (Inr e, s'))"

definition appendMessage :: "session_env \<Rightarrow> int \<Rightarrow> agent_message \<Rightarrow> session_entry session_op" where
  "appendMessage env now m = appendKind env now (MessageEntry m)"

definition appendThinkingLevelChange :: "session_env \<Rightarrow> int \<Rightarrow> string \<Rightarrow> session_entry session_op" where
  "appendThinkingLevelChange env now level = appendKind env now (ThinkingLevelChange level)"

definition appendModelChange :: "session_env \<Rightarrow> int \<Rightarrow> string \<Rightarrow> string \<Rightarrow> session_entry session_op" where
  "appendModelChange env now provider modelId = appendKind env now (ModelChange provider modelId)"

definition appendUsage ::
  "session_env \<Rightarrow> int \<Rightarrow> string \<Rightarrow> string \<Rightarrow> string \<Rightarrow> usage \<Rightarrow> string option \<Rightarrow> session_entry session_op" where
  "appendUsage env now kind provider model u note =
     appendKind env now (UsageEntry
       \<lparr>ud_kind = kind, ud_provider = provider, ud_model = model, ud_usage = u,
        ud_note = (if note = Some [] then None else note)\<rparr>)"

definition appendCustomEntry :: "session_env \<Rightarrow> int \<Rightarrow> string \<Rightarrow> json option \<Rightarrow> session_entry session_op" where
  "appendCustomEntry env now customType d = appendKind env now (CustomEntry customType d)"

definition appendCustomMessageEntry ::
  "session_env \<Rightarrow> int \<Rightarrow> string \<Rightarrow> content \<Rightarrow> bool \<Rightarrow> json option \<Rightarrow> session_entry session_op" where
  "appendCustomMessageEntry env now customType c display details =
     appendKind env now (CustomMessageEntry customType c details display)"

text \<open>\<open>name.replace(/[\r\n]+/g, " ")\<close>: every run of line ends is one space.\<close>

fun flatten_lines :: "string \<Rightarrow> string" where
  "flatten_lines [] = []"
| "flatten_lines (c # cs) =
     (if c = CR \<or> c = NL
      then (case cs of
              d # _ \<Rightarrow> if d = CR \<or> d = NL then flatten_lines cs else CHR '' '' # flatten_lines cs
            | [] \<Rightarrow> [CHR '' ''])
      else c # flatten_lines cs)"

definition appendSessionInfo :: "session_env \<Rightarrow> int \<Rightarrow> string \<Rightarrow> session_entry session_op" where
  "appendSessionInfo env now name =
     appendKind env now (SessionInfoEntry (Some (js_trim (flatten_lines name))))"

definition getSessionName :: "session \<Rightarrow> string option" where
  "getSessionName s =
     (case List.map_filter (\<lambda>e. case se_kind e of SessionInfoEntry n \<Rightarrow> Some n | _ \<Rightarrow> None)
             (rev (session_entries (ss_fileEntries s))) of
        Some n # _ \<Rightarrow> (let t = js_trim n in if t = [] then None else Some t)
      | _ \<Rightarrow> None)"

text \<open>
  A compaction stores the replayed system message of the context it summarises. The
  projection walks the leaf's path; a walk that never ends makes the call never return,
  here the error \<open>STUCK\<close>.
\<close>

definition STUCK :: js_error where
  "STUCK = ''the walk to the root does not end''"

definition appendCompaction ::
  "session_env \<Rightarrow> int \<Rightarrow> string \<Rightarrow> string option \<Rightarrow> nat \<Rightarrow> json option \<Rightarrow> bool option \<Rightarrow> usage option
     \<Rightarrow> session_entry session_op" where
  "appendCompaction env now summary firstKept tokensBefore details fromHook u s =
     (case sessionProjection s of
        None \<Rightarrow> (Inl STUCK, s)
      | Some p \<Rightarrow>
          (let (i, drawn) = generateId (sv_uuid env) (ss_drawn s) (jsmap_keys (ss_byId s));
               e = \<lparr>se_id = i, se_parentId = ss_leafId s, se_timestamp = now,
                    se_kind = Compaction
                      \<lparr>co_summary = summary,
                       co_firstKeptEntryId = Some (case firstKept of None \<Rightarrow> i | Some k \<Rightarrow> k),
                       co_firstKeptEntryIndex = None, co_tokensBefore = tokensBefore,
                       co_details = details, co_usage = u, co_fromHook = fromHook,
                       co_systemMessage =
                         map_option (\<lambda>m. m\<lparr>sm_timestamp := now\<rparr>) (getCurrentSystemMessage (sp_messages p))\<rparr>\<rparr>
           in case appendEntry env e (s\<lparr>ss_drawn := drawn\<rparr>) of
                (Inl err, s') \<Rightarrow> (Inl err, s')
              | (Inr _, s') \<Rightarrow> (Inr e, s')))"

fun is_editable :: "entry_kind \<Rightarrow> bool" where
  "is_editable (CustomMessageEntry _ _ _ _) = True"
| "is_editable (MessageEntry (UserMsg _)) = True"
| "is_editable (MessageEntry (AssistantMsg _)) = True"
| "is_editable (MessageEntry (ToolResultMsg _)) = True"
| "is_editable _ = False"

fun normalize_replacement :: "entry_kind \<Rightarrow> content \<Rightarrow> content" where
  "normalize_replacement (MessageEntry (AssistantMsg _)) c = as_blocks c"
| "normalize_replacement (MessageEntry (ToolResultMsg _)) c = as_blocks c"
| "normalize_replacement _ c = c"

definition appendContextEdit ::
  "session_env \<Rightarrow> int \<Rightarrow> string \<Rightarrow> content option \<Rightarrow> session_entry session_op" where
  "appendContextEdit env now targetId replacement s =
     (if replacement = Some NoContent
      then (Inl ''Context edit replacement must be null or contain string/array content'', s)
      else case map_of (ss_byId s) targetId of
             None \<Rightarrow> (Inl (''Entry '' @ targetId @ '' not found''), s)
           | Some target \<Rightarrow>
               (case getBranch None s of
                  None \<Rightarrow> (Inl STUCK, s)
                | Some path \<Rightarrow>
                    if \<not> list_ex (\<lambda>e. se_id e = targetId) path
                    then (Inl (''Entry '' @ targetId @ '' is not on the active branch''), s)
                    else if \<not> is_editable (se_kind target)
                    then (Inl (''Entry '' @ targetId @ '' does not contribute editable model content''), s)
                    else appendKind env now
                           (ContextEdit targetId
                             (map_option (normalize_replacement (se_kind target)) replacement)) s))"

definition appendLabelChange ::
  "session_env \<Rightarrow> int \<Rightarrow> string \<Rightarrow> string option \<Rightarrow> session_entry session_op" where
  "appendLabelChange env now targetId label s =
     (if map_of (ss_byId s) targetId = None then (Inl (''Entry '' @ targetId @ '' not found''), s)
      else case appendKind env now (LabelEntry targetId label) s of
             (Inl e, s') \<Rightarrow> (Inl e, s')
           | (Inr e, s') \<Rightarrow> (Inr e, index_label targetId label (se_timestamp e) s'))"

section \<open>Branching\<close>

definition branch :: "string \<Rightarrow> unit session_op" where
  "branch branchFromId s =
     (if map_of (ss_byId s) branchFromId = None
      then (Inl (''Entry '' @ branchFromId @ '' not found''), s)
      else (Inr (), s\<lparr>ss_leafId := Some branchFromId\<rparr>))"

definition resetLeaf :: "session \<Rightarrow> session" where
  "resetLeaf s = s\<lparr>ss_leafId := None\<rparr>"

definition branchWithSummary ::
  "session_env \<Rightarrow> int \<Rightarrow> string option \<Rightarrow> string \<Rightarrow> json option \<Rightarrow> bool option \<Rightarrow> usage option
     \<Rightarrow> session_entry session_op" where
  "branchWithSummary env now branchFromId summary details fromHook u s =
     (case branchFromId of
        Some i \<Rightarrow>
          if map_of (ss_byId s) i = None then (Inl (''Entry '' @ i @ '' not found''), s)
          else appendKind env now (BranchSummary
                 \<lparr>br_fromId = (case ss_leafId s of None \<Rightarrow> ''root'' | Some l \<Rightarrow> l), br_summary = summary,
                  br_details = details, br_usage = u, br_fromHook = fromHook\<rparr>)
                 (s\<lparr>ss_leafId := Some i\<rparr>)
      | None \<Rightarrow>
          appendKind env now (BranchSummary
            \<lparr>br_fromId = (case ss_leafId s of None \<Rightarrow> ''root'' | Some l \<Rightarrow> l), br_summary = summary,
             br_details = details, br_usage = u, br_fromHook = fromHook\<rparr>)
            (s\<lparr>ss_leafId := None\<rparr>))"

section \<open>Extracting a branch\<close>

text \<open>
  The loop that drops label entries: \<open>pending\<close> are labels since the last kept entry,
  \<open>repl\<close> maps a dropped label to the entry that follows it.
\<close>

record strip_state =
  st_path :: "session_entry list"
  st_repl :: "(string, string) jsmap"
  st_pending :: "string list"
  st_parent :: "string option"

definition strip_step :: "session_entry \<Rightarrow> strip_state \<Rightarrow> strip_state" where
  "strip_step e st =
     (if is_label (se_kind e) then st\<lparr>st_pending := st_pending st @ [se_id e]\<rparr>
      else
        let repl = fold (\<lambda>l. AList.update l (se_id e)) (st_pending st) (st_repl st);
            e1 = e\<lparr>se_parentId := st_parent st\<rparr>;
            e2 = (case se_kind e of
                    Compaction c \<Rightarrow>
                      e1\<lparr>se_kind := Compaction (c\<lparr>co_firstKeptEntryId :=
                        (case co_firstKeptEntryId c of
                           None \<Rightarrow> None
                         | Some k \<Rightarrow> if k = se_id e then Some (se_id e)
                             else (case map_of repl k of Some r \<Rightarrow> Some r | None \<Rightarrow> Some k))\<rparr>)\<rparr>
                  | _ \<Rightarrow> e1)
        in \<lparr>st_path = st_path st @ [e2], st_repl = repl, st_pending = [], st_parent = Some (se_id e)\<rparr>)"

definition strip_labels :: "session_entry list \<Rightarrow> session_entry list" where
  "strip_labels path =
     st_path (fold strip_step path \<lparr>st_path = [], st_repl = [], st_pending = [], st_parent = None\<rparr>)"

text \<open>The label entries of a branched session, chained after its last entry.\<close>

fun label_chain ::
  "(nat \<Rightarrow> string) \<Rightarrow> nat \<Rightarrow> string list \<Rightarrow> string option \<Rightarrow> (string \<times> string \<times> int) list
     \<Rightarrow> session_entry list \<times> nat" where
  "label_chain uuid n ids parent [] = ([], n)"
| "label_chain uuid n ids parent ((targetId, label, time) # rest) =
     (case generateId uuid n ids of
        (i, n') \<Rightarrow>
          (case label_chain uuid n' (set_add i ids) (Some i) rest of
             (es, n'') \<Rightarrow>
               (\<lparr>se_id = i, se_parentId = parent, se_timestamp = time,
                 se_kind = LabelEntry targetId (Some label)\<rparr> # es, n'')))"

definition labels_to_write :: "session_entry list \<Rightarrow> session \<Rightarrow> (string \<times> string \<times> int) list" where
  "labels_to_write path s =
     map (\<lambda>(t, l). (t, l, case map_of (ss_labelTimestampsById s) t of Some time \<Rightarrow> time | None \<Rightarrow> 0))
       (filter (\<lambda>(t, l). t \<in> set (map se_id path)) (ss_labelsById s))"

definition last_id :: "session_entry list \<Rightarrow> string option" where
  "last_id es = (if es = [] then None else if se_id (last es) = [] then None else Some (se_id (last es)))"

definition createBranchedSession :: "session_env \<Rightarrow> int \<Rightarrow> string \<Rightarrow> string option session_op" where
  "createBranchedSession env now leafId s =
     (case getBranch (Some leafId) s of
        None \<Rightarrow> (Inl STUCK, s)
      | Some [] \<Rightarrow> (Inl (''Entry '' @ leafId @ '' not found''), s)
      | Some path \<Rightarrow>
          (let stripped = strip_labels path;
               i = sv_sessionId env (ss_drawn s);
               file = session_path env (ss_sessionDir s) now i;
               header = \<lparr>sh_version = Some CURRENT_SESSION_VERSION, sh_id = i, sh_timestamp = now,
                         sh_cwd = Some (ss_cwd s),
                         sh_parentSession = (if ss_persist s then ss_sessionFile s else None)\<rparr>;
               (labels, drawn) = label_chain (sv_uuid env) (Suc (ss_drawn s)) (remdups (map se_id stripped))
                                   (last_id stripped) (labels_to_write stripped s);
               s1 = s\<lparr>ss_fileEntries := HeaderEntry header # map EntryLine (stripped @ labels),
                      ss_sessionId := i, ss_drawn := drawn\<rparr>
           in if ss_persist s
              then let s2 = buildIndex (s1\<lparr>ss_sessionFile := Some file\<rparr>)
                   in (Inr (Some file),
                       if hasConversation s2 then (rewriteFile env s2)\<lparr>ss_flushed := True\<rparr>
                       else s2\<lparr>ss_flushed := False\<rparr>)
              else (Inr None, buildIndex s1)))"

end
