(* ===== verification/Session_Invariants.thy ===== *)
theory Session_Invariants
  imports Session_Manager
begin

text \<open>
  The well-formedness of a session, what one call can do to it (\<open>effect\<close>), the locale of
  append-only logs with its interpretation on sessions, and the branches and contexts of a
  well-formed session.
\<close>

section \<open>Well-formed sessions\<close>

definition index_of :: "session_entry list \<Rightarrow> (string, session_entry) jsmap" where
  "index_of es = map (\<lambda>e. (se_id e, e)) es"

definition leaf_in :: "string option \<Rightarrow> session_entry list \<Rightarrow> bool" where
  "leaf_in leaf es \<longleftrightarrow> (\<forall>i. leaf = Some i \<longrightarrow> i \<in> ids_of es)"

lemma leaf_in_simps [simp]: "leaf_in None es" "leaf_in (Some i) es \<longleftrightarrow> i \<in> ids_of es"
  by (simp_all add: leaf_in_def)

text \<open>A context edit targets an editable entry of the path it was appended to.\<close>

definition edit_ok :: "session_entry list \<Rightarrow> entry_kind \<Rightarrow> bool" where
  "edit_ok path k \<longleftrightarrow> (\<forall>t r. k = ContextEdit t r \<longrightarrow> (\<exists>x \<in> set path. se_id x = t \<and> is_editable (se_kind x)))"

definition edits_ok :: "session_entry list \<Rightarrow> bool" where
  "edits_ok es \<longleftrightarrow> (\<forall>e \<in> set es. edit_ok (path_to es (se_parentId e)) (se_kind e))"

lemma edits_ok_Nil [simp]: "edits_ok []"
  by (simp add: edits_ok_def)

lemma edits_ok_snoc:
  assumes "rooted (es @ [e])"
  shows "edits_ok (es @ [e]) \<longleftrightarrow> edits_ok es \<and> edit_ok (path_to es (se_parentId e)) (se_kind e)"
proof -
  have r: "rooted es" using assms by (simp add: rooted_snoc)
  have known: "\<forall>i. se_parentId x = Some i \<longrightarrow> i \<in> ids_of es" if "x \<in> set (es @ [e])" for x
    using that assms rooted_parent_mem [OF r, of x] by (auto simp: rooted_snoc)
  have "path_to (es @ [e]) (se_parentId x) = path_to es (se_parentId x)" if "x \<in> set (es @ [e])" for x
    using path_to_append [OF assms known [OF that]] .
  then show ?thesis by (auto simp: edits_ok_def)
qed

text \<open>
  A session as the manager keeps it: one current header, then a history; the index lists
  the history in order; the leaf is one of its entries; edits have a target; UUIDs still to be drawn are unused.
\<close>

definition session_wf :: "session_env \<Rightarrow> session \<Rightarrow> bool" where
  "session_wf env s \<longleftrightarrow>
     (\<exists>h es. ss_fileEntries s = HeaderEntry h # map EntryLine es \<and>
        sh_version h = Some CURRENT_SESSION_VERSION \<and> sh_id h = ss_sessionId s \<and>
        rooted es \<and> ss_byId s = index_of es \<and>
        leaf_in (ss_leafId s) es \<and> edits_ok es \<and>
        unused_from (sv_uuid env) (ss_drawn s) (ids_of es))"

lemma session_entries_lines [simp]: "session_entries (map EntryLine es) = es"
  by (induction es) simp_all

lemma session_wf_getEntries:
  assumes "session_wf env s"
  obtains h where "ss_fileEntries s = HeaderEntry h # map EntryLine (getEntries s)"
    and "sh_version h = Some CURRENT_SESSION_VERSION" and "sh_id h = ss_sessionId s"
    and "rooted (getEntries s)" and "ss_byId s = index_of (getEntries s)"
    and "leaf_in (ss_leafId s) (getEntries s)" and "edits_ok (getEntries s)"
    and "unused_from (sv_uuid env) (ss_drawn s) (ids_of (getEntries s))"
proof -
  from assms obtain h es where s: "ss_fileEntries s = HeaderEntry h # map EntryLine es"
    "sh_version h = Some CURRENT_SESSION_VERSION" "sh_id h = ss_sessionId s" "rooted es"
    "ss_byId s = index_of es" "leaf_in (ss_leafId s) es" "edits_ok es"
    "unused_from (sv_uuid env) (ss_drawn s) (ids_of es)" by (auto simp: session_wf_def)
  then have "getEntries s = es" by (simp add: getEntries_def)
  with s that show thesis by simp
qed

lemma index_of_keys [simp]: "jsmap_keys (index_of es) = map se_id es"
  by (simp add: index_of_def jsmap_keys_def)

lemma indexes_index_of [simp]: "indexes (index_of es) es"
  by (simp add: indexes_def index_of_def)

lemma indexes_byId [simp]: "indexes (buildEntryIndex es (Some (index_of es))) es"
  by (simp add: buildEntryIndex_def)

lemma lookup_index_of:
  "rooted es \<Longrightarrow> e \<in> set es \<Longrightarrow> map_of (index_of es) (se_id e) = Some e"
  by (rule indexes_lookup [OF indexes_index_of rooted_distinct])

lemma lookup_index_of_None: "map_of (index_of es) i = None \<longleftrightarrow> i \<notin> ids_of es"
  by (simp add: index_of_def map_of_eq_None_iff image_image)

lemma update_index_of:
  "se_id e \<notin> ids_of es \<Longrightarrow> AList.update (se_id e) e (index_of es) = index_of (es @ [e])"
  by (simp add: index_of_def update_fresh image_image)

section \<open>What an append does\<close>

text \<open>Writing changes only the disk and the flag.\<close>

definition same_memory :: "session \<Rightarrow> session \<Rightarrow> bool" where
  "same_memory s s' \<longleftrightarrow> s'\<lparr>ss_disk := ss_disk s, ss_flushed := ss_flushed s\<rparr> = s"

lemma same_memory_fields:
  assumes "same_memory s s'"
  shows "ss_fileEntries s' = ss_fileEntries s" "ss_byId s' = ss_byId s" "ss_leafId s' = ss_leafId s"
    "ss_labelsById s' = ss_labelsById s" "ss_labelTimestampsById s' = ss_labelTimestampsById s"
    "ss_drawn s' = ss_drawn s" "ss_sessionId s' = ss_sessionId s" "ss_sessionFile s' = ss_sessionFile s"
    "ss_persist s' = ss_persist s" "ss_sessionDir s' = ss_sessionDir s" "ss_cwd s' = ss_cwd s"
  using assms by (cases s; cases s'; simp add: same_memory_def)+

lemma persist_memory: "same_memory s (snd (persist env e s))"
  by (auto simp: persist_def same_memory_def split: option.splits)

lemma rewriteFile_memory: "same_memory s (rewriteFile env s)"
  by (auto simp: rewriteFile_def same_memory_def split: option.splits)

definition pushed :: "session_entry \<Rightarrow> nat \<Rightarrow> session \<Rightarrow> session" where
  "pushed e drawn s =
     s\<lparr>ss_drawn := drawn, ss_fileEntries := ss_fileEntries s @ [EntryLine e],
       ss_byId := AList.update (se_id e) e (ss_byId s), ss_leafId := Some (se_id e)\<rparr>"

lemma appendEntry_pushed:
  "appendEntry env e (s\<lparr>ss_drawn := drawn\<rparr>) = persist env e (pushed e drawn s)"
  by (simp add: appendEntry_def pushed_def)

lemma pushed_fields [simp]:
  "ss_fileEntries (pushed e n s) = ss_fileEntries s @ [EntryLine e]"
  "ss_byId (pushed e n s) = AList.update (se_id e) e (ss_byId s)"
  "ss_leafId (pushed e n s) = Some (se_id e)" "ss_drawn (pushed e n s) = n"
  "ss_labelsById (pushed e n s) = ss_labelsById s"
  "ss_labelTimestampsById (pushed e n s) = ss_labelTimestampsById s"
  "ss_sessionId (pushed e n s) = ss_sessionId s" "ss_sessionFile (pushed e n s) = ss_sessionFile s"
  "ss_persist (pushed e n s) = ss_persist s" "ss_sessionDir (pushed e n s) = ss_sessionDir s"
  "ss_cwd (pushed e n s) = ss_cwd s" "ss_flushed (pushed e n s) = ss_flushed s"
  "ss_disk (pushed e n s) = ss_disk s" "getEntries (pushed e n s) = getEntries s @ [e]"
  by (simp_all add: pushed_def getEntries_def)

text \<open>
  One appended entry: fresh id, child of the leaf, at the end of the file, and the new
  leaf. The memory is updated also when writing throws.
\<close>

definition appends :: "session_env \<Rightarrow> session_entry \<Rightarrow> session \<Rightarrow> session \<Rightarrow> bool" where
  "appends env e s s' \<longleftrightarrow>
     (\<exists>n. (\<exists>r. persist env e (pushed e n s) = (r, s')) \<and> ss_drawn s < n \<and>
        unused_from (sv_uuid env) n (insert (se_id e) (ids_of (getEntries s)))) \<and>
     se_id e \<notin> ids_of (getEntries s) \<and> se_id e \<noteq> [] \<and> se_parentId e = ss_leafId s"

definition wrote :: "session_env \<Rightarrow> session_entry \<Rightarrow> session \<Rightarrow> session \<Rightarrow> bool" where
  "wrote env e s s' \<longleftrightarrow> (\<exists>n. persist env e (pushed e n s) = (Inr (), s'))"

lemma appendsE:
  assumes "appends env e s s'"
  obtains n r where "persist env e (pushed e n s) = (r, s')" and "same_memory (pushed e n s) s'"
    and "unused_from (sv_uuid env) n (insert (se_id e) (ids_of (getEntries s)))"
    and "se_id e \<notin> ids_of (getEntries s)" and "se_id e \<noteq> []" and "se_parentId e = ss_leafId s"
  using assms persist_memory [of "pushed e _ s" env e] unfolding appends_def by (metis snd_conv)

lemma same_memory_wf: "same_memory s s' \<Longrightarrow> session_wf env s' \<longleftrightarrow> session_wf env s"
  by (simp add: session_wf_def same_memory_fields)

lemma same_memory_getEntries: "same_memory s s' \<Longrightarrow> getEntries s' = getEntries s"
  by (simp add: getEntries_def same_memory_fields)

lemma appends_fields:
  assumes "appends env e s s'"
  shows "ss_fileEntries s' = ss_fileEntries s @ [EntryLine e]"
    "getEntries s' = getEntries s @ [e]" "ss_leafId s' = Some (se_id e)"
    "ss_byId s' = AList.update (se_id e) e (ss_byId s)"
    "ss_labelsById s' = ss_labelsById s" "ss_labelTimestampsById s' = ss_labelTimestampsById s"
    "ss_persist s' = ss_persist s" "ss_sessionFile s' = ss_sessionFile s"
    "ss_sessionId s' = ss_sessionId s"
  using assms by (auto elim!: appendsE simp: getEntries_def dest: same_memory_fields)

lemma appends_wf:
  assumes "appends env e s s'" and "session_wf env s" and "edit_ok (path_to (getEntries s) (ss_leafId s)) (se_kind e)"
  shows "session_wf env s'"
proof -
  from assms(2) obtain h where s: "ss_fileEntries s = HeaderEntry h # map EntryLine (getEntries s)"
    "sh_version h = Some CURRENT_SESSION_VERSION" "sh_id h = ss_sessionId s"
    "rooted (getEntries s)" "ss_byId s = index_of (getEntries s)"
    "leaf_in (ss_leafId s) (getEntries s)" "edits_ok (getEntries s)"
    by (rule session_wf_getEntries)
  from assms(1) obtain n r where n: "same_memory (pushed e n s) s'"
    "unused_from (sv_uuid env) n (insert (se_id e) (ids_of (getEntries s)))"
    and e: "se_id e \<notin> ids_of (getEntries s)" "se_id e \<noteq> []" "se_parentId e = ss_leafId s"
    by (rule appendsE)
  have "rooted (getEntries s @ [e])" using s e by (auto simp: rooted_snoc leaf_in_def split: option.split)
  moreover from this have "edits_ok (getEntries s @ [e])"
    using s(7) assms(3) e(3) by (simp add: edits_ok_snoc)
  ultimately have "session_wf env (pushed e n s)"
    unfolding session_wf_def using s n e
    by (intro exI [of _ h] exI [of _ "getEntries s @ [e]"]) (simp add: update_index_of)
  with n(1) show ?thesis by (simp add: same_memory_wf)
qed

lemma persist_appends:
  assumes "uuid_ok (sv_uuid env)" and "session_wf env s"
    and "generateId (sv_uuid env) (ss_drawn s) (jsmap_keys (ss_byId s)) = (i, n)"
    and "persist env e (pushed e n s) = (r, s')" and "se_id e = i" and "se_parentId e = ss_leafId s"
  shows "appends env e s s'"
proof -
  from assms(2) have w: "ss_byId s = index_of (getEntries s)"
    "unused_from (sv_uuid env) (ss_drawn s) (ids_of (getEntries s))"
    by (auto elim: session_wf_getEntries)
  from generateId_spec [OF assms(1) _ assms(3)] w
  have "i \<notin> ids_of (getEntries s)" "ss_drawn s < n" "i \<noteq> []"
    "unused_from (sv_uuid env) n (insert i (ids_of (getEntries s)))" by simp_all
  then show ?thesis using assms(4,5,6) unfolding appends_def by blast
qed

lemma appendKind_appends:
  assumes "uuid_ok (sv_uuid env)" and "session_wf env s" and "appendKind env now k s = (r, s')"
  obtains e where "appends env e s s'" and "se_kind e = k" and "se_timestamp e = now"
    and "r = Inr e \<and> wrote env e s s' \<or> (\<exists>err. r = Inl err)"
proof -
  obtain i n where g: "generateId (sv_uuid env) (ss_drawn s) (jsmap_keys (ss_byId s)) = (i, n)" by fastforce
  let ?e = "\<lparr>se_id = i, se_parentId = ss_leafId s, se_timestamp = now, se_kind = k\<rparr>"
  obtain r' where p: "persist env ?e (pushed ?e n s) = (r', s')"
    and "r = Inr ?e \<and> r' = Inr () \<or> (\<exists>err. r = Inl err)"
    using assms(3) g by (auto simp: appendKind_def appendEntry_pushed Let_def split: prod.splits sum.splits)
  then have w: "r = Inr ?e \<and> wrote env ?e s s' \<or> (\<exists>err. r = Inl err)"
    using p by (auto simp: wrote_def)
  show ?thesis
  proof (rule that [of ?e])
    show "appends env ?e s s'" by (rule persist_appends [OF assms(1,2) g p]) simp_all
  qed (use w in simp_all)
qed

lemma appendCompaction_appends:
  assumes "uuid_ok (sv_uuid env)" and "session_wf env s"
    and "appendCompaction env now summary fk tokens details fromHook u s = (r, s')"
    and "sessionProjection s = Some p"
  obtains e d where "appends env e s s'" and "se_kind e = Compaction d" and "co_summary d = summary"
    and "co_firstKeptEntryId d = Some (case fk of None \<Rightarrow> se_id e | Some k \<Rightarrow> k)"
    and "co_systemMessage d = map_option (\<lambda>m. m\<lparr>sm_timestamp := now\<rparr>) (getCurrentSystemMessage (sp_messages p))"
    and "r = Inr e \<and> wrote env e s s' \<or> (\<exists>err. r = Inl err)"
proof -
  obtain i n where g: "generateId (sv_uuid env) (ss_drawn s) (jsmap_keys (ss_byId s)) = (i, n)" by fastforce
  let ?d = "\<lparr>co_summary = summary,
       co_firstKeptEntryId = Some (case fk of None \<Rightarrow> i | Some k \<Rightarrow> k),
       co_firstKeptEntryIndex = None, co_tokensBefore = tokens,
       co_details = details, co_usage = u, co_fromHook = fromHook,
       co_systemMessage = map_option (\<lambda>m. m\<lparr>sm_timestamp := now\<rparr>) (getCurrentSystemMessage (sp_messages p))\<rparr>"
  let ?e = "\<lparr>se_id = i, se_parentId = ss_leafId s, se_timestamp = now, se_kind = Compaction ?d\<rparr>"
  obtain r' where p: "persist env ?e (pushed ?e n s) = (r', s')"
    and "r = Inr ?e \<and> r' = Inr () \<or> (\<exists>err. r = Inl err)"
    using assms(3,4) g by (auto simp: appendCompaction_def appendEntry_pushed Let_def split: prod.splits sum.splits)
  then have w: "r = Inr ?e \<and> wrote env ?e s s' \<or> (\<exists>err. r = Inl err)"
    using p by (auto simp: wrote_def)
  show ?thesis
  proof (rule that [of ?e ?d])
    show "appends env ?e s s'" by (rule persist_appends [OF assms(1,2) g p]) simp_all
  qed (use w in \<open>simp_all split: option.split\<close>)
qed

section \<open>Calls on an open session\<close>

datatype session_call =
    CallMessage agent_message
  | CallThinkingLevel string
  | CallModel string string
  | CallUsage string string string usage "string option"
  | CallCompaction string "string option" nat "json option" "bool option" "usage option"
  | CallCustom string "json option"
  | CallSessionInfo string
  | CallCustomMessage string content bool "json option"
  | CallContextEdit string "content option"
  | CallLabel string "string option"
  | CallBranch string
  | CallResetLeaf
  | CallBranchWithSummary "string option" string "json option" "bool option" "usage option"

definition no_result :: "'a exc \<times> session \<Rightarrow> unit exc \<times> session" where
  "no_result rs = (case rs of (Inl e, s) \<Rightarrow> (Inl e, s) | (Inr _, s) \<Rightarrow> (Inr (), s))"

fun perform :: "session_env \<Rightarrow> int \<Rightarrow> session_call \<Rightarrow> unit session_op" where
  "perform env now (CallMessage m) s = no_result (appendMessage env now m s)"
| "perform env now (CallThinkingLevel l) s = no_result (appendThinkingLevelChange env now l s)"
| "perform env now (CallModel p m) s = no_result (appendModelChange env now p m s)"
| "perform env now (CallUsage k p m u note) s = no_result (appendUsage env now k p m u note s)"
| "perform env now (CallCompaction t k n d h u) s = no_result (appendCompaction env now t k n d h u s)"
| "perform env now (CallCustom t d) s = no_result (appendCustomEntry env now t d s)"
| "perform env now (CallSessionInfo n) s = no_result (appendSessionInfo env now n s)"
| "perform env now (CallCustomMessage t c disp d) s = no_result (appendCustomMessageEntry env now t c disp d s)"
| "perform env now (CallContextEdit t r) s = no_result (appendContextEdit env now t r s)"
| "perform env now (CallLabel t l) s = no_result (appendLabelChange env now t l s)"
| "perform env now (CallBranch i) s = branch i s"
| "perform env now CallResetLeaf s = (Inr (), resetLeaf s)"
| "perform env now (CallBranchWithSummary i t d h u) s = no_result (branchWithSummary env now i t d h u s)"

inductive session_step :: "session_env \<Rightarrow> session \<Rightarrow> session \<Rightarrow> bool" for env where
  call: "perform env now c s = (r, s') \<Longrightarrow> session_step env s s'"

definition session_ok :: "session_env \<Rightarrow> session \<Rightarrow> bool" where
  "session_ok env s \<longleftrightarrow> uuid_ok (sv_uuid env) \<and> session_wf env s"

section \<open>What a call can do\<close>

text \<open>
  A call moves the leaf to an entry of the history or before all of them, and then may
  append one entry; a label entry that was written also updates the label maps.
\<close>

inductive effect :: "session_env \<Rightarrow> session \<Rightarrow> bool \<Rightarrow> session \<Rightarrow> bool" for env s where
  moved: "leaf_in l (getEntries s) \<Longrightarrow> effect env s b (s\<lparr>ss_leafId := l\<rparr>)"
| written: "leaf_in l (getEntries s) \<Longrightarrow> appends env e (s\<lparr>ss_leafId := l\<rparr>) s' \<Longrightarrow>
    edit_ok (path_to (getEntries s) l) (se_kind e) \<Longrightarrow> (b \<Longrightarrow> \<not> is_label (se_kind e)) \<Longrightarrow>
    (b \<Longrightarrow> wrote env e (s\<lparr>ss_leafId := l\<rparr>) s') \<Longrightarrow> effect env s b s'"
| labelled: "appends env e s s' \<Longrightarrow> se_kind e = LabelEntry t lb \<Longrightarrow> wrote env e s s' \<Longrightarrow>
    effect env s b (index_label t lb (se_timestamp e) s')"

lemma no_result_cases:
  "no_result (r, s) = (r', s') \<Longrightarrow> s' = s \<and> ((\<exists>x. r = Inr x \<and> r' = Inr ()) \<or> (\<exists>e. r = Inl e \<and> r' = Inl e))"
  by (auto simp: no_result_def split: sum.splits)

lemma no_resultE:
  assumes "no_result rs = (r', s')"
  obtains r where "rs = (r, s')" and "(\<exists>x. r = Inr x \<and> r' = Inr ()) \<or> (\<exists>e. r = Inl e \<and> r' = Inl e)"
  using assms no_result_cases [of "fst rs" "snd rs"] by (metis prod.collapse)

lemma no_result_effect:
  assumes "no_result rs = (r', s')"
    and "\<And>r. rs = (r, s') \<Longrightarrow> effect env s (\<exists>x. r = Inr x) s'"
  shows "effect env s (r' = Inr ()) s'"
  using assms(1)
proof (rule no_resultE)
  fix r assume r: "rs = (r, s')" "(\<exists>x. r = Inr x \<and> r' = Inr ()) \<or> (\<exists>e. r = Inl e \<and> r' = Inl e)"
  then have "(r' = Inr ()) = (\<exists>x. r = Inr x)" by auto
  with assms(2) [OF r(1)] show ?thesis by simp
qed

lemma session_wf_leaf:
  "session_wf env s \<Longrightarrow> leaf_in l (getEntries s) \<Longrightarrow> session_wf env (s\<lparr>ss_leafId := l\<rparr>)"
  by (auto simp: session_wf_def getEntries_def)

lemma getEntries_leaf [simp]: "getEntries (s\<lparr>ss_leafId := l\<rparr>) = getEntries s"
  by (simp add: getEntries_def)

lemma same_leaf [simp]: "s\<lparr>ss_leafId := ss_leafId s\<rparr> = s"
  by simp

lemma session_wf_leaf_in: "session_wf env s \<Longrightarrow> leaf_in (ss_leafId s) (getEntries s)"
  by (erule session_wf_getEntries)

lemma appendKind_effect:
  assumes "session_ok env s" and "leaf_in l (getEntries s)"
    and "appendKind env now k (s\<lparr>ss_leafId := l\<rparr>) = (r, s')"
    and "edit_ok (path_to (getEntries s) l) k" and "\<not> is_label k"
  shows "effect env s (\<exists>x. r = Inr x) s'"
proof -
  have "uuid_ok (sv_uuid env)" "session_wf env (s\<lparr>ss_leafId := l\<rparr>)"
    using assms(1,2) by (simp_all add: session_ok_def session_wf_leaf)
  then obtain e where
    e: "appends env e (s\<lparr>ss_leafId := l\<rparr>) s'" "se_kind e = k" "se_timestamp e = now"
    "r = Inr e \<and> wrote env e (s\<lparr>ss_leafId := l\<rparr>) s' \<or> (\<exists>err. r = Inl err)"
    by (rule appendKind_appends [OF _ _ assms(3)])
  show ?thesis
  proof (rule effect.written [OF assms(2) e(1)])
    show "wrote env e (s\<lparr>ss_leafId := l\<rparr>) s'" if "\<exists>x. r = Inr x" using that e(4) by blast
  qed (use e(2) assms(4,5) in simp_all)
qed

lemma effect_same: "session_wf env s \<Longrightarrow> effect env s b s"
  using effect.moved [of "ss_leafId s" s env b] session_wf_leaf_in [of env s] by simp

lemmas append_defs = appendMessage_def appendThinkingLevelChange_def appendModelChange_def appendUsage_def
  appendCustomEntry_def appendSessionInfo_def appendCustomMessageEntry_def

lemma appendKind_effect_here:
  assumes "session_ok env s" and "appendKind env now k s = (r, s')"
    and "edit_ok (path_to (getEntries s) (ss_leafId s)) k" and "\<not> is_label k"
  shows "effect env s (\<exists>x. r = Inr x) s'"
  using appendKind_effect [OF assms(1) _ _ assms(3,4), of now r s'] assms(1,2)
    session_wf_leaf_in [of env s]
  by (simp add: session_ok_def)

lemma byId_ids: "session_wf env s \<Longrightarrow> map_of (ss_byId s) i \<noteq> None \<longleftrightarrow> i \<in> ids_of (getEntries s)"
  by (erule session_wf_getEntries) (simp add: lookup_index_of_None)

lemma branchWithSummary_effect:
  assumes "session_ok env s" and "branchWithSummary env now i t d h u s = (r, s')"
  shows "effect env s (\<exists>x. r = Inr x) s'"
proof (cases "i = None \<or> leaf_in i (getEntries s)")
  case True
  have wf: "session_wf env s" using assms(1) by (simp add: session_ok_def)
  let ?k = "BranchSummary \<lparr>br_fromId = (case ss_leafId s of None \<Rightarrow> ''root'' | Some l \<Rightarrow> l), br_summary = t,
              br_details = d, br_usage = u, br_fromHook = h\<rparr>"
  have "appendKind env now ?k (s\<lparr>ss_leafId := i\<rparr>) = (r, s')"
  proof (cases i)
    case (Some j)
    with True byId_ids [OF wf, of j] have "map_of (ss_byId s) j \<noteq> None" by simp
    with assms(2) Some show ?thesis by (simp add: branchWithSummary_def)
  qed (use assms(2) in \<open>simp add: branchWithSummary_def\<close>)
  moreover have "leaf_in i (getEntries s)" using True by auto
  ultimately show ?thesis
    using appendKind_effect [OF assms(1), of i now ?k r s'] by (simp add: edit_ok_def)
next
  case False
  have wf: "session_wf env s" using assms(1) by (simp add: session_ok_def)
  obtain j where j: "i = Some j" "j \<notin> ids_of (getEntries s)" using False by (cases i) auto
  with byId_ids [OF wf, of j] have "map_of (ss_byId s) j = None" by simp
  with assms(2) j have "s' = s" by (simp add: branchWithSummary_def)
  with effect_same [OF wf] show ?thesis by simp
qed

lemma appendCompaction_effect:
  assumes "session_ok env s" and "appendCompaction env now t k n d h u s = (r, s')"
  shows "effect env s (\<exists>x. r = Inr x) s'"
proof (cases "sessionProjection s")
  case None
  with assms effect_same [of env s "\<exists>x. r = Inr x"] show ?thesis by (simp add: appendCompaction_def session_ok_def)
next
  case (Some p)
  from assms(1) have ok: "uuid_ok (sv_uuid env)" "session_wf env s" by (simp_all add: session_ok_def)
  obtain e c where "appends env e s s'" "se_kind e = Compaction c" "co_summary c = t"
    "co_firstKeptEntryId c = Some (case k of None \<Rightarrow> se_id e | Some k \<Rightarrow> k)"
    "co_systemMessage c = map_option (\<lambda>m. m\<lparr>sm_timestamp := now\<rparr>) (getCurrentSystemMessage (sp_messages p))"
    "r = Inr e \<and> wrote env e s s' \<or> (\<exists>err. r = Inl err)"
    by (rule appendCompaction_appends [OF ok assms(2) Some])
  then show ?thesis
    using effect.written [of "ss_leafId s" s env e s' "\<exists>x. r = Inr x"] session_wf_leaf_in [OF ok(2)]
    by (auto simp: edit_ok_def)
qed

lemma getBranch_eq:
  assumes "session_wf env s"
  shows "getBranch i s =
     Some (path_to (getEntries s) (case i of None \<Rightarrow> ss_leafId s | Some j \<Rightarrow> Some j))"
proof -
  from assms have r: "rooted (getEntries s)" and ix: "ss_byId s = index_of (getEntries s)"
    by (auto elim: session_wf_getEntries)
  let ?t = "case i of None \<Rightarrow> ss_leafId s | Some j \<Rightarrow> Some j"
  show ?thesis
  proof (cases "\<exists>j. ?t = Some j \<and> j \<in> ids_of (getEntries s)")
    case True
    then obtain e where e: "e \<in> set (getEntries s)" "?t = Some (se_id e)" by auto
    with r have "se_id e \<noteq> []" by (simp add: rooted_id_nonempty)
    with e walk_up_path [OF r indexes_index_of e(1), of "[]"] lookup_index_of [OF r e(1)] ix show ?thesis
      by (simp add: getBranch_def Let_def)
  next
    case False
    then have "path_to (getEntries s) ?t = []" by (intro path_to_absent) auto
    moreover have "(case ?t of None \<Rightarrow> None | Some j \<Rightarrow> if j = [] then None else map_of (ss_byId s) j) = None"
      using False ix lookup_index_of_None [of "getEntries s"] by (cases ?t) auto
    ultimately show ?thesis unfolding getBranch_def Let_def by simp
  qed
qed

lemma appendContextEdit_effect:
  assumes "session_ok env s" and "appendContextEdit env now t rp s = (r, s')"
  shows "effect env s (\<exists>x. r = Inr x) s'"
proof -
  have wf: "session_wf env s" using assms(1) by (simp add: session_ok_def)
  from assms(2) consider (same) "s' = s"
    | (edit) c path x where "appendKind env now (ContextEdit t c) s = (r, s')" "getBranch None s = Some path"
        "list_ex (\<lambda>e. se_id e = t) path" "map_of (ss_byId s) t = Some x" "is_editable (se_kind x)"
    by (auto simp: appendContextEdit_def split: if_splits option.splits)
  then show ?thesis
  proof cases
    case same
    with effect_same [OF wf] show ?thesis by simp
  next
    case edit
    from wf have ix: "ss_byId s = index_of (getEntries s)" and r: "rooted (getEntries s)"
      by (auto elim: session_wf_getEntries)
    from edit(2,3) getBranch_eq [OF wf, of None] obtain y where
      y: "y \<in> set (path_to (getEntries s) (ss_leafId s))" "se_id y = t" by (auto simp: list_ex_iff)
    then have "y \<in> set (getEntries s)" using set_path_to by blast
    then have "y = x" using lookup_index_of [OF r] edit(4) y(2) ix by force
    with y edit(5) have "edit_ok (path_to (getEntries s) (ss_leafId s)) (ContextEdit t c)"
      by (auto simp: edit_ok_def)
    with appendKind_effect_here [OF assms(1) edit(1)] show ?thesis by simp
  qed
qed

lemma appendLabelChange_cases:
  assumes "session_ok env s" and "appendLabelChange env now t lb s = (r, s')"
  obtains (unknown) "s' = s" "t \<notin> ids_of (getEntries s)" "r = Inl (''Entry '' @ t @ '' not found'')"
  | (failed) e err where "appends env e s s'" "se_kind e = LabelEntry t lb" "r = Inl err"
      "t \<in> ids_of (getEntries s)"
  | (labelled) e s1 where "appends env e s s1" "se_kind e = LabelEntry t lb" "se_timestamp e = now"
      "r = Inr e" "wrote env e s s1" "s' = index_label t lb now s1" "t \<in> ids_of (getEntries s)"
proof -
  have ok: "uuid_ok (sv_uuid env)" "session_wf env s" using assms(1) by (simp_all add: session_ok_def)
  show thesis
  proof (cases "t \<in> ids_of (getEntries s)")
    case False
    with assms(2) byId_ids [OF ok(2), of t] unknown show ?thesis
      by (auto simp: appendLabelChange_def split: if_splits)
  next
    case True
    obtain r1 s1 where a: "appendKind env now (LabelEntry t lb) s = (r1, s1)" by fastforce
    obtain e where e: "appends env e s s1" "se_kind e = LabelEntry t lb"
      "se_timestamp e = now" "r1 = Inr e \<and> wrote env e s s1 \<or> (\<exists>err. r1 = Inl err)"
      by (rule appendKind_appends [OF ok a])
    with a assms(2) byId_ids [OF ok(2), of t] True failed labelled show ?thesis
      by (auto simp: appendLabelChange_def split: if_splits)
  qed
qed

lemma appendLabelChange_effect:
  assumes "session_ok env s" and "appendLabelChange env now t lb s = (r, s')"
  shows "effect env s (\<exists>x. r = Inr x) s'"
proof -
  have wf: "session_wf env s" using assms(1) by (simp add: session_ok_def)
  from assms show ?thesis
  proof (cases rule: appendLabelChange_cases)
    case unknown
    with effect_same [OF wf] show ?thesis by simp
  next
    case (failed e err)
    with effect.written [of "ss_leafId s" s env e s' "\<exists>x. r = Inr x"] session_wf_leaf_in [OF wf]
    show ?thesis by (simp add: edit_ok_def)
  next
    case (labelled e s1)
    with effect.labelled [of env e s s1 t lb] show ?thesis by simp
  qed
qed

lemma branch_effect:
  assumes "session_ok env s" and "branch i s = (r, s')"
  shows "effect env s (\<exists>x. r = Inr x) s'"
proof -
  have wf: "session_wf env s" using assms(1) by (simp add: session_ok_def)
  show ?thesis
    using assms(2) byId_ids [OF wf, of i] effect_same [OF wf] effect.moved [of "Some i" s env "\<exists>x. r = Inr x"]
    by (auto simp: branch_def split: if_splits)
qed

theorem perform_effect:
  assumes "session_ok env s" and "perform env now c s = (r, s')"
  shows "effect env s (r = Inr ()) s'"
  using assms(2)
proof (cases c)
  case CallResetLeaf
  with assms(2) effect.moved [of None s] show ?thesis by (auto simp: resetLeaf_def)
next
  case (CallBranch i)
  with assms(2) branch_effect [OF assms(1), of i r s'] show ?thesis by (simp add: unit_eq)
qed (use assms(2) in \<open>auto simp: append_defs edit_ok_def elim!: no_result_effect
      intro: appendKind_effect_here [OF assms(1)] branchWithSummary_effect [OF assms(1)]
        appendCompaction_effect [OF assms(1)] appendContextEdit_effect [OF assms(1)]
        appendLabelChange_effect [OF assms(1)]\<close>)

section \<open>Append-only logs\<close>

text \<open>
  What the readers of a session rely on: steps keep a well-formed history and only add to
  its end. Then every path of an entry is final.
\<close>

locale append_log =
  fixes history :: "'s \<Rightarrow> session_entry list"
    and ok :: "'s \<Rightarrow> bool"
    and step :: "'s \<Rightarrow> 's \<Rightarrow> bool"
  assumes ok_rooted: "ok s \<Longrightarrow> rooted (history s)"
    and step_ok: "ok s \<Longrightarrow> step s s' \<Longrightarrow> ok s'"
    and step_adds: "ok s \<Longrightarrow> step s s' \<Longrightarrow> prefix (history s) (history s')"
begin

lemma run_ok:
  assumes "step\<^sup>*\<^sup>* s s'" and "ok s"
  shows "ok s' \<and> prefix (history s) (history s')"
  using assms
proof (induction rule: rtranclp_induct)
  case (step t u)
  then show ?case using step_ok step_adds prefix_order.trans by blast
qed simp

lemma path_final:
  assumes "step\<^sup>*\<^sup>* s s'" and "ok s" and "i \<in> ids_of (history s)"
  shows "path_to (history s') (Some i) = path_to (history s) (Some i)"
proof -
  from run_ok [OF assms(1,2)] obtain added where a: "history s' = history s @ added" and "ok s'"
    by (auto elim: prefixE)
  then have "rooted (history s @ added)" using ok_rooted by metis
  with a assms(3) show ?thesis by (simp add: path_to_append)
qed

end

section \<open>Calls keep a session well-formed\<close>

lemma index_label_fields [simp]:
  "ss_fileEntries (index_label t lb ts s) = ss_fileEntries s"
  "ss_byId (index_label t lb ts s) = ss_byId s" "ss_leafId (index_label t lb ts s) = ss_leafId s"
  "ss_drawn (index_label t lb ts s) = ss_drawn s" "ss_sessionId (index_label t lb ts s) = ss_sessionId s"
  "ss_disk (index_label t lb ts s) = ss_disk s" "ss_flushed (index_label t lb ts s) = ss_flushed s"
  "ss_persist (index_label t lb ts s) = ss_persist s"
  "ss_sessionFile (index_label t lb ts s) = ss_sessionFile s"
  "getEntries (index_label t lb ts s) = getEntries s"
  by (simp_all add: index_label_def getEntries_def split: option.split)

lemma session_wf_index_label [simp]: "session_wf env (index_label t lb ts s) = session_wf env s"
  by (simp add: session_wf_def)

lemma edit_ok_label [simp]: "edit_ok es (LabelEntry t lb)"
  by (simp add: edit_ok_def)

lemma effect_ok:
  assumes "effect env s b s'" and "session_ok env s"
  shows "session_ok env s' \<and> prefix (ss_fileEntries s) (ss_fileEntries s')"
  using assms(1)
proof cases
  case (moved l)
  with assms(2) show ?thesis by (simp add: session_ok_def session_wf_leaf)
next
  case (written l e)
  from assms(2) written have "session_wf env (s\<lparr>ss_leafId := l\<rparr>)"
    by (simp add: session_ok_def session_wf_leaf)
  with appends_wf [OF written(2)] written assms(2) appends_fields(1) [OF written(2)]
  show ?thesis by (simp add: session_ok_def)
next
  case (labelled e s1 t lb)
  with appends_wf [OF labelled(2)] assms(2) appends_fields(1) [OF labelled(2)]
  show ?thesis by (simp add: session_ok_def)
qed

lemma session_step_effect:
  assumes "session_step env s s'" and "session_ok env s"
  obtains b where "effect env s b s'"
  using assms by (auto elim!: session_step.cases dest: perform_effect)

lemma session_ok_rooted: "session_ok env s \<Longrightarrow> rooted (getEntries s)"
  by (auto simp: session_ok_def elim: session_wf_getEntries)

lemma prefix_session_entries: "prefix fes fes' \<Longrightarrow> prefix (session_entries fes) (session_entries fes')"
  by (auto elim!: prefixE)

interpretation session_log: append_log getEntries "session_ok env" "session_step env" for env
proof
  fix s s' :: session assume ok: "session_ok env s"
  show "rooted (getEntries s)" using ok by (rule session_ok_rooted)
  assume "session_step env s s'"
  then obtain b where "effect env s b s'" using ok by (rule session_step_effect)
  from effect_ok [OF this ok] show "session_ok env s'" "prefix (getEntries s) (getEntries s')"
    by (simp_all add: getEntries_def prefix_session_entries)
qed

lemma run_fileEntries:
  "(session_step env)\<^sup>*\<^sup>* s s' \<Longrightarrow> session_ok env s \<Longrightarrow> prefix (ss_fileEntries s) (ss_fileEntries s')"
proof (induction rule: rtranclp_induct)
  case (step t u)
  from step have "session_ok env t" using session_log.run_ok by blast
  with step obtain b where "effect env t b u" using session_step_effect by blast
  with effect_ok [OF this \<open>session_ok env t\<close>] step show ?case using prefix_order.trans by blast
qed simp

lemma newSession_ok:
  assumes "uuid_ok (sv_uuid env)" and "newSession env now opts s = (Inr f, s')"
  shows "session_ok env s' \<and> getEntries s' = [] \<and> ss_leafId s' = None"
  using assms
  by (auto simp: newSession_def session_ok_def session_wf_def getEntries_def Let_def
      unused_from_def index_of_def split: option.splits sum.splits prod.splits)

section \<open>Branches of a well-formed session\<close>

definition leaf_path :: "session \<Rightarrow> session_entry list" where
  "leaf_path s = path_to (getEntries s) (ss_leafId s)"

lemma leaf_id_leaf_of:
  "leaf_in (ss_leafId s) es \<Longrightarrow> leaf_id es (leaf_of s) = ss_leafId s"
  by (auto simp: leaf_id_def leaf_of_def split: option.split)

lemma sessionProjection_eq:
  assumes "session_wf env s"
  shows "sessionProjection s = Some (project_path (leaf_path s) (compacted_path (leaf_path s)))"
proof -
  from assms have "rooted (getEntries s)" "ss_byId s = index_of (getEntries s)"
    "leaf_in (ss_leafId s) (getEntries s)" by (auto elim: session_wf_getEntries)
  then show ?thesis
    by (simp add: sessionProjection_def buildSessionProjection_eq leaf_id_leaf_of leaf_path_def Let_def)
qed

lemma sessionContext_eq:
  assumes "session_wf env s"
  shows "sessionContext s = Some
     \<lparr>sx_messages = projected_messages (compacted_path (leaf_path s)),
      sx_thinkingLevel = fst (getSessionContextSettings (leaf_path s)),
      sx_model = snd (getSessionContextSettings (leaf_path s))\<rparr>"
  using sessionProjection_eq [OF assms]
  by (simp add: sessionContext_def project_path_def projected_messages_def Let_def split: prod.split)

lemma appends_leaf_path:
  assumes "appends env e s s'" and "session_wf env s"
  shows "leaf_path s' = leaf_path s @ [e]" and "distinct (map se_id (leaf_path s @ [e]))"
    and "set (leaf_path s) \<subseteq> set (getEntries s)"
proof -
  from assms(1) have p: "se_parentId e = ss_leafId s" and f: "se_id e \<notin> ids_of (getEntries s)"
    by (auto elim: appendsE)
  show 1: "leaf_path s' = leaf_path s @ [e]"
    using appends_fields [OF assms(1)] p by (simp add: leaf_path_def path_to_snoc)
  show 2: "set (leaf_path s) \<subseteq> set (getEntries s)" by (simp add: leaf_path_def set_path_to)
  have "rooted (getEntries s)" using assms(2) by (auto elim: session_wf_getEntries)
  then show "distinct (map se_id (leaf_path s @ [e]))"
    using distinct_path_to [of "getEntries s" "ss_leafId s"] f 2 by (auto simp: leaf_path_def)
qed

lemma set_compacted_path: "set (compacted_path path) \<subseteq> set path"
proof (cases path rule: path_cases)
  case (compacted pre c d post)
  have kb: "set (kept_before fk b es) \<subseteq> set es" for fk b es
    by (induction fk b es rule: kept_before.induct) (auto simp: Let_def split: if_splits)
  have lc: "latest_compaction path = Some (c, d)"
    using latest_compaction_split [OF compacted(2,3), of pre] compacted(1) by simp
  show ?thesis
  proof (cases "find_index (\<lambda>e. se_id e = se_id c) path")
    case (Some i)
    have "set (kept_before (co_firstKeptEntryId d) False (take i path)) \<subseteq> set path"
      using kb set_take_subset by (rule subset_trans)
    moreover have "set (drop (Suc i) path) \<subseteq> set path" by (rule set_drop_subset)
    ultimately show ?thesis using lc Some compacted(1) by (simp add: compacted_path_def)
  qed (use lc in \<open>simp add: compacted_path_def\<close>)
qed (simp add: compacted_path_plain)

lemma no_edit_of_fresh:
  assumes "session_wf env s" and "i \<notin> ids_of (getEntries s)" and "set path \<subseteq> set (getEntries s)"
  shows "map_of (context_edits path) i = None"
proof (cases "map_of (context_edits path) i")
  case (Some r)
  then obtain e where "e \<in> set (getEntries s)" "se_kind e = ContextEdit i r"
    using context_edits_target [of path i r] assms(3) by blast
  moreover have "edits_ok (getEntries s)" using assms(1) by (rule session_wf_getEntries)
  ultimately have "i \<in> ids_of (path_to (getEntries s) (se_parentId e))" by (auto simp: edits_ok_def edit_ok_def)
  then show ?thesis using assms(2) set_path_to [of "getEntries s" "se_parentId e"] by blast
qed

lemma appends_context:
  assumes "appends env e s s'" and "session_wf env s" and "session_wf env s'"
    and "\<not> is_compaction (se_kind e)" and "\<not> is_edit (se_kind e)"
  shows "\<exists>sx sx'. sessionContext s = Some sx \<and> sessionContext s' = Some sx' \<and>
     sx_messages sx' = sx_messages sx @ sessionEntryToContextMessages e \<and>
     (sx_thinkingLevel sx', sx_model sx') = settings_step e (sx_thinkingLevel sx, sx_model sx)"
proof -
  note lp = appends_leaf_path [OF assms(1,2)]
  have fresh: "se_id e \<notin> ids_of (getEntries s)" using assms(1) by (rule appendsE)
  have "map_of (context_edits (compacted_path (leaf_path s))) (se_id e) = None"
    using no_edit_of_fresh [OF assms(2) fresh] set_compacted_path [of "leaf_path s"] lp(3) by blast
  then show ?thesis
    using assms(4,5) lp
    by (simp add: sessionContext_eq [OF assms(2)] sessionContext_eq [OF assms(3)]
        compacted_path_snoc projected_messages_snoc getSessionContextSettings_def del: settings_step.simps)
qed

section \<open>A path on its own\<close>

lemma linear_rooted:
  "linear_from None q \<Longrightarrow> distinct (map se_id q) \<Longrightarrow> [] \<notin> ids_of q \<Longrightarrow> rooted q"
  by (induction q rule: rev_induct) (auto simp: rooted_snoc linear_from_snoc)

lemma rooted_path: "rooted es \<Longrightarrow> rooted (path_to es t)"
proof (rule linear_rooted)
  assume r: "rooted es"
  show "linear_from None (path_to es t)" "distinct (map se_id (path_to es t))"
    using r by (simp_all add: path_to_linear distinct_path_to)
  show "[] \<notin> ids_of (path_to es t)" using rooted_nonempty_id [OF r] set_path_to [of es t] by blast
qed

lemma path_of_path: "rooted es \<Longrightarrow> path_to (path_to es t) (leaf_id (path_to es t) LeafUndefined) = path_to es t"
  using linear_determined [OF rooted_path [of es t] path_to_linear [of es t]]
  by (cases "path_to es t = []") (auto simp: leaf_id_def)

lemma projection_of_path:
  assumes "rooted es"
  shows "buildSessionProjection (path_to es t) LeafUndefined None =
     Some (project_path (path_to es t) (compacted_path (path_to es t)))"
  using buildSessionProjection_eq [OF rooted_path [OF assms] indexes_build [OF distinct_path_to [OF assms]]]
  by (simp add: path_of_path [OF assms] Let_def)

lemma linear_from_appendD: "linear_from p (xs @ ys) \<Longrightarrow> linear_from p xs"
  by (induction xs arbitrary: p) auto

lemma path_before:
  assumes "rooted es" and "path_to es t = q1 @ y # q2"
  shows "path_to es (se_parentId y) = q1"
proof -
  have "linear_from None ((q1 @ [y]) @ q2)" using path_to_linear [OF assms(1), of t] assms(2) by simp
  then have l: "linear_from None (q1 @ [y])" by (rule linear_from_appendD)
  then have "linear_from None q1" "se_parentId y = (if q1 = [] then None else Some (se_id (last q1)))"
    by (simp_all add: linear_from_snoc)
  moreover have "set q1 \<subseteq> set es" using set_path_to [of es t] assms(2) by auto
  ultimately show ?thesis using linear_determined [OF assms(1), of q1] by auto
qed

lemma edits_follow:
  assumes "rooted es" and "edits_ok es" and "path_to es t = q1 @ y # q2" and "se_kind y = ContextEdit u r"
  shows "u \<in> ids_of q1"
proof -
  have "y \<in> set es" using set_path_to [of es t] assms(3) by auto
  with assms(2,4) have "u \<in> ids_of (path_to es (se_parentId y))" by (auto simp: edits_ok_def edit_ok_def)
  with path_before [OF assms(1,3)] show ?thesis by simp
qed

end
