(* ===== verification/Session_Storage.thy ===== *)
theory Session_Storage
  imports Session_Invariants
begin

text \<open>
  The parts of a session that are kept besides its entries: the label maps, and the file,
  which follows the memory and gives it back when it is read again.
\<close>

section \<open>The label maps\<close>

definition label_change ::
  "string \<Rightarrow> string option \<Rightarrow> int \<Rightarrow> (string, string) jsmap \<times> (string, int) jsmap
     \<Rightarrow> (string, string) jsmap \<times> (string, int) jsmap" where
  "label_change t lb time maps =
     (case lb of
        Some l \<Rightarrow> if l \<noteq> [] then (AList.update t l (fst maps), AList.update t time (snd maps))
                  else (AList.delete t (fst maps), AList.delete t (snd maps))
      | None \<Rightarrow> (AList.delete t (fst maps), AList.delete t (snd maps)))"

definition label_step ::
  "session_entry \<Rightarrow> (string, string) jsmap \<times> (string, int) jsmap
     \<Rightarrow> (string, string) jsmap \<times> (string, int) jsmap" where
  "label_step e maps =
     (case se_kind e of LabelEntry t lb \<Rightarrow> label_change t lb (se_timestamp e) maps | _ \<Rightarrow> maps)"

definition label_maps :: "session_entry list \<Rightarrow> (string, string) jsmap \<times> (string, int) jsmap" where
  "label_maps es = fold label_step es ([], [])"

lemma label_maps_snoc: "label_maps (es @ [e]) = label_step e (label_maps es)"
  by (simp add: label_maps_def)

lemma label_step_other: "\<not> is_label (se_kind e) \<Longrightarrow> label_step e maps = maps"
  by (auto simp: label_step_def split: entry_kind.split)

definition session_labels :: "session \<Rightarrow> (string, string) jsmap \<times> (string, int) jsmap" where
  "session_labels s = (ss_labelsById s, ss_labelTimestampsById s)"

lemma session_labels_index_label:
  "session_labels (index_label t lb time s) = label_change t lb time (session_labels s)"
  by (simp add: session_labels_def index_label_def label_change_def split: option.split)

lemma index_label_set:
  "index_label t lb time s =
     (let m = label_change t lb time (session_labels s)
      in s\<lparr>ss_labelsById := fst m, ss_labelTimestampsById := snd m\<rparr>)"
  by (simp add: session_labels_def index_label_def label_change_def Let_def split: option.split)

lemma index_entry_eq:
  "index_entry e s =
     (let m = label_step e (session_labels s)
      in s\<lparr>ss_byId := AList.update (se_id e) e (ss_byId s), ss_leafId := Some (se_id e),
            ss_labelsById := fst m, ss_labelTimestampsById := snd m\<rparr>)"
  by (cases "se_kind e")
     (simp_all add: index_entry_def label_step_def index_label_set session_labels_def Let_def)

lemma fold_index_entry:
  "fold index_entry es s =
     (let m = fold label_step es (session_labels s)
      in s\<lparr>ss_byId := fold (\<lambda>e. AList.update (se_id e) e) es (ss_byId s),
            ss_leafId := (if es = [] then ss_leafId s else Some (se_id (last es))),
            ss_labelsById := fst m, ss_labelTimestampsById := snd m\<rparr>)"
  by (induction es rule: rev_induct) (simp_all add: index_entry_eq session_labels_def Let_def)

lemma fold_update_index_of:
  "distinct (map se_id es) \<Longrightarrow> fold (\<lambda>e. AList.update (se_id e) e) es [] = index_of es"
proof (induction es rule: rev_induct)
  case (snoc e es)
  then show ?case using update_index_of [of e es] by (simp add: image_iff)
qed (simp add: index_of_def)

lemma buildIndex_eq:
  assumes "distinct (map se_id (getEntries s))"
  shows "buildIndex s =
     s\<lparr>ss_byId := index_of (getEntries s),
       ss_leafId := (if getEntries s = [] then None else Some (se_id (last (getEntries s)))),
       ss_labelsById := fst (label_maps (getEntries s)),
       ss_labelTimestampsById := snd (label_maps (getEntries s))\<rparr>"
  using fold_update_index_of [OF assms]
  by (simp add: buildIndex_def fold_index_entry getEntries_def label_maps_def session_labels_def Let_def)

definition labels_synced :: "session \<Rightarrow> bool" where
  "labels_synced s \<longleftrightarrow> session_labels s = label_maps (getEntries s)"

lemma appends_session_labels: "appends env e s s' \<Longrightarrow> session_labels s' = session_labels s"
  by (simp add: session_labels_def appends_fields)

lemma effect_labels_synced:
  assumes "effect env s True s'" and "labels_synced s"
  shows "labels_synced s'"
  using assms(1)
proof cases
  case (moved l)
  with assms(2) show ?thesis by (simp add: labels_synced_def session_labels_def)
next
  case (written l e)
  then have "session_labels s' = session_labels s"
    using appends_session_labels [OF written(2)] by (simp add: session_labels_def)
  with written assms(2) appends_fields(2) [OF written(2)] show ?thesis
    by (simp add: labels_synced_def label_maps_snoc label_step_other)
next
  case (labelled e s1 t lb)
  then show ?thesis
    using assms(2) appends_session_labels [OF labelled(2)] appends_fields(2) [OF labelled(2)]
    by (simp add: labels_synced_def label_maps_snoc label_step_def session_labels_index_label)
qed

section \<open>The file follows the memory\<close>

text \<open>
  A written session's file is the text of its entries; before the first write there is no
  conversation to lose.
\<close>

definition persisted :: "session_env \<Rightarrow> session \<Rightarrow> bool" where
  "persisted env s \<longleftrightarrow>
     (\<forall>p. ss_persist s \<and> ss_sessionFile s = Some p \<and> p \<noteq> [] \<longrightarrow>
        (if ss_flushed s then ss_disk s p = Some (file_text env (ss_fileEntries s))
         else \<not> hasConversation s))"

lemma file_text_append [simp]: "file_text env (fes @ fes') = file_text env fes @ file_text env fes'"
  by (simp add: file_text_def)

lemma persist_persisted:
  assumes "persist env e (pushed e n s) = (Inr (), s')" and "persisted env s"
  shows "persisted env s'"
proof (cases "ss_sessionFile s")
  case None
  with assms(1) show ?thesis by (auto simp: persist_def persisted_def)
next
  case (Some p)
  have e: "sv_encode env (EntryLine e) @ [NL] = file_text env [EntryLine e]" by (simp add: file_text_def)
  have pe: "hasConversation (s\<lparr>ss_disk := d, ss_flushed := b\<rparr>) = hasConversation s" for d b s
    by (simp add: hasConversation_def)
  show ?thesis
  proof (cases "ss_persist s \<and> p \<noteq> []")
    case True
    then show ?thesis using assms Some pe e
      by (auto simp: persist_def persisted_def split: if_splits)
  next
    case False
    with assms(1) Some show ?thesis by (auto simp: persist_def persisted_def)
  qed
qed

lemma hasConversation_leaf [simp]: "hasConversation (s\<lparr>ss_leafId := l\<rparr>) = hasConversation s"
  by (simp add: hasConversation_def)

lemma hasConversation_index_label [simp]: "hasConversation (index_label t lb ts s) = hasConversation s"
  by (simp add: hasConversation_def)

lemma persisted_leaf [simp]: "persisted env (s\<lparr>ss_leafId := l\<rparr>) = persisted env s"
  by (simp add: persisted_def)

lemma persisted_index_label [simp]: "persisted env (index_label t lb ts s) = persisted env s"
  by (simp add: persisted_def)

lemma newSession_persisted:
  "newSession env now opts s = (Inr f, s') \<Longrightarrow> persisted env s' \<and> labels_synced s'"
  by (auto simp: newSession_def persisted_def hasConversation_def labels_synced_def session_labels_def
      label_maps_def getEntries_def Let_def split: option.splits sum.splits prod.splits)

section \<open>Runs of calls\<close>

definition run_calls :: "session_env \<Rightarrow> (int \<times> session_call) list \<Rightarrow> unit session_op" where
  "run_calls env calls = forp (\<lambda>(now, c). perform env now c) calls"

lemma run_calls_simps [simp]:
  "run_calls env [] s = (Inr (), s)"
  "run_calls env ((now, c) # cs) s =
     (case perform env now c s of (Inl e, s') \<Rightarrow> (Inl e, s') | (Inr _, s') \<Rightarrow> run_calls env cs s')"
  by (auto simp: run_calls_def ret_def seqp_def bindp_def split: prod.split sum.split)

lemma run_calls_steps: "run_calls env cs s = (r, s') \<Longrightarrow> (session_step env)\<^sup>*\<^sup>* s s'"
proof (induction cs arbitrary: s)
  case (Cons nc cs)
  obtain now c where nc: "nc = (now, c)" by fastforce
  obtain r1 s1 where p: "perform env now c s = (r1, s1)" by fastforce
  then have step: "session_step env s s1" by (rule session_step.call)
  show ?case
  proof (cases r1)
    case (Inl e)
    with Cons.prems nc p step show ?thesis by auto
  next
    case (Inr u)
    with Cons.prems nc p have "run_calls env cs s1 = (r, s')" by simp
    with Cons.IH step show ?thesis by (meson converse_rtranclp_into_rtranclp)
  qed
qed simp

lemma wrote_persisted: "wrote env e s s' \<Longrightarrow> persisted env s \<Longrightarrow> persisted env s'"
  by (auto simp: wrote_def intro: persist_persisted)

lemma effect_persisted:
  assumes "effect env s True s'" and "persisted env s"
  shows "persisted env s'"
  using assms(1)
proof cases
  case (written l e)
  with assms(2) wrote_persisted [of env e "s\<lparr>ss_leafId := l\<rparr>" s'] show ?thesis by simp
next
  case (labelled e s1 t lb)
  with assms(2) wrote_persisted [of env e s s1] show ?thesis by simp
qed (use assms(2) in simp)

text \<open>The path a session writes to stays the same.\<close>

definition session_place :: "session \<Rightarrow> string option \<times> bool \<times> string" where
  "session_place s = (ss_sessionFile s, ss_persist s, ss_sessionId s)"

lemma effect_place: "effect env s b s' \<Longrightarrow> session_place s' = session_place s"
  by (cases rule: effect.cases) (auto simp: session_place_def appends_fields)

lemma run_calls_ok:
  assumes "run_calls env cs s = (Inr (), s')" and "session_ok env s" and "persisted env s" and "labels_synced s"
  shows "session_ok env s' \<and> persisted env s' \<and> labels_synced s' \<and> session_place s' = session_place s"
  using assms
proof (induction cs arbitrary: s)
  case (Cons nc cs)
  obtain now c where nc: "nc = (now, c)" by fastforce
  obtain s1 where p: "perform env now c s = (Inr (), s1)" and rest: "run_calls env cs s1 = (Inr (), s')"
    using Cons.prems(1) nc by (auto split: prod.splits sum.splits)
  from perform_effect [OF Cons.prems(2) p] have eff: "effect env s True s1" by simp
  with Cons.prems effect_ok [OF eff] effect_persisted [OF eff] effect_labels_synced [OF eff]
    Cons.IH [OF rest] effect_place [OF eff] show ?case by simp
qed simp

section \<open>Reading a file back\<close>

text \<open>
  The JSON of a line: parsing what was printed gives the entry, and printed lines have no
  line end and are not blank.
\<close>

definition codec_ok :: "session_env \<Rightarrow> file_entry list \<Rightarrow> bool" where
  "codec_ok env fes \<longleftrightarrow>
     (\<forall>fe \<in> set fes. sv_decode env (sv_encode env fe) = Some fe \<and> NL \<notin> set (sv_encode env fe) \<and>
        js_trim (sv_encode env fe) \<noteq> [])"

lemma split_on_line: "c \<notin> set l \<Longrightarrow> split_on c (l @ c # rest) = l # split_on c rest"
  by (induction l) auto

lemma split_file_text:
  "codec_ok env fes \<Longrightarrow> split_on NL (file_text env fes) = map (sv_encode env) fes @ [[]]"
  by (induction fes) (simp_all add: file_text_def codec_ok_def split_on_line)

lemma parse_file_text:
  "codec_ok env fes \<Longrightarrow>
     List.map_filter (parseSessionEntryLine (sv_decode env)) (map (sv_encode env) fes) = fes"
  by (induction fes) (simp_all add: codec_ok_def parseSessionEntryLine_def List.map_filter_simps)

lemma load_file_text:
  assumes "codec_ok env (HeaderEntry h # fes)"
  shows "loadEntriesFromFile (sv_decode env) [file_text env (HeaderEntry h # fes)] [] =
     (HeaderEntry h # fes, False)"
proof -
  let ?all = "HeaderEntry h # fes"
  have blank: "parseSessionEntryLine d [] = None" for d
    by (simp add: parseSessionEntryLine_def js_trim_def js_trim_start_def js_trim_end_def)
  have "List.map_filter (parseSessionEntryLine (sv_decode env)) (map (sv_encode env) ?all @ [[]]) = ?all"
    using parse_file_text [OF assms] blank by (simp only: map_filter_append) (simp add: List.map_filter_simps)
  then show ?thesis
    using split_file_text [OF assms]
    by (simp add: loadEntriesFromFile_eq is_header_def Let_def)
qed

text \<open>Loading a file of the current version.\<close>

lemma load_current_file:
  assumes "codec_ok env (HeaderEntry h # map EntryLine es)" and "sh_version h = Some CURRENT_SESSION_VERSION"
    and "distinct (map se_id es)"
    and disk: "ss_disk t p = Some (file_text env (HeaderEntry h # map EntryLine es))"
  shows "setSessionFile env now p None t = (Inr (),
     t\<lparr>ss_sessionFile := Some p, ss_fileEntries := HeaderEntry h # map EntryLine es, ss_sessionId := sh_id h,
       ss_byId := index_of es, ss_leafId := (if es = [] then None else Some (se_id (last es))),
       ss_labelsById := fst (label_maps es), ss_labelTimestampsById := snd (label_maps es), ss_flushed := True\<rparr>)"
proof -
  let ?fes = "HeaderEntry h # map EntryLine es"
  have header: "find_header ?fes = Some h" by (simp add: find_header_def List.map_filter_simps)
  let ?t1 = "t\<lparr>ss_sessionFile := Some p, ss_fileEntries := ?fes, ss_sessionId := sh_id h\<rparr>"
  have ge: "getEntries ?t1 = es" by (simp add: getEntries_def)
  have "setSessionFile env now p None t = (Inr (), (buildIndex ?t1)\<lparr>ss_flushed := True\<rparr>)"
    using disk assms(2) header load_file_text [OF assms(1)]
    by (simp add: setSessionFile_def loadEntries_def migrateToCurrentVersion_def session_version_def)
  then show ?thesis using buildIndex_eq [of ?t1] assms(3) unfolding ge by simp
qed

lemma load_session_file:
  assumes wf: "session_wf env s" and codec: "codec_ok env (ss_fileEntries s)"
    and disk: "ss_disk t p = Some (file_text env (ss_fileEntries s))"
  shows "\<exists>t'. setSessionFile env now p None t = (Inr (), t') \<and>
     ss_fileEntries t' = ss_fileEntries s \<and> ss_sessionId t' = ss_sessionId s \<and> ss_byId t' = ss_byId s \<and>
     session_labels t' = label_maps (getEntries s) \<and>
     ss_leafId t' = (if getEntries s = [] then None else Some (se_id (last (getEntries s)))) \<and>
     ss_sessionFile t' = Some p \<and> ss_flushed t' \<and> ss_disk t' = ss_disk t"
proof -
  from wf obtain h where s: "ss_fileEntries s = HeaderEntry h # map EntryLine (getEntries s)"
    "sh_version h = Some CURRENT_SESSION_VERSION" "sh_id h = ss_sessionId s"
    "rooted (getEntries s)" "ss_byId s = index_of (getEntries s)" by (rule session_wf_getEntries)
  from load_current_file [OF codec [unfolded s(1)] s(2) rooted_distinct [OF s(4)] disk [unfolded s(1)], of now] s
  show ?thesis by (simp add: session_labels_def)
qed

end
