(* ===== verification/Session_Properties.thy ===== *)
theory Session_Properties
  imports Session_Storage
begin

text \<open>
  The properties of \<open>SessionManager\<close>: its history is append-only and survives a restart,
  and appending, compacting, labelling and returning to an entry do to the model's context
  what they are meant to.
\<close>

section \<open>A compaction keeps the replayed state\<close>

lemma replay_at_timestamp:
  "getCurrentSystemMessage [SystemMsg (m\<lparr>sm_timestamp := t\<rparr>)] =
     map_option (\<lambda>x. x\<lparr>sm_timestamp := t\<rparr>) (getCurrentSystemMessage [SystemMsg m])"
  "getCurrentTools [SystemMsg (m\<lparr>sm_timestamp := t\<rparr>)] = getCurrentTools [SystemMsg m]"
  by (simp_all add: getCurrentSystemMessage_def replay_prompt_single getCurrentTools_def replay_tools_def
      apply_tool_delta_def Let_def)

lemma checkpoint_replays:
  assumes "getCurrentSystemMessage ms = Some m" and "\<forall>x \<in> set rest. \<not> is_system x"
  shows "getCurrentSystemMessage (SystemMsg (m\<lparr>sm_timestamp := t\<rparr>) # rest) = Some (m\<lparr>sm_timestamp := t\<rparr>)"
    and "getCurrentTools (SystemMsg (m\<lparr>sm_timestamp := t\<rparr>) # rest) = getCurrentTools ms"
  using getCurrentSystemMessage_tail [OF assms(2), of "[SystemMsg (m\<lparr>sm_timestamp := t\<rparr>)]"]
    getCurrentSystemMessage_idem [OF assms(1)] getCurrentTools_collapsed [OF assms(1)]
  by (simp_all add: replay_at_timestamp)

lemma no_replay:
  assumes "\<forall>x \<in> set rest. \<not> is_system x"
  shows "getCurrentSystemMessage rest = None" and "getCurrentTools rest = []"
  using getCurrentSystemMessage_tail [OF assms, of "[]"]
  by (simp_all add: getCurrentSystemMessage_def getCurrentTools_def replay_prompt_def replay_tools_def
      jsmap_values_def)

lemma replace_content_system [simp]: "is_system (replace_content c m) = is_system m"
  by (cases m) simp_all

lemma repair_content_system [simp]: "is_system (repair_content m) = is_system m"
  by (cases m) simp_all

lemma entry_messages_not_system:
  assumes "\<not> is_system_entry (se_kind e)" and "\<not> is_compaction (se_kind e)"
    and "m \<in> set (projectContextEntry e edit)"
  shows "\<not> is_system m"
  using assms
  by (cases "se_kind e")
     (auto simp: projectContextEntry_def sessionEntryToContextMessages_def Let_def
        split: option.splits if_splits)

lemma kept_tail_not_system: "e \<in> set (kept_tail d pre) \<Longrightarrow> \<not> is_system_entry (se_kind e)"
  by (simp add: kept_tail_def)

lemma set_kept_tail: "set (kept_tail d pre) \<subseteq> set pre"
  by (auto simp: kept_tail_def dest: set_dropWhileD)

lemma appended_compaction_context:
  assumes "appends env e s s'" and "session_wf env s" and "session_wf env s'" and "se_kind e = Compaction d"
  shows "\<exists>rest. (\<forall>m \<in> set rest. \<not> is_system m) \<and>
     projected_messages (compacted_path (leaf_path s')) =
       (case co_systemMessage d of Some m \<Rightarrow> [SystemMsg m] | None \<Rightarrow> []) @
       CompactionSummaryMsg (createCompactionSummaryMessage (co_summary d) (co_tokensBefore d) (se_timestamp e))
         # rest \<and>
     rest = concat (map (\<lambda>x. projectContextEntry x (map_of (context_edits (kept_tail d (leaf_path s))) (se_id x)))
              (filter (\<lambda>x. \<not> is_compaction (se_kind x)) (kept_tail d (leaf_path s))))"
proof -
  note lp = appends_leaf_path [OF assms(1,2)]
  let ?kept = "kept_tail d (leaf_path s)"
  have fresh: "se_id e \<notin> ids_of (getEntries s)" using assms(1) by (rule appendsE)
  have "compacted_path (leaf_path s @ e # []) = e # ?kept @ []"
    using lp(2) assms(4) by (intro compacted_path_split) simp_all
  then have cp: "compacted_path (leaf_path s') = e # ?kept" using lp(1) by simp
  have edits: "context_edits (e # ?kept) = context_edits ?kept"
    using assms(4) by (simp add: context_edits_def)
  have none: "map_of (context_edits ?kept) (se_id e) = None"
    using no_edit_of_fresh [OF assms(2) fresh] set_kept_tail [of d "leaf_path s"] lp(3) by blast
  have "\<not> is_system m" if "x \<in> set ?kept" "\<not> is_compaction (se_kind x)" "m \<in> set (projectContextEntry x ed)"
    for x m ed using that entry_messages_not_system kept_tail_not_system by blast
  then show ?thesis
    using assms(4) none
    by (simp add: cp projected_messages_Cons edits projectContextEntry_def [of e]
        sessionEntryToContextMessages_def [of e] split: option.split) blast
qed

section \<open>Properties of sessions\<close>

text \<open>
  C3: A session is an append-only tree. Whatever calls follow a new session, refused and
  failing ones included, the file keeps every entry written so far as its beginning, ids
  stay distinct, parents precede their children, the index lists the file, and the branch
  of an entry, which always ends, never changes again.
\<close>

theorem session_is_append_only:
  assumes "uuid_ok (sv_uuid env)" and "newSession env now opts s0 = (Inr f, s)"
    and "(session_step env)\<^sup>*\<^sup>* s t" and "(session_step env)\<^sup>*\<^sup>* t u"
  shows "prefix (ss_fileEntries t) (ss_fileEntries u) \<and> rooted (getEntries u) \<and>
     ss_byId u = map (\<lambda>e. (se_id e, e)) (getEntries u) \<and> leaf_in (ss_leafId u) (getEntries u) \<and>
     (\<forall>i. i \<in> ids_of (getEntries t) \<longrightarrow>
        (\<exists>path. getBranch (Some i) t = Some path \<and> getBranch (Some i) u = Some path \<and>
           linear_from None path \<and> se_id (last path) = i))"
proof -
  have s: "session_ok env s" using newSession_ok [OF assms(1,2)] by simp
  then have t: "session_ok env t" using session_log.run_ok [OF assms(3)] by simp
  then have u: "session_ok env u" using session_log.run_ok [OF assms(4)] by simp
  have wt: "session_wf env t" and wu: "session_wf env u" using t u by (simp_all add: session_ok_def)
  have branches: "\<exists>path. getBranch (Some i) t = Some path \<and> getBranch (Some i) u = Some path \<and>
      linear_from None path \<and> se_id (last path) = i" if "i \<in> ids_of (getEntries t)" for i
    using getBranch_eq [OF wt, of "Some i"] getBranch_eq [OF wu, of "Some i"]
      session_log.path_final [OF assms(4) t that] path_to_linear [OF session_ok_rooted [OF t]]
      path_to_last [OF session_ok_rooted [OF t] that] by simp
  moreover have "prefix (ss_fileEntries t) (ss_fileEntries u)" using run_fileEntries [OF assms(4) t] .
  moreover have "ss_byId u = map (\<lambda>e. (se_id e, e)) (getEntries u)"
    using wu by (rule session_wf_getEntries) (simp add: index_of_def)
  ultimately show ?thesis using session_ok_rooted [OF u] session_wf_leaf_in [OF wu] by blast
qed

text \<open>
  Appending a message adds exactly that message to the end of the model's context and
  nothing else; an assistant message also becomes the session's model.
\<close>

theorem appendMessage_extends_context:
  assumes "session_ok env s" and "appendMessage env now m s = (Inr e, s')"
  shows "\<exists>sx sx'. sessionContext s = Some sx \<and> sessionContext s' = Some sx' \<and>
     sx_messages sx' = sx_messages sx @ [repair_content m] \<and>
     sx_thinkingLevel sx' = sx_thinkingLevel sx \<and>
     sx_model sx' = (case m of AssistantMsg a \<Rightarrow> Some \<lparr>mr_provider = am_provider a, mr_modelId = am_model a\<rparr>
                     | _ \<Rightarrow> sx_model sx) \<and>
     getEntries s' = getEntries s @ [e] \<and> se_kind e = MessageEntry m \<and> se_parentId e = ss_leafId s"
proof -
  have ok: "uuid_ok (sv_uuid env)" "session_wf env s" using assms(1) by (simp_all add: session_ok_def)
  from assms(2) have k: "appendKind env now (MessageEntry m) s = (Inr e, s')" by (simp add: appendMessage_def)
  obtain e' where e: "appends env e' s s'" "se_kind e' = MessageEntry m" "se_timestamp e' = now"
    "Inr e = (Inr e' :: session_entry exc) \<and> wrote env e' s s' \<or> (\<exists>err. (Inr e :: session_entry exc) = Inl err)"
    by (rule appendKind_appends [OF ok k])
  then have ee: "e' = e" by simp
  have wf': "session_wf env s'" using appends_wf [OF e(1) ok(2)] e(2) by (simp add: edit_ok_def)
  have "\<not> is_compaction (se_kind e')" "\<not> is_edit (se_kind e')" using e(2) by (simp_all add: is_edit_def)
  from appends_context [OF e(1) ok(2) wf' this] obtain sx sx' where
    "sessionContext s = Some sx" "sessionContext s' = Some sx'"
    "sx_messages sx' = sx_messages sx @ sessionEntryToContextMessages e'"
    "(sx_thinkingLevel sx', sx_model sx') = settings_step e' (sx_thinkingLevel sx, sx_model sx)" by blast
  with e(2) ee appends_fields(2) [OF e(1)] e(1) show ?thesis
    by (auto simp: sessionEntryToContextMessages_def elim: appendsE split: agent_message.splits)
qed

text \<open>
  C21: Compacting keeps the replayed state: after it the model sees one checkpoint with the
  prompt, sections and tools the context replayed to before, stamped with the time of the
  call, then the summary, and no other system message.
\<close>

theorem appendCompaction_keeps_state:
  assumes "session_ok env s" and "appendCompaction env now summary firstKept tokens details fromHook u s = (Inr e, s')"
  shows "\<exists>sx sx'. sessionContext s = Some sx \<and> sessionContext s' = Some sx' \<and>
     getCurrentTools (sx_messages sx') = getCurrentTools (sx_messages sx) \<and>
     getCurrentSystemMessage (sx_messages sx') =
       map_option (\<lambda>m. m\<lparr>sm_timestamp := now\<rparr>) (getCurrentSystemMessage (sx_messages sx)) \<and>
     length (filter is_system (sx_messages sx')) \<le> 1 \<and>
     sx_thinkingLevel sx' = sx_thinkingLevel sx \<and> sx_model sx' = sx_model sx"
proof -
  have ok: "uuid_ok (sv_uuid env)" "session_wf env s" using assms(1) by (simp_all add: session_ok_def)
  let ?ms = "projected_messages (compacted_path (leaf_path s))"
  obtain e' d where e: "appends env e' s s'" "se_kind e' = Compaction d" "co_summary d = summary"
    "co_firstKeptEntryId d = Some (case firstKept of None \<Rightarrow> se_id e' | Some k \<Rightarrow> k)"
    "co_systemMessage d = map_option (\<lambda>m. m\<lparr>sm_timestamp := now\<rparr>) (getCurrentSystemMessage
       (sp_messages (project_path (leaf_path s) (compacted_path (leaf_path s)))))"
    "Inr e = (Inr e' :: session_entry exc) \<and> wrote env e' s s' \<or> (\<exists>err. (Inr e :: session_entry exc) = Inl err)"
    by (rule appendCompaction_appends [OF ok assms(2) sessionProjection_eq [OF ok(2)]])
  have wf': "session_wf env s'" using appends_wf [OF e(1) ok(2)] e(2) by (simp add: edit_ok_def)
  obtain rest where rest: "\<forall>m \<in> set rest. \<not> is_system m"
    "projected_messages (compacted_path (leaf_path s')) =
       (case co_systemMessage d of Some m \<Rightarrow> [SystemMsg m] | None \<Rightarrow> []) @
       CompactionSummaryMsg (createCompactionSummaryMessage (co_summary d) (co_tokensBefore d) (se_timestamp e'))
         # rest"
    using appended_compaction_context [OF e(1) ok(2) wf' e(2)] by blast
  let ?sum = "CompactionSummaryMsg (createCompactionSummaryMessage (co_summary d) (co_tokensBefore d) (se_timestamp e'))"
  let ?ms' = "projected_messages (compacted_path (leaf_path s'))"
  have tail: "\<forall>m \<in> set (?sum # rest). \<not> is_system m" using rest(1) by simp
  have state: "getCurrentTools ?ms' = getCurrentTools ?ms \<and>
     getCurrentSystemMessage ?ms' = map_option (\<lambda>m. m\<lparr>sm_timestamp := now\<rparr>) (getCurrentSystemMessage ?ms)"
  proof (cases "getCurrentSystemMessage ?ms")
    case None
    with e(5) rest(2) no_replay [OF tail] getCurrentTools_None [OF None] show ?thesis by simp
  next
    case (Some m)
    with e(5) rest(2) checkpoint_replays [OF Some tail, of now] show ?thesis by simp
  qed
  have one: "length (filter is_system ?ms') \<le> 1" using rest tail by (simp add: filter_False split: option.split)
  have settings: "getSessionContextSettings (leaf_path s') = getSessionContextSettings (leaf_path s)"
    using appends_leaf_path(1) [OF e(1) ok(2)] e(2)
    by (cases "getSessionContextSettings (leaf_path s)") (simp add: getSessionContextSettings_def)
  show ?thesis
    using state one settings by (simp add: sessionContext_eq [OF ok(2)] sessionContext_eq [OF wf'])
qed

text \<open>A session that writes to an empty disk, with a line codec for what it writes.\<close>

definition demo_message :: agent_message where
  "demo_message = UserMsg \<lparr>um_content = TextOnly ''hi'', um_timestamp = 6\<rparr>"

definition demo_first :: session_entry where
  "demo_first = \<lparr>se_id = ''x-------'', se_parentId = None, se_timestamp = 6, se_kind = MessageEntry demo_message\<rparr>"

definition demo_new_header :: session_header where
  "demo_new_header =
     \<lparr>sh_version = Some 3, sh_id = ''s'', sh_timestamp = 5, sh_cwd = Some ''c'', sh_parentSession = None\<rparr>"

fun demo_encode :: "file_entry \<Rightarrow> string" where
  "demo_encode (HeaderEntry h) = ''h''"
| "demo_encode (EntryLine e) = ''e'' @ se_id e"

definition demo_session_env :: session_env where
  "demo_session_env =
     \<lparr>sv_encode = demo_encode,
      sv_decode = (\<lambda>l. if l = ''h'' then Some (HeaderEntry demo_new_header)
                       else if l = ''e'' @ se_id demo_first then Some (EntryLine demo_first) else None),
      sv_uuid = demo_uuid, sv_sessionId = (\<lambda>n. ''s''), sv_fileTimestamp = (\<lambda>t. ''t''),
      sv_joinPath = (\<lambda>dir file. dir @ ''/'' @ file)\<rparr>"

definition demo_blank :: session where
  "demo_blank =
     \<lparr>ss_sessionId = [], ss_sessionFile = None, ss_sessionDir = ''d'', ss_cwd = ''c'', ss_persist = True,
      ss_flushed = False, ss_fileEntries = [], ss_byId = [], ss_labelsById = [],
      ss_labelTimestampsById = [], ss_leafId = None, ss_disk = (\<lambda>_. None), ss_drawn = 0\<rparr>"

definition demo_started :: session where
  "demo_started = snd (newSession demo_session_env 5 NO_OPTIONS demo_blank)"

definition demo_talked :: session where
  "demo_talked = snd (run_calls demo_session_env [(6, CallMessage demo_message)] demo_started)"

definition demo_labelled :: session where
  "demo_labelled = snd (run_calls demo_session_env
     [(7, CallLabel ''x-------'' (Some ''here'')), (8, CallBranch ''x-------'')] demo_talked)"

lemma demo_env_ok [simp]: "uuid_ok (sv_uuid demo_session_env)"
  by (simp add: demo_session_env_def)

lemma demo_runs:
  "newSession demo_session_env 5 NO_OPTIONS demo_blank = (Inr (Some ''d/t_s.jsonl''), demo_started)"
  "run_calls demo_session_env [(6, CallMessage demo_message)] demo_started = (Inr (), demo_talked)"
  "run_calls demo_session_env
     [(7, CallLabel ''x-------'' (Some ''here'')), (8, CallBranch ''x-------'')] demo_talked = (Inr (), demo_labelled)"
proof -
  have 1: "fst (newSession demo_session_env 5 NO_OPTIONS demo_blank) = Inr (Some ''d/t_s.jsonl'')" by code_simp
  have 2: "fst (run_calls demo_session_env [(6, CallMessage demo_message)] demo_started) = Inr ()" by code_simp
  have 3: "fst (run_calls demo_session_env
     [(7, CallLabel ''x-------'' (Some ''here'')), (8, CallBranch ''x-------'')] demo_talked) = Inr ()" by code_simp
  show "newSession demo_session_env 5 NO_OPTIONS demo_blank = (Inr (Some ''d/t_s.jsonl''), demo_started)"
    using 1 by (simp add: demo_started_def prod_eq_iff)
  show "run_calls demo_session_env [(6, CallMessage demo_message)] demo_started = (Inr (), demo_talked)"
    using 2 by (simp add: demo_talked_def prod_eq_iff)
  show "run_calls demo_session_env
     [(7, CallLabel ''x-------'' (Some ''here'')), (8, CallBranch ''x-------'')] demo_talked = (Inr (), demo_labelled)"
    using 3 by (simp add: demo_labelled_def prod_eq_iff)
qed

lemma demo_ok: "session_ok demo_session_env demo_started" "session_ok demo_session_env demo_talked"
proof -
  show s: "session_ok demo_session_env demo_started"
    using newSession_ok [OF demo_env_ok demo_runs(1)] by simp
  show "session_ok demo_session_env demo_talked"
    using session_log.run_ok [OF run_calls_steps [OF demo_runs(2)] s] by simp
qed

theorem session_is_append_only_witness:
  "prefix (ss_fileEntries demo_talked) (ss_fileEntries demo_labelled) \<and>
   (\<exists>path. getBranch (Some ''x-------'') demo_labelled = Some path \<and> se_id (last path) = ''x-------'')"
proof -
  have "''x-------'' \<in> ids_of (getEntries demo_talked)" by code_simp
  with session_is_append_only [OF demo_env_ok demo_runs(1) run_calls_steps [OF demo_runs(2)]
      run_calls_steps [OF demo_runs(3)]]
  show ?thesis by blast
qed

theorem appendMessage_extends_context_witness:
  "\<exists>sx. sessionContext (snd (appendMessage demo_session_env 9 demo_message demo_talked)) = Some sx \<and>
     sx_messages sx = [demo_message, demo_message]"
proof -
  obtain e where "fst (appendMessage demo_session_env 9 demo_message demo_talked) = Inr e"
  proof -
    have "(case fst (appendMessage demo_session_env 9 demo_message demo_talked) of Inl _ \<Rightarrow> False | Inr _ \<Rightarrow> True)"
      by code_simp
    then show thesis using that by (auto split: sum.splits)
  qed
  then have r: "appendMessage demo_session_env 9 demo_message demo_talked =
      (Inr e, snd (appendMessage demo_session_env 9 demo_message demo_talked))" by (simp add: prod_eq_iff)
  obtain sx where sx: "sessionContext demo_talked = Some sx"
    "\<exists>sx'. sessionContext (snd (appendMessage demo_session_env 9 demo_message demo_talked)) = Some sx' \<and>
       sx_messages sx' = sx_messages sx @ [repair_content demo_message]"
    using appendMessage_extends_context [OF demo_ok(2) r] by blast
  have "map_option sx_messages (sessionContext demo_talked) = Some [demo_message]" by code_simp
  with sx show ?thesis by (auto simp: demo_message_def)
qed

theorem appendCompaction_keeps_state_witness:
  "\<exists>sx. sessionContext (snd (appendCompaction demo_session_env 9 ''sum'' None 1 None None None demo_talked)) = Some sx \<and>
     getCurrentTools (sx_messages sx) = []"
proof -
  let ?r = "appendCompaction demo_session_env 9 ''sum'' None 1 None None None demo_talked"
  have "(case fst ?r of Inl _ \<Rightarrow> False | Inr _ \<Rightarrow> True)" by code_simp
  then obtain e where "fst ?r = Inr e" by (auto split: sum.splits)
  then have r: "?r = (Inr e, snd ?r)" by (simp add: prod_eq_iff)
  obtain sx sx' where sx: "sessionContext demo_talked = Some sx" "sessionContext (snd ?r) = Some sx'"
    "getCurrentTools (sx_messages sx') = getCurrentTools (sx_messages sx)"
    using appendCompaction_keeps_state [OF demo_ok(2) r] by blast
  have "map_option sx_messages (sessionContext demo_talked) = Some [demo_message]" by code_simp
  with sx(1) have "getCurrentTools (sx_messages sx) = []"
    by (auto simp: demo_message_def getCurrentTools_def replay_tools_def jsmap_values_def)
  with sx show ?thesis by auto
qed

text \<open>
  C9: A session survives a restart: after any calls on a new session that all returned,
  once it holds a user or assistant message, another manager that opens its file reads
  back the same entries, ids, index, labels and label times, and leaves the disk as it is;
  its leaf is the last entry of the file.
\<close>

theorem session_survives_restart:
  assumes "uuid_ok (sv_uuid env)" and "newSession env now opts s0 = (Inr (Some p), s)" and "ss_persist s0"
    and "p \<noteq> []" and "run_calls env calls s = (Inr (), t)" and "hasConversation t"
    and "codec_ok env (ss_fileEntries t)" and "ss_disk u = ss_disk t"
  shows "\<exists>u'. setSessionFile env now' p None u = (Inr (), u') \<and>
     ss_fileEntries u' = ss_fileEntries t \<and> ss_sessionId u' = ss_sessionId t \<and> ss_byId u' = ss_byId t \<and>
     ss_labelsById u' = ss_labelsById t \<and> ss_labelTimestampsById u' = ss_labelTimestampsById t \<and>
     ss_leafId u' = Some (se_id (last (getEntries t))) \<and> ss_disk u' = ss_disk t"
proof -
  have s: "session_ok env s" "persisted env s" "labels_synced s"
    using newSession_ok [OF assms(1,2)] newSession_persisted [OF assms(2)] by simp_all
  from assms(2,3) have place: "ss_sessionFile s = Some p" "ss_persist s"
    by (auto simp: newSession_def Let_def split: option.splits sum.splits prod.splits)
  from run_calls_ok [OF assms(5) s] have t: "session_wf env t" "persisted env t" "labels_synced t"
    "ss_sessionFile t = Some p" "ss_persist t"
    using place by (simp_all add: session_ok_def session_place_def)
  from t(2,4,5) assms(4,6) have "ss_disk t p = Some (file_text env (ss_fileEntries t))"
    by (auto simp: persisted_def split: if_splits)
  with assms(8) have "ss_disk u p = Some (file_text env (ss_fileEntries t))" by simp
  from load_session_file [OF t(1) assms(7) this, of now'] obtain u' where
    u': "setSessionFile env now' p None u = (Inr (), u')" "ss_fileEntries u' = ss_fileEntries t"
      "ss_sessionId u' = ss_sessionId t" "ss_byId u' = ss_byId t"
      "session_labels u' = label_maps (getEntries t)"
      "ss_leafId u' = (if getEntries t = [] then None else Some (se_id (last (getEntries t))))"
      "ss_disk u' = ss_disk u" by blast
  moreover have "session_labels u' = session_labels t" using u'(5) t(3) by (simp add: labels_synced_def)
  moreover have "getEntries t \<noteq> []" using assms(6) by (auto simp: hasConversation_def getEntries_def)
  ultimately show ?thesis using assms(8) by (simp add: session_labels_def)
qed

theorem session_survives_restart_witness:
  "\<exists>u'. setSessionFile demo_session_env 9 ''d/t_s.jsonl'' None (demo_blank\<lparr>ss_disk := ss_disk demo_talked\<rparr>) = (Inr (), u') \<and>
     ss_fileEntries u' = [HeaderEntry demo_new_header, EntryLine demo_first]"
proof -
  have fes: "ss_fileEntries demo_talked = [HeaderEntry demo_new_header, EntryLine demo_first]" by code_simp
  have codec: "codec_ok demo_session_env (ss_fileEntries demo_talked)" unfolding fes
    by (simp add: codec_ok_def demo_session_env_def demo_first_def js_trim_def js_trim_start_def
        js_trim_end_def is_js_space_def)
  have conv: "hasConversation demo_talked" by code_simp
  have p: "ss_persist demo_blank" by (simp add: demo_blank_def)
  have "\<exists>u'. setSessionFile demo_session_env 9 ''d/t_s.jsonl'' None (demo_blank\<lparr>ss_disk := ss_disk demo_talked\<rparr>) = (Inr (), u') \<and>
     ss_fileEntries u' = ss_fileEntries demo_talked"
    using session_survives_restart [OF demo_env_ok demo_runs(1) p _ demo_runs(2) conv codec,
        of "demo_blank\<lparr>ss_disk := ss_disk demo_talked\<rparr>" 9] by auto
  with fes show ?thesis by simp
qed

text \<open>
  Labelling: an unknown entry is refused and nothing changes; otherwise a label entry
  is written, the label of the target is the new one, none when it is empty or missing,
  and every other entry keeps its label.
\<close>

theorem label_change_spec:
  assumes "session_ok env s" and "appendLabelChange env now target label s = (r, s')"
  shows "if target \<notin> ids_of (getEntries s) then r = Inl (''Entry '' @ target @ '' not found'') \<and> s' = s
     else (\<exists>e. getEntries s' = getEntries s @ [e] \<and> se_kind e = LabelEntry target label \<and>
        (r = Inr e \<and>
           (\<forall>i. getLabel i s' = (if i = target then if label = Some [] then None else label else getLabel i s)) \<or>
         (\<exists>err. r = Inl err)))"
  using assms
proof (cases rule: appendLabelChange_cases)
  case (failed e err)
  with appends_fields(2) [OF failed(1)] show ?thesis by auto
next
  case (labelled e s1)
  have "getLabel i s' = (if i = target then (if label = Some [] then None else label) else getLabel i s)" for i
    using labelled(6) appends_fields(5) [OF labelled(1)]
    by (auto simp: getLabel_def index_label_def jm.lookup_put jm.lookup_del split: option.split)
  with labelled appends_fields(2) [OF labelled(1)] show ?thesis by auto
qed auto

theorem label_change_spec_witness:
  "\<exists>e s'. appendLabelChange demo_session_env 9 ''x-------'' (Some ''l'') demo_talked = (Inr e, s') \<and>
     getLabel ''x-------'' s' = Some ''l''"
proof -
  let ?r = "appendLabelChange demo_session_env 9 ''x-------'' (Some ''l'') demo_talked"
  have "(case fst ?r of Inl _ \<Rightarrow> False | Inr _ \<Rightarrow> True)" by code_simp
  then obtain e where "fst ?r = Inr e" by (auto split: sum.splits)
  then have r: "?r = (Inr e, snd ?r)" by (simp add: prod_eq_iff)
  have known: "''x-------'' \<in> ids_of (getEntries demo_talked)" by code_simp
  from label_change_spec [OF demo_ok(2) r] known have
    "getLabel ''x-------'' (snd ?r) = Some ''l''" by auto
  with r show ?thesis by auto
qed

text \<open>
  Returning to an earlier entry with a summary: the new leaf is a child of that entry,
  the branch is the entry's path and the summary, the model sees the context of that entry
  followed by the summary of what was left, which names the abandoned leaf, and the
  abandoned branch is still there unchanged.
\<close>

theorem branchWithSummary_returns:
  assumes "session_ok env s" and "branchWithSummary env now (Some target) summary details fromHook u s = (Inr e, s')"
    and "summary \<noteq> []"
  shows "\<exists>path sx sx'. getBranch (Some target) s = Some path \<and> getBranch None s' = Some (path @ [e]) \<and>
     sessionContext (s\<lparr>ss_leafId := Some target\<rparr>) = Some sx \<and> sessionContext s' = Some sx' \<and>
     sx_messages sx' = sx_messages sx @
       [BranchSummaryMsg \<lparr>bs_summary = summary,
          bs_fromId = Some (case ss_leafId s of None \<Rightarrow> ''root'' | Some l \<Rightarrow> l), bs_timestamp = now\<rparr>] \<and>
     (\<forall>i. i \<in> ids_of (getEntries s) \<longrightarrow> getBranch (Some i) s' = getBranch (Some i) s)"
proof -
  have ok: "uuid_ok (sv_uuid env)" "session_wf env s" using assms(1) by (simp_all add: session_ok_def)
  let ?b = "\<lparr>br_fromId = (case ss_leafId s of None \<Rightarrow> ''root'' | Some l \<Rightarrow> l), br_summary = summary,
              br_details = details, br_usage = u, br_fromHook = fromHook\<rparr>"
  let ?s1 = "s\<lparr>ss_leafId := Some target\<rparr>"
  from assms(2) have known: "map_of (ss_byId s) target \<noteq> None"
    and k: "appendKind env now (BranchSummary ?b) ?s1 = (Inr e, s')"
    by (auto simp: branchWithSummary_def split: if_splits)
  have t: "target \<in> ids_of (getEntries s)" using known byId_ids [OF ok(2)] by blast
  then have wf1: "session_wf env ?s1" using session_wf_leaf [OF ok(2), of "Some target"] by simp
  obtain e' where e: "appends env e' ?s1 s'" "se_kind e' = BranchSummary ?b" "se_timestamp e' = now"
    "Inr e = (Inr e' :: session_entry exc) \<and> wrote env e' ?s1 s' \<or> (\<exists>err. (Inr e :: session_entry exc) = Inl err)"
    by (rule appendKind_appends [OF ok(1) wf1 k])
  then have ee: "e' = e" by simp
  have wf': "session_wf env s'" using appends_wf [OF e(1) wf1] e(2) by (simp add: edit_ok_def)
  have "\<not> is_compaction (se_kind e')" "\<not> is_edit (se_kind e')" using e(2) by (simp_all add: is_edit_def)
  from appends_context [OF e(1) wf1 wf' this] obtain sx sx' where
    sx: "sessionContext ?s1 = Some sx" "sessionContext s' = Some sx'"
    "sx_messages sx' = sx_messages sx @ sessionEntryToContextMessages e'" by blast
  have path: "getBranch (Some target) s = Some (leaf_path ?s1)"
    using getBranch_eq [OF ok(2), of "Some target"] by (simp add: leaf_path_def)
  have new: "getBranch None s' = Some (leaf_path ?s1 @ [e])"
    using getBranch_eq [OF wf', of None] appends_leaf_path(1) [OF e(1) wf1] ee by (simp add: leaf_path_def)
  have "rooted (getEntries s @ [e'])"
    using wf' appends_fields(2) [OF e(1)] by (auto elim: session_wf_getEntries)
  then have "getBranch (Some i) s' = getBranch (Some i) s" if "i \<in> ids_of (getEntries s)" for i
    using getBranch_eq [OF wf', of "Some i"] getBranch_eq [OF ok(2), of "Some i"]
      appends_fields(2) [OF e(1)] path_to_append [of "getEntries s" "[e']" "Some i"] that by simp
  with sx path new e(2,3) assms(3) show ?thesis
    by (simp add: sessionEntryToContextMessages_def createBranchSummaryMessage_def)
qed

theorem branchWithSummary_returns_witness:
  "\<exists>sx. sessionContext (snd (branchWithSummary demo_session_env 9 (Some ''x-------'') ''left'' None None None demo_labelled)) = Some sx \<and>
     BranchSummaryMsg \<lparr>bs_summary = ''left'', bs_fromId = Some ''x-------'', bs_timestamp = 9\<rparr> \<in> set (sx_messages sx)"
proof -
  let ?r = "branchWithSummary demo_session_env 9 (Some ''x-------'') ''left'' None None None demo_labelled"
  have "(case fst ?r of Inl _ \<Rightarrow> False | Inr _ \<Rightarrow> True)" by code_simp
  then obtain e where "fst ?r = Inr e" by (auto split: sum.splits)
  then have r: "?r = (Inr e, snd ?r)" by (simp add: prod_eq_iff)
  have ok: "session_ok demo_session_env demo_labelled"
    using session_log.run_ok [OF run_calls_steps [OF demo_runs(3)] demo_ok(2)] by simp
  have leaf: "ss_leafId demo_labelled = Some ''x-------''" by code_simp
  have ne: "''left'' \<noteq> ([] :: string)" by simp
  from branchWithSummary_returns [OF ok r ne] leaf show ?thesis by auto
qed

end
