(* ===== verification/Compaction.thy ===== *)
theory Compaction
  imports Summary_Utils Compaction_Prompts Session_Properties
begin

text \<open>
  Context compaction (\<open>packages/coding-agent/src/core/compaction/compaction.ts\<close>): the token
  estimate, the cut point that never separates a tool result from its call, the preparation
  that splits the context into what is summarized and what is kept, and the summary itself.
  The model call of a summary is a parameter: a program from the prompt and the token limit
  to a response. An index that the code writes as -1 is \<open>None\<close>. Content is present: session
  contexts have missing content repaired.
\<close>

section \<open>Token estimates\<close>

definition calculateContextTokens :: "usage \<Rightarrow> nat" where
  "calculateContextTokens u =
     (if us_totalTokens u \<noteq> 0 then us_totalTokens u
      else us_input u + us_output u + us_cacheRead u + us_cacheWrite u)"

fun getAssistantUsage :: "agent_message \<Rightarrow> usage option" where
  "getAssistantUsage (AssistantMsg m) =
     (if am_stopReason m = StopAborted \<or> am_stopReason m = StopError then None
      else case am_usage m of
             None \<Rightarrow> None
           | Some u \<Rightarrow> if calculateContextTokens u > 0 then Some u else None)"
| "getAssistantUsage _ = None"

text \<open>The last of the messages with a usage, and its index.\<close>

definition getLastAssistantUsageInfo :: "agent_message list \<Rightarrow> (usage \<times> nat) option" where
  "getLastAssistantUsageInfo messages =
     (case List.find (\<lambda>(i, m). getAssistantUsage m \<noteq> None) (rev (List.enumerate 0 messages)) of
        None \<Rightarrow> None
      | Some (i, m) \<Rightarrow> map_option (\<lambda>u. (u, i)) (getAssistantUsage m))"

definition getLastAssistantUsage :: "session_entry list \<Rightarrow> usage option" where
  "getLastAssistantUsage entries =
     (case List.map_filter (\<lambda>e. case se_kind e of MessageEntry m \<Rightarrow> getAssistantUsage m | _ \<Rightarrow> None) (rev entries) of
        [] \<Rightarrow> None | u # _ \<Rightarrow> Some u)"

definition ESTIMATED_IMAGE_CHARS :: nat where
  "ESTIMATED_IMAGE_CHARS = 4800"

fun block_chars :: "block \<Rightarrow> nat" where
  "block_chars (TextContent t _) = length t"
| "block_chars (ImageContent _ _) = ESTIMATED_IMAGE_CHARS"
| "block_chars _ = 0"

fun estimateTextAndImageContentChars :: "content \<Rightarrow> nat" where
  "estimateTextAndImageContentChars (TextOnly s) = length s"
| "estimateTextAndImageContentChars (Blocks bs) = sum_list (map block_chars bs)"
| "estimateTextAndImageContentChars NoContent = 0"

fun assistant_block_chars :: "block \<Rightarrow> nat" where
  "assistant_block_chars (TextContent t _) = length t"
| "assistant_block_chars (ThinkingContent t _ _) = length t"
| "assistant_block_chars (ToolCall c) = length (tc_name c) + json_length (tc_arguments c)"
| "assistant_block_chars (ImageContent _ _) = 0"

definition ceil_quarter :: "nat \<Rightarrow> nat" where
  "ceil_quarter chars = (chars + 3) div 4"

fun message_chars :: "agent_message \<Rightarrow> nat" where
  "message_chars (SystemMsg m) =
     estimateTextAndImageContentChars (sm_content m)
     + sum_list (map (\<lambda>(k, v). case v of None \<Rightarrow> 0 | Some t \<Rightarrow> length t) (opt_list (sm_sections m)))
     + (case sm_toolsAdded m of None \<Rightarrow> 0 | Some ts \<Rightarrow> json_length (JArr (map tool_json ts)))"
| "message_chars (UserMsg m) = estimateTextAndImageContentChars (um_content m)"
| "message_chars (AssistantMsg m) = sum_list (map assistant_block_chars (content_blocks (am_content m)))"
| "message_chars (CustomMsg m) = estimateTextAndImageContentChars (cm_content m)"
| "message_chars (ToolResultMsg m) = estimateTextAndImageContentChars (tr_content m)"
| "message_chars (BashMsg m) = length (bx_command m) + length (bx_output m)"
| "message_chars (BranchSummaryMsg m) = length (bs_summary m)"
| "message_chars (CompactionSummaryMsg m) = length (cs_summary m)"
| "message_chars (HookMsg _) = 0"

definition estimateTokens :: "agent_message \<Rightarrow> nat" where
  "estimateTokens message = ceil_quarter (message_chars message)"

definition total_tokens :: "agent_message list \<Rightarrow> nat" where
  "total_tokens messages = sum_list (map estimateTokens messages)"

record context_usage_estimate =
  ce_tokens :: nat
  ce_usageTokens :: nat
  ce_trailingTokens :: nat
  ce_lastUsageIndex :: "nat option"

definition estimateContextTokens :: "agent_message list \<Rightarrow> context_usage_estimate" where
  "estimateContextTokens messages =
     (case getLastAssistantUsageInfo messages of
        None \<Rightarrow>
          \<lparr>ce_tokens = total_tokens messages, ce_usageTokens = 0,
           ce_trailingTokens = total_tokens messages, ce_lastUsageIndex = None\<rparr>
      | Some (u, i) \<Rightarrow>
          let usageTokens = calculateContextTokens u;
              trailingTokens = total_tokens (drop (Suc i) messages)
          in \<lparr>ce_tokens = usageTokens + trailingTokens, ce_usageTokens = usageTokens,
              ce_trailingTokens = trailingTokens, ce_lastUsageIndex = Some i\<rparr>)"

text \<open>The entry whose messages hold the message of an index.\<close>

fun entry_of_message :: "projected_entry list \<Rightarrow> nat \<Rightarrow> nat \<Rightarrow> string option" where
  "entry_of_message [] start i = None"
| "entry_of_message (e # es) start i =
     (let next = start + length (pe_messages e)
      in if i < next then Some (se_id (pe_sourceEntry e)) else entry_of_message es next i)"

fun is_context_edit :: "entry_kind \<Rightarrow> bool" where
  "is_context_edit (ContextEdit _ _) = True"
| "is_context_edit _ = False"

definition find_last_index :: "('a \<Rightarrow> bool) \<Rightarrow> 'a list \<Rightarrow> nat option" where
  "find_last_index P xs = List.find (\<lambda>i. P (xs ! i)) (rev [0..<length xs])"

text \<open>\<open>usageEntryIndex > latestInvalidatingEntryIndex\<close>, with -1 for a missing index.\<close>

definition index_greater :: "nat option \<Rightarrow> nat option \<Rightarrow> bool" where
  "index_greater a b =
     (case (a, b) of (None, _) \<Rightarrow> False | (Some _, None) \<Rightarrow> True | (Some i, Some j) \<Rightarrow> i > j)"

definition estimateProjectedContextTokens ::
  "session_projection \<Rightarrow> session_entry list \<Rightarrow> context_usage_estimate" where
  "estimateProjectedContextTokens projection branchEntries =
     (let estimate = estimateContextTokens (sp_messages projection);
          usageEntryIndex =
            (case ce_lastUsageIndex estimate of
               None \<Rightarrow> None
             | Some i \<Rightarrow>
                 (case entry_of_message (sp_entries projection) 0 i of
                    None \<Rightarrow> None
                  | Some x \<Rightarrow> if x = [] then None else find_index (\<lambda>e. se_id e = x) branchEntries));
          invalidating = find_last_index (\<lambda>e. is_context_edit (se_kind e) \<or> is_compaction (se_kind e)) branchEntries
      in if ce_lastUsageIndex estimate \<noteq> None \<and> index_greater usageEntryIndex invalidating then estimate
         else
           let tokens =
                 (case getCurrentSystemMessage (sp_messages projection) of
                    None \<Rightarrow> 0 | Some m \<Rightarrow> estimateTokens (SystemMsg m))
                 + total_tokens (filter (\<lambda>m. \<not> is_system m) (sp_messages projection))
           in \<lparr>ce_tokens = tokens, ce_usageTokens = 0, ce_trailingTokens = tokens, ce_lastUsageIndex = None\<rparr>)"

record compaction_settings =
  cst_enabled :: bool
  cst_reserveTokens :: nat
  cst_keepRecentTokens :: nat

definition DEFAULT_COMPACTION_SETTINGS :: compaction_settings where
  "DEFAULT_COMPACTION_SETTINGS =
     \<lparr>cst_enabled = True, cst_reserveTokens = 16384, cst_keepRecentTokens = 20000\<rparr>"

definition shouldCompact :: "nat \<Rightarrow> nat \<Rightarrow> compaction_settings \<Rightarrow> bool" where
  "shouldCompact contextTokens contextWindow settings =
     (if \<not> cst_enabled settings then False
      else int contextTokens > int contextWindow - int (cst_reserveTokens settings))"

section \<open>Cut points\<close>

fun isCutPointMessage :: "agent_message \<Rightarrow> bool" where
  "isCutPointMessage (UserMsg _) = True"
| "isCutPointMessage (AssistantMsg _) = True"
| "isCutPointMessage (BashMsg _) = True"
| "isCutPointMessage (CustomMsg _) = True"
| "isCutPointMessage (BranchSummaryMsg _) = True"
| "isCutPointMessage (CompactionSummaryMsg _) = True"
| "isCutPointMessage _ = False"

fun isTurnStartMessage :: "agent_message \<Rightarrow> bool" where
  "isTurnStartMessage (UserMsg _) = True"
| "isTurnStartMessage (BashMsg _) = True"
| "isTurnStartMessage (CustomMsg _) = True"
| "isTurnStartMessage (BranchSummaryMsg _) = True"
| "isTurnStartMessage (CompactionSummaryMsg _) = True"
| "isTurnStartMessage _ = False"

definition isTurnStartEntry :: "session_entry \<Rightarrow> bool" where
  "isTurnStartEntry e =
     (if is_compaction (se_kind e) then False
      else list_ex isTurnStartMessage (sessionEntryToContextMessages e))"

definition findValidCutPoints :: "session_entry list \<Rightarrow> nat \<Rightarrow> nat \<Rightarrow> nat list" where
  "findValidCutPoints entries startIndex endIndex =
     filter (\<lambda>i. \<not> is_compaction (se_kind (entries ! i)) \<and>
                 list_ex isCutPointMessage (sessionEntryToContextMessages (entries ! i)))
       [startIndex..<endIndex]"

text \<open>\<open>for (let i = from; i >= start; i--)\<close>: the first index with the property.\<close>

definition scan_back :: "(nat \<Rightarrow> bool) \<Rightarrow> nat \<Rightarrow> nat \<Rightarrow> nat option" where
  "scan_back P from_index start = List.find P (rev [start..<Suc from_index])"

definition findTurnStartIndex :: "session_entry list \<Rightarrow> nat \<Rightarrow> nat \<Rightarrow> nat option" where
  "findTurnStartIndex entries entryIndex startIndex =
     scan_back (\<lambda>i. isTurnStartEntry (entries ! i)) entryIndex startIndex"

record cut_point_result =
  cp_firstKeptEntryIndex :: nat
  cp_turnStartIndex :: "nat option"
  cp_isSplitTurn :: bool

text \<open>
  The walk back from the newest entry over \<open>(index, tokens)\<close>: the index at which the budget
  is reached. Entries without tokens are passed over.
\<close>

fun budget_reached_at :: "nat \<Rightarrow> nat \<Rightarrow> (nat \<times> nat) list \<Rightarrow> nat option" where
  "budget_reached_at keep accumulated [] = None"
| "budget_reached_at keep accumulated ((i, tokens) # rest) =
     (if tokens = 0 then budget_reached_at keep accumulated rest
      else if accumulated + tokens \<ge> keep then Some i
      else budget_reached_at keep (accumulated + tokens) rest)"

text \<open>The closest cut point at or after an index, else the last one.\<close>

definition cut_at_or_after :: "nat list \<Rightarrow> nat \<Rightarrow> nat" where
  "cut_at_or_after cutPoints i =
     (case List.find (\<lambda>c. c \<ge> i) cutPoints of Some c \<Rightarrow> c | None \<Rightarrow> last cutPoints)"

text \<open>\<open>while (cutIndex > startIndex && invisible(cutIndex - 1)) cutIndex--\<close>\<close>

fun back_over :: "(nat \<Rightarrow> bool) \<Rightarrow> nat \<Rightarrow> nat \<Rightarrow> nat" where
  "back_over invisible start 0 = 0"
| "back_over invisible start (Suc c) =
     (if Suc c > start \<and> invisible c then back_over invisible start c else Suc c)"

definition cut_result :: "(nat \<Rightarrow> bool) \<Rightarrow> nat \<Rightarrow> nat \<Rightarrow> cut_point_result" where
  "cut_result turnStart cutIndex startIndex =
     (let startsTurn = turnStart cutIndex;
          turnStartIndex = (if startsTurn then None else scan_back turnStart cutIndex startIndex)
      in \<lparr>cp_firstKeptEntryIndex = cutIndex, cp_turnStartIndex = turnStartIndex,
          cp_isSplitTurn = (\<not> startsTurn \<and> turnStartIndex \<noteq> None)\<rparr>)"

definition findCutPoint :: "session_entry list \<Rightarrow> nat \<Rightarrow> nat \<Rightarrow> nat \<Rightarrow> cut_point_result" where
  "findCutPoint entries startIndex endIndex keepRecentTokens =
     (let cutPoints = findValidCutPoints entries startIndex endIndex
      in if cutPoints = []
         then \<lparr>cp_firstKeptEntryIndex = startIndex, cp_turnStartIndex = None, cp_isSplitTurn = False\<rparr>
         else
           let tokens = (\<lambda>i. total_tokens (sessionEntryToContextMessages (entries ! i)));
               cut = (case budget_reached_at keepRecentTokens 0
                            (map (\<lambda>i. (i, tokens i)) (rev [startIndex..<endIndex])) of
                        None \<Rightarrow> hd cutPoints
                      | Some i \<Rightarrow> cut_at_or_after cutPoints i);
               invisible = (\<lambda>i. \<not> (is_compaction (se_kind (entries ! i)) \<or>
                                   sessionEntryToContextMessages (entries ! i) \<noteq> []))
           in cut_result (\<lambda>i. isTurnStartEntry (entries ! i)) (back_over invisible startIndex cut) startIndex)"

section \<open>Cut points of a projection\<close>

definition isProjectedTurnStart :: "projected_entry \<Rightarrow> bool" where
  "isProjectedTurnStart e =
     (if is_compaction (se_kind (pe_sourceEntry e)) then False else list_ex isTurnStartMessage (pe_messages e))"

definition findProjectedTurnStartIndex :: "projected_entry list \<Rightarrow> nat \<Rightarrow> nat \<Rightarrow> nat option" where
  "findProjectedTurnStartIndex entries entryIndex startIndex =
     scan_back (\<lambda>i. isProjectedTurnStart (entries ! i)) entryIndex startIndex"

definition projected_cut_points :: "projected_entry list \<Rightarrow> nat \<Rightarrow> nat \<Rightarrow> nat list" where
  "projected_cut_points entries startIndex endIndex =
     filter (\<lambda>i. \<not> is_compaction (se_kind (pe_sourceEntry (entries ! i))) \<and>
                 list_ex isCutPointMessage (pe_messages (entries ! i)))
       [startIndex..<endIndex]"

definition isIntrinsicallyVisible :: "projected_entry \<Rightarrow> bool" where
  "isIntrinsicallyVisible e \<longleftrightarrow>
     \<not> is_context_edit (se_kind (pe_sourceEntry e)) \<and> sessionEntryToContextMessages (pe_sourceEntry e) \<noteq> []"

definition isOmitted :: "projected_entry \<Rightarrow> bool" where
  "isOmitted e \<longleftrightarrow> isIntrinsicallyVisible e \<and> pe_messages e = []"

fun is_assistant_entry :: "entry_kind \<Rightarrow> bool" where
  "is_assistant_entry (MessageEntry m) = is_assistant m"
| "is_assistant_entry _ = False"

definition hasExternalReplacement :: "projected_entry list \<Rightarrow> bool" where
  "hasExternalReplacement tail_entries =
     (let omittedIds = map (\<lambda>e. se_id (pe_sourceEntry e)) (filter isOmitted tail_entries)
      in list_ex (\<lambda>e. case se_kind (pe_sourceEntry e) of
            ContextEdit t (Some _) \<Rightarrow> t \<notin> set omittedIds | _ \<Rightarrow> False) tail_entries)"

definition isRecoveryOmissionSuffix :: "bool \<Rightarrow> projected_entry list \<Rightarrow> bool" where
  "isRecoveryOmissionSuffix exceededBudget tail_entries \<longleftrightarrow>
     exceededBudget \<and> \<not> hasExternalReplacement tail_entries \<and>
     list_ex (\<lambda>e. is_assistant_entry (se_kind (pe_sourceEntry e)) \<and> isOmitted e) tail_entries \<and>
     list_all (\<lambda>e. \<not> is_compaction (se_kind (pe_sourceEntry e)) \<and>
                   (\<not> isIntrinsicallyVisible e \<or> isOmitted e)) tail_entries"

definition slice :: "nat \<Rightarrow> nat \<Rightarrow> 'a list \<Rightarrow> 'a list" where
  "slice i j xs = drop i (take j xs)"

definition findProjectedCutPoint ::
  "projected_entry list \<Rightarrow> nat \<Rightarrow> nat \<Rightarrow> nat \<Rightarrow> cut_point_result" where
  "findProjectedCutPoint entries startIndex endIndex keepRecentTokens =
     (let cutPoints = projected_cut_points entries startIndex endIndex
      in if cutPoints = []
         then \<lparr>cp_firstKeptEntryIndex = startIndex, cp_turnStartIndex = None, cp_isSplitTurn = False\<rparr>
         else
           let reached = budget_reached_at keepRecentTokens 0
                 (map (\<lambda>i. (i, total_tokens (pe_messages (entries ! i)))) (rev [startIndex..<endIndex]));
               cut = (case reached of None \<Rightarrow> hd cutPoints | Some i \<Rightarrow> cut_at_or_after cutPoints i);
               tail_entries = slice (Suc cut) endIndex entries;
               cut' = (if isRecoveryOmissionSuffix (reached \<noteq> None) tail_entries then Suc cut else cut);
               invisible = (\<lambda>i. \<not> (is_compaction (se_kind (pe_sourceEntry (entries ! i))) \<or>
                                   pe_messages (entries ! i) \<noteq> []))
           in cut_result (\<lambda>i. isProjectedTurnStart (entries ! i)) (back_over invisible startIndex cut') startIndex)"

section \<open>Preparing a compaction\<close>

definition getMessagesFromProjectedEntryForCompaction :: "projected_entry \<Rightarrow> agent_message list" where
  "getMessagesFromProjectedEntryForCompaction e =
     (if is_compaction (se_kind (pe_sourceEntry e)) then [] else filter (\<lambda>m. \<not> is_system m) (pe_messages e))"

text \<open>The file lists a summary entry carries in its details; their items are strings.\<close>

fun string_items :: "json list \<Rightarrow> string list" where
  "string_items [] = []"
| "string_items (JStr s # vs) = s # string_items vs"
| "string_items (_ # vs) = string_items vs"

definition detail_files :: "string \<Rightarrow> json \<Rightarrow> string list" where
  "detail_files k details = (case json_get details k of JArr vs \<Rightarrow> string_items vs | _ \<Rightarrow> [])"

definition add_details :: "json option \<Rightarrow> bool option \<Rightarrow> file_operations \<Rightarrow> file_operations" where
  "add_details details fromHook ops =
     (case details of
        None \<Rightarrow> ops
      | Some d \<Rightarrow>
          if fromHook = Some True then ops
          else ops\<lparr>fo_read := fold set_add (detail_files ''readFiles'' d) (fo_read ops),
                   fo_edited := fold set_add (detail_files ''modifiedFiles'' d) (fo_edited ops)\<rparr>)"

definition extractFileOperations ::
  "agent_message list \<Rightarrow> session_entry list \<Rightarrow> nat option \<Rightarrow> file_operations" where
  "extractFileOperations messages entries prevCompactionIndex =
     fold extractFileOpsFromMessage messages
       (case prevCompactionIndex of
          None \<Rightarrow> createFileOps
        | Some i \<Rightarrow>
            (case se_kind (entries ! i) of
               Compaction c \<Rightarrow> add_details (co_details c) (co_fromHook c) createFileOps
             | _ \<Rightarrow> createFileOps))"

record compaction_preparation =
  pr_firstKeptEntryId :: string
  pr_messagesToSummarize :: "agent_message list"
  pr_turnPrefixMessages :: "agent_message list"
  pr_isSplitTurn :: bool
  pr_tokensBefore :: nat
  pr_previousSummary :: "string option"
  pr_fileOps :: file_operations
  pr_settings :: compaction_settings

fun compaction_summary :: "entry_kind \<Rightarrow> string option" where
  "compaction_summary (Compaction c) = Some (co_summary c)"
| "compaction_summary _ = None"

text \<open>
  On a projection of the path; \<open>prepareCompaction\<close> builds it from the path itself. The outer
  \<open>None\<close> of \<open>prepareCompaction\<close> is a path whose entries form a cycle.
\<close>

definition prepare_projection ::
  "session_entry list \<Rightarrow> session_projection \<Rightarrow> compaction_settings \<Rightarrow> compaction_preparation option" where
  "prepare_projection pathEntries projection settings =
     (let entries = sp_entries projection;
          prev = find_index (\<lambda>e. is_compaction (se_kind (pe_sourceEntry e)) \<and> pe_messages e \<noteq> []) entries;
          boundaryStart = (case prev of None \<Rightarrow> 0 | Some i \<Rightarrow> Suc i);
          boundaryEnd = length entries;
          tokensBefore = ce_tokens (estimateProjectedContextTokens projection pathEntries);
          cut = findProjectedCutPoint entries boundaryStart boundaryEnd (cst_keepRecentTokens settings);
          kept = cp_firstKeptEntryIndex cut
      in if \<not> kept < length entries then None
         else if se_id (pe_sourceEntry (entries ! kept)) = [] then None
         else
           let historyEnd = (if cp_isSplitTurn cut then the (cp_turnStartIndex cut) else kept);
               messagesToSummarize =
                 concat (map getMessagesFromProjectedEntryForCompaction (slice boundaryStart historyEnd entries));
               turnPrefixMessages =
                 (if cp_isSplitTurn cut
                  then concat (map getMessagesFromProjectedEntryForCompaction
                         (slice (the (cp_turnStartIndex cut)) kept entries))
                  else [])
           in if messagesToSummarize = [] \<and> turnPrefixMessages = [] then None
              else
                let ops = extractFileOperations messagesToSummarize (map pe_sourceEntry entries) prev
                in Some
                  \<lparr>pr_firstKeptEntryId = se_id (pe_sourceEntry (entries ! kept)),
                   pr_messagesToSummarize = messagesToSummarize,
                   pr_turnPrefixMessages = turnPrefixMessages,
                   pr_isSplitTurn = cp_isSplitTurn cut,
                   pr_tokensBefore = tokensBefore,
                   pr_previousSummary =
                     (case prev of None \<Rightarrow> None | Some i \<Rightarrow> compaction_summary (se_kind (pe_sourceEntry (entries ! i)))),
                   pr_fileOps = (if cp_isSplitTurn cut then fold extractFileOpsFromMessage turnPrefixMessages ops else ops),
                   pr_settings = settings\<rparr>)"

definition prepareCompaction ::
  "session_entry list \<Rightarrow> compaction_settings \<Rightarrow> compaction_preparation option option" where
  "prepareCompaction pathEntries settings =
     (if pathEntries \<noteq> [] \<and> is_compaction (se_kind (last pathEntries)) then Some None
      else case buildSessionProjection pathEntries LeafUndefined None of
             None \<Rightarrow> None
           | Some projection \<Rightarrow> Some (prepare_projection pathEntries projection settings))"

section \<open>The summary\<close>

definition getSummarizationFailure :: "assistant_message \<Rightarrow> string \<Rightarrow> string option" where
  "getSummarizationFailure response label =
     (if am_stopReason response = StopError
      then Some (label @ '' failed: '' @
        (case am_errorMessage response of
           None \<Rightarrow> ''Unknown error'' | Some e \<Rightarrow> if e = [] then ''Unknown error'' else e))
      else if am_stopReason response = StopLength
      then Some (label @ '' failed: generation hit the token cap and the summary is incomplete'')
      else None)"

text \<open>
  The model call: the context, normalized to a transcript, and the token limit. \<open>0.8\<close> and
  \<open>0.5\<close> of a whole number of tokens, rounded down, are exact integer divisions.
\<close>

type_synonym 'w completion = "agent_message list \<Rightarrow> nat \<Rightarrow> ('w, assistant_message) prog"

definition buildSummarizationContext :: "string \<Rightarrow> int \<Rightarrow> agent_message list" where
  "buildSummarizationContext promptText now =
     normalizeContext
       \<lparr>ctx_systemPrompt = Some SUMMARIZATION_SYSTEM_PROMPT,
        ctx_llmMessages = [text_user_message promptText now],
        ctx_llmTools = None\<rparr>"

definition limit_tokens :: "nat \<Rightarrow> nat \<Rightarrow> nat" where
  "limit_tokens budget modelMaxTokens = (if modelMaxTokens > 0 then min budget modelMaxTokens else budget)"

definition summary_prompt :: "agent_message list \<Rightarrow> string option \<Rightarrow> string option \<Rightarrow> string" where
  "summary_prompt currentMessages customInstructions previousSummary =
     (let previous = (case previousSummary of None \<Rightarrow> [] | Some p \<Rightarrow> p);
          custom = (case customInstructions of None \<Rightarrow> [] | Some c \<Rightarrow> c);
          base = (if previous \<noteq> [] then UPDATE_SUMMARIZATION_PROMPT else SUMMARIZATION_PROMPT);
          base' = (if custom \<noteq> [] then base @ [NL, NL] @ ''Additional focus: '' @ custom else base)
      in ''<conversation>'' @ [NL] @ serializeConversation (convertToLlm currentMessages) @ [NL] @
         ''</conversation>'' @ [NL, NL] @
         (if previous \<noteq> [] then ''<previous-summary>'' @ [NL] @ previous @ [NL] @ ''</previous-summary>'' @ [NL, NL]
          else []) @ base')"

fun is_tool_call :: "block \<Rightarrow> bool" where
  "is_tool_call (ToolCall _) = True"
| "is_tool_call _ = False"

definition checked_summary :: "string \<Rightarrow> assistant_message \<Rightarrow> (string \<times> usage option) exc" where
  "checked_summary label response =
     (case getSummarizationFailure response label of
        Some failure \<Rightarrow> Inl failure
      | None \<Rightarrow>
          if list_ex is_tool_call (content_blocks (am_content response))
          then Inl (label @ '' attempted to call a tool'')
          else Inr (text_of (am_content response) [NL], am_usage response))"

definition generateSummaryWithUsage ::
  "'w completion \<Rightarrow> int \<Rightarrow> nat \<Rightarrow> nat \<Rightarrow> agent_message list \<Rightarrow> string option \<Rightarrow> string option
     \<Rightarrow> ('w, string \<times> usage option) prog" where
  "generateSummaryWithUsage request now modelMaxTokens reserveTokens currentMessages customInstructions previousSummary =
     bindp (request (buildSummarizationContext (summary_prompt currentMessages customInstructions previousSummary) now)
              (limit_tokens (reserveTokens * 4 div 5) modelMaxTokens))
       (\<lambda>response. liftp (checked_summary ''Summarization'' response))"

definition generateTurnPrefixSummary ::
  "'w completion \<Rightarrow> int \<Rightarrow> nat \<Rightarrow> nat \<Rightarrow> agent_message list \<Rightarrow> ('w, string \<times> usage option) prog" where
  "generateTurnPrefixSummary request now modelMaxTokens reserveTokens messages =
     bindp (request (buildSummarizationContext
              (''# Conversation'' @ [NL] @ serializeConversation (convertToLlm messages) @ [NL, NL] @
               ''# Instructions'' @ [NL] @ TURN_PREFIX_SUMMARIZATION_PROMPT) now)
              (limit_tokens (reserveTokens div 2) modelMaxTokens))
       (\<lambda>response. liftp (checked_summary ''Turn prefix summarization'' response))"

record compaction_result =
  cr_summary :: string
  cr_firstKeptEntryId :: string
  cr_tokensBefore :: nat
  cr_usage :: "usage option"
  cr_readFiles :: "string list"
  cr_modifiedFiles :: "string list"

text \<open>\<open>combineUsage\<close> throws on a response without usage.\<close>

definition merge_usage :: "usage option \<Rightarrow> usage option \<Rightarrow> usage option exc" where
  "merge_usage historyUsage prefixUsage =
     (case historyUsage of
        None \<Rightarrow> Inr prefixUsage
      | Some h \<Rightarrow>
          (case prefixUsage of
             None \<Rightarrow> Inl ''Cannot read properties of undefined (reading input)''
           | Some u \<Rightarrow> Inr (Some (combineUsage h u))))"

definition compaction_text ::
  "'w completion \<Rightarrow> int \<Rightarrow> nat \<Rightarrow> compaction_preparation \<Rightarrow> string option \<Rightarrow> ('w, string \<times> usage option) prog" where
  "compaction_text request now modelMaxTokens p customInstructions =
     (let reserve = cst_reserveTokens (pr_settings p);
          history = generateSummaryWithUsage request now modelMaxTokens reserve (pr_messagesToSummarize p)
                      customInstructions (pr_previousSummary p)
      in if pr_isSplitTurn p \<and> pr_turnPrefixMessages p \<noteq> []
         then bindp (if pr_messagesToSummarize p \<noteq> [] then history
                     else ret (case pr_previousSummary p of None \<Rightarrow> ''No prior history.'' | Some s \<Rightarrow> s, None))
                (\<lambda>(historyText, historyUsage).
                  bindp (generateTurnPrefixSummary request now modelMaxTokens reserve (pr_turnPrefixMessages p))
                    (\<lambda>(prefixText, prefixUsage).
                      bindp (liftp (merge_usage historyUsage prefixUsage))
                        (\<lambda>u. ret (historyText @ [NL, NL] @ ''---'' @ [NL, NL] @
                                   ''**Turn Context (split turn):**'' @ [NL, NL] @ prefixText, u))))
         else history)"

definition compact ::
  "'w completion \<Rightarrow> int \<Rightarrow> nat \<Rightarrow> compaction_preparation \<Rightarrow> string option \<Rightarrow> ('w, compaction_result) prog" where
  "compact request now modelMaxTokens p customInstructions =
     bindp (compaction_text request now modelMaxTokens p customInstructions)
       (\<lambda>(summary, u).
         case computeFileLists (pr_fileOps p) of
           (readFiles, modifiedFiles) \<Rightarrow>
             if pr_firstKeptEntryId p = []
             then throw ''First kept entry has no UUID - session may need migration''
             else ret \<lparr>cr_summary = summary @ formatFileOperations readFiles modifiedFiles,
                       cr_firstKeptEntryId = pr_firstKeptEntryId p,
                       cr_tokensBefore = pr_tokensBefore p, cr_usage = u,
                       cr_readFiles = readFiles, cr_modifiedFiles = modifiedFiles\<rparr>)"

end
