(* ===== verification/Compaction_Properties.thy ===== *)
theory Compaction_Properties
  imports Compaction
begin

text \<open>
  The properties of compaction: where a cut may fall, what a preparation partitions, how much
  is kept, and what appending the prepared compaction does to the model's context.
\<close>

section \<open>Where a cut falls\<close>

lemma find_in_set: "List.find P xs = Some x \<Longrightarrow> x \<in> set xs \<and> P x"
  by (induction xs) (auto split: if_splits)

lemma cut_at_or_after_mem: "cps \<noteq> [] \<Longrightarrow> cut_at_or_after cps i \<in> set cps"
  by (auto simp: cut_at_or_after_def split: option.split dest: find_in_set)

lemma back_over_spec:
  "start \<le> c \<Longrightarrow> start \<le> back_over invis start c \<and> back_over invis start c \<le> c \<and>
     (\<forall>i. back_over invis start c \<le> i \<and> i < c \<longrightarrow> invis i)"
proof (induction c)
  case (Suc c)
  show ?case
  proof (cases "Suc c > start \<and> invis c")
    case True
    with Suc have ih: "start \<le> back_over invis start c" "back_over invis start c \<le> c"
      "\<And>i. back_over invis start c \<le> i \<Longrightarrow> i < c \<Longrightarrow> invis i" by auto
    have "invis i" if "back_over invis start c \<le> i" "i < Suc c" for i
      using ih(3) [OF that(1)] that(2) True by (cases "i = c") auto
    with ih True show ?thesis by auto
  next
    case False
    with Suc.prems show ?thesis by auto
  qed
qed simp

lemma back_over_stop: "start \<le> Suc c \<Longrightarrow> \<not> invis c \<Longrightarrow> back_over invis start (Suc c) = Suc c"
  by simp

lemma scan_back_spec: "scan_back P i start = Some t \<Longrightarrow> start \<le> t \<and> t \<le> i \<and> P t"
  by (auto simp: scan_back_def dest!: find_in_set)

text \<open>What the code relies on in a projection, from \<open>start\<close> on.\<close>

definition cuttable :: "projected_entry list \<Rightarrow> nat \<Rightarrow> bool" where
  "cuttable es start \<longleftrightarrow>
     (\<forall>i. start \<le> i \<and> i < length es \<longrightarrow>
        (is_compaction (se_kind (pe_sourceEntry (es ! i))) \<longrightarrow> pe_messages (es ! i) = []) \<and>
        length (pe_messages (es ! i)) \<le> 1 \<and>
        (\<not> isIntrinsicallyVisible (es ! i) \<longrightarrow> pe_messages (es ! i) = []))"

text \<open>The cut point chosen by the budget, before the steps that adjust it.\<close>

definition budget_cut :: "projected_entry list \<Rightarrow> nat \<Rightarrow> nat \<Rightarrow> nat" where
  "budget_cut es start keep =
     (case budget_reached_at keep 0 (map (\<lambda>i. (i, total_tokens (pe_messages (es ! i)))) (rev [start..<length es])) of
        None \<Rightarrow> hd (projected_cut_points es start (length es))
      | Some i \<Rightarrow> cut_at_or_after (projected_cut_points es start (length es)) i)"

lemma findProjectedCutPoint_spec:
  assumes "cuttable es start" and "projected_cut_points es start (length es) \<noteq> []"
    and "k = cp_firstKeptEntryIndex (findProjectedCutPoint es start (length es) keep)"
  shows "start \<le> k \<and> k < length es \<and> \<not> is_compaction (se_kind (pe_sourceEntry (es ! k))) \<and>
     (\<exists>c \<in> set (projected_cut_points es start (length es)).
        c = budget_cut es start keep \<and> (k \<le> c \<and> (\<forall>i. k \<le> i \<and> i < c \<longrightarrow> pe_messages (es ! i) = []) \<or>
        k = Suc c \<and> (\<forall>i. k \<le> i \<and> i < length es \<longrightarrow> pe_messages (es ! i) = [])))"
proof -
  let ?n = "length es"
  let ?cps = "projected_cut_points es start ?n"
  let ?reached = "budget_reached_at keep 0
    (map (\<lambda>i. (i, total_tokens (pe_messages (es ! i)))) (rev [start..<?n]))"
  define c where "c = (case ?reached of None \<Rightarrow> hd ?cps | Some i \<Rightarrow> cut_at_or_after ?cps i)"
  let ?tail = "slice (Suc c) ?n es"
  let ?invis = "\<lambda>i. \<not> (is_compaction (se_kind (pe_sourceEntry (es ! i))) \<or> pe_messages (es ! i) \<noteq> [])"
  define c' where "c' = (if isRecoveryOmissionSuffix (?reached \<noteq> None) ?tail then Suc c else c)"
  have k: "k = back_over ?invis start c'"
    using assms(2,3) by (simp add: findProjectedCutPoint_def cut_result_def Let_def c_def c'_def)
  have c: "c \<in> set ?cps" using assms(2) cut_at_or_after_mem by (auto simp: c_def split: option.split)
  then have cs: "start \<le> c" "c < ?n" "\<not> is_compaction (se_kind (pe_sourceEntry (es ! c)))"
    "pe_messages (es ! c) \<noteq> []" by (auto simp: projected_cut_points_def)
  have bc: "c = budget_cut es start keep" by (simp add: c_def budget_cut_def)
  show ?thesis
  proof (cases "isRecoveryOmissionSuffix (?reached \<noteq> None) ?tail")
    case False
    then have kc: "k = back_over ?invis start c" using k by (simp add: c'_def)
    have kk: "start \<le> k \<and> k \<le> c \<and> (\<forall>i. k \<le> i \<and> i < c \<longrightarrow> ?invis i)"
      unfolding kc by (rule back_over_spec [OF cs(1)])
    then have "\<not> is_compaction (se_kind (pe_sourceEntry (es ! k)))"
      using cs(3) by (cases "k = c") simp_all
    moreover have "\<forall>i. k \<le> i \<and> i < c \<longrightarrow> pe_messages (es ! i) = []" using kk by simp
    ultimately show ?thesis using kk cs by (intro conjI bexI [OF _ c] bc disjI1) simp_all
  next
    case True
    have t: "?tail = drop (Suc c) es" by (simp add: slice_def)
    from True t have ne: "drop (Suc c) es \<noteq> []"
      and all: "\<forall>e \<in> set (drop (Suc c) es). \<not> is_compaction (se_kind (pe_sourceEntry e)) \<and>
        (\<not> isIntrinsicallyVisible e \<or> isOmitted e)"
      by (auto simp: isRecoveryOmissionSuffix_def list_all_iff)
    from True have "k = Suc c" using k cs(1,4) by (simp add: c'_def)
    moreover have "\<not> is_compaction (se_kind (pe_sourceEntry (es ! i))) \<and> pe_messages (es ! i) = []"
      if "Suc c \<le> i" "i < ?n" for i
    proof -
      have "es ! i \<in> set (drop (Suc c) es)"
        using that by (auto simp: in_set_conv_nth intro!: exI [of _ "i - Suc c"])
      with all have "\<not> is_compaction (se_kind (pe_sourceEntry (es ! i)))"
        "\<not> isIntrinsicallyVisible (es ! i) \<or> isOmitted (es ! i)" by blast+
      moreover have "start \<le> i" using that cs(1) by simp
      ultimately show ?thesis using assms(1) that by (auto simp: cuttable_def isOmitted_def)
    qed
    moreover have "Suc c < ?n" using ne by simp
    ultimately show ?thesis using cs(1) by (intro conjI bexI [OF _ c] bc disjI2) simp_all
  qed
qed

lemma drop_split: "k \<le> c \<Longrightarrow> c < length es \<Longrightarrow> drop k es = map ((!) es) [k..<c] @ es ! c # drop (Suc c) es"
proof -
  assume a: "k \<le> c" "c < length es"
  then have "drop k es = take (c - k) (drop k es) @ drop c es"
    by (metis add.commute append_take_drop_id drop_drop le_add_diff_inverse)
  moreover have "take (c - k) (drop k es) = map ((!) es) [k..<c]"
    using a by (intro nth_equalityI) auto
  ultimately show ?thesis using a(2) Cons_nth_drop_Suc by metis
qed

lemma kept_from_cut:
  assumes "cuttable es start" and "start \<le> c" and "c < length es" and "list_ex isCutPointMessage (pe_messages (es ! c))"
    and a: "k \<le> c \<and> (\<forall>i. k \<le> i \<and> i < c \<longrightarrow> pe_messages (es ! i) = [])"
  shows "\<exists>m. isCutPointMessage m \<and>
     concat (map pe_messages (drop k es)) = m # concat (map pe_messages (drop (Suc c) es))"
proof -
  have "length (pe_messages (es ! c)) \<le> 1" using assms(1-3) by (simp add: cuttable_def)
  with assms(4) obtain m where "pe_messages (es ! c) = [m]" "isCutPointMessage m"
    by (cases "pe_messages (es ! c)") auto
  moreover have "concat (map (pe_messages \<circ> (!) es) [k..<c]) = []" using a by simp
  ultimately show ?thesis
    using a drop_split [of k c es] assms(3) by (simp del: concat_eq_Nil_conv)
qed

lemma kept_starts_at_cut_point:
  assumes "cuttable es start" and "projected_cut_points es start (length es) \<noteq> []"
    and "k = cp_firstKeptEntryIndex (findProjectedCutPoint es start (length es) keep)"
    and "kept = concat (map pe_messages (drop k es))"
  shows "kept = [] \<or> isCutPointMessage (hd kept)"
proof -
  from findProjectedCutPoint_spec [OF assms(1-3)] obtain c where
    c: "c \<in> set (projected_cut_points es start (length es))" and
    cases: "k \<le> c \<and> (\<forall>i. k \<le> i \<and> i < c \<longrightarrow> pe_messages (es ! i) = []) \<or>
        k = Suc c \<and> (\<forall>i. k \<le> i \<and> i < length es \<longrightarrow> pe_messages (es ! i) = [])" by blast
  from c have cs: "start \<le> c" "c < length es" "list_ex isCutPointMessage (pe_messages (es ! c))"
    by (auto simp: projected_cut_points_def)
  from cases show ?thesis
  proof
    assume "k \<le> c \<and> (\<forall>i. k \<le> i \<and> i < c \<longrightarrow> pe_messages (es ! i) = [])"
    from kept_from_cut [OF assms(1) cs this] assms(4) show ?thesis by auto
  next
    assume "k = Suc c \<and> (\<forall>i. k \<le> i \<and> i < length es \<longrightarrow> pe_messages (es ! i) = [])"
    then have "\<forall>e \<in> set (drop k es). pe_messages e = []" by (auto simp: in_set_conv_nth)
    then show ?thesis using assms(4) by simp
  qed
qed

section \<open>The projection of a path can be cut\<close>

lemma project_entries_nth:
  "i < length ces \<Longrightarrow> project_entries ces ! i = project_at (context_edits ces) (i, ces ! i)"
  by (simp add: project_entries_def nth_enumerate_eq)

lemma length_project_entries [simp]: "length (project_entries ces) = length ces"
  by (simp add: project_entries_def)

lemma project_at_fields [simp]:
  "pe_sourceEntry (project_at edits (i, e)) = e"
  "pe_messages (project_at edits (i, e)) =
     (if is_compaction (se_kind e) \<and> i > 0 then [] else projectContextEntry e (map_of edits (se_id e)))"
  by (simp_all add: project_at_def)

lemma single_message:
  "\<not> is_compaction (se_kind e) \<Longrightarrow> length (sessionEntryToContextMessages e) \<le> 1"
  by (cases "se_kind e") (simp_all add: sessionEntryToContextMessages_def)

lemma single_projected: "\<not> is_compaction (se_kind e) \<Longrightarrow> length (projectContextEntry e ed) \<le> 1"
  using single_message [of e] by (auto simp: projectContextEntry_def Let_def split: option.split)

lemma invisible_projected:
  "sessionEntryToContextMessages e = [] \<or> is_context_edit (se_kind e) \<Longrightarrow> projectContextEntry e ed = []"
  by (cases "se_kind e")
     (auto simp: projectContextEntry_def sessionEntryToContextMessages_def Let_def split: option.split if_splits)

lemma cuttable_projection:
  assumes "\<And>i. i < length ces \<Longrightarrow> i \<ge> start \<Longrightarrow> is_compaction (se_kind (ces ! i)) \<Longrightarrow>
    i > 0 \<or> pe_messages (project_entries ces ! i) = []"
  shows "cuttable (project_entries ces) start"
  unfolding cuttable_def
proof (intro allI impI conjI)
  fix i assume i: "start \<le> i \<and> i < length (project_entries ces)"
  then have il: "i < length ces" by simp
  note pn = project_entries_nth [OF il]
  show comp: "pe_messages (project_entries ces ! i) = []"
    if "is_compaction (se_kind (pe_sourceEntry (project_entries ces ! i)))"
    using assms [of i] i that pn by auto
  show "length (pe_messages (project_entries ces ! i)) \<le> 1"
    using comp single_projected [of "ces ! i"] pn by (cases "is_compaction (se_kind (ces ! i))") auto
  show "pe_messages (project_entries ces ! i) = []" if "\<not> isIntrinsicallyVisible (project_entries ces ! i)"
    using that pn invisible_projected [of "ces ! i"] by (auto simp: isIntrinsicallyVisible_def)
qed

section \<open>What a preparation partitions\<close>

abbreviation without_system :: "agent_message list \<Rightarrow> agent_message list" where
  "without_system ms \<equiv> filter (\<lambda>m. \<not> is_system m) ms"

text \<open>Where the entries after the summary of the last compaction begin.\<close>

definition boundary_of :: "projected_entry list \<Rightarrow> nat" where
  "boundary_of es =
     (case find_index (\<lambda>e. is_compaction (se_kind (pe_sourceEntry e)) \<and> pe_messages e \<noteq> []) es of
        None \<Rightarrow> 0 | Some i \<Rightarrow> Suc i)"

lemma boundary_first:
  assumes "find_index (\<lambda>e. is_compaction (se_kind (pe_sourceEntry e)) \<and> pe_messages e \<noteq> []) (project_entries ces) = Some i"
  shows "i = 0 \<and> ces \<noteq> [] \<and> is_compaction (se_kind (hd ces)) \<and> pe_messages (project_entries ces ! 0) \<noteq> []"
  using find_index_Some [OF assms] project_entries_nth [of i ces] by (cases ces) (auto split: if_splits)

lemma boundary_cuttable: "cuttable (project_entries ces) (boundary_of (project_entries ces))"
proof (rule cuttable_projection)
  fix i assume i: "i < length ces" "boundary_of (project_entries ces) \<le> i" "is_compaction (se_kind (ces ! i))"
  let ?P = "\<lambda>e. is_compaction (se_kind (pe_sourceEntry e)) \<and> pe_messages e \<noteq> []"
  show "0 < i \<or> pe_messages (project_entries ces ! i) = []"
  proof (cases "find_index ?P (project_entries ces)")
    case None
    then have "\<not> ?P (project_entries ces ! i)" using i(1) by (simp add: find_index_None)
    then show ?thesis using i by (simp add: project_entries_nth)
  qed (use i in \<open>simp add: boundary_of_def\<close>)
qed

lemma slice_eq: "slice i j xs = take (j - i) (drop i xs)"
  by (simp add: slice_def drop_take)

lemma slice_append: "i \<le> j \<Longrightarrow> j \<le> k \<Longrightarrow> slice i j xs @ slice j k xs = slice i k xs"
  using take_add [of "j - i" "k - j" "drop i xs"] by (simp add: slice_eq)

lemma take_slice_drop: "i \<le> k \<Longrightarrow> take i xs @ slice i k xs @ drop k xs = xs"
  using slice_append [of 0 i k xs] by (simp add: slice_def flip: append_assoc)

lemma nth_of_drop:
  assumes "e \<in> set (slice i j es)"
  obtains n where "i \<le> n" and "n < length es" and "e = es ! n"
proof -
  from assms obtain m where m: "m < length (slice i j es)" "e = slice i j es ! m" by (auto simp: in_set_conv_nth)
  then show thesis by (intro that [of "i + m"]) (auto simp: slice_eq nth_append)
qed

lemma summarized_messages:
  assumes "cuttable es start" and "start \<le> i"
  shows "concat (map getMessagesFromProjectedEntryForCompaction (slice i j es)) =
     without_system (concat (map pe_messages (slice i j es)))"
proof -
  have "getMessagesFromProjectedEntryForCompaction e = without_system (pe_messages e)" if "e \<in> set (slice i j es)" for e
  proof -
    from that obtain n where "i \<le> n" "n < length es" "e = es ! n" by (rule nth_of_drop)
    with assms show ?thesis
      by (simp add: getMessagesFromProjectedEntryForCompaction_def cuttable_def)
  qed
  then have "map getMessagesFromProjectedEntryForCompaction (slice i j es) =
      map (\<lambda>e. without_system (pe_messages e)) (slice i j es)" by (rule map_cong [OF refl])
  then show ?thesis by (simp only: filter_concat map_map comp_def)
qed

lemma cut_result_turn:
  assumes "r = cut_result P c start" and "cp_isSplitTurn r"
  shows "start \<le> the (cp_turnStartIndex r) \<and> the (cp_turnStartIndex r) \<le> cp_firstKeptEntryIndex r"
  using assms scan_back_spec [of P c start] by (auto simp: cut_result_def Let_def)

lemma cut_split_turn:
  assumes "cp_isSplitTurn (findProjectedCutPoint es start n keep)"
  shows "start \<le> the (cp_turnStartIndex (findProjectedCutPoint es start n keep)) \<and>
     the (cp_turnStartIndex (findProjectedCutPoint es start n keep))
       \<le> cp_firstKeptEntryIndex (findProjectedCutPoint es start n keep)"
proof (cases "projected_cut_points es start n = []")
  case True
  then show ?thesis using assms by (simp add: findProjectedCutPoint_def)
next
  case False
  then obtain P c where "findProjectedCutPoint es start n keep = cut_result P c start"
    by (simp add: findProjectedCutPoint_def Let_def)
  from cut_result_turn [OF this assms] show ?thesis .
qed

lemma prepared_partition:
  assumes "prepare_projection path pj settings = Some p" and "sp_entries pj = project_entries ces"
  obtains start k where "start = boundary_of (project_entries ces)" "start \<le> k" "k < length ces"
    and "pr_firstKeptEntryId p = se_id (ces ! k)" and "\<not> is_compaction (se_kind (ces ! k))"
    and "pr_messagesToSummarize p @ pr_turnPrefixMessages p =
      without_system (concat (map pe_messages (slice start k (project_entries ces))))"
    and "pr_messagesToSummarize p @ pr_turnPrefixMessages p \<noteq> []"
    and "concat (map pe_messages (drop k (project_entries ces))) = [] \<or>
      isCutPointMessage (hd (concat (map pe_messages (drop k (project_entries ces)))))"
    and "pr_previousSummary p = (if start = 0 then None else compaction_summary (se_kind (hd ces)))"
    and "projected_cut_points (project_entries ces) start (length (project_entries ces)) \<noteq> []"
    and "k = cp_firstKeptEntryIndex (findProjectedCutPoint (project_entries ces) start
      (length (project_entries ces)) (cst_keepRecentTokens settings))"
proof -
  let ?es = "project_entries ces"
  let ?prev = "find_index (\<lambda>e. is_compaction (se_kind (pe_sourceEntry e)) \<and> pe_messages e \<noteq> []) ?es"
  define start where "start = boundary_of ?es"
  define cut where "cut = findProjectedCutPoint ?es start (length ?es) (cst_keepRecentTokens settings)"
  define k where "k = cp_firstKeptEntryIndex cut"
  define t where "t = (if cp_isSplitTurn cut then the (cp_turnStartIndex cut) else k)"
  have st: "(case ?prev of None \<Rightarrow> 0 | Some i \<Rightarrow> Suc i) = start" by (simp add: start_def boundary_of_def)
  from assms have kl: "k < length ces" and id: "pr_firstKeptEntryId p = se_id (pe_sourceEntry (?es ! k))"
    and ms: "pr_messagesToSummarize p = concat (map getMessagesFromProjectedEntryForCompaction (slice start t ?es))"
    and tp: "pr_turnPrefixMessages p =
      (if cp_isSplitTurn cut then concat (map getMessagesFromProjectedEntryForCompaction (slice t k ?es)) else [])"
    and some: "pr_messagesToSummarize p @ pr_turnPrefixMessages p \<noteq> []"
    and ps: "pr_previousSummary p = (case ?prev of None \<Rightarrow> None | Some i \<Rightarrow> compaction_summary (se_kind (pe_sourceEntry (?es ! i))))"
    unfolding prepare_projection_def Let_def assms(2) st cut_def [symmetric] k_def [symmetric] t_def
    by (auto split: if_splits simp del: concat_eq_Nil_conv)
  note cuttable = boundary_cuttable [of ces, folded start_def]
  have cps: "projected_cut_points ?es start (length ?es) \<noteq> []"
  proof
    assume "projected_cut_points ?es start (length ?es) = []"
    then have "cut = \<lparr>cp_firstKeptEntryIndex = start, cp_turnStartIndex = None, cp_isSplitTurn = False\<rparr>"
      by (simp add: cut_def findProjectedCutPoint_def Let_def)
    then show False using some ms tp by (simp add: k_def t_def slice_eq)
  qed
  have kk: "k = cp_firstKeptEntryIndex (findProjectedCutPoint ?es start (length ?es) (cst_keepRecentTokens settings))"
    by (simp add: k_def cut_def)
  from findProjectedCutPoint_spec [OF cuttable cps kk]
  have k: "start \<le> k" "\<not> is_compaction (se_kind (pe_sourceEntry (?es ! k)))" by blast+
  have t: "start \<le> t" "t \<le> k" using k(1) cut_split_turn [of ?es start "length ?es" "cst_keepRecentTokens settings"]
    by (auto simp: t_def k_def cut_def)
  show thesis
  proof (rule that [of start k])
    show "pr_messagesToSummarize p @ pr_turnPrefixMessages p =
        without_system (concat (map pe_messages (slice start k ?es)))"
    proof (cases "cp_isSplitTurn cut")
      case True
      with ms tp summarized_messages [OF cuttable order.refl, of t] summarized_messages [OF cuttable t(1), of k]
      show ?thesis by (simp add: slice_append [OF t, symmetric])
    next
      case False
      with ms tp summarized_messages [OF cuttable order.refl, of t] show ?thesis by (simp add: t_def)
    qed
    show "concat (map pe_messages (drop k ?es)) = [] \<or> isCutPointMessage (hd (concat (map pe_messages (drop k ?es))))"
      by (rule kept_starts_at_cut_point [OF cuttable cps kk refl])
    show "pr_previousSummary p = (if start = 0 then None else compaction_summary (se_kind (hd ces)))"
    proof (cases ?prev)
      case (Some i)
      with boundary_first [OF Some] st ps project_entries_nth [of 0 ces] show ?thesis
        by (auto simp: hd_conv_nth)
    qed (use st ps in simp)
    show "k < length ces" "start \<le> k" "start = boundary_of ?es" using kl k by (simp_all add: start_def)
    show "pr_firstKeptEntryId p = se_id (ces ! k)" "\<not> is_compaction (se_kind (ces ! k))"
      using id k(2) kl by (simp_all add: project_entries_nth)
    show "pr_messagesToSummarize p @ pr_turnPrefixMessages p \<noteq> []" by (rule some)
    show "projected_cut_points ?es start (length ?es) \<noteq> []" by (rule cps)
    show "k = cp_firstKeptEntryIndex (findProjectedCutPoint ?es start (length ?es) (cst_keepRecentTokens settings))"
      by (rule kk)
  qed
qed

section \<open>The kept entries before and after\<close>

abbreviation carries :: "session_entry \<Rightarrow> bool" where
  "carries e \<equiv> \<not> is_compaction (se_kind e) \<and> \<not> is_system_entry (se_kind e)"

lemma drop_to_element:
  assumes "distinct (map se_id (xs @ f # ys))" and "k < length (xs @ f # ys)" and "(xs @ f # ys) ! k = f"
  shows "drop k (xs @ f # ys) = f # ys"
proof -
  have "distinct (xs @ f # ys)" using assms(1) by (simp only: distinct_map)
  moreover have "(xs @ f # ys) ! k = (xs @ f # ys) ! length xs" using assms(3) by simp
  ultimately have "k = length xs" using assms(2) by (subst (asm) nth_eq_iff_index_eq) simp_all
  then show ?thesis by simp
qed

lemma dropWhile_to_element:
  "distinct (map se_id (xs @ f # ys)) \<Longrightarrow> dropWhile (\<lambda>e. se_id f \<noteq> se_id e) (xs @ f # ys) = f # ys"
  by (subst dropWhile_append2) auto

lemma kept_tail_split:
  obtains q r where "pre = q @ r" and "kept_tail d pre = filter (\<lambda>e. \<not> is_system_entry (se_kind e)) r"
  by (rule that [OF takeWhile_dropWhile_id [symmetric]]) (simp add: kept_tail_def)

lemma distinct_compacted_path:
  assumes "distinct (map se_id path)"
  shows "distinct (map se_id (compacted_path path))"
proof (cases path rule: path_cases)
  case (compacted pre c d post)
  obtain q r where q: "pre = q @ r" and kt: "kept_tail d pre = filter (\<lambda>e. \<not> is_system_entry (se_kind e)) r"
    by (rule kept_tail_split)
  have "distinct (map se_id (q @ r @ c # post))" using assms compacted(1) q by simp
  then have "distinct (map se_id (c # kept_tail d pre @ post))"
    by (auto simp: kt distinct_map_filter)
  moreover have "compacted_path path = c # kept_tail d pre @ post"
    using compacted_path_split [OF compacted(2,3), of pre] assms compacted(1) by simp
  ultimately show ?thesis by simp
qed (use assms in \<open>simp add: compacted_path_plain\<close>)

lemma carries_nonsystem: "filter carries (filter (\<lambda>e. \<not> is_system_entry (se_kind e)) es) = filter carries es"
  by (induction es) simp_all

lemma kept_entries_agree:
  assumes dist: "distinct (map se_id path)" and k: "k < length (compacted_path path)"
    and f: "f = compacted_path path ! k" "\<not> is_compaction (se_kind f)"
  shows "filter carries (drop k (compacted_path path)) = filter carries (dropWhile (\<lambda>e. se_id f \<noteq> se_id e) path)"
proof (cases path rule: path_cases)
  case plain
  then have c: "compacted_path path = path" by (rule compacted_path_plain)
  have "f \<in> set path" using k f(1) c by simp
  then obtain xs ys where p: "path = xs @ f # ys" by (auto simp: in_set_conv_decomp)
  have "drop k path = f # ys"
    using drop_to_element [of xs f ys k] dist k [unfolded c] f(1) [symmetric, unfolded c] unfolding p by blast
  moreover have "dropWhile (\<lambda>e. se_id f \<noteq> se_id e) path = f # ys"
    using dropWhile_to_element [of xs f ys] dist unfolding p by blast
  ultimately show ?thesis by (simp only: c)
next
  case (compacted pre c d post)
  let ?ns = "filter (\<lambda>e. \<not> is_system_entry (se_kind e))"
  obtain q r where q: "pre = q @ r" and ktr: "kept_tail d pre = ?ns r" by (rule kept_tail_split)
  have cp: "compacted_path path = c # kept_tail d pre @ post"
    using compacted_path_split [OF compacted(2,3), of pre] dist compacted(1) by simp
  have dc: "distinct (map se_id (compacted_path path))" by (rule distinct_compacted_path [OF dist])
  have "f \<in> set (compacted_path path)" using f(1) k by simp
  then consider "f \<in> set post" | "f \<in> set (kept_tail d pre)" using cp f(2) compacted(2) by auto
  then show ?thesis
  proof cases
    case 1
    then obtain xs ys where post: "post = xs @ f # ys" by (auto simp: in_set_conv_decomp)
    have "drop k (compacted_path path) = f # ys"
      using drop_to_element [of "c # kept_tail d pre @ xs" f ys k] dc k f(1) [symmetric] cp post by simp
    moreover have "dropWhile (\<lambda>e. se_id f \<noteq> se_id e) path = f # ys"
      using dropWhile_to_element [of "pre @ c # xs" f ys] dist compacted(1) post by simp
    ultimately show ?thesis by simp
  next
    case 2
    then have "f \<in> set r" "\<not> is_system_entry (se_kind f)" by (simp_all add: ktr)
    then obtain xs ys where r: "r = xs @ f # ys" by (auto simp: in_set_conv_decomp)
    have kt: "kept_tail d pre = ?ns xs @ f # ?ns ys"
      using \<open>\<not> is_system_entry (se_kind f)\<close> by (simp add: ktr r)
    have "drop k (compacted_path path) = f # ?ns ys @ post"
      using drop_to_element [of "c # ?ns xs" f "?ns ys @ post" k] dc k f(1) [symmetric] cp kt by simp
    moreover have "dropWhile (\<lambda>e. se_id f \<noteq> se_id e) path = f # ys @ c # post"
      using dropWhile_to_element [of "q @ xs" f "ys @ c # post"] dist compacted(1) q r by simp
    ultimately show ?thesis using compacted(2) carries_nonsystem [of ys]
      by (simp del: filter_filter)
  qed
qed

section \<open>What the kept entries show\<close>

lemma carried_messages:
  assumes "\<not> is_compaction (se_kind e)"
  shows "without_system (projectContextEntry e x) = (if is_system_entry (se_kind e) then [] else projectContextEntry e x)"
proof (cases "is_system_entry (se_kind e)")
  case True
  then obtain m where "se_kind e = MessageEntry m" "is_system m" by (cases "se_kind e") auto
  then show ?thesis
    using True by (auto simp: projectContextEntry_def sessionEntryToContextMessages_def Let_def split: option.split)
next
  case False
  with entry_messages_not_system [OF False assms, of _ x] show ?thesis by (auto simp: filter_id_conv)
qed

lemma projected_kept:
  "0 < n \<or> es = [] \<or> \<not> is_compaction (se_kind (hd es)) \<Longrightarrow>
   without_system (concat (map pe_messages (map (project_at edits) (List.enumerate n es)))) =
     concat (map (\<lambda>e. projectContextEntry e (map_of edits (se_id e))) (filter carries es))"
proof (induction es arbitrary: n)
  case (Cons e es)
  have "without_system (pe_messages (project_at edits (n, e))) =
      (if carries e then projectContextEntry e (map_of edits (se_id e)) else [])"
    using Cons.prems carried_messages [of e "map_of edits (se_id e)"]
    by (auto simp del: filter_False filter_True)
  with Cons.IH [of "Suc n"] show ?case by simp
qed simp

lemma drop_enumerate: "drop k (List.enumerate n xs) = List.enumerate (n + k) (drop k xs)"
proof (induction xs arbitrary: n k)
  case (Cons x xs)
  then show ?case by (cases k) simp_all
qed simp

lemma kept_messages:
  assumes "k < length ces" and "\<not> is_compaction (se_kind (ces ! k))"
  shows "without_system (concat (map pe_messages (drop k (project_entries ces)))) =
     concat (map (\<lambda>e. projectContextEntry e (map_of (context_edits ces) (se_id e))) (filter carries (drop k ces)))"
  using projected_kept [of k "drop k ces" "context_edits ces"] assms
  by (simp add: project_entries_def drop_map drop_enumerate hd_drop_conv_nth)

section \<open>Edits of kept entries\<close>

lemma context_edits_filter: "context_edits (filter carries es) = context_edits es"
proof (induction es rule: rev_induct)
  case (snoc e es)
  then show ?case by (cases "se_kind e") (simp_all add: context_edits_snoc)
qed simp

lemma map_filter_empty: "\<forall>x \<in> set xs. f x = None \<Longrightarrow> List.map_filter f xs = []"
  by (induction xs) (auto simp: List.map_filter_simps)

lemma context_edits_skip:
  assumes "\<And>e r. e \<in> set xs \<Longrightarrow> se_kind e \<noteq> ContextEdit t r"
  shows "map_of (context_edits (xs @ ys)) t = map_of (context_edits ys) t"
proof -
  have "\<forall>e \<in> set (rev xs). (case se_kind e of ContextEdit u r \<Rightarrow> if u = t then Some r else None | _ \<Rightarrow> None) = None"
    using assms by (auto split: entry_kind.split)
  then show ?thesis by (simp add: context_edits_latest map_filter_append map_filter_empty)
qed

lemma edits_of_kept:
  assumes es: "rooted es" "edits_ok es" and path: "path = path_to es t"
    and k: "k < length (compacted_path path)" and f: "f = compacted_path path ! k" "\<not> is_compaction (se_kind f)"
    and x: "x \<in> set (filter carries (drop k (compacted_path path)))"
  shows "map_of (context_edits (compacted_path path)) (se_id x) =
     map_of (context_edits (dropWhile (\<lambda>e. se_id f \<noteq> se_id e) path)) (se_id x)"
proof -
  let ?ces = "compacted_path path" and ?rest = "dropWhile (\<lambda>e. se_id f \<noteq> se_id e) path"
  have dist: "distinct (map se_id path)" using distinct_path_to [OF es(1)] path by simp
  note agree = kept_entries_agree [OF dist k f]
  have "f \<in> set path" using set_compacted_path [of path] k f(1) by auto
  then obtain p1 p2 where p: "path = p1 @ f # p2" by (auto simp: in_set_conv_decomp)
  have rest: "?rest = f # p2" using dropWhile_to_element [of p1 f p2] dist unfolding p by blast
  have xp: "x \<in> set (f # p2)" using x agree rest by (metis filter_is_subset subsetD)
  have none: "se_kind y \<noteq> ContextEdit (se_id x) r" if y: "y \<in> set (take k ?ces)" for y r
  proof
    assume edit: "se_kind y = ContextEdit (se_id x) r"
    have "y \<in> set path" using set_compacted_path [of path] y by (auto dest: in_set_takeD)
    then consider "y \<in> set (p1 @ [f])" | "y \<in> set p2" using p by auto
    then show False
    proof cases
      case 1
      then obtain q1 q2 where q: "p1 @ [f] = q1 @ y # q2" by (auto simp: in_set_conv_decomp)
      then have "path_to es t = q1 @ y # (q2 @ p2)" using p path by (metis append.assoc append_Cons append_Nil)
      from edits_follow [OF es this edit] have "se_id x \<in> ids_of q1" .
      moreover have "set q1 \<subseteq> set p1" using q by (cases q2 rule: rev_cases) auto
      ultimately have "se_id x \<in> ids_of p1" by blast
      then show False using dist xp unfolding p by auto
    next
      case 2
      then have "y \<in> set (filter carries ?rest)" using edit rest by simp
      then have "y \<in> set (drop k ?ces)" using agree by (metis filter_is_subset subsetD)
      moreover have "distinct ?ces" using distinct_compacted_path [OF dist] by (simp add: distinct_map)
      ultimately show False using y by (metis append_take_drop_id disjoint_iff distinct_append)
    qed
  qed
  from context_edits_skip [of "take k ?ces", OF none, of "drop k ?ces"]
  have "map_of (context_edits ?ces) (se_id x) = map_of (context_edits (drop k ?ces)) (se_id x)" by simp
  also have "context_edits (drop k ?ces) = context_edits ?rest"
    using context_edits_filter [of "drop k ?ces"] context_edits_filter [of ?rest] agree by metis
  finally show ?thesis .
qed

section \<open>Compacting a session\<close>

lemma summary_edit:
  "se_kind e = Compaction d \<Longrightarrow> projectContextEntry e x \<noteq> [] \<Longrightarrow>
     projectContextEntry e x = sessionEntryToContextMessages e"
  by (auto simp: projectContextEntry_def sessionEntryToContextMessages_def Let_def split: option.splits)

lemma before_boundary:
  assumes "start = boundary_of (project_entries ces)"
  shows "\<exists>previous. without_system (concat (map pe_messages (take start (project_entries ces)))) =
       (case previous of None \<Rightarrow> [] | Some m \<Rightarrow> [CompactionSummaryMsg m]) \<and>
     (if start = 0 then None else compaction_summary (se_kind (hd ces))) = map_option cs_summary previous"
proof (cases "find_index (\<lambda>e. is_compaction (se_kind (pe_sourceEntry e)) \<and> pe_messages e \<noteq> []) (project_entries ces)")
  case None
  then show ?thesis using assms by (intro exI [of _ None]) (simp add: boundary_of_def)
next
  case (Some i)
  note b = boundary_first [OF Some]
  then obtain c es d where ces: "ces = c # es" "se_kind c = Compaction d"
    by (cases ces) (auto elim: is_compaction.elims)
  have s: "start = 1" using assms Some b by (simp add: boundary_of_def)
  let ?p = "project_entries ces ! 0"
  have p0: "pe_messages ?p = projectContextEntry c (map_of (context_edits ces) (se_id c))"
    using ces project_entries_nth [of 0 ces] by simp
  then have "pe_messages ?p = sessionEntryToContextMessages c"
    using summary_edit [OF ces(2)] b by simp
  moreover have "take 1 (project_entries ces) = [?p]" using ces by (simp add: project_entries_def take_Suc)
  ultimately show ?thesis using s ces
    by (intro exI [of _ "Some (createCompactionSummaryMessage (co_summary d) (co_tokensBefore d) (se_timestamp c))"])
       (simp add: sessionEntryToContextMessages_def createCompactionSummaryMessage_def Let_def split: option.split)
qed

lemma hd_without_system:
  "ms = [] \<or> isCutPointMessage (hd ms) \<Longrightarrow> without_system ms = [] \<or> isCutPointMessage (hd (without_system ms))"
  by (cases ms) (auto elim: isCutPointMessage.elims)

lemma appendCompaction_appended:
  assumes ok: "uuid_ok (sv_uuid env)" "session_wf env s"
    and append: "appendCompaction env now summary (Some fk) tokens details fromHook u s = (Inr e, s')"
  shows "\<exists>d. appends env e s s' \<and> se_kind e = Compaction d \<and> co_summary d = summary \<and>
     co_firstKeptEntryId d = Some fk \<and> se_timestamp e = now \<and> co_tokensBefore d = tokens"
proof -
  obtain e' d where d: "appends env e' s s'" "se_kind e' = Compaction d" "co_summary d = summary"
    "co_firstKeptEntryId d = Some (case Some fk of None \<Rightarrow> se_id e' | Some k \<Rightarrow> k)"
    "co_systemMessage d = map_option (\<lambda>m. m\<lparr>sm_timestamp := now\<rparr>)
       (getCurrentSystemMessage (sp_messages (project_path (leaf_path s) (compacted_path (leaf_path s)))))"
    "Inr e = (Inr e' :: session_entry exc) \<and> wrote env e' s s' \<or> (\<exists>err. (Inr e :: session_entry exc) = Inl err)"
    by (rule appendCompaction_appends [OF ok append sessionProjection_eq [OF ok(2)]])
  moreover have "se_timestamp e = now \<and> (\<forall>d. se_kind e = Compaction d \<longrightarrow> co_tokensBefore d = tokens)"
    using append by (auto simp: appendCompaction_def Let_def split: option.splits prod.splits sum.splits)
  ultimately show ?thesis by auto
qed

lemma kept_conversation:
  assumes es: "rooted es" "edits_ok es" and path: "path = path_to es t"
    and k: "k < length (compacted_path path)" and comp: "\<not> is_compaction (se_kind (compacted_path path ! k))"
    and d: "co_firstKeptEntryId d = Some (se_id (compacted_path path ! k))"
  shows "without_system (concat (map pe_messages (drop k (project_entries (compacted_path path))))) =
     concat (map (\<lambda>x. projectContextEntry x (map_of (context_edits (kept_tail d path)) (se_id x)))
       (filter (\<lambda>x. \<not> is_compaction (se_kind x)) (kept_tail d path)))"
proof -
  let ?ces = "compacted_path path"
  let ?rest = "dropWhile (\<lambda>x. se_id (?ces ! k) \<noteq> se_id x) path"
  have dist: "distinct (map se_id path)" using distinct_path_to [OF es(1)] by (simp add: path)
  have kt: "kept_tail d path = filter (\<lambda>x. \<not> is_system_entry (se_kind x)) ?rest"
    using d by (simp add: kept_tail_def)
  have same: "filter carries (drop k ?ces) = filter (\<lambda>x. \<not> is_compaction (se_kind x)) (kept_tail d path)"
    using kept_entries_agree [OF dist k refl comp] by (simp add: kt conj_ac)
  have "context_edits ?rest = context_edits (kept_tail d path)"
    using context_edits_filter [of ?rest] context_edits_filter [of "kept_tail d path"]
    unfolding kt carries_nonsystem by (rule trans [OF sym])
  then have "map_of (context_edits ?ces) (se_id x) = map_of (context_edits (kept_tail d path)) (se_id x)"
    if "x \<in> set (filter carries (drop k ?ces))" for x
    using edits_of_kept [OF es path k refl comp that] by simp
  then have "concat (map (\<lambda>x. projectContextEntry x (map_of (context_edits ?ces) (se_id x))) (filter carries (drop k ?ces))) =
      concat (map (\<lambda>x. projectContextEntry x (map_of (context_edits (kept_tail d path)) (se_id x)))
        (filter carries (drop k ?ces)))"
    by (intro arg_cong [of _ _ concat] map_cong refl) simp
  then show ?thesis unfolding kept_messages [OF k comp] same .
qed

lemma prepared_conversation:
  assumes "prepare_projection path pj settings = Some p" and "sp_entries pj = project_entries ces"
  obtains k previous where "k < length ces" and "\<not> is_compaction (se_kind (ces ! k))"
    and "pr_firstKeptEntryId p = se_id (ces ! k)"
    and "without_system (projected_messages ces) =
      (case previous of None \<Rightarrow> [] | Some m \<Rightarrow> [CompactionSummaryMsg m]) @
      pr_messagesToSummarize p @ pr_turnPrefixMessages p @
      without_system (concat (map pe_messages (drop k (project_entries ces))))"
    and "pr_messagesToSummarize p @ pr_turnPrefixMessages p \<noteq> []"
    and "pr_previousSummary p = map_option cs_summary previous"
    and "without_system (concat (map pe_messages (drop k (project_entries ces)))) = [] \<or>
      isCutPointMessage (hd (without_system (concat (map pe_messages (drop k (project_entries ces))))))"
proof -
  let ?es = "project_entries ces"
  from prepared_partition [OF assms] obtain start k where
    start: "start = boundary_of ?es" "start \<le> k" and k: "k < length ces"
      "pr_firstKeptEntryId p = se_id (ces ! k)" "\<not> is_compaction (se_kind (ces ! k))"
    and summarized: "pr_messagesToSummarize p @ pr_turnPrefixMessages p =
      without_system (concat (map pe_messages (slice start k ?es)))"
      "pr_messagesToSummarize p @ pr_turnPrefixMessages p \<noteq> []"
    and cutp: "concat (map pe_messages (drop k ?es)) = [] \<or> isCutPointMessage (hd (concat (map pe_messages (drop k ?es))))"
    and ps: "pr_previousSummary p = (if start = 0 then None else compaction_summary (se_kind (hd ces)))" .
  obtain previous where prev: "without_system (concat (map pe_messages (take start ?es))) =
      (case previous of None \<Rightarrow> [] | Some m \<Rightarrow> [CompactionSummaryMsg m])"
    "pr_previousSummary p = map_option cs_summary previous"
    using before_boundary [OF start(1)] ps by auto
  have "projected_messages ces = concat (map pe_messages (take start ?es @ slice start k ?es @ drop k ?es))"
    by (simp only: take_slice_drop [OF start(2)] projected_messages_def)
  then have "without_system (projected_messages ces) =
      (case previous of None \<Rightarrow> [] | Some m \<Rightarrow> [CompactionSummaryMsg m]) @
      (pr_messagesToSummarize p @ pr_turnPrefixMessages p) @ without_system (concat (map pe_messages (drop k ?es)))"
    unfolding summarized(1) using prev(1) by simp
  then show thesis using that [of k previous] k summarized(2) prev(2) hd_without_system [OF cutp] by simp
qed

text \<open>
  C2: Compacting loses nothing but what it summarises: when the prepared compaction of the
  leaf's path is appended, the conversation seen before (system messages aside) was the
  previous summary, if any, then exactly the messages handed to the summariser, history
  first and the prefix of a split turn after it, then the kept messages; afterwards it is
  the new summary and the same kept messages. The kept messages never start with a tool
  result, and something was summarised.
\<close>

theorem compaction_replaces_history:
  assumes "session_ok env s" and "prepareCompaction (leaf_path s) settings = Some (Some p)"
    and "appendCompaction env now summary (Some (pr_firstKeptEntryId p)) tokens details fromHook u s = (Inr e, s')"
  shows "\<exists>old new previous kept. sessionContext s = Some old \<and> sessionContext s' = Some new \<and>
     without_system (sx_messages old) =
       (case previous of None \<Rightarrow> [] | Some m \<Rightarrow> [CompactionSummaryMsg m]) @ pr_messagesToSummarize p @ pr_turnPrefixMessages p @ kept \<and>
     without_system (sx_messages new) =
       CompactionSummaryMsg \<lparr>cs_summary = summary, cs_tokensBefore = tokens, cs_timestamp = now\<rparr> # kept \<and>
     pr_messagesToSummarize p @ pr_turnPrefixMessages p \<noteq> [] \<and>
     pr_previousSummary p = map_option cs_summary previous \<and>
     (kept = [] \<or> isCutPointMessage (hd kept))"
proof -
  have ok: "uuid_ok (sv_uuid env)" "session_wf env s" using assms(1) by (simp_all add: session_ok_def)
  have es: "rooted (getEntries s)" "edits_ok (getEntries s)" using ok(2) by (auto elim: session_wf_getEntries)
  let ?path = "leaf_path s" and ?ces = "compacted_path (leaf_path s)"
  have "prepare_projection ?path (project_path ?path ?ces) settings = Some p"
    using assms(2) projection_of_path [OF es(1), of "ss_leafId s"]
    by (auto simp: prepareCompaction_def leaf_path_def split: if_splits)
  moreover have "sp_entries (project_path ?path ?ces) = project_entries ?ces"
    by (simp add: project_path_def Let_def split: prod.split)
  ultimately obtain k previous where k: "k < length ?ces" "\<not> is_compaction (se_kind (?ces ! k))"
      "pr_firstKeptEntryId p = se_id (?ces ! k)"
    and old: "without_system (projected_messages ?ces) =
      (case previous of None \<Rightarrow> [] | Some m \<Rightarrow> [CompactionSummaryMsg m]) @
      pr_messagesToSummarize p @ pr_turnPrefixMessages p @
      without_system (concat (map pe_messages (drop k (project_entries ?ces))))"
      "pr_messagesToSummarize p @ pr_turnPrefixMessages p \<noteq> []" "pr_previousSummary p = map_option cs_summary previous"
      "without_system (concat (map pe_messages (drop k (project_entries ?ces)))) = [] \<or>
        isCutPointMessage (hd (without_system (concat (map pe_messages (drop k (project_entries ?ces))))))"
    by (rule prepared_conversation)
  obtain d where d: "appends env e s s'" "se_kind e = Compaction d" "co_summary d = summary"
    "co_firstKeptEntryId d = Some (pr_firstKeptEntryId p)" "se_timestamp e = now" "co_tokensBefore d = tokens"
    using appendCompaction_appended [OF ok assms(3)] by auto
  have wf': "session_wf env s'" using appends_wf [OF d(1) ok(2)] d(2) by (simp add: edit_ok_def)
  have "without_system (projected_messages (compacted_path (leaf_path s'))) =
      CompactionSummaryMsg \<lparr>cs_summary = summary, cs_tokensBefore = tokens, cs_timestamp = now\<rparr> #
      without_system (concat (map pe_messages (drop k (project_entries ?ces))))"
    using appended_compaction_context [OF d(1) ok(2) wf' d(2)] d(3-6) k(3)
      kept_conversation [OF es leaf_path_def k(1,2), of d]
    by (auto simp: createCompactionSummaryMessage_def filter_id_conv split: option.splits)
  moreover obtain before after where
    "sessionContext s = Some before" "sx_messages before = projected_messages ?ces"
    "sessionContext s' = Some after" "sx_messages after = projected_messages (compacted_path (leaf_path s'))"
    using sessionContext_eq [OF ok(2)] sessionContext_eq [OF wf'] by simp
  ultimately show ?thesis using old
    by (intro exI [of _ before] exI [of _ after] exI [of _ previous]
        exI [of _ "without_system (concat (map pe_messages (drop k (project_entries ?ces))))"] conjI) simp_all
qed

definition demo_second :: agent_message where
  "demo_second = UserMsg \<lparr>um_content = TextOnly ''more'', um_timestamp = 8\<rparr>"

definition demo_long :: session where
  "demo_long = snd (run_calls demo_session_env [(8, CallMessage demo_second)] demo_talked)"

definition demo_settings :: compaction_settings where
  "demo_settings = \<lparr>cst_enabled = True, cst_reserveTokens = 0, cst_keepRecentTokens = 1\<rparr>"

definition demo_prepared :: compaction_preparation where
  "demo_prepared = the (the (prepareCompaction (leaf_path demo_long) demo_settings))"

lemma demo_preparation:
  "prepareCompaction (leaf_path demo_long) demo_settings = Some (Some demo_prepared)"
  "pr_messagesToSummarize demo_prepared = [demo_message]" "pr_turnPrefixMessages demo_prepared = []"
  "pr_previousSummary demo_prepared = None"
proof -
  have *: "map_option (map_option (\<lambda>p. (pr_messagesToSummarize p, pr_turnPrefixMessages p, pr_previousSummary p)))
      (prepareCompaction (leaf_path demo_long) demo_settings) = Some (Some ([demo_message], [], None))"
    by code_simp
  then show "prepareCompaction (leaf_path demo_long) demo_settings = Some (Some demo_prepared)"
    by (auto simp: demo_prepared_def)
  with * show "pr_messagesToSummarize demo_prepared = [demo_message]" "pr_turnPrefixMessages demo_prepared = []"
    "pr_previousSummary demo_prepared = None" by auto
qed

theorem compaction_replaces_history_witness:
  "\<exists>s' new. s' = snd (appendCompaction demo_session_env 9 ''sum'' (Some (pr_firstKeptEntryId demo_prepared)) 3 None None None demo_long) \<and>
     sessionContext s' = Some new \<and> without_system (sx_messages new) =
       [CompactionSummaryMsg \<lparr>cs_summary = ''sum'', cs_tokensBefore = 3, cs_timestamp = 9\<rparr>, demo_second]"
proof -
  let ?r = "appendCompaction demo_session_env 9 ''sum'' (Some (pr_firstKeptEntryId demo_prepared)) 3 None None None demo_long"
  have "(case fst ?r of Inl _ \<Rightarrow> False | Inr _ \<Rightarrow> True)" by code_simp
  then obtain e where "fst ?r = Inr e" by (auto split: sum.splits)
  then have r: "?r = (Inr e, snd ?r)" by (simp add: prod_eq_iff)
  have "fst (run_calls demo_session_env [(8, CallMessage demo_second)] demo_talked) = Inr ()" by code_simp
  then have run: "run_calls demo_session_env [(8, CallMessage demo_second)] demo_talked = (Inr (), demo_long)"
    by (simp add: demo_long_def prod_eq_iff)
  have ok: "session_ok demo_session_env demo_long"
    using session_log.run_ok [OF run_calls_steps [OF run] demo_ok(2)] by simp
  have old: "map_option sx_messages (sessionContext demo_long) = Some [demo_message, demo_second]" by code_simp
  from compaction_replaces_history [OF ok demo_preparation(1) r] obtain sx new previous kept where
    sx: "sessionContext demo_long = Some sx" "sessionContext (snd ?r) = Some new"
    "without_system (sx_messages sx) = (case previous of None \<Rightarrow> [] | Some m \<Rightarrow> [CompactionSummaryMsg m]) @
       pr_messagesToSummarize demo_prepared @ pr_turnPrefixMessages demo_prepared @ kept"
    "without_system (sx_messages new) = CompactionSummaryMsg \<lparr>cs_summary = ''sum'', cs_tokensBefore = 3, cs_timestamp = 9\<rparr> # kept"
    "pr_previousSummary demo_prepared = map_option cs_summary previous" by blast
  have "kept = [demo_second]"
    using sx(1,3,5) old demo_preparation by (auto simp: demo_message_def demo_second_def)
  with sx show ?thesis by auto
qed

section \<open>How much is kept\<close>

lemma total_tokens_simps [simp]:
  "total_tokens [] = 0" "total_tokens (m # ms) = estimateTokens m + total_tokens ms"
  "total_tokens (ms @ ms') = total_tokens ms + total_tokens ms'"
  by (simp_all add: total_tokens_def)

lemma total_tokens_entries:
  "n \<le> length es \<Longrightarrow> sum_list (map (\<lambda>i. total_tokens (pe_messages (es ! i))) [n..<length es]) =
     total_tokens (concat (map pe_messages (drop n es)))"
proof (induction "length es - n" arbitrary: n)
  case (Suc d)
  then have "n < length es" by simp
  then have "drop n es = es ! n # drop (Suc n) es" "[n..<length es] = n # [Suc n..<length es]"
    by (simp_all add: Cons_nth_drop_Suc upt_rec)
  moreover have "d = length es - Suc n" "Suc n \<le> length es" using Suc.hyps(2) by simp_all
  ultimately show ?case using Suc.hyps(1) [of "Suc n"] by simp
qed simp

lemma budget_reached_spec:
  assumes "acc \<le> keep"
  shows "case budget_reached_at keep acc (map (\<lambda>i. (i, f i)) js) of
      None \<Rightarrow> acc + sum_list (map f js) \<le> keep
    | Some i \<Rightarrow> \<exists>m < length js. js ! m = i \<and> acc + sum_list (map f (take m js)) \<le> keep"
  using assms
proof (induction js arbitrary: acc)
  case (Cons j js)
  show ?case
  proof (cases "f j \<noteq> 0 \<and> keep \<le> acc + f j")
    case True
    then show ?thesis using Cons.prems by (auto intro!: exI [of _ 0])
  next
    case False
    then have "acc + f j \<le> keep" using Cons.prems by auto
    from Cons.IH [OF this] False show ?thesis
      by (auto split: option.splits intro!: exI [of _ "Suc _"] simp: add.assoc)
  qed
qed simp

lemma budget_reached_tail:
  assumes "budget_reached_at keep 0 (map (\<lambda>i. (i, total_tokens (pe_messages (es ! i)))) (rev [start..<length es])) = r"
    and "start \<le> length es"
  shows "case r of
      None \<Rightarrow> total_tokens (concat (map pe_messages (drop start es))) \<le> keep
    | Some i \<Rightarrow> start \<le> i \<and> i < length es \<and> total_tokens (concat (map pe_messages (drop (Suc i) es))) \<le> keep"
proof (cases r)
  case None
  with budget_reached_spec [of 0 keep "\<lambda>i. total_tokens (pe_messages (es ! i))" "rev [start..<length es]"] assms
  show ?thesis by (simp add: rev_map [symmetric] total_tokens_entries)
next
  case (Some i)
  let ?f = "\<lambda>i. total_tokens (pe_messages (es ! i))" and ?js = "rev [start..<length es]"
  obtain m where m: "m < length ?js" "?js ! m = i" "sum_list (map ?f (take m ?js)) \<le> keep"
    using budget_reached_spec [of 0 keep ?f ?js] assms(1) Some by auto
  have i: "Suc i = length es - m" "start \<le> i" using m(1,2) by (simp_all add: rev_nth)
  have "take m ?js = rev [Suc i..<length es]" using m(1) i by (simp add: take_rev)
  then have "sum_list (map ?f [Suc i..<length es]) \<le> keep" using m(3) by (simp add: rev_map [symmetric])
  moreover have "i < length es" using i(1) m(1) by simp
  ultimately show ?thesis using Some i by (simp add: total_tokens_entries)
qed

lemma total_tokens_drop:
  "i \<le> j \<Longrightarrow> total_tokens (concat (map pe_messages (drop j es))) \<le> total_tokens (concat (map pe_messages (drop i es)))"
proof -
  assume "i \<le> j"
  then have "drop i es = take (j - i) (drop i es) @ drop j es" by (metis add.commute append_take_drop_id drop_drop le_add_diff_inverse)
  then have "total_tokens (concat (map pe_messages (drop i es))) =
      total_tokens (concat (map pe_messages (take (j - i) (drop i es)))) + total_tokens (concat (map pe_messages (drop j es)))"
    by (metis concat_append map_append total_tokens_simps(3))
  then show ?thesis by simp
qed

lemma cut_at_or_after_cases:
  assumes "cps \<noteq> []"
  shows "i \<le> cut_at_or_after cps i \<or> cut_at_or_after cps i = last cps"
  by (auto simp: cut_at_or_after_def split: option.split dest: find_in_set)

lemma last_cut_point:
  assumes "projected_cut_points es start n \<noteq> []" and "last (projected_cut_points es start n) < i" and "i < n"
  shows "i \<notin> set (projected_cut_points es start n)"
proof
  let ?cps = "projected_cut_points es start n"
  assume "i \<in> set ?cps"
  then obtain j where j: "j < length ?cps" "?cps ! j = i" by (auto simp: in_set_conv_nth)
  have "sorted ?cps" by (simp add: projected_cut_points_def sorted_wrt_filter)
  from sorted_nth_mono [OF this, of j "length ?cps - 1"] j have "i \<le> last ?cps"
    using assms(1) by (simp add: last_conv_nth)
  then show False using assms(2) by simp
qed

lemma tail_within_budget:
  assumes "cuttable es start" and "projected_cut_points es start (length es) \<noteq> []"
    and "c = budget_cut es start keep"
  shows "total_tokens (concat (map pe_messages (drop (Suc c) es))) \<le> keep \<or>
     (\<forall>m \<in> set (concat (map pe_messages (drop (Suc c) es))). \<not> isCutPointMessage m)"
proof -
  let ?cps = "projected_cut_points es start (length es)"
  let ?r = "budget_reached_at keep 0 (map (\<lambda>i. (i, total_tokens (pe_messages (es ! i)))) (rev [start..<length es]))"
  have "hd ?cps \<in> set ?cps" using assms(2) by simp
  then have hd: "start \<le> hd ?cps" "start \<le> length es" by (auto simp: projected_cut_points_def)
  note tail = budget_reached_tail [OF refl hd(2), of keep]
  show ?thesis
  proof (cases ?r)
    case None
    then have "c = hd ?cps" using assms(3) by (simp add: budget_cut_def)
    with tail None total_tokens_drop [of start "Suc c" es] hd show ?thesis by simp
  next
    case (Some i)
    then have c: "c = cut_at_or_after ?cps i" using assms(3) by (simp add: budget_cut_def)
    from cut_at_or_after_cases [OF assms(2), of i] show ?thesis
    proof
      assume "i \<le> cut_at_or_after ?cps i"
      with tail Some c total_tokens_drop [of "Suc i" "Suc c" es] show ?thesis by simp
    next
      assume l: "cut_at_or_after ?cps i = last ?cps"
      have "last ?cps \<in> set ?cps" using assms(2) by simp
      then have sc: "start \<le> c" using c l by (auto simp: projected_cut_points_def)
      have "\<not> isCutPointMessage m" if "j < length es" "c < j" "m \<in> set (pe_messages (es ! j))" for j m
      proof
        assume "isCutPointMessage m"
        then have "list_ex isCutPointMessage (pe_messages (es ! j))" using that(3) by (auto simp: list_ex_iff)
        moreover have "\<not> is_compaction (se_kind (pe_sourceEntry (es ! j)))"
          using assms(1) that sc by (auto simp: cuttable_def)
        ultimately have "j \<in> set ?cps" using that sc by (simp add: projected_cut_points_def)
        with last_cut_point [OF assms(2), of j] that c l show False by simp
      qed
      moreover have "\<exists>j. j < length es \<and> c < j \<and> e = es ! j" if "e \<in> set (drop (Suc c) es)" for e
      proof -
        have "e \<in> set (slice (Suc c) (length es) es)" using that by (simp add: slice_def)
        then show ?thesis by (rule nth_of_drop) auto
      qed
      ultimately have "\<forall>m \<in> set (concat (map pe_messages (drop (Suc c) es))). \<not> isCutPointMessage m" by fastforce
      then show ?thesis by blast
    qed
  qed
qed

lemma kept_tail_within_budget:
  assumes "cuttable es start" and "projected_cut_points es start (length es) \<noteq> []"
    and "k = cp_firstKeptEntryIndex (findProjectedCutPoint es start (length es) keep)"
    and "kept = concat (map pe_messages (drop k es))"
  shows "total_tokens (tl kept) \<le> keep \<or> (\<forall>m \<in> set (tl kept). \<not> isCutPointMessage m)"
proof -
  from findProjectedCutPoint_spec [OF assms(1-3)] obtain c where
    c: "c \<in> set (projected_cut_points es start (length es))" "c = budget_cut es start keep" and
    cases: "k \<le> c \<and> (\<forall>i. k \<le> i \<and> i < c \<longrightarrow> pe_messages (es ! i) = []) \<or>
        k = Suc c \<and> (\<forall>i. k \<le> i \<and> i < length es \<longrightarrow> pe_messages (es ! i) = [])" by blast
  from c have cs: "start \<le> c" "c < length es" "list_ex isCutPointMessage (pe_messages (es ! c))"
    by (auto simp: projected_cut_points_def)
  from cases show ?thesis
  proof
    assume a: "k \<le> c \<and> (\<forall>i. k \<le> i \<and> i < c \<longrightarrow> pe_messages (es ! i) = [])"
    have "tl kept = concat (map pe_messages (drop (Suc c) es))"
      using kept_from_cut [OF assms(1) cs a] assms(4) by auto
    with tail_within_budget [OF assms(1,2) c(2)] show ?thesis by simp
  next
    assume "k = Suc c \<and> (\<forall>i. k \<le> i \<and> i < length es \<longrightarrow> pe_messages (es ! i) = [])"
    then have "\<forall>e \<in> set (drop k es). pe_messages e = []" by (auto simp: in_set_conv_nth)
    then have "kept = []" using assms(4) by simp
    then show ?thesis by simp
  qed
qed

text \<open>
  C34: What a compaction keeps is bounded: behind its first message the kept context costs
  at most the budget of recent tokens, or it is a tail that cannot be cut (tool results
  of one call), however large.
\<close>

theorem kept_within_budget:
  assumes "prepareCompaction path settings = Some (Some p)"
    and "buildSessionProjection path LeafUndefined None = Some pj"
  shows "\<exists>k. k < length (sp_entries pj) \<and> pr_firstKeptEntryId p = se_id (pe_sourceEntry (sp_entries pj ! k)) \<and>
     (let kept = concat (map pe_messages (drop k (sp_entries pj)))
      in total_tokens (tl kept) \<le> cst_keepRecentTokens settings \<or>
         (\<forall>m \<in> set (tl kept). \<not> isCutPointMessage m))"
proof -
  from assms have p: "prepare_projection path pj settings = Some p"
    by (auto simp: prepareCompaction_def split: if_splits)
  from assms(2) obtain ces where es: "sp_entries pj = project_entries ces"
    by (auto simp: buildSessionProjection_def project_path_def Let_def split: option.splits prod.splits)
  from prepared_partition [OF p es] obtain start k where
    s: "start = boundary_of (project_entries ces)" and k: "k < length ces"
    and id: "pr_firstKeptEntryId p = se_id (ces ! k)"
    and cps: "projected_cut_points (project_entries ces) start (length (project_entries ces)) \<noteq> []"
    and kk: "k = cp_firstKeptEntryIndex (findProjectedCutPoint (project_entries ces) start
      (length (project_entries ces)) (cst_keepRecentTokens settings))" .
  have "cuttable (project_entries ces) start" unfolding s by (rule boundary_cuttable)
  from kept_tail_within_budget [OF this cps kk refl] k id show ?thesis
    by (intro exI [of _ k]) (simp add: es project_entries_nth Let_def)
qed

theorem kept_within_budget_witness:
  "\<exists>k. pr_firstKeptEntryId demo_prepared = se_id (pe_sourceEntry (sp_entries (the (buildSessionProjection (leaf_path demo_long) LeafUndefined None)) ! k)) \<and> k < 2"
proof -
  have "map_option (\<lambda>pj. length (sp_entries pj)) (buildSessionProjection (leaf_path demo_long) LeafUndefined None) = Some 2"
    by code_simp
  then obtain pj where pj: "buildSessionProjection (leaf_path demo_long) LeafUndefined None = Some pj"
    "length (sp_entries pj) = 2" by auto
  with kept_within_budget [OF demo_preparation(1) pj(1)] show ?thesis by auto
qed

end
