(* ===== verification/Session_Branching.thy ===== *)
theory Session_Branching
  imports Session_Properties
begin

text \<open>
  Extracting a branch into a session of its own (\<open>createBranchedSession\<close> in
  \<open>packages/coding-agent/src/core/session-manager.ts\<close>): dropping the label entries of a path,
  chaining what is left and moving a compaction's first kept entry off a dropped label does
  not change what the model sees.
\<close>

section \<open>What dropping labels keeps of an entry\<close>

abbreviation no_label :: "session_entry \<Rightarrow> bool" where
  "no_label e \<equiv> \<not> is_label (se_kind e)"

text \<open>The first entry at or behind an id that is no label.\<close>

definition kept_from :: "string \<Rightarrow> session_entry list \<Rightarrow> session_entry list" where
  "kept_from k path = filter no_label (dropWhile (\<lambda>e. k \<noteq> se_id e) path)"

definition relinked :: "session_entry list \<Rightarrow> session_entry \<Rightarrow> string option \<Rightarrow> session_entry" where
  "relinked pre e parent =
     (case se_kind e of
        Compaction d \<Rightarrow>
          e\<lparr>se_parentId := parent,
            se_kind := Compaction (d\<lparr>co_firstKeptEntryId :=
              (case co_firstKeptEntryId d of
                 None \<Rightarrow> None
               | Some k \<Rightarrow> if k \<noteq> se_id e \<and> k \<in> ids_of (filter (\<lambda>e. is_label (se_kind e)) pre)
                           then Some (se_id (hd (kept_from k (pre @ [e])))) else Some k)\<rparr>)\<rparr>
      | _ \<Rightarrow> e\<lparr>se_parentId := parent\<rparr>)"

definition strip_start :: strip_state where
  "strip_start = \<lparr>st_path = [], st_repl = [], st_pending = [], st_parent = None\<rparr>"

lemma strip_labels_fold: "strip_labels path = st_path (fold strip_step path strip_start)"
  by (simp add: strip_labels_def strip_start_def)

lemma map_of_fold_update:
  "map_of (fold (\<lambda>l. AList.update l v) ls m) k = (if k \<in> set ls then Some v else map_of m k)"
  by (induction ls arbitrary: m) (auto simp: AList.update_conv')

lemma kept_from_snoc:
  "k \<in> ids_of path \<Longrightarrow> kept_from k (path @ [e]) = kept_from k path @ filter no_label [e]"
  by (auto simp: kept_from_def dropWhile_append)

lemma kept_from_absent: "k \<notin> ids_of path \<Longrightarrow> kept_from k (path @ [e]) = (if se_id e = k then filter no_label [e] else [])"
  by (induction path) (auto simp: kept_from_def)

abbreviation label_ids :: "session_entry list \<Rightarrow> string set" where
  "label_ids path \<equiv> ids_of (filter (\<lambda>e. is_label (se_kind e)) path)"

definition parent_after :: "session_entry list \<Rightarrow> string option" where
  "parent_after es = (if es = [] then None else Some (se_id (last es)))"

text \<open>What the loop knows after a path: which labels wait, and where the others went.\<close>

lemma strip_state_spec:
  assumes "distinct (map se_id path)"
  defines "st \<equiv> fold strip_step path strip_start"
  shows "set (st_pending st) = {k \<in> label_ids path. kept_from k path = []}"
    and "map_of (st_repl st) k =
      (if k \<in> label_ids path \<and> kept_from k path \<noteq> [] then Some (se_id (hd (kept_from k path))) else None)"
    and "st_parent st = parent_after (filter no_label path)"
  unfolding st_def using assms(1)
proof (induction path arbitrary: k rule: rev_induct)
  case Nil
  { case 1 show ?case by (simp add: strip_start_def) }
  { case 2 show ?case by (simp add: strip_start_def) }
  { case 3 show ?case by (simp add: strip_start_def parent_after_def) }
next
  case (snoc e path)
  let ?st = "fold strip_step path strip_start"
  have d: "distinct (map se_id path)" "se_id e \<notin> ids_of path" if "distinct (map se_id (path @ [e]))"
    using that by auto
  have sub: "label_ids path \<subseteq> ids_of path" by auto
  note pend = snoc.IH(1) and repl = snoc.IH(2) and par = snoc.IH(3)
  { case 1
    note d = d [OF 1]
    show ?case
    proof (cases "is_label (se_kind e)")
      case True
      then show ?thesis using pend [OF d(1)] d(2) sub
        by (auto simp: strip_step_def kept_from_snoc kept_from_absent)
    next
      case False
      then show ?thesis using sub by (auto simp: strip_step_def Let_def kept_from_snoc)
    qed }
  { case 2
    note d = d [OF 2]
    show ?case
    proof (cases "is_label (se_kind e)")
      case True
      have "label_ids (path @ [e]) = insert (se_id e) (label_ids path)" using True by simp
      moreover have "st_repl (fold strip_step (path @ [e]) strip_start) = st_repl ?st"
        using True by (simp add: strip_step_def)
      moreover have "k \<in> label_ids path \<Longrightarrow> kept_from k (path @ [e]) = kept_from k path"
        using True sub by (auto simp: kept_from_snoc)
      moreover have "kept_from (se_id e) (path @ [e]) = []" "se_id e \<notin> label_ids path"
        using True d(2) sub by (simp add: kept_from_absent) (use d(2) sub in blast)
      ultimately show ?thesis using repl [OF d(1), of k] by (cases "k = se_id e") simp_all
    next
      case False
      then show ?thesis using pend [OF d(1)] repl [OF d(1), of k] d(2) sub
        by (cases "k \<in> label_ids path")
           (auto simp: strip_step_def Let_def kept_from_snoc map_of_fold_update)
    qed }
  { case 3
    with par show ?case by (auto simp: strip_step_def Let_def parent_after_def) }
qed

lemma strip_labels_snoc:
  assumes "distinct (map se_id (path @ [e]))"
  shows "strip_labels (path @ [e]) =
     (if is_label (se_kind e) then strip_labels path
      else strip_labels path @ [relinked path e (parent_after (filter no_label path))])"
proof (cases "is_label (se_kind e)")
  case True
  then show ?thesis by (simp add: strip_labels_fold strip_step_def)
next
  case False
  let ?st = "fold strip_step path strip_start"
  have d: "distinct (map se_id path)" "se_id e \<notin> ids_of path" using assms by auto
  have sub: "label_ids path \<subseteq> ids_of path" by auto
  have repl: "map_of (fold (\<lambda>l. AList.update l (se_id e)) (st_pending ?st) (st_repl ?st)) k =
      (if k \<in> label_ids path then Some (se_id (hd (kept_from k (path @ [e])))) else None)" for k
    using strip_state_spec(1,2) [OF d(1)] False sub
    by (cases "k \<in> label_ids path") (auto simp: map_of_fold_update kept_from_snoc)
  show ?thesis
    using False repl strip_state_spec(3) [OF d(1)] d(2)
    by (auto simp: strip_labels_fold strip_step_def relinked_def Let_def split: entry_kind.split option.split)
qed

lemma relinked_fields [simp]: "se_id (relinked pre e p) = se_id e" "se_parentId (relinked pre e p) = p"
  by (simp_all add: relinked_def split: entry_kind.split)

lemma strip_labels_Nil [simp]: "strip_labels [] = []"
  by (simp add: strip_labels_def)

lemma strip_labels_ids:
  "distinct (map se_id path) \<Longrightarrow> map se_id (strip_labels path) = map se_id (filter no_label path)"
  by (induction path rule: rev_induct) (simp_all add: strip_labels_snoc)

lemma parent_after_ids: "map se_id xs = map se_id ys \<Longrightarrow> parent_after xs = parent_after ys"
  unfolding parent_after_def by (metis last_map list.map_disc_iff)

lemma strip_labels_linear: "distinct (map se_id path) \<Longrightarrow> linear_from None (strip_labels path)"
proof (induction path rule: rev_induct)
  case (snoc e path)
  then have "parent_after (strip_labels path) = parent_after (filter no_label path)"
    by (intro parent_after_ids strip_labels_ids) simp
  then show ?case using snoc by (auto simp: strip_labels_snoc linear_from_snoc parent_after_def)
qed simp

section \<open>Entries that show the same\<close>

definition same_shows :: "session_entry \<Rightarrow> session_entry \<Rightarrow> bool" where
  "same_shows e e' \<longleftrightarrow> se_id e' = se_id e \<and> se_timestamp e' = se_timestamp e \<and>
     (se_kind e' = se_kind e \<or>
      (\<exists>d k. se_kind e = Compaction d \<and> se_kind e' = Compaction (d\<lparr>co_firstKeptEntryId := k\<rparr>)))"

lemma same_shows_messages: "same_shows e e' \<Longrightarrow> sessionEntryToContextMessages e' = sessionEntryToContextMessages e"
  by (cases "se_kind e") (auto simp: same_shows_def sessionEntryToContextMessages_def)

lemma same_shows_step: "same_shows e e' \<Longrightarrow> settings_step e' acc = settings_step e acc"
  by (cases acc; cases "se_kind e") (auto simp: same_shows_def)

lemma same_shows_facts:
  assumes "same_shows e e'"
  shows "se_id e' = se_id e" and "is_compaction (se_kind e') = is_compaction (se_kind e)"
    and "is_system_entry (se_kind e') = is_system_entry (se_kind e)"
    and "projectContextEntry e' x = projectContextEntry e x"
    and "\<not> is_compaction (se_kind e) \<Longrightarrow> se_kind e' = se_kind e"
  using same_shows_messages [OF assms] assms
  by (auto simp: same_shows_def projectContextEntry_def)

lemma same_shows_relinked: "same_shows e (relinked pre e p)"
  by (auto simp: same_shows_def relinked_def split: entry_kind.split)

lemma strip_labels_append:
  assumes "distinct (map se_id (xs @ ys))"
  shows "\<exists>zs. strip_labels (xs @ ys) = strip_labels xs @ zs \<and> list_all2 same_shows (filter no_label ys) zs"
  using assms
proof (induction ys rule: rev_induct)
  case (snoc y ys)
  then obtain zs where zs: "strip_labels (xs @ ys) = strip_labels xs @ zs"
    "list_all2 same_shows (filter no_label ys) zs" by auto
  have d: "distinct (map se_id ((xs @ ys) @ [y]))" using snoc.prems by simp
  show ?case
  proof (cases "is_label (se_kind y)")
    case True
    with zs strip_labels_snoc [OF d] show ?thesis by auto
  next
    case False
    with zs strip_labels_snoc [OF d] show ?thesis
      by (intro exI [of _ "zs @ [relinked (xs @ ys) y (parent_after (filter no_label (xs @ ys)))]"])
         (auto intro: list_all2_appendI same_shows_relinked)
  qed
qed simp

lemma strip_labels_shows: "distinct (map se_id path) \<Longrightarrow> list_all2 same_shows (filter no_label path) (strip_labels path)"
  using strip_labels_append [of "[]" path] by auto

lemma same_shows_filter:
  "list_all2 same_shows es es' \<Longrightarrow> (\<And>e e'. same_shows e e' \<Longrightarrow> P e' = P e) \<Longrightarrow>
     list_all2 same_shows (filter P es) (filter P es')"
  by (induction rule: list_all2_induct) auto

lemma same_shows_dropWhile:
  "list_all2 same_shows es es' \<Longrightarrow> (\<And>e e'. same_shows e e' \<Longrightarrow> P e' = P e) \<Longrightarrow>
     list_all2 same_shows (dropWhile P es) (dropWhile P es')"
  by (induction rule: list_all2_induct) auto

lemma same_shows_edits: "list_all2 same_shows es es' \<Longrightarrow> context_edits es' = context_edits es"
proof -
  have "fold (\<lambda>e edits. case se_kind e of ContextEdit t r \<Rightarrow> AList.update t r edits | _ \<Rightarrow> edits) es' acc =
      fold (\<lambda>e edits. case se_kind e of ContextEdit t r \<Rightarrow> AList.update t r edits | _ \<Rightarrow> edits) es acc"
    if "list_all2 same_shows es es'" for acc
    using that
  proof (induction arbitrary: acc rule: list_all2_induct)
    case (Cons e es e' es')
    then show ?case by (auto simp: same_shows_def split: entry_kind.split)
  qed simp
  then show "list_all2 same_shows es es' \<Longrightarrow> context_edits es' = context_edits es" by (simp add: context_edits_def)
qed

lemma same_shows_settings: "list_all2 same_shows es es' \<Longrightarrow> fold settings_step es' acc = fold settings_step es acc"
  by (induction arbitrary: acc rule: list_all2_induct) (simp_all add: same_shows_step)

section \<open>The context of a stripped path\<close>

lemma dropWhile_id:
  "se_id z \<notin> ids_of xs \<Longrightarrow> dropWhile (\<lambda>e. se_id z \<noteq> se_id e) (xs @ z # ys) = z # ys"
  by (induction xs) auto

lemma dropWhile_all [simp]: "dropWhile (\<lambda>e. True) xs = []"
  by (induction xs) simp_all

lemma dropWhile_no_id: "k \<notin> ids_of xs \<Longrightarrow> dropWhile (\<lambda>e. k \<noteq> se_id e) xs = []"
  by (induction xs) auto

lemma relinked_kept:
  assumes d: "distinct (map se_id (pre @ [c]))" and c: "se_kind c = Compaction d"
  shows "\<exists>d'. se_kind (relinked pre c p) = Compaction d' \<and>
     dropWhile (\<lambda>e. co_firstKeptEntryId d' \<noteq> Some (se_id e)) (filter no_label pre) =
     filter no_label (dropWhile (\<lambda>e. co_firstKeptEntryId d \<noteq> Some (se_id e)) pre)"
proof (cases "co_firstKeptEntryId d")
  case None
  then show ?thesis using c by (intro exI [of _ d]) (simp add: relinked_def)
next
  case (Some j)
  have eq: "(\<lambda>e. Some k \<noteq> Some (se_id e)) = (\<lambda>e. k \<noteq> se_id e)" for k by (auto simp: fun_eq_iff)
  have cid: "se_id c \<notin> ids_of pre" and dp: "distinct (map se_id pre)" using d by auto
  have df: "distinct (map se_id (filter no_label pre))" using dp by (rule distinct_map_filter)
  have kf: "filter no_label (dropWhile (\<lambda>e. j \<noteq> se_id e) pre) = kept_from j pre" by (simp add: kept_from_def)
  show ?thesis
  proof (cases "j \<in> label_ids pre")
    case True
    have "j \<in> ids_of pre" using True by auto
    moreover from this have "j \<noteq> se_id c" using cid by blast
    ultimately have jp: "j \<in> ids_of pre" "j \<noteq> se_id c" .
    let ?k = "se_id (hd (kept_from j (pre @ [c])))"
    have "dropWhile (\<lambda>e. ?k \<noteq> se_id e) (filter no_label pre) = kept_from j pre"
    proof (cases "kept_from j pre")
      case Nil
      then have "?k = se_id c" using c jp by (simp add: kept_from_snoc)
      then show ?thesis using Nil cid dropWhile_no_id [of "se_id c" "filter no_label pre"] by auto
    next
      case (Cons z zs)
      then have "?k = se_id z" using jp by (simp add: kept_from_snoc)
      moreover have "filter no_label pre = filter no_label (takeWhile (\<lambda>e. j \<noteq> se_id e) pre) @ z # zs"
        using Cons by (metis filter_append kept_from_def takeWhile_dropWhile_id)
      ultimately show ?thesis
        using dropWhile_id [of z "filter no_label (takeWhile (\<lambda>e. j \<noteq> se_id e) pre)" zs] df Cons by simp
    qed
    then show ?thesis using c Some True jp
      by (intro exI [of _ "d\<lparr>co_firstKeptEntryId := Some ?k\<rparr>"]) (simp add: relinked_def eq kf)
  next
    case False
    have "dropWhile (\<lambda>e. j \<noteq> se_id e) (filter no_label pre) = kept_from j pre"
    proof (cases "j \<in> ids_of pre")
      case True
      then obtain xs z ys where z: "pre = xs @ z # ys" "se_id z = j" by (auto simp: in_set_conv_decomp)
      then have "no_label z" using False by auto
      then show ?thesis
        using dropWhile_id [of z xs ys] dropWhile_id [of z "filter no_label xs" "filter no_label ys"] dp df z
        by (auto simp: kept_from_def)
    next
      case out: False
      then have "j \<notin> ids_of (filter no_label pre)" by auto
      from dropWhile_no_id [OF this] dropWhile_no_id [OF out] show ?thesis
        unfolding kept_from_def by (simp only: filter.simps)
    qed
    then show ?thesis using c Some False
      by (intro exI [of _ d]) (simp add: relinked_def eq kf)
  qed
qed

text \<open>What the entries of a context show, compactions behind the first one aside.\<close>

definition entries_messages :: "(string, content option) jsmap \<Rightarrow> session_entry list \<Rightarrow> agent_message list" where
  "entries_messages edits es =
     concat (map (\<lambda>e. projectContextEntry e (map_of edits (se_id e)))
       (filter (\<lambda>e. \<not> is_compaction (se_kind e)) es))"

lemma label_shows_nothing: "is_label (se_kind e) \<Longrightarrow> projectContextEntry e x = []"
  by (cases "se_kind e")
     (auto simp: projectContextEntry_def sessionEntryToContextMessages_def split: option.split)

lemma entries_messages_Cons:
  "entries_messages edits (e # es) =
     (if is_compaction (se_kind e) then [] else projectContextEntry e (map_of edits (se_id e))) @ entries_messages edits es"
  by (simp add: entries_messages_def)

lemma entries_messages_Nil [simp]: "entries_messages edits [] = []"
  by (simp add: entries_messages_def)

lemma entries_messages_append:
  "entries_messages edits (es @ es') = entries_messages edits es @ entries_messages edits es'"
  by (simp add: entries_messages_def)

lemma entries_messages_labels: "entries_messages edits (filter no_label es) = entries_messages edits es"
  by (induction es) (auto simp: entries_messages_Cons label_shows_nothing)

lemma entries_messages_same:
  "list_all2 same_shows es es' \<Longrightarrow> entries_messages edits es' = entries_messages edits es"
  by (induction rule: list_all2_induct)
     (simp_all add: entries_messages_Cons same_shows_facts)

lemma projected_messages_plain:
  "(\<forall>e \<in> set es. \<not> is_compaction (se_kind e)) \<Longrightarrow> projected_messages es = entries_messages (context_edits es) es"
proof (cases es)
  case (Cons e es')
  then show "(\<forall>e \<in> set es. \<not> is_compaction (se_kind e)) \<Longrightarrow> ?thesis"
    by (simp add: projected_messages_Cons entries_messages_def)
qed (simp add: projected_messages_def project_entries_def entries_messages_def)

lemma context_edits_labels: "context_edits (filter no_label es) = context_edits es"
proof (induction es rule: rev_induct)
  case (snoc e es)
  then show ?case by (cases "se_kind e") (simp_all add: context_edits_snoc)
qed simp

lemma projected_messages_compacted:
  "projected_messages (c # es) =
     projectContextEntry c (map_of (context_edits (c # es)) (se_id c)) @ entries_messages (context_edits (c # es)) es"
  by (simp add: projected_messages_Cons entries_messages_def)

lemma same_shows_plain:
  "list_all2 same_shows es es' \<Longrightarrow> \<forall>e \<in> set es. \<not> is_compaction (se_kind e) \<Longrightarrow> \<forall>e \<in> set es'. \<not> is_compaction (se_kind e)"
  by (induction rule: list_all2_induct) (auto simp: same_shows_facts)

lemma stripped_kept_tail:
  assumes d: "distinct (map se_id (pre @ [c]))" and c: "se_kind c = Compaction cd"
    and d': "dropWhile (\<lambda>e. co_firstKeptEntryId d' \<noteq> Some (se_id e)) (filter no_label pre) =
     filter no_label (dropWhile (\<lambda>e. co_firstKeptEntryId cd \<noteq> Some (se_id e)) pre)"
  shows "list_all2 same_shows (filter no_label (kept_tail cd pre)) (kept_tail d' (strip_labels pre))"
proof -
  have "list_all2 same_shows
      (filter (\<lambda>e. \<not> is_system_entry (se_kind e)) (dropWhile (\<lambda>e. co_firstKeptEntryId d' \<noteq> Some (se_id e)) (filter no_label pre)))
      (kept_tail d' (strip_labels pre))"
    unfolding kept_tail_def
    by (intro same_shows_filter same_shows_dropWhile strip_labels_shows)
       (use d in \<open>simp_all add: same_shows_facts\<close>)
  moreover have "filter (\<lambda>e. \<not> is_system_entry (se_kind e)) (filter no_label es) = filter no_label (filter (\<lambda>e. \<not> is_system_entry (se_kind e)) es)" for es
    by (simp add: conj_commute)
  ultimately show ?thesis unfolding d' kept_tail_def by simp
qed

lemma stripped_context:
  assumes d: "distinct (map se_id path)"
  shows "projected_messages (compacted_path (strip_labels path)) = projected_messages (compacted_path path)"
proof (cases path rule: path_cases)
  case plain
  let ?s = "strip_labels path"
  note same = strip_labels_shows [OF d]
  have "\<forall>e \<in> set ?s. \<not> is_compaction (se_kind e)" by (rule same_shows_plain [OF same]) (use plain in simp)
  with plain same_shows_edits [OF same] entries_messages_same [OF same] show ?thesis
    by (simp add: compacted_path_plain projected_messages_plain entries_messages_labels context_edits_labels)
next
  case (compacted pre c cd post)
  have dist: "distinct (map se_id ((pre @ [c]) @ post))" and dpc: "distinct (map se_id (pre @ [c]))"
    using d compacted(1) by auto
  let ?c = "relinked pre c (parent_after (filter no_label pre))"
  obtain d' where d': "se_kind ?c = Compaction d'"
    "dropWhile (\<lambda>e. co_firstKeptEntryId d' \<noteq> Some (se_id e)) (filter no_label pre) =
     filter no_label (dropWhile (\<lambda>e. co_firstKeptEntryId cd \<noteq> Some (se_id e)) pre)"
    using relinked_kept [OF dpc compacted(2)] by blast
  obtain zs where zs: "strip_labels ((pre @ [c]) @ post) = strip_labels (pre @ [c]) @ zs"
    "list_all2 same_shows (filter no_label post) zs"
    using strip_labels_append [OF dist] by blast
  have split: "strip_labels path = strip_labels pre @ ?c # zs"
    using zs(1) strip_labels_snoc [OF dpc] compacted(1,2) by simp
  have dz: "distinct (map se_id (strip_labels pre @ ?c # zs))"
    using strip_labels_ids [OF d] distinct_map_filter [OF d] split by metis
  have pz: "\<forall>e \<in> set zs. \<not> is_compaction (se_kind e)"
    by (rule same_shows_plain [OF zs(2)]) (use compacted(3) in simp)
  have dp: "distinct (map se_id (pre @ c # post))" using dist by simp
  let ?rest = "kept_tail cd pre @ post"
  have "list_all2 same_shows (filter no_label ?rest) (kept_tail d' (strip_labels pre) @ zs)"
    using list_all2_appendI [OF stripped_kept_tail [OF dpc compacted(2) d'(2)] zs(2)] by simp
  note same = this
  moreover have "same_shows c ?c" by (rule same_shows_relinked)
  ultimately have all: "list_all2 same_shows (c # filter no_label ?rest) (?c # kept_tail d' (strip_labels pre) @ zs)" by simp
  have edits: "context_edits (?c # kept_tail d' (strip_labels pre) @ zs) = context_edits (c # ?rest)"
    using same_shows_edits [OF all] context_edits_labels [of "c # ?rest"] compacted(2) by simp
  have "compacted_path (strip_labels path) = ?c # kept_tail d' (strip_labels pre) @ zs"
    unfolding split by (rule compacted_path_split [OF d'(1) pz dz])
  moreover have "compacted_path path = c # ?rest"
    unfolding compacted(1) by (rule compacted_path_split [OF compacted(2,3) dp])
  moreover have "entries_messages ed (kept_tail d' (strip_labels pre) @ zs) = entries_messages ed ?rest" for ed
    using entries_messages_same [OF same] entries_messages_labels [of ed ?rest] by simp
  ultimately show ?thesis
    by (simp add: projected_messages_compacted edits same_shows_facts(4) [OF same_shows_relinked])
qed

section \<open>The label entries of an extracted branch\<close>

lemma linear_from_append:
  "linear_from p (xs @ ys) \<longleftrightarrow> linear_from p xs \<and> linear_from (if xs = [] then p else parent_after xs) ys"
  by (induction xs arbitrary: p) (auto simp: parent_after_def)

lemma label_chain_spec:
  assumes "uuid_ok uuid" and "unused_from uuid n (set ids)" and "label_chain uuid n ids parent ts = (es, n')"
  shows "linear_from parent es \<and> distinct (map se_id es) \<and> (\<forall>e \<in> set es. se_id e \<notin> set ids \<and> se_id e \<noteq> []) \<and>
     unused_from uuid n' (set ids \<union> ids_of es) \<and>
     map (\<lambda>e. (se_kind e, se_timestamp e)) es = map (\<lambda>(t, l, time). (LabelEntry t (Some l), time)) ts"
  using assms(2,3)
proof (induction ts arbitrary: n ids parent es n')
  case (Cons tlt ts)
  obtain t l time where tlt: "tlt = (t, l, time)" by (cases tlt)
  obtain i m where g: "generateId uuid n ids = (i, m)" by fastforce
  obtain rest k where r: "label_chain uuid m (set_add i ids) (Some i) ts = (rest, k)" by fastforce
  note id = generateId_spec [OF assms(1) Cons.prems(1) g]
  have "unused_from uuid m (set (set_add i ids))" using id(4) by simp
  from Cons.IH [OF this r] Cons.prems(2) g r tlt id(1,3) show ?case
    by auto
qed (simp_all add: assms)

lemma compacted_path_labels:
  assumes "distinct (map se_id (es @ ls))" and "\<forall>e \<in> set ls. is_label (se_kind e)"
  shows "projected_messages (compacted_path (es @ ls)) = projected_messages (compacted_path es)"
  using assms
proof (induction ls rule: rev_induct)
  case (snoc l ls)
  have l: "\<not> is_compaction (se_kind l)" "\<not> is_edit (se_kind l)"
    using snoc.prems(2) by (cases "se_kind l"; simp add: is_edit_def)+
  have "compacted_path ((es @ ls) @ [l]) = compacted_path (es @ ls) @ [l]"
    using snoc.prems(1) l(1) by (intro compacted_path_snoc) simp_all
  moreover have "projected_messages (ces @ [l]) = projected_messages ces" for ces
    using l snoc.prems(2)
    by (simp add: projected_messages_def project_entries_snoc project_at_def label_shows_nothing)
  ultimately show ?case using snoc by simp
qed simp

lemma settings_labels: "fold settings_step (filter no_label es) acc = fold settings_step es acc"
proof (induction es arbitrary: acc)
  case (Cons e es)
  then show ?case by (cases "se_kind e"; cases acc) simp_all
qed simp

lemma settings_of_labels: "\<forall>e \<in> set ls. is_label (se_kind e) \<Longrightarrow> fold settings_step ls acc = acc"
  using settings_labels [of ls acc] by (simp add: filter_False)

lemma stripped_settings:
  "distinct (map se_id path) \<Longrightarrow> getSessionContextSettings (strip_labels path) = getSessionContextSettings path"
  using same_shows_settings [OF strip_labels_shows] settings_labels [of path]
  by (simp add: getSessionContextSettings_def)

definition path_edits :: "session_entry list \<Rightarrow> bool" where
  "path_edits path \<longleftrightarrow> (\<forall>q1 y q2. path = q1 @ y # q2 \<longrightarrow> edit_ok q1 (se_kind y))"

lemma path_edits_of:
  assumes "rooted es" and "edits_ok es"
  shows "path_edits (path_to es t)"
  unfolding path_edits_def
proof (intro allI impI)
  fix q1 y q2 assume p: "path_to es t = q1 @ y # q2"
  then have "y \<in> set es" using set_path_to [of es t] by auto
  then show "edit_ok q1 (se_kind y)" using assms(2) path_before [OF assms(1) p] by (auto simp: edits_ok_def)
qed

lemma stripped_editable:
  assumes "list_all2 same_shows es es'" and "x \<in> set es" and "is_editable (se_kind x)"
  shows "\<exists>x' \<in> set es'. se_id x' = se_id x \<and> is_editable (se_kind x')"
  using assms by (induction rule: list_all2_induct) (auto simp: same_shows_def)

lemma path_to_linear_end:
  assumes "rooted es" and "linear_from None es"
  shows "path_to es (parent_after es) = es"
  using linear_determined [OF assms] by (cases "es = []") (auto simp: parent_after_def)

lemma stripped_edits_ok:
  "distinct (map se_id path) \<Longrightarrow> path_edits path \<Longrightarrow> rooted (strip_labels path) \<Longrightarrow> edits_ok (strip_labels path)"
proof (induction path rule: rev_induct)
  case (snoc e path)
  have d: "distinct (map se_id path)" using snoc.prems(1) by simp
  have pe: "path_edits path" "edit_ok path (se_kind e)" using snoc.prems(2) by (auto simp: path_edits_def)
  note strip = strip_labels_snoc [OF snoc.prems(1)]
  show ?case
  proof (cases "is_label (se_kind e)")
    case True
    then show ?thesis using snoc.IH [OF d pe(1)] snoc.prems(3) strip by simp
  next
    case False
    let ?S = "strip_labels path" and ?e = "relinked path e (parent_after (filter no_label path))"
    have r: "rooted (?S @ [?e])" "rooted ?S" using snoc.prems(3) strip False by (simp_all add: rooted_snoc)
    have "parent_after (filter no_label path) = parent_after ?S"
      by (rule parent_after_ids [OF strip_labels_ids [OF d, symmetric]])
    then have p: "path_to ?S (se_parentId ?e) = ?S"
      using path_to_linear_end [OF r(2) strip_labels_linear [OF d]] by simp
    have "edit_ok ?S (se_kind ?e)"
      unfolding edit_ok_def
    proof (intro allI impI)
      fix t rp assume "se_kind ?e = ContextEdit t rp"
      then have "se_kind e = ContextEdit t rp" by (auto simp: relinked_def split: entry_kind.splits)
      then obtain x where "x \<in> set path" "se_id x = t" "is_editable (se_kind x)" using pe(2) by (auto simp: edit_ok_def)
      moreover from this have "x \<in> set (filter no_label path)" by (cases "se_kind x") auto
      ultimately show "\<exists>x \<in> set ?S. se_id x = t \<and> is_editable (se_kind x)"
        using stripped_editable [OF strip_labels_shows [OF d]] by blast
    qed
    then show ?thesis using snoc.IH [OF d pe(1) r(2)] edits_ok_snoc [OF r(1)] p strip False by simp
  qed
qed simp

lemma edits_ok_labels:
  "edits_ok es \<Longrightarrow> rooted (es @ ls) \<Longrightarrow> \<forall>e \<in> set ls. is_label (se_kind e) \<Longrightarrow> edits_ok (es @ ls)"
proof (induction ls rule: rev_induct)
  case (snoc l ls)
  then have "rooted ((es @ ls) @ [l])" by simp
  moreover from this have "rooted (es @ ls)" by (simp add: rooted_snoc del: append_assoc)
  moreover have "edit_ok p (se_kind l)" for p using snoc.prems(3) by (cases "se_kind l") simp_all
  ultimately show ?case using snoc edits_ok_snoc [of "es @ ls" l] by simp
qed simp

section \<open>Extracting a branch\<close>

lemma last_id_parent_after: "[] \<notin> ids_of es \<Longrightarrow> last_id es = parent_after es"
  by (cases es rule: rev_cases) (auto simp: last_id_def parent_after_def)

lemma extracted_history:
  assumes u: "uuid_ok uuid" and es: "rooted es" "edits_ok es" and un: "unused_from uuid n (ids_of es)"
    and S: "S = strip_labels (path_to es t)"
    and L: "label_chain uuid n (remdups (map se_id S)) (last_id S) ts = (L, n')"
  shows "rooted (S @ L)" and "edits_ok (S @ L)" and "linear_from None (S @ L)"
    and "\<forall>e \<in> set L. is_label (se_kind e)" and "unused_from uuid n' (ids_of (S @ L))"
    and "map (\<lambda>e. (se_kind e, se_timestamp e)) L = map (\<lambda>(t, l, time). (LabelEntry t (Some l), time)) ts"
proof -
  let ?path = "path_to es t"
  have d: "distinct (map se_id ?path)" by (rule distinct_path_to [OF es(1)])
  have sids: "map se_id S = map se_id (filter no_label ?path)" unfolding S by (rule strip_labels_ids [OF d])
  then have ids: "ids_of S \<subseteq> ids_of es"
    using set_path_to [of es t] by (metis (no_types, lifting) filter_is_subset image_mono list.set_map order_trans)
  have ds: "distinct (map se_id S)" unfolding sids by (rule distinct_map_filter [OF d])
  have ne: "[] \<notin> ids_of S" using ids rooted_nonempty_id [OF es(1)] by blast
  have "unused_from uuid n (set (remdups (map se_id S)))" using un ids unfolding unused_from_def by (simp add: subset_iff) blast
  from label_chain_spec [OF u this L] have c: "linear_from (last_id S) L" "distinct (map se_id L)"
    "\<forall>e \<in> set L. se_id e \<notin> set (map se_id S) \<and> se_id e \<noteq> []" "unused_from uuid n' (set (map se_id S) \<union> ids_of L)"
    "map (\<lambda>e. (se_kind e, se_timestamp e)) L = map (\<lambda>(t, l, time). (LabelEntry t (Some l), time)) ts"
    by simp_all
  have lin: "linear_from None S" unfolding S by (rule strip_labels_linear [OF d])
  show all: "linear_from None (S @ L)"
  proof -
    have "(if S = [] then None else parent_after S) = last_id S"
      using last_id_parent_after [OF ne] by (simp add: parent_after_def)
    then show ?thesis unfolding linear_from_append using lin c(1) by simp
  qed
  have "x \<notin> ids_of S" if x: "x \<in> ids_of L" for x
  proof -
    from x obtain e where "e \<in> set L" "x = se_id e" by (rule imageE)
    with c(3) show ?thesis by simp
  qed
  then have "ids_of S \<inter> ids_of L = {}" by blast
  then have dall: "distinct (map se_id (S @ L))" using ds c(2) by simp
  have "[] \<notin> ids_of L" using c(3) by force
  then have "[] \<notin> ids_of (S @ L)" using ne by (simp add: image_Un)
  then show r: "rooted (S @ L)" by (rule linear_rooted [OF all dall])
  have rs: "rooted S" by (rule linear_rooted [OF lin ds ne])
  show l: "\<forall>e \<in> set L. is_label (se_kind e)"
  proof
    fix e assume "e \<in> set L"
    then have "(se_kind e, se_timestamp e) \<in> set (map (\<lambda>e. (se_kind e, se_timestamp e)) L)" by auto
    then show "is_label (se_kind e)" unfolding c(5) by auto
  qed
  show "edits_ok (S @ L)"
    by (rule edits_ok_labels [OF _ r l])
       (use stripped_edits_ok [OF d path_edits_of [OF es]] rs S in simp)
  show "unused_from uuid n' (ids_of (S @ L))" using c(4) by (simp add: image_Un)
  show "map (\<lambda>e. (se_kind e, se_timestamp e)) L = map (\<lambda>(t, l, time). (LabelEntry t (Some l), time)) ts" by (rule c(5))
qed

lemma leaf_in_parent_after: "leaf_in (parent_after es) es"
  by (cases es rule: rev_cases) (simp_all add: parent_after_def)

text \<open>What the call leaves in memory and on disk.\<close>

definition stored :: "session_env \<Rightarrow> session \<Rightarrow> session" where
  "stored env s =
     (if ss_persist s
      then if hasConversation s then (rewriteFile env s)\<lparr>ss_flushed := True\<rparr> else s\<lparr>ss_flushed := False\<rparr>
      else s)"

lemma stored_fields:
  "ss_fileEntries (stored env s) = ss_fileEntries s" "ss_byId (stored env s) = ss_byId s"
  "ss_leafId (stored env s) = ss_leafId s" "ss_labelsById (stored env s) = ss_labelsById s"
  "ss_sessionId (stored env s) = ss_sessionId s" "ss_drawn (stored env s) = ss_drawn s"
  "(\<forall>p. ss_sessionFile s = Some p \<longrightarrow> p \<noteq> q) \<Longrightarrow> ss_disk (stored env s) q = ss_disk s q"
  "\<not> ss_persist s \<Longrightarrow> ss_disk (stored env s) q = ss_disk s q"
  using same_memory_fields [OF rewriteFile_memory [of s env]]
  by (auto simp: stored_def rewriteFile_def split: option.split)

lemma createBranchedSession_state:
  assumes ok: "session_ok env s" and known: "leaf \<in> ids_of (getEntries s)"
  defines "S \<equiv> strip_labels (path_to (getEntries s) (Some leaf))"
  obtains f s' L n where "createBranchedSession env now leaf s = (Inr f, s')"
    and "label_chain (sv_uuid env) (Suc (ss_drawn s)) (remdups (map se_id S)) (last_id S) (labels_to_write S s) = (L, n)"
    and "session_wf env s'" and "getEntries s' = S @ L" and "ss_leafId s' = parent_after (S @ L)"
    and "ss_labelsById s' = fst (label_maps (S @ L))"
    and "\<forall>p. f \<noteq> Some p \<longrightarrow> ss_disk s' p = ss_disk s p"
proof -
  have u: "uuid_ok (sv_uuid env)" and wf: "session_wf env s" using ok by (simp_all add: session_ok_def)
  from wf have es: "rooted (getEntries s)" "edits_ok (getEntries s)"
    "unused_from (sv_uuid env) (ss_drawn s) (ids_of (getEntries s))" by (auto elim: session_wf_getEntries)
  let ?path = "path_to (getEntries s) (Some leaf)"
  have path: "getBranch (Some leaf) s = Some ?path" "?path \<noteq> []"
    using getBranch_eq [OF wf, of "Some leaf"] path_to_last [OF es(1) known] by simp_all
  obtain L n where L: "label_chain (sv_uuid env) (Suc (ss_drawn s)) (remdups (map se_id S)) (last_id S)
      (labels_to_write S s) = (L, n)" by fastforce
  have "unused_from (sv_uuid env) (Suc (ss_drawn s)) (ids_of (getEntries s))"
    using unused_from_mono [OF es(3)] by simp
  note hist = extracted_history [OF u es(1,2) this S_def [THEN meta_eq_to_obj_eq] L]
  let ?i = "sv_sessionId env (ss_drawn s)"
  let ?h = "\<lparr>sh_version = Some CURRENT_SESSION_VERSION, sh_id = ?i, sh_timestamp = now,
      sh_cwd = Some (ss_cwd s), sh_parentSession = (if ss_persist s then ss_sessionFile s else None)\<rparr>"
  let ?file = "session_path env (ss_sessionDir s) now ?i"
  let ?s1 = "s\<lparr>ss_fileEntries := HeaderEntry ?h # map EntryLine (S @ L), ss_sessionId := ?i, ss_drawn := n\<rparr>"
  let ?s2 = "if ss_persist s then ?s1\<lparr>ss_sessionFile := Some ?file\<rparr> else ?s1"
  have ge: "getEntries ?s2 = S @ L" by (simp add: getEntries_def del: map_append)
  have b: "buildIndex ?s2 = ?s2\<lparr>ss_byId := index_of (S @ L), ss_leafId := parent_after (S @ L),
      ss_labelsById := fst (label_maps (S @ L)), ss_labelTimestampsById := snd (label_maps (S @ L))\<rparr>"
    using buildIndex_eq [of ?s2] rooted_distinct [OF hist(1)] unfolding ge parent_after_def by blast
  obtain x xs where p: "?path = x # xs" using path(2) by (cases ?path) auto
  have Sx: "strip_labels (x # xs) = S" unfolding S_def p ..
  have persists: "ss_persist (buildIndex ?s2) = ss_persist s" unfolding b by simp
  have c: "createBranchedSession env now leaf s = (Inr (if ss_persist s then Some ?file else None), stored env (buildIndex ?s2))"
    using path(1) L persists by (cases "ss_persist s") (simp_all add: createBranchedSession_def p Sx stored_def Let_def)
  note fields = stored_fields [where env = env and s = "buildIndex ?s2"]
  have known': "leaf_in (parent_after (S @ L)) (S @ L)" by (rule leaf_in_parent_after)
  have "session_wf env (stored env (buildIndex ?s2))"
    unfolding session_wf_def unfolding fields unfolding b
    by (intro exI [of _ ?h] exI [of _ "S @ L"]) (use hist(1,2,5) known' in simp)
  moreover have "getEntries (stored env (buildIndex ?s2)) = S @ L" using ge unfolding getEntries_def unfolding fields unfolding b by simp
  moreover have "ss_leafId (stored env (buildIndex ?s2)) = parent_after (S @ L)"
    "ss_labelsById (stored env (buildIndex ?s2)) = fst (label_maps (S @ L))"
    unfolding fields unfolding b by simp_all
  moreover have "ss_disk (stored env (buildIndex ?s2)) q = ss_disk s q"
    if "(if ss_persist s then Some ?file else None) \<noteq> Some q" for q
  proof -
    have "(\<forall>p. ss_sessionFile (buildIndex ?s2) = Some p \<longrightarrow> p \<noteq> q) \<or> \<not> ss_persist (buildIndex ?s2)"
      using that unfolding b by (cases "ss_persist s") simp_all
    then have "ss_disk (stored env (buildIndex ?s2)) q = ss_disk (buildIndex ?s2) q" using fields(7,8) by blast
    then show ?thesis unfolding b by simp
  qed
  ultimately show thesis using that [OF c L] by blast
qed

text \<open>The labels that are written are those of the kept entries.\<close>

definition proper_labels :: "(string, string) jsmap \<Rightarrow> bool" where
  "proper_labels m \<longleftrightarrow> wf_jsmap m \<and> (\<forall>tl \<in> set m. snd tl \<noteq> [])"

lemma proper_labels_update: "proper_labels m \<Longrightarrow> l \<noteq> [] \<Longrightarrow> proper_labels (AList.update t l m)"
proof -
  have "set (AList.update t l m) \<subseteq> insert (t, l) (set m)" by (induction m) auto
  then show "proper_labels m \<Longrightarrow> l \<noteq> [] \<Longrightarrow> ?thesis" by (fastforce simp: proper_labels_def intro: wf_jsmap_update)
qed

lemma proper_labels_delete: "proper_labels m \<Longrightarrow> proper_labels (AList.delete t m)"
  by (auto simp: proper_labels_def AList.delete_eq intro: wf_jsmap_delete [unfolded AList.delete_eq])

lemma label_maps_proper: "proper_labels (fst (label_maps es))"
proof (induction es rule: rev_induct)
  case (snoc e es)
  then show ?case
    by (auto simp: label_maps_snoc label_step_def label_change_def intro: proper_labels_update proper_labels_delete
        split: entry_kind.split option.split)
qed (simp add: label_maps_def proper_labels_def)

lemma label_maps_chain:
  assumes "map (\<lambda>e. (se_kind e, se_timestamp e)) L = map (\<lambda>(t, l, time). (LabelEntry t (Some l), time)) ts"
    and "\<forall>(t, l, time) \<in> set ts. l \<noteq> []"
  shows "fst (fold label_step L maps) = fold (\<lambda>(t, l, time). AList.update t l) ts (fst maps)"
  using assms
proof (induction ts arbitrary: L maps)
  case (Cons tlt ts)
  then obtain e L' where L: "L = e # L'" by (cases L) auto
  obtain t l time where tlt: "tlt = (t, l, time)" by (cases tlt)
  from Cons.prems L tlt have "se_kind e = LabelEntry t (Some l)" "l \<noteq> []" by auto
  then have "fst (label_step e maps) = AList.update t l (fst maps)"
    by (simp add: label_step_def label_change_def)
  then show ?case using Cons.IH [of L' "label_step e maps"] Cons.prems L tlt by simp
qed simp

lemma map_of_fold_labels:
  "distinct (map fst ts) \<Longrightarrow> map_of (fold (\<lambda>(t, l, time). AList.update t l) ts m) i =
     (case map_of ts i of None \<Rightarrow> map_of m i | Some (l, time) \<Rightarrow> Some l)"
proof (induction ts arbitrary: m)
  case (Cons tlt ts)
  then show ?case
    by (cases tlt) (auto simp: AList.update_conv' split: option.split dest: map_of_SomeD intro: rev_image_eqI)
qed simp

lemma labels_to_write_spec:
  assumes "proper_labels (ss_labelsById s)"
  shows "distinct (map fst (labels_to_write S s))" and "\<forall>(t, l, time) \<in> set (labels_to_write S s). l \<noteq> []"
    and "i \<in> ids_of S \<Longrightarrow> map_option fst (map_of (labels_to_write S s) i) = map_of (ss_labelsById s) i"
proof -
  have "distinct (map fst (filter (\<lambda>(t, l). t \<in> ids_of S) (ss_labelsById s)))"
    using assms by (intro distinct_map_filter) (simp add: proper_labels_def wf_jsmap_def jsmap_keys_def)
  then show "distinct (map fst (labels_to_write S s))"
    by (simp add: labels_to_write_def comp_def case_prod_beta)
  show "\<forall>(t, l, time) \<in> set (labels_to_write S s). l \<noteq> []"
    using assms by (auto simp: labels_to_write_def proper_labels_def)
  have "map_option fst (map_of (map (\<lambda>(t, l). (t, l, f t)) (filter (\<lambda>(t, l). t \<in> set (map se_id S)) m)) i) = map_of m i"
    if "i \<in> ids_of S" for m and f :: "string \<Rightarrow> int" using that by (induction m) auto
  then show "i \<in> ids_of S \<Longrightarrow> map_option fst (map_of (labels_to_write S s) i) = map_of (ss_labelsById s) i"
    unfolding labels_to_write_def .
qed

lemma same_shows_label: "same_shows e e' \<Longrightarrow> is_label (se_kind e') = is_label (se_kind e)"
  by (auto simp: same_shows_def)

lemma list_all2_right_mem: "list_all2 R xs ys \<Longrightarrow> y \<in> set ys \<Longrightarrow> \<exists>x \<in> set xs. R x y"
  by (induction rule: list_all2_induct) auto

lemma same_shows_no_label:
  assumes "list_all2 same_shows (filter no_label es) es'"
  shows "\<forall>e \<in> set es'. no_label e"
proof
  fix e' assume "e' \<in> set es'"
  then obtain e where "e \<in> set (filter no_label es)" "same_shows e e'"
    using list_all2_right_mem [OF assms] by blast
  then show "no_label e'" by (simp add: same_shows_label)
qed

lemma fold_label_step_none: "\<forall>e \<in> set es. no_label e \<Longrightarrow> fold label_step es maps = maps"
  by (induction es arbitrary: maps) (simp_all add: label_step_other)

text \<open>
  C12: Extracting a branch: an unknown entry is refused and nothing changes. Otherwise the
  new session is well formed, the model sees in it exactly what it saw at that entry (same
  messages, thinking level and model), although the label entries of the path are gone and
  compactions whose first kept entry was a label point elsewhere; every entry keeps its
  label; and no file but the new one is touched.
\<close>

theorem extracted_branch_keeps_context:
  assumes "session_ok env s" and "labels_synced s"
  shows "if leaf \<notin> ids_of (getEntries s)
     then createBranchedSession env now leaf s = (Inl (''Entry '' @ leaf @ '' not found''), s)
     else \<exists>f s' sx. createBranchedSession env now leaf s = (Inr f, s') \<and> session_ok env s' \<and>
       sessionContext (s\<lparr>ss_leafId := Some leaf\<rparr>) = Some sx \<and> sessionContext s' = Some sx \<and>
       map se_id (filter no_label (getEntries s')) = map se_id (filter no_label (path_to (getEntries s) (Some leaf))) \<and>
       (\<forall>e \<in> set (getEntries s'). no_label e \<longrightarrow> getLabel (se_id e) s' = getLabel (se_id e) s) \<and>
       (\<forall>p. f \<noteq> Some p \<longrightarrow> ss_disk s' p = ss_disk s p)"
proof (cases "leaf \<in> ids_of (getEntries s)")
  case False
  have "getBranch (Some leaf) s = Some []"
    using getBranch_eq [of env s "Some leaf"] assms(1) False by (simp add: session_ok_def path_to_absent)
  then show ?thesis using False by (simp add: createBranchedSession_def)
next
  case True
  have wf: "session_wf env s" using assms(1) by (simp add: session_ok_def)
  let ?path = "path_to (getEntries s) (Some leaf)" and ?s1 = "s\<lparr>ss_leafId := Some leaf\<rparr>"
  have d: "distinct (map se_id ?path)" using distinct_path_to [OF session_ok_rooted [OF assms(1)]] .
  obtain f s' L n where c: "createBranchedSession env now leaf s = (Inr f, s')"
    and L: "label_chain (sv_uuid env) (Suc (ss_drawn s)) (remdups (map se_id (strip_labels ?path)))
        (last_id (strip_labels ?path)) (labels_to_write (strip_labels ?path) s) = (L, n)"
    and s': "session_wf env s'" "getEntries s' = strip_labels ?path @ L"
      "ss_leafId s' = parent_after (strip_labels ?path @ L)"
      "ss_labelsById s' = fst (label_maps (strip_labels ?path @ L))"
    and disk: "\<forall>p. f \<noteq> Some p \<longrightarrow> ss_disk s' p = ss_disk s p"
    by (rule createBranchedSession_state [OF assms(1) True, of now])
  have es: "rooted (getEntries s)" "edits_ok (getEntries s)" "unused_from (sv_uuid env) (Suc (ss_drawn s)) (ids_of (getEntries s))"
    using wf unused_from_mono [of "sv_uuid env" "ss_drawn s"] by (auto elim: session_wf_getEntries)
  have u: "uuid_ok (sv_uuid env)" using assms(1) by (simp add: session_ok_def)
  note hist = extracted_history [OF u es refl L]
  have leaf': "leaf_path s' = getEntries s'"
    using path_to_linear_end [OF hist(1,3)] s'(2,3) by (simp add: leaf_path_def)
  have wf1: "session_wf env ?s1" using session_wf_leaf [OF wf, of "Some leaf"] True by simp
  have msgs: "projected_messages (compacted_path (getEntries s')) = projected_messages (compacted_path ?path)"
    using compacted_path_labels [OF rooted_distinct [OF hist(1)] hist(4)] stripped_context [OF d] s'(2) by simp
  have settings: "getSessionContextSettings (getEntries s') = getSessionContextSettings ?path"
    using settings_of_labels [OF hist(4)] stripped_settings [OF d] s'(2) by (simp add: getSessionContextSettings_def)
  have sx: "sessionContext s' = sessionContext ?s1"
    unfolding sessionContext_eq [OF s'(1)] sessionContext_eq [OF wf1] leaf' msgs settings
    by (simp add: leaf_path_def)
  have ids: "map se_id (filter no_label (getEntries s')) = map se_id (filter no_label ?path)"
  proof -
    have "filter no_label L = []" using hist(4) by (simp add: filter_empty_conv)
    moreover have "filter no_label (strip_labels ?path) = strip_labels ?path"
      using same_shows_no_label [OF strip_labels_shows [OF d]] by (simp add: filter_id_conv)
    ultimately show ?thesis using strip_labels_ids [OF d] s'(2) by simp
  qed
  have labels: "getLabel (se_id e) s' = getLabel (se_id e) s" if e: "e \<in> set (getEntries s')" "no_label e" for e
  proof -
    have "proper_labels (ss_labelsById s)"
      using assms(2) label_maps_proper [of "getEntries s"] by (metis fst_conv labels_synced_def session_labels_def)
    note w = labels_to_write_spec [OF this, where S = "strip_labels ?path"]
    have "fold label_step (strip_labels ?path) ([], []) = ([], [])"
      by (rule fold_label_step_none) (use same_shows_no_label [OF strip_labels_shows [OF d]] in simp)
    then have "ss_labelsById s' = fold (\<lambda>(t, l, time). AList.update t l) (labels_to_write (strip_labels ?path) s) []"
      using s'(4) label_maps_chain [OF hist(6) w(2), of "([], [])"] by (simp add: label_maps_def)
    moreover have "se_id e \<in> ids_of (strip_labels ?path)" using e hist(4) s'(2) by auto
    ultimately show ?thesis
      using map_of_fold_labels [OF w(1), of "[]" "se_id e"] w(3) [where i = "se_id e"]
      by (auto simp: getLabel_def split: option.splits)
  qed
  obtain x where "sessionContext ?s1 = Some x" using sessionContext_eq [OF wf1] by blast
  with sx have "sessionContext ?s1 = Some x \<and> sessionContext s' = Some x" by simp
  moreover have "session_ok env s'" using s'(1) u by (simp add: session_ok_def)
  ultimately have "createBranchedSession env now leaf s = (Inr f, s') \<and> session_ok env s' \<and>
       sessionContext ?s1 = Some x \<and> sessionContext s' = Some x \<and>
       map se_id (filter no_label (getEntries s')) = map se_id (filter no_label ?path) \<and>
       (\<forall>e \<in> set (getEntries s'). no_label e \<longrightarrow> getLabel (se_id e) s' = getLabel (se_id e) s) \<and>
       (\<forall>p. f \<noteq> Some p \<longrightarrow> ss_disk s' p = ss_disk s p)"
    using c ids labels disk by blast
  then have "\<exists>f s' sx. createBranchedSession env now leaf s = (Inr f, s') \<and> session_ok env s' \<and>
       sessionContext ?s1 = Some sx \<and> sessionContext s' = Some sx \<and>
       map se_id (filter no_label (getEntries s')) = map se_id (filter no_label ?path) \<and>
       (\<forall>e \<in> set (getEntries s'). no_label e \<longrightarrow> getLabel (se_id e) s' = getLabel (se_id e) s) \<and>
       (\<forall>p. f \<noteq> Some p \<longrightarrow> ss_disk s' p = ss_disk s p)" by (intro exI)
  with True show ?thesis by (simp only: not_True_eq_False if_False)
qed

theorem extracted_branch_keeps_context_witness:
  "\<exists>f s' sx. createBranchedSession demo_session_env 9 ''x-------'' demo_labelled = (Inr f, s') \<and>
     sessionContext s' = Some sx \<and> sx_messages sx = [demo_message] \<and> getLabel ''x-------'' s' = Some ''here''"
proof -
  have ok: "session_ok demo_session_env demo_labelled"
    using session_log.run_ok [OF run_calls_steps [OF demo_runs(3)] demo_ok(2)] by simp
  have synced: "labels_synced demo_labelled" by code_simp
  have known: "''x-------'' \<in> ids_of (getEntries demo_labelled)" by code_simp
  have old: "map_option sx_messages (sessionContext (demo_labelled\<lparr>ss_leafId := Some ''x-------''\<rparr>)) = Some [demo_message]"
    "getLabel ''x-------'' demo_labelled = Some ''here''"
    "map se_id (filter no_label (path_to (getEntries demo_labelled) (Some ''x-------''))) = [''x-------'']" by code_simp+
  from extracted_branch_keeps_context [OF ok synced, of "''x-------''" 9] known obtain f s' sx where
    c: "createBranchedSession demo_session_env 9 ''x-------'' demo_labelled = (Inr f, s')"
      "sessionContext (demo_labelled\<lparr>ss_leafId := Some ''x-------''\<rparr>) = Some sx" "sessionContext s' = Some sx"
      "map se_id (filter no_label (getEntries s')) = [''x-------'']"
      "\<forall>e \<in> set (getEntries s'). no_label e \<longrightarrow> getLabel (se_id e) s' = getLabel (se_id e) demo_labelled"
    using old(3) by auto
  have "''x-------'' \<in> set (map se_id (filter no_label (getEntries s')))" by (simp only: c(4)) simp
  then have "getLabel ''x-------'' s' = Some ''here''" using c(5) old(2) by auto
  with c old(1) show ?thesis by auto
qed

end
