(* ===== verification/Session_Files.thy ===== *)
theory Session_Files
  imports Session_Branching
begin

text \<open>
  Making session managers (\<open>SessionManager\<close>'s constructor and its static factories in
  \<open>packages/coding-agent/src/core/session-manager.ts\<close>): a new session, a session in memory,
  opening and continuing a file, and the fork of a session into another directory. Paths are
  resolved already; directories exist. A directory listing, with the modification times, and
  the path functions are parameters. A text has as many bytes as characters.
\<close>

section \<open>The constructor\<close>

definition blank_session ::
  "string \<Rightarrow> string \<Rightarrow> bool \<Rightarrow> (string \<Rightarrow> string option) \<Rightarrow> nat \<Rightarrow> session" where
  "blank_session cwd dir persists disk drawn =
     \<lparr>ss_sessionId = [], ss_sessionFile = None, ss_sessionDir = dir, ss_cwd = cwd, ss_persist = persists,
      ss_flushed = False, ss_fileEntries = [], ss_byId = [], ss_labelsById = [], ss_labelTimestampsById = [],
      ss_leafId = None, ss_disk = disk, ss_drawn = drawn\<rparr>"

definition constructManager ::
  "session_env \<Rightarrow> int \<Rightarrow> string option \<Rightarrow> new_session_options \<Rightarrow> file_entry list option \<Rightarrow> unit session_op" where
  "constructManager env now sessionFile opts preloaded s =
     (case sessionFile of
        Some file \<Rightarrow>
          if file \<noteq> [] then setSessionFile env now file preloaded s
          else (case preloaded of
                  Some (e # es) \<Rightarrow> loadEntries env now opts (e # es) s
                | _ \<Rightarrow> (case newSession env now opts s of (Inl e, s') \<Rightarrow> (Inl e, s') | (Inr _, s') \<Rightarrow> (Inr (), s')))
      | None \<Rightarrow>
          (case preloaded of
             Some (e # es) \<Rightarrow> loadEntries env now opts (e # es) s
           | _ \<Rightarrow> (case newSession env now opts s of (Inl e, s') \<Rightarrow> (Inl e, s') | (Inr _, s') \<Rightarrow> (Inr (), s'))))"

section \<open>The factories\<close>

type_synonym disk = "string \<Rightarrow> string option"

definition createManager ::
  "session_env \<Rightarrow> int \<Rightarrow> string \<Rightarrow> string \<Rightarrow> new_session_options \<Rightarrow> disk \<Rightarrow> nat \<Rightarrow> unit exc \<times> session" where
  "createManager env now cwd dir opts disk drawn =
     constructManager env now None opts None (blank_session cwd dir True disk drawn)"

definition inMemory ::
  "session_env \<Rightarrow> int \<Rightarrow> string \<Rightarrow> new_session_options \<Rightarrow> file_entry list option \<Rightarrow> disk \<Rightarrow> nat \<Rightarrow> unit exc \<times> session" where
  "inMemory env now cwd opts entries disk drawn =
     constructManager env now None opts entries (blank_session cwd [] False disk drawn)"

text \<open>The reads of a header: 4096 bytes at a time.\<close>

fun read_chunks :: "nat \<Rightarrow> nat \<Rightarrow> string \<Rightarrow> (nat \<times> string) list" where
  "read_chunks 0 n t = []"
| "read_chunks (Suc fuel) n t =
     (if t = [] then [] else (length (take n t), take n t) # read_chunks fuel n (drop n t))"

definition file_reads :: "string \<Rightarrow> (nat \<times> string) list" where
  "file_reads t = read_chunks (length t) 4096 t"

text \<open>
  \<open>open\<close>: the header gives the working directory; a header beyond the scan limit makes the
  whole file be loaded, once.
\<close>

definition openManager ::
  "session_env \<Rightarrow> int \<Rightarrow> string \<Rightarrow> string \<Rightarrow> string option \<Rightarrow> string \<Rightarrow> disk \<Rightarrow> nat \<Rightarrow> unit exc \<times> session" where
  "openManager env now path dir cwdOverride processCwd disk drawn =
     (let (header, preloaded, disk') =
            (case (cwdOverride, disk path) of
               (None, Some content) \<Rightarrow>
                 (case readSessionHeader (sv_decode env) path [] (file_reads content) of
                    Inr h \<Rightarrow> (h, None, disk)
                  | Inl _ \<Rightarrow>
                      (case loadEntriesFromFile (sv_decode env) [content] [] of
                         (entries, repair) \<Rightarrow>
                           (case entries of [] \<Rightarrow> None | e # _ \<Rightarrow> header_of e, Some entries,
                            if repair then disk(path \<mapsto> content @ [NL]) else disk)))
             | _ \<Rightarrow> (None, None, disk));
          cwd = (case cwdOverride of
                   Some c \<Rightarrow> c
                 | None \<Rightarrow> (case header of
                             None \<Rightarrow> processCwd
                           | Some h \<Rightarrow> (case sh_cwd h of None \<Rightarrow> processCwd | Some c \<Rightarrow> c)))
      in constructManager env now (Some path) NO_OPTIONS preloaded (blank_session cwd dir True disk' drawn))"

definition sessionCwdMatches :: "(string \<Rightarrow> string) \<Rightarrow> string option \<Rightarrow> string \<Rightarrow> bool" where
  "sessionCwdMatches resolve cwd resolvedCwd =
     (case cwd of None \<Rightarrow> False | Some c \<Rightarrow> c \<noteq> [] \<and> resolve c = resolvedCwd)"

definition ends_with :: "string \<Rightarrow> string \<Rightarrow> bool" where
  "ends_with ending t \<longleftrightarrow> length ending \<le> length t \<and> drop (length t - length ending) t = ending"

text \<open>\<open>listing\<close> is the directory's files with their modification times, or \<open>None\<close> when it cannot be read.\<close>

definition findMostRecentSession ::
  "session_env \<Rightarrow> (string \<Rightarrow> string) \<Rightarrow> string \<Rightarrow> (string \<times> int) list option \<Rightarrow> string option \<Rightarrow> disk \<Rightarrow> string option" where
  "findMostRecentSession env resolve dir listing cwd disk =
     (case listing of
        None \<Rightarrow> None
      | Some files \<Rightarrow>
          (let sessions = sort_key (\<lambda>f. - snd f)
                 (map (\<lambda>(file, mtime). (sv_joinPath env dir file, mtime)) (filter (\<lambda>f. ends_with ''.jsonl'' (fst f)) files));
               matches = (\<lambda>path. case (case disk path of None \<Rightarrow> None
                   | Some content \<Rightarrow> readSessionHeaderForDiscovery (sv_decode env) path [] (file_reads content)) of
                 None \<Rightarrow> False
               | Some h \<Rightarrow> (case cwd of None \<Rightarrow> True
                   | Some c \<Rightarrow> c = [] \<or> sessionCwdMatches resolve (sh_cwd h) (resolve c)))
           in List.find matches (map fst sessions)))"

text \<open>\<open>dir\<close> is the directory used, \<open>filterCwd\<close> whether it is one given besides the default.\<close>

definition continueRecent ::
  "session_env \<Rightarrow> (string \<Rightarrow> string) \<Rightarrow> int \<Rightarrow> string \<Rightarrow> string \<Rightarrow> bool \<Rightarrow> (string \<times> int) list option \<Rightarrow> disk \<Rightarrow> nat
     \<Rightarrow> unit exc \<times> session" where
  "continueRecent env resolve now cwd dir filterCwd listing disk drawn =
     (case findMostRecentSession env resolve dir listing (if filterCwd then Some cwd else None) disk of
        Some file \<Rightarrow> constructManager env now (Some file) NO_OPTIONS None (blank_session cwd dir True disk drawn)
      | None \<Rightarrow> constructManager env now None NO_OPTIONS None (blank_session cwd dir True disk drawn))"

definition findById ::
  "session_env \<Rightarrow> (string \<Rightarrow> string) \<Rightarrow> string \<Rightarrow> string \<Rightarrow> string \<Rightarrow> bool \<Rightarrow> string list option \<Rightarrow> disk \<Rightarrow> string option" where
  "findById env resolve cwd i dir filterCwd listing disk =
     (case listing of
        None \<Rightarrow> None
      | Some files \<Rightarrow>
          List.find (\<lambda>path. case (case disk path of None \<Rightarrow> None
               | Some content \<Rightarrow> readSessionHeaderForDiscovery (sv_decode env) path [] (file_reads content)) of
             None \<Rightarrow> False
           | Some h \<Rightarrow> sh_id h = i \<and> (filterCwd \<longrightarrow> sessionCwdMatches resolve (sh_cwd h) (resolve cwd)))
            (map (sv_joinPath env dir) (filter (ends_with ''.jsonl'') files)))"

text \<open>The fork writes the new header exclusively, appends the source's entries and opens the new file.\<close>

definition forkFrom ::
  "session_env \<Rightarrow> int \<Rightarrow> string \<Rightarrow> string \<Rightarrow> string \<Rightarrow> new_session_options \<Rightarrow> disk \<Rightarrow> nat \<Rightarrow> unit exc \<times> session" where
  "forkFrom env now source targetCwd dir opts disk drawn =
     (let (entries, repair) = (case disk source of
             None \<Rightarrow> ([], False) | Some content \<Rightarrow> loadEntriesFromFile (sv_decode env) [content] []);
          disk1 = (if repair then disk(source \<mapsto> the (disk source) @ [NL]) else disk);
          s = blank_session targetCwd dir True disk1 drawn
      in if entries = [] then (Inl (''Cannot fork: source session file is empty or invalid: '' @ source), s)
         else case find_header entries of
           None \<Rightarrow> (Inl (''Cannot fork: source session has no header: '' @ source), s)
         | Some _ \<Rightarrow>
             (case (case ns_id opts of None \<Rightarrow> Inr () | Some i \<Rightarrow> assertValidSessionId i) of
                Inl e \<Rightarrow> (Inl e, s)
              | Inr _ \<Rightarrow>
                  let (i, drawn') = (case ns_id opts of
                         Some i \<Rightarrow> (i, drawn) | None \<Rightarrow> (sv_sessionId env drawn, Suc drawn));
                      file = session_path env dir now i;
                      header = \<lparr>sh_version = Some CURRENT_SESSION_VERSION, sh_id = i, sh_timestamp = now,
                                sh_cwd = Some targetCwd, sh_parentSession = Some source\<rparr>
                  in if disk1 file \<noteq> None
                     then (Inl (''EEXIST: file already exists, open '' @ file), s\<lparr>ss_drawn := drawn'\<rparr>)
                     else constructManager env now (Some file) NO_OPTIONS None
                       (blank_session targetCwd dir True
                         (disk1(file \<mapsto> file_text env (HeaderEntry header # filter (\<lambda>fe. \<not> is_header fe) entries)))
                         drawn')))"

section \<open>A fork\<close>

lemma filter_entries: "filter (\<lambda>fe. \<not> is_header fe) (HeaderEntry h # map EntryLine es) = map EntryLine es"
  by (induction es) (simp_all add: is_header_def)

text \<open>
  C38: A fork of a session file holds exactly the entries of its source, in order, under a
  new header that names the source; its leaf is the last entry, so the model sees what it
  saw there; the source and all other files stay as they are. The entries are copied as
  they were parsed: those of an older format are not migrated, while the new header says
  the current version.
\<close>

theorem fork_copies_source:
  assumes "disk source = Some (file_text env (HeaderEntry h # map EntryLine es))"
    and "file = session_path env dir now (sv_sessionId env drawn)" and "file \<noteq> []" and "disk file = None"
    and "h' = \<lparr>sh_version = Some CURRENT_SESSION_VERSION, sh_id = sv_sessionId env drawn, sh_timestamp = now,
               sh_cwd = Some cwd, sh_parentSession = Some source\<rparr>"
    and "codec_ok env (HeaderEntry h # HeaderEntry h' # map EntryLine es)" and "distinct (map se_id es)"
  shows "\<exists>s. forkFrom env now source cwd dir NO_OPTIONS disk drawn = (Inr (), s) \<and>
     ss_fileEntries s = HeaderEntry h' # map EntryLine es \<and> getEntries s = es \<and> ss_sessionFile s = Some file \<and>
     ss_leafId s = (if es = [] then None else Some (se_id (last es))) \<and> ss_byId s = index_of es \<and>
     ss_cwd s = cwd \<and> ss_flushed s \<and>
     ss_disk s = disk(file \<mapsto> file_text env (HeaderEntry h' # map EntryLine es))"
proof -
  have c: "codec_ok env (HeaderEntry h # map EntryLine es)" "codec_ok env (HeaderEntry h' # map EntryLine es)"
    using assms(6) by (simp_all add: codec_ok_def)
  let ?disk = "disk(file \<mapsto> file_text env (HeaderEntry h' # map EntryLine es))"
  let ?s = "blank_session cwd dir True ?disk (Suc drawn)"
  have d: "ss_disk ?s file = Some (file_text env (HeaderEntry h' # map EntryLine es))" by (simp add: blank_session_def)
  have v: "sh_version h' = Some CURRENT_SESSION_VERSION" using assms(5) by simp
  have opts: "ns_id NO_OPTIONS = None" by (simp add: NO_OPTIONS_def)
  have find: "find_header (HeaderEntry h # map EntryLine es) = Some h"
    by (simp add: find_header_def List.map_filter_simps)
  have "forkFrom env now source cwd dir NO_OPTIONS disk drawn = setSessionFile env now file None ?s"
    using assms(1-4) load_file_text [OF c(1)] find filter_entries [of h es] assms(5)
    by (simp add: forkFrom_def constructManager_def opts Let_def)
  then show ?thesis using load_current_file [OF c(2) v assms(7) d, of now]
    by (simp add: blank_session_def getEntries_def)
qed

definition demo_fork_header :: session_header where
  "demo_fork_header =
     \<lparr>sh_version = Some CURRENT_SESSION_VERSION, sh_id = ''s'', sh_timestamp = 7, sh_cwd = Some ''q'',
      sh_parentSession = Some ''src''\<rparr>"

fun demo_fork_encode :: "file_entry \<Rightarrow> string" where
  "demo_fork_encode (HeaderEntry h) = (if sh_parentSession h = None then ''h'' else ''f'')"
| "demo_fork_encode (EntryLine e) = ''e'' @ se_id e"

definition demo_fork_env :: session_env where
  "demo_fork_env = demo_session_env\<lparr>sv_encode := demo_fork_encode,
     sv_decode := (\<lambda>l. if l = ''f'' then Some (HeaderEntry demo_fork_header) else sv_decode demo_session_env l)\<rparr>"

definition demo_fork_disk :: disk where
  "demo_fork_disk = (\<lambda>p. if p = ''src''
     then Some (file_text demo_fork_env (HeaderEntry demo_new_header # map EntryLine [demo_first])) else None)"

theorem fork_copies_source_witness:
  "\<exists>s. forkFrom demo_fork_env 7 ''src'' ''q'' ''e'' NO_OPTIONS demo_fork_disk 0 = (Inr (), s) \<and>
     getEntries s = [demo_first] \<and> ss_sessionFile s = Some ''e/t_s.jsonl''"
proof -
  have fname: "''e/t_s.jsonl'' = session_path demo_fork_env ''e'' 7 (sv_sessionId demo_fork_env 0)" by code_simp
  have d: "demo_fork_disk ''src'' =
      Some (file_text demo_fork_env (HeaderEntry demo_new_header # map EntryLine [demo_first]))"
    by (simp add: demo_fork_disk_def)
  have "codec_ok demo_fork_env (HeaderEntry demo_new_header # HeaderEntry demo_fork_header # map EntryLine [demo_first])"
    by (simp add: codec_ok_def demo_fork_env_def demo_session_env_def demo_first_def demo_new_header_def
        demo_fork_header_def js_trim_def js_trim_start_def js_trim_end_def is_js_space_def)
  moreover have "demo_fork_header = \<lparr>sh_version = Some CURRENT_SESSION_VERSION, sh_id = sv_sessionId demo_fork_env 0,
      sh_timestamp = 7, sh_cwd = Some ''q'', sh_parentSession = Some ''src''\<rparr>"
    by (simp add: demo_fork_header_def demo_fork_env_def demo_session_env_def)
  ultimately show ?thesis
    using fork_copies_source [of demo_fork_disk "''src''" demo_fork_env demo_new_header "[demo_first]"
      "''e/t_s.jsonl''" "''e''" 7 0 demo_fork_header "''q''", OF d fname]
    by (simp add: demo_fork_disk_def) blast
qed

end
