(* ===== verification/Text_Encoding.thy ===== *)
theory Text_Encoding
  imports Pi_Prelude "HOL-Library.Word"
begin

text \<open>
  JavaScript strings as the sequences of 16-bit code units they are, and their UTF-8 form:
  \<open>Buffer.from(s, "utf-8")\<close> and \<open>Buffer.byteLength(s, "utf-8")\<close>, which write a lone surrogate as
  U+FFFD, and the WHATWG decoder behind \<open>buffer.toString("utf-8")\<close> and \<open>TextDecoder\<close>, as a
  state machine over the bytes. The texts of messages and session files are HOL strings; this
  theory serves the tools whose limits are counted in bytes or code units.
\<close>

unbundle bit_operations_syntax

section \<open>Code units and scalar values\<close>

type_synonym text16 = "16 word list"
type_synonym bytes = "8 word list"

definition code_unit :: "nat \<Rightarrow> 16 word" where "code_unit n = of_nat n"
definition byte :: "nat \<Rightarrow> 8 word" where "byte n = of_nat n"

definition js :: "string \<Rightarrow> text16" where
  "js s = map of_char s"

definition LF16 :: "16 word" where "LF16 = 0x0A"
definition CR16 :: "16 word" where "CR16 = 0x0D"

definition high_surrogate :: "16 word \<Rightarrow> bool" where
  "high_surrogate u \<longleftrightarrow> 0xD800 \<le> u \<and> u \<le> 0xDBFF"

definition low_surrogate :: "16 word \<Rightarrow> bool" where
  "low_surrogate u \<longleftrightarrow> 0xDC00 \<le> u \<and> u \<le> 0xDFFF"

definition REPLACEMENT :: nat where "REPLACEMENT = 0xFFFD"

definition scalar :: "nat \<Rightarrow> bool" where
  "scalar c \<longleftrightarrow> c < 0xD800 \<or> (0xE000 \<le> c \<and> c < 0x110000)"

definition combine :: "16 word \<Rightarrow> 16 word \<Rightarrow> nat" where
  "combine h l = 0x10000 + (unat h - 0xD800) * 0x400 + (unat l - 0xDC00)"

fun scalars :: "text16 \<Rightarrow> nat list" where
  "scalars [] = []"
| "scalars (u # us) =
     (if high_surrogate u
      then (case us of
              v # vs \<Rightarrow> if low_surrogate v then combine u v # scalars vs else REPLACEMENT # scalars us
            | [] \<Rightarrow> [REPLACEMENT])
      else if low_surrogate u then REPLACEMENT # scalars us
      else unat u # scalars us)"

definition units_of :: "nat \<Rightarrow> text16" where
  "units_of c =
     (if c < 0x10000 then [code_unit c]
      else [code_unit (0xD800 + (c - 0x10000) div 0x400), code_unit (0xDC00 + (c - 0x10000) mod 0x400)])"

definition from_scalars :: "nat list \<Rightarrow> text16" where
  "from_scalars cs = concat (map units_of cs)"

text \<open>No surrogate stands alone.\<close>

fun well_formed :: "text16 \<Rightarrow> bool" where
  "well_formed [] = True"
| "well_formed (u # us) =
     (if high_surrogate u
      then (case us of v # vs \<Rightarrow> low_surrogate v \<and> well_formed vs | [] \<Rightarrow> False)
      else \<not> low_surrogate u \<and> well_formed us)"

section \<open>Encoding\<close>

definition utf8_char :: "nat \<Rightarrow> bytes" where
  "utf8_char c =
     (if c < 0x80 then [byte c]
      else if c < 0x800 then [byte (0xC0 + c div 0x40), byte (0x80 + c mod 0x40)]
      else if c < 0x10000
      then [byte (0xE0 + c div 0x1000), byte (0x80 + c div 0x40 mod 0x40), byte (0x80 + c mod 0x40)]
      else [byte (0xF0 + c div 0x40000), byte (0x80 + c div 0x1000 mod 0x40),
            byte (0x80 + c div 0x40 mod 0x40), byte (0x80 + c mod 0x40)])"

definition utf8_scalars :: "nat list \<Rightarrow> bytes" where
  "utf8_scalars cs = concat (map utf8_char cs)"

definition utf8_encode :: "text16 \<Rightarrow> bytes" where
  "utf8_encode s = utf8_scalars (scalars s)"

definition byteLength :: "text16 \<Rightarrow> nat" where
  "byteLength s = length (utf8_encode s)"

definition is_continuation :: "8 word \<Rightarrow> bool" where
  "is_continuation b \<longleftrightarrow> b AND 0xC0 = 0x80"

section \<open>Decoding\<close>

text \<open>
  The decoder is idle or inside a sequence: the code point so far, how many bytes are needed
  and between which bounds the next one lies. A byte out of bounds ends the sequence with
  U+FFFD and is read again from the idle state.
\<close>

datatype decoder = Idle | Inside (partial_point: nat) (needed: nat) (lower: nat) (upper: nat)

definition decode_idle :: "nat \<Rightarrow> decoder \<times> nat list" where
  "decode_idle b =
     (if b < 0x80 then (Idle, [b])
      else if 0xC2 \<le> b \<and> b \<le> 0xDF then (Inside (b - 0xC0) 1 0x80 0xBF, [])
      else if 0xE0 \<le> b \<and> b \<le> 0xEF
      then (Inside (b - 0xE0) 2 (if b = 0xE0 then 0xA0 else 0x80) (if b = 0xED then 0x9F else 0xBF), [])
      else if 0xF0 \<le> b \<and> b \<le> 0xF4
      then (Inside (b - 0xF0) 3 (if b = 0xF0 then 0x90 else 0x80) (if b = 0xF4 then 0x8F else 0xBF), [])
      else (Idle, [REPLACEMENT]))"

fun decode_byte :: "decoder \<Rightarrow> nat \<Rightarrow> decoder \<times> nat list" where
  "decode_byte Idle b = decode_idle b"
| "decode_byte (Inside c n lo hi) b =
     (if lo \<le> b \<and> b \<le> hi
      then (if n \<le> 1 then (Idle, [c * 0x40 + (b - 0x80)])
            else (Inside (c * 0x40 + (b - 0x80)) (n - 1) 0x80 0xBF, []))
      else (case decode_idle b of (d, cs) \<Rightarrow> (d, REPLACEMENT # cs)))"

fun decode_bytes :: "decoder \<Rightarrow> bytes \<Rightarrow> decoder \<times> nat list" where
  "decode_bytes d [] = (d, [])"
| "decode_bytes d (b # bs) =
     (case decode_byte d (unat b) of
        (d', cs) \<Rightarrow> (case decode_bytes d' bs of (d'', cs') \<Rightarrow> (d'', cs @ cs')))"

fun decode_flush :: "decoder \<Rightarrow> nat list" where
  "decode_flush Idle = []"
| "decode_flush (Inside c n lo hi) = [REPLACEMENT]"

definition utf8_decode :: "bytes \<Rightarrow> text16" where
  "utf8_decode bs = (case decode_bytes Idle bs of (d, cs) \<Rightarrow> from_scalars (cs @ decode_flush d))"

section \<open>Round trips\<close>

lemma unat_byte [simp]: "n < 0x100 \<Longrightarrow> unat (byte n) = n"
  by (simp add: byte_def unat_of_nat)

lemma unat_code_unit [simp]: "n < 0x10000 \<Longrightarrow> unat (code_unit n) = n"
  by (simp add: code_unit_def unat_of_nat)

lemma code_unit_unat [simp]: "code_unit (unat u) = u"
  by (simp add: code_unit_def)

lemma high_surrogate_unat: "high_surrogate u \<longleftrightarrow> 0xD800 \<le> unat u \<and> unat u \<le> 0xDBFF"
  by (simp add: high_surrogate_def word_le_nat_alt)

lemma low_surrogate_unat: "low_surrogate u \<longleftrightarrow> 0xDC00 \<le> unat u \<and> unat u \<le> 0xDFFF"
  by (simp add: low_surrogate_def word_le_nat_alt)

lemma high_not_low: "high_surrogate u \<Longrightarrow> \<not> low_surrogate u"
  by (simp add: high_surrogate_unat low_surrogate_unat)

lemma unat_unit_bound: "unat (u :: 16 word) < 0x10000"
  using unsigned_less [of u] by simp

lemma combine_scalar: "high_surrogate h \<Longrightarrow> low_surrogate l \<Longrightarrow> scalar (combine h l)"
  by (auto simp: high_surrogate_unat low_surrogate_unat combine_def scalar_def)

lemma scalars_pair [simp]:
  "high_surrogate h \<Longrightarrow> low_surrogate l \<Longrightarrow> scalars (h # l # s) = combine h l # scalars s"
  "high_surrogate h \<Longrightarrow> low_surrogate l \<Longrightarrow> well_formed (h # l # s) = well_formed s"
  by simp_all

lemma scalars_plain [simp]:
  "\<not> high_surrogate u \<Longrightarrow> \<not> low_surrogate u \<Longrightarrow> scalars (u # s) = unat u # scalars s"
  "\<not> high_surrogate u \<Longrightarrow> \<not> low_surrogate u \<Longrightarrow> well_formed (u # s) = well_formed s"
  by simp_all

text \<open>A surrogate that is not part of a pair, before the rest \<open>s\<close> of its string.\<close>

definition stands_alone :: "16 word \<Rightarrow> text16 \<Rightarrow> bool" where
  "stands_alone u s \<longleftrightarrow> low_surrogate u \<or> (high_surrogate u \<and> (s = [] \<or> \<not> low_surrogate (hd s)))"

lemma scalars_alone [simp]:
  "stands_alone u s \<Longrightarrow> scalars (u # s) = REPLACEMENT # scalars s"
  "stands_alone u s \<Longrightarrow> \<not> well_formed (u # s)"
  using high_not_low [of u] by (cases s; simp add: stands_alone_def; blast)+

lemma text16_induct [case_names Nil pair lone plain]:
  assumes "P []"
    and "\<And>h l s. high_surrogate h \<Longrightarrow> low_surrogate l \<Longrightarrow> P s \<Longrightarrow> P (h # l # s)"
    and "\<And>u s. stands_alone u s \<Longrightarrow> P s \<Longrightarrow> P (u # s)"
    and "\<And>u s. \<not> high_surrogate u \<Longrightarrow> \<not> low_surrogate u \<Longrightarrow> P s \<Longrightarrow> P (u # s)"
  shows "P s"
proof (induction s rule: length_induct)
  case (1 s)
  show ?case
  proof (cases s)
    case Nil
    then show ?thesis using assms(1) by simp
  next
    case (Cons u us)
    then have IH: "P us" "\<And>v vs. us = v # vs \<Longrightarrow> P vs"
      using 1 by auto
    show ?thesis
    proof (cases "high_surrogate u")
      case high: True
      show ?thesis
      proof (cases us)
        case Nil
        then show ?thesis using assms(3) [of u us] high IH Cons by (simp add: stands_alone_def)
      next
        case (Cons v vs)
        then show ?thesis
          using assms(2) [of u v vs] assms(3) [of u us] high IH \<open>s = u # us\<close>
          by (cases "low_surrogate v") (simp_all add: stands_alone_def)
      qed
    next
      case False
      then show ?thesis
        using assms(3) [of u us] assms(4) [of u us] IH Cons
        by (cases "low_surrogate u") (simp_all add: stands_alone_def)
    qed
  qed
qed

declare scalars.simps(2) [simp del] well_formed.simps(2) [simp del]

lemma scalar_plain: "\<not> high_surrogate u \<Longrightarrow> \<not> low_surrogate u \<Longrightarrow> scalar (unat u)"
  using unat_unit_bound [of u] by (auto simp: high_surrogate_unat low_surrogate_unat scalar_def)

lemma scalar_replacement: "scalar REPLACEMENT"
  by (simp add: REPLACEMENT_def scalar_def)

lemma scalars_scalar: "\<forall>c\<in>set (scalars s). scalar c"
proof (induction s rule: text16_induct)
  case (pair h l s)
  then show ?case by (simp add: combine_scalar)
next
  case (lone u s)
  then show ?case by (simp add: scalar_replacement)
next
  case (plain u s)
  then show ?case by (simp add: scalar_plain)
qed simp

lemma units_of_combine:
  assumes "high_surrogate h" "low_surrogate l"
  shows "units_of (combine h l) = [h, l]"
proof -
  define x y where "x = unat h - 0xD800" and "y = unat l - 0xDC00"
  have h: "unat h = x + 0xD800" and l: "unat l = y + 0xDC00" and y: "y < 0x400"
    using assms by (auto simp: high_surrogate_unat low_surrogate_unat x_def y_def)
  have c: "combine h l = 0x10000 + (x * 0x400 + y)"
    by (simp add: combine_def x_def y_def)
  have "code_unit (0xD800 + x) = h" "code_unit (0xDC00 + y) = l"
    using h l by (metis add.commute code_unit_unat)+
  then show ?thesis
    using y by (simp add: units_of_def c)
qed

lemma from_scalars_scalars: "well_formed s \<Longrightarrow> from_scalars (scalars s) = s"
proof (induction s rule: text16_induct)
  case (pair h l s)
  then show ?case by (simp add: from_scalars_def units_of_combine)
next
  case (plain u s)
  then show ?case
    using unat_unit_bound [of u] by (simp add: from_scalars_def units_of_def)
qed (simp_all add: from_scalars_def)

lemma scalars_units_of:
  assumes "scalar c"
  shows "scalars (units_of c @ s) = c # scalars s" and "well_formed (units_of c @ s) = well_formed s"
proof -
  have "scalars (units_of c @ s) = c # scalars s \<and> well_formed (units_of c @ s) = well_formed s"
  proof (cases "c < 0x10000")
    case True
    with assms show ?thesis
      by (auto simp: units_of_def scalar_def high_surrogate_unat low_surrogate_unat)
  next
    case False
    define d where "d = c - 0x10000"
    have c: "c = 0x10000 + d" and d: "d < 0x100000"
      using False assms by (auto simp: d_def scalar_def)
    have q: "d div 0x400 < 0x400" "d mod 0x400 < 0x400"
      using d by auto
    then show ?thesis
      using False q
      by (simp add: units_of_def c high_surrogate_unat low_surrogate_unat combine_def div_mult_mod_eq)
  qed
  then show "scalars (units_of c @ s) = c # scalars s" "well_formed (units_of c @ s) = well_formed s"
    by simp_all
qed

lemma scalars_from_scalars: "\<forall>c\<in>set cs. scalar c \<Longrightarrow> scalars (from_scalars cs) = cs"
  by (induction cs) (simp_all add: from_scalars_def scalars_units_of)

lemma well_formed_from_scalars: "\<forall>c\<in>set cs. scalar c \<Longrightarrow> well_formed (from_scalars cs)"
  by (induction cs) (simp_all add: from_scalars_def scalars_units_of)

lemma from_scalars_append: "from_scalars (cs @ ds) = from_scalars cs @ from_scalars ds"
  by (simp add: from_scalars_def)

lemma utf8_scalars_append: "utf8_scalars (cs @ ds) = utf8_scalars cs @ utf8_scalars ds"
  by (simp add: utf8_scalars_def)

lemma decode_bytes_append:
  "decode_bytes d (as @ bs) =
     (case decode_bytes d as of (d', cs) \<Rightarrow> (case decode_bytes d' bs of (d'', cs') \<Rightarrow> (d'', cs @ cs')))"
  by (induction as arbitrary: d) (simp_all split: prod.split)

text \<open>The four encoded lengths, as base-64 digits of the code point.\<close>

lemma digits2: "(c::nat) div 0x40 * 0x40 + c mod 0x40 = c"
  by simp

lemma digits3: "((c::nat) div 0x1000 * 0x40 + c div 0x40 mod 0x40) * 0x40 + c mod 0x40 = c"
proof -
  have "c div 0x1000 = c div 0x40 div 0x40" by (simp flip: div_mult2_eq)
  then show ?thesis by simp
qed

lemma digits4:
  "(((c::nat) div 0x40000 * 0x40 + c div 0x1000 mod 0x40) * 0x40 + c div 0x40 mod 0x40) * 0x40 + c mod 0x40 = c"
proof -
  have "c div 0x1000 = c div 0x40 div 0x40" "c div 0x40000 = c div 0x40 div 0x40 div 0x40"
    by (simp_all flip: div_mult2_eq)
  then show ?thesis by simp
qed

lemma decode_utf8_char:
  assumes "scalar c"
  shows "decode_bytes Idle (utf8_char c) = (Idle, [c])"
proof -
  consider "c < 0x80" | "0x80 \<le> c" "c < 0x800" | "0x800 \<le> c" "c < 0x10000"
    | "0x10000 \<le> c" "c < 0x110000"
    using assms by (fastforce simp: scalar_def)
  then show ?thesis
  proof cases
    case 1
    then show ?thesis by (simp add: utf8_char_def decode_idle_def)
  next
    case 2
    define q r where "q = c div 0x40" and "r = c mod 0x40"
    have "2 \<le> q" "q < 0x20" "r < 0x40" "q * 0x40 + r = c"
      using 2 by (auto simp: q_def r_def)
    with 2 show ?thesis
      by (simp add: utf8_char_def decode_idle_def flip: q_def r_def)
  next
    case 3
    define p q r where "p = c div 0x1000" and "q = c div 0x40 mod 0x40" and "r = c mod 0x40"
    have b: "p < 0x10" "q < 0x40" "r < 0x40" and c: "(p * 0x40 + q) * 0x40 + r = c"
      using 3 digits3 [of c] by (auto simp: p_def q_def r_def)
    have "p = 0 \<Longrightarrow> 0x20 \<le> q" "p = 0x0D \<Longrightarrow> q < 0x20"
      using 3 c b assms by (auto simp: scalar_def)
    with 3 b c show ?thesis
      by (auto simp: utf8_char_def decode_idle_def simp flip: p_def q_def r_def)
  next
    case 4
    define n p q r where "n = c div 0x40000" and "p = c div 0x1000 mod 0x40"
      and "q = c div 0x40 mod 0x40" and "r = c mod 0x40"
    have b: "n \<le> 4" "p < 0x40" "q < 0x40" "r < 0x40" and c: "((n * 0x40 + p) * 0x40 + q) * 0x40 + r = c"
      using 4 digits4 [of c] by (auto simp: n_def p_def q_def r_def)
    have "n = 0 \<Longrightarrow> 0x10 \<le> p" "n = 4 \<Longrightarrow> p < 0x10"
      using 4 c b by auto
    with 4 b c show ?thesis
      by (auto simp: utf8_char_def decode_idle_def simp flip: n_def p_def q_def r_def)
  qed
qed

lemma decode_utf8_scalars:
  "\<forall>c\<in>set cs. scalar c \<Longrightarrow> decode_bytes Idle (utf8_scalars cs) = (Idle, cs)"
  by (induction cs) (simp_all add: utf8_scalars_def decode_bytes_append decode_utf8_char)

lemma utf8_decode_scalars: "\<forall>c\<in>set cs. scalar c \<Longrightarrow> utf8_decode (utf8_scalars cs) = from_scalars cs"
  by (simp add: utf8_decode_def decode_utf8_scalars)

lemma utf8_encode_from_scalars: "\<forall>c\<in>set cs. scalar c \<Longrightarrow> utf8_encode (from_scalars cs) = utf8_scalars cs"
  by (simp add: utf8_encode_def scalars_from_scalars)

lemma utf8_decode_encode: "well_formed s \<Longrightarrow> utf8_decode (utf8_encode s) = s"
  by (simp add: utf8_encode_def utf8_decode_scalars scalars_scalar from_scalars_scalars)

section \<open>Decoding any bytes\<close>

text \<open>Every code point a sequence under way can still end in is a scalar value.\<close>

fun sound_decoder :: "decoder \<Rightarrow> bool" where
  "sound_decoder Idle = True"
| "sound_decoder (Inside c n lo hi) \<longleftrightarrow>
     n \<in> {1, 2, 3} \<and> 0x80 \<le> lo \<and> hi \<le> 0xBF
     \<and> (\<forall>v. (c * 0x40 + (lo - 0x80)) * 0x40 ^ (n - 1) \<le> v
          \<and> v < (c * 0x40 + (hi - 0x80) + 1) * 0x40 ^ (n - 1) \<longrightarrow> scalar v)"

lemma decode_idle_sound:
  "decode_idle b = (d, cs) \<Longrightarrow> sound_decoder d \<and> (\<forall>c\<in>set cs. scalar c)"
proof -
  assume step: "decode_idle b = (d, cs)"
  consider "b < 0x80" | "0xC2 \<le> b" "b \<le> 0xDF" | "b = 0xE0" | "b = 0xED" | "0xE1 \<le> b" "b \<le> 0xEC"
    | "b = 0xEE \<or> b = 0xEF" | "b = 0xF0" | "b = 0xF4" | "0xF1 \<le> b" "b \<le> 0xF3"
    | "0x80 \<le> b" "b < 0xC2 \<or> 0xF4 < b"
    by arith
  then show ?thesis
    using step by cases (auto simp: decode_idle_def scalar_def REPLACEMENT_def)
qed

lemma decode_byte_sound:
  assumes "sound_decoder d" "decode_byte d b = (d', cs)"
  shows "sound_decoder d' \<and> (\<forall>c\<in>set cs. scalar c)"
proof (cases d)
  case Idle
  then show ?thesis using assms decode_idle_sound by simp
next
  case (Inside c n lo hi)
  show ?thesis
  proof (cases "lo \<le> b \<and> b \<le> hi")
    case False
    then show ?thesis
      using assms Inside decode_idle_sound scalar_replacement by (auto split: prod.splits)
  next
    case True
    define c' where "c' = c * 0x40 + (b - 0x80)"
    have c': "scalar v" if "c' * 0x40 ^ (n - 1) \<le> v" "v < (c' + 1) * 0x40 ^ (n - 1)" for v
    proof -
      have "(c * 0x40 + (lo - 0x80)) * 0x40 ^ (n - 1) \<le> c' * 0x40 ^ (n - 1)"
           "(c' + 1) * 0x40 ^ (n - 1) \<le> (c * 0x40 + (hi - 0x80) + 1) * 0x40 ^ (n - 1)"
        using True by (simp_all add: c'_def diff_le_mono)
      with that assms(1) show ?thesis
        unfolding Inside by (auto intro: order_trans less_le_trans)
    qed
    show ?thesis
      using assms True Inside c' [of c'] c' by (auto simp flip: c'_def split: if_splits)
  qed
qed

lemma decode_bytes_sound:
  "sound_decoder d \<Longrightarrow> decode_bytes d bs = (d', cs) \<Longrightarrow> sound_decoder d' \<and> (\<forall>c\<in>set cs. scalar c)"
proof (induction bs arbitrary: d cs)
  case (Cons b bs)
  obtain d1 cs1 where 1: "decode_byte d (unat b) = (d1, cs1)" by fastforce
  obtain cs2 where 2: "decode_bytes d1 bs = (d', cs2)"
    using Cons.prems(2) 1 by (auto split: prod.splits)
  have "sound_decoder d1 \<and> (\<forall>c\<in>set cs1. scalar c)"
    using decode_byte_sound [OF Cons.prems(1) 1] .
  moreover from this have "sound_decoder d' \<and> (\<forall>c\<in>set cs2. scalar c)"
    using Cons.IH 2 by blast
  ultimately show ?case
    using Cons.prems(2) 1 2 by auto
qed simp

lemma decode_flush_sound: "\<forall>c\<in>set (decode_flush d). scalar c"
  by (cases d) (simp_all add: scalar_replacement)

text \<open>
  A \<open>TextDecoder\<close>: \<open>decode(data, {stream: true})\<close> keeps an incomplete sequence for the next
  call, \<open>decode(data)\<close> flushes it and starts over; a byte order mark at the start is dropped.
\<close>

record text_decoder =
  td_state :: decoder
  td_bomSeen :: bool

definition new_text_decoder :: text_decoder where
  "new_text_decoder = \<lparr>td_state = Idle, td_bomSeen = False\<rparr>"

fun drop_bom :: "bool \<Rightarrow> nat list \<Rightarrow> bool \<times> nat list" where
  "drop_bom True cs = (True, cs)"
| "drop_bom False [] = (False, [])"
| "drop_bom False (c # cs) = (True, if c = 0xFEFF then cs else c # cs)"

definition decode_stream :: "text_decoder \<Rightarrow> bytes \<Rightarrow> text16 \<times> text_decoder" where
  "decode_stream td data =
     (case decode_bytes (td_state td) data of
        (d, cs) \<Rightarrow> (case drop_bom (td_bomSeen td) cs of
                     (seen, cs') \<Rightarrow> (from_scalars cs', \<lparr>td_state = d, td_bomSeen = seen\<rparr>)))"

definition decode_all :: "text_decoder \<Rightarrow> bytes \<Rightarrow> text16 \<times> text_decoder" where
  "decode_all td data =
     (case decode_bytes (td_state td) data of
        (d, cs) \<Rightarrow> (from_scalars (snd (drop_bom (td_bomSeen td) (cs @ decode_flush d))), new_text_decoder))"

lemma drop_bom_append:
  "drop_bom seen (as @ bs) =
     (case drop_bom seen as of (seen', as') \<Rightarrow> (case drop_bom seen' bs of (seen'', bs') \<Rightarrow> (seen'', as' @ bs')))"
  by (cases "(seen, as)" rule: drop_bom.cases) (simp_all split: prod.split)

lemma drop_bom_scalar: "\<forall>c\<in>set cs. scalar c \<Longrightarrow> \<forall>c\<in>set (snd (drop_bom seen cs)). scalar c"
  by (cases "(seen, cs)" rule: drop_bom.cases) auto

section \<open>Character boundaries\<close>

lemma continuation_table:
  "list_all (\<lambda>n. ((of_nat n :: 8 word) AND 0xC0 = 0x80) = (n div 0x40 = 2)) [0..<0x100]"
  by code_simp

lemma is_continuation_byte [simp]: "n < 0x100 \<Longrightarrow> is_continuation (byte n) \<longleftrightarrow> n div 0x40 = 2"
  using continuation_table by (simp add: list_all_iff is_continuation_def byte_def)

lemma utf8_char_shape:
  assumes "scalar c"
  shows "\<exists>b bs. utf8_char c = b # bs \<and> \<not> is_continuation b \<and> (\<forall>x\<in>set bs. is_continuation x)"
proof -
  have "c < 0x110000" using assms by (auto simp: scalar_def)
  then have "c div 0x40000 \<le> 4" by simp
  then show ?thesis
    by (auto simp: utf8_char_def)
qed

lemma boundary_split:
  assumes "\<forall>c\<in>set cs. scalar c" "i \<le> length (utf8_scalars cs)"
    and "i = length (utf8_scalars cs) \<or> \<not> is_continuation (utf8_scalars cs ! i)"
  shows "\<exists>k\<le>length cs. take i (utf8_scalars cs) = utf8_scalars (take k cs)
                     \<and> drop i (utf8_scalars cs) = utf8_scalars (drop k cs)"
  using assms
proof (induction cs arbitrary: i)
  case (Cons c cs)
  obtain b bs where c: "utf8_char c = b # bs" "\<forall>x\<in>set bs. is_continuation x"
    using utf8_char_shape [of c] Cons.prems by auto
  have u: "utf8_scalars (c # cs) = (b # bs) @ utf8_scalars cs"
    by (simp add: utf8_scalars_def c)
  show ?case
  proof (cases "i = 0")
    case True
    then show ?thesis by (intro exI [of _ 0]) (simp add: utf8_scalars_def)
  next
    case False
    have i: "length (b # bs) \<le> i"
    proof (rule ccontr)
      assume "\<not> length (b # bs) \<le> i"
      then obtain j where "i = Suc j" "j < length bs" using False by (cases i) auto
      then show False
        using Cons.prems(3) c(2) by (auto simp: u nth_append)
    qed
    define j where "j = i - length (b # bs)"
    have "i = length (b # bs) + j" using i by (simp add: j_def)
    moreover from this Cons.prems have "\<exists>k\<le>length cs. take j (utf8_scalars cs) = utf8_scalars (take k cs)
                     \<and> drop j (utf8_scalars cs) = utf8_scalars (drop k cs)"
      by (intro Cons.IH) (simp_all add: u nth_append)
    then obtain k where "k \<le> length cs" "take j (utf8_scalars cs) = utf8_scalars (take k cs)"
      "drop j (utf8_scalars cs) = utf8_scalars (drop k cs)" by blast
    ultimately show ?thesis
      by (intro exI [of _ "Suc k"]) (simp add: u, simp add: utf8_scalars_def c)
  qed
qed (simp add: utf8_scalars_def)

section \<open>Lengths in bytes\<close>

lemma byteLength_Nil [simp]: "byteLength [] = 0"
  by (simp add: byteLength_def utf8_encode_def utf8_scalars_def)

lemma byteLength_from_scalars:
  "\<forall>c\<in>set cs. scalar c \<Longrightarrow> byteLength (from_scalars cs) = length (utf8_scalars cs)"
  by (simp add: byteLength_def utf8_encode_from_scalars)

lemma LF16_plain [simp]: "\<not> high_surrogate LF16" "\<not> low_surrogate LF16"
  by (simp_all add: LF16_def high_surrogate_unat low_surrogate_unat)

lemma unat_LF16 [simp]: "unat LF16 = 0x0A"
  by (simp add: LF16_def)

lemma scalars_append_LF: "scalars (a @ LF16 # b) = scalars a @ 0x0A # scalars b"
proof (induction a rule: text16_induct)
  case (lone u s)
  then have "stands_alone u (s @ LF16 # b)"
    by (auto simp: stands_alone_def hd_append)
  with lone show ?case by simp
qed simp_all

lemma well_formed_append_LF: "well_formed (a @ LF16 # b) \<longleftrightarrow> well_formed a \<and> well_formed b"
proof (induction a rule: text16_induct)
  case (lone u s)
  then have "stands_alone u (s @ LF16 # b)"
    by (auto simp: stands_alone_def hd_append)
  with lone show ?case by simp
qed simp_all

lemma byteLength_append_LF: "byteLength (a @ LF16 # b) = byteLength a + 1 + byteLength b"
  by (simp add: byteLength_def utf8_encode_def scalars_append_LF utf8_scalars_append)
     (simp add: utf8_scalars_def utf8_char_def)

lemma byteLength_join:
  "byteLength (js_join [LF16] ls) = sum_list (map byteLength ls) + (length ls - 1)"
proof (induction ls)
  case (Cons l ls)
  then show ?case by (cases ls) (simp_all add: byteLength_append_LF)
qed simp

end
