(* ===== verification/Truncate.thy ===== *)
theory Truncate
  imports Text_Encoding
begin

text \<open>
  Truncation of tool output (\<open>packages/coding-agent/src/core/tools/truncate.ts\<close>): whole lines
  from the start or from the end within a line and a byte limit, the start and the end of a
  text around a marker, and single lines. Limits are natural numbers.
\<close>

section \<open>The operations\<close>

datatype limit = LineLimit | ByteLimit

record truncation_result =
  tr_content :: text16
  tr_truncated :: bool
  tr_truncatedBy :: "limit option"
  tr_totalLines :: nat
  tr_totalBytes :: nat
  tr_outputLines :: nat
  tr_outputBytes :: nat
  tr_lastLinePartial :: bool
  tr_firstLineExceedsLimit :: bool
  tr_maxLines :: nat
  tr_maxBytes :: nat

record truncation_options =
  to_maxLines :: "nat option"
  to_maxBytes :: "nat option"

definition DEFAULT_MAX_LINES :: nat where "DEFAULT_MAX_LINES = 2000"
definition DEFAULT_MAX_BYTES :: nat where "DEFAULT_MAX_BYTES = 50 * 1024"
definition GREP_MAX_LINE_LENGTH :: nat where "GREP_MAX_LINE_LENGTH = 500"

definition max_lines :: "truncation_options \<Rightarrow> nat" where
  "max_lines options = (case to_maxLines options of Some n \<Rightarrow> n | None \<Rightarrow> DEFAULT_MAX_LINES)"

definition max_bytes :: "truncation_options \<Rightarrow> nat" where
  "max_bytes options = (case to_maxBytes options of Some n \<Rightarrow> n | None \<Rightarrow> DEFAULT_MAX_BYTES)"

definition splitLinesForCounting :: "text16 \<Rightarrow> text16 list" where
  "splitLinesForCounting content =
     (if content = [] then []
      else if last content = LF16 then butlast (split_on LF16 content)
      else split_on LF16 content)"

text \<open>The decimal rendering of \<open>n / d\<close> with one digit after the point, \<open>(n / d).toFixed(1)\<close>.\<close>

definition toFixed1 :: "nat \<Rightarrow> nat \<Rightarrow> string" where
  "toFixed1 n d = (let tenths = (20 * n + d) div (2 * d) in dec (tenths div 10) @ ''.'' @ dec (tenths mod 10))"

definition formatSize :: "nat \<Rightarrow> string" where
  "formatSize bs =
     (if bs < 1024 then dec bs @ ''B''
      else if bs < 1024 * 1024 then toFixed1 bs 1024 @ ''KB''
      else toFixed1 bs (1024 * 1024) @ ''MB'')"

definition untruncated :: "text16 \<Rightarrow> nat \<Rightarrow> nat \<Rightarrow> nat \<Rightarrow> nat \<Rightarrow> truncation_result" where
  "untruncated content totalLines totalBytes maxLines maxBytes =
     \<lparr>tr_content = content, tr_truncated = False, tr_truncatedBy = None,
      tr_totalLines = totalLines, tr_totalBytes = totalBytes,
      tr_outputLines = totalLines, tr_outputBytes = totalBytes,
      tr_lastLinePartial = False, tr_firstLineExceedsLimit = False,
      tr_maxLines = maxLines, tr_maxBytes = maxBytes\<rparr>"

fun collect_head :: "nat \<Rightarrow> nat \<Rightarrow> text16 list \<Rightarrow> nat \<Rightarrow> text16 list \<Rightarrow> text16 list \<times> nat \<times> limit" where
  "collect_head maxLines maxBytes out count [] = (out, count, LineLimit)"
| "collect_head maxLines maxBytes out count (line # rest) =
     (if \<not> length out < maxLines then (out, count, LineLimit)
      else let lineBytes = byteLength line + (if length out > 0 then 1 else 0)
           in if count + lineBytes > maxBytes then (out, count, ByteLimit)
              else collect_head maxLines maxBytes (out @ [line]) (count + lineBytes) rest)"

definition truncateHead :: "text16 \<Rightarrow> truncation_options \<Rightarrow> truncation_result" where
  "truncateHead content options =
     (let maxLines = max_lines options; maxBytes = max_bytes options;
          totalBytes = byteLength content;
          lines = splitLinesForCounting content; totalLines = length lines
      in if totalLines \<le> maxLines \<and> totalBytes \<le> maxBytes
         then untruncated content totalLines totalBytes maxLines maxBytes
         else if byteLength (hd lines) > maxBytes
         then \<lparr>tr_content = [], tr_truncated = True, tr_truncatedBy = Some ByteLimit,
               tr_totalLines = totalLines, tr_totalBytes = totalBytes,
               tr_outputLines = 0, tr_outputBytes = 0,
               tr_lastLinePartial = False, tr_firstLineExceedsLimit = True,
               tr_maxLines = maxLines, tr_maxBytes = maxBytes\<rparr>
         else (case collect_head maxLines maxBytes [] 0 lines of (out, count, hit) \<Rightarrow>
                 \<lparr>tr_content = js_join [LF16] out, tr_truncated = True,
                  tr_truncatedBy =
                    Some (if length out \<ge> maxLines \<and> count \<le> maxBytes then LineLimit else hit),
                  tr_totalLines = totalLines, tr_totalBytes = totalBytes,
                  tr_outputLines = length out, tr_outputBytes = byteLength (js_join [LF16] out),
                  tr_lastLinePartial = False, tr_firstLineExceedsLimit = False,
                  tr_maxLines = maxLines, tr_maxBytes = maxBytes\<rparr>))"

function boundary_after :: "bytes \<Rightarrow> nat \<Rightarrow> nat" where
  "boundary_after buf start =
     (if start < length buf \<and> is_continuation (buf ! start) then boundary_after buf (start + 1) else start)"
  by pat_completeness auto
termination
  by (relation "measure (\<lambda>(buf, start). length buf - start)") auto

definition truncateStringToBytesFromEnd :: "text16 \<Rightarrow> nat \<Rightarrow> text16" where
  "truncateStringToBytesFromEnd str maxBytes =
     (let buf = utf8_encode str
      in if length buf \<le> maxBytes then str
         else utf8_decode (drop (boundary_after buf (length buf - maxBytes)) buf))"

text \<open>The lines come last first.\<close>

fun collect_tail ::
  "nat \<Rightarrow> nat \<Rightarrow> text16 list \<Rightarrow> nat \<Rightarrow> text16 list \<Rightarrow> text16 list \<times> nat \<times> limit \<times> bool" where
  "collect_tail maxLines maxBytes out count [] = (out, count, LineLimit, False)"
| "collect_tail maxLines maxBytes out count (line # earlier) =
     (if \<not> length out < maxLines then (out, count, LineLimit, False)
      else let lineBytes = byteLength line + (if length out > 0 then 1 else 0)
           in if count + lineBytes > maxBytes
              then if out = []
                   then let truncatedLine = truncateStringToBytesFromEnd line maxBytes
                        in ([truncatedLine], byteLength truncatedLine, ByteLimit, True)
                   else (out, count, ByteLimit, False)
              else collect_tail maxLines maxBytes (line # out) (count + lineBytes) earlier)"

definition truncateTail :: "text16 \<Rightarrow> truncation_options \<Rightarrow> truncation_result" where
  "truncateTail content options =
     (let maxLines = max_lines options; maxBytes = max_bytes options;
          totalBytes = byteLength content;
          lines = splitLinesForCounting content; totalLines = length lines
      in if totalLines \<le> maxLines \<and> totalBytes \<le> maxBytes
         then untruncated content totalLines totalBytes maxLines maxBytes
         else (case collect_tail maxLines maxBytes [] 0 (rev lines) of (out, count, hit, partial) \<Rightarrow>
                 \<lparr>tr_content = js_join [LF16] out, tr_truncated = True,
                  tr_truncatedBy =
                    Some (if length out \<ge> maxLines \<and> count \<le> maxBytes then LineLimit else hit),
                  tr_totalLines = totalLines, tr_totalBytes = totalBytes,
                  tr_outputLines = length out, tr_outputBytes = byteLength (js_join [LF16] out),
                  tr_lastLinePartial = partial, tr_firstLineExceedsLimit = False,
                  tr_maxLines = maxLines, tr_maxBytes = maxBytes\<rparr>))"

definition truncateLine :: "text16 \<Rightarrow> nat \<Rightarrow> text16 \<times> bool" where
  "truncateLine line maxChars =
     (if length line \<le> maxChars then (line, False)
      else (take maxChars line @ js ''... [truncated]'', True))"

record middle_truncation =
  mt_content :: text16
  mt_truncated :: bool
  mt_removedChars :: nat
  mt_totalBytes :: nat
  mt_totalLines :: nat

definition isBoundary :: "bytes \<Rightarrow> nat \<Rightarrow> bool" where
  "isBoundary buf index \<longleftrightarrow> index \<ge> length buf \<or> \<not> is_continuation (buf ! index)"

fun boundary_before :: "bytes \<Rightarrow> nat \<Rightarrow> nat" where
  "boundary_before buf 0 = 0"
| "boundary_before buf (Suc headEnd) =
     (if \<not> isBoundary buf (Suc headEnd) then boundary_before buf headEnd else Suc headEnd)"

definition ELLIPSIS :: "16 word" where "ELLIPSIS = 0x2026"

definition truncateMiddle :: "text16 \<Rightarrow> nat \<Rightarrow> middle_truncation" where
  "truncateMiddle content maxBytes =
     (let buf = utf8_encode content; totalLines = length (splitLinesForCounting content)
      in if length buf \<le> maxBytes
         then \<lparr>mt_content = content, mt_truncated = False, mt_removedChars = 0,
               mt_totalBytes = length buf, mt_totalLines = totalLines\<rparr>
         else let headEnd = boundary_before buf (maxBytes div 2);
                  tailStart = boundary_after buf (length buf - (maxBytes - maxBytes div 2));
                  head = utf8_decode (take headEnd buf);
                  tail = utf8_decode (drop tailStart buf);
                  removedChars = length (scalars (utf8_decode (drop headEnd (take tailStart buf))))
              in \<lparr>mt_content = head @ [ELLIPSIS] @ js (dec removedChars) @ js '' chars truncated''
                               @ [ELLIPSIS] @ tail,
                  mt_truncated = True, mt_removedChars = removedChars,
                  mt_totalBytes = length buf, mt_totalLines = totalLines\<rparr>)"

declare boundary_after.simps [simp del]

section \<open>Whole lines from the start\<close>

lemma byteLength_join_snoc:
  "byteLength (js_join [LF16] (out @ [l])) =
     byteLength (js_join [LF16] out) + (byteLength l + (if length out > 0 then 1 else 0))"
  by (cases out) (simp_all add: byteLength_join)

lemma byteLength_join_Cons:
  "byteLength (js_join [LF16] (l # out)) =
     byteLength (js_join [LF16] out) + (byteLength l + (if length out > 0 then 1 else 0))"
  by (cases out) (simp_all add: byteLength_join del: js_join.simps(3))

lemma collect_head_spec:
  assumes "collect_head maxLines maxBytes out count rest = (res, c, hit)"
    and "length out \<le> maxLines" "count \<le> maxBytes" "count = byteLength (js_join [LF16] out)"
  shows "\<exists>n\<le>length rest. res = out @ take n rest \<and> length res \<le> maxLines
           \<and> c = byteLength (js_join [LF16] res) \<and> c \<le> maxBytes
           \<and> (n = length rest \<or> length res = maxLines
                \<or> maxBytes < byteLength (js_join [LF16] (out @ take (Suc n) rest)))"
  using assms
proof (induction rest arbitrary: out count)
  case (Cons l rest)
  consider (full) "\<not> length out < maxLines"
    | (over) "length out < maxLines" "maxBytes < byteLength (js_join [LF16] (out @ [l]))"
    | (fits) "length out < maxLines" "byteLength (js_join [LF16] (out @ [l])) \<le> maxBytes"
    by linarith
  then show ?case
  proof cases
    case fits
    with Cons.prems have "collect_head maxLines maxBytes (out @ [l])
        (byteLength (js_join [LF16] (out @ [l]))) rest = (res, c, hit)"
      by (simp add: byteLength_join_snoc Let_def)
    then have "\<exists>n\<le>length rest. res = (out @ [l]) @ take n rest \<and> length res \<le> maxLines
           \<and> c = byteLength (js_join [LF16] res) \<and> c \<le> maxBytes
           \<and> (n = length rest \<or> length res = maxLines
                \<or> maxBytes < byteLength (js_join [LF16] ((out @ [l]) @ take (Suc n) rest)))"
      using fits by (intro Cons.IH) simp_all
    then obtain n where "n \<le> length rest" "res = (out @ [l]) @ take n rest" "length res \<le> maxLines"
      "c = byteLength (js_join [LF16] res)" "c \<le> maxBytes"
      "n = length rest \<or> length res = maxLines
         \<or> maxBytes < byteLength (js_join [LF16] ((out @ [l]) @ take (Suc n) rest))" by blast
    then show ?thesis by (intro exI [of _ "Suc n"]) simp
  next
    case full
    with Cons.prems show ?thesis by (intro exI [of _ 0]) auto
  next
    case over
    with Cons.prems show ?thesis
      by (intro exI [of _ 0]) (auto simp: byteLength_join_snoc Let_def)
  qed
qed simp

lemma split_on_snoc: "split_on c (s @ [c]) = split_on c s @ [[]]"
  by (induction s) (auto split: list.splits)

lemma splitLinesForCounting_Nil [simp]: "splitLinesForCounting content = [] \<longleftrightarrow> content = []"
  by (cases content rule: rev_cases) (auto simp: splitLinesForCounting_def split_on_snoc)

lemma truncateHead_spec:
  fixes content :: text16 and options :: truncation_options
  defines "r \<equiv> truncateHead content options"
    and "lines \<equiv> splitLinesForCounting content"
  shows "tr_outputBytes r = byteLength (tr_content r)
       \<and> tr_outputLines r \<le> max_lines options \<and> tr_outputBytes r \<le> max_bytes options
       \<and> tr_truncated r = (length lines > max_lines options \<or> byteLength content > max_bytes options)
       \<and> (if tr_truncated r
          then tr_content r = js_join [LF16] (take (tr_outputLines r) lines)
             \<and> (length lines = tr_outputLines r \<or> max_lines options = tr_outputLines r
                \<or> max_bytes options < byteLength (js_join [LF16] (take (Suc (tr_outputLines r)) lines)))
          else tr_content r = content \<and> tr_outputLines r = length lines)"
proof (cases "length lines \<le> max_lines options \<and> byteLength content \<le> max_bytes options")
  case True
  then show ?thesis
    by (simp add: r_def truncateHead_def Let_def untruncated_def flip: lines_def)
next
  case False
  note too_big = this
  show ?thesis
  proof (cases "byteLength (hd lines) > max_bytes options")
    case True
    have "max_bytes options < byteLength (js_join [LF16] (take (Suc 0) lines)) \<or> length lines = 0"
      using True by (cases lines) simp_all
    with too_big True show ?thesis
      by (auto simp: r_def truncateHead_def Let_def not_le simp flip: lines_def)
  next
    case False
    obtain out count hit where run:
      "collect_head (max_lines options) (max_bytes options) [] 0 lines = (out, count, hit)"
      by (metis prod_cases3)
    then have "\<exists>n\<le>length lines. out = [] @ take n lines \<and> length out \<le> max_lines options
           \<and> count = byteLength (js_join [LF16] out) \<and> count \<le> max_bytes options
           \<and> (n = length lines \<or> length out = max_lines options
                \<or> max_bytes options < byteLength (js_join [LF16] ([] @ take (Suc n) lines)))"
      by (rule collect_head_spec) simp_all
    moreover have "r = \<lparr>tr_content = js_join [LF16] out, tr_truncated = True,
        tr_truncatedBy = Some (if length out \<ge> max_lines options \<and> count \<le> max_bytes options then LineLimit else hit),
        tr_totalLines = length lines, tr_totalBytes = byteLength content, tr_outputLines = length out,
        tr_outputBytes = byteLength (js_join [LF16] out), tr_lastLinePartial = False,
        tr_firstLineExceedsLimit = False, tr_maxLines = max_lines options, tr_maxBytes = max_bytes options\<rparr>"
      using too_big False run by (simp only: r_def truncateHead_def Let_def prod.case if_False flip: lines_def)
    ultimately show ?thesis
      using too_big by auto
  qed
qed

text \<open>truncating from the start keeps the longest run of whole first lines that respects both limits: the
  reported line and byte counts are those of the content, they are within the limits, and one
  more line would exceed one of them. A text within both limits is returned as it is.\<close>

theorem truncateHead_longest_prefix:
  fixes content :: text16 and options :: truncation_options
  defines "r \<equiv> truncateHead content options"
    and "lines \<equiv> splitLinesForCounting content"
  shows "tr_outputBytes r = byteLength (tr_content r)
       \<and> tr_outputLines r \<le> max_lines options \<and> tr_outputBytes r \<le> max_bytes options
       \<and> tr_truncated r = (length lines > max_lines options \<or> byteLength content > max_bytes options)
       \<and> (if tr_truncated r
          then tr_content r = js_join [LF16] (take (tr_outputLines r) lines)
             \<and> (length lines = tr_outputLines r \<or> max_lines options = tr_outputLines r
                \<or> max_bytes options < byteLength (js_join [LF16] (take (Suc (tr_outputLines r)) lines)))
          else tr_content r = content \<and> tr_outputLines r = length lines)"
  unfolding r_def lines_def by (rule truncateHead_spec)

section \<open>Cutting at character boundaries\<close>

lemma ball_set_takeI: "\<forall>x\<in>set xs. P x \<Longrightarrow> \<forall>x\<in>set (take n xs). P x"
  by (auto dest: in_set_takeD)

lemma ball_set_dropI: "\<forall>x\<in>set xs. P x \<Longrightarrow> \<forall>x\<in>set (drop n xs). P x"
  by (auto dest: in_set_dropD)

lemma boundary_after_spec:
  assumes "i \<le> length buf"
  shows "i \<le> boundary_after buf i \<and> boundary_after buf i \<le> length buf
       \<and> isBoundary buf (boundary_after buf i)
       \<and> (\<forall>m. i \<le> m \<and> m < boundary_after buf i \<longrightarrow> \<not> isBoundary buf m)"
  using assms
proof (induction buf i rule: boundary_after.induct)
  case (1 buf i)
  show ?case
  proof (cases "i < length buf \<and> is_continuation (buf ! i)")
    case True
    then have step: "boundary_after buf i = boundary_after buf (Suc i)"
      by (simp add: boundary_after.simps [of buf i])
    have "\<not> isBoundary buf i" using True by (simp add: isBoundary_def)
    moreover have "m = i \<or> Suc i \<le> m" if "i \<le> m" for m using that by auto
    ultimately show ?thesis
      using 1 True unfolding step by auto
  next
    case False
    then have "boundary_after buf i = i" by (subst boundary_after.simps) (simp only: if_False)
    with False 1(2) show ?thesis by (auto simp: isBoundary_def)
  qed
qed

lemma boundary_before_spec:
  "boundary_before buf i \<le> i \<and> (boundary_before buf i = 0 \<or> isBoundary buf (boundary_before buf i))"
  by (induction i) auto

lemma utf8_scalars_boundary:
  assumes "\<forall>c\<in>set cs. scalar c"
  shows "isBoundary (utf8_scalars cs) (length (utf8_scalars (take k cs)))"
proof (cases "k < length cs")
  case True
  have "cs = take k cs @ cs ! k # drop (Suc k) cs" using True by (simp add: Cons_nth_drop_Suc)
  then have "utf8_scalars cs = utf8_scalars (take k cs) @ utf8_char (cs ! k) @ utf8_scalars (drop (Suc k) cs)"
    by (metis utf8_scalars_append utf8_scalars_def concat.simps(2) list.simps(9))
  moreover obtain b bs where "utf8_char (cs ! k) = b # bs" "\<not> is_continuation b"
    using utf8_char_shape [of "cs ! k"] assms True by auto
  ultimately show ?thesis by (simp add: isBoundary_def nth_append)
qed (simp add: isBoundary_def)

lemma split_at_boundary:
  assumes "i \<le> length (utf8_encode s)" "isBoundary (utf8_encode s) i"
  obtains k where "k \<le> length (scalars s)" "take i (utf8_encode s) = utf8_scalars (take k (scalars s))"
    "drop i (utf8_encode s) = utf8_scalars (drop k (scalars s))"
    "i = length (utf8_scalars (take k (scalars s)))"
proof -
  have "\<exists>k\<le>length (scalars s). take i (utf8_encode s) = utf8_scalars (take k (scalars s))
          \<and> drop i (utf8_encode s) = utf8_scalars (drop k (scalars s))"
    using assms boundary_split [OF scalars_scalar, of i s]
    by (auto simp: isBoundary_def utf8_encode_def)
  then obtain k where "k \<le> length (scalars s)" "take i (utf8_encode s) = utf8_scalars (take k (scalars s))"
    "drop i (utf8_encode s) = utf8_scalars (drop k (scalars s))" by blast
  then show thesis
    using assms(1) by (intro that [of k]) (simp_all flip: \<open>take i _ = _\<close>)
qed

lemma scalars_decoded:
  "utf8_decode (utf8_scalars (take k (scalars s))) = from_scalars (take k (scalars s))"
  "utf8_decode (utf8_scalars (drop k (scalars s))) = from_scalars (drop k (scalars s))"
  by (rule utf8_decode_scalars [OF ball_set_takeI [OF scalars_scalar]])
    (rule utf8_decode_scalars [OF ball_set_dropI [OF scalars_scalar]])

text \<open>A cut between characters decodes to the characters on its two sides.\<close>

lemma cut_at_boundary:
  assumes "i \<le> length (utf8_encode s)" "isBoundary (utf8_encode s) i"
  obtains k where "k \<le> length (scalars s)" "i = length (utf8_scalars (take k (scalars s)))"
    "utf8_decode (take i (utf8_encode s)) = from_scalars (take k (scalars s))"
    "utf8_decode (drop i (utf8_encode s)) = from_scalars (drop k (scalars s))"
    "byteLength (from_scalars (take k (scalars s))) = i"
    "byteLength (from_scalars (drop k (scalars s))) = length (utf8_encode s) - i"
proof -
  obtain k where k: "k \<le> length (scalars s)" "take i (utf8_encode s) = utf8_scalars (take k (scalars s))"
    "drop i (utf8_encode s) = utf8_scalars (drop k (scalars s))" "i = length (utf8_scalars (take k (scalars s)))"
    by (rule split_at_boundary [OF assms])
  have "byteLength (from_scalars (take k (scalars s))) = length (utf8_scalars (take k (scalars s)))"
       "byteLength (from_scalars (drop k (scalars s))) = length (utf8_scalars (drop k (scalars s)))"
    by (rule byteLength_from_scalars [OF ball_set_takeI [OF scalars_scalar]])
      (rule byteLength_from_scalars [OF ball_set_dropI [OF scalars_scalar]])
  moreover have "length (utf8_scalars (drop k (scalars s))) = length (utf8_encode s) - i"
    by (simp flip: k(3))
  ultimately show thesis
    using k by (intro that [of k]) (simp_all only: scalars_decoded)
qed

lemma decode_between:
  assumes "h \<le> t" "t \<le> length (scalars s)"
  shows "length (scalars (utf8_decode (drop (length (utf8_scalars (take h (scalars s))))
           (take (length (utf8_scalars (take t (scalars s)))) (utf8_encode s))))) = t - h"
proof -
  define cs where "cs = scalars s"
  have "utf8_encode s = utf8_scalars (take t cs) @ utf8_scalars (drop t cs)"
    by (simp add: utf8_encode_def cs_def flip: utf8_scalars_append)
  moreover have "utf8_scalars (take t cs) = utf8_scalars (take h cs) @ utf8_scalars (drop h (take t cs))"
    using assms(1) by (simp flip: utf8_scalars_append) (metis append_take_drop_id min.absorb1 take_take)
  ultimately have "drop (length (utf8_scalars (take h cs))) (take (length (utf8_scalars (take t cs))) (utf8_encode s))
      = utf8_scalars (drop h (take t cs))"
    by simp
  moreover have "\<forall>c\<in>set (drop h (take t cs)). scalar c"
    unfolding cs_def by (rule ball_set_dropI [OF ball_set_takeI [OF scalars_scalar]])
  ultimately show ?thesis
    using assms(2) by (simp only: utf8_decode_scalars scalars_from_scalars flip: cs_def) (simp add: cs_def)
qed

section \<open>The end of a line\<close>

lemma utf8_scalars_Nil [simp]: "utf8_scalars cs = [] \<longleftrightarrow> cs = []"
  by (cases cs) (auto simp: utf8_scalars_def utf8_char_def)

lemma utf8_scalars_take_less:
  assumes "j < k" "k \<le> length cs"
  shows "length (utf8_scalars (take j cs)) < length (utf8_scalars (take k cs))"
proof -
  obtain d where "k = j + d" "0 < d" using assms(1) less_imp_add_positive by blast
  then have "take k cs = take j cs @ take d (drop j cs)" "take d (drop j cs) \<noteq> []"
    using assms(2) by (simp_all add: take_add)
  then show ?thesis
    by (simp add: utf8_scalars_append)
qed

lemma truncateStringToBytesFromEnd_spec:
  assumes "maxBytes < byteLength str"
  shows "\<exists>k\<le>length (scalars str).
           truncateStringToBytesFromEnd str maxBytes = from_scalars (drop k (scalars str))
           \<and> byteLength (from_scalars (drop k (scalars str))) \<le> maxBytes
           \<and> (\<forall>j<k. maxBytes < byteLength (from_scalars (drop j (scalars str))))"
proof -
  define buf cs p where "buf = utf8_encode str" and "cs = scalars str"
    and "p = boundary_after buf (length buf - maxBytes)"
  have cs: "\<forall>c\<in>set cs. scalar c" and buf: "buf = utf8_scalars cs"
    by (simp_all add: cs_def buf_def scalars_scalar utf8_encode_def)
  have p: "length buf - maxBytes \<le> p" "p \<le> length buf" "isBoundary buf p"
    "\<forall>m. length buf - maxBytes \<le> m \<and> m < p \<longrightarrow> \<not> isBoundary buf m"
    using boundary_after_spec [of "length buf - maxBytes" buf] by (simp_all add: p_def)
  obtain k where k: "k \<le> length cs" "drop p buf = utf8_scalars (drop k cs)"
      "p = length (utf8_scalars (take k cs))"
    using split_at_boundary [of p str] p unfolding buf_def cs_def by metis
  have len: "byteLength (from_scalars (drop j cs)) = length buf - length (utf8_scalars (take j cs))" for j
  proof -
    have "byteLength (from_scalars (drop j cs)) = length (utf8_scalars (drop j cs))"
      by (rule byteLength_from_scalars [OF ball_set_dropI [OF cs]])
    moreover have "buf = utf8_scalars (take j cs) @ utf8_scalars (drop j cs)"
      by (simp add: buf flip: utf8_scalars_append)
    ultimately show ?thesis by simp
  qed
  have "maxBytes < byteLength (from_scalars (drop j cs))" if "j < k" for j
  proof -
    have "length (utf8_scalars (take j cs)) < p"
      unfolding k(3) using that k(1) by (rule utf8_scalars_take_less)
    then have "length (utf8_scalars (take j cs)) < length buf - maxBytes"
      using p(4) utf8_scalars_boundary [OF cs, of j] buf not_le by blast
    then show ?thesis by (simp add: len)
  qed
  moreover have "truncateStringToBytesFromEnd str maxBytes = from_scalars (drop k cs)"
  proof -
    have "truncateStringToBytesFromEnd str maxBytes = utf8_decode (utf8_scalars (drop k cs))"
      using assms k(2) by (simp add: truncateStringToBytesFromEnd_def byteLength_def Let_def p_def buf_def)
    also have "\<dots> = from_scalars (drop k cs)"
      by (rule utf8_decode_scalars [OF ball_set_dropI [OF cs]])
    finally show ?thesis .
  qed
  moreover have "byteLength (from_scalars (drop k cs)) \<le> maxBytes"
    using p(1) by (simp add: len k(3))
  ultimately show ?thesis
    using k(1) unfolding cs_def by blast
qed

lemma partial_line:
  assumes "maxBytes < byteLength str"
  obtains k where "0 < k" "k \<le> length (scalars str)"
    "truncateStringToBytesFromEnd str maxBytes = from_scalars (drop k (scalars str))"
    "byteLength (from_scalars (drop k (scalars str))) \<le> maxBytes"
    "maxBytes < byteLength (from_scalars (drop (k - 1) (scalars str)))"
proof -
  obtain k where k: "k \<le> length (scalars str)"
      "truncateStringToBytesFromEnd str maxBytes = from_scalars (drop k (scalars str))"
      "byteLength (from_scalars (drop k (scalars str))) \<le> maxBytes"
      "\<forall>j<k. maxBytes < byteLength (from_scalars (drop j (scalars str)))"
    using truncateStringToBytesFromEnd_spec [OF assms] by blast
  have "byteLength (from_scalars (scalars str)) = byteLength str"
    by (simp add: byteLength_from_scalars scalars_scalar) (simp add: byteLength_def utf8_encode_def)
  then have "0 < k" using assms k(3) by (cases k) auto
  with k that show thesis by simp
qed

section \<open>Whole lines from the end\<close>

lemma collect_tail_spec:
  assumes "collect_tail maxLines maxBytes out count earlier = (res, c, hit, False)"
    and "length out \<le> maxLines" "count \<le> maxBytes" "count = byteLength (js_join [LF16] out)"
  shows "\<exists>n\<le>length earlier. res = rev (take n earlier) @ out \<and> length res \<le> maxLines
           \<and> c = byteLength (js_join [LF16] res) \<and> c \<le> maxBytes
           \<and> (n = length earlier \<or> length res = maxLines
                \<or> maxBytes < byteLength (js_join [LF16] (rev (take (Suc n) earlier) @ out)))"
  using assms
proof (induction earlier arbitrary: out count)
  case (Cons l earlier)
  consider (full) "\<not> length out < maxLines"
    | (over) "length out < maxLines" "maxBytes < byteLength (js_join [LF16] (l # out))"
    | (fits) "length out < maxLines" "byteLength (js_join [LF16] (l # out)) \<le> maxBytes"
    by linarith
  then show ?case
  proof cases
    case fits
    with Cons.prems have "collect_tail maxLines maxBytes (l # out)
        (byteLength (js_join [LF16] (l # out))) earlier = (res, c, hit, False)"
      by (simp add: byteLength_join_Cons Let_def)
    then have "\<exists>n\<le>length earlier. res = rev (take n earlier) @ (l # out) \<and> length res \<le> maxLines
           \<and> c = byteLength (js_join [LF16] res) \<and> c \<le> maxBytes
           \<and> (n = length earlier \<or> length res = maxLines
                \<or> maxBytes < byteLength (js_join [LF16] (rev (take (Suc n) earlier) @ (l # out))))"
      using fits by (intro Cons.IH) simp_all
    then obtain n where "n \<le> length earlier" "res = rev (take n earlier) @ (l # out)" "length res \<le> maxLines"
      "c = byteLength (js_join [LF16] res)" "c \<le> maxBytes"
      "n = length earlier \<or> length res = maxLines
         \<or> maxBytes < byteLength (js_join [LF16] (rev (take (Suc n) earlier) @ (l # out)))" by blast
    then show ?thesis by (intro exI [of _ "Suc n"]) simp
  next
    case full
    with Cons.prems show ?thesis by (intro exI [of _ 0]) auto
  next
    case over
    with Cons.prems show ?thesis
      by (intro exI [of _ 0]) (auto simp: byteLength_join_Cons Let_def split: if_splits)
  qed
qed simp

lemma collect_tail_partial:
  assumes "collect_tail maxLines maxBytes out count earlier = (res, c, hit, True)"
    and "count = byteLength (js_join [LF16] out)"
  shows "out = [] \<and> (\<exists>l rest. earlier = l # rest \<and> maxBytes < byteLength l \<and> 0 < maxLines
           \<and> res = [truncateStringToBytesFromEnd l maxBytes])"
  using assms
proof (cases earlier)
  case (Cons l rest)
  have False if "\<not> count + (byteLength l + (if length out > 0 then 1 else 0)) > maxBytes" "length out < maxLines"
  proof -
    have *: "\<not> (\<exists>res c hit. collect_tail maxLines maxBytes (x # out) n ls = (res, c, hit, True))" for x out n ls
      by (induction ls arbitrary: x out n) (auto simp: Let_def)
    show False using that assms(1) * [of l out] by (auto simp: Cons Let_def)
  qed
  with assms show ?thesis
    by (fastforce simp: Cons Let_def split: if_splits)
qed simp

text \<open>C32: truncating from the end keeps the longest run of whole last lines that respects both
  limits. Only when the very last line alone is over the byte limit is the content part of a
  line: then it is the longest run of its last characters that fits, cut between characters.\<close>

theorem truncateTail_longest_suffix:
  fixes content :: text16 and options :: truncation_options
  defines "r \<equiv> truncateTail content options"
    and "lines \<equiv> splitLinesForCounting content"
    and "M \<equiv> max_bytes options"
  shows "tr_outputBytes r = byteLength (tr_content r)
       \<and> tr_outputLines r \<le> max_lines options \<and> tr_outputBytes r \<le> M
       \<and> tr_truncated r = (length lines > max_lines options \<or> byteLength content > M)
       \<and> (if tr_lastLinePartial r
          then tr_truncated r \<and> tr_outputLines r = 1 \<and> M < byteLength (last lines)
             \<and> (\<exists>k>0. tr_content r = from_scalars (drop k (scalars (last lines)))
                     \<and> M < byteLength (from_scalars (drop (k - 1) (scalars (last lines)))))
          else if tr_truncated r
          then tr_content r = js_join [LF16] (drop (length lines - tr_outputLines r) lines)
             \<and> (length lines = tr_outputLines r \<or> max_lines options = tr_outputLines r
                \<or> M < byteLength (js_join [LF16] (drop (length lines - Suc (tr_outputLines r)) lines)))
          else tr_content r = content \<and> tr_outputLines r = length lines)"
proof (cases "length lines \<le> max_lines options \<and> byteLength content \<le> M")
  case True
  then show ?thesis
    by (simp add: r_def M_def truncateTail_def Let_def untruncated_def flip: lines_def)
next
  case False
  obtain out count hit partial where run:
    "collect_tail (max_lines options) M [] 0 (rev lines) = (out, count, hit, partial)"
    by (metis prod_cases4)
  have r: "r = \<lparr>tr_content = js_join [LF16] out, tr_truncated = True,
        tr_truncatedBy = Some (if length out \<ge> max_lines options \<and> count \<le> M then LineLimit else hit),
        tr_totalLines = length lines, tr_totalBytes = byteLength content, tr_outputLines = length out,
        tr_outputBytes = byteLength (js_join [LF16] out), tr_lastLinePartial = partial,
        tr_firstLineExceedsLimit = False, tr_maxLines = max_lines options, tr_maxBytes = M\<rparr>"
    using False run
    by (simp only: r_def M_def truncateTail_def Let_def prod.case if_False flip: lines_def)
  show ?thesis
  proof (cases partial)
    case True
    with run obtain l rest where l: "rev lines = l # rest" "M < byteLength l" "0 < max_lines options"
        "out = [truncateStringToBytesFromEnd l M]"
      using collect_tail_partial [of "max_lines options" M "[]" 0 "rev lines"] by auto
    have lines: "lines = rev rest @ [l]" using l(1) by (simp add: rev_eq_Cons_iff)
    obtain k where "0 < k" "truncateStringToBytesFromEnd l M = from_scalars (drop k (scalars l))"
      "byteLength (from_scalars (drop k (scalars l))) \<le> M"
      "M < byteLength (from_scalars (drop (k - 1) (scalars l)))"
      using partial_line [OF l(2)] by metis
    with l True False show ?thesis
      by (auto simp: r lines)
  next
    case whole: False
    have "collect_tail (max_lines options) M [] 0 (rev lines) = (out, count, hit, False)"
      using run whole by simp
    then have "\<exists>n\<le>length (rev lines). out = rev (take n (rev lines)) @ [] \<and> length out \<le> max_lines options
           \<and> count = byteLength (js_join [LF16] out) \<and> count \<le> M
           \<and> (n = length (rev lines) \<or> length out = max_lines options
                \<or> M < byteLength (js_join [LF16] (rev (take (Suc n) (rev lines)) @ [])))"
      by (rule collect_tail_spec) simp_all
    then obtain n where n: "n \<le> length (rev lines)" "out = rev (take n (rev lines)) @ []"
      "length out \<le> max_lines options" "count = byteLength (js_join [LF16] out)" "count \<le> M"
      "n = length (rev lines) \<or> length out = max_lines options
         \<or> M < byteLength (js_join [LF16] (rev (take (Suc n) (rev lines)) @ []))"
      by blast
    then have "out = drop (length lines - n) lines" "length out = n"
      "rev (take (Suc n) (rev lines)) = drop (length lines - Suc n) lines"
      by (simp_all add: take_rev)
    with n whole False show ?thesis
      by (auto simp: r)
  qed
qed

section \<open>The start and the end\<close>

text \<open>Truncating in the middle keeps whole characters of the start and of the end, at most
  half of the byte limit each (the end takes the odd byte), names the number of characters
  left out between them, and loses nothing else.\<close>

theorem truncateMiddle_keeps_both_ends:
  fixes content :: text16
  defines "cs \<equiv> scalars content"
  shows "if byteLength content \<le> maxBytes
         then mt_content (truncateMiddle content maxBytes) = content
            \<and> \<not> mt_truncated (truncateMiddle content maxBytes)
         else \<exists>h t. h \<le> t \<and> t \<le> length cs
            \<and> mt_removedChars (truncateMiddle content maxBytes) = t - h
            \<and> mt_content (truncateMiddle content maxBytes) =
                from_scalars (take h cs)
                @ [ELLIPSIS] @ js (dec (t - h)) @ js '' chars truncated'' @ [ELLIPSIS]
                @ from_scalars (drop t cs)
            \<and> byteLength (from_scalars (take h cs)) \<le> maxBytes div 2
            \<and> byteLength (from_scalars (drop t cs)) \<le> maxBytes - maxBytes div 2"
proof (cases "byteLength content \<le> maxBytes")
  case True
  then show ?thesis by (simp add: truncateMiddle_def byteLength_def Let_def)
next
  case False
  define buf i j where "buf = utf8_encode content" and "i = boundary_before buf (maxBytes div 2)"
    and "j = boundary_after buf (length buf - (maxBytes - maxBytes div 2))"
  have cs: "\<forall>c\<in>set cs. scalar c" and buf: "buf = utf8_scalars cs"
    by (simp_all add: cs_def buf_def scalars_scalar utf8_encode_def)
  have len: "maxBytes < length buf" using False by (simp add: byteLength_def buf_def)
  have "isBoundary buf 0"
    using utf8_scalars_boundary [OF cs, of 0] by (simp add: buf utf8_scalars_def)
  then have i: "i \<le> maxBytes div 2" "isBoundary buf i"
    using boundary_before_spec [of buf "maxBytes div 2"] by (auto simp: i_def)
  have j: "length buf - (maxBytes - maxBytes div 2) \<le> j" "j \<le> length buf" "isBoundary buf j"
    using boundary_after_spec [of "length buf - (maxBytes - maxBytes div 2)" buf] by (simp_all add: j_def)
  have ij: "i < j" "i \<le> length buf" using i(1) j(1) len by linarith+
  obtain h where h: "h \<le> length cs" "i = length (utf8_scalars (take h cs))"
      "utf8_decode (take i buf) = from_scalars (take h cs)" "byteLength (from_scalars (take h cs)) = i"
    using cut_at_boundary [of i content] i(2) ij(2) unfolding buf_def cs_def by metis
  obtain t where t: "t \<le> length cs" "j = length (utf8_scalars (take t cs))"
      "utf8_decode (drop j buf) = from_scalars (drop t cs)"
      "byteLength (from_scalars (drop t cs)) = length buf - j"
    using cut_at_boundary [of j content] j unfolding buf_def cs_def by metis
  have ht: "h \<le> t"
    using utf8_scalars_take_less [of t h cs] h t(2) ij(1) by (fastforce simp: not_le)
  have removed: "length (scalars (utf8_decode (drop i (take j buf)))) = t - h"
    using decode_between [OF ht, of content] t(1) by (simp add: h(2) t(2) cs_def buf_def)
  have bytes: "byteLength (from_scalars (take h cs)) \<le> maxBytes div 2"
      "byteLength (from_scalars (drop t cs)) \<le> maxBytes - maxBytes div 2"
    using i(1) j(1) h(4) t(4) by simp_all
  have "truncateMiddle content maxBytes =
      \<lparr>mt_content = from_scalars (take h cs) @ [ELLIPSIS] @ js (dec (t - h)) @ js '' chars truncated''
         @ [ELLIPSIS] @ from_scalars (drop t cs),
       mt_truncated = True, mt_removedChars = t - h, mt_totalBytes = length buf,
       mt_totalLines = length (splitLinesForCounting content)\<rparr>"
    unfolding truncateMiddle_def Let_def buf_def [symmetric] i_def [symmetric] j_def [symmetric]
    by (simp only: h(3) t(3) removed if_not_P [OF len [unfolded not_le [symmetric]]])
  then show ?thesis
    using False ht t(1) bytes by auto
qed

section \<open>A reported cause that is not one\<close>

text \<open>A text within the line limit whose only excess over the byte limit is its last newline is
  reported as truncated by lines.\<close>

lemma trailing_newline_reported_as_lines:
  "truncateHead (js ''ab'' @ [LF16]) \<lparr>to_maxLines = Some 10, to_maxBytes = Some 2\<rparr> =
     \<lparr>tr_content = js ''ab'', tr_truncated = True, tr_truncatedBy = Some LineLimit,
      tr_totalLines = 1, tr_totalBytes = 3, tr_outputLines = 1, tr_outputBytes = 2,
      tr_lastLinePartial = False, tr_firstLineExceedsLimit = False, tr_maxLines = 10, tr_maxBytes = 2\<rparr>"
  by code_simp

end
