(* ===== verification/Output_Accumulator.thy ===== *)
theory Output_Accumulator
  imports Truncate
begin

text \<open>
  Streaming command output (\<open>packages/coding-agent/src/core/tools/output-accumulator.ts\<close>):
  chunks of bytes are decoded as they come, only a tail of the text is kept for display, and
  the whole output goes to a temporary file once it is over a limit. The temporary file is the
  bytes its stream was given; its path is an argument of the operations that may create it.
\<close>

section \<open>State and operations\<close>

record output_accumulator =
  oa_maxLines :: nat
  oa_maxBytes :: nat
  oa_maxRollingBytes :: nat
  oa_decoder :: text_decoder
  oa_rawChunks :: "bytes list"
  oa_tailText :: text16
  oa_tailBytes :: nat
  oa_tailStartsAtLineBoundary :: bool
  oa_totalRawBytes :: nat
  oa_totalDecodedBytes :: nat
  oa_completedLines :: nat
  oa_totalLines :: nat
  oa_currentLineBytes :: nat
  oa_hasOpenLine :: bool
  oa_finished :: bool
  oa_tempFilePath :: "string option"
  oa_tempFileStream :: bool
  oa_tempFile :: bytes

definition new_accumulator :: "truncation_options \<Rightarrow> output_accumulator" where
  "new_accumulator options =
     \<lparr>oa_maxLines = max_lines options, oa_maxBytes = max_bytes options,
      oa_maxRollingBytes = max (max_bytes options * 2) 1, oa_decoder = new_text_decoder,
      oa_rawChunks = [], oa_tailText = [], oa_tailBytes = 0, oa_tailStartsAtLineBoundary = True,
      oa_totalRawBytes = 0, oa_totalDecodedBytes = 0, oa_completedLines = 0, oa_totalLines = 0,
      oa_currentLineBytes = 0, oa_hasOpenLine = False, oa_finished = False,
      oa_tempFilePath = None, oa_tempFileStream = False, oa_tempFile = []\<rparr>"

definition trimTail :: "output_accumulator \<Rightarrow> output_accumulator" where
  "trimTail s =
     (let buffer = utf8_encode (oa_tailText s)
      in if length buffer \<le> oa_maxRollingBytes s then s\<lparr>oa_tailBytes := length buffer\<rparr>
         else let start = boundary_after buffer (length buffer - oa_maxRollingBytes s);
                  tailText = utf8_decode (drop start buffer)
              in s\<lparr>oa_tailStartsAtLineBoundary :=
                     (if start = 0 then oa_tailStartsAtLineBoundary s else buffer ! (start - 1) = 0x0A),
                   oa_tailText := tailText,
                   oa_tailBytes := byteLength tailText\<rparr>)"

definition keep_tail :: "text16 \<Rightarrow> output_accumulator \<Rightarrow> output_accumulator" where
  "keep_tail str s =
     (let s' = s\<lparr>oa_tailText := oa_tailText s @ str, oa_tailBytes := oa_tailBytes s + byteLength str\<rparr>
      in if oa_tailBytes s' > oa_maxRollingBytes s' * 2 then trimTail s' else s')"

definition newline_positions :: "text16 \<Rightarrow> nat list" where
  "newline_positions str = filter (\<lambda>i. str ! i = LF16) [0..<length str]"

definition count_lines :: "text16 \<Rightarrow> output_accumulator \<Rightarrow> output_accumulator" where
  "count_lines str s =
     (let newlines = newline_positions str;
          s' = (if newlines = []
                then s\<lparr>oa_currentLineBytes := oa_currentLineBytes s + byteLength str, oa_hasOpenLine := True\<rparr>
                else let tail = drop (last newlines + 1) str
                     in s\<lparr>oa_completedLines := oa_completedLines s + length newlines,
                          oa_currentLineBytes := byteLength tail, oa_hasOpenLine := tail \<noteq> []\<rparr>)
      in s'\<lparr>oa_totalLines := oa_completedLines s' + (if oa_hasOpenLine s' then 1 else 0)\<rparr>)"

definition appendDecodedText :: "text16 \<Rightarrow> output_accumulator \<Rightarrow> output_accumulator" where
  "appendDecodedText str s =
     (if str = [] then s
      else count_lines str
             (keep_tail str (s\<lparr>oa_totalDecodedBytes := oa_totalDecodedBytes s + byteLength str\<rparr>)))"

definition shouldUseTempFile :: "output_accumulator \<Rightarrow> bool" where
  "shouldUseTempFile s \<longleftrightarrow>
     oa_totalRawBytes s > oa_maxBytes s \<or> oa_totalDecodedBytes s > oa_maxBytes s
     \<or> oa_totalLines s > oa_maxLines s"

definition ensureTempFile :: "string \<Rightarrow> output_accumulator \<Rightarrow> output_accumulator" where
  "ensureTempFile path s =
     (if oa_tempFilePath s \<noteq> None then s
      else s\<lparr>oa_tempFilePath := Some path, oa_tempFileStream := True,
             oa_tempFile := concat (oa_rawChunks s), oa_rawChunks := []\<rparr>)"

definition append_data :: "string \<Rightarrow> bytes \<Rightarrow> output_accumulator \<Rightarrow> js_error + output_accumulator" where
  "append_data path data s =
     (if oa_finished s then Inl ''Cannot append to a finished output accumulator''
      else case decode_stream (oa_decoder s) data of (str, decoder) \<Rightarrow>
        let s1 = appendDecodedText str
                   (s\<lparr>oa_totalRawBytes := oa_totalRawBytes s + length data, oa_decoder := decoder\<rparr>)
        in Inr (if oa_tempFileStream s1 \<or> shouldUseTempFile s1
                then let s2 = ensureTempFile path s1
                     in if oa_tempFileStream s2 then s2\<lparr>oa_tempFile := oa_tempFile s2 @ data\<rparr> else s2
                else if length data > 0 then s1\<lparr>oa_rawChunks := oa_rawChunks s1 @ [data]\<rparr>
                else s1))"

definition finish :: "string \<Rightarrow> output_accumulator \<Rightarrow> output_accumulator" where
  "finish path s =
     (if oa_finished s then s
      else case decode_all (oa_decoder s) [] of (str, decoder) \<Rightarrow>
        let s1 = appendDecodedText str (s\<lparr>oa_finished := True, oa_decoder := decoder\<rparr>)
        in if shouldUseTempFile s1 then ensureTempFile path s1 else s1)"

definition getSnapshotText :: "output_accumulator \<Rightarrow> text16" where
  "getSnapshotText s =
     (if oa_tailStartsAtLineBoundary s then oa_tailText s
      else case js_index_of [LF16] (oa_tailText s) of
             None \<Rightarrow> oa_tailText s
           | Some firstNewline \<Rightarrow> drop (firstNewline + 1) (oa_tailText s))"

record output_snapshot =
  os_content :: text16
  os_truncation :: truncation_result
  os_fullOutputPath :: "string option"

definition snapshot_truncation :: "output_accumulator \<Rightarrow> truncation_result" where
  "snapshot_truncation s =
     (let tailTruncation = truncateTail (getSnapshotText s)
            \<lparr>to_maxLines = Some (oa_maxLines s), to_maxBytes = Some (oa_maxBytes s)\<rparr>;
          truncated = (oa_totalLines s > oa_maxLines s \<or> oa_totalDecodedBytes s > oa_maxBytes s);
          truncatedBy =
            (if truncated
             then (case tr_truncatedBy tailTruncation of
                     Some hit \<Rightarrow> Some hit
                   | None \<Rightarrow> Some (if oa_totalDecodedBytes s > oa_maxBytes s then ByteLimit else LineLimit))
             else None)
      in tailTruncation\<lparr>tr_truncated := truncated, tr_truncatedBy := truncatedBy,
           tr_totalLines := oa_totalLines s, tr_totalBytes := oa_totalDecodedBytes s,
           tr_maxLines := oa_maxLines s, tr_maxBytes := oa_maxBytes s\<rparr>)"

definition snapshot :: "string \<Rightarrow> bool \<Rightarrow> output_accumulator \<Rightarrow> output_snapshot \<times> output_accumulator" where
  "snapshot path persistIfTruncated s =
     (let truncation = snapshot_truncation s;
          s' = (if persistIfTruncated \<and> tr_truncated truncation then ensureTempFile path s else s)
      in (\<lparr>os_content = tr_content truncation, os_truncation = truncation,
           os_fullOutputPath = oa_tempFilePath s'\<rparr>, s'))"

text \<open>Closing settles once the stream has finished; what it was given is then in the file.\<close>

definition closeTempFile :: "output_accumulator \<Rightarrow> output_accumulator" where
  "closeTempFile s = (if \<not> oa_tempFileStream s then s else s\<lparr>oa_tempFileStream := False\<rparr>)"

record full_output =
  fo_content :: text16
  fo_truncated :: bool

fun skip_continuation :: "bytes \<Rightarrow> bytes" where
  "skip_continuation [] = []"
| "skip_continuation (b # bs) = (if is_continuation b then skip_continuation bs else b # bs)"

definition readFullOutput :: "nat \<Rightarrow> output_accumulator \<Rightarrow> full_output" where
  "readFullOutput maxBytes s =
     (if oa_tempFilePath s = None
      then \<lparr>fo_content = fst (decode_all new_text_decoder (concat (oa_rawChunks s))), fo_truncated = False\<rparr>
      else let size = length (oa_tempFile s)
           in if size \<le> maxBytes
              then \<lparr>fo_content = fst (decode_all new_text_decoder (oa_tempFile s)), fo_truncated = False\<rparr>
              else let headBytes = maxBytes div 2; tailBytes = maxBytes - headBytes;
                       head = take headBytes (oa_tempFile s);
                       tail = take tailBytes (drop (size - tailBytes) (oa_tempFile s));
                       headText = fst (decode_stream new_text_decoder head);
                       tailText = fst (decode_all new_text_decoder (skip_continuation tail));
                       omitted = size - headBytes - tailBytes
                   in \<lparr>fo_content = headText @ [LF16, LF16] @ js ''[... '' @ js (dec omitted)
                                   @ js '' bytes omitted ...]'' @ [LF16, LF16] @ tailText,
                       fo_truncated = True\<rparr>)"

definition getLastLineBytes :: "output_accumulator \<Rightarrow> nat" where
  "getLastLineBytes s = oa_currentLineBytes s"

section \<open>Lines and bytes of concatenated texts\<close>

lemma newline_positions_Cons:
  "newline_positions (x # xs) = (if x = LF16 then [0] else []) @ map Suc (newline_positions xs)"
proof -
  have "[0..<length (x # xs)] = 0 # map Suc [0..<length xs]"
    by (simp add: map_Suc_upt upt_conv_Cons del: upt_Suc)
  then show ?thesis
    unfolding newline_positions_def by (simp add: filter_map comp_def del: upt_Suc)
qed

lemma newline_positions_Nil [simp]: "newline_positions [] = []"
  by (simp add: newline_positions_def)

lemma length_newline_positions: "length (newline_positions str) = count_list str LF16"
  by (induction str) (simp_all add: newline_positions_Cons)

lemma newline_positions_empty: "newline_positions str = [] \<longleftrightarrow> LF16 \<notin> set str"
  by (induction str) (auto simp: newline_positions_Cons)

lemma split_on_no_newline: "c \<notin> set str \<Longrightarrow> split_on c str = [str]"
  by (induction str) auto

lemma length_split_on: "length (split_on c str) = Suc (count_list str c)"
  by (induction str) (auto split: list.splits)

lemma last_split_on_Cons:
  "last (split_on c (x # xs)) = (if c \<in> set xs \<or> x = c then last (split_on c xs) else x # xs)"
proof (cases "c \<in> set xs")
  case True
  then have "length (split_on c xs) \<noteq> 1"
    by (simp add: length_split_on count_list_0_iff)
  then show ?thesis
    using True by (cases "split_on c xs") auto
qed (auto simp: split_on_no_newline)

lemma last_newline:
  "LF16 \<in> set str \<Longrightarrow> drop (last (newline_positions str) + 1) str = last (split_on LF16 str)"
proof (induction str)
  case (Cons x xs)
  then show ?case
    by (cases "LF16 \<in> set xs")
       (auto simp: newline_positions_Cons last_map newline_positions_empty last_split_on_Cons split_on_no_newline
          simp del: split_on.simps(2))
qed simp

lemma split_lines_append:
  "split_on c (a @ b) = butlast (split_on c a) @ (last (split_on c a) @ hd (split_on c b)) # tl (split_on c b)"
proof (induction a)
  case Nil
  then show ?case by simp
next
  case (Cons x a)
  then show ?case
    by (cases "split_on c a") (auto split: list.splits)
qed

lemma length_splitLines:
  "length (splitLinesForCounting str) =
     count_list str LF16 + (if str \<noteq> [] \<and> last str \<noteq> LF16 then 1 else 0)"
  by (simp add: splitLinesForCounting_def length_split_on)

lemma splitLines_append:
  assumes "a = [] \<or> last a = LF16"
  shows "splitLinesForCounting (a @ b) = splitLinesForCounting a @ splitLinesForCounting b"
proof (cases "a = []")
  case False
  then obtain a' where "a = a' @ [LF16]" using assms by (cases a rule: rev_cases) auto
  then show ?thesis
    by (auto simp: splitLinesForCounting_def split_lines_append split_on_snoc butlast_append)
qed (simp add: splitLinesForCounting_def)

lemma last_line_append:
  "last (split_on c (a @ b)) = (if c \<in> set b then last (split_on c b) else last (split_on c a) @ b)"
proof (cases "c \<in> set b")
  case True
  then have "tl (split_on c b) \<noteq> []"
    using length_split_on [of c b] by (cases "split_on c b") (auto simp: count_list_0_iff)
  with True show ?thesis by (simp add: split_lines_append last_tl)
qed (simp add: split_lines_append split_on_no_newline)

lemma from_scalars_starts_char:
  assumes "\<forall>c\<in>set cs. scalar c"
  shows "from_scalars cs = [] \<or> \<not> low_surrogate (hd (from_scalars cs))"
proof (cases cs)
  case (Cons c cs')
  have "units_of c \<noteq> [] \<and> \<not> low_surrogate (hd (units_of c))"
  proof (cases "c < 0x10000")
    case True
    then show ?thesis
      using assms Cons by (auto simp: units_of_def low_surrogate_unat scalar_def)
  next
    case False
    have "c < 0x110000" using assms Cons by (auto simp: scalar_def)
    then have "(c - 0x10000) div 0x400 < 0x400" using False by simp
    with False show ?thesis by (simp add: units_of_def low_surrogate_unat)
  qed
  then show ?thesis by (simp add: Cons from_scalars_def)
qed (simp add: from_scalars_def)

lemma scalars_append:
  "b = [] \<or> \<not> low_surrogate (hd b) \<Longrightarrow> scalars (a @ b) = scalars a @ scalars b"
proof (induction a rule: text16_induct)
  case (lone u s)
  then have "stands_alone u (s @ b)"
    by (auto simp: stands_alone_def hd_append)
  with lone show ?case by simp
qed simp_all

lemma byteLength_append:
  "b = [] \<or> \<not> low_surrogate (hd b) \<Longrightarrow> byteLength (a @ b) = byteLength a + byteLength b"
  by (simp add: byteLength_def utf8_encode_def scalars_append utf8_scalars_append)

lemma splitLines_bytes: "byteLength str \<le> byteLength (js_join [LF16] (splitLinesForCounting str)) + 1"
proof (cases "str = [] \<or> last str \<noteq> LF16")
  case True
  then show ?thesis by (auto simp: splitLinesForCounting_def)
next
  case False
  then obtain s' where "str = s' @ [LF16]" by (cases str rule: rev_cases) auto
  then show ?thesis
    using byteLength_append_LF [of s' "[]"] by (simp add: splitLinesForCounting_def split_on_snoc)
qed

section \<open>Trimming the tail\<close>

lemma utf8_char_length: "length (utf8_char c) \<le> 4"
  by (simp add: utf8_char_def)

lemma byte_eq_newline [simp]: "n < 0x100 \<Longrightarrow> byte n = 0x0A \<longleftrightarrow> n = 0x0A"
  using unat_byte [of n] unat_byte [of "0x0A"] by (auto simp: byte_def)

lemma last_utf8_char: "scalar c \<Longrightarrow> last (utf8_char c) = 0x0A \<longleftrightarrow> c = 0x0A"
  by (auto simp: utf8_char_def)

text \<open>A cut moved forward to the next character skips at most three bytes, and the byte before it
  is a newline exactly when the character before it is one.\<close>

lemma boundary_after_char:
  assumes cs: "\<forall>c\<in>set cs. scalar c" and i: "0 < i" "i \<le> length (utf8_scalars cs)"
  defines "j \<equiv> boundary_after (utf8_scalars cs) i"
  obtains k where "0 < k" "k \<le> length cs" "j \<le> i + 3" "j = length (utf8_scalars (take k cs))"
    "utf8_scalars cs ! (j - 1) = 0x0A \<longleftrightarrow> cs ! (k - 1) = 0x0A"
proof -
  define buf where "buf = utf8_scalars cs"
  have j: "i \<le> j" "j \<le> length buf" "isBoundary buf j" "\<forall>m. i \<le> m \<and> m < j \<longrightarrow> \<not> isBoundary buf m"
    using boundary_after_spec [of i buf] i by (simp_all add: j_def buf_def)
  obtain k where k: "k \<le> length cs" "take j buf = utf8_scalars (take k cs)"
    using boundary_split [OF cs, of j] j unfolding buf_def isBoundary_def by (auto simp: le_antisym)
  have len: "j = length (utf8_scalars (take k cs))"
    using j(2) by (simp flip: k(2))
  have "0 < k" using len i j(1) by (cases k) (auto simp: utf8_scalars_def)
  then have split: "take k cs = take (k - 1) cs @ [cs ! (k - 1)]"
    using k(1) take_Suc_conv_app_nth [of "k - 1" cs] by simp
  then have tk: "take j buf = utf8_scalars (take (k - 1) cs) @ utf8_char (cs ! (k - 1))"
    by (simp add: k(2) utf8_scalars_append) (simp add: utf8_scalars_def)
  have c: "scalar (cs ! (k - 1))" "utf8_char (cs ! (k - 1)) \<noteq> []"
    using cs k(1) \<open>0 < k\<close> by (auto simp: utf8_char_def)
  have "length (utf8_scalars (take (k - 1) cs)) < j"
    unfolding len by (rule utf8_scalars_take_less) (use \<open>0 < k\<close> k(1) in auto)
  then have "length (utf8_scalars (take (k - 1) cs)) < i"
    using j(4) utf8_scalars_boundary [OF cs, of "k - 1"] buf_def not_le by blast
  moreover have "j = length (utf8_scalars (take (k - 1) cs)) + length (utf8_char (cs ! (k - 1)))"
    using j(2) arg_cong [OF tk, of length] by simp
  ultimately have "j \<le> i + 3" using utf8_char_length [of "cs ! (k - 1)"] by linarith
  moreover have "buf ! (j - 1) = last (take j buf)"
    using i j(1,2) by (subst last_conv_nth) auto
  then have "buf ! (j - 1) = last (utf8_char (cs ! (k - 1)))"
    using c(2) by (simp add: tk)
  ultimately show thesis
    using that [of k] \<open>0 < k\<close> k(1) len last_utf8_char [OF c(1)] by (simp add: buf_def)
qed

text \<open>The kept tail \<open>drop k cs\<close> of the code points \<open>cs\<close> decoded so far.\<close>

definition keeps_tail :: "nat list \<Rightarrow> output_accumulator \<Rightarrow> bool" where
  "keeps_tail cs s \<longleftrightarrow>
     oa_tailBytes s = byteLength (oa_tailText s)
     \<and> (\<exists>k\<le>length cs. oa_tailText s = from_scalars (drop k cs)
          \<and> oa_tailStartsAtLineBoundary s = (k = 0 \<or> cs ! (k - 1) = 0x0A)
          \<and> (k = 0 \<or> oa_maxRollingBytes s \<le> byteLength (oa_tailText s) + 3))"

lemma trimTail_keeps:
  assumes cs: "\<forall>c\<in>set cs. scalar c" and kept: "keeps_tail cs s"
  shows "keeps_tail cs (trimTail s) \<and> oa_tailBytes (trimTail s) \<le> oa_maxRollingBytes s"
proof -
  obtain k where k: "k \<le> length cs" "oa_tailText s = from_scalars (drop k cs)"
      "oa_tailStartsAtLineBoundary s = (k = 0 \<or> cs ! (k - 1) = 0x0A)"
    using kept by (auto simp: keeps_tail_def)
  define ds i where "ds = drop k cs" and "i = length (utf8_scalars ds) - oa_maxRollingBytes s"
  have ds: "\<forall>c\<in>set ds. scalar c" unfolding ds_def by (rule ball_set_dropI [OF cs])
  have sds: "scalars (from_scalars ds) = ds" using ds by (rule scalars_from_scalars)
  have buf: "utf8_encode (oa_tailText s) = utf8_scalars ds"
    using ds by (simp add: k(2) utf8_encode_from_scalars flip: ds_def)
  show ?thesis
  proof (cases "length (utf8_scalars ds) \<le> oa_maxRollingBytes s")
    case True
    with kept show ?thesis
      by (simp add: trimTail_def Let_def buf keeps_tail_def byteLength_def)
  next
    case False
    define j where "j = boundary_after (utf8_scalars ds) i"
    have i: "0 < i" "i \<le> length (utf8_scalars ds)" using False by (auto simp: i_def)
    obtain n where n: "0 < n" "n \<le> length ds" "j \<le> i + 3" "j = length (utf8_scalars (take n ds))"
        "utf8_scalars ds ! (j - 1) = 0x0A \<longleftrightarrow> ds ! (n - 1) = 0x0A"
      using boundary_after_char [OF ds i] unfolding j_def by metis
    have "i \<le> j" using boundary_after_spec [OF i(2)] by (simp add: j_def)
    have "drop j (utf8_scalars ds) = utf8_scalars (drop n ds)"
    proof -
      have "utf8_scalars ds = utf8_scalars (take n ds) @ utf8_scalars (drop n ds)"
        by (simp flip: utf8_scalars_append)
      then show ?thesis by (simp add: n(4))
    qed
    then have tail: "utf8_decode (drop j (utf8_scalars ds)) = from_scalars (drop n ds)"
      using utf8_decode_scalars [OF ball_set_dropI [OF ds]] by simp
    have len: "byteLength (from_scalars (drop n ds)) = length (utf8_scalars ds) - j"
      using byteLength_from_scalars [OF ball_set_dropI [OF ds], of n]
      by (simp flip: \<open>drop j (utf8_scalars ds) = _\<close>)
    have trim: "trimTail s = s\<lparr>oa_tailStartsAtLineBoundary := (ds ! (n - 1) = 0x0A),
        oa_tailText := from_scalars (drop n ds), oa_tailBytes := byteLength (from_scalars (drop n ds))\<rparr>"
      using False n(5) \<open>i \<le> j\<close> i(1)
      by (simp add: trimTail_def Let_def buf tail flip: i_def j_def)
    have "drop n ds = drop (k + n) cs" "ds ! (n - 1) = cs ! (k + n - 1)" "k + n \<le> length cs"
      using n(1,2) k(1) by (auto simp: ds_def nth_drop add.commute)
    then have "keeps_tail cs (trimTail s)"
      using n(1,3) i False len unfolding keeps_tail_def
      by (auto simp: trim i_def intro!: exI [of _ "k + n"])
    moreover have "oa_tailBytes (trimTail s) \<le> oa_maxRollingBytes s"
      using \<open>i \<le> j\<close> by (simp add: trim len i_def)
    ultimately show ?thesis by simp
  qed
qed

section \<open>What the accumulator tracks\<close>

lemma keep_tail_keeps:
  assumes "\<forall>c\<in>set cs. scalar c" "\<forall>c\<in>set ds. scalar c" "keeps_tail cs s"
  shows "keeps_tail (cs @ ds) (keep_tail (from_scalars ds) s)
       \<and> oa_tailBytes (keep_tail (from_scalars ds) s) \<le> 2 * oa_maxRollingBytes s"
proof -
  define s' where "s' = s\<lparr>oa_tailText := oa_tailText s @ from_scalars ds,
      oa_tailBytes := oa_tailBytes s + byteLength (from_scalars ds)\<rparr>"
  obtain k where k: "k \<le> length cs" "oa_tailText s = from_scalars (drop k cs)"
      "oa_tailStartsAtLineBoundary s = (k = 0 \<or> cs ! (k - 1) = 0x0A)"
      "k = 0 \<or> oa_maxRollingBytes s \<le> byteLength (oa_tailText s) + 3"
      "oa_tailBytes s = byteLength (oa_tailText s)"
    using assms(3) unfolding keeps_tail_def by metis
  have "byteLength (oa_tailText s @ from_scalars ds) = oa_tailBytes s + byteLength (from_scalars ds)"
    using byteLength_append [OF from_scalars_starts_char [OF assms(2)]] k(5) by simp
  with k have "keeps_tail (cs @ ds) s'"
    by (auto simp: keeps_tail_def s'_def from_scalars_append nth_append intro!: exI [of _ k])
  moreover have "\<forall>c\<in>set (cs @ ds). scalar c" using assms by auto
  moreover have "oa_maxRollingBytes s' = oa_maxRollingBytes s" by (simp add: s'_def)
  ultimately show ?thesis
    using trimTail_keeps [of "cs @ ds" s'] by (auto simp: keep_tail_def Let_def simp flip: s'_def)
qed

definition counts :: "text16 \<Rightarrow> output_accumulator \<Rightarrow> bool" where
  "counts str s \<longleftrightarrow>
     oa_completedLines s = count_list str LF16
     \<and> oa_hasOpenLine s = (str \<noteq> [] \<and> last str \<noteq> LF16)
     \<and> oa_totalLines s = length (splitLinesForCounting str)
     \<and> oa_currentLineBytes s = byteLength (last (split_on LF16 str))"

lemma last_split_on_Nil: "last (split_on c str) = [] \<longleftrightarrow> str = [] \<or> last str = c"
proof (cases str rule: rev_cases)
  case (snoc s' x)
  then show ?thesis using last_line_append [of c s' "[x]"] by auto
qed simp

lemma count_lines_counts:
  assumes "counts a s" "b \<noteq> []" "\<not> low_surrogate (hd b)"
  shows "counts (a @ b) (count_lines b s)"
proof (cases "LF16 \<in> set b")
  case True
  then have "newline_positions b \<noteq> []" by (simp add: newline_positions_empty)
  with assms True show ?thesis
    by (simp add: counts_def count_lines_def Let_def last_newline [unfolded One_nat_def add_Suc_right add_0_right]
        length_newline_positions length_splitLines last_line_append last_split_on_Nil)
next
  case False
  then have "newline_positions b = []" "last b \<noteq> LF16" "count_list b LF16 = 0"
    using assms(2) last_in_set [of b] by (auto simp: newline_positions_empty count_list_0_iff simp del: last_in_set)
  moreover have "byteLength (last (split_on LF16 a) @ b) = byteLength (last (split_on LF16 a)) + byteLength b"
    using assms(3) by (simp add: byteLength_append)
  ultimately show ?thesis
    using assms False
    by (simp add: counts_def count_lines_def Let_def length_splitLines last_line_append)
qed

text \<open>The state after the code points \<open>cs\<close>.\<close>

definition tracks :: "nat list \<Rightarrow> output_accumulator \<Rightarrow> bool" where
  "tracks cs s \<longleftrightarrow>
     (\<forall>c\<in>set cs. scalar c) \<and> keeps_tail cs s \<and> counts (from_scalars cs) s
     \<and> oa_totalDecodedBytes s = byteLength (from_scalars cs)
     \<and> oa_tailBytes s \<le> 2 * oa_maxRollingBytes s"

lemma from_scalars_Nil [simp]: "from_scalars cs = [] \<longleftrightarrow> cs = []"
  by (cases cs) (auto simp: from_scalars_def units_of_def)

lemma keeps_tail_cong:
  "oa_tailText s = oa_tailText s' \<Longrightarrow> oa_tailBytes s = oa_tailBytes s' \<Longrightarrow>
   oa_tailStartsAtLineBoundary s = oa_tailStartsAtLineBoundary s' \<Longrightarrow>
   oa_maxRollingBytes s = oa_maxRollingBytes s' \<Longrightarrow> keeps_tail cs s = keeps_tail cs s'"
  by (simp add: keeps_tail_def)

lemma count_lines_frame [simp]:
  "oa_tailText (count_lines str s) = oa_tailText s" "oa_tailBytes (count_lines str s) = oa_tailBytes s"
  "oa_tailStartsAtLineBoundary (count_lines str s) = oa_tailStartsAtLineBoundary s"
  "oa_maxRollingBytes (count_lines str s) = oa_maxRollingBytes s"
  "oa_totalDecodedBytes (count_lines str s) = oa_totalDecodedBytes s"
  "oa_maxLines (count_lines str s) = oa_maxLines s" "oa_maxBytes (count_lines str s) = oa_maxBytes s"
  "oa_decoder (count_lines str s) = oa_decoder s" "oa_rawChunks (count_lines str s) = oa_rawChunks s"
  "oa_totalRawBytes (count_lines str s) = oa_totalRawBytes s" "oa_finished (count_lines str s) = oa_finished s"
  "oa_tempFilePath (count_lines str s) = oa_tempFilePath s"
  "oa_tempFileStream (count_lines str s) = oa_tempFileStream s" "oa_tempFile (count_lines str s) = oa_tempFile s"
  by (simp_all add: count_lines_def Let_def)

lemma keep_tail_unchanged [simp]:
  "oa_completedLines (keep_tail str s) = oa_completedLines s"
  "oa_hasOpenLine (keep_tail str s) = oa_hasOpenLine s" "oa_totalLines (keep_tail str s) = oa_totalLines s"
  "oa_currentLineBytes (keep_tail str s) = oa_currentLineBytes s"
  "oa_maxRollingBytes (keep_tail str s) = oa_maxRollingBytes s"
  "oa_totalDecodedBytes (keep_tail str s) = oa_totalDecodedBytes s"
  "oa_maxLines (keep_tail str s) = oa_maxLines s" "oa_maxBytes (keep_tail str s) = oa_maxBytes s"
  "oa_decoder (keep_tail str s) = oa_decoder s" "oa_rawChunks (keep_tail str s) = oa_rawChunks s"
  "oa_totalRawBytes (keep_tail str s) = oa_totalRawBytes s" "oa_finished (keep_tail str s) = oa_finished s"
  "oa_tempFilePath (keep_tail str s) = oa_tempFilePath s"
  "oa_tempFileStream (keep_tail str s) = oa_tempFileStream s" "oa_tempFile (keep_tail str s) = oa_tempFile s"
  by (simp_all add: keep_tail_def trimTail_def Let_def)

lemma appendDecodedText_unchanged [simp]:
  "oa_maxRollingBytes (appendDecodedText str s) = oa_maxRollingBytes s"
  "oa_maxLines (appendDecodedText str s) = oa_maxLines s" "oa_maxBytes (appendDecodedText str s) = oa_maxBytes s"
  "oa_decoder (appendDecodedText str s) = oa_decoder s" "oa_rawChunks (appendDecodedText str s) = oa_rawChunks s"
  "oa_totalRawBytes (appendDecodedText str s) = oa_totalRawBytes s"
  "oa_finished (appendDecodedText str s) = oa_finished s"
  "oa_tempFilePath (appendDecodedText str s) = oa_tempFilePath s"
  "oa_tempFileStream (appendDecodedText str s) = oa_tempFileStream s"
  "oa_tempFile (appendDecodedText str s) = oa_tempFile s"
  by (simp_all add: appendDecodedText_def)

lemma appendDecodedText_tracks:
  assumes "tracks cs s" "\<forall>c\<in>set ds. scalar c"
  shows "tracks (cs @ ds) (appendDecodedText (from_scalars ds) s)"
proof (cases "ds = []")
  case True
  then show ?thesis using assms(1) by (simp add: appendDecodedText_def from_scalars_def)
next
  case False
  define s' where "s' = s\<lparr>oa_totalDecodedBytes := oa_totalDecodedBytes s + byteLength (from_scalars ds)\<rparr>"
  have start: "\<not> low_surrogate (hd (from_scalars ds))"
    using from_scalars_starts_char [OF assms(2)] False by simp
  have "keeps_tail cs s'" "counts (from_scalars cs) s'"
    using assms(1) by (simp_all add: tracks_def s'_def counts_def keeps_tail_def)
  moreover from this have kept: "keeps_tail (cs @ ds) (keep_tail (from_scalars ds) s')"
      "oa_tailBytes (keep_tail (from_scalars ds) s') \<le> 2 * oa_maxRollingBytes s'"
    using keep_tail_keeps [of cs ds s'] assms by (simp_all add: tracks_def)
  moreover have "keeps_tail (cs @ ds) (count_lines (from_scalars ds) (keep_tail (from_scalars ds) s'))"
    using kept(1) by (subst keeps_tail_cong) simp_all
  moreover have "counts (from_scalars cs @ from_scalars ds)
      (count_lines (from_scalars ds) (keep_tail (from_scalars ds) s'))"
    using calculation(2) False start by (intro count_lines_counts) (simp_all add: counts_def)
  ultimately show ?thesis
    using assms False start
    by (auto simp: tracks_def appendDecodedText_def from_scalars_append byteLength_append simp flip: s'_def)
      (simp_all add: s'_def)
qed

section \<open>Any sequence of calls\<close>

text \<open>The code points the bytes \<open>data\<close> decode to, before or after the end of the output.\<close>

definition decoded_points :: "bytes \<Rightarrow> bool \<Rightarrow> nat list" where
  "decoded_points data ended =
     (case decode_bytes Idle data of (d, cs) \<Rightarrow>
        snd (drop_bom False (cs @ (if ended then decode_flush d else []))))"

definition decoder_after :: "bytes \<Rightarrow> text_decoder" where
  "decoder_after data =
     (case decode_bytes Idle data of (d, cs) \<Rightarrow> \<lparr>td_state = d, td_bomSeen = fst (drop_bom False cs)\<rparr>)"

lemma decoded_points_scalar: "\<forall>c\<in>set (decoded_points data ended). scalar c"
proof -
  obtain d cs where "decode_bytes Idle data = (d, cs)" by fastforce
  moreover from this have "\<forall>c\<in>set (cs @ (if ended then decode_flush d else [])). scalar c"
    using decode_bytes_sound [of Idle] decode_flush_sound by auto
  ultimately show ?thesis
    using drop_bom_scalar by (simp only: decoded_points_def prod.case)
qed

lemma drop_bom_Nil [simp]: "drop_bom seen [] = (seen, [])"
  by (cases seen) simp_all

lemma decode_stream_more:
  "\<exists>ds. decode_stream (decoder_after data) new = (from_scalars ds, decoder_after (data @ new))
      \<and> decoded_points (data @ new) False = decoded_points data False @ ds"
  by (auto simp: decode_stream_def decoder_after_def decoded_points_def decode_bytes_append drop_bom_append
      split: prod.splits)

lemma decode_all_rest:
  "\<exists>ds td. decode_all (decoder_after data) [] = (from_scalars ds, td)
      \<and> decoded_points data True = decoded_points data False @ ds"
  by (auto simp: decode_all_def decoder_after_def decoded_points_def drop_bom_append split: prod.splits)

datatype accumulator_call = Append bytes | Snapshot bool | Finish | CloseFile

fun accumulator_step :: "string \<Rightarrow> output_accumulator \<Rightarrow> accumulator_call \<Rightarrow> output_accumulator" where
  "accumulator_step path s (Append data) = (case append_data path data s of Inl _ \<Rightarrow> s | Inr s' \<Rightarrow> s')"
| "accumulator_step path s (Snapshot persist) = snd (snapshot path persist s)"
| "accumulator_step path s Finish = finish path s"
| "accumulator_step path s CloseFile = closeTempFile s"

definition accumulated :: "string \<Rightarrow> truncation_options \<Rightarrow> accumulator_call list \<Rightarrow> output_accumulator" where
  "accumulated path options calls = foldl (accumulator_step path) (new_accumulator options) calls"

text \<open>What the calls handed over: the bytes, whether the output ended, and whether the file was
  closed while more could come.\<close>

record ledger =
  lg_data :: bytes
  lg_ended :: bool
  lg_closedEarly :: bool

fun ledger_step :: "ledger \<Rightarrow> accumulator_call \<Rightarrow> ledger" where
  "ledger_step l (Append data) = (if lg_ended l then l else l\<lparr>lg_data := lg_data l @ data\<rparr>)"
| "ledger_step l (Snapshot persist) = l"
| "ledger_step l Finish = l\<lparr>lg_ended := True\<rparr>"
| "ledger_step l CloseFile = l\<lparr>lg_closedEarly := (lg_closedEarly l \<or> \<not> lg_ended l)\<rparr>"

definition ledger_of :: "accumulator_call list \<Rightarrow> ledger" where
  "ledger_of calls = foldl ledger_step \<lparr>lg_data = [], lg_ended = False, lg_closedEarly = False\<rparr> calls"

definition output_text :: "accumulator_call list \<Rightarrow> text16" where
  "output_text calls =
     from_scalars (decoded_points (lg_data (ledger_of calls)) (lg_ended (ledger_of calls)))"

text \<open>The bytes are in the raw chunks or, once over a limit, in the file.\<close>

definition keeps_output :: "ledger \<Rightarrow> output_accumulator \<Rightarrow> bool" where
  "keeps_output l s \<longleftrightarrow>
     oa_totalRawBytes s = length (lg_data l)
     \<and> (case oa_tempFilePath s of
          None \<Rightarrow> concat (oa_rawChunks s) = lg_data l \<and> \<not> shouldUseTempFile s \<and> \<not> oa_tempFileStream s
        | Some _ \<Rightarrow> lg_closedEarly l
            \<or> (oa_tempFile s = lg_data l \<and> oa_rawChunks s = [] \<and> (oa_tempFileStream s \<or> lg_ended l)))"

definition accumulates :: "truncation_options \<Rightarrow> ledger \<Rightarrow> output_accumulator \<Rightarrow> bool" where
  "accumulates options l s \<longleftrightarrow>
     oa_maxLines s = max_lines options \<and> oa_maxBytes s = max_bytes options
     \<and> oa_maxRollingBytes s = max (max_bytes options * 2) 1
     \<and> oa_finished s = lg_ended l
     \<and> (lg_ended l \<or> oa_decoder s = decoder_after (lg_data l))
     \<and> tracks (decoded_points (lg_data l) (lg_ended l)) s
     \<and> keeps_output l s"

lemma tracks_frame [simp]:
  "tracks cs (s\<lparr>oa_decoder := a\<rparr>) = tracks cs s" "tracks cs (s\<lparr>oa_rawChunks := b\<rparr>) = tracks cs s"
  "tracks cs (s\<lparr>oa_totalRawBytes := c\<rparr>) = tracks cs s" "tracks cs (s\<lparr>oa_finished := d\<rparr>) = tracks cs s"
  "tracks cs (s\<lparr>oa_tempFilePath := e\<rparr>) = tracks cs s" "tracks cs (s\<lparr>oa_tempFileStream := d\<rparr>) = tracks cs s"
  "tracks cs (s\<lparr>oa_tempFile := f\<rparr>) = tracks cs s" "tracks cs (ensureTempFile path s) = tracks cs s"
  by (simp_all add: tracks_def counts_def keeps_tail_def ensureTempFile_def)

lemma ensureTempFile_accumulates: "accumulates options l s \<Longrightarrow> accumulates options l (ensureTempFile path s)"
  unfolding accumulates_def tracks_frame
  by (auto simp: ensureTempFile_def keeps_output_def split: option.splits)

lemma accumulates_new:
  "accumulates options \<lparr>lg_data = [], lg_ended = False, lg_closedEarly = False\<rparr> (new_accumulator options)"
  by (simp add: accumulates_def new_accumulator_def keeps_output_def tracks_def counts_def keeps_tail_def
      decoded_points_def decoder_after_def new_text_decoder_def shouldUseTempFile_def from_scalars_def
      splitLinesForCounting_def)

lemma append_accumulates:
  assumes "accumulates options l s" "append_data path data s = Inr s'"
  shows "accumulates options (ledger_step l (Append data)) s'"
proof -
  have open_output: "\<not> oa_finished s" "\<not> lg_ended l"
    using assms by (auto simp: append_data_def accumulates_def split: if_splits)
  then have dec: "oa_decoder s = decoder_after (lg_data l)"
    and tr: "tracks (decoded_points (lg_data l) False) s" and kept: "keeps_output l s"
    using assms(1) by (simp_all add: accumulates_def)
  obtain ds where ds: "decode_stream (decoder_after (lg_data l)) data = (from_scalars ds, decoder_after (lg_data l @ data))"
      "decoded_points (lg_data l @ data) False = decoded_points (lg_data l) False @ ds"
    using decode_stream_more by blast
  define s1 where "s1 = appendDecodedText (from_scalars ds)
      (s\<lparr>oa_totalRawBytes := oa_totalRawBytes s + length data, oa_decoder := decoder_after (lg_data l @ data)\<rparr>)"
  have "\<forall>c\<in>set ds. scalar c"
    using decoded_points_scalar [of "lg_data l @ data" False] by (simp add: ds(2))
  then have tr1: "tracks (decoded_points (lg_data l @ data) False) s1"
    unfolding ds(2) s1_def using tr by (intro appendDecodedText_tracks) simp_all
  have "(if oa_tempFileStream s1 \<or> shouldUseTempFile s1
         then if oa_tempFileStream (ensureTempFile path s1)
              then ensureTempFile path s1\<lparr>oa_tempFile := oa_tempFile (ensureTempFile path s1) @ data\<rparr>
              else ensureTempFile path s1
         else if length data > 0 then s1\<lparr>oa_rawChunks := oa_rawChunks s1 @ [data]\<rparr> else s1) = s'"
    using assms(2) open_output(1)
    by (simp only: append_data_def dec ds(1) prod.case Let_def if_False s1_def sum.inject)
  note s' = this [symmetric]
  have "keeps_output (l\<lparr>lg_data := lg_data l @ data\<rparr>) s'"
    using kept open_output unfolding s'
    by (auto simp: keeps_output_def ensureTempFile_def Let_def shouldUseTempFile_def s1_def split: option.splits)
  moreover have "tracks (decoded_points (lg_data l @ data) False) s'"
    using tr1 unfolding s' by (auto simp del: length_greater_0_conv)
  ultimately show ?thesis
    using assms(1) open_output by (simp add: accumulates_def) (simp add: s' ensureTempFile_def s1_def)
qed

lemma finish_accumulates:
  assumes "accumulates options l s"
  shows "accumulates options (ledger_step l Finish) (finish path s)"
proof (cases "oa_finished s")
  case True
  then have "l\<lparr>lg_ended := True\<rparr> = l" using assms by (cases l) (simp add: accumulates_def)
  then show ?thesis using True assms by (simp add: finish_def)
next
  case False
  then have "\<not> lg_ended l" and dec: "oa_decoder s = decoder_after (lg_data l)"
    and tr: "tracks (decoded_points (lg_data l) False) s" and kept: "keeps_output l s"
    using assms by (auto simp: accumulates_def)
  obtain ds td where ds: "decode_all (decoder_after (lg_data l)) [] = (from_scalars ds, td)"
      "decoded_points (lg_data l) True = decoded_points (lg_data l) False @ ds"
    using decode_all_rest by blast
  define s1 where "s1 = appendDecodedText (from_scalars ds) (s\<lparr>oa_finished := True, oa_decoder := td\<rparr>)"
  have "\<forall>c\<in>set ds. scalar c"
    using decoded_points_scalar [of "lg_data l" True] by (simp add: ds(2))
  then have tr1: "tracks (decoded_points (lg_data l) True) s1"
    unfolding ds(2) s1_def using tr by (intro appendDecodedText_tracks) simp_all
  have s': "finish path s = (if shouldUseTempFile s1 then ensureTempFile path s1 else s1)"
    using False by (simp only: finish_def dec ds(1) prod.case Let_def if_False s1_def)
  have "keeps_output (l\<lparr>lg_ended := True\<rparr>) (finish path s)"
    using kept unfolding s'
    by (auto simp: keeps_output_def ensureTempFile_def shouldUseTempFile_def s1_def split: option.splits)
  moreover have "tracks (decoded_points (lg_data l) True) (finish path s)"
    using tr1 unfolding s' by simp
  ultimately show ?thesis
    using assms by (simp add: accumulates_def) (simp add: s' ensureTempFile_def s1_def)
qed

lemma accumulator_step_accumulates:
  assumes "accumulates options l s"
  shows "accumulates options (ledger_step l call) (accumulator_step path s call)"
proof (cases call)
  case (Append data)
  show ?thesis
  proof (cases "append_data path data s")
    case (Inl e)
    then have "lg_ended l"
      using assms by (auto simp: append_data_def Let_def accumulates_def split: if_splits prod.splits)
    then show ?thesis using Append Inl assms by simp
  next
    case (Inr s')
    then show ?thesis using Append append_accumulates [OF assms Inr] by simp
  qed
next
  case CloseFile
  then show ?thesis
    using assms by (auto simp: accumulates_def closeTempFile_def keeps_output_def shouldUseTempFile_def
        split: option.splits)
qed (use assms finish_accumulates [OF assms] in \<open>simp_all add: snapshot_def Let_def ensureTempFile_accumulates\<close>)

lemma accumulated_accumulates: "accumulates options (ledger_of calls) (accumulated path options calls)"
proof (induction calls rule: rev_induct)
  case Nil
  then show ?case by (simp add: ledger_of_def accumulated_def accumulates_new)
next
  case (snoc call calls)
  then show ?case
    using accumulator_step_accumulates by (simp add: ledger_of_def accumulated_def)
qed

section \<open>The display snapshot\<close>

lemma js_index_of_single:
  "js_index_of [c] s = (if c \<in> set s then Some (length (takeWhile (\<lambda>x. x \<noteq> c) s)) else None)"
  by (induction s) (auto simp: prefix_def)

lemma drop_first_line:
  assumes "c \<in> set s"
  shows "s = takeWhile (\<lambda>x. x \<noteq> c) s @ c # drop (length (takeWhile (\<lambda>x. x \<noteq> c) s) + 1) s"
  using assms by (induction s) auto

text \<open>Collecting lines from the end does not look beyond lines that are over a limit.\<close>

lemma collect_tail_ignores_rest:
  "maxBytes < byteLength (js_join [LF16] (rev ls @ out)) \<Longrightarrow> count = byteLength (js_join [LF16] out) \<Longrightarrow>
   count \<le> maxBytes \<Longrightarrow>
   collect_tail maxLines maxBytes out count (ls @ rest) = collect_tail maxLines maxBytes out count ls"
proof (induction ls arbitrary: out count)
  case (Cons l ls)
  show ?case
  proof (cases "length out < maxLines \<and> byteLength (js_join [LF16] (l # out)) \<le> maxBytes")
    case True
    then show ?thesis
      using Cons.IH [of "l # out" "byteLength (js_join [LF16] (l # out))"] Cons.prems
      by (auto simp: byteLength_join_Cons Let_def)
  next
    case False
    then show ?thesis
      using Cons.prems by (auto simp: byteLength_join_Cons Let_def)
  qed
qed simp

lemma open_line_counted:
  "a \<noteq> [] \<Longrightarrow> last a \<noteq> LF16 \<Longrightarrow> last (split_on LF16 a) \<in> set (splitLinesForCounting a)"
  "last (split_on LF16 a) \<in> set (splitLinesForCounting (a @ LF16 # b))"
proof -
  show "a \<noteq> [] \<Longrightarrow> last a \<noteq> LF16 \<Longrightarrow> last (split_on LF16 a) \<in> set (splitLinesForCounting a)"
    by (simp add: splitLinesForCounting_def)
  have "splitLinesForCounting ((a @ [LF16]) @ b) = splitLinesForCounting (a @ [LF16]) @ splitLinesForCounting b"
    by (rule splitLines_append) simp
  moreover have "splitLinesForCounting (a @ [LF16]) = split_on LF16 a"
    by (simp add: splitLinesForCounting_def split_on_snoc)
  ultimately show "last (split_on LF16 a) \<in> set (splitLinesForCounting (a @ LF16 # b))"
    by simp
qed

text \<open>A run of text without newline is part of one line, so it is no longer than the longest line.\<close>

lemma run_within_line:
  assumes "\<forall>l\<in>set (splitLinesForCounting (a @ p @ r)). byteLength l + n < M"
    and "LF16 \<notin> set p" "p = [] \<or> \<not> low_surrogate (hd p)" "p \<noteq> [] \<and> r = [] \<or> (\<exists>r'. r = LF16 # r')"
  shows "byteLength p + n < M"
proof -
  have "last (split_on LF16 (a @ p)) \<in> set (splitLinesForCounting (a @ p @ r))"
  proof (cases "p \<noteq> [] \<and> r = []")
    case True
    then have "last p \<noteq> LF16" using assms(2) by (metis last_in_set)
    then show ?thesis using True open_line_counted(1) [of "a @ p"] by simp
  next
    case False
    then obtain r' where "r = LF16 # r'" using assms(4) by auto
    then show ?thesis using open_line_counted(2) [of "a @ p" r'] by simp
  qed
  then have "byteLength (last (split_on LF16 a) @ p) + n < M"
    using assms(1,2) by (auto simp: last_line_append)
  then show ?thesis
    using assms(3) by (simp add: byteLength_append)
qed

text \<open>The part of the output a snapshot truncates: all of it, or whole last lines of it that are
  together over the byte limit.\<close>

lemma snapshot_text_cases:
  assumes "tracks cs s" and short: "\<forall>l\<in>set (splitLinesForCounting (from_scalars cs)). byteLength l + 5 < M"
    and "oa_maxRollingBytes s = max (M * 2) 1"
  shows "getSnapshotText s = from_scalars cs
       \<or> (\<exists>P. from_scalars cs = P @ getSnapshotText s \<and> (P = [] \<or> last P = LF16)
            \<and> M + 1 < byteLength (getSnapshotText s))"
proof -
  obtain k where k: "k \<le> length cs" "oa_tailText s = from_scalars (drop k cs)"
      "oa_tailStartsAtLineBoundary s = (k = 0 \<or> cs ! (k - 1) = 0x0A)"
      "k = 0 \<or> oa_maxRollingBytes s \<le> byteLength (oa_tailText s) + 3"
    using assms(1) unfolding tracks_def keeps_tail_def by metis
  define P R where "P = from_scalars (take k cs)" and "R = from_scalars (drop k cs)"
  have T: "from_scalars cs = P @ R" by (simp add: P_def R_def flip: from_scalars_append)
  have R_start: "R = [] \<or> \<not> low_surrogate (hd R)"
    unfolding R_def using assms(1) by (intro from_scalars_starts_char ball_set_dropI) (simp add: tracks_def)
  show ?thesis
  proof (cases "k = 0")
    case True
    then show ?thesis using k by (simp add: getSnapshotText_def)
  next
    case False
    then have long: "2 * M \<le> byteLength R + 3" using k(2,4) assms(3) by (simp add: R_def)
    have "from_scalars cs \<noteq> []" using False k(1) by auto
    then have "5 < M" using short by (cases "splitLinesForCounting (from_scalars cs)") auto
    consider (boundary) "cs ! (k - 1) = 0x0A" | (newline) "cs ! (k - 1) \<noteq> 0x0A" "LF16 \<in> set R"
      | (one_line) "LF16 \<notin> set R" by blast
    then show ?thesis
    proof cases
      case boundary
      have "take k cs = take (k - 1) cs @ [cs ! (k - 1)]"
        using k(1) False take_Suc_conv_app_nth [of "k - 1" cs] by simp
      then have "last P = LF16"
        using boundary by (simp add: P_def from_scalars_append) (simp add: from_scalars_def units_of_def
            code_unit_def LF16_def)
      moreover have "getSnapshotText s = R" using k(2,3) boundary by (simp add: getSnapshotText_def R_def)
      moreover have "M + 1 < byteLength R" using long \<open>5 < M\<close> by simp
      ultimately show ?thesis using T by auto
    next
      case newline
      define p r where "p = takeWhile (\<lambda>x. x \<noteq> LF16) R" and "r = drop (length p + 1) R"
      have R: "R = p @ LF16 # r" using drop_first_line [OF newline(2)] by (simp add: p_def r_def)
      have snap: "getSnapshotText s = r"
        using k(2,3) newline False by (simp add: getSnapshotText_def js_index_of_single r_def p_def flip: R_def)
      have "LF16 \<notin> set p" by (auto simp: p_def dest: set_takeWhileD)
      moreover have "p = [] \<or> \<not> low_surrogate (hd p)" using R_start by (auto simp: R)
      ultimately have "byteLength p + 5 < M"
        using short by (intro run_within_line [of P p "LF16 # r"]) (simp_all add: T R)
      then have "M + 1 < byteLength r" using long by (simp add: R byteLength_append_LF)
      then show ?thesis
        unfolding snap by (intro disjI2 exI [of _ "P @ p @ [LF16]"]) (simp add: T R)
    next
      case one_line
      have "R \<noteq> []" using long \<open>5 < M\<close> by auto
      then have "byteLength R + 5 < M"
        using short R_start one_line by (intro run_within_line [of P R "[]"]) (simp_all add: T)
      then show ?thesis using long by simp
    qed
  qed
qed

lemma truncateTail_totals:
  fixes str :: text16 and options :: truncation_options
  defines "r \<equiv> truncateTail str options"
  shows "tr_totalLines r = length (splitLinesForCounting str)" "tr_totalBytes r = byteLength str"
    "tr_maxLines r = max_lines options" "tr_maxBytes r = max_bytes options"
    "tr_truncated r = (length (splitLinesForCounting str) > max_lines options \<or> byteLength str > max_bytes options)"
    "tr_truncatedBy r = None \<longleftrightarrow> \<not> tr_truncated r"
  by (auto simp: r_def truncateTail_def Let_def untruncated_def split: prod.split)

lemma explicit_limits [simp]:
  "max_lines \<lparr>to_maxLines = Some n, to_maxBytes = b\<rparr> = n"
  "max_bytes \<lparr>to_maxLines = l, to_maxBytes = Some m\<rparr> = m"
  by (simp_all add: max_lines_def max_bytes_def)

lemma bytes_of_end: "P = [] \<or> last P = LF16 \<Longrightarrow> byteLength R \<le> byteLength (P @ R)"
  using byteLength_append_LF [of "butlast P" R] by (cases P rule: rev_cases) auto

lemma truncateTail_append:
  assumes "P = [] \<or> last P = LF16" "max_bytes options + 1 < byteLength R"
  shows "truncateTail (P @ R) options =
     (truncateTail R options)\<lparr>tr_totalLines := length (splitLinesForCounting (P @ R)),
       tr_totalBytes := byteLength (P @ R)\<rparr>"
proof -
  have lines: "splitLinesForCounting (P @ R) = splitLinesForCounting P @ splitLinesForCounting R"
    using assms(1) by (rule splitLines_append)
  have "byteLength R \<le> byteLength (P @ R)" by (rule bytes_of_end [OF assms(1)])
  moreover have "collect_tail (max_lines options) (max_bytes options) [] 0
       (rev (splitLinesForCounting R) @ rev (splitLinesForCounting P)) =
     collect_tail (max_lines options) (max_bytes options) [] 0 (rev (splitLinesForCounting R))"
    using splitLines_bytes [of R] assms(2) by (intro collect_tail_ignores_rest) simp_all
  ultimately show ?thesis
    using assms(2) by (simp add: truncateTail_def Let_def lines split: prod.split)
qed

lemma snapshot_overrides:
  fixes s :: output_accumulator
  defines "r \<equiv> truncateTail (getSnapshotText s) \<lparr>to_maxLines = Some (oa_maxLines s), to_maxBytes = Some (oa_maxBytes s)\<rparr>"
  assumes "tr_truncated r = (oa_totalLines s > oa_maxLines s \<or> oa_totalDecodedBytes s > oa_maxBytes s)"
  shows "snapshot_truncation s = r\<lparr>tr_totalLines := oa_totalLines s, tr_totalBytes := oa_totalDecodedBytes s\<rparr>"
proof -
  have "tr_maxLines r = oa_maxLines s" "tr_maxBytes r = oa_maxBytes s" "tr_truncatedBy r = None \<longleftrightarrow> \<not> tr_truncated r"
    unfolding r_def truncateTail_totals by (simp_all add: max_lines_def max_bytes_def)
  then show ?thesis
    using assms(2)
    by (intro truncation_result.equality)
      (auto simp: snapshot_truncation_def Let_def simp flip: r_def split: option.splits)
qed

text \<open>C23: as long as every line is a little shorter than the byte limit, the snapshot of the
  accumulator, which only kept a tail, is the truncation of the whole output decoded at once,
  however the bytes were cut into chunks and whatever snapshots were taken in between.\<close>

theorem snapshot_truncates_whole_output:
  assumes "\<forall>l\<in>set (splitLinesForCounting (output_text calls)). byteLength l + 5 < max_bytes options"
  shows "os_truncation (fst (snapshot path persist (accumulated path options calls))) =
           truncateTail (output_text calls) options"
proof -
  define s where "s = accumulated path options calls"
  define o' where "o' = \<lparr>to_maxLines = Some (oa_maxLines s), to_maxBytes = Some (oa_maxBytes s)\<rparr>"
  define T R where "T = output_text calls" and "R = getSnapshotText s"
  have acc: "accumulates options (ledger_of calls) s"
    unfolding s_def by (rule accumulated_accumulates)
  then have "tracks (decoded_points (lg_data (ledger_of calls)) (lg_ended (ledger_of calls))) s"
    and limits: "max_lines o' = max_lines options" "max_bytes o' = max_bytes options"
      "oa_maxLines s = max_lines options" "oa_maxBytes s = max_bytes options"
      "oa_maxRollingBytes s = max (max_bytes options * 2) 1"
    by (simp_all add: accumulates_def o'_def max_lines_def max_bytes_def)
  then have totals: "oa_totalLines s = length (splitLinesForCounting T)" "oa_totalDecodedBytes s = byteLength T"
    and "R = T \<or> (\<exists>P. T = P @ R \<and> (P = [] \<or> last P = LF16) \<and> max_bytes options + 1 < byteLength R)"
    using snapshot_text_cases [of _ s "max_bytes options"] assms
    by (auto simp: T_def R_def output_text_def tracks_def counts_def)
  moreover have same: "truncateTail T options = truncateTail T o'"
    by (simp add: truncateTail_def limits)
  ultimately consider "R = T" | P where "T = P @ R" "P = [] \<or> last P = LF16" "max_bytes o' + 1 < byteLength R"
    by (auto simp: limits)
  then have "snapshot_truncation s = truncateTail T o'"
  proof cases
    case 1
    then have "snapshot_truncation s =
        (truncateTail T o')\<lparr>tr_totalLines := oa_totalLines s, tr_totalBytes := oa_totalDecodedBytes s\<rparr>"
      unfolding o'_def R_def [symmetric] by (subst snapshot_overrides)
        (simp_all add: truncateTail_totals totals limits o'_def [symmetric] flip: R_def)
    then show ?thesis
      by (simp add: totals flip: truncateTail_totals(1,2) [of T o'])
  next
    case (2 P)
    have "byteLength R \<le> byteLength T"
      using truncateTail_append [OF 2(2,3)] 2(1) by (simp add: bytes_of_end [OF 2(2)])
    then have "snapshot_truncation s =
        (truncateTail R o')\<lparr>tr_totalLines := oa_totalLines s, tr_totalBytes := oa_totalDecodedBytes s\<rparr>"
      unfolding o'_def R_def using 2(3) by (intro snapshot_overrides)
        (auto simp: truncateTail_totals totals limits o'_def [symmetric] simp flip: R_def)
    then show ?thesis
      using truncateTail_append [OF 2(2,3)] by (simp add: totals 2(1))
  qed
  then show ?thesis using same by (simp add: snapshot_def Let_def s_def T_def)
qed

definition two_chunks :: "accumulator_call list" where
  "two_chunks = [Append (map byte [97, 98, 10, 99]), Snapshot False, Append (map byte [100]), Finish]"

lemma output_of_two_chunks: "output_text two_chunks = js ''ab'' @ [LF16] @ js ''cd''"
  by (simp add: output_text_def two_chunks_def ledger_of_def decoded_points_def decode_idle_def from_scalars_def
      units_of_def code_unit_def js_def LF16_def)

lemma snapshot_truncates_whole_output_witness:
  "os_truncation (fst (snapshot ''out.log'' True
       (accumulated ''out.log'' \<lparr>to_maxLines = Some 1, to_maxBytes = Some 8\<rparr> two_chunks))) =
     truncateTail (js ''ab'' @ [LF16] @ js ''cd'') \<lparr>to_maxLines = Some 1, to_maxBytes = Some 8\<rparr>"
proof -
  have "\<forall>l\<in>set (splitLinesForCounting (output_text two_chunks)).
          byteLength l + 5 < max_bytes \<lparr>to_maxLines = Some 1, to_maxBytes = Some 8\<rparr>"
    unfolding output_of_two_chunks by code_simp
  from snapshot_truncates_whole_output [OF this] show ?thesis
    unfolding output_of_two_chunks .
qed

lemma units_of_LF:
  assumes "us @ [LF16] = vs @ units_of c"
  shows "vs = us"
proof (cases "c < 0x10000")
  case False
  let ?low = "0xDC00 + (c - 0x10000) mod 0x400"
  from assms False have "LF16 = code_unit ?low" by (simp add: units_of_def)
  moreover have "unat (code_unit ?low) = ?low" by (rule unat_code_unit) simp
  moreover have "unat LF16 = 10" by (simp add: LF16_def)
  ultimately show ?thesis by simp
qed (use assms in \<open>simp add: units_of_def\<close>)

text \<open>A line over a limit of four bytes has a last character that fits, so its tail is not empty.\<close>

lemma partial_line_shown:
  assumes cs: "\<forall>c\<in>set cs. scalar c" and over: "maxBytes < byteLength (from_scalars cs)" and room: "4 \<le> maxBytes"
  shows "\<exists>k<length cs. truncateStringToBytesFromEnd (from_scalars cs) maxBytes = from_scalars (drop k cs)"
proof -
  have sc: "scalars (from_scalars cs) = cs" by (rule scalars_from_scalars [OF cs])
  from partial_line [OF over] obtain k where k: "0 < k" "k \<le> length cs"
    "truncateStringToBytesFromEnd (from_scalars cs) maxBytes = from_scalars (drop k cs)"
    "maxBytes < byteLength (from_scalars (drop (k - 1) cs))" unfolding sc by metis
  have "k \<noteq> length cs"
  proof
    assume full: "k = length cs"
    with k(1) have c: "drop (k - 1) cs = [last cs]" "scalar (last cs)"
      using cs by (cases cs rule: rev_cases; simp)+
    then have "byteLength (from_scalars (drop (k - 1) cs)) = length (utf8_char (last cs))"
      by (simp add: byteLength_from_scalars utf8_scalars_def)
    with k(4) room utf8_char_length [of "last cs"] show False by simp
  qed
  with k show ?thesis by (auto intro: exI [of _ k])
qed

text \<open>C39: an output of one line that is more than four times over the byte limit and ends in a newline is
  lost: the tail starts inside the line, so all of it is skipped up to its newline and the
  snapshot is empty, although truncating the whole output shows a part of the line that is
  not empty and with which the line ends, as every limit of at least four bytes has room for.\<close>

lemma long_line_snapshot_is_empty:
  assumes shown: "output_text calls = str @ [LF16]" "LF16 \<notin> set str"
    and long: "2 * max (max_bytes options * 2) 1 \<le> byteLength str" and limits: "4 \<le> max_bytes options" "0 < max_lines options"
  shows "os_content (fst (snapshot path persist (accumulated path options calls))) = []
       \<and> (\<exists>front tail. str = front @ tail \<and> tail \<noteq> [] \<and> tr_content (truncateTail (output_text calls) options) = tail)"
proof -
  define s cs where "s = accumulated path options calls"
    and "cs = decoded_points (lg_data (ledger_of calls)) (lg_ended (ledger_of calls))"
  have T: "from_scalars cs = str @ [LF16]" using shown(1) by (simp add: output_text_def cs_def)
  have acc: "accumulates options (ledger_of calls) s"
    unfolding s_def by (rule accumulated_accumulates)
  then have tr: "tracks cs s" and roll: "oa_maxRollingBytes s = max (max_bytes options * 2) 1"
    by (simp_all add: accumulates_def cs_def)
  then obtain k where k: "k \<le> length cs" "oa_tailText s = from_scalars (drop k cs)"
      "oa_tailStartsAtLineBoundary s = (k = 0 \<or> cs ! (k - 1) = 0x0A)"
      "k = 0 \<or> oa_maxRollingBytes s \<le> byteLength (oa_tailText s) + 3"
      "byteLength (oa_tailText s) \<le> 2 * oa_maxRollingBytes s"
    unfolding tracks_def keeps_tail_def by metis
  have "byteLength (str @ [LF16]) = byteLength str + 1"
    using byteLength_append_LF [of str "[]"] by simp
  then have "k \<noteq> 0" using k(2,5) long roll T by (cases k) auto
  moreover have "oa_tailText s \<noteq> []" using k(4) roll limits calculation by auto
  moreover have "from_scalars (take k cs) @ oa_tailText s = str @ [LF16]"
    by (simp add: k(2) T flip: from_scalars_append)
  ultimately obtain p where p: "oa_tailText s = p @ [LF16]" "from_scalars (take k cs) @ p = str"
    by (cases "oa_tailText s" rule: rev_cases) auto
  have "cs ! (k - 1) \<noteq> 0x0A"
  proof
    assume "cs ! (k - 1) = 0x0A"
    moreover have "take k cs = take (k - 1) cs @ [cs ! (k - 1)]"
      using k(1) \<open>k \<noteq> 0\<close> take_Suc_conv_app_nth [of "k - 1" cs] by simp
    ultimately have "LF16 \<in> set (from_scalars (take k cs))"
      by (simp add: from_scalars_append) (simp add: from_scalars_def units_of_def code_unit_def LF16_def)
    then show False using shown(2) p(2) by auto
  qed
  moreover have "takeWhile (\<lambda>x. x \<noteq> LF16) (oa_tailText s) = p"
    using p shown(2) by (subst p(1), subst takeWhile_append2) auto
  ultimately have "getSnapshotText s = []"
    using k(3) \<open>k \<noteq> 0\<close> p shown(2) by (auto simp: getSnapshotText_def js_index_of_single)
  then have "os_content (fst (snapshot path persist s)) = []"
    by (simp add: snapshot_def Let_def snapshot_truncation_def truncateTail_def untruncated_def splitLinesForCounting_def)
  moreover have "tr_content (truncateTail (output_text calls) options) = truncateStringToBytesFromEnd str (max_bytes options)"
  proof -
    have "splitLinesForCounting (output_text calls) = [str]"
      using shown by (simp add: splitLinesForCounting_def split_on_snoc split_on_no_newline)
    with long limits byteLength_append_LF [of str "[]"] show ?thesis
      by (simp add: truncateTail_def Let_def shown(1))
  qed
  moreover have "\<exists>front tail. str = front @ tail \<and> tail \<noteq> [] \<and> truncateStringToBytesFromEnd str (max_bytes options) = tail"
  proof -
    have sc: "\<forall>c\<in>set cs. scalar c" unfolding cs_def by (rule decoded_points_scalar)
    from T obtain ds c where cs: "cs = ds @ [c]" by (cases cs rule: rev_cases) (auto simp: from_scalars_def)
    from T have "str @ [LF16] = from_scalars ds @ units_of c"
      by (simp add: cs from_scalars_append) (simp add: from_scalars_def)
    then have ds: "from_scalars ds = str" by (rule units_of_LF)
    from sc cs ds long limits obtain m where m: "m < length ds"
      "truncateStringToBytesFromEnd str (max_bytes options) = from_scalars (drop m ds)"
      using partial_line_shown [of ds "max_bytes options"] by auto
    moreover have "str = from_scalars (take m ds) @ from_scalars (drop m ds)"
      by (simp add: ds flip: from_scalars_append)
    moreover have "from_scalars (drop m ds) \<noteq> []"
    proof -
      have "drop m ds = ds ! m # drop (Suc m) ds" using m(1) by (simp add: Cons_nth_drop_Suc)
      moreover have "units_of (ds ! m) \<noteq> []" by (simp add: units_of_def)
      ultimately show ?thesis by (simp add: from_scalars_def)
    qed
    ultimately show ?thesis by blast
  qed
  ultimately show ?thesis by (simp add: s_def)
qed

definition long_line :: "accumulator_call list" where
  "long_line = [Append (map byte [120, 120, 120, 120, 120, 120, 120, 120, 120, 120, 120, 120, 120, 120, 120, 120, 10]), Finish]"

lemma output_of_long_line: "output_text long_line = js ''xxxxxxxxxxxxxxxx'' @ [LF16]"
  by (simp add: output_text_def long_line_def ledger_of_def decoded_points_def decode_idle_def from_scalars_def
      units_of_def code_unit_def js_def LF16_def)

lemma long_line_snapshot_is_empty_witness:
  "os_content (fst (snapshot ''out.log'' True
       (accumulated ''out.log'' \<lparr>to_maxLines = Some 10, to_maxBytes = Some 4\<rparr> long_line))) = []
   \<and> (\<exists>front tail. js ''xxxxxxxxxxxxxxxx'' = front @ tail \<and> tail \<noteq> []
        \<and> tr_content (truncateTail (output_text long_line) \<lparr>to_maxLines = Some 10, to_maxBytes = Some 4\<rparr>) = tail)"
proof -
  have "byteLength (js ''xxxxxxxxxxxxxxxx'') = 16" "LF16 \<notin> set (js ''xxxxxxxxxxxxxxxx'')"
    by code_simp+
  then show ?thesis
    by (intro long_line_snapshot_is_empty [OF output_of_long_line]) simp_all
qed

section \<open>Nothing is lost, little is kept\<close>

text \<open>C31: after any calls the counters are those of the whole output; every byte handed over is
  either in the raw chunks or in the file, unless the file was closed while more could come,
  and what is read back at the end is the whole text; in memory stay at most
  four times the byte limit of text (or two bytes) and the byte limit of raw chunks.\<close>

theorem output_is_kept:
  fixes calls :: "accumulator_call list" and options :: truncation_options and path :: string
  defines "s \<equiv> accumulated path options calls" and "l \<equiv> ledger_of calls"
  shows "oa_totalRawBytes s = length (lg_data l)
       \<and> oa_totalDecodedBytes s = byteLength (output_text calls)
       \<and> oa_totalLines s = length (splitLinesForCounting (output_text calls))
       \<and> getLastLineBytes s = byteLength (last (split_on LF16 (output_text calls)))
       \<and> byteLength (oa_tailText s) \<le> 2 * max (max_bytes options * 2) 1
       \<and> (if lg_closedEarly l then True
          else if oa_tempFilePath s = None
          then concat (oa_rawChunks s) = lg_data l \<and> length (lg_data l) \<le> max_bytes options
          else oa_tempFile s = lg_data l \<and> oa_rawChunks s = [])
       \<and> (if lg_ended l \<and> \<not> lg_closedEarly l \<and> length (lg_data l) \<le> cap
          then readFullOutput cap s = \<lparr>fo_content = output_text calls, fo_truncated = False\<rparr> else True)"
proof -
  have acc: "accumulates options l s"
    unfolding s_def l_def by (rule accumulated_accumulates)
  then have tr: "tracks (decoded_points (lg_data l) (lg_ended l)) s" and kept: "keeps_output l s"
    and limits: "oa_maxBytes s = max_bytes options" "oa_maxRollingBytes s = max (max_bytes options * 2) 1"
    by (simp_all add: accumulates_def)
  have read: "fst (decode_all new_text_decoder (lg_data l)) = output_text calls" if "lg_ended l"
    using that by (simp add: decode_all_def new_text_decoder_def output_text_def decoded_points_def flip: l_def
        split: prod.split)
  have files: "lg_closedEarly l \<or> (if oa_tempFilePath s = None
      then concat (oa_rawChunks s) = lg_data l \<and> length (lg_data l) \<le> max_bytes options
      else oa_tempFile s = lg_data l \<and> oa_rawChunks s = [])"
    using kept limits(1) by (auto simp: keeps_output_def shouldUseTempFile_def split: option.splits)
  moreover from this have "readFullOutput cap s = \<lparr>fo_content = output_text calls, fo_truncated = False\<rparr>"
    if "lg_ended l" "\<not> lg_closedEarly l" "length (lg_data l) \<le> cap"
    using that read by (auto simp: readFullOutput_def split: if_splits)
  moreover have "oa_totalRawBytes s = length (lg_data l)"
    using kept by (simp add: keeps_output_def)
  moreover have "oa_totalDecodedBytes s = byteLength (output_text calls)
      \<and> oa_totalLines s = length (splitLinesForCounting (output_text calls))
      \<and> getLastLineBytes s = byteLength (last (split_on LF16 (output_text calls)))
      \<and> byteLength (oa_tailText s) \<le> 2 * max (max_bytes options * 2) 1"
    using tr limits(2)
    by (simp add: tracks_def counts_def keeps_tail_def getLastLineBytes_def output_text_def flip: l_def)
  ultimately show ?thesis by (cases "lg_closedEarly l") simp_all
qed

end
