(* ===== verification/Mutation_Queue.thy ===== *)
theory Mutation_Queue
  imports Pi_Prelude
begin

text \<open>
  The queue that serializes the tools' changes to a file
  (\<open>packages/coding-agent/src/core/tools/file-mutation-queue.ts\<close>). Calls of
  \<open>withFileMutationQueue\<close> are numbered in the order they are made. A promise is what it waits
  for: \<open>currentQueue\<close> of a call is the chained promise of an earlier call or the resolved one
  (\<open>None\<close>), and the chained promise of a call settles once its \<open>currentQueue\<close> has and the call
  was released. Every microtask and every await that ends is one step, in any order the promises
  allow.
\<close>

section \<open>The key of a file\<close>

text \<open>\<open>realpath\<close> gives the canonical path or the code of its error.\<close>

definition isMissingPathError :: "string option \<Rightarrow> bool" where
  "isMissingPathError code \<longleftrightarrow> code = Some ''ENOENT'' \<or> code = Some ''ENOTDIR''"

definition getMutationQueueKey ::
  "(string \<Rightarrow> string) \<Rightarrow> (string \<Rightarrow> string option + string) \<Rightarrow> string \<Rightarrow> string option + string" where
  "getMutationQueueKey resolve realpath filePath =
     (let resolvedPath = resolve filePath
      in case realpath resolvedPath of
           Inr key \<Rightarrow> Inr key
         | Inl code \<Rightarrow> if isMissingPathError code then Inr resolvedPath else Inl code)"

section \<open>The steps of the calls\<close>

datatype call_phase = Registering | Rejected | Waiting | Running | Finished

record mutation_queue =
  mq_paths :: "string list"
  mq_phase :: "nat \<Rightarrow> call_phase"
  mq_registration :: "nat list"
  mq_queues :: "string \<Rightarrow> nat option"
  mq_key :: "nat \<Rightarrow> string option"
  mq_current :: "nat \<Rightarrow> nat option"
  mq_settled :: "nat \<Rightarrow> bool"

definition new_mutation_queue :: mutation_queue where
  "new_mutation_queue = \<lparr>mq_paths = [], mq_phase = (\<lambda>_. Registering), mq_registration = [],
     mq_queues = (\<lambda>_. None), mq_key = (\<lambda>_. None), mq_current = (\<lambda>_. None), mq_settled = (\<lambda>_. False)\<rparr>"

definition withFileMutationQueue :: "string \<Rightarrow> 'a mutation_queue_scheme \<Rightarrow> 'a mutation_queue_scheme" where
  "withFileMutationQueue filePath q =
     (let i = length (mq_paths q)
      in q\<lparr>mq_paths := mq_paths q @ [filePath], mq_registration := mq_registration q @ [i]\<rparr>)"

definition register_next ::
  "(string \<Rightarrow> string) \<Rightarrow> (string \<Rightarrow> string option + string) \<Rightarrow> 'a mutation_queue_scheme \<Rightarrow> 'a mutation_queue_scheme option" where
  "register_next resolve realpath q =
     (case mq_registration q of
        [] \<Rightarrow> None
      | i # rest \<Rightarrow>
          (case getMutationQueueKey resolve realpath (mq_paths q ! i) of
             Inl _ \<Rightarrow> Some (q\<lparr>mq_registration := rest, mq_phase := (mq_phase q)(i := Rejected)\<rparr>)
           | Inr key \<Rightarrow>
               Some (q\<lparr>mq_registration := rest,
                       mq_phase := (mq_phase q)(i := Waiting),
                       mq_key := (mq_key q)(i := Some key),
                       mq_current := (mq_current q)(i := mq_queues q key),
                       mq_queues := (mq_queues q)(key := Some i)\<rparr>)))"

definition resolved :: "'a mutation_queue_scheme \<Rightarrow> nat option \<Rightarrow> bool" where
  "resolved q promise = (case promise of None \<Rightarrow> True | Some j \<Rightarrow> mq_settled q j)"

definition start_call :: "nat \<Rightarrow> 'a mutation_queue_scheme \<Rightarrow> 'a mutation_queue_scheme option" where
  "start_call i q =
     (if i < length (mq_paths q) \<and> mq_phase q i = Waiting \<and> resolved q (mq_current q i)
      then Some (q\<lparr>mq_phase := (mq_phase q)(i := Running)\<rparr>) else None)"

definition finish_call :: "nat \<Rightarrow> 'a mutation_queue_scheme \<Rightarrow> 'a mutation_queue_scheme option" where
  "finish_call i q =
     (if i < length (mq_paths q) \<and> mq_phase q i = Running
      then Some (q\<lparr>mq_phase := (mq_phase q)(i := Finished),
                   mq_queues := (case mq_key q i of
                       Some key \<Rightarrow> if mq_queues q key = Some i then (mq_queues q)(key := None) else mq_queues q
                     | None \<Rightarrow> mq_queues q)\<rparr>)
      else None)"

definition settle_call :: "nat \<Rightarrow> 'a mutation_queue_scheme \<Rightarrow> 'a mutation_queue_scheme option" where
  "settle_call i q =
     (if i < length (mq_paths q) \<and> mq_phase q i = Finished \<and> \<not> mq_settled q i \<and> resolved q (mq_current q i)
      then Some (q\<lparr>mq_settled := (mq_settled q)(i := True)\<rparr>) else None)"

datatype queue_event =
    CallMade string
  | Registered "string \<Rightarrow> string option + string"
  | Started nat
  | Ended nat
  | Settled nat

fun queue_step :: "(string \<Rightarrow> string) \<Rightarrow> queue_event \<Rightarrow> 'a mutation_queue_scheme \<Rightarrow> 'a mutation_queue_scheme option" where
  "queue_step resolve (CallMade path) q = Some (withFileMutationQueue path q)"
| "queue_step resolve (Registered realpath) q = register_next resolve realpath q"
| "queue_step resolve (Started i) q = start_call i q"
| "queue_step resolve (Ended i) q = finish_call i q"
| "queue_step resolve (Settled i) q = settle_call i q"

inductive queue_reachable :: "(string \<Rightarrow> string) \<Rightarrow> mutation_queue \<Rightarrow> bool" for resolve where
  initially: "queue_reachable resolve new_mutation_queue"
| step: "queue_reachable resolve q \<Longrightarrow> queue_step resolve event q = Some q' \<Longrightarrow> queue_reachable resolve q'"

section \<open>One call at a time, in order\<close>

abbreviation call_count :: "'a mutation_queue_scheme \<Rightarrow> nat" where
  "call_count q \<equiv> length (mq_paths q)"

text \<open>The calls register in the order they are made: those from \<open>m\<close> on have not registered.\<close>

definition registered_up_to :: "nat \<Rightarrow> 'a mutation_queue_scheme \<Rightarrow> bool" where
  "registered_up_to m q \<longleftrightarrow>
     m \<le> call_count q \<and> mq_registration q = [m..<call_count q]
     \<and> (\<forall>i. mq_phase q i = Registering \<longleftrightarrow> m \<le> i)
     \<and> (\<forall>i. mq_key q i \<noteq> None \<longleftrightarrow> mq_phase q i \<noteq> Registering \<and> mq_phase q i \<noteq> Rejected)
     \<and> (\<forall>i. mq_settled q i \<longrightarrow> mq_phase q i = Finished)"

text \<open>A promise stands for all earlier calls on the file: it is that of the last of them, and it is
  the resolved one only when they have finished.\<close>

definition stands_for :: "'a mutation_queue_scheme \<Rightarrow> string \<Rightarrow> nat option \<Rightarrow> nat \<Rightarrow> bool" where
  "stands_for q key promise n \<longleftrightarrow>
     (case promise of
        None \<Rightarrow> \<forall>j<n. mq_key q j = Some key \<longrightarrow> mq_phase q j = Finished
      | Some j \<Rightarrow> j < n \<and> mq_key q j = Some key \<and> (\<forall>l. j < l \<and> l < n \<longrightarrow> mq_key q l \<noteq> Some key))"

definition queues_inv :: "'a mutation_queue_scheme \<Rightarrow> bool" where
  "queues_inv q \<longleftrightarrow> (\<forall>key. stands_for q key (mq_queues q key) (call_count q))"

definition waits_inv :: "'a mutation_queue_scheme \<Rightarrow> bool" where
  "waits_inv q \<longleftrightarrow> (\<forall>i key. mq_key q i = Some key \<longrightarrow> stands_for q key (mq_current q i) i)"

text \<open>A call that is past waiting found all earlier calls on its file finished.\<close>

definition order_inv :: "'a mutation_queue_scheme \<Rightarrow> bool" where
  "order_inv q \<longleftrightarrow>
     (\<forall>i j key. mq_key q i = Some key \<and> mq_key q j = Some key \<and> j < i \<and> mq_phase q i \<noteq> Waiting
        \<longrightarrow> mq_phase q j = Finished)"

definition queue_inv :: "'a mutation_queue_scheme \<Rightarrow> bool" where
  "queue_inv q \<longleftrightarrow> (\<exists>m. registered_up_to m q) \<and> queues_inv q \<and> waits_inv q \<and> order_inv q"

lemmas queue_inv_defs = registered_up_to_def queues_inv_def waits_inv_def order_inv_def stands_for_def

lemma stands_for_simps [simp]:
  "stands_for q key None n \<longleftrightarrow> (\<forall>j<n. mq_key q j = Some key \<longrightarrow> mq_phase q j = Finished)"
  "stands_for q key (Some j) n \<longleftrightarrow> j < n \<and> mq_key q j = Some key \<and> (\<forall>l. j < l \<and> l < n \<longrightarrow> mq_key q l \<noteq> Some key)"
  by (simp_all add: stands_for_def)

lemma stands_for_keep:
  "stands_for q key p n \<Longrightarrow> \<forall>j<n. mq_key q' j = mq_key q j
     \<Longrightarrow> \<forall>j<n. mq_phase q j = Finished \<longrightarrow> mq_phase q' j = Finished \<Longrightarrow> stands_for q' key p n"
  by (cases p) auto

lemma stands_for_Suc: "stands_for q key p n \<Longrightarrow> mq_key q n \<noteq> Some key \<Longrightarrow> stands_for q key p (Suc n)"
  by (cases p) (auto simp: less_Suc_eq)

lemma stands_for_extend:
  "stands_for q key p m \<Longrightarrow> m \<le> n \<Longrightarrow> \<forall>j. m \<le> j \<and> j < n \<longrightarrow> mq_key q j \<noteq> Some key \<Longrightarrow> stands_for q key p n"
  by (cases p) (auto, (metis not_less)+)

lemma queue_invE:
  assumes "queue_inv q"
  obtains m where "registered_up_to m q" "queues_inv q" "waits_inv q" "order_inv q"
  using assms by (auto simp: queue_inv_def)

lemma registered_key:
  assumes "registered_up_to m q" "mq_phase q i \<notin> {Registering, Rejected}"
  obtains key where "mq_key q i = Some key" "i < call_count q"
proof -
  have "mq_key q i \<noteq> None" "i < m" "m \<le> call_count q"
    using assms by (simp_all add: registered_up_to_def flip: not_le)
  then show thesis using that by auto
qed

lemma order_invD:
  "order_inv q \<Longrightarrow> mq_key q i = Some key \<Longrightarrow> mq_key q j = Some key \<Longrightarrow> j < i \<Longrightarrow> mq_phase q i \<noteq> Waiting
     \<Longrightarrow> mq_phase q j = Finished"
  unfolding order_inv_def by blast

lemma waits_keep:
  "waits_inv q \<Longrightarrow> mq_key q' = mq_key q \<Longrightarrow> mq_current q' = mq_current q
     \<Longrightarrow> \<forall>j. mq_phase q j = Finished \<longrightarrow> mq_phase q' j = Finished \<Longrightarrow> waits_inv q'"
  by (auto simp: waits_inv_def intro: stands_for_keep [of q])

lemma queues_keep:
  "queues_inv q \<Longrightarrow> mq_key q' = mq_key q \<Longrightarrow> mq_queues q' = mq_queues q \<Longrightarrow> call_count q' = call_count q
     \<Longrightarrow> \<forall>j. mq_phase q j = Finished \<longrightarrow> mq_phase q' j = Finished \<Longrightarrow> queues_inv q'"
  by (auto simp: queues_inv_def intro: stands_for_keep [of q])

lemma queue_inv_new: "queue_inv new_mutation_queue"
  by (auto simp: queue_inv_def queue_inv_defs new_mutation_queue_def)

lemma queue_inv_call:
  assumes "queue_inv q" shows "queue_inv (withFileMutationQueue path q)"
  using assms
proof (rule queue_invE)
  fix m
  let ?q = "withFileMutationQueue path q"
  assume m: "registered_up_to m q" and inv: "queues_inv q" "waits_inv q" "order_inv q"
  have same: "mq_key ?q = mq_key q" "mq_phase ?q = mq_phase q" "mq_queues ?q = mq_queues q"
    "mq_current ?q = mq_current q" "call_count ?q = Suc (call_count q)" "mq_settled ?q = mq_settled q"
    "mq_registration ?q = mq_registration q @ [call_count q]"
    by (simp_all add: withFileMutationQueue_def Let_def)
  have "mq_key q (call_count q) = None" using m by (auto simp: registered_up_to_def)
  then have "stands_for ?q key (mq_queues q key) (Suc (call_count q))" for key
    by (intro stands_for_Suc stands_for_keep [OF inv(1) [unfolded queues_inv_def, rule_format]]) (simp_all add: same)
  then have "queues_inv ?q" by (simp add: queues_inv_def same)
  moreover have "waits_inv ?q" by (rule waits_keep [OF inv(2)]) (simp_all add: same)
  moreover have "order_inv ?q" "registered_up_to m ?q"
    using inv(3) m by (simp_all add: order_inv_def registered_up_to_def same)
  ultimately show ?thesis by (auto simp: queue_inv_def)
qed

text \<open>A call whose promise is settled found all earlier calls on its file finished.\<close>

lemma resolved_all_finished:
  assumes "queue_inv q" "mq_key q i = Some key" "resolved q (mq_current q i)" "j < i" "mq_key q j = Some key"
  shows "mq_phase q j = Finished"
  using assms(1)
proof (rule queue_invE)
  fix m
  assume m: "registered_up_to m q" and inv: "waits_inv q" "order_inv q"
  from inv(1) assms(2) have stands: "stands_for q key (mq_current q i) i" by (simp add: waits_inv_def)
  show "mq_phase q j = Finished"
  proof (cases "mq_current q i")
    case None
    then show ?thesis using stands assms(4,5) by simp
  next
    case (Some l)
    then have l: "mq_key q l = Some key" "mq_phase q l = Finished" "j \<le> l"
      using stands assms(3,4,5) m by (auto simp: registered_up_to_def resolved_def not_less)
    show ?thesis
    proof (cases "j = l")
      case False
      with l have "j < l" "mq_phase q l \<noteq> Waiting" by simp_all
      with l(1) inv(2) assms(5) show ?thesis by (auto intro: order_invD)
    qed (use l in simp)
  qed
qed

text \<open>A step that leaves the keys alone and only moves one call on keeps the invariant.\<close>

lemma queue_inv_phase:
  assumes inv: "queue_inv q" and i: "mq_phase q i \<in> {Waiting, Running}" "new \<in> {Running, Finished}"
    and same: "mq_key q' = mq_key q" "mq_current q' = mq_current q" "mq_registration q' = mq_registration q"
      "call_count q' = call_count q" "mq_settled q' = mq_settled q" "mq_phase q' = (mq_phase q)(i := new)"
    and first: "\<forall>j key. j < i \<and> mq_key q i = Some key \<and> mq_key q j = Some key \<longrightarrow> mq_phase q j = Finished"
    and queues: "queues_inv q'"
  shows "queue_inv q'"
  using inv
proof (rule queue_invE)
  fix m
  assume m: "registered_up_to m q" and inv: "waits_inv q" "order_inv q"
  have "registered_up_to m q'"
    using m i by (auto simp: registered_up_to_def same)
  moreover have "waits_inv q'"
    using i by (intro waits_keep [OF inv(1)]) (auto simp: same)
  moreover have "order_inv q'"
    using inv(2) i first by (auto simp: order_inv_def same)
  ultimately show ?thesis using queues by (auto simp: queue_inv_def)
qed

lemma queue_inv_start:
  assumes "queue_inv q" "start_call i q = Some q'"
  shows "queue_inv q'"
proof (rule queue_inv_phase [OF assms(1), of i Running])
  have q': "q' = q\<lparr>mq_phase := (mq_phase q)(i := Running)\<rparr>" and i: "mq_phase q i = Waiting" "resolved q (mq_current q i)"
    using assms(2) by (auto simp: start_call_def split: if_splits)
  show "mq_phase q i \<in> {Waiting, Running}" using i by simp
  show "\<forall>j key. j < i \<and> mq_key q i = Some key \<and> mq_key q j = Some key \<longrightarrow> mq_phase q j = Finished"
    using i(2) resolved_all_finished [OF assms(1)] by blast
  show "queues_inv q'"
    by (rule queues_keep [of q]) (use assms(1) i(1) in \<open>simp_all add: q' queue_inv_def\<close>)
qed (use assms(2) in \<open>auto simp: start_call_def split: if_splits\<close>)

lemma queue_inv_finish:
  assumes "queue_inv q" "finish_call i q = Some q'"
  shows "queue_inv q'"
proof (rule queue_inv_phase [OF assms(1), of i Finished])
  have i: "mq_phase q i = Running" "i < call_count q"
    and phase: "mq_phase q' = (mq_phase q)(i := Finished)" and key: "mq_key q' = mq_key q" and n: "call_count q' = call_count q"
    and queues: "\<forall>key. mq_queues q' key = (if mq_key q i = Some key \<and> mq_queues q key = Some i then None else mq_queues q key)"
    using assms(2) by (auto simp: finish_call_def split: if_splits option.splits)
  show first: "\<forall>j key. j < i \<and> mq_key q i = Some key \<and> mq_key q j = Some key \<longrightarrow> mq_phase q j = Finished"
    using assms(1) i by (auto simp: queue_inv_def intro: order_invD)
  have "stands_for q' k (mq_queues q' k) (call_count q')" for k
  proof (cases "mq_key q i = Some k \<and> mq_queues q k = Some i")
    case True
    then have "stands_for q k (Some i) (call_count q)"
      using assms(1) by (metis queue_inv_def queues_inv_def)
    with True first i show ?thesis
      by (auto simp: queues phase key n not_less dest!: leI) (metis linorder_neqE_nat)
  next
    case False
    have "stands_for q k (mq_queues q k) (call_count q)" using assms(1) by (simp add: queue_inv_def queues_inv_def)
    with False show ?thesis
      by (auto simp: queues key phase n intro: stands_for_keep [of q])
  qed
  then show "queues_inv q'" by (simp add: queues_inv_def)
qed (use assms(2) in \<open>auto simp: finish_call_def split: if_splits\<close>)

lemma queue_inv_settle:
  assumes "queue_inv q" "settle_call i q = Some q'"
  shows "queue_inv q'"
proof -
  have "q' = q\<lparr>mq_settled := (mq_settled q)(i := True)\<rparr>" "mq_phase q i = Finished"
    using assms(2) by (auto simp: settle_call_def split: if_splits)
  with assms(1) show ?thesis
    by (auto simp: queue_inv_def registered_up_to_def order_inv_def intro: waits_keep [of q] queues_keep [of q])
qed

lemma queue_inv_register:
  assumes "queue_inv q" "register_next resolve realpath q = Some q'"
  shows "queue_inv q'"
  using assms(1)
proof (rule queue_invE)
  fix m
  assume m: "registered_up_to m q" and inv: "queues_inv q" "waits_inv q" "order_inv q"
  obtain i rest where reg: "mq_registration q = i # rest"
    using assms(2) by (cases "mq_registration q") (simp_all add: register_next_def)
  have "[m..<call_count q] = i # rest" using m reg by (simp add: registered_up_to_def)
  then have i: "i = m" "rest = [Suc m..<call_count q]" "m < call_count q"
    by (auto simp: upt_eq_Cons_conv)
  have unkeyed: "\<forall>j. m \<le> j \<longrightarrow> mq_key q j = None" and phases: "\<forall>i. mq_phase q i = Registering \<longleftrightarrow> m \<le> i"
    using m by (auto simp: registered_up_to_def)
  have early: "mq_key q j = Some key \<Longrightarrow> j < m" for j key
    using unkeyed by (metis not_less option.distinct(1))
  have current: "stands_for q key (mq_queues q key) m" for key
  proof -
    have "stands_for q key (mq_queues q key) (call_count q)" using inv(1) by (simp add: queues_inv_def)
    then show ?thesis using i(3) early by (cases "mq_queues q key") auto
  qed
  show ?thesis
  proof (cases "getMutationQueueKey resolve realpath (mq_paths q ! i)")
    case (Inl code)
    then have q': "q' = q\<lparr>mq_registration := rest, mq_phase := (mq_phase q)(m := Rejected)\<rparr>"
      using assms(2) by (simp add: register_next_def reg i)
    have "mq_phase q m = Registering" using phases by simp
    then have finished: "\<forall>j. mq_phase q j = Finished \<longrightarrow> mq_phase q' j = Finished" and "mq_key q m = None"
      using unkeyed by (auto simp: q')
    then have "order_inv q'"
      using inv(3) by (auto simp: order_inv_def q')
    moreover have "registered_up_to (Suc m) q'"
      using m i by (auto simp: registered_up_to_def q')
    moreover have "queues_inv q'" "waits_inv q'"
      using finished by (auto simp: q' intro!: queues_keep [OF inv(1)] waits_keep [OF inv(2)])
    ultimately show ?thesis by (auto simp: queue_inv_def)
  next
    case (Inr key)
    then have q': "q' = q\<lparr>mq_registration := rest, mq_phase := (mq_phase q)(m := Waiting), mq_key := (mq_key q)(m := Some key),
        mq_current := (mq_current q)(m := mq_queues q key), mq_queues := (mq_queues q)(key := Some m)\<rparr>"
      using assms(2) by (simp add: register_next_def reg i)
    have "mq_phase q m = Registering" using phases by simp
    then have finished: "\<forall>j. mq_phase q j = Finished \<longrightarrow> mq_phase q' j = Finished"
      by (auto simp: q')
    have keep: "stands_for q k p n \<Longrightarrow> n \<le> m \<Longrightarrow> stands_for q' k p n" for k p n
      by (erule stands_for_keep) (use finished in \<open>auto simp: q'\<close>)
    have "stands_for q' k (mq_queues q' k) (call_count q')" for k
    proof (cases "k = key")
      case False
      have "stands_for q' k (mq_queues q k) (call_count q')"
      proof (rule stands_for_extend [of q' k _ m])
        show "stands_for q' k (mq_queues q k) m" using keep [OF current] by simp
      qed (use False i(3) unkeyed in \<open>auto simp: q'\<close>)
      with False show ?thesis by (simp add: q')
    qed (use i(3) unkeyed in \<open>simp add: q'\<close>)
    moreover have "stands_for q' k (mq_current q' j) j" if "mq_key q' j = Some k" for j k
    proof (cases "j = m")
      case True
      then show ?thesis using that keep [OF current] by (simp add: q')
    next
      case False
      then have "mq_key q j = Some k" using that by (simp add: q')
      then show ?thesis
        using False keep [of k "mq_current q j" j] inv(2) early [of j k] by (simp add: waits_inv_def q')
    qed
    then have "waits_inv q'" by (simp add: waits_inv_def)
    moreover have "order_inv q'"
      using inv(3) unkeyed by (auto simp: order_inv_def q')
    moreover have "registered_up_to (Suc m) q'"
      using m i by (auto simp: registered_up_to_def q')
    ultimately show ?thesis by (auto simp: queue_inv_def queues_inv_def)
  qed
qed

lemma queue_inv_step:
  assumes "queue_inv q" "queue_step resolve event q = Some q'"
  shows "queue_inv q'"
  using assms by (cases event)
    (auto intro: queue_inv_call queue_inv_register queue_inv_start queue_inv_finish queue_inv_settle)

lemma reachable_queue_inv: "queue_reachable resolve q \<Longrightarrow> queue_inv q"
  by (induction rule: queue_reachable.induct) (auto intro: queue_inv_new queue_inv_step)

text \<open>C10: of the calls whose files have the same canonical path at most one runs at a time, and it
  runs only when every such call made before it has ended, in whatever order promises settle.\<close>

theorem one_mutation_at_a_time:
  assumes "queue_reachable resolve q" "mq_key q i = Some key" "mq_key q j = Some key"
    and "mq_phase q i = Running"
  shows "(mq_phase q j = Running \<longrightarrow> j = i) \<and> (j < i \<longrightarrow> mq_phase q j = Finished)
       \<and> (i < j \<longrightarrow> mq_phase q j = Waiting)"
  using order_invD [of q i key j] order_invD [of q j key i] reachable_queue_inv [OF assms(1)] assms
  by (cases i j rule: linorder_cases) (auto simp: queue_inv_def)

section \<open>Every call gets its turn\<close>

fun queue_run :: "(string \<Rightarrow> string) \<Rightarrow> queue_event list \<Rightarrow> 'a mutation_queue_scheme \<Rightarrow> 'a mutation_queue_scheme option" where
  "queue_run resolve [] q = Some q"
| "queue_run resolve (e # es) q =
     (case queue_step resolve e q of Some q' \<Rightarrow> queue_run resolve es q' | None \<Rightarrow> None)"

fun is_call :: "queue_event \<Rightarrow> bool" where
  "is_call (CallMade _) \<longleftrightarrow> True"
| "is_call _ \<longleftrightarrow> False"

text \<open>The steps a call has left.\<close>

definition steps_left :: "'a mutation_queue_scheme \<Rightarrow> nat \<Rightarrow> nat" where
  "steps_left q i =
     (case mq_phase q i of
        Registering \<Rightarrow> 4 | Waiting \<Rightarrow> 3 | Running \<Rightarrow> 2
      | Finished \<Rightarrow> (if mq_settled q i then 0 else 1) | Rejected \<Rightarrow> 0)"

definition work_left :: "'a mutation_queue_scheme \<Rightarrow> nat" where
  "work_left q = sum_list (map (steps_left q) [0..<call_count q])"

lemma work_left_less:
  assumes "i < call_count q" "call_count q' = call_count q" "steps_left q' i < steps_left q i"
    and "\<forall>j. j \<noteq> i \<longrightarrow> steps_left q' j = steps_left q j"
  shows "work_left q' < work_left q"
  unfolding work_left_def assms(2) sum_list_distinct_conv_sum_set [OF distinct_upt]
proof (rule sum_strict_mono_ex1)
  show "\<forall>j\<in>set [0..<call_count q]. steps_left q' j \<le> steps_left q j"
    using assms(3,4) by (metis less_imp_le order_refl)
qed (use assms(1,3) in auto)

lemma step_uses_work:
  assumes "queue_inv q" "queue_step resolve e q = Some q'" "\<not> is_call e"
  shows "work_left q' < work_left q \<and> call_count q' = call_count q"
proof -
  have "\<exists>i<call_count q. steps_left q' i < steps_left q i \<and> (\<forall>j. j \<noteq> i \<longrightarrow> steps_left q' j = steps_left q j)
      \<and> call_count q' = call_count q"
  proof (cases e)
    case (Registered realpath)
    obtain m where m: "registered_up_to m q" using assms(1) by (auto simp: queue_inv_def)
    obtain i rest where reg: "mq_registration q = i # rest"
      using assms(2) by (cases "mq_registration q") (simp_all add: Registered register_next_def)
    then have "[m..<call_count q] = i # rest" using m by (simp add: registered_up_to_def)
    then have "i < call_count q" "mq_phase q i = Registering"
      using m by (auto simp: upt_eq_Cons_conv registered_up_to_def)
    then show ?thesis
      using assms(2) by (intro exI [of _ i]) (auto simp: Registered register_next_def reg steps_left_def split: sum.splits)
  next
    case (Started i)
    then show ?thesis
      using assms(2) by (intro exI [of _ i]) (auto simp: start_call_def steps_left_def split: if_splits)
  next
    case (Ended i)
    then show ?thesis
      using assms(2) by (intro exI [of _ i]) (auto simp: finish_call_def steps_left_def split: if_splits)
  next
    case (Settled i)
    then show ?thesis
      using assms(2) by (intro exI [of _ i]) (auto simp: settle_call_def steps_left_def split: if_splits)
  qed (use assms(3) in simp)
  then show ?thesis using work_left_less by blast
qed

text \<open>While a call has not ended some step other than a new call is possible.\<close>

lemma some_settles:
  assumes "queue_inv q" "mq_phase q l = Finished" "\<not> mq_settled q l"
  shows "\<exists>u q'. settle_call u q = Some q'"
proof -
  obtain m where m: "registered_up_to m q" using assms(1) by (auto simp: queue_inv_def)
  obtain u where u: "mq_phase q u = Finished" "\<not> mq_settled q u"
    and least: "\<forall>l<u. mq_phase q l = Finished \<longrightarrow> mq_settled q l"
    using exists_least_iff [of "\<lambda>l. mq_phase q l = Finished \<and> \<not> mq_settled q l"] assms(2,3) by auto
  obtain key where key: "mq_key q u = Some key" "u < call_count q"
    using registered_key [OF m, of u] u(1) by auto
  have "stands_for q key (mq_current q u) u" "order_inv q"
    using assms(1) key(1) by (auto simp: queue_inv_def waits_inv_def)
  then have "resolved q (mq_current q u)"
    using least order_invD [of q u key] key(1) u(1) by (cases "mq_current q u") (auto simp: resolved_def)
  then show ?thesis
    using u key(2) by (auto simp: settle_call_def)
qed

lemma some_step:
  assumes "queue_inv q" "i < call_count q" "mq_phase q i \<notin> {Finished, Rejected}"
  shows "\<exists>e q'. \<not> is_call e \<and> queue_step resolve e q = Some q'"
proof (rule ccontr)
  assume "\<nexists>e q'. \<not> is_call e \<and> queue_step resolve e q = Some q'"
  then have none: "\<not> is_call e \<Longrightarrow> queue_step resolve e q = None" for e by (cases "queue_step resolve e q") auto
  obtain m where m: "registered_up_to m q" using assms(1) by (auto simp: queue_inv_def)
  have "mq_registration q = []"
    using none [of "Registered (\<lambda>_. Inr [])"]
    by (auto simp: register_next_def getMutationQueueKey_def Let_def split: list.splits)
  then have "[m..<call_count q] = []" "m \<le> call_count q" using m by (simp_all add: registered_up_to_def)
  then have m_all: "m = call_count q" by (auto simp: upt_eq_Nil_conv)
  have running: "mq_phase q j \<noteq> Running" for j
  proof
    assume "mq_phase q j = Running"
    moreover from this have "j < call_count q" using registered_key [OF m, of j] by auto
    ultimately show False using none [of "Ended j"] by (simp add: finish_call_def)
  qed
  have settled: "mq_phase q l = Finished \<Longrightarrow> mq_settled q l" for l
    using some_settles [OF assms(1), of l] none [of "Settled _"] by force
  have "mq_phase q i = Waiting"
    using assms(2,3) m m_all running [of i] by (cases "mq_phase q i") (auto simp: registered_up_to_def)
  then obtain w where w: "mq_phase q w = Waiting" "w \<le> i" and least: "\<forall>l<w. mq_phase q l \<noteq> Waiting"
    using exists_least_iff [of "\<lambda>w. mq_phase q w = Waiting"] by (metis not_le)
  obtain key where key: "mq_key q w = Some key"
    using registered_key [OF m, of w] w(1) by auto
  have keyed: "mq_key q l = Some key \<Longrightarrow> mq_phase q l \<noteq> Registering \<and> mq_phase q l \<noteq> Rejected" for l
    using m by (auto simp: registered_up_to_def)
  have "stands_for q key (mq_current q w) w"
    using assms(1) key by (auto simp: queue_inv_def waits_inv_def)
  then have "resolved q (mq_current q w)"
    using settled keyed least running by (cases "mq_current q w") (auto simp: resolved_def, metis call_phase.exhaust)
  with none [of "Started w"] w assms(2) show False by (simp add: start_call_def)
qed

text \<open>C11: after the last call no run takes more than four steps for each call, and it stops only when
  every call has ended: each change asked for is carried out, or rejected because its path could not
  be resolved, whatever the order of the steps.\<close>

theorem every_mutation_gets_its_turn:
  assumes "queue_reachable resolve q" "queue_run resolve es q = Some q'" "\<forall>e\<in>set es. \<not> is_call e"
  shows "length es \<le> 4 * call_count q
       \<and> ((\<forall>e. \<not> is_call e \<longrightarrow> queue_step resolve e q' = None)
            \<longrightarrow> (\<forall>i < call_count q. mq_phase q' i = Finished \<or> mq_phase q' i = Rejected))"
proof -
  have run: "queue_inv q \<Longrightarrow> length es + work_left q' \<le> work_left q \<and> call_count q' = call_count q \<and> queue_inv q'"
    using assms(2,3)
  proof (induction es arbitrary: q)
    case (Cons e es)
    then obtain r where r: "queue_step resolve e q = Some r" "queue_run resolve es r = Some q'"
      by (auto split: option.splits)
    with Cons show ?case
      using step_uses_work [OF Cons.prems(1) r(1)] queue_inv_step [OF Cons.prems(1) r(1)] by fastforce
  qed simp
  have "steps_left q i \<le> 4" for i by (simp add: steps_left_def split: call_phase.split)
  then have "work_left q \<le> 4 * call_count q"
    using sum_list_mono [of "[0..<call_count q]" "steps_left q" "\<lambda>_. 4"]
    by (simp add: work_left_def sum_list_triv mult.commute)
  moreover note ran = run [OF reachable_queue_inv [OF assms(1)]]
  moreover have "mq_phase q' i = Finished \<or> mq_phase q' i = Rejected"
    if "\<forall>e. \<not> is_call e \<longrightarrow> queue_step resolve e q' = None" "i < call_count q" for i
    using some_step [of q' i resolve] ran that by (cases "mq_phase q' i \<in> {Finished, Rejected}") fastforce+
  ultimately show ?thesis by simp
qed

text \<open>Two calls for one file: the second waits while the first runs, and both get their turn.\<close>

lemma queue_run_reachable:
  "queue_reachable resolve q \<Longrightarrow> queue_run resolve es q = Some q' \<Longrightarrow> queue_reachable resolve q'"
  by (induction es arbitrary: q) (auto split: option.splits intro: queue_reachable.step)

definition two_waiting :: mutation_queue where
  "two_waiting = the (queue_run (\<lambda>p. p) [CallMade ''/a'', CallMade ''/a'', Registered (\<lambda>p. Inr p),
     Registered (\<lambda>p. Inl (Some ''ENOENT'')), Started 0] new_mutation_queue)"

lemmas queue_evals = new_mutation_queue_def withFileMutationQueue_def register_next_def getMutationQueueKey_def
  isMissingPathError_def start_call_def finish_call_def settle_call_def resolved_def Let_def

lemma two_waiting_reachable: "queue_reachable (\<lambda>p. p) two_waiting"
  by (rule queue_run_reachable [OF queue_reachable.initially, of _ "[CallMade ''/a'', CallMade ''/a'',
      Registered (\<lambda>p. Inr p), Registered (\<lambda>p. Inl (Some ''ENOENT'')), Started 0]"])
    (simp add: two_waiting_def queue_evals)

lemma one_mutation_at_a_time_witness:
  "mq_phase two_waiting 0 = Running \<and> mq_phase two_waiting (Suc 0) = Waiting"
proof -
  have "mq_key two_waiting 0 = Some ''/a''" "mq_key two_waiting (Suc 0) = Some ''/a''" "mq_phase two_waiting 0 = Running"
    by (simp_all add: two_waiting_def queue_evals)
  then show ?thesis
    using one_mutation_at_a_time [OF two_waiting_reachable, of 0 "''/a''" "Suc 0"] by simp
qed

lemma every_mutation_gets_its_turn_witness:
  "\<exists>q'. queue_run (\<lambda>p. p) [Ended 0, Settled 0, Started (Suc 0), Ended (Suc 0), Settled (Suc 0)] two_waiting = Some q'
     \<and> 5 \<le> 4 * call_count two_waiting \<and> mq_phase q' (Suc 0) = Finished"
proof -
  let ?es = "[Ended 0, Settled 0, Started (Suc 0), Ended (Suc 0), Settled (Suc 0)]"
  have "\<exists>q'. queue_run (\<lambda>p. p) ?es two_waiting = Some q' \<and> mq_phase q' (Suc 0) = Finished"
    by (simp add: two_waiting_def queue_evals)
  then obtain q' where q': "queue_run (\<lambda>p. p) ?es two_waiting = Some q'" "mq_phase q' (Suc 0) = Finished" by blast
  then show ?thesis
    using every_mutation_gets_its_turn [OF two_waiting_reachable q'(1)] by auto
qed

end
