(* ===== verification/Edit_Diff.thy ===== *)
theory Edit_Diff
  imports Text_Encoding
begin

text \<open>
  Matching and applying text edits (\<open>packages/coding-agent/src/core/tools/edit-diff.ts\<close>): line
  endings, the normalization behind fuzzy matches, exact and fuzzy search, and the replacement
  of matched text. Unicode normalization (\<open>String.prototype.normalize("NFKC")\<close>), whose tables
  are data of the runtime, is the parameter \<open>nfkc\<close>. Offsets count code units.
\<close>

section \<open>Line endings\<close>

datatype line_ending = LF_ending | CRLF_ending

definition detectLineEnding :: "text16 \<Rightarrow> line_ending" where
  "detectLineEnding content =
     (case js_index_of [LF16] content of
        None \<Rightarrow> LF_ending
      | Some lfIdx \<Rightarrow>
          (case js_index_of [CR16, LF16] content of
             None \<Rightarrow> LF_ending
           | Some crlfIdx \<Rightarrow> if crlfIdx < lfIdx then CRLF_ending else LF_ending))"

text \<open>\<open>replace(/\r\n/g, "\n")\<close>\<close>

fun crlf_to_lf :: "text16 \<Rightarrow> text16" where
  "crlf_to_lf [] = []"
| "crlf_to_lf [x] = [x]"
| "crlf_to_lf (x # y # s) =
     (if x = CR16 \<and> y = LF16 then LF16 # crlf_to_lf s else x # crlf_to_lf (y # s))"

definition normalizeToLF :: "text16 \<Rightarrow> text16" where
  "normalizeToLF str = map (\<lambda>x. if x = CR16 then LF16 else x) (crlf_to_lf str)"

definition restoreLineEndings :: "text16 \<Rightarrow> line_ending \<Rightarrow> text16" where
  "restoreLineEndings str ending =
     (if ending = CRLF_ending then concat (map (\<lambda>x. if x = LF16 then [CR16, LF16] else [x]) str) else str)"

section \<open>Fuzzy normalization\<close>

text \<open>The code units \<open>trimEnd\<close> removes: white space and line terminators.\<close>

definition js_white_space :: "16 word \<Rightarrow> bool" where
  "js_white_space u \<longleftrightarrow>
     (0x09 \<le> u \<and> u \<le> 0x0D) \<or> u = 0x20 \<or> u = 0xA0 \<or> u = 0x1680 \<or> (0x2000 \<le> u \<and> u \<le> 0x200A)
     \<or> u = 0x2028 \<or> u = 0x2029 \<or> u = 0x202F \<or> u = 0x205F \<or> u = 0x3000 \<or> u = 0xFEFF"

definition trimEnd :: "text16 \<Rightarrow> text16" where
  "trimEnd s = rev (dropWhile js_white_space (rev s))"

definition single_quote :: "16 word \<Rightarrow> 16 word" where
  "single_quote u = (if u \<in> {0x2018, 0x2019, 0x201A, 0x201B} then 0x27 else u)"

definition double_quote :: "16 word \<Rightarrow> 16 word" where
  "double_quote u = (if u \<in> {0x201C, 0x201D, 0x201E, 0x201F} then 0x22 else u)"

definition plain_dash :: "16 word \<Rightarrow> 16 word" where
  "plain_dash u = (if u \<in> {0x2010, 0x2011, 0x2012, 0x2013, 0x2014, 0x2015, 0x2212} then 0x2D else u)"

definition plain_space :: "16 word \<Rightarrow> 16 word" where
  "plain_space u =
     (if u = 0xA0 \<or> (0x2002 \<le> u \<and> u \<le> 0x200A) \<or> u = 0x202F \<or> u = 0x205F \<or> u = 0x3000 then 0x20 else u)"

definition normalizeForFuzzyMatch :: "(text16 \<Rightarrow> text16) \<Rightarrow> text16 \<Rightarrow> text16" where
  "normalizeForFuzzyMatch nfkc str =
     map plain_space (map plain_dash (map double_quote (map single_quote
       (js_join [LF16] (map trimEnd (split_on LF16 (nfkc str)))))))"

section \<open>Lines and replacements\<close>

text \<open>\<open>match(/[^\n]*\n|[^\n]+/g) ?? []\<close>\<close>

fun splitLinesWithEndings :: "text16 \<Rightarrow> text16 list" where
  "splitLinesWithEndings [] = []"
| "splitLinesWithEndings (x # s) =
     (if x = LF16 then [x] # splitLinesWithEndings s
      else (case splitLinesWithEndings s of [] \<Rightarrow> [[x]] | l # ls \<Rightarrow> (x # l) # ls))"

record line_span =
  span_start :: nat
  span_end :: nat

fun spans_from :: "nat \<Rightarrow> text16 list \<Rightarrow> line_span list" where
  "spans_from offset [] = []"
| "spans_from offset (l # ls) =
     \<lparr>span_start = offset, span_end = offset + length l\<rparr> # spans_from (offset + length l) ls"

definition getLineSpans :: "text16 \<Rightarrow> line_span list" where
  "getLineSpans content = spans_from 0 (splitLinesWithEndings content)"

record text_replacement =
  rp_matchIndex :: nat
  rp_matchLength :: nat
  rp_newText :: text16

record matched_edit = text_replacement +
  me_editIndex :: nat

definition getReplacementLineRange ::
  "line_span list \<Rightarrow> 'a text_replacement_scheme \<Rightarrow> js_error + (nat \<times> nat)" where
  "getReplacementLineRange spans r =
     (let replacementStart = rp_matchIndex r; replacementEnd = rp_matchIndex r + rp_matchLength r
      in case find_index (\<lambda>l. replacementStart \<ge> span_start l \<and> replacementStart < span_end l) spans of
           None \<Rightarrow> Inl ''Replacement range is outside the base content.''
         | Some startLine \<Rightarrow>
             let endLine = startLine
                   + length (takeWhile (\<lambda>l. span_end l < replacementEnd) (drop startLine spans))
             in if endLine \<ge> length spans then Inl ''Replacement range is outside the base content.''
                else Inr (startLine, endLine + 1))"

text \<open>\<open>substring\<close> reads a negative offset as zero, as \<open>nat\<close> does.\<close>

definition replace_at :: "nat \<Rightarrow> 'a text_replacement_scheme \<Rightarrow> text16 \<Rightarrow> text16" where
  "replace_at offset r result =
     (let matchIndex = int (rp_matchIndex r) - int offset
      in take (nat matchIndex) result @ rp_newText r
         @ drop (nat (matchIndex + int (rp_matchLength r))) result)"

definition applyReplacements :: "text16 \<Rightarrow> 'a text_replacement_scheme list \<Rightarrow> nat \<Rightarrow> text16" where
  "applyReplacements content rs offset = foldr (replace_at offset) rs content"

record 'a replacement_group =
  rg_startLine :: nat
  rg_endLine :: nat
  rg_replacements :: "'a text_replacement_scheme list"

fun group_replacements ::
  "line_span list \<Rightarrow> 'a replacement_group list \<Rightarrow> 'a text_replacement_scheme list
     \<Rightarrow> js_error + 'a replacement_group list" where
  "group_replacements spans groups [] = Inr groups"
| "group_replacements spans groups (r # rs) =
     (case getReplacementLineRange spans r of
        Inl e \<Rightarrow> Inl e
      | Inr (startLine, endLine) \<Rightarrow>
          if groups \<noteq> [] \<and> startLine < rg_endLine (last groups)
          then let current = last groups
               in group_replacements spans
                    (butlast groups @
                       [current\<lparr>rg_endLine := max (rg_endLine current) endLine,
                                rg_replacements := rg_replacements current @ [r]\<rparr>]) rs
          else group_replacements spans
                 (groups @ [\<lparr>rg_startLine = startLine, rg_endLine = endLine, rg_replacements = [r]\<rparr>]) rs)"

definition slice16 :: "'b list \<Rightarrow> nat \<Rightarrow> nat \<Rightarrow> 'b list" where
  "slice16 xs a b = take (b - a) (drop a xs)"

fun rewrite_groups ::
  "text16 list \<Rightarrow> text16 \<Rightarrow> line_span list \<Rightarrow> nat \<Rightarrow> 'a replacement_group list \<Rightarrow> text16" where
  "rewrite_groups originalLines baseContent baseLines originalLineIndex [] =
     concat (drop originalLineIndex originalLines)"
| "rewrite_groups originalLines baseContent baseLines originalLineIndex (g # gs) =
     (let groupStartOffset = span_start (baseLines ! rg_startLine g);
          groupEndOffset = span_end (baseLines ! (rg_endLine g - 1))
      in concat (slice16 originalLines originalLineIndex (rg_startLine g))
         @ applyReplacements (slice16 baseContent groupStartOffset groupEndOffset)
             (rg_replacements g) groupStartOffset
         @ rewrite_groups originalLines baseContent baseLines (rg_endLine g) gs)"

definition applyReplacementsPreservingUnchangedLines ::
  "text16 \<Rightarrow> text16 \<Rightarrow> 'a text_replacement_scheme list \<Rightarrow> js_error + text16" where
  "applyReplacementsPreservingUnchangedLines originalContent baseContent rs =
     (let originalLines = splitLinesWithEndings originalContent; baseLines = getLineSpans baseContent
      in if length originalLines \<noteq> length baseLines
         then Inl ''Cannot preserve unchanged lines because the base content has a different line count.''
         else case group_replacements baseLines [] (sort_key rp_matchIndex rs) of
                Inl e \<Rightarrow> Inl e
              | Inr groups \<Rightarrow> Inr (rewrite_groups originalLines baseContent baseLines 0 groups))"

section \<open>Finding the text of an edit\<close>

record fuzzy_match_result =
  fm_found :: bool
  fm_index :: "nat option"
  fm_matchLength :: nat
  fm_usedFuzzyMatch :: bool
  fm_contentForReplacement :: text16

definition fuzzyFindText ::
  "(text16 \<Rightarrow> text16) \<Rightarrow> text16 \<Rightarrow> text16 \<Rightarrow> fuzzy_match_result" where
  "fuzzyFindText nfkc content oldText =
     (case js_index_of oldText content of
        Some exactIndex \<Rightarrow>
          \<lparr>fm_found = True, fm_index = Some exactIndex, fm_matchLength = length oldText,
           fm_usedFuzzyMatch = False, fm_contentForReplacement = content\<rparr>
      | None \<Rightarrow>
          let fuzzyContent = normalizeForFuzzyMatch nfkc content;
              fuzzyOldText = normalizeForFuzzyMatch nfkc oldText
          in case js_index_of fuzzyOldText fuzzyContent of
               None \<Rightarrow>
                 \<lparr>fm_found = False, fm_index = None, fm_matchLength = 0,
                  fm_usedFuzzyMatch = False, fm_contentForReplacement = content\<rparr>
             | Some fuzzyIndex \<Rightarrow>
                 \<lparr>fm_found = True, fm_index = Some fuzzyIndex, fm_matchLength = length fuzzyOldText,
                  fm_usedFuzzyMatch = True, fm_contentForReplacement = fuzzyContent\<rparr>)"

text \<open>\<open>String.prototype.split\<close> on any string; the empty one separates all code units.\<close>

function split_at_text :: "text16 \<Rightarrow> text16 \<Rightarrow> text16 list" where
  "split_at_text sep s =
     (if sep = [] then map (\<lambda>x. [x]) s
      else case js_index_of sep s of
             None \<Rightarrow> [s]
           | Some i \<Rightarrow> take i s # split_at_text sep (drop (i + length sep) s))"
  by pat_completeness auto
termination
proof (relation "measure (\<lambda>(sep, s). length s)")
  fix sep s :: text16 and i
  assume "sep \<noteq> []" "js_index_of sep s = Some i"
  then show "((sep, drop (i + length sep) s), (sep, s)) \<in> measure (\<lambda>(sep, s). length s)"
    using js_index_of_Some [of sep s i] by (cases sep) auto
qed simp

definition countOccurrences :: "(text16 \<Rightarrow> text16) \<Rightarrow> text16 \<Rightarrow> text16 \<Rightarrow> int" where
  "countOccurrences nfkc content oldText =
     int (length (split_at_text (normalizeForFuzzyMatch nfkc oldText) (normalizeForFuzzyMatch nfkc content))) - 1"

section \<open>Errors\<close>

definition getNotFoundError :: "string \<Rightarrow> nat \<Rightarrow> nat \<Rightarrow> js_error" where
  "getNotFoundError path editIndex totalEdits =
     (if totalEdits = 1
      then ''Could not find the exact text in '' @ path
           @ ''. The old text must match exactly including all whitespace and newlines.''
      else ''Could not find edits['' @ dec editIndex @ ''] in '' @ path
           @ ''. The oldText must match exactly including all whitespace and newlines.'')"

definition getDuplicateError :: "string \<Rightarrow> nat \<Rightarrow> nat \<Rightarrow> int \<Rightarrow> js_error" where
  "getDuplicateError path editIndex totalEdits occurrences =
     (if totalEdits = 1
      then ''Found '' @ dec_int occurrences @ '' occurrences of the text in '' @ path
           @ ''. The text must be unique. Please provide more context to make it unique.''
      else ''Found '' @ dec_int occurrences @ '' occurrences of edits['' @ dec editIndex @ ''] in '' @ path
           @ ''. Each oldText must be unique. Please provide more context to make it unique.'')"

definition getEmptyOldTextError :: "string \<Rightarrow> nat \<Rightarrow> nat \<Rightarrow> js_error" where
  "getEmptyOldTextError path editIndex totalEdits =
     (if totalEdits = 1 then ''oldText must not be empty in '' @ path @ ''.''
      else ''edits['' @ dec editIndex @ ''].oldText must not be empty in '' @ path @ ''.'')"

definition getNoChangeError :: "string \<Rightarrow> nat \<Rightarrow> js_error" where
  "getNoChangeError path totalEdits =
     (if totalEdits = 1
      then ''No changes made to '' @ path
           @ ''. The replacement produced identical content. This might indicate an issue with special characters or the text not existing as expected.''
      else ''No changes made to '' @ path @ ''. The replacements produced identical content.'')"

definition overlap_error :: "string \<Rightarrow> matched_edit \<Rightarrow> matched_edit \<Rightarrow> js_error" where
  "overlap_error path previous current =
     ''edits['' @ dec (me_editIndex previous) @ ''] and edits['' @ dec (me_editIndex current)
     @ ''] overlap in '' @ path @ ''. Merge them into one edit or target disjoint regions.''"

section \<open>Applying edits\<close>

record edit =
  ed_oldText :: text16
  ed_newText :: text16

record applied_edits =
  ae_baseContent :: text16
  ae_newContent :: text16

definition normalize_edit :: "edit \<Rightarrow> edit" where
  "normalize_edit e = \<lparr>ed_oldText = normalizeToLF (ed_oldText e), ed_newText = normalizeToLF (ed_newText e)\<rparr>"

fun match_edits ::
  "(text16 \<Rightarrow> text16) \<Rightarrow> text16 \<Rightarrow> string \<Rightarrow> nat \<Rightarrow> nat \<Rightarrow> edit list \<Rightarrow> js_error + matched_edit list" where
  "match_edits nfkc base path count i [] = Inr []"
| "match_edits nfkc base path count i (e # es) =
     (case fm_index (fuzzyFindText nfkc base (ed_oldText e)) of
        None \<Rightarrow> Inl (getNotFoundError path i count)
      | Some index \<Rightarrow>
          if countOccurrences nfkc base (ed_oldText e) > 1
          then Inl (getDuplicateError path i count (countOccurrences nfkc base (ed_oldText e)))
          else (case match_edits nfkc base path count (Suc i) es of
                  Inl err \<Rightarrow> Inl err
                | Inr ms \<Rightarrow>
                    Inr (\<lparr>rp_matchIndex = index,
                          rp_matchLength = fm_matchLength (fuzzyFindText nfkc base (ed_oldText e)),
                          rp_newText = ed_newText e, me_editIndex = i\<rparr> # ms)))"

fun find_overlap :: "matched_edit list \<Rightarrow> (matched_edit \<times> matched_edit) option" where
  "find_overlap (previous # current # ms) =
     (if rp_matchIndex previous + rp_matchLength previous > rp_matchIndex current
      then Some (previous, current) else find_overlap (current # ms))"
| "find_overlap _ = None"

definition applyEditsToNormalizedContent ::
  "(text16 \<Rightarrow> text16) \<Rightarrow> text16 \<Rightarrow> edit list \<Rightarrow> string \<Rightarrow> js_error + applied_edits" where
  "applyEditsToNormalizedContent nfkc normalizedContent edits path =
     (let normalizedEdits = map normalize_edit edits; count = length normalizedEdits
      in case find_index (\<lambda>e. ed_oldText e = []) normalizedEdits of
           Some i \<Rightarrow> Inl (getEmptyOldTextError path i count)
         | None \<Rightarrow>
             let initialMatches = map (\<lambda>e. fuzzyFindText nfkc normalizedContent (ed_oldText e)) normalizedEdits;
                 usedFuzzyMatch = (\<exists>m\<in>set initialMatches. fm_usedFuzzyMatch m);
                 replacementBaseContent =
                   (if usedFuzzyMatch then normalizeForFuzzyMatch nfkc normalizedContent else normalizedContent)
             in case match_edits nfkc replacementBaseContent path count 0 normalizedEdits of
                  Inl err \<Rightarrow> Inl err
                | Inr matchedEdits \<Rightarrow>
                    let sortedEdits = sort_key rp_matchIndex matchedEdits
                    in case find_overlap sortedEdits of
                         Some (previous, current) \<Rightarrow> Inl (overlap_error path previous current)
                       | None \<Rightarrow>
                           (case (if usedFuzzyMatch
                                  then applyReplacementsPreservingUnchangedLines normalizedContent
                                         replacementBaseContent sortedEdits
                                  else Inr (applyReplacements replacementBaseContent sortedEdits 0)) of
                              Inl err \<Rightarrow> Inl err
                            | Inr newContent \<Rightarrow>
                                if normalizedContent = newContent then Inl (getNoChangeError path count)
                                else Inr \<lparr>ae_baseContent = normalizedContent, ae_newContent = newContent\<rparr>))"

end
