(* ===== verification/Diff_Display.thy ===== *)
theory Diff_Display
  imports Edit_Diff
begin

text \<open>
  The diff shown for an edit (\<open>generateDiffString\<close> in
  \<open>packages/coding-agent/src/core/tools/edit-diff.ts\<close>): the parts a line diff gives (the package
  \<open>diff\<close>, a parameter) are numbered, and unchanged lines are shown only near a change. A shown
  line is an entry with its number until it is rendered at the end.
\<close>

section \<open>The display\<close>

record diff_part =
  dp_value :: text16
  dp_added :: bool
  dp_removed :: bool

datatype diff_line = AddedLine nat text16 | RemovedLine nat text16 | ContextLine nat text16 | SkippedLines

record diff_state =
  df_output :: "diff_line list"
  df_oldLineNum :: nat
  df_newLineNum :: nat
  df_lastWasChange :: bool
  df_firstChangedLine :: "nat option"

definition raw_lines :: "diff_part \<Rightarrow> text16 list" where
  "raw_lines part =
     (let raw = split_on LF16 (dp_value part) in if last raw = [] then butlast raw else raw)"

fun show_added :: "text16 list \<Rightarrow> diff_state \<Rightarrow> diff_state" where
  "show_added [] s = s"
| "show_added (l # ls) s =
     show_added ls (s\<lparr>df_output := df_output s @ [AddedLine (df_newLineNum s) l],
                      df_newLineNum := df_newLineNum s + 1\<rparr>)"

fun show_removed :: "text16 list \<Rightarrow> diff_state \<Rightarrow> diff_state" where
  "show_removed [] s = s"
| "show_removed (l # ls) s =
     show_removed ls (s\<lparr>df_output := df_output s @ [RemovedLine (df_oldLineNum s) l],
                        df_oldLineNum := df_oldLineNum s + 1\<rparr>)"

fun show_context :: "text16 list \<Rightarrow> diff_state \<Rightarrow> diff_state" where
  "show_context [] s = s"
| "show_context (l # ls) s =
     show_context ls (s\<lparr>df_output := df_output s @ [ContextLine (df_oldLineNum s) l],
                        df_oldLineNum := df_oldLineNum s + 1, df_newLineNum := df_newLineNum s + 1\<rparr>)"

definition pass_lines :: "nat \<Rightarrow> diff_state \<Rightarrow> diff_state" where
  "pass_lines n s = s\<lparr>df_oldLineNum := df_oldLineNum s + n, df_newLineNum := df_newLineNum s + n\<rparr>"

definition skip_lines :: "nat \<Rightarrow> diff_state \<Rightarrow> diff_state" where
  "skip_lines n s = pass_lines n (s\<lparr>df_output := df_output s @ [SkippedLines]\<rparr>)"

definition is_change :: "diff_part \<Rightarrow> bool" where
  "is_change part \<longleftrightarrow> dp_added part \<or> dp_removed part"

definition show_change :: "diff_part \<Rightarrow> diff_state \<Rightarrow> diff_state" where
  "show_change part s =
     (let s1 = (if df_firstChangedLine s = None then s\<lparr>df_firstChangedLine := Some (df_newLineNum s)\<rparr> else s);
          s2 = (if dp_added part then show_added (raw_lines part) s1 else show_removed (raw_lines part) s1)
      in s2\<lparr>df_lastWasChange := True\<rparr>)"

definition show_unchanged :: "nat \<Rightarrow> bool \<Rightarrow> diff_part \<Rightarrow> diff_state \<Rightarrow> diff_state" where
  "show_unchanged contextLines hasTrailingChange part s =
     (let raw = raw_lines part; hasLeadingChange = df_lastWasChange s;
          s1 = (if hasLeadingChange \<and> hasTrailingChange
                then if length raw \<le> contextLines * 2 then show_context raw s
                     else let leadingLines = take contextLines raw;
                              trailingLines = drop (length raw - contextLines) raw
                          in show_context trailingLines
                               (skip_lines (length raw - length leadingLines - length trailingLines)
                                  (show_context leadingLines s))
                else if hasLeadingChange
                then let shownLines = take contextLines raw; skippedLines = length raw - length shownLines;
                         shown = show_context shownLines s
                     in if skippedLines > 0 then skip_lines skippedLines shown else shown
                else if hasTrailingChange
                then let skippedLines = length raw - contextLines
                     in show_context (drop skippedLines raw)
                          (if skippedLines > 0 then skip_lines skippedLines s else s)
                else pass_lines (length raw) s)
      in s1\<lparr>df_lastWasChange := False\<rparr>)"

fun diff_loop :: "nat \<Rightarrow> diff_part list \<Rightarrow> diff_state \<Rightarrow> diff_state" where
  "diff_loop contextLines [] s = s"
| "diff_loop contextLines (part # parts) s =
     (let nextPartIsChange = (case parts of [] \<Rightarrow> False | p # ps \<Rightarrow> is_change p)
      in diff_loop contextLines parts
           (if is_change part then show_change part s
            else show_unchanged contextLines nextPartIsChange part s))"

definition padStart :: "nat \<Rightarrow> string \<Rightarrow> text16" where
  "padStart width s = js (replicate (width - length s) (CHR '' '') @ s)"

fun render_line :: "nat \<Rightarrow> diff_line \<Rightarrow> text16" where
  "render_line width (AddedLine n l) = js ''+'' @ padStart width (dec n) @ js '' '' @ l"
| "render_line width (RemovedLine n l) = js ''-'' @ padStart width (dec n) @ js '' '' @ l"
| "render_line width (ContextLine n l) = js '' '' @ padStart width (dec n) @ js '' '' @ l"
| "render_line width SkippedLines = js '' '' @ padStart width [] @ js '' ...''"

definition initial_diff :: diff_state where
  "initial_diff = \<lparr>df_output = [], df_oldLineNum = 1, df_newLineNum = 1, df_lastWasChange = False,
                  df_firstChangedLine = None\<rparr>"

definition generateDiffString ::
  "(text16 \<Rightarrow> text16 \<Rightarrow> diff_part list) \<Rightarrow> text16 \<Rightarrow> text16 \<Rightarrow> nat \<Rightarrow> text16 \<times> nat option" where
  "generateDiffString diffLines oldContent newContent contextLines =
     (let maxLineNum = max (length (split_on LF16 oldContent)) (length (split_on LF16 newContent));
          lineNumWidth = length (dec maxLineNum);
          s = diff_loop contextLines (diffLines oldContent newContent) initial_diff
      in (js_join [LF16] (map (render_line lineNumWidth) (df_output s)), df_firstChangedLine s))"

section \<open>Every line has its number\<close>

definition old_lines :: "diff_part list \<Rightarrow> text16 list" where
  "old_lines parts = concat (map raw_lines (filter (\<lambda>p. \<not> dp_added p) parts))"

definition new_lines :: "diff_part list \<Rightarrow> text16 list" where
  "new_lines parts = concat (map raw_lines (filter (\<lambda>p. dp_added p \<or> \<not> dp_removed p) parts))"

text \<open>An entry shows the line that has its number, counted from one.\<close>

fun numbered :: "text16 list \<Rightarrow> text16 list \<Rightarrow> diff_line \<Rightarrow> bool" where
  "numbered olds news (AddedLine n l) \<longleftrightarrow> (\<exists>i<length news. n = Suc i \<and> news ! i = l)"
| "numbered olds news (RemovedLine n l) \<longleftrightarrow> (\<exists>i<length olds. n = Suc i \<and> olds ! i = l)"
| "numbered olds news (ContextLine n l) \<longleftrightarrow> (\<exists>i<length olds. n = Suc i \<and> olds ! i = l)"
| "numbered olds news SkippedLines \<longleftrightarrow> True"

fun added_text :: "diff_line \<Rightarrow> text16 list" where
  "added_text (AddedLine n l) = [l]"
| "added_text _ = []"

fun removed_text :: "diff_line \<Rightarrow> text16 list" where
  "removed_text (RemovedLine n l) = [l]"
| "removed_text _ = []"

text \<open>The state after the lines \<open>olds\<close> and \<open>news\<close> of the two texts, of which \<open>adds\<close> were added and
  \<open>rems\<close> removed.\<close>

definition displays :: "text16 list \<Rightarrow> text16 list \<Rightarrow> text16 list \<Rightarrow> text16 list \<Rightarrow> diff_state \<Rightarrow> bool" where
  "displays olds news adds rems s \<longleftrightarrow>
     df_oldLineNum s = Suc (length olds) \<and> df_newLineNum s = Suc (length news)
     \<and> list_all (numbered olds news) (df_output s)
     \<and> concat (map added_text (df_output s)) = adds \<and> concat (map removed_text (df_output s)) = rems"

lemma numbered_more: "numbered olds news e \<Longrightarrow> numbered (olds @ a) (news @ b) e"
  by (cases e) (auto simp: nth_append)

lemma list_all_numbered_more:
  "list_all (numbered olds news) es \<Longrightarrow> list_all (numbered (olds @ a) (news @ b)) es"
  using numbered_more by (auto simp: list_all_iff)

lemma show_added_shows:
  "displays olds news adds rems s \<Longrightarrow> displays olds (news @ ls) (adds @ ls) rems (show_added ls s)"
proof (induction ls arbitrary: news adds s)
  case (Cons l ls)
  have "displays olds (news @ [l]) (adds @ [l]) rems
      (s\<lparr>df_output := df_output s @ [AddedLine (df_newLineNum s) l], df_newLineNum := df_newLineNum s + 1\<rparr>)"
    using Cons.prems list_all_numbered_more [of olds news _ "[]" "[l]"] by (auto simp: displays_def)
  from Cons.IH [OF this] show ?case by simp
qed simp

lemma show_removed_shows:
  "displays olds news adds rems s \<Longrightarrow> displays (olds @ ls) news adds (rems @ ls) (show_removed ls s)"
proof (induction ls arbitrary: olds rems s)
  case (Cons l ls)
  have "displays (olds @ [l]) news adds (rems @ [l])
      (s\<lparr>df_output := df_output s @ [RemovedLine (df_oldLineNum s) l], df_oldLineNum := df_oldLineNum s + 1\<rparr>)"
    using Cons.prems list_all_numbered_more [of olds news _ "[l]" "[]"] by (auto simp: displays_def)
  from Cons.IH [OF this] show ?case by simp
qed simp

lemma show_context_shows:
  "displays olds news adds rems s \<Longrightarrow> displays (olds @ ls) (news @ ls) adds rems (show_context ls s)"
proof (induction ls arbitrary: olds news s)
  case (Cons l ls)
  have "displays (olds @ [l]) (news @ [l]) adds rems
      (s\<lparr>df_output := df_output s @ [ContextLine (df_oldLineNum s) l],
         df_oldLineNum := df_oldLineNum s + 1, df_newLineNum := df_newLineNum s + 1\<rparr>)"
    using Cons.prems list_all_numbered_more [of olds news _ "[l]" "[l]"] by (auto simp: displays_def)
  from Cons.IH [OF this] show ?case by simp
qed simp

lemma pass_lines_shows:
  "displays olds news adds rems s \<Longrightarrow> n = length ls \<Longrightarrow>
   displays (olds @ ls) (news @ ls) adds rems (pass_lines n s)"
  using list_all_numbered_more [of olds news _ ls ls] by (auto simp: displays_def pass_lines_def)

lemma skip_lines_shows:
  "displays olds news adds rems s \<Longrightarrow> n = length ls \<Longrightarrow>
   displays (olds @ ls) (news @ ls) adds rems (skip_lines n s)"
  unfolding skip_lines_def by (rule pass_lines_shows) (auto simp: displays_def)

lemma displays_flags [simp]:
  "displays olds news adds rems (s\<lparr>df_lastWasChange := b\<rparr>) = displays olds news adds rems s"
  "displays olds news adds rems (s\<lparr>df_firstChangedLine := f\<rparr>) = displays olds news adds rems s"
  by (simp_all add: displays_def)

lemma show_unchanged_shows:
  assumes "displays olds news adds rems s"
  shows "displays (olds @ raw_lines part) (news @ raw_lines part) adds rems (show_unchanged contextLines trailing part s)"
proof -
  define raw where "raw = raw_lines part"
  define k where "k = length raw - contextLines"
  have lead: "displays (olds @ take contextLines raw) (news @ take contextLines raw) adds rems
      (show_context (take contextLines raw) s)"
    by (rule show_context_shows [OF assms])
  note unchanged = show_unchanged_def Let_def raw_def [symmetric]
  consider (all) "length raw \<le> contextLines * 2" "df_lastWasChange s" "trailing"
    | (both) "\<not> length raw \<le> contextLines * 2" "df_lastWasChange s" "trailing"
    | (leading) "df_lastWasChange s" "\<not> trailing" | (trailing) "\<not> df_lastWasChange s" trailing
    | (none) "\<not> df_lastWasChange s" "\<not> trailing" by blast
  then show ?thesis
  proof cases
    case both
    define mid where "mid = take (k - contextLines) (drop contextLines raw)"
    have "contextLines \<le> k" using both(1) by (simp add: k_def)
    then have "take contextLines raw @ mid = take k raw" by (simp add: mid_def flip: take_add)
    then have "take contextLines raw @ mid @ drop k raw = raw"
      by (simp only: append_assoc [symmetric] append_take_drop_id)
    moreover have "length raw - length (take contextLines raw) - length (drop k raw) = length mid"
      using both(1) by (simp add: mid_def k_def)
    ultimately show ?thesis
      using both show_context_shows [OF skip_lines_shows [OF lead], of _ mid "drop k raw"]
      by (simp add: k_def unchanged)
  next
    case leading
    then show ?thesis
      using lead skip_lines_shows [OF lead, of _ "drop contextLines raw"] by (auto simp: unchanged)
  next
    case trailing
    then show ?thesis
      using show_context_shows [OF skip_lines_shows [OF assms, of k "take k raw"], of "drop k raw"]
        show_context_shows [OF assms, of raw]
      by (cases "k = 0") (simp_all add: k_def unchanged)
  qed (use show_context_shows [OF assms] pass_lines_shows [OF assms] in \<open>simp_all add: unchanged\<close>)
qed

lemma show_lines_first [simp]:
  "df_firstChangedLine (show_added ls s) = df_firstChangedLine s"
  "df_firstChangedLine (show_removed ls s) = df_firstChangedLine s"
  "df_firstChangedLine (show_context ls s) = df_firstChangedLine s"
  "df_firstChangedLine (pass_lines n s) = df_firstChangedLine s"
  "df_firstChangedLine (skip_lines n s) = df_firstChangedLine s"
proof -
  show "df_firstChangedLine (show_added ls s) = df_firstChangedLine s" by (induction ls arbitrary: s) simp_all
  show "df_firstChangedLine (show_removed ls s) = df_firstChangedLine s" by (induction ls arbitrary: s) simp_all
  show "df_firstChangedLine (show_context ls s) = df_firstChangedLine s" by (induction ls arbitrary: s) simp_all
qed (simp_all add: pass_lines_def skip_lines_def)

lemma show_unchanged_first [simp]:
  "df_firstChangedLine (show_unchanged contextLines trailing part s) = df_firstChangedLine s"
  by (simp add: show_unchanged_def Let_def)

lemma show_change_displays:
  assumes "displays olds news adds rems s"
  shows "if dp_added part
         then displays olds (news @ raw_lines part) (adds @ raw_lines part) rems (show_change part s)
         else displays (olds @ raw_lines part) news adds (rems @ raw_lines part) (show_change part s)"
    and "df_firstChangedLine (show_change part s) =
           (if df_firstChangedLine s = None then Some (Suc (length news)) else df_firstChangedLine s)"
  using assms show_added_shows show_removed_shows
  by (auto simp: show_change_def Let_def displays_def [of olds news adds rems s])

definition first_changed :: "diff_part list \<Rightarrow> nat option" where
  "first_changed parts =
     (case find_index is_change parts of
        None \<Rightarrow> None
      | Some i \<Rightarrow> Some (Suc (length (new_lines (take i parts)))))"

lemma diff_loop_displays:
  assumes "displays olds news adds rems s"
  shows "displays (olds @ old_lines parts) (news @ new_lines parts) (adds @ concat (map raw_lines (filter dp_added parts)))
           (rems @ concat (map raw_lines (filter (\<lambda>p. \<not> dp_added p \<and> dp_removed p) parts)))
           (diff_loop contextLines parts s)
       \<and> df_firstChangedLine (diff_loop contextLines parts s) =
           (case df_firstChangedLine s of
              Some n \<Rightarrow> Some n
            | None \<Rightarrow> map_option (\<lambda>n. length news + n) (first_changed parts))"
  using assms
proof (induction parts arbitrary: olds news adds rems s)
  case Nil
  then show ?case
    by (simp add: old_lines_def new_lines_def first_changed_def split: option.split)
next
  case (Cons part parts)
  define trailing where "trailing = (case parts of [] \<Rightarrow> False | p # ps \<Rightarrow> is_change p)"
  define s1 where "s1 = (if is_change part then show_change part s
      else show_unchanged contextLines trailing part s)"
  have loop: "diff_loop contextLines (part # parts) s = diff_loop contextLines parts s1"
    by (simp add: s1_def trailing_def)
  consider (added) "dp_added part" | (removed) "\<not> dp_added part" "dp_removed part"
    | (same) "\<not> dp_added part" "\<not> dp_removed part" by blast
  then show ?case
  proof cases
    case added
    then have "displays olds (news @ raw_lines part) (adds @ raw_lines part) rems s1"
      "df_firstChangedLine s1 = (if df_firstChangedLine s = None then Some (Suc (length news)) else df_firstChangedLine s)"
      using show_change_displays [OF Cons.prems, of part] by (simp_all add: s1_def is_change_def)
    with added Cons.IH [OF this(1)] show ?thesis
      unfolding loop
      by (auto simp: old_lines_def new_lines_def first_changed_def is_change_def split: option.splits)
  next
    case removed
    then have "displays (olds @ raw_lines part) news adds (rems @ raw_lines part) s1"
      "df_firstChangedLine s1 = (if df_firstChangedLine s = None then Some (Suc (length news)) else df_firstChangedLine s)"
      using show_change_displays [OF Cons.prems, of part] by (simp_all add: s1_def is_change_def)
    with removed Cons.IH [OF this(1)] show ?thesis
      unfolding loop
      by (auto simp: old_lines_def new_lines_def first_changed_def is_change_def split: option.splits)
  next
    case same
    then have "displays (olds @ raw_lines part) (news @ raw_lines part) adds rems s1"
      "df_firstChangedLine s1 = df_firstChangedLine s"
      using show_unchanged_shows [OF Cons.prems] by (simp_all add: s1_def is_change_def)
    with same Cons.IH [OF this(1)] show ?thesis
      unfolding loop
      by (auto simp: old_lines_def new_lines_def first_changed_def is_change_def split: option.splits)
  qed
qed

text \<open>The numbers in a shown diff are right: an added line is the line of the new text with that
  number, a removed or context line that of the old text, whatever was skipped; every added and
  every removed line is shown once and in order, and the first changed line is the number of
  the new text's line at which the first change starts.\<close>

theorem diff_lines_are_numbered:
  fixes parts :: "diff_part list" and contextLines :: nat
  defines "s \<equiv> diff_loop contextLines parts initial_diff"
  shows "list_all (numbered (old_lines parts) (new_lines parts)) (df_output s)
       \<and> concat (map added_text (df_output s)) = concat (map raw_lines (filter dp_added parts))
       \<and> concat (map removed_text (df_output s)) =
           concat (map raw_lines (filter (\<lambda>p. \<not> dp_added p \<and> dp_removed p) parts))
       \<and> df_firstChangedLine s = first_changed parts"
proof -
  have "displays [] [] [] [] initial_diff" by (simp add: displays_def initial_diff_def)
  from diff_loop_displays [OF this, of parts contextLines] show ?thesis
    unfolding s_def
    by (cases "first_changed parts") (auto simp: displays_def initial_diff_def)
qed

end
