(* ===== verification/Edit_Properties.thy ===== *)
theory Edit_Properties
  imports Edit_Diff "HOL-Library.Multiset"
begin

text \<open>
  What applying edits does: without a fuzzy match every edit replaces one occurrence of its
  text and nothing else changes; with one, lines no edit touches keep their original text. The
  line endings of a file survive a normalization that is undone.
\<close>

section \<open>Replacements in order\<close>

text \<open>\<open>es\<close> pairs each replaced text with its replacement, from left to right.\<close>

inductive edited :: "(text16 \<times> text16) list \<Rightarrow> text16 \<Rightarrow> text16 \<Rightarrow> bool" where
  unchanged: "edited [] s s"
| replaced: "edited es s s' \<Longrightarrow> edited ((old, new) # es) (gap @ old @ s) (gap @ new @ s')"

text \<open>Replacements that start at \<open>k\<close> or later and do not overlap, within a text of length \<open>n\<close>.\<close>

fun apart :: "nat \<Rightarrow> nat \<Rightarrow> 'a text_replacement_scheme list \<Rightarrow> bool" where
  "apart k n [] \<longleftrightarrow> k \<le> n"
| "apart k n (r # rs) \<longleftrightarrow> k \<le> rp_matchIndex r \<and> apart (rp_matchIndex r + rp_matchLength r) n rs"

lemma apart_bound: "apart k n rs \<Longrightarrow> k \<le> n"
proof (induction rs arbitrary: k)
  case (Cons r rs)
  then have "rp_matchIndex r + rp_matchLength r \<le> n" "k \<le> rp_matchIndex r" by auto
  then show ?case by simp
qed simp

lemma apart_mono: "apart k n rs \<Longrightarrow> j \<le> k \<Longrightarrow> apart j n rs"
  by (cases rs) auto

lemma apart_append: "apart k n (rs @ rs') \<Longrightarrow> \<exists>j. apart k j rs \<and> apart j n rs'"
proof (induction rs arbitrary: k)
  case Nil
  then show ?case by auto
next
  case (Cons r rs)
  then show ?case by auto
qed

definition matched_text :: "text16 \<Rightarrow> 'a text_replacement_scheme \<Rightarrow> text16" where
  "matched_text content r = take (rp_matchLength r) (drop (rp_matchIndex r) content)"

lemma replace_at_inside:
  assumes "rp_matchIndex r = length p + i" "i + rp_matchLength r \<le> length m"
  shows "replace_at 0 r (p @ m @ s) = p @ replace_at (length p) r m @ s"
proof -
  have "nat (int (length p + i) - int (length p)) = i"
       "nat (int (length p + i) - int (length p) + int (rp_matchLength r)) = i + rp_matchLength r"
       "nat (int (length p + i) - int 0) = length p + i"
       "nat (int (length p + i) - int 0 + int (rp_matchLength r)) = length p + (i + rp_matchLength r)"
    by auto
  then show ?thesis
    unfolding replace_at_def Let_def assms(1) using assms(2) by simp
qed

lemma applyReplacements_apart:
  assumes "apart k (offset + length content) rs" "offset \<le> k"
  shows "\<exists>R. applyReplacements content rs offset = take (k - offset) content @ R
           \<and> edited (map (\<lambda>r. (take (rp_matchLength r) (drop (rp_matchIndex r - offset) content), rp_newText r)) rs)
               (drop (k - offset) content) R"
  using assms
proof (induction rs arbitrary: k)
  case Nil
  then show ?case
    by (intro exI [of _ "drop (k - offset) content"]) (simp add: applyReplacements_def edited.unchanged)
next
  case (Cons r rs)
  define i j where "i = rp_matchIndex r - offset" and "j = i + rp_matchLength r"
  have k: "k \<le> rp_matchIndex r" "apart (rp_matchIndex r + rp_matchLength r) (offset + length content) rs"
    using Cons.prems by auto
  have ri: "rp_matchIndex r = offset + i" using k(1) Cons.prems(2) by (simp add: i_def)
  have "rp_matchIndex r + rp_matchLength r \<le> offset + length content"
    using apart_bound [OF k(2)] .
  then have j: "i \<le> j" "j \<le> length content" by (simp_all add: j_def ri)
  obtain R where R: "applyReplacements content rs offset = take j content @ R"
      "edited (map (\<lambda>r. (take (rp_matchLength r) (drop (rp_matchIndex r - offset) content), rp_newText r)) rs)
        (drop j content) R"
    using Cons.IH [OF k(2)] by (auto simp: j_def ri)
  have "applyReplacements content (r # rs) offset = replace_at offset r (take j content @ R)"
    using R(1) by (simp add: applyReplacements_def)
  also have "\<dots> = take i content @ rp_newText r @ R"
    using j by (simp add: replace_at_def Let_def ri j_def nat_add_distrib min_def)
  also have "take i content = take (k - offset) content @ take (i - (k - offset)) (drop (k - offset) content)"
    using k(1) by (simp add: ri take_add [symmetric])
  finally have result: "applyReplacements content (r # rs) offset =
      take (k - offset) content @ take (i - (k - offset)) (drop (k - offset) content) @ rp_newText r @ R"
    by simp
  define d where "d = k - offset"
  have "d \<le> i" using k(1) by (simp add: d_def ri)
  have "drop d content = take (i - d) (drop d content) @ drop (i - d) (drop d content)"
    by (rule append_take_drop_id [symmetric])
  also have "drop (i - d) (drop d content) = take (rp_matchLength r) (drop i content) @ drop j content"
    using \<open>d \<le> i\<close> by (simp add: j_def) (metis append_take_drop_id drop_drop add.commute)
  finally have "drop (k - offset) content = take (i - (k - offset)) (drop (k - offset) content)
      @ take (rp_matchLength r) (drop i content) @ drop j content"
    by (simp only: d_def)
  then show ?case
    using result edited.replaced [OF R(2), of "take (rp_matchLength r) (drop i content)" "rp_newText r"
        "take (i - (k - offset)) (drop (k - offset) content)"]
    by (auto simp: i_def)
qed

lemma apart_of_find_overlap:
  "find_overlap ms = None \<Longrightarrow> (\<forall>m\<in>set ms. rp_matchIndex m + rp_matchLength m \<le> n) \<Longrightarrow> ms \<noteq> [] \<Longrightarrow>
   apart (rp_matchIndex (hd ms)) n ms"
proof (induction ms rule: find_overlap.induct)
  case (1 previous current ms)
  then show ?case by (auto split: if_splits)
qed simp_all

lemma apart_sorted:
  assumes "find_overlap ms = None" "\<forall>m\<in>set ms. rp_matchIndex m + rp_matchLength m \<le> n"
  shows "apart 0 n ms"
proof (cases "ms = []")
  case False
  from apart_of_find_overlap [OF assms False] show ?thesis by (rule apart_mono) simp
qed simp

section \<open>Edits that match exactly\<close>

lemma fuzzyFindText_found:
  assumes "fm_index (fuzzyFindText nfkc content old) = Some i"
  defines "n \<equiv> fm_matchLength (fuzzyFindText nfkc content old)"
  shows "fm_usedFuzzyMatch (fuzzyFindText nfkc content old) = (js_index_of old content = None)"
    and "\<not> fm_usedFuzzyMatch (fuzzyFindText nfkc content old) \<Longrightarrow>
           i + n \<le> length content \<and> take n (drop i content) = old"
    and "fm_usedFuzzyMatch (fuzzyFindText nfkc content old) \<Longrightarrow>
           i + n \<le> length (normalizeForFuzzyMatch nfkc content)
           \<and> take n (drop i (normalizeForFuzzyMatch nfkc content)) = normalizeForFuzzyMatch nfkc old"
  using assms(1) unfolding n_def fuzzyFindText_def
  by (auto simp: Let_def dest!: js_index_of_Some split: option.splits)

lemma match_edits_spec:
  assumes "match_edits nfkc base path n i es = Inr ms"
  shows "map me_editIndex ms = [i..<i + length es] \<and> map rp_newText ms = map ed_newText es
       \<and> list_all2 (\<lambda>e m. fm_index (fuzzyFindText nfkc base (ed_oldText e)) = Some (rp_matchIndex m)
              \<and> rp_matchLength m = fm_matchLength (fuzzyFindText nfkc base (ed_oldText e))
              \<and> countOccurrences nfkc base (ed_oldText e) \<le> 1) es ms"
  using assms
proof (induction es arbitrary: i ms)
  case (Cons e es)
  from Cons.prems obtain index ms' where "fm_index (fuzzyFindText nfkc base (ed_oldText e)) = Some index"
      "countOccurrences nfkc base (ed_oldText e) \<le> 1"
      "match_edits nfkc base path n (Suc i) es = Inr ms'"
      "ms = \<lparr>rp_matchIndex = index, rp_matchLength = fm_matchLength (fuzzyFindText nfkc base (ed_oldText e)),
             rp_newText = ed_newText e, me_editIndex = i\<rparr> # ms'"
    by (auto split: option.splits if_splits sum.splits)
  with Cons.IH [of "Suc i" ms'] show ?case
    by (simp add: upt_conv_Cons del: upt_Suc)
qed simp

text \<open>The steps of a successful call.\<close>

lemma applyEdits_InrE:
  assumes "applyEditsToNormalizedContent nfkc content edits path = Inr res"
  defines "es \<equiv> map normalize_edit edits"
  defines "fuzzy \<equiv> \<exists>e\<in>set es. fm_usedFuzzyMatch (fuzzyFindText nfkc content (ed_oldText e))"
  defines "base \<equiv> if fuzzy then normalizeForFuzzyMatch nfkc content else content"
  obtains ms where "\<forall>e\<in>set es. ed_oldText e \<noteq> []"
    "match_edits nfkc base path (length es) 0 es = Inr ms"
    "find_overlap (sort_key rp_matchIndex ms) = None"
    "fuzzy \<Longrightarrow> applyReplacementsPreservingUnchangedLines content base (sort_key rp_matchIndex ms) =
        Inr (ae_newContent res)"
    "\<not> fuzzy \<Longrightarrow> ae_newContent res = applyReplacements base (sort_key rp_matchIndex ms) 0"
    "ae_baseContent res = content" "ae_newContent res \<noteq> content"
proof -
  have f: "(\<exists>m\<in>set (map (\<lambda>e. fuzzyFindText nfkc content (ed_oldText e)) es). fm_usedFuzzyMatch m) = fuzzy"
    by (auto simp: fuzzy_def)
  have "find_index (\<lambda>e. ed_oldText e = []) es = None"
    using assms(1) by (auto simp: applyEditsToNormalizedContent_def Let_def es_def split: option.splits)
  then have nonempty: "\<forall>e\<in>set es. ed_oldText e \<noteq> []" by (simp add: find_index_None)
  define new where "new ms = (if fuzzy
      then applyReplacementsPreservingUnchangedLines content base (sort_key rp_matchIndex ms)
      else Inr (applyReplacements base (sort_key rp_matchIndex ms) 0))" for ms :: "matched_edit list"
  have eq: "Inr res = (case match_edits nfkc base path (length es) 0 es of
        Inl err \<Rightarrow> Inl err
      | Inr ms \<Rightarrow> (case find_overlap (sort_key rp_matchIndex ms) of
            Some (previous, current) \<Rightarrow> Inl (overlap_error path previous current)
          | None \<Rightarrow> (case new ms of
                Inl err \<Rightarrow> Inl err
              | Inr newContent \<Rightarrow>
                  if content = newContent then Inl (getNoChangeError path (length es))
                  else Inr \<lparr>ae_baseContent = content, ae_newContent = newContent\<rparr>)))"
    unfolding assms(1) [symmetric] applyEditsToNormalizedContent_def Let_def es_def [symmetric] f
      base_def [symmetric] new_def \<open>find_index _ es = None\<close> option.case ..
  then obtain ms where ms: "match_edits nfkc base path (length es) 0 es = Inr ms"
    by (cases "match_edits nfkc base path (length es) 0 es") simp_all
  with eq have over: "find_overlap (sort_key rp_matchIndex ms) = None"
    by (cases "find_overlap (sort_key rp_matchIndex ms)") auto
  with eq ms obtain newContent where result: "new ms = Inr newContent"
    by (cases "new ms") simp_all
  with eq ms over have "content \<noteq> newContent"
      "res = \<lparr>ae_baseContent = content, ae_newContent = newContent\<rparr>"
    by (simp_all split: if_splits)
  then have changed: "ae_newContent res \<noteq> content" and base: "ae_baseContent res = content"
    and new: "new ms = Inr (ae_newContent res)"
    using result by auto
  show thesis
  proof (rule that [OF nonempty ms over _ _ base changed])
    show "applyReplacementsPreservingUnchangedLines content base (sort_key rp_matchIndex ms) =
        Inr (ae_newContent res)" if fuzzy
      using new that by (simp only: new_def if_True)
    show "ae_newContent res = applyReplacements base (sort_key rp_matchIndex ms) 0" if "\<not> fuzzy"
      using new that by (simp only: new_def if_False sum.inject)
  qed
qed

lemma mset_map_sort_key: "map f xs = ys \<Longrightarrow> mset (map f (sort_key k xs)) = mset ys"
  by (metis mset_map mset_sort)

text \<open>The replaced texts of the matches, in the order of the edits.\<close>

lemma matched_pairs:
  assumes "match_edits nfkc base path n i es = Inr ms"
    and "\<forall>e\<in>set es. \<not> fm_usedFuzzyMatch (fuzzyFindText nfkc base (ed_oldText e))"
  shows "map (\<lambda>m. (take (rp_matchLength m) (drop (rp_matchIndex m) base), rp_newText m)) ms =
           map (\<lambda>e. (ed_oldText e, ed_newText e)) es
       \<and> (\<forall>m\<in>set ms. rp_matchIndex m + rp_matchLength m \<le> length base)"
proof -
  have "list_all2 (\<lambda>e m. fm_index (fuzzyFindText nfkc base (ed_oldText e)) = Some (rp_matchIndex m)
              \<and> rp_matchLength m = fm_matchLength (fuzzyFindText nfkc base (ed_oldText e))
              \<and> countOccurrences nfkc base (ed_oldText e) \<le> 1) es ms"
    "map rp_newText ms = map ed_newText es"
    using match_edits_spec [OF assms(1)] by simp_all
  then show ?thesis
    using assms(2)
  proof (induction es arbitrary: ms)
    case (Cons e es)
    then obtain m ms' where "ms = m # ms'"
      and m: "fm_index (fuzzyFindText nfkc base (ed_oldText e)) = Some (rp_matchIndex m)"
        "rp_matchLength m = fm_matchLength (fuzzyFindText nfkc base (ed_oldText e))"
      and "list_all2 (\<lambda>e m. fm_index (fuzzyFindText nfkc base (ed_oldText e)) = Some (rp_matchIndex m)
              \<and> rp_matchLength m = fm_matchLength (fuzzyFindText nfkc base (ed_oldText e))
              \<and> countOccurrences nfkc base (ed_oldText e) \<le> 1) es ms'"
      by (cases ms) auto
    then show ?case
      using Cons.IH [of ms'] Cons.prems(2,3) fuzzyFindText_found(2) [OF m(1)] by simp
  qed simp
qed

text \<open>When the text of every edit occurs literally in the file, a successful call replaces
  each of these texts once, from left to right and without overlap, and changes nothing else;
  each was counted at most once in the normalized file, and something did change.\<close>

lemma exact_edits:
  assumes "applyEditsToNormalizedContent nfkc content edits path = Inr res"
    and "\<forall>e\<in>set edits. js_index_of (normalizeToLF (ed_oldText e)) content \<noteq> None"
  shows "ae_baseContent res = content \<and> ae_newContent res \<noteq> content
       \<and> (\<forall>e\<in>set edits. normalizeToLF (ed_oldText e) \<noteq> []
            \<and> countOccurrences nfkc content (normalizeToLF (ed_oldText e)) \<le> 1)
       \<and> (\<exists>es. mset es = mset (map (\<lambda>e. (normalizeToLF (ed_oldText e), normalizeToLF (ed_newText e))) edits)
             \<and> edited es content (ae_newContent res))"
proof -
  define es where "es = map normalize_edit edits"
  have exact: "\<forall>e\<in>set es. \<not> fm_usedFuzzyMatch (fuzzyFindText nfkc content (ed_oldText e))"
    using assms(2) by (auto simp: es_def normalize_edit_def fuzzyFindText_def)
  obtain ms where nonempty: "\<forall>e\<in>set es. ed_oldText e \<noteq> []"
    and ms: "match_edits nfkc content path (length es) 0 es = Inr ms"
      "find_overlap (sort_key rp_matchIndex ms) = None"
      "ae_newContent res = applyReplacements content (sort_key rp_matchIndex ms) 0"
      "ae_baseContent res = content" "ae_newContent res \<noteq> content"
    using applyEdits_InrE [OF assms(1)] exact unfolding es_def [symmetric] by (auto simp: Bex_def)
  define pair where "pair m = (take (rp_matchLength m) (drop (rp_matchIndex m) content), rp_newText m)"
    for m :: matched_edit
  have pairs: "map pair ms = map (\<lambda>e. (ed_oldText e, ed_newText e)) es"
    and bounds: "\<forall>m\<in>set (sort_key rp_matchIndex ms). rp_matchIndex m + rp_matchLength m \<le> length content"
    using matched_pairs [OF ms(1) exact] by (simp_all add: pair_def [abs_def])
  have "edited (map pair (sort_key rp_matchIndex ms)) content (ae_newContent res)"
    using applyReplacements_apart [of 0 0 content "sort_key rp_matchIndex ms"] apart_sorted [OF ms(2) bounds] ms(3)
    by (auto simp: pair_def [abs_def])
  moreover have "mset (map pair (sort_key rp_matchIndex ms)) = mset (map (\<lambda>e. (ed_oldText e, ed_newText e)) es)"
    by (simp flip: pairs)
  moreover have "\<forall>e\<in>set es. countOccurrences nfkc content (ed_oldText e) \<le> 1"
    using match_edits_spec [OF ms(1)] by (auto simp: list_all2_conv_all_nth in_set_conv_nth)
  ultimately show ?thesis
    using ms(4,5) nonempty by (auto simp: es_def normalize_edit_def comp_def intro!: exI [of _ "map pair (sort_key rp_matchIndex ms)"])
qed

section \<open>Edits by whole lines\<close>

lemma concat_splitLinesWithEndings [simp]: "concat (splitLinesWithEndings s) = s"
  by (induction s) (auto split: list.splits)

text \<open>Where line \<open>i\<close> starts.\<close>

definition line_offset :: "text16 list \<Rightarrow> nat \<Rightarrow> nat" where
  "line_offset ls i = length (concat (take i ls))"

lemma length_spans_from [simp]: "length (spans_from offset ls) = length ls"
  by (induction ls arbitrary: offset) simp_all

lemma nth_spans_from:
  "i < length ls \<Longrightarrow> spans_from offset ls ! i =
     \<lparr>span_start = offset + line_offset ls i, span_end = offset + line_offset ls (Suc i)\<rparr>"
proof (induction ls arbitrary: i offset)
  case (Cons l ls)
  then show ?case by (cases i) (simp_all add: line_offset_def)
qed simp

lemma line_offset_mono: "i \<le> j \<Longrightarrow> line_offset ls i \<le> line_offset ls j"
  unfolding line_offset_def by (metis append_take_drop_id concat_append length_append le_add1 min.absorb1 take_take)

lemma line_offset_all: "length ls \<le> i \<Longrightarrow> line_offset ls i = length (concat ls)"
  by (simp add: line_offset_def)

text \<open>A replacement touches a line when the text it replaces starts before the line's end and reaches into it.\<close>

definition touches :: "text16 list \<Rightarrow> nat \<Rightarrow> 'a text_replacement_scheme \<Rightarrow> bool" where
  "touches ls i r \<longleftrightarrow> rp_matchIndex r < line_offset ls (Suc i)
     \<and> line_offset ls i < rp_matchIndex r + max 1 (rp_matchLength r)"

lemma replacement_line_range:
  assumes "getReplacementLineRange (spans_from 0 ls) r = Inr (a, b)"
  shows "a < b \<and> b \<le> length ls \<and> line_offset ls a \<le> rp_matchIndex r
       \<and> rp_matchIndex r < line_offset ls (Suc a) \<and> rp_matchIndex r + rp_matchLength r \<le> line_offset ls b
       \<and> (\<forall>i. a \<le> i \<and> i < b \<longrightarrow> touches ls i r)"
proof -
  define spans where "spans = spans_from 0 ls"
  define k where "k = length (takeWhile (\<lambda>l. span_end l < rp_matchIndex r + rp_matchLength r) (drop a spans))"
  have a: "find_index (\<lambda>l. rp_matchIndex r \<ge> span_start l \<and> rp_matchIndex r < span_end l) spans = Some a"
    and b: "b = a + k + 1" "a + k < length spans"
    using assms by (auto simp: getReplacementLineRange_def Let_def spans_def [symmetric] k_def
        split: option.splits if_splits)
  have "a < length ls" "rp_matchIndex r \<ge> span_start (spans ! a)" "rp_matchIndex r < span_end (spans ! a)"
    using find_index_Some [OF a] by (auto simp: spans_def)
  moreover have "\<not> span_end (drop a spans ! k) < rp_matchIndex r + rp_matchLength r"
    unfolding k_def by (rule nth_length_takeWhile) (use b(2) in \<open>simp add: k_def\<close>)
  moreover have "touches ls i r" if i: "a \<le> i" "i < b" for i
  proof (cases "i = a")
    case True
    with calculation show ?thesis using b by (auto simp: touches_def nth_spans_from spans_def)
  next
    case False
    with i obtain j where j: "i = Suc (a + j)" by (metis add_Suc_right le_neq_implies_less less_iff_Suc_add)
    with i b have "j < k" by simp
    then have "span_end (takeWhile (\<lambda>l. span_end l < rp_matchIndex r + rp_matchLength r) (drop a spans) ! j)
        < rp_matchIndex r + rp_matchLength r"
      unfolding k_def by (metis nth_mem set_takeWhileD)
    then have "line_offset ls i < rp_matchIndex r + rp_matchLength r"
      using \<open>j < k\<close> b by (simp add: k_def takeWhile_nth nth_spans_from spans_def j)
    moreover have "rp_matchIndex r < line_offset ls (Suc i)"
      using \<open>rp_matchIndex r < span_end (spans ! a)\<close> \<open>a < length ls\<close> i line_offset_mono [of "Suc a" "Suc i" ls]
      by (simp add: nth_spans_from spans_def)
    ultimately show ?thesis by (simp add: touches_def)
  qed
  ultimately show ?thesis
    using b by (simp add: nth_spans_from spans_def)
qed

text \<open>Groups of lines, in order from line \<open>k\<close> on, around the replacements they hold.\<close>

fun grouped :: "text16 list \<Rightarrow> nat \<Rightarrow> 'a replacement_group list \<Rightarrow> bool" where
  "grouped ls k [] \<longleftrightarrow> k \<le> length ls"
| "grouped ls k (g # gs) \<longleftrightarrow>
     k \<le> rg_startLine g \<and> rg_startLine g < rg_endLine g \<and> rg_endLine g \<le> length ls
     \<and> (\<forall>r\<in>set (rg_replacements g). line_offset ls (rg_startLine g) \<le> rp_matchIndex r
            \<and> rp_matchIndex r + rp_matchLength r \<le> line_offset ls (rg_endLine g))
     \<and> (\<forall>i. rg_startLine g \<le> i \<and> i < rg_endLine g \<longrightarrow> (\<exists>r\<in>set (rg_replacements g). touches ls i r))
     \<and> grouped ls (rg_endLine g) gs"

lemma grouped_snoc:
  "grouped ls k (gs @ [g]) \<longleftrightarrow>
     grouped ls k gs \<and> (if gs = [] then k else rg_endLine (last gs)) \<le> rg_startLine g \<and> grouped ls (rg_startLine g) [g]"
  by (induction gs arbitrary: k) auto

lemma group_replacements_grouped:
  assumes "group_replacements (spans_from 0 ls) groups rs = Inr gs" "grouped ls 0 groups"
    and "sorted (map rp_matchIndex rs)"
    and "groups = [] \<or> (\<forall>r\<in>set rs. line_offset ls (rg_startLine (last groups)) \<le> rp_matchIndex r)"
  shows "grouped ls 0 gs \<and> concat (map rg_replacements gs) = concat (map rg_replacements groups) @ rs"
  using assms
proof (induction rs arbitrary: groups)
  case (Cons r rs)
  obtain a b where ab: "getReplacementLineRange (spans_from 0 ls) r = Inr (a, b)"
    using Cons.prems(1) by (auto split: sum.splits)
  note range = replacement_line_range [OF ab]
  have later: "\<forall>r'\<in>set rs. rp_matchIndex r \<le> rp_matchIndex r'" "sorted (map rp_matchIndex rs)"
    using Cons.prems(3) by auto
  show ?case
  proof (cases "groups \<noteq> [] \<and> a < rg_endLine (last groups)")
    case True
    then obtain gs0 g where groups: "groups = gs0 @ [g]" by (cases groups rule: rev_cases) auto
    define g' where "g' = g\<lparr>rg_endLine := max (rg_endLine g) b, rg_replacements := rg_replacements g @ [r]\<rparr>"
    have "group_replacements (spans_from 0 ls) (gs0 @ [g']) rs = Inr gs"
      using Cons.prems(1) True ab by (simp add: groups g'_def Let_def)
    moreover have "touches ls i r" if "rg_endLine g \<le> i" "i < max (rg_endLine g) b" for i
      using that True range by (auto simp: groups)
    then have "\<forall>i. rg_startLine g \<le> i \<and> i < max (rg_endLine g) b \<and> \<not> i < rg_endLine g \<longrightarrow> touches ls i r"
      by simp
    with Cons.prems(2) have "\<forall>i. rg_startLine g' \<le> i \<and> i < rg_endLine g' \<longrightarrow> (\<exists>r\<in>set (rg_replacements g'). touches ls i r)"
      unfolding groups grouped_snoc g'_def by simp blast
    then have "grouped ls 0 (gs0 @ [g'])"
      using Cons.prems(2,4) range line_offset_mono [of "rg_endLine g" "max (rg_endLine g) b" ls]
        line_offset_mono [of b "max (rg_endLine g) b" ls]
      by (auto simp: groups grouped_snoc g'_def)
    moreover have "\<forall>r'\<in>set rs. line_offset ls (rg_startLine g') \<le> rp_matchIndex r'"
      using Cons.prems(4) later(1) by (auto simp: groups g'_def)
    ultimately show ?thesis
      using Cons.IH [of "gs0 @ [g']"] later(2) by (simp add: groups g'_def)
  next
    case False
    define g' where "g' = \<lparr>rg_startLine = a, rg_endLine = b, rg_replacements = [r]\<rparr>"
    have "group_replacements (spans_from 0 ls) (groups @ [g']) rs = Inr gs"
      using Cons.prems(1) False ab by (auto simp: g'_def)
    moreover have "grouped ls 0 (groups @ [g'])"
      using Cons.prems(2) False range by (auto simp: grouped_snoc g'_def)
    moreover have "\<forall>r'\<in>set rs. line_offset ls (rg_startLine g') \<le> rp_matchIndex r'"
      using later(1) range by (auto simp: g'_def)
    ultimately show ?thesis
      using Cons.IH [of "groups @ [g']"] later(2) by (simp add: g'_def)
  qed
qed simp

lemma grouped_within:
  "grouped ls k gs \<Longrightarrow>
     k \<le> length ls \<and> (\<forall>r\<in>set (concat (map rg_replacements gs)). line_offset ls k \<le> rp_matchIndex r
        \<and> rp_matchIndex r + rp_matchLength r \<le> length (concat ls))"
proof (induction gs arbitrary: k)
  case (Cons g gs)
  have "line_offset ls k \<le> line_offset ls (rg_startLine g)" "line_offset ls k \<le> line_offset ls (rg_endLine g)"
    "line_offset ls (rg_endLine g) \<le> length (concat ls)"
    using Cons.prems line_offset_mono line_offset_mono [of "rg_endLine g" "length ls" ls]
    by (auto simp: line_offset_all)
  then show ?case
    using Cons.IH [of "rg_endLine g"] Cons.prems by fastforce
qed simp

lemma apart_within:
  "apart k n rs \<Longrightarrow> (\<forall>r\<in>set rs. a \<le> rp_matchIndex r \<and> rp_matchIndex r + rp_matchLength r \<le> b) \<Longrightarrow> a \<le> b \<Longrightarrow>
   apart a b rs"
proof (induction rs arbitrary: k a)
  case (Cons r rs)
  have "rp_matchIndex r + rp_matchLength r \<le> rp_matchIndex r'" if "r' \<in> set rs" for r'
    using that Cons.prems(1)
  proof (induction rs arbitrary: k r)
    case (Cons r2 rs)
    then show ?case by fastforce
  qed simp
  then show ?case
    using Cons.IH [of "rp_matchIndex r + rp_matchLength r" "rp_matchIndex r + rp_matchLength r"] Cons.prems by auto
qed simp

lemma apart_append_D: "apart k n (rs @ rs') \<Longrightarrow> (\<exists>j. apart k j rs) \<and> (\<exists>j. apart j n rs')"
  using apart_append by blast

text \<open>Replacing inside a part of a text is replacing in that part.\<close>

lemma applyReplacements_local:
  assumes "apart k b rs" "a \<le> k" "b \<le> length base"
  shows "foldr (replace_at 0) rs (take b base @ s) = take a base @ applyReplacements (slice16 base a b) rs a @ s"
  using assms
proof (induction rs arbitrary: k)
  case Nil
  then have "take b base = take a base @ take (b - a) (drop a base)"
    by (simp flip: take_add)
  then show ?case by (simp add: applyReplacements_def slice16_def)
next
  case (Cons r rs)
  define i where "i = rp_matchIndex r - a"
  define m where "m = applyReplacements (slice16 base a b) rs a"
  have r: "k \<le> rp_matchIndex r" "apart (rp_matchIndex r + rp_matchLength r) b rs"
    using Cons.prems(1) by auto
  have idx: "rp_matchIndex r = a + i" using r(1) Cons.prems(2) by (simp add: i_def)
  have "rp_matchIndex r + rp_matchLength r \<le> b" by (rule apart_bound [OF r(2)])
  then have a: "a + i + rp_matchLength r \<le> b" by (simp add: idx)
  have len: "a + length (slice16 base a b) = b" using a Cons.prems(3) by (simp add: slice16_def)
  have "apart (rp_matchIndex r + rp_matchLength r) (a + length (slice16 base a b)) rs"
    using r(2) by (simp only: len)
  then obtain R where "m = take (i + rp_matchLength r) (slice16 base a b) @ R"
    using applyReplacements_apart [of "rp_matchIndex r + rp_matchLength r" a "slice16 base a b" rs]
    by (auto simp: m_def idx)
  then have "i + rp_matchLength r \<le> length m" using a len by simp
  moreover have "length (take a base) = a" using a Cons.prems(3) by simp
  ultimately have "replace_at 0 r (take a base @ m @ s) = take a base @ replace_at a r m @ s"
    using replace_at_inside [of r "take a base" i m s] idx by simp
  moreover have "foldr (replace_at 0) rs (take b base @ s) = take a base @ m @ s"
    using Cons.IH [OF r(2)] Cons.prems(3) idx by (simp add: m_def)
  ultimately show ?case by (simp add: applyReplacements_def m_def)
qed

text \<open>
  The lines of the original and of the base text, cut into blocks no replacement touches and
  blocks that are rewritten by their replacements. An untouched block gives the original lines
  in the result, and the base lines in the text that replacing in the base alone gives.
\<close>

datatype 'r segment =
    Untouched (original_lines: "text16 list") (base_lines: "text16 list")
  | Rewritten (original_lines: "text16 list") (base_lines: "text16 list") "'r list" text16

fun in_result :: "'r segment \<Rightarrow> text16" where
  "in_result (Untouched os bs) = concat os"
| "in_result (Rewritten os bs rs t) = t"

fun in_base :: "'r segment \<Rightarrow> text16" where
  "in_base (Untouched os bs) = concat bs"
| "in_base (Rewritten os bs rs t) = t"

fun rewriting :: "'r segment \<Rightarrow> 'r list" where
  "rewriting (Untouched os bs) = []"
| "rewriting (Rewritten os bs rs t) = rs"

definition covers :: "'r segment list \<Rightarrow> text16 list \<Rightarrow> text16 list \<Rightarrow> bool" where
  "covers segs os bs \<longleftrightarrow>
     concat (map original_lines segs) = os \<and> concat (map base_lines segs) = bs
     \<and> list_all (\<lambda>g. length (original_lines g) = length (base_lines g)) segs"

definition replaced_pairs :: "text16 \<Rightarrow> 'a text_replacement_scheme list \<Rightarrow> (text16 \<times> text16) list" where
  "replaced_pairs base rs = map (\<lambda>r. (matched_text base r, rp_newText r)) rs"

text \<open>
  A rewritten block, lines \<open>k\<close> to \<open>k + n\<close> of the base, has no line without a replacement of its own
  that touches it, its replacements lie inside it, and its new text is its base text with
  exactly those replacements made.
\<close>

fun only_touched ::
  "text16 list \<Rightarrow> nat \<Rightarrow> ('a text_replacement_scheme) segment list \<Rightarrow> bool" where
  "only_touched ls k [] \<longleftrightarrow> True"
| "only_touched ls k (Untouched os bs # segs) \<longleftrightarrow> only_touched ls (k + length bs) segs"
| "only_touched ls k (Rewritten os bs rs t # segs) \<longleftrightarrow>
     (\<forall>i. k \<le> i \<and> i < k + length bs \<longrightarrow> (\<exists>r\<in>set rs. touches ls i r))
     \<and> apart (line_offset ls k) (line_offset ls (k + length bs)) rs
     \<and> edited (replaced_pairs (concat ls) rs) (concat bs) t
     \<and> only_touched ls (k + length bs) segs"

lemma slice16_line_offset:
  assumes "a \<le> b" "b \<le> length ls"
  shows "slice16 (concat ls) (line_offset ls a) (line_offset ls b) = concat (slice16 ls a b)"
proof -
  have "concat ls = concat (take a ls) @ concat (slice16 ls a b) @ concat (drop b ls)"
    using assms by (simp add: slice16_def flip: concat_append)
      (metis append.assoc append_take_drop_id le_add_diff_inverse take_add)
  moreover have "line_offset ls b = line_offset ls a + length (concat (slice16 ls a b))"
    using assms by (simp add: line_offset_def slice16_def) (metis concat_append le_add_diff_inverse length_append take_add)
  ultimately show ?thesis by (simp add: slice16_def line_offset_def)
qed

lemma block_edited:
  assumes "apart p q rs" "p \<le> q" "q \<le> length base"
  shows "edited (replaced_pairs base rs) (slice16 base p q) (applyReplacements (slice16 base p q) rs p)"
proof -
  have len: "p + length (slice16 base p q) = q" using assms by (simp add: slice16_def)
  have "map (\<lambda>r. (take (rp_matchLength r) (drop (rp_matchIndex r - p) (slice16 base p q)), rp_newText r)) rs
      = replaced_pairs base rs"
    using assms(1)
  proof -
    have inside: "p \<le> rp_matchIndex r \<and> rp_matchIndex r + rp_matchLength r \<le> q" if "r \<in> set rs" for r
      using assms(1) that
    proof (induction rs arbitrary: p)
      case (Cons r' rs)
      then show ?case using apart_bound [of "rp_matchIndex r' + rp_matchLength r'" q rs] by fastforce
    qed simp
    show ?thesis
      unfolding replaced_pairs_def matched_text_def slice16_def
      by (rule map_cong [OF refl]) (use inside in \<open>fastforce simp: drop_take take_take min_def\<close>)
  qed
  moreover have "apart p (p + length (slice16 base p q)) rs" using assms(1) by (simp only: len)
  ultimately show ?thesis using applyReplacements_apart [of p p "slice16 base p q" rs] by auto
qed

lemma rewrite_groups_segments:
  assumes "grouped bls k gs" "length ols = length bls"
    and "apart (line_offset bls k) (length (concat bls)) (concat (map rg_replacements gs))"
  shows "\<exists>segs. covers segs (drop k ols) (drop k bls)
           \<and> rewrite_groups ols (concat bls) (spans_from 0 bls) k gs = concat (map in_result segs)
           \<and> applyReplacements (concat bls) (concat (map rg_replacements gs)) 0 =
               take (line_offset bls k) (concat bls) @ concat (map in_base segs)
           \<and> concat (map rewriting segs) = concat (map rg_replacements gs)
           \<and> only_touched bls k segs"
  using assms
proof (induction gs arbitrary: k)
  case Nil
  then have "concat bls = take (line_offset bls k) (concat bls) @ concat (drop k bls)"
    unfolding line_offset_def by (metis append_eq_conv_conj append_take_drop_id concat_append)
  then show ?case
    using Nil by (intro exI [of _ "[Untouched (drop k ols) (drop k bls)]"])
      (simp add: covers_def applyReplacements_def)
next
  case (Cons g gs)
  define a b where "a = rg_startLine g" and "b = rg_endLine g"
  define rs rest where "rs = rg_replacements g" and "rest = concat (map rg_replacements gs)"
  have g: "k \<le> a" "a < b" "b \<le> length bls" "grouped bls b gs"
    "\<forall>r\<in>set rs. line_offset bls a \<le> rp_matchIndex r \<and> rp_matchIndex r + rp_matchLength r \<le> line_offset bls b"
    "\<forall>i. a \<le> i \<and> i < b \<longrightarrow> (\<exists>r\<in>set rs. touches bls i r)"
    using Cons.prems(1) by (auto simp: a_def b_def rs_def)
  have ab: "line_offset bls a \<le> line_offset bls b" "line_offset bls b \<le> length (concat bls)"
    using g line_offset_mono [of a b bls] line_offset_mono [of b "length bls" bls] by (simp_all add: line_offset_all)
  obtain j j' where "apart (line_offset bls k) j rs" "apart j' (length (concat bls)) rest"
    using Cons.prems(3) apart_append_D [of "line_offset bls k" "length (concat bls)" rs rest]
    by (auto simp: rs_def rest_def)
  then have sub: "apart (line_offset bls a) (line_offset bls b) rs"
      "apart (line_offset bls b) (length (concat bls)) rest"
    using apart_within [of _ _ rs "line_offset bls a" "line_offset bls b"] g(5) ab
      apart_within [of _ _ rest "line_offset bls b" "length (concat bls)"] grouped_within [OF g(4)]
    by (auto simp: rest_def)
  obtain segs where segs: "covers segs (drop b ols) (drop b bls)"
      "rewrite_groups ols (concat bls) (spans_from 0 bls) b gs = concat (map in_result segs)"
      "applyReplacements (concat bls) rest 0 = take (line_offset bls b) (concat bls) @ concat (map in_base segs)"
      "concat (map rewriting segs) = rest" "only_touched bls b segs"
    using Cons.IH [OF g(4) Cons.prems(2)] sub(2) by (auto simp: rest_def)
  define t where "t = applyReplacements (slice16 (concat bls) (line_offset bls a) (line_offset bls b)) rs
      (line_offset bls a)"
  define S where "S = Untouched (slice16 ols k a) (slice16 bls k a) # Rewritten (slice16 ols a b) (slice16 bls a b) rs t # segs"
  have cut: "slice16 xs k a @ slice16 xs a b @ drop b xs = drop k xs" for xs :: "text16 list"
    using g(1,2) by (simp add: slice16_def)
      (metis append_take_drop_id drop_drop le_add_diff_inverse2 less_imp_le add.commute)
  have "rewrite_groups ols (concat bls) (spans_from 0 bls) k (g # gs) = concat (map in_result S)"
    using g segs(2) by (simp add: S_def t_def nth_spans_from Let_def flip: a_def b_def rs_def)
  moreover have "covers S (drop k ols) (drop k bls)"
    using segs(1) cut [of ols] cut [of bls] Cons.prems(2) by (simp add: covers_def S_def) (simp add: slice16_def)
  moreover have "applyReplacements (concat bls) (concat (map rg_replacements (g # gs))) 0 =
      take (line_offset bls k) (concat bls) @ concat (map in_base S)"
  proof -
    have "take (line_offset bls a) (concat bls) = take (line_offset bls k) (concat bls) @ concat (slice16 bls k a)"
    proof -
      have "take a bls = take k bls @ slice16 bls k a" using g(1) by (simp add: slice16_def flip: take_add)
      moreover have "take (line_offset bls i) (concat bls) = concat (take i bls)" for i
        unfolding line_offset_def by (metis append_eq_conv_conj append_take_drop_id concat_append)
      ultimately show ?thesis by simp
    qed
    moreover have "applyReplacements (concat bls) (rs @ rest) 0 =
        take (line_offset bls a) (concat bls) @ t @ concat (map in_base segs)"
      using applyReplacements_local [OF sub(1) _ ab(2)] segs(3) by (simp add: applyReplacements_def t_def)
    ultimately show ?thesis by (simp add: S_def rs_def rest_def)
  qed
  moreover have "concat (map rewriting S) = concat (map rg_replacements (g # gs))"
    by (simp add: S_def segs(4) rs_def rest_def)
  moreover have "only_touched bls k S"
  proof -
    have "edited (replaced_pairs (concat bls) rs) (concat (slice16 bls a b)) t"
      using block_edited [OF sub(1) ab] slice16_line_offset [of a b bls] g(2,3) by (simp add: t_def)
    moreover have "k + length (slice16 bls k a) = a" "a + length (slice16 bls a b) = b"
      using g(1-3) by (simp_all add: slice16_def)
    ultimately show ?thesis using g(6) sub(1) segs(5) by (simp add: S_def)
  qed
  ultimately show ?case by blast
qed

text \<open>The text a fuzzy search looks for in a base text that is normalized already.\<close>

definition sought_text :: "(text16 \<Rightarrow> text16) \<Rightarrow> text16 \<Rightarrow> text16 \<Rightarrow> text16" where
  "sought_text nfkc base old = (if js_index_of old base \<noteq> None then old else normalizeForFuzzyMatch nfkc old)"

lemma sought_pairs:
  assumes "match_edits nfkc base path n i es = Inr ms" "normalizeForFuzzyMatch nfkc base = base"
  shows "map (\<lambda>m. (take (rp_matchLength m) (drop (rp_matchIndex m) base), rp_newText m)) ms =
           map (\<lambda>e. (sought_text nfkc base (ed_oldText e), ed_newText e)) es"
proof -
  have "list_all2 (\<lambda>e m. fm_index (fuzzyFindText nfkc base (ed_oldText e)) = Some (rp_matchIndex m)
              \<and> rp_matchLength m = fm_matchLength (fuzzyFindText nfkc base (ed_oldText e))
              \<and> countOccurrences nfkc base (ed_oldText e) \<le> 1) es ms"
    "map rp_newText ms = map ed_newText es"
    using match_edits_spec [OF assms(1)] by simp_all
  then show ?thesis
  proof (induction es arbitrary: ms)
    case (Cons e es)
    then obtain m ms' where "ms = m # ms'"
      and m: "fm_index (fuzzyFindText nfkc base (ed_oldText e)) = Some (rp_matchIndex m)"
        "rp_matchLength m = fm_matchLength (fuzzyFindText nfkc base (ed_oldText e))"
      and "list_all2 (\<lambda>e m. fm_index (fuzzyFindText nfkc base (ed_oldText e)) = Some (rp_matchIndex m)
              \<and> rp_matchLength m = fm_matchLength (fuzzyFindText nfkc base (ed_oldText e))
              \<and> countOccurrences nfkc base (ed_oldText e) \<le> 1) es ms'"
      by (cases ms) auto
    then show ?case
      using Cons.IH [of ms'] Cons.prems(2) fuzzyFindText_found [OF m(1)] assms(2)
      by (cases "js_index_of (ed_oldText e) base") (simp_all add: sought_text_def)
  qed simp
qed

text \<open>C24: when the text of some edit has no literal occurrence, a successful call edits the
  normalized text, every edit once, from left to right and without overlap, and every line
  of the file no edit touches keeps its original text: the result is cut into blocks that
  pair original with normalized lines, untouched blocks are the original lines byte for byte,
  and a block is rewritten only where every line of it is touched by a replacement inside the block,
  with exactly the block's replacements made in its normalized text.\<close>

theorem fuzzy_edits_keep_other_lines:
  fixes nfkc :: "text16 \<Rightarrow> text16" and content :: text16
  defines "base \<equiv> normalizeForFuzzyMatch nfkc content"
  assumes "applyEditsToNormalizedContent nfkc content edits path = Inr res"
    and "\<exists>e\<in>set edits. fm_usedFuzzyMatch (fuzzyFindText nfkc content (normalizeToLF (ed_oldText e)))"
  shows "\<exists>(rs :: matched_edit list) segs.
     mset (map rp_newText rs) = mset (map (\<lambda>e. normalizeToLF (ed_newText e)) edits)
     \<and> (if normalizeForFuzzyMatch nfkc base = base
        then mset (replaced_pairs base rs) = mset (map (\<lambda>e. (sought_text nfkc base (normalizeToLF (ed_oldText e)),
                                       normalizeToLF (ed_newText e))) edits)
        else True)
     \<and> apart 0 (length base) rs
     \<and> edited (replaced_pairs base rs) base (concat (map in_base segs))
     \<and> covers segs (splitLinesWithEndings content) (splitLinesWithEndings base)
     \<and> only_touched (splitLinesWithEndings base) 0 segs
     \<and> concat (map rewriting segs) = rs
     \<and> ae_newContent res = concat (map in_result segs)"
proof -
  define es where "es = map normalize_edit edits"
  have fuzzy: "\<exists>e\<in>set es. fm_usedFuzzyMatch (fuzzyFindText nfkc content (ed_oldText e))"
    using assms(3) by (auto simp: es_def normalize_edit_def)
  obtain ms where ms: "match_edits nfkc base path (length es) 0 es = Inr ms"
      "find_overlap (sort_key rp_matchIndex ms) = None"
      "applyReplacementsPreservingUnchangedLines content base (sort_key rp_matchIndex ms) = Inr (ae_newContent res)"
    using applyEdits_InrE [OF assms(2)] fuzzy unfolding es_def [symmetric] base_def by (auto simp: Bex_def)
  define rs where "rs = sort_key rp_matchIndex ms"
  define ols bls where "ols = splitLinesWithEndings content" and "bls = splitLinesWithEndings base"
  have sorted: "sorted (map rp_matchIndex rs)" by (simp add: rs_def)
  then have "sort_key rp_matchIndex rs = rs" by (rule sort_key_id_if_sorted)
  then obtain gs where gs: "group_replacements (spans_from 0 bls) [] rs = Inr gs"
      and len: "length ols = length bls"
      and new: "ae_newContent res = rewrite_groups ols base (spans_from 0 bls) 0 gs"
    using ms(3)
    by (auto simp: applyReplacementsPreservingUnchangedLines_def getLineSpans_def Let_def rs_def [symmetric]
        ols_def [symmetric] bls_def [symmetric] split: if_splits sum.splits)
  have grouped: "grouped bls 0 gs" and all: "concat (map rg_replacements gs) = rs"
    using group_replacements_grouped [OF gs _ sorted] by simp_all
  have base: "concat bls = base" by (simp add: bls_def)
  have bounds: "\<forall>m\<in>set rs. rp_matchIndex m + rp_matchLength m \<le> length base"
    using grouped_within [OF grouped] by (simp add: all base)
  have apart: "apart 0 (length base) rs"
    using apart_sorted [OF ms(2)] bounds by (simp add: rs_def)
  obtain segs where segs: "covers segs ols bls" "ae_newContent res = concat (map in_result segs)"
      "applyReplacements base rs 0 = concat (map in_base segs)"
      "concat (map rewriting segs) = rs" "only_touched bls 0 segs"
    using rewrite_groups_segments [OF grouped len] apart by (auto simp: all base new line_offset_def)
  have pairs: "replaced_pairs base ms = map (\<lambda>m. (take (rp_matchLength m) (drop (rp_matchIndex m) base), rp_newText m)) ms"
    for ms :: "matched_edit list" by (simp add: replaced_pairs_def matched_text_def)
  have "edited (replaced_pairs base rs) base (concat (map in_base segs))"
    using applyReplacements_apart [of 0 0 base rs] apart by (auto simp: segs(3) pairs)
  moreover have "mset (map rp_newText rs) = mset (map ed_newText es)"
    using mset_map_sort_key [of rp_newText ms] match_edits_spec [OF ms(1)] by (simp add: rs_def)
  moreover have "mset (replaced_pairs base rs) = mset (map (\<lambda>e. (sought_text nfkc base (ed_oldText e), ed_newText e)) es)"
    if "normalizeForFuzzyMatch nfkc base = base"
    unfolding rs_def pairs by (rule mset_map_sort_key [OF sought_pairs [OF ms(1) that]])
  ultimately show ?thesis
    using segs apart unfolding ols_def bls_def
    by (intro exI [of _ rs] exI [of _ segs]) (simp add: es_def normalize_edit_def comp_def)
qed

definition curly_file :: text16 where
  "curly_file = [0x2019, 0x61, 0x0A, 0x62, 0x20, 0x0A, 0x63, 0x0A]"

definition curly_edit :: edit where
  "curly_edit = \<lparr>ed_oldText = [0x27, 0x61], ed_newText = js ''x''\<rparr>"

lemma curly_result:
  "applyEditsToNormalizedContent (\<lambda>s. s) curly_file [curly_edit] ''f'' =
     Inr \<lparr>ae_baseContent = curly_file, ae_newContent = [0x78, 0x0A, 0x62, 0x20, 0x0A, 0x63, 0x0A]\<rparr>"
  by code_simp

lemma fuzzy_edits_keep_other_lines_witness:
  "\<exists>(rs :: matched_edit list) segs. map rp_newText rs = [js ''x'']
     \<and> edited (replaced_pairs (normalizeForFuzzyMatch (\<lambda>s. s) curly_file) rs)
         (normalizeForFuzzyMatch (\<lambda>s. s) curly_file) (concat (map in_base segs))
     \<and> covers segs [[0x2019, 0x61, 0x0A], [0x62, 0x20, 0x0A], [0x63, 0x0A]]
         [[0x27, 0x61, 0x0A], [0x62, 0x0A], [0x63, 0x0A]]
     \<and> only_touched [[0x27, 0x61, 0x0A], [0x62, 0x0A], [0x63, 0x0A]] 0 segs
     \<and> concat (map rewriting segs) = rs
     \<and> [0x78, 0x0A, 0x62, 0x20, 0x0A, 0x63, 0x0A] = concat (map in_result segs)"
proof -
  have "fm_usedFuzzyMatch (fuzzyFindText (\<lambda>s. s) curly_file (normalizeToLF (ed_oldText curly_edit)))"
    by code_simp
  then have "\<exists>e\<in>set [curly_edit]. fm_usedFuzzyMatch (fuzzyFindText (\<lambda>s. s) curly_file (normalizeToLF (ed_oldText e)))"
    by simp
  moreover have lines: "splitLinesWithEndings curly_file = [[0x2019, 0x61, 0x0A], [0x62, 0x20, 0x0A], [0x63, 0x0A]]"
    "splitLinesWithEndings (normalizeForFuzzyMatch (\<lambda>s. s) curly_file) = [[0x27, 0x61, 0x0A], [0x62, 0x0A], [0x63, 0x0A]]"
    "normalizeToLF (ed_newText curly_edit) = js ''x''"
    by code_simp+
  ultimately show ?thesis
    using fuzzy_edits_keep_other_lines [OF curly_result] by (simp add: lines del: mset_map) (elim exE conjE, intro exI conjI; assumption)
qed

lemma exact_edits_example:
  "\<exists>es. mset es = {#(js ''b'', js ''x''), (js ''d'', js ''yy'')#} \<and> edited es (js ''abcd'') (js ''axcyy'')"
proof -
  define es where "es = [\<lparr>ed_oldText = js ''d'', ed_newText = js ''yy''\<rparr>, \<lparr>ed_oldText = js ''b'', ed_newText = js ''x''\<rparr>]"
  have "applyEditsToNormalizedContent (\<lambda>s. s) (js ''abcd'') es ''f'' =
      Inr \<lparr>ae_baseContent = js ''abcd'', ae_newContent = js ''axcyy''\<rparr>"
    unfolding es_def by code_simp
  moreover have "\<forall>e\<in>set es. js_index_of (normalizeToLF (ed_oldText e)) (js ''abcd'') \<noteq> None"
    unfolding es_def by code_simp
  ultimately obtain ps where "edited ps (js ''abcd'') (js ''axcyy'')"
    "mset ps = mset (map (\<lambda>e. (normalizeToLF (ed_oldText e), normalizeToLF (ed_newText e))) es)"
    using exact_edits [of "\<lambda>s. s" "js ''abcd''" es "''f''"] by auto
  moreover have "map (\<lambda>e. (normalizeToLF (ed_oldText e), normalizeToLF (ed_newText e))) es =
      [(js ''d'', js ''yy''), (js ''b'', js ''x'')]"
    unfolding es_def by code_simp
  ultimately show ?thesis by (auto simp: add_mset_commute)
qed

section \<open>Line endings round trip\<close>

text \<open>Every line of the text ends the same way: \<open>\n\<close> alone, or \<open>\r\n\<close>.\<close>

fun only_crlf :: "text16 \<Rightarrow> bool" where
  "only_crlf [] = True"
| "only_crlf [x] \<longleftrightarrow> x \<noteq> CR16 \<and> x \<noteq> LF16"
| "only_crlf (x # y # s) =
     (if x = CR16 then y = LF16 \<and> only_crlf s else x \<noteq> LF16 \<and> only_crlf (y # s))"

definition uniform_endings :: "text16 \<Rightarrow> bool" where
  "uniform_endings s \<longleftrightarrow> CR16 \<notin> set s \<or> only_crlf s"

lemma CR_not_LF [simp]: "CR16 \<noteq> LF16" "LF16 \<noteq> CR16"
  by (simp_all add: CR16_def LF16_def)

lemma normalizeToLF_no_CR: "CR16 \<notin> set s \<Longrightarrow> normalizeToLF s = s"
proof -
  assume "CR16 \<notin> set s"
  then have "crlf_to_lf s = s" by (induction s rule: crlf_to_lf.induct) auto
  with \<open>CR16 \<notin> set s\<close> show ?thesis by (auto simp: normalizeToLF_def intro: map_idI)
qed

lemma no_CR_normalizeToLF: "CR16 \<notin> set (normalizeToLF s)"
  by (auto simp: normalizeToLF_def)

lemma only_crlf_index:
  "only_crlf s \<Longrightarrow> js_index_of [LF16] s = map_option Suc (js_index_of [CR16, LF16] s)"
  by (induction s rule: only_crlf.induct) (auto simp: prefix_def option.map_comp comp_def split: if_splits)

lemma restore_only_crlf: "only_crlf s \<Longrightarrow> restoreLineEndings (normalizeToLF s) CRLF_ending = s"
  by (induction s rule: only_crlf.induct) (auto simp: restoreLineEndings_def normalizeToLF_def split: if_splits)

lemma only_crlf_no_LF: "only_crlf s \<Longrightarrow> js_index_of [LF16] s = None \<Longrightarrow> CR16 \<notin> set s"
  by (induction s rule: only_crlf.induct) (auto simp: js_index_of_None split: if_splits)

text \<open>for a text with uniform line endings, undoing the normalization with the detected ending
  gives the text back, so an edit changes nothing outside the replaced texts; the normalized
  text has no carriage return, and normalizing again changes nothing.\<close>

theorem line_endings_round_trip:
  assumes "uniform_endings s"
  shows "restoreLineEndings (normalizeToLF s) (detectLineEnding s) = s
       \<and> CR16 \<notin> set (normalizeToLF s) \<and> normalizeToLF (normalizeToLF s) = normalizeToLF s"
proof -
  have "restoreLineEndings (normalizeToLF s) (detectLineEnding s) = s"
  proof (cases "CR16 \<in> set s")
    case True
    then have s: "only_crlf s" using assms by (simp add: uniform_endings_def)
    then obtain i where "js_index_of [LF16] s = Some i"
      using only_crlf_no_LF True by (cases "js_index_of [LF16] s") auto
    then have "detectLineEnding s = CRLF_ending"
      using only_crlf_index [OF s] by (auto simp: detectLineEnding_def)
    then show ?thesis using restore_only_crlf [OF s] by simp
  next
    case False
    then have "js_index_of [CR16, LF16] s = None"
      by (auto simp: js_index_of_None dest: set_mono_sublist)
    then have "detectLineEnding s = LF_ending"
      by (simp add: detectLineEnding_def split: option.split)
    then show ?thesis using normalizeToLF_no_CR [OF False] by (simp add: restoreLineEndings_def)
  qed
  then show ?thesis
    using no_CR_normalizeToLF normalizeToLF_no_CR by blast
qed

lemma line_endings_round_trip_witness:
  "restoreLineEndings (normalizeToLF [0x61, CR16, LF16, 0x62]) (detectLineEnding [0x61, CR16, LF16, 0x62]) =
     [0x61, CR16, LF16, 0x62]"
proof -
  have "uniform_endings [0x61, CR16, LF16, 0x62]"
    by (simp add: uniform_endings_def CR16_def LF16_def)
  from line_endings_round_trip [OF this] show ?thesis by simp
qed

section \<open>Edits that are refused\<close>

text \<open>C40: an edit whose text is white space without a newline is refused as ambiguous even when it
  occurs exactly once: normalized, the text is empty, and the empty text is counted between
  all characters of the normalized file.\<close>

theorem whitespace_edit_is_refused:
  fixes nfkc :: "text16 \<Rightarrow> text16" and content :: text16
  assumes "js_index_of (normalizeToLF (ed_oldText e)) content \<noteq> None" "normalizeToLF (ed_oldText e) \<noteq> []"
    and "normalizeForFuzzyMatch nfkc (normalizeToLF (ed_oldText e)) = []"
    and "2 < length (normalizeForFuzzyMatch nfkc content)"
  shows "applyEditsToNormalizedContent nfkc content [e] path =
           Inl (getDuplicateError path 0 1 (int (length (normalizeForFuzzyMatch nfkc content)) - 1))"
proof -
  have "fuzzyFindText nfkc content (normalizeToLF (ed_oldText e)) =
      \<lparr>fm_found = True, fm_index = Some (the (js_index_of (normalizeToLF (ed_oldText e)) content)),
       fm_matchLength = length (normalizeToLF (ed_oldText e)), fm_usedFuzzyMatch = False,
       fm_contentForReplacement = content\<rparr>"
    using assms(1) by (auto simp: fuzzyFindText_def)
  moreover have "countOccurrences nfkc content (normalizeToLF (ed_oldText e)) =
      int (length (normalizeForFuzzyMatch nfkc content)) - 1"
    using assms(3) by (simp add: countOccurrences_def split_at_text.simps)
  moreover have "1 < int (length (normalizeForFuzzyMatch nfkc content)) - 1"
    using assms(4) by linarith
  ultimately show ?thesis
    using assms(2) by (simp add: applyEditsToNormalizedContent_def normalize_edit_def Let_def)
qed

lemma whitespace_edit_is_refused_witness:
  "js_index_of (js ''  '') (js ''a  b'') = Some 1
   \<and> applyEditsToNormalizedContent (\<lambda>s. s) (js ''a  b'') [\<lparr>ed_oldText = js ''  '', ed_newText = js '' ''\<rparr>] ''f'' =
       Inl ''Found 3 occurrences of the text in f. The text must be unique. Please provide more context to make it unique.''"
proof -
  have found: "js_index_of (js ''  '') (js ''a  b'') = Some 1" and lf: "normalizeToLF (js ''  '') = js ''  ''"
    and empty: "normalizeForFuzzyMatch (\<lambda>s. s) (js ''  '') = []"
    and len: "length (normalizeForFuzzyMatch (\<lambda>s. s) (js ''a  b'')) = 4"
    and nonempty: "js ''  '' \<noteq> []" and three: "dec 3 = ''3''"
    by code_simp+
  have "applyEditsToNormalizedContent (\<lambda>s. s) (js ''a  b'') [\<lparr>ed_oldText = js ''  '', ed_newText = js '' ''\<rparr>] ''f'' =
      Inl (getDuplicateError ''f'' 0 1 (int (length (normalizeForFuzzyMatch (\<lambda>s. s) (js ''a  b''))) - 1))"
    by (rule whitespace_edit_is_refused) (simp_all add: lf found empty len nonempty)
  then show ?thesis
    using found three by (simp add: len getDuplicateError_def dec_int_def)
qed

text \<open>A fuzzy edit of a file whose last line is white space without a newline is refused whatever
  it matches: normalizing drops that line, and the line counts differ.\<close>

lemma trailing_blank_line_blocks_fuzzy_edits:
  "applyEditsToNormalizedContent (\<lambda>s. s) [0x2019, 0x61, 0x0A, 0x20] [curly_edit] ''f'' =
     Inl ''Cannot preserve unchanged lines because the base content has a different line count.''"
  by code_simp

end
