(* ===== verification/File_Tools.thy ===== *)
theory File_Tools
  imports Diff_Display Edit_Properties Truncate Js_Json
begin

text \<open>
  The tools \<open>read\<close>, \<open>write\<close> and \<open>edit\<close> (\<open>packages/coding-agent/src/core/tools/read.ts\<close>,
  \<open>write.ts\<close>, \<open>edit.ts\<close>): each is a program over a world of files, which it reaches only through
  the pluggable operations the sources call \<open>ReadOperations\<close>, \<open>WriteOperations\<close> and
  \<open>EditOperations\<close>. The abort signal is read from the world. Path resolution, image handling and
  the package \<open>diff\<close> are parameters; an error is its message, and how the edit tool renders a
  failed access check (its code where it has one) is a parameter too.
\<close>

section \<open>The operations the tools are given\<close>

record 'w tool_operations =
  fl_access :: "string \<Rightarrow> ('w, unit) prog"
  fl_readFile :: "string \<Rightarrow> ('w, bytes) prog"
  fl_writeFile :: "string \<Rightarrow> text16 \<Rightarrow> ('w, unit) prog"
  fl_mkdir :: "string \<Rightarrow> ('w, unit) prog"
  fl_aborted :: "'w \<Rightarrow> bool"

definition throwIfAborted :: "'w tool_operations \<Rightarrow> ('w, unit) prog" where
  "throwIfAborted ops =
     bindp (readp (fl_aborted ops)) (\<lambda>a. if a then throw ''Operation aborted'' else ret ())"

section \<open>edit\<close>

definition BOM :: "16 word" where "BOM = 0xFEFF"

definition splitBom :: "text16 \<Rightarrow> text16 \<times> text16" where
  "splitBom content = (case content of u # s \<Rightarrow> if u = BOM then ([BOM], s) else ([], content) | [] \<Rightarrow> ([], content))"

definition stripBom :: "text16 \<Rightarrow> text16" where
  "stripBom content = snd (splitBom content)"

text \<open>Arguments some models give in other shapes: the edits as a JSON string or as one edit, or the
  two texts of one edit beside them. \<open>parse\<close> is \<open>JSON.parse\<close>, with \<open>None\<close> where it throws.\<close>

definition isSingleEditInput :: "json \<Rightarrow> bool" where
  "isSingleEditInput value =
     (case value of
        JObj _ \<Rightarrow> (case (json_get value ''oldText'', json_get value ''newText'') of
                     (JStr _, JStr _) \<Rightarrow> True | _ \<Rightarrow> False)
      | _ \<Rightarrow> False)"

definition edits_argument :: "(string \<Rightarrow> json option) \<Rightarrow> json \<Rightarrow> json" where
  "edits_argument parse edits =
     (case edits of
        JStr s \<Rightarrow> (case parse s of
                     Some (JArr es) \<Rightarrow> JArr es
                   | Some v \<Rightarrow> if isSingleEditInput v then JArr [v] else edits
                   | None \<Rightarrow> edits)
      | _ \<Rightarrow> if isSingleEditInput edits then JArr [edits] else edits)"

definition prepareEditArguments :: "(string \<Rightarrow> json option) \<Rightarrow> json \<Rightarrow> json" where
  "prepareEditArguments parse input =
     (case input of
        JObj kvs \<Rightarrow>
          let edits = edits_argument parse (json_get input ''edits'');
              args = (if edits = json_get input ''edits'' then kvs else AList.update ''edits'' edits kvs)
          in (case (json_get input ''oldText'', json_get input ''newText'') of
                (JStr oldText, JStr newText) \<Rightarrow>
                  let es = (case edits of JArr es \<Rightarrow> es | _ \<Rightarrow> []);
                      rest = AList.delete ''oldText'' (AList.delete ''newText'' args)
                  in JObj (AList.update ''edits''
                       (JArr (es @ [JObj [(''oldText'', JStr oldText), (''newText'', JStr newText)]])) rest)
              | _ \<Rightarrow> JObj args)
      | _ \<Rightarrow> input)"

record edit_tool_env =
  en_errorText :: "js_error \<Rightarrow> string"
  en_nfkc :: "text16 \<Rightarrow> text16"
  en_diffLines :: "text16 \<Rightarrow> text16 \<Rightarrow> diff_part list"
  en_createPatch :: "string \<Rightarrow> text16 \<Rightarrow> text16 \<Rightarrow> nat \<Rightarrow> text16"

record edit_tool_result =
  et_text :: string
  et_diff :: text16
  et_patch :: text16
  et_firstChangedLine :: "nat option"

definition generateUnifiedPatch :: "edit_tool_env \<Rightarrow> string \<Rightarrow> text16 \<Rightarrow> text16 \<Rightarrow> text16" where
  "generateUnifiedPatch env path oldContent newContent = en_createPatch env path oldContent newContent 4"

definition edit_success ::
  "edit_tool_env \<Rightarrow> string \<Rightarrow> edit list \<Rightarrow> applied_edits \<Rightarrow> edit_tool_result" where
  "edit_success env path edits applied =
     (let diffResult = generateDiffString (en_diffLines env) (ae_baseContent applied) (ae_newContent applied) 4
      in \<lparr>et_text = ''Successfully replaced '' @ dec (length edits) @ '' block(s) in '' @ path @ ''.'',
          et_diff = fst diffResult,
          et_patch = generateUnifiedPatch env path (ae_baseContent applied) (ae_newContent applied),
          et_firstChangedLine = snd diffResult\<rparr>)"

text \<open>What the tool writes, or the error of the edits, for the decoded text of the file.\<close>

definition edited_file ::
  "edit_tool_env \<Rightarrow> string \<Rightarrow> edit list \<Rightarrow> text16 \<Rightarrow> js_error + (text16 \<times> applied_edits)" where
  "edited_file env path edits rawContent =
     (case splitBom rawContent of
        (bom, content) \<Rightarrow>
          (case applyEditsToNormalizedContent (en_nfkc env) (normalizeToLF content) edits path of
             Inl err \<Rightarrow> Inl err
           | Inr applied \<Rightarrow>
               Inr (bom @ restoreLineEndings (ae_newContent applied) (detectLineEnding content), applied)))"

definition editExecute ::
  "'w tool_operations \<Rightarrow> edit_tool_env \<Rightarrow> (string \<Rightarrow> string) \<Rightarrow> string \<Rightarrow> edit list
     \<Rightarrow> ('w, edit_tool_result) prog" where
  "editExecute ops env resolveToCwd path edits =
     (if edits = []
      then throw ''Edit tool input is invalid. edits must contain at least one replacement.''
      else let absolutePath = resolveToCwd path
           in seqp (throwIfAborted ops)
             (seqp (catchp (fl_access ops absolutePath)
                      (\<lambda>err. seqp (throwIfAborted ops)
                         (throw (''Could not edit file: '' @ path @ ''. '' @ en_errorText env err @ ''.''))))
             (seqp (throwIfAborted ops)
             (bindp (fl_readFile ops absolutePath) (\<lambda>buffer.
              seqp (throwIfAborted ops)
             (bindp (liftp (edited_file env path edits (utf8_decode buffer))) (\<lambda>(finalContent, applied).
              seqp (throwIfAborted ops)
             (seqp (fl_writeFile ops absolutePath finalContent)
             (seqp (throwIfAborted ops)
                   (ret (edit_success env path edits applied)))))))))))"

text \<open>The preview of an edit: the diff the tool would report, or the error it would throw, without
  writing.\<close>

definition computeEditsDiff ::
  "'w tool_operations \<Rightarrow> edit_tool_env \<Rightarrow> (string \<Rightarrow> string) \<Rightarrow> string \<Rightarrow> edit list
     \<Rightarrow> ('w, js_error + (text16 \<times> nat option)) prog" where
  "computeEditsDiff ops env resolveToCwd path edits =
     (let absolutePath = resolveToCwd path
      in catchp
           (bindp (catchp (bindp (fl_access ops absolutePath) (\<lambda>_. ret None))
                     (\<lambda>err. ret (Some (''Could not edit file: '' @ path @ ''. '' @ en_errorText env err @ ''.''))))
             (\<lambda>accessError.
              case accessError of
                Some err \<Rightarrow> ret (Inl err)
              | None \<Rightarrow>
                  bindp (fl_readFile ops absolutePath) (\<lambda>buffer.
                  bindp (liftp (applyEditsToNormalizedContent (en_nfkc env)
                                  (normalizeToLF (snd (splitBom (utf8_decode buffer)))) edits path)) (\<lambda>applied.
                  ret (Inr (generateDiffString (en_diffLines env) (ae_baseContent applied) (ae_newContent applied) 4))))))
           (\<lambda>err. ret (Inl err)))"

definition computeEditDiff ::
  "'w tool_operations \<Rightarrow> edit_tool_env \<Rightarrow> (string \<Rightarrow> string) \<Rightarrow> string \<Rightarrow> text16 \<Rightarrow> text16
     \<Rightarrow> ('w, js_error + (text16 \<times> nat option)) prog" where
  "computeEditDiff ops env resolveToCwd path oldText newText =
     computeEditsDiff ops env resolveToCwd path [\<lparr>ed_oldText = oldText, ed_newText = newText\<rparr>]"

section \<open>write\<close>

definition writeExecute ::
  "'w tool_operations \<Rightarrow> (string \<Rightarrow> string) \<Rightarrow> (string \<Rightarrow> string) \<Rightarrow> string \<Rightarrow> text16 \<Rightarrow> ('w, string) prog" where
  "writeExecute ops dirname resolveToCwd path content =
     (let absolutePath = resolveToCwd path
      in seqp (throwIfAborted ops)
        (seqp (fl_mkdir ops (dirname absolutePath))
        (seqp (throwIfAborted ops)
        (seqp (fl_writeFile ops absolutePath content)
        (seqp (throwIfAborted ops)
              (ret (''Successfully wrote to '' @ path)))))))"

section \<open>read\<close>

text \<open>The text of a file, from a line on and at most so many lines, cut to the limits. The offset
  counts from one; zero and none are the start.\<close>

record read_result =
  rr_text :: text16
  rr_truncation :: "truncation_result option"

definition start_line :: "nat option \<Rightarrow> nat" where
  "start_line offset = (case offset of Some n \<Rightarrow> (if n = 0 then 0 else n - 1) | None \<Rightarrow> 0)"

definition selected_lines :: "text16 list \<Rightarrow> nat \<Rightarrow> nat option \<Rightarrow> text16 list \<times> nat option" where
  "selected_lines allLines startLine limit =
     (case limit of
        Some n \<Rightarrow>
          let endLine = min (startLine + n) (length allLines)
          in (slice16 allLines startLine endLine, Some (endLine - startLine))
      | None \<Rightarrow> (drop startLine allLines, None))"

definition default_limits :: truncation_options where
  "default_limits = \<lparr>to_maxLines = None, to_maxBytes = None\<rparr>"

definition readText ::
  "string \<Rightarrow> text16 \<Rightarrow> nat option \<Rightarrow> nat option \<Rightarrow> js_error + read_result" where
  "readText path textContent offset limit =
     (let allLines = split_on LF16 textContent; totalFileLines = length allLines;
          startLine = start_line offset; startLineDisplay = startLine + 1
      in if startLine \<ge> length allLines
         then Inl (''Offset '' @ dec (the offset) @ '' is beyond end of file ('' @ dec (length allLines)
                   @ '' lines total)'')
         else case selected_lines allLines startLine limit of (selected, userLimitedLines) \<Rightarrow>
           let truncation = truncateHead (js_join [LF16] selected) default_limits
           in if tr_firstLineExceedsLimit truncation
              then Inr \<lparr>rr_text = js (''[Line '' @ dec startLineDisplay @ '' is ''
                            @ formatSize (byteLength (allLines ! startLine)) @ '', exceeds ''
                            @ formatSize DEFAULT_MAX_BYTES @ '' limit. Use bash: sed -n '' @ [CHR 0x27]
                            @ dec startLineDisplay @ ''p'' @ [CHR 0x27] @ '' '' @ path @ '' | head -c ''
                            @ dec DEFAULT_MAX_BYTES @ '']''),
                        rr_truncation = Some truncation\<rparr>
              else if tr_truncated truncation
              then let endLineDisplay = startLineDisplay + tr_outputLines truncation - 1;
                       nextOffset = endLineDisplay + 1
                   in Inr \<lparr>rr_text = tr_content truncation @ [LF16, LF16]
                             @ js (''[Showing lines '' @ dec startLineDisplay @ ''-'' @ dec endLineDisplay
                                   @ '' of '' @ dec totalFileLines
                                   @ (if tr_truncatedBy truncation = Some LineLimit then []
                                      else '' ('' @ formatSize DEFAULT_MAX_BYTES @ '' limit)'')
                                   @ ''. Use offset='' @ dec nextOffset @ '' to continue.]''),
                           rr_truncation = Some truncation\<rparr>
              else (case userLimitedLines of
                      Some n \<Rightarrow>
                        if startLine + n < length allLines
                        then Inr \<lparr>rr_text = tr_content truncation @ [LF16, LF16]
                                    @ js (''['' @ dec (length allLines - (startLine + n))
                                          @ '' more lines in file. Use offset='' @ dec (startLine + n + 1)
                                          @ '' to continue.]''),
                                  rr_truncation = None\<rparr>
                        else Inr \<lparr>rr_text = tr_content truncation, rr_truncation = None\<rparr>
                    | None \<Rightarrow> Inr \<lparr>rr_text = tr_content truncation, rr_truncation = None\<rparr>))"

text \<open>An image is read and handed to the image processing, a parameter: it gives the final media
  type, hints and data, or a message. The kinds of input the model takes are given where a model is known.\<close>

datatype read_output =
    ReadText read_result
  | ReadImageNote string
  | ReadImage string string "8 word list"

record 'w read_tool_env =
  re_mimeType :: "string \<Rightarrow> ('w, string option) prog"
  re_processImage :: "bytes \<Rightarrow> string \<Rightarrow> string + (string \<times> string list \<times> bytes)"
  re_modelInput :: "string list option"

definition getNonVisionImageNote :: "string list option \<Rightarrow> string option" where
  "getNonVisionImageNote modelInput =
     (case modelInput of
        None \<Rightarrow> None
      | Some input \<Rightarrow>
          if ''image'' \<in> set input then None
          else Some ''[Current model does not support images. The image will be omitted from this request.]'')"

definition read_image :: "'w read_tool_env \<Rightarrow> bytes \<Rightarrow> string \<Rightarrow> read_output" where
  "read_image env buffer mimeType =
     (let note = (case getNonVisionImageNote (re_modelInput env) of Some n \<Rightarrow> NL # n | None \<Rightarrow> [])
      in case re_processImage env buffer mimeType of
           Inl message \<Rightarrow> ReadImageNote (''Read image file ['' @ mimeType @ '']'' @ [NL] @ message @ note)
         | Inr (processedType, hints, data) \<Rightarrow>
             ReadImage (''Read image file ['' @ processedType @ '']''
                        @ (if hints = [] then [] else NL # js_join [NL] hints) @ note)
               processedType data)"

text \<open>On abort the call is rejected at once, whatever step it is in, and runs on unseen up to its
  next check; so an error after the abort is never the one reported.\<close>

definition readExecute ::
  "'w tool_operations \<Rightarrow> 'w read_tool_env \<Rightarrow> (string \<Rightarrow> string) \<Rightarrow> string \<Rightarrow> nat option \<Rightarrow> nat option
     \<Rightarrow> ('w, read_output) prog" where
  "readExecute ops env resolveReadPath path offset limit =
     (let absolutePath = resolveReadPath path
      in seqp (throwIfAborted ops)
        (catchp
          (seqp (fl_access ops absolutePath)
          (seqp (throwIfAborted ops)
          (bindp (re_mimeType env absolutePath) (\<lambda>mimeType.
           bindp (fl_readFile ops absolutePath) (\<lambda>buffer.
           bindp (case mimeType of
                    Some m \<Rightarrow> ret (read_image env buffer m)
                  | None \<Rightarrow> bindp (liftp (readText path (utf8_decode buffer) offset limit))
                             (\<lambda>r. ret (ReadText r))) (\<lambda>content.
           seqp (throwIfAborted ops) (ret content)))))))
          (\<lambda>err. seqp (throwIfAborted ops) (throw err))))"

section \<open>The local file system\<close>

text \<open>The default operations, over a file system given by its files; a clock counts the operations
  and tells when the signal fires. Reading needs the file to be there, writing that it is not read-only.\<close>

record disk =
  dk_files :: "string \<Rightarrow> bytes option"
  dk_readOnly :: "string list"
  dk_clock :: nat
  dk_abortAt :: "nat option"

definition tick :: "disk \<Rightarrow> disk" where
  "tick w = w\<lparr>dk_clock := dk_clock w + 1\<rparr>"

definition disk_aborted :: "disk \<Rightarrow> bool" where
  "disk_aborted w = (case dk_abortAt w of Some n \<Rightarrow> n \<le> dk_clock w | None \<Rightarrow> False)"

definition no_such_file :: "string \<Rightarrow> js_error" where
  "no_such_file path = ''ENOENT: no such file or directory, open '' @ path"

definition not_permitted :: "string \<Rightarrow> js_error" where
  "not_permitted path = ''EACCES: permission denied, open '' @ path"

definition disk_access :: "bool \<Rightarrow> string \<Rightarrow> (disk, unit) prog" where
  "disk_access writable path = (\<lambda>w.
     (if dk_files w path = None then Inl (no_such_file path)
      else if writable \<and> path \<in> set (dk_readOnly w) then Inl (not_permitted path) else Inr (), tick w))"

definition disk_readFile :: "string \<Rightarrow> (disk, bytes) prog" where
  "disk_readFile path = (\<lambda>w.
     (case dk_files w path of Some b \<Rightarrow> Inr b | None \<Rightarrow> Inl (no_such_file path), tick w))"

definition disk_writeFile :: "string \<Rightarrow> text16 \<Rightarrow> (disk, unit) prog" where
  "disk_writeFile path content = (\<lambda>w.
     if path \<in> set (dk_readOnly w) then (Inl (not_permitted path), tick w)
     else (Inr (), tick (w\<lparr>dk_files := (dk_files w)(path := Some (utf8_encode content))\<rparr>)))"

definition disk_mkdir :: "string \<Rightarrow> (disk, unit) prog" where
  "disk_mkdir path = (\<lambda>w. (Inr (), tick w))"

definition defaultEditOperations :: "disk tool_operations" where
  "defaultEditOperations = \<lparr>fl_access = disk_access True, fl_readFile = disk_readFile,
     fl_writeFile = disk_writeFile, fl_mkdir = disk_mkdir, fl_aborted = disk_aborted\<rparr>"

definition defaultReadOperations :: "disk tool_operations" where
  "defaultReadOperations = defaultEditOperations\<lparr>fl_access := disk_access False\<rparr>"

end
