(* ===== verification/File_Properties.thy ===== *)
theory File_Properties
  imports File_Tools
begin

text \<open>
  What the file tools do to the files. The locales say what a tool relies on: operations that read
  leave the files alone and show their bytes, and a write sets one file. The effect of the tools is
  proved once there and holds of the local file system by interpretation.
\<close>

section \<open>Operations on a world of files\<close>

lemma throwIfAborted_run:
  "throwIfAborted ops w = (if fl_aborted ops w then (Inl ''Operation aborted'', w) else (Inr (), w))"
  by (simp add: throwIfAborted_def prog_simps)

lemmas run_simps = throwIfAborted_run seqp_def bindp_def catchp_def throw_def ret_def liftp_def

locale readable_files =
  fixes ops :: "'w tool_operations" and files :: "'w \<Rightarrow> string \<Rightarrow> bytes option"
  assumes access_keeps: "fl_access ops path w = (r, w') \<Longrightarrow> files w' = files w"
    and read_keeps: "fl_readFile ops path w = (r', w') \<Longrightarrow> files w' = files w"
    and read_gives: "fl_readFile ops path w = (Inr b, w') \<Longrightarrow> files w path = Some b"
begin

lemma readExecute_outcome:
  assumes "readExecute ops env resolve path offset limit w = (r, w')"
    and mime: "\<And>p v m v'. re_mimeType env p v = (m, v') \<Longrightarrow> files v' = files v"
  shows "files w' = files w
       \<and> (\<forall>out. r = Inr out \<longrightarrow> (\<exists>b. files w (resolve path) = Some b
            \<and> (\<forall>rr. out = ReadText rr \<longrightarrow> readText path (utf8_decode b) offset limit = Inr rr)))"
proof -
  obtain ra wa where access: "fl_access ops (resolve path) w = (ra, wa)" by (cases "fl_access ops (resolve path) w")
  obtain rm wm where mt: "re_mimeType env (resolve path) wa = (rm, wm)" by (cases "re_mimeType env (resolve path) wa")
  obtain rb wb where buffer: "fl_readFile ops (resolve path) wm = (rb, wb)" by (cases "fl_readFile ops (resolve path) wm")
  have kept: "files wa = files w" "files wm = files w" "files wb = files w"
    using access_keeps [OF access] mime [OF mt] read_keeps [OF buffer] by simp_all
  have "rb = Inr b \<Longrightarrow> files w (resolve path) = Some b" for b
    using read_gives [of "resolve path" wm b wb] buffer kept by simp
  then show ?thesis
    using assms(1) access mt buffer kept
    by (cases ra; cases rm; cases rb)
       (auto simp: readExecute_def Let_def run_simps read_image_def split: if_splits option.splits sum.splits prod.splits)
qed

end

locale writable_files = readable_files +
  assumes mkdir_keeps: "fl_mkdir ops path w = (u, w') \<Longrightarrow> files w' = files w"
    and write_sets: "fl_writeFile ops path s w = (Inr (), w') \<Longrightarrow> files w' = (files w)(path := Some (utf8_encode s))"
    and write_fails: "fl_writeFile ops path s w = (Inl err, w') \<Longrightarrow> files w' = files w"
begin

lemma editExecute_outcome:
  assumes "editExecute ops env resolve path edits w = (r, w')"
  shows "(files w' = files w \<and> (\<exists>err. r = Inl err))
       \<or> (\<exists>old final applied. files w (resolve path) = Some old
            \<and> edited_file env path edits (utf8_decode old) = Inr (final, applied)
            \<and> files w' = (files w)(resolve path := Some (utf8_encode final))
            \<and> edits \<noteq> [] \<and> \<not> fl_aborted ops w
            \<and> (r = Inr (edit_success env path edits applied)
                 \<or> r = Inl ''Operation aborted'' \<and> fl_aborted ops w'))"
proof (cases "edits = [] \<or> fl_aborted ops w")
  case True
  with assms show ?thesis
    by (auto simp: editExecute_def Let_def run_simps split: if_splits)
next
  case False
  obtain ra wa where access: "fl_access ops (resolve path) w = (ra, wa)" by (cases "fl_access ops (resolve path) w")
  obtain rb wb where buffer: "fl_readFile ops (resolve path) wa = (rb, wb)" by (cases "fl_readFile ops (resolve path) wa")
  have kept: "files wa = files w" "files wb = files w"
    using access_keeps [OF access] read_keeps [OF buffer] by simp_all
  show ?thesis
  proof (cases ra)
    case (Inl err)
    with assms False access kept show ?thesis
      by (auto simp: editExecute_def Let_def run_simps split: if_splits)
  next
    case ok: (Inr u)
    show ?thesis
    proof (cases "fl_aborted ops wa \<or> (\<exists>err. rb = Inl err) \<or> fl_aborted ops wb
        \<or> (\<exists>err. edited_file env path edits (utf8_decode (projr rb)) = Inl err)")
      case True
      with ok assms False access buffer kept show ?thesis
        by (cases rb) (auto simp: editExecute_def Let_def run_simps split: sum.splits prod.splits if_splits)
    next
      case go: False
      then obtain old final applied where old: "rb = Inr old"
        and edited: "edited_file env path edits (utf8_decode old) = Inr (final, applied)"
        by (cases rb; cases "edited_file env path edits (utf8_decode (projr rb))") auto
      obtain rc wc where wrote: "fl_writeFile ops (resolve path) final wb = (rc, wc)"
        by (cases "fl_writeFile ops (resolve path) final wb")
      have run: "(r, w') = (case rc of Inl err \<Rightarrow> (Inl err, wc)
          | Inr _ \<Rightarrow> if fl_aborted ops wc then (Inl ''Operation aborted'', wc) else (Inr (edit_success env path edits applied), wc))"
        using assms False access buffer ok go old edited wrote
        by (cases rc) (auto simp: editExecute_def Let_def run_simps)
      have "files w (resolve path) = Some old"
        using read_gives [of "resolve path" wa old wb] buffer old kept by simp
      then show ?thesis
        using run edited wrote False kept write_sets [of "resolve path" final wb] write_fails [of "resolve path" final wb]
        by (cases rc) (auto split: if_splits)
    qed
  qed
qed

lemma writeExecute_outcome:
  assumes "writeExecute ops dirname resolve path content w = (r, w')"
  shows "(files w' = files w \<and> (\<exists>err. r = Inl err))
       \<or> (files w' = (files w)(resolve path := Some (utf8_encode content)) \<and> \<not> fl_aborted ops w
            \<and> (r = Inr (''Successfully wrote to '' @ path) \<or> r = Inl ''Operation aborted'' \<and> fl_aborted ops w'))"
proof -
  obtain ra wa where mk: "fl_mkdir ops (dirname (resolve path)) w = (ra, wa)"
    by (cases "fl_mkdir ops (dirname (resolve path)) w")
  obtain rb wb where wrote: "fl_writeFile ops (resolve path) content wa = (rb, wb)"
    by (cases "fl_writeFile ops (resolve path) content wa")
  show ?thesis
    using assms mk wrote mkdir_keeps [OF mk] write_sets [of "resolve path" content wa wb]
      write_fails [of "resolve path" content wa _ wb]
    by (cases ra; cases rb) (auto simp: writeExecute_def Let_def run_simps split: if_splits)
qed

end

section \<open>The local file system\<close>

interpretation local_reads: readable_files defaultReadOperations dk_files
  by unfold_locales
     (auto simp: defaultReadOperations_def defaultEditOperations_def disk_access_def disk_readFile_def tick_def
       split: option.splits)

interpretation local_edits: writable_files defaultEditOperations dk_files
  by unfold_locales
     (auto simp: defaultEditOperations_def disk_access_def disk_readFile_def disk_writeFile_def disk_mkdir_def tick_def
       split: option.splits if_splits)

lemma aborted_defaults [simp]:
  "fl_aborted defaultEditOperations = disk_aborted" "fl_aborted defaultReadOperations = disk_aborted"
  by (simp_all add: defaultReadOperations_def defaultEditOperations_def)

text \<open>C25: a call of the edit tool changes at most the one file it names, and only to the decoded old
  content with the edits applied; a call that fails leaves every file as it was, unless it was
  aborted after its write.\<close>

theorem edit_tool_changes_one_file:
  assumes "editExecute defaultEditOperations env resolve path edits w = (r, w')"
  shows "(dk_files w' = dk_files w \<and> (\<exists>err. r = Inl err))
       \<or> (\<exists>old final applied. dk_files w (resolve path) = Some old
            \<and> edited_file env path edits (utf8_decode old) = Inr (final, applied)
            \<and> dk_files w' = (dk_files w)(resolve path := Some (utf8_encode final))
            \<and> \<not> disk_aborted w
            \<and> (r = Inr (edit_success env path edits applied) \<or> r = Inl ''Operation aborted'' \<and> disk_aborted w'))"
  using local_edits.editExecute_outcome [OF assms] by auto

text \<open>C5: a successful call of the edit tool whose texts all occur literally in the file, line endings
  apart, keeps the byte order mark and the line ending of the file and between them replaces each of
  the texts once and nothing else; every other file is untouched.\<close>

theorem edit_tool_replaces_texts:
  assumes "editExecute defaultEditOperations env resolve path edits w = (Inr res, w')"
    and "dk_files w (resolve path) = Some old" "splitBom (utf8_decode old) = (bom, content)"
    and "\<forall>e\<in>set edits. js_index_of (normalizeToLF (ed_oldText e)) (normalizeToLF content) \<noteq> None"
  shows "\<exists>es new. edited es (normalizeToLF content) new \<and> new \<noteq> normalizeToLF content
       \<and> mset es = mset (map (\<lambda>e. (normalizeToLF (ed_oldText e), normalizeToLF (ed_newText e))) edits)
       \<and> dk_files w' = (dk_files w)(resolve path :=
            Some (utf8_encode (bom @ restoreLineEndings new (detectLineEnding content))))"
proof -
  obtain final applied where run: "edited_file env path edits (utf8_decode old) = Inr (final, applied)"
    "dk_files w' = (dk_files w)(resolve path := Some (utf8_encode final))"
    using local_edits.editExecute_outcome [OF assms(1)] assms(2) by auto
  then have "applyEditsToNormalizedContent (en_nfkc env) (normalizeToLF content) edits path = Inr applied"
    and "final = bom @ restoreLineEndings (ae_newContent applied) (detectLineEnding content)"
    using assms(3) by (auto simp: edited_file_def split: sum.splits)
  then show ?thesis
    using exact_edits [OF _ assms(4)] run(2) by blast
qed

text \<open>C27: the preview of an edit shows exactly the diff and the first changed line that the tool then
  reports when it succeeds on the same files, and where the preview shows an error the tool fails;
  the preview changes no file.\<close>

theorem preview_shows_the_edit:
  assumes "computeEditsDiff defaultReadOperations env resolve path edits w = (preview, v)"
    and "editExecute defaultEditOperations env resolve path edits w = (r, w')"
  shows "dk_files v = dk_files w
       \<and> (\<exists>shown. preview = Inr shown)
       \<and> (\<forall>res. r = Inr res \<longrightarrow> preview = Inr (Inr (et_diff res, et_firstChangedLine res)))
       \<and> (\<forall>err. preview = Inr (Inl err) \<longrightarrow> (\<exists>err'. r = Inl err'))"
proof -
  have shown: "preview = Inr (Inr (et_diff res, et_firstChangedLine res))" if ok: "r = Inr res" for res
  proof -
    obtain old final applied where old: "dk_files w (resolve path) = Some old"
      and run: "edited_file env path edits (utf8_decode old) = Inr (final, applied)"
      and res: "res = edit_success env path edits applied"
      using local_edits.editExecute_outcome [OF assms(2)] unfolding ok by auto
    obtain bom content where bom: "splitBom (utf8_decode old) = (bom, content)" by fastforce
    then have "applyEditsToNormalizedContent (en_nfkc env) (normalizeToLF content) edits path = Inr applied"
      using run by (auto simp: edited_file_def split: sum.splits)
    then show ?thesis
      using assms(1) old bom res
      by (simp add: computeEditsDiff_def Let_def run_simps defaultReadOperations_def defaultEditOperations_def
          disk_access_def disk_readFile_def tick_def edit_success_def)
  qed
  have "dk_files v = dk_files w \<and> (\<exists>shown. preview = Inr shown)"
    using assms(1) by (auto simp: computeEditsDiff_def Let_def run_simps defaultReadOperations_def defaultEditOperations_def
          disk_access_def disk_readFile_def tick_def split: option.splits sum.splits prod.splits if_splits)
  then show ?thesis using shown by (cases r) auto
qed

section \<open>The arguments of an edit\<close>

lemma edits_argument_idem: "edits_argument parse (edits_argument parse v) = edits_argument parse v"
  by (auto simp: edits_argument_def isSingleEditInput_def split: json.splits option.splits)

text \<open>Preparing arguments twice is preparing them once.\<close>

lemma prepareEditArguments_done:
  assumes "edits_argument parse (json_get (JObj kvs) ''edits'') = json_get (JObj kvs) ''edits''"
    and "\<nexists>a b. json_get (JObj kvs) ''oldText'' = JStr a \<and> json_get (JObj kvs) ''newText'' = JStr b"
  shows "prepareEditArguments parse (JObj kvs) = JObj kvs"
  using assms(2) by (auto simp: prepareEditArguments_def Let_def assms(1) simp del: json_get.simps split: json.splits)

lemma prepareEditArguments_idem:
  "prepareEditArguments parse (prepareEditArguments parse input) = prepareEditArguments parse input"
proof (cases input)
  case (JObj kvs)
  define e where "e = edits_argument parse (json_get input ''edits'')"
  define args where "args = (if e = json_get input ''edits'' then kvs else AList.update ''edits'' e kvs)"
  have get: "json_get (JObj args) k = (if k = ''edits'' then e else json_get input k)" for k
    by (auto simp: args_def JObj update_conv')
  have arr: "edits_argument parse (JArr es) = JArr es" for es
    by (simp add: edits_argument_def isSingleEditInput_def)
  show ?thesis
  proof (cases "\<exists>a b. json_get input ''oldText'' = JStr a \<and> json_get input ''newText'' = JStr b")
    case True
    then obtain a b where ab: "json_get input ''oldText'' = JStr a" "json_get input ''newText'' = JStr b" by blast
    obtain es where "prepareEditArguments parse input = JObj (AList.update ''edits'' (JArr es)
        (AList.delete ''oldText'' (AList.delete ''newText'' args)))"
      using ab unfolding args_def e_def JObj by (simp add: prepareEditArguments_def Let_def del: json_get.simps)
    then show ?thesis
      by (simp only:) (rule prepareEditArguments_done; simp add: update_conv' delete_conv' arr)
  next
    case False
    then have "prepareEditArguments parse input = JObj args"
      unfolding args_def e_def JObj
      by (auto simp: prepareEditArguments_def Let_def simp del: json_get.simps split: json.splits)
    then show ?thesis
      using False by (simp only:) (rule prepareEditArguments_done; simp add: get e_def edits_argument_idem del: json_get.simps)
  qed
qed (simp_all add: prepareEditArguments_def)

section \<open>Reading by pages\<close>

lemma split_on_join:
  "xs \<noteq> [] \<Longrightarrow> \<forall>x\<in>set xs. c \<notin> set x \<Longrightarrow> split_on c (js_join [c] xs) = xs"
proof (induction xs)
  case (Cons x xs)
  have "c \<notin> set y \<Longrightarrow> split_on c y = [y]" "c \<notin> set y \<Longrightarrow> split_on c (y @ c # s) = y # split_on c s" for y s
    by (induction y) auto
  with Cons show ?case by (cases "xs = []") (auto simp: js_join_Cons)
qed simp

lemma counted_lines_of_join:
  assumes "\<forall>x\<in>set xs. LF16 \<notin> set x"
  shows "splitLinesForCounting (js_join [LF16] xs) = (if xs \<noteq> [] \<and> last xs = [] then butlast xs else xs)"
proof (cases xs rule: rev_cases)
  case (snoc ys y)
  have "js_join [LF16] xs = (if ys = [] then y else js_join [LF16] ys @ LF16 # y)"
    using js_join_append [of ys "[y]" "[LF16]"] snoc by simp
  moreover have "y \<noteq> [] \<Longrightarrow> last y \<noteq> LF16"
    using assms snoc last_in_set [of y] by fastforce
  ultimately show ?thesis
    using split_on_join [of xs LF16] assms snoc
    by (cases "y = []") (auto simp: splitLinesForCounting_def)
qed (simp add: splitLinesForCounting_def)

lemma outputLines_le: "tr_outputLines (truncateHead s options) \<le> length (splitLinesForCounting s)"
proof -
  have "collect_head ml mb acc c ls = (out, c', hit) \<Longrightarrow> length out \<le> length acc + length ls" for ml mb acc c ls out c' hit
    by (induction ml mb acc c ls rule: collect_head.induct) (auto simp: Let_def split: if_splits)
  from this [of _ _ "[]"] show ?thesis
    by (auto simp: truncateHead_def Let_def untruncated_def split: prod.splits)
qed

text \<open>Cutting joined lines to the default limits: all of them, no line where the first is too long,
  or a positive number of them with some left.\<close>

lemma truncateHead_of_join:
  fixes xs :: "text16 list"
  defines "r \<equiv> truncateHead (js_join [LF16] xs) default_limits"
  assumes "xs \<noteq> []" "\<forall>x\<in>set xs. LF16 \<notin> set x"
  shows "if \<not> tr_truncated r
         then \<not> tr_firstLineExceedsLimit r \<and> tr_content r = js_join [LF16] xs
            \<and> byteLength (js_join [LF16] xs) \<le> DEFAULT_MAX_BYTES \<and> length xs \<le> DEFAULT_MAX_LINES + 1
         else if tr_firstLineExceedsLimit r then DEFAULT_MAX_BYTES < byteLength (hd xs)
         else 0 < tr_outputLines r \<and> tr_outputLines r < length xs \<and> tr_outputLines r \<le> DEFAULT_MAX_LINES
            \<and> tr_content r = js_join [LF16] (take (tr_outputLines r) xs)
            \<and> byteLength (js_join [LF16] (take (tr_outputLines r) xs)) \<le> DEFAULT_MAX_BYTES"
proof -
  define ls where "ls = splitLinesForCounting (js_join [LF16] xs)"
  have limits [simp]: "max_lines default_limits = DEFAULT_MAX_LINES" "max_bytes default_limits = DEFAULT_MAX_BYTES"
    by (simp_all add: default_limits_def max_lines_def max_bytes_def)
  have ls: "ls = (if last xs = [] then butlast xs else xs)"
    using counted_lines_of_join [OF assms(3)] assms(2) by (simp add: ls_def)
  have first: "tr_firstLineExceedsLimit r \<longleftrightarrow> tr_truncated r \<and> DEFAULT_MAX_BYTES < byteLength (hd ls)"
    by (auto simp: r_def truncateHead_def Let_def untruncated_def ls_def split: prod.splits)
  note spec = truncateHead_spec [of "js_join [LF16] xs" default_limits, folded r_def ls_def, unfolded limits]
  show ?thesis
  proof (cases "tr_truncated r")
    case False
    then show ?thesis
      using spec first by (cases xs rule: rev_cases) (auto simp: ls split: if_splits)
  next
    case truncated: True
    let ?n = "tr_outputLines r"
    have "ls \<noteq> []"
      using truncated spec by (cases xs rule: rev_cases) (auto simp: ls byteLength_def split: if_splits)
    moreover have n: "?n \<le> length ls"
      unfolding r_def ls_def by (rule outputLines_le)
    ultimately have hd: "hd ls = hd xs" and pre: "take ?n ls = take ?n xs"
      by (cases xs rule: rev_cases; auto simp: ls hd_append split: if_splits)+
    show ?thesis
    proof (cases "tr_firstLineExceedsLimit r")
      case True
      then show ?thesis using truncated first hd by simp
    next
      case False
      have "js_join [LF16] (take (Suc 0) ls) = hd ls"
        using \<open>ls \<noteq> []\<close> by (cases ls) simp_all
      then have "0 < ?n"
        using truncated False spec first \<open>ls \<noteq> []\<close> by (auto simp: DEFAULT_MAX_LINES_def intro!: Nat.gr0I)
      moreover have "?n < length xs"
      proof (rule ccontr)
        assume "\<not> ?n < length xs"
        with n ls assms(2) have "?n = length xs" "ls = xs"
          by (cases xs rule: rev_cases; auto split: if_splits)+
        with truncated spec show False by (auto simp: not_less)
      qed
      ultimately show ?thesis
        using truncated False spec pre by auto
    qed
  qed
qed

lemma selected_lines_eq:
  assumes "selected_lines ls k limit = (sel, user)" "k < length ls"
  shows "sel = take (length sel) (drop k ls) \<and> k + length sel \<le> length ls
       \<and> user = map_option (\<lambda>_. length sel) limit
       \<and> (case limit of Some m \<Rightarrow> length sel \<le> m | None \<Rightarrow> k + length sel = length ls)
       \<and> (sel = [] \<longrightarrow> limit = Some 0)"
  using assms by (auto simp: selected_lines_def slice16_def Let_def split: option.splits)

text \<open>C26: a read that is not out of range shows consecutive lines from the requested one on, at most
  the limit and at most the size the tool allows; when it leaves any out its text ends by naming the
  line after the last one shown, so that reading on from there misses and repeats nothing and always
  advances. Only a first line that is too long by itself is not shown.\<close>

theorem read_shows_consecutive_lines:
  assumes "readText path s offset limit = Inr r" "k = start_line offset" "ls = split_on LF16 s"
  shows "k < length ls
       \<and> ((\<exists>n. k + n \<le> length ls \<and> (\<forall>m. limit = Some m \<longrightarrow> n \<le> m) \<and> n \<le> DEFAULT_MAX_LINES + 1
             \<and> byteLength (js_join [LF16] (take n (drop k ls))) \<le> DEFAULT_MAX_BYTES
             \<and> (if k + n = length ls then rr_text r = js_join [LF16] (take n (drop k ls))
                else (n = 0 \<longrightarrow> limit = Some 0)
                   \<and> (\<exists>notice. rr_text r = js_join [LF16] (take n (drop k ls)) @ [LF16, LF16]
                        @ js (notice @ ''Use offset='' @ dec (k + n + 1) @ '' to continue.]''))))
          \<or> DEFAULT_MAX_BYTES < byteLength (ls ! k))"
proof -
  define sel where "sel = fst (selected_lines ls k limit)"
  define t where "t = truncateHead (js_join [LF16] sel) default_limits"
  have k: "k < length ls" using assms by (auto simp: readText_def Let_def split: if_splits)
  have sel: "sel = take (length sel) (drop k ls)" "k + length sel \<le> length ls" "sel = [] \<longrightarrow> limit = Some 0"
    and user: "snd (selected_lines ls k limit) = map_option (\<lambda>_. length sel) limit"
    and lim: "case limit of Some m \<Rightarrow> length sel \<le> m | None \<Rightarrow> k + length sel = length ls"
    using selected_lines_eq [of ls k limit sel "snd (selected_lines ls k limit)"] k by (simp_all add: sel_def)
  have "selected_lines ls k limit = (sel, map_option (\<lambda>_. length sel) limit)"
    using user by (simp add: sel_def prod_eq_iff)
  note run = assms(1) [unfolded readText_def Let_def, folded assms(2,3), unfolded this prod.case, folded t_def]
  show ?thesis
  proof (cases "sel = []")
    case True
    then have limit: "limit = Some 0" and t: "t = untruncated [] 0 0 DEFAULT_MAX_LINES DEFAULT_MAX_BYTES"
      using sel(3) by (simp_all add: t_def truncateHead_def splitLinesForCounting_def default_limits_def max_lines_def max_bytes_def)
    show ?thesis
      using run k unfolding t limit
      by (auto simp: True untruncated_def intro!: exI [of _ 0]
          exI [of _ "''['' @ dec (length ls - k) @ '' more lines in file. ''"])
  next
    case False
    have "set sel \<subseteq> set ls"
      using sel(1) set_take_subset set_drop_subset by (metis order_trans)
    then have "\<forall>x\<in>set sel. LF16 \<notin> set x"
      using split_on_no_sep [of _ LF16 s] assms(3) by blast
    note cut = truncateHead_of_join [OF False this, folded t_def]
    show ?thesis
    proof (cases "tr_truncated t")
      case True
      define n where "n = tr_outputLines t"
      have hd: "hd sel = ls ! k"
        using sel(1) \<open>sel \<noteq> []\<close> k by (metis hd_drop_conv_nth hd_take length_greater_0_conv)
      have n: "n \<le> length sel \<Longrightarrow> take n (drop k ls) = take n sel"
        using sel(1) by (metis min.absorb1 take_take)
      show ?thesis
      proof (cases "tr_firstLineExceedsLimit t")
        case False
        then have "0 < n" "n < length sel"
          using True cut by (simp_all add: n_def)
        moreover have "\<exists>notice. rr_text r = js_join [LF16] (take n (drop k ls)) @ [LF16, LF16]
            @ js (notice @ ''Use offset='' @ dec (k + n + 1) @ '' to continue.]'')"
          using run True False cut n k \<open>0 < n\<close> \<open>n < length sel\<close>
          by (auto simp: n_def intro!: exI [of _ "''[Showing lines '' @ dec (k + 1) @ ''-'' @ dec (k + n)
              @ '' of '' @ dec (length ls) @ (if tr_truncatedBy t = Some LineLimit then []
                 else '' ('' @ formatSize DEFAULT_MAX_BYTES @ '' limit)'') @ ''. ''"])
        ultimately show ?thesis
          using True False cut n k sel(2) lim by (intro conjI disjI1 exI [of _ n]) (auto simp: n_def split: option.splits)
      qed (use True cut hd k in simp)
    next
      case False
      then show ?thesis
        using run cut k sel(2,3) lim by (intro conjI disjI1 exI [of _ "length sel"])
          (auto simp flip: sel(1) split: if_splits option.splits
             intro!: exI [of _ "''['' @ dec (length ls - (k + length sel)) @ '' more lines in file. ''"])
    qed
  qed
qed

section \<open>Writing, then reading\<close>

text \<open>What the write tool wrote the read tool shows, unchanged and without a notice, when the text
  is well formed and within the limits, the file is not taken for an image and nothing is aborted.\<close>

theorem written_text_reads_back:
  assumes "writeExecute defaultEditOperations dirname resolve path content w = (Inr msg, w')"
    and "well_formed content" "byteLength content \<le> DEFAULT_MAX_BYTES"
      "length (splitLinesForCounting content) \<le> DEFAULT_MAX_LINES"
    and "re_mimeType env (resolve path) = ret None" "dk_abortAt w = None"
  shows "\<exists>w''. readExecute defaultReadOperations env resolve path None None w' =
             (Inr (ReadText \<lparr>rr_text = content, rr_truncation = None\<rparr>), w'')
           \<and> dk_files w'' = (dk_files w)(resolve path := Some (utf8_encode content))"
proof -
  have w': "dk_files w' = (dk_files w)(resolve path := Some (utf8_encode content))"
    using local_edits.writeExecute_outcome [OF assms(1)] by auto
  have running: "dk_abortAt w' = None"
    using assms(1,6) by (auto simp: writeExecute_def Let_def run_simps defaultEditOperations_def disk_aborted_def
        disk_mkdir_def disk_writeFile_def tick_def split: if_splits)
  have "truncateHead content default_limits = untruncated content (length (splitLinesForCounting content))
      (byteLength content) DEFAULT_MAX_LINES DEFAULT_MAX_BYTES"
    using assms(3,4) by (simp add: truncateHead_def Let_def default_limits_def max_lines_def max_bytes_def)
  then have "readText path content None None = Inr \<lparr>rr_text = content, rr_truncation = None\<rparr>"
    by (simp add: readText_def start_line_def selected_lines_def Let_def untruncated_def)
  then show ?thesis
    using w' running assms(2,5)
    by (simp add: readExecute_def Let_def run_simps defaultReadOperations_def defaultEditOperations_def
        disk_aborted_def disk_access_def disk_readFile_def tick_def utf8_decode_encode)
qed

section \<open>A concrete disk\<close>

definition sample_text :: text16 where
  "sample_text = js ''ab'' @ [CR16, LF16] @ js ''cd'' @ [CR16, LF16]"

definition sample_disk :: disk where
  "sample_disk = \<lparr>dk_files = [''/a'' \<mapsto> utf8_encode (BOM # sample_text), ''/b'' \<mapsto> []],
     dk_readOnly = [], dk_clock = 0, dk_abortAt = None\<rparr>"

definition sample_env :: edit_tool_env where
  "sample_env = \<lparr>en_errorText = (\<lambda>e. e), en_nfkc = (\<lambda>s. s), en_diffLines = (\<lambda>a b. []),
     en_createPatch = (\<lambda>p a b n. [])\<rparr>"

definition sample_edits :: "edit list" where
  "sample_edits = [\<lparr>ed_oldText = js ''b'' @ [LF16] @ js ''c'', ed_newText = js ''x'' @ [LF16]\<rparr>]"

definition sample_result :: applied_edits where
  "sample_result = projr (applyEditsToNormalizedContent (\<lambda>s. s) (normalizeToLF sample_text) sample_edits ''a'')"

lemma sample_decoded: "utf8_decode (utf8_encode (BOM # sample_text)) = BOM # sample_text"
  by (rule utf8_decode_encode) (simp add: sample_text_def BOM_def js_def CR16_def LF16_def high_surrogate_def low_surrogate_def)

lemma sample_edited:
  "edited_file sample_env ''a'' sample_edits (BOM # sample_text) =
     Inr (BOM # js ''ax'' @ [CR16, LF16] @ js ''d'' @ [CR16, LF16], sample_result)"
  by code_simp

lemma sample_edit_run:
  "editExecute defaultEditOperations sample_env (\<lambda>p. CHR ''/'' # p) ''a'' sample_edits sample_disk =
     (Inr (edit_success sample_env ''a'' sample_edits sample_result),
      sample_disk\<lparr>dk_files := (dk_files sample_disk)(''/a'' :=
          Some (utf8_encode (BOM # js ''ax'' @ [CR16, LF16] @ js ''d'' @ [CR16, LF16]))), dk_clock := 3\<rparr>)"
proof -
  have "dk_files sample_disk ''/a'' = Some (utf8_encode (BOM # sample_text))" "dk_readOnly sample_disk = []"
    "dk_abortAt sample_disk = None" "dk_clock sample_disk = 0" "sample_edits \<noteq> []"
    by (simp_all add: sample_disk_def sample_edits_def)
  then show ?thesis
    by (simp add: editExecute_def Let_def run_simps defaultEditOperations_def disk_access_def disk_readFile_def
        disk_writeFile_def disk_aborted_def tick_def sample_decoded sample_edited)
qed

lemma edit_tool_changes_one_file_witness:
  "\<exists>w'. editExecute defaultEditOperations sample_env (\<lambda>p. CHR ''/'' # p) ''a'' sample_edits sample_disk =
      (Inr (edit_success sample_env ''a'' sample_edits sample_result), w')
    \<and> (\<exists>final. dk_files w' = (dk_files sample_disk)(''/a'' := Some (utf8_encode final)))"
  using edit_tool_changes_one_file [OF sample_edit_run] sample_edit_run by auto

lemma edit_tool_replaces_texts_witness:
  "\<exists>es new. edited es (normalizeToLF sample_text) new
     \<and> mset es = {#(js ''b'' @ [LF16] @ js ''c'', js ''x'' @ [LF16])#}
     \<and> (dk_files sample_disk)(''/a'' := Some (utf8_encode (BOM # js ''ax'' @ [CR16, LF16] @ js ''d'' @ [CR16, LF16])))
         = (dk_files sample_disk)(''/a'' := Some (utf8_encode (BOM # restoreLineEndings new CRLF_ending)))"
proof -
  have old: "dk_files sample_disk ''/a'' = Some (utf8_encode (BOM # sample_text))"
    by (simp add: sample_disk_def)
  have bom: "splitBom (utf8_decode (utf8_encode (BOM # sample_text))) = ([BOM], sample_text)"
    by (simp add: sample_decoded splitBom_def)
  have occurs: "\<forall>e\<in>set sample_edits. js_index_of (normalizeToLF (ed_oldText e)) (normalizeToLF sample_text) \<noteq> None"
    by code_simp
  have ending: "detectLineEnding sample_text = CRLF_ending" and
    texts: "map (\<lambda>e. (normalizeToLF (ed_oldText e), normalizeToLF (ed_newText e))) sample_edits =
      [(js ''b'' @ [LF16] @ js ''c'', js ''x'' @ [LF16])]"
    by code_simp+
  show ?thesis
    using edit_tool_replaces_texts [OF sample_edit_run old bom occurs] by (auto simp: ending texts)
qed

lemma preview_shows_the_edit_witness:
  "fst (computeEditsDiff defaultReadOperations sample_env (\<lambda>p. CHR ''/'' # p) ''a'' sample_edits sample_disk) =
     Inr (Inr (et_diff (edit_success sample_env ''a'' sample_edits sample_result),
               et_firstChangedLine (edit_success sample_env ''a'' sample_edits sample_result)))"
  using preview_shows_the_edit [OF prod.collapse [symmetric] sample_edit_run] by simp

lemma read_shows_consecutive_lines_witness:
  "\<exists>r. readText ''a'' (js ''ab'' @ [LF16] @ js ''cd'' @ [LF16] @ js ''ef'') (Some 2) (Some 1) = Inr r
    \<and> (\<exists>notice. rr_text r = js ''cd'' @ [LF16, LF16] @ js (notice @ ''Use offset='' @ dec 3 @ '' to continue.]''))"
proof -
  define s where "s = js ''ab'' @ [LF16] @ js ''cd'' @ [LF16] @ js ''ef''"
  have ls: "split_on LF16 s = [js ''ab'', js ''cd'', js ''ef'']" unfolding s_def by code_simp
  have small: "byteLength (js ''cd'') = 2" by (simp add: byteLength_def utf8_encode_def utf8_scalars_def utf8_char_def js_def stands_alone_def high_surrogate_def low_surrogate_def)
  have "\<exists>r. readText ''a'' s (Some 2) (Some 1) = Inr r"
    by (simp add: readText_def ls start_line_def selected_lines_def Let_def)
  then obtain r where r: "readText ''a'' s (Some 2) (Some 1) = Inr r" by blast
  obtain n where n: "n \<le> 1" "n \<noteq> 0" and "\<exists>notice. rr_text r = js_join [LF16] (take n [js ''cd'', js ''ef'']) @ [LF16, LF16]
      @ js (notice @ ''Use offset='' @ dec (1 + n + 1) @ '' to continue.]'')"
    using read_shows_consecutive_lines [OF r refl refl] small
    by (auto simp: ls start_line_def DEFAULT_MAX_BYTES_def)
  moreover have "n = 1" using n by simp
  ultimately show ?thesis
    using r by (auto simp: s_def numeral_3_eq_3)
qed

lemma written_text_reads_back_witness:
  "\<exists>w' w''. writeExecute defaultEditOperations (\<lambda>p. ''/'') (\<lambda>p. CHR ''/'' # p) ''c'' (js ''hi'') sample_disk
       = (Inr ''Successfully wrote to c'', w')
     \<and> readExecute defaultReadOperations
          \<lparr>re_mimeType = (\<lambda>p. ret None), re_processImage = (\<lambda>b m. Inl []), re_modelInput = None\<rparr>
          (\<lambda>p. CHR ''/'' # p) ''c'' None None w'
       = (Inr (ReadText \<lparr>rr_text = js ''hi'', rr_truncation = None\<rparr>), w'')"
proof -
  have "byteLength (js ''hi'') = 2" "well_formed (js ''hi'')" "splitLinesForCounting (js ''hi'') = [js ''hi'']"
    by (simp_all add: byteLength_def utf8_encode_def utf8_scalars_def utf8_char_def js_def LF16_def
        splitLinesForCounting_def stands_alone_def high_surrogate_def low_surrogate_def)
  moreover have "dk_abortAt sample_disk = None" by (simp add: sample_disk_def)
  moreover obtain w' where run: "writeExecute defaultEditOperations (\<lambda>p. ''/'') (\<lambda>p. CHR ''/'' # p) ''c'' (js ''hi'')
      sample_disk = (Inr ''Successfully wrote to c'', w')"
    by (auto simp: writeExecute_def Let_def run_simps defaultEditOperations_def disk_aborted_def
        disk_mkdir_def disk_writeFile_def tick_def sample_disk_def)
  ultimately show ?thesis
    using written_text_reads_back [OF run, of "\<lparr>re_mimeType = (\<lambda>p. ret None),
        re_processImage = (\<lambda>b m. Inl []), re_modelInput = None\<rparr>"]
    by (auto simp: DEFAULT_MAX_BYTES_def DEFAULT_MAX_LINES_def)
qed

end
