(* ===== verification/Edit_Queue.thy ===== *)
theory Edit_Queue
  imports Mutation_Queue File_Properties
begin

text \<open>
  The edit tool inside \<open>withFileMutationQueue\<close>: while its call runs it reads the file, computes the
  new content and writes it, with steps of other calls in between. A file is known by its key,
  which every call that names it is taken to get.
\<close>

section \<open>Reading and writing during a call\<close>

record edit_run = mutation_queue +
  er_files :: "string \<Rightarrow> bytes"
  er_buffer :: "nat \<Rightarrow> bytes option"
  er_written :: "nat \<Rightarrow> bool"

definition new_edit_run :: "(string \<Rightarrow> bytes) \<Rightarrow> edit_run" where
  "new_edit_run files = mutation_queue.extend new_mutation_queue
     (edit_run.fields files (\<lambda>_. None) (\<lambda>_. False))"

text \<open>The new bytes of a file, if the edits apply to it.\<close>

definition edit_bytes :: "edit_tool_env \<Rightarrow> string \<times> edit list \<Rightarrow> bytes \<Rightarrow> bytes option" where
  "edit_bytes env call old =
     (case edited_file env (fst call) (snd call) (utf8_decode old) of
        Inl _ \<Rightarrow> None | Inr (final, _) \<Rightarrow> Some (utf8_encode final))"

definition read_for_edit :: "nat \<Rightarrow> edit_run \<Rightarrow> edit_run option" where
  "read_for_edit i r =
     (case mq_key r i of
        Some key \<Rightarrow>
          if mq_phase r i = Running \<and> er_buffer r i = None
          then Some (r\<lparr>er_buffer := (er_buffer r)(i := Some (er_files r key))\<rparr>) else None
      | None \<Rightarrow> None)"

definition write_edited :: "edit_tool_env \<Rightarrow> string \<times> edit list \<Rightarrow> nat \<Rightarrow> edit_run \<Rightarrow> edit_run option" where
  "write_edited env call i r =
     (case (mq_key r i, er_buffer r i) of
        (Some key, Some buffer) \<Rightarrow>
          if mq_phase r i = Running \<and> \<not> er_written r i
          then (case edit_bytes env call buffer of
                  Some final \<Rightarrow> Some (r\<lparr>er_files := (er_files r)(key := final), er_written := (er_written r)(i := True)\<rparr>)
                | None \<Rightarrow> None)
          else None
      | _ \<Rightarrow> None)"

datatype edit_event = QueueStep queue_event | FileRead nat | FileWritten nat

fun edit_step ::
  "(string \<Rightarrow> string) \<Rightarrow> edit_tool_env \<Rightarrow> (nat \<Rightarrow> string \<times> edit list) \<Rightarrow> edit_event \<Rightarrow> edit_run \<Rightarrow> edit_run option" where
  "edit_step resolve env calls (QueueStep e) r = queue_step resolve e r"
| "edit_step resolve env calls (FileRead i) r = read_for_edit i r"
| "edit_step resolve env calls (FileWritten i) r = write_edited env (calls i) i r"

inductive edit_reachable ::
  "(string \<Rightarrow> string) \<Rightarrow> edit_tool_env \<Rightarrow> (nat \<Rightarrow> string \<times> edit list) \<Rightarrow> (string \<Rightarrow> bytes) \<Rightarrow> edit_run \<Rightarrow> bool"
  for resolve env calls files where
  initially: "edit_reachable resolve env calls files (new_edit_run files)"
| step: "edit_reachable resolve env calls files r \<Longrightarrow> edit_step resolve env calls event r = Some r'
    \<Longrightarrow> edit_reachable resolve env calls files r'"

section \<open>The files are what the edits make one after the other\<close>

definition writers :: "edit_run \<Rightarrow> string \<Rightarrow> nat list" where
  "writers r key = filter (\<lambda>i. mq_key r i = Some key \<and> er_written r i) [0..<call_count r]"

definition edits_in_turn ::
  "edit_tool_env \<Rightarrow> (nat \<Rightarrow> string \<times> edit list) \<Rightarrow> nat list \<Rightarrow> bytes \<Rightarrow> bytes option" where
  "edits_in_turn env calls is old = fold (\<lambda>i c. Option.bind c (edit_bytes env (calls i))) is (Some old)"

definition edit_inv ::
  "edit_tool_env \<Rightarrow> (nat \<Rightarrow> string \<times> edit list) \<Rightarrow> (string \<Rightarrow> bytes) \<Rightarrow> edit_run \<Rightarrow> bool" where
  "edit_inv env calls files r \<longleftrightarrow>
     queue_inv r
     \<and> (\<forall>i. er_buffer r i \<noteq> None \<or> er_written r i \<longrightarrow> mq_phase r i = Running \<or> mq_phase r i = Finished)
     \<and> (\<forall>i b key. mq_phase r i = Running \<and> \<not> er_written r i \<and> er_buffer r i = Some b \<and> mq_key r i = Some key
          \<longrightarrow> er_files r key = b)
     \<and> (\<forall>key. edits_in_turn env calls (writers r key) (files key) = Some (er_files r key))"

lemma queue_inv_same:
  assumes "queue_inv q" "mq_paths q' = mq_paths q" "mq_phase q' = mq_phase q" "mq_registration q' = mq_registration q"
    "mq_queues q' = mq_queues q" "mq_key q' = mq_key q" "mq_current q' = mq_current q" "mq_settled q' = mq_settled q"
  shows "queue_inv q'"
proof -
  have "stands_for q' = stands_for q" by (intro ext) (simp add: stands_for_def assms(2-) cong: option.case_cong)
  with assms(1) show ?thesis
    unfolding queue_inv_def registered_up_to_def queues_inv_def waits_inv_def order_inv_def assms(2-) by simp
qed

lemma upt_append: "i \<le> j \<Longrightarrow> j \<le> k \<Longrightarrow> [i..<k] = [i..<j] @ [j..<k]"
  by (metis le_add_diff_inverse upt_add_eq_append)

text \<open>What a step of the queue leaves alone.\<close>

lemma queue_step_keeps:
  fixes r :: edit_run
  assumes "queue_inv r" "queue_step resolve e r = Some r'"
  shows "er_files r' = er_files r \<and> er_buffer r' = er_buffer r \<and> er_written r' = er_written r
       \<and> call_count r \<le> call_count r'
       \<and> (\<forall>i. mq_phase r i = Running \<or> mq_phase r i = Finished \<longrightarrow>
             mq_key r' i = mq_key r i \<and> (mq_phase r' i = Running \<or> mq_phase r' i = Finished))
       \<and> (\<forall>i. mq_phase r' i = Running \<longrightarrow> mq_phase r i = Waiting \<or> mq_phase r i = Running)"
proof -
  obtain m where m: "registered_up_to m r" using assms(1) by (auto simp: queue_inv_def)
  show ?thesis
  proof (cases e)
    case (Registered realpath)
    obtain i rest where reg: "mq_registration r = i # rest"
      using assms(2) by (cases "mq_registration r") (simp_all add: Registered register_next_def)
    then have "mq_phase r i = Registering"
      using m by (metis registered_up_to_def upt_eq_Cons_conv order_refl)
    then show ?thesis
      using assms(2) by (auto simp: Registered register_next_def reg split: sum.splits if_splits)
  next
    case (Ended i)
    then show ?thesis using assms(2) by (auto simp: finish_call_def split: if_splits)
  qed (use assms(2) in \<open>auto simp: withFileMutationQueue_def Let_def start_call_def settle_call_def split: if_splits\<close>)
qed

lemma edit_invD:
  assumes "edit_inv env calls files r"
  shows "queue_inv r"
    and "er_buffer r i \<noteq> None \<or> er_written r i \<Longrightarrow> mq_phase r i = Running \<or> mq_phase r i = Finished"
    and "mq_phase r i = Running \<Longrightarrow> \<not> er_written r i \<Longrightarrow> er_buffer r i = Some b \<Longrightarrow> mq_key r i = Some key
      \<Longrightarrow> er_files r key = b"
    and "edits_in_turn env calls (writers r key) (files key) = Some (er_files r key)"
  using assms by (auto simp: edit_inv_def)

lemma edit_inv_queue:
  assumes inv: "edit_inv env calls files r" and run: "queue_step resolve e r = Some r'"
  shows "edit_inv env calls files r'"
proof -
  note keeps = queue_step_keeps [OF edit_invD(1) [OF inv] run]
  obtain m where m: "registered_up_to m r" using edit_invD(1) [OF inv] by (auto simp: queue_inv_def)
  have early: "er_written r i \<Longrightarrow> i < call_count r \<and> mq_key r' i = mq_key r i" for i
    using edit_invD(2) [OF inv, of i] registered_key [OF m, of i] keeps by auto
  have "writers r' key = writers r key" for key
  proof -
    have "[0..<call_count r'] = [0..<call_count r] @ [call_count r..<call_count r']"
      using keeps by (simp add: upt_append)
    moreover have "filter (\<lambda>i. mq_key r' i = Some key \<and> er_written r i) [call_count r..<call_count r'] = []"
      using early by (fastforce simp: filter_empty_conv)
    moreover have "filter (\<lambda>i. mq_key r' i = Some key \<and> er_written r i) [0..<call_count r] =
        filter (\<lambda>i. mq_key r i = Some key \<and> er_written r i) [0..<call_count r]"
      using early by (intro filter_cong) auto
    ultimately show ?thesis
      using keeps by (simp add: writers_def)
  qed
  moreover have "queue_inv r'" by (rule queue_inv_step [OF edit_invD(1) [OF inv] run])
  moreover have "mq_phase r' i = Running \<or> mq_phase r' i = Finished" if "er_buffer r' i \<noteq> None \<or> er_written r' i" for i
    using that edit_invD(2) [OF inv, of i] keeps by auto
  moreover have "er_files r' key = b"
    if "mq_phase r' i = Running" "\<not> er_written r' i" "er_buffer r' i = Some b" "mq_key r' i = Some key" for i b key
  proof -
    have "mq_phase r i = Running" "mq_key r i = Some key"
      using that keeps edit_invD(2) [OF inv, of i] by auto
    then show ?thesis using that keeps edit_invD(3) [OF inv] by simp
  qed
  ultimately show ?thesis
    using edit_invD(4) [OF inv] keeps unfolding edit_inv_def by auto
qed

text \<open>The call that writes comes after all that have written the file.\<close>

lemma writers_extend:
  assumes inv: "edit_inv env calls files r" and i: "mq_phase r i = Running" "mq_key r i = Some key" "\<not> er_written r i"
    and r': "mq_key r' = mq_key r" "er_written r' = (er_written r)(i := True)" "call_count r' = call_count r"
  shows "writers r' k = (if k = key then writers r k @ [i] else writers r k)"
proof (cases "k = key")
  case True
  obtain m where m: "registered_up_to m r" using edit_invD(1) [OF inv] by (auto simp: queue_inv_def)
  have "i < call_count r" using registered_key [OF m, of i] i(1) by auto
  then have split: "[0..<call_count r] = [0..<i] @ i # [Suc i..<call_count r]"
    by (simp add: upt_append [of 0 i "call_count r"] upt_conv_Cons)
  have "\<not> (mq_key r j = Some key \<and> er_written r j)" if "i < j" for j
    using order_invD [of r j key i] that i edit_invD(1) [OF inv] edit_invD(2) [OF inv, of j] by (auto simp: queue_inv_def)
  then show ?thesis
    using True i by (auto simp: writers_def r' split filter_empty_conv intro!: filter_cong)
qed (use i in \<open>auto simp: writers_def r' intro!: filter_cong\<close>)

lemma edit_inv_read:
  assumes inv: "edit_inv env calls files r" and run: "read_for_edit i r = Some r'"
  shows "edit_inv env calls files r'"
proof -
  obtain key where i: "mq_key r i = Some key" "mq_phase r i = Running"
    and r': "r' = r\<lparr>er_buffer := (er_buffer r)(i := Some (er_files r key))\<rparr>"
    using run by (auto simp: read_for_edit_def split: option.splits if_splits)
  show ?thesis
    using inv i queue_inv_same [of r r'] by (auto simp: edit_inv_def writers_def r')
qed

lemma edit_inv_write:
  assumes inv: "edit_inv env calls files r" and run: "write_edited env (calls i) i r = Some r'"
  shows "edit_inv env calls files r'"
proof -
  obtain key buffer final where i: "mq_key r i = Some key" "mq_phase r i = Running" "\<not> er_written r i"
    "er_buffer r i = Some buffer" "edit_bytes env (calls i) buffer = Some final"
    and r': "r' = r\<lparr>er_files := (er_files r)(key := final), er_written := (er_written r)(i := True)\<rparr>"
    using run by (auto simp: write_edited_def split: option.splits if_splits)
  have content: "er_files r key = buffer" using edit_invD(3) [OF inv i(2,3,4,1)] .
  have queue: "queue_inv r'"
    by (rule queue_inv_same [OF edit_invD(1) [OF inv]]) (simp_all add: r')
  have alone: "j = i" if "mq_phase r j = Running" "mq_key r j = Some key" for j
    using order_invD [of r i key j] order_invD [of r j key i] that i edit_invD(1) [OF inv]
    by (cases i j rule: linorder_cases) (auto simp: queue_inv_def)
  have "writers r' k = (if k = key then writers r k @ [i] else writers r k)" for k
    by (rule writers_extend [OF inv i(2,1,3)]) (simp_all add: r')
  moreover have "er_files r' k = (if k = key then final else er_files r k)" for k by (simp add: r')
  ultimately have "edits_in_turn env calls (writers r' k) (files k) = Some (er_files r' k)" for k
    using edit_invD(4) [OF inv, of k] i(5) content by (cases "k = key") (simp_all add: edits_in_turn_def)
  moreover have "er_files r' k = b"
    if "mq_phase r' j = Running" "\<not> er_written r' j" "er_buffer r' j = Some b" "mq_key r' j = Some k" for j b k
    using that alone [of j] edit_invD(3) [OF inv, of j b k] by (auto simp: r' split: if_splits)
  moreover have "mq_phase r' j = Running \<or> mq_phase r' j = Finished" if "er_buffer r' j \<noteq> None \<or> er_written r' j" for j
    using that edit_invD(2) [OF inv, of j] i(2) by (auto simp: r' split: if_splits)
  ultimately show ?thesis
    using queue unfolding edit_inv_def by blast
qed

lemma edit_inv_new: "edit_inv env calls files (new_edit_run files)"
  by (auto simp: edit_inv_def new_edit_run_def mutation_queue.defs edit_run.defs new_mutation_queue_def writers_def
      edits_in_turn_def queue_inv_def queue_inv_defs)

lemma edit_reachable_inv: "edit_reachable resolve env calls files r \<Longrightarrow> edit_inv env calls files r"
proof (induction rule: edit_reachable.induct)
  case (step r event r')
  then show ?case
    by (cases event) (auto intro: edit_inv_queue edit_inv_read edit_inv_write)
qed (rule edit_inv_new)

text \<open>C8: however the steps of concurrent edits interleave, every file is at every moment what the
  edits that have written it make of its first content when each is applied, with success, to the
  result of those before it, in the order the calls were made: no edit overwrites another one.\<close>

theorem no_edit_is_lost:
  assumes "edit_reachable resolve env calls files r"
  shows "edits_in_turn env calls (writers r key) (files key) = Some (er_files r key)
       \<and> sorted (writers r key) \<and> distinct (writers r key)
       \<and> set (writers r key) = {i. mq_key r i = Some key \<and> er_written r i}"
proof -
  have inv: "edit_inv env calls files r" by (rule edit_reachable_inv [OF assms])
  obtain m where m: "registered_up_to m r" using edit_invD(1) [OF inv] by (auto simp: queue_inv_def)
  have "er_written r i \<Longrightarrow> i < call_count r" for i
    using edit_invD(2) [OF inv, of i] registered_key [OF m, of i] by auto
  then show ?thesis
    using edit_invD(4) [OF inv] by (auto simp: writers_def intro: sorted_wrt_filter)
qed

text \<open>Two edits of one file that are both made before either runs; both replacements are in the file.\<close>

definition two_calls :: "nat \<Rightarrow> string \<times> edit list" where
  "two_calls i = (''a'', [if i = 0 then \<lparr>ed_oldText = js ''b'', ed_newText = js ''x''\<rparr>
                        else \<lparr>ed_oldText = js ''d'', ed_newText = js ''yy''\<rparr>])"

definition two_events :: "edit_event list" where
  "two_events = [QueueStep (CallMade ''/a''), QueueStep (CallMade ''/a''),
     QueueStep (Registered (\<lambda>p. Inr p)), QueueStep (Registered (\<lambda>p. Inr p)),
     QueueStep (Started 0), FileRead 0, FileWritten 0, QueueStep (Ended 0), QueueStep (Settled 0),
     QueueStep (Started 1), FileRead 1, FileWritten 1]"

fun edit_steps ::
  "(string \<Rightarrow> string) \<Rightarrow> edit_tool_env \<Rightarrow> (nat \<Rightarrow> string \<times> edit list) \<Rightarrow> edit_event list \<Rightarrow> edit_run \<Rightarrow> edit_run option" where
  "edit_steps resolve env calls [] r = Some r"
| "edit_steps resolve env calls (e # es) r =
     (case edit_step resolve env calls e r of Some r' \<Rightarrow> edit_steps resolve env calls es r' | None \<Rightarrow> None)"

lemma edit_steps_reachable:
  "edit_reachable resolve env calls files r \<Longrightarrow> edit_steps resolve env calls es r = Some r'
     \<Longrightarrow> edit_reachable resolve env calls files r'"
  by (induction es arbitrary: r) (auto split: option.splits intro: edit_reachable.step)

lemma two_edits:
  "edit_bytes sample_env (two_calls 0) (utf8_encode (js ''abcd'')) = Some (utf8_encode (js ''axcd''))"
  "edit_bytes sample_env (two_calls (Suc 0)) (utf8_encode (js ''axcd'')) = Some (utf8_encode (js ''axcyy''))"
proof -
  have decoded: "utf8_decode (utf8_encode (js ''abcd'')) = js ''abcd''" "utf8_decode (utf8_encode (js ''axcd'')) = js ''axcd''"
    by (rule utf8_decode_encode, simp add: js_def high_surrogate_def low_surrogate_def)+
  have "map_sum id fst (edited_file sample_env ''a'' (snd (two_calls 0)) (js ''abcd'')) = Inr (js ''axcd'')"
    "map_sum id fst (edited_file sample_env ''a'' (snd (two_calls (Suc 0))) (js ''axcd'')) = Inr (js ''axcyy'')"
    by code_simp+
  then show "edit_bytes sample_env (two_calls 0) (utf8_encode (js ''abcd'')) = Some (utf8_encode (js ''axcd''))"
    "edit_bytes sample_env (two_calls (Suc 0)) (utf8_encode (js ''axcd'')) = Some (utf8_encode (js ''axcyy''))"
    by (auto simp: edit_bytes_def two_calls_def decoded map_sum_def split: sum.splits)
qed

lemma no_edit_is_lost_witness:
  "\<exists>r. edit_steps (\<lambda>p. p) sample_env two_calls two_events (new_edit_run (\<lambda>_. utf8_encode (js ''abcd''))) = Some r
     \<and> writers r ''/a'' = [0, 1] \<and> er_files r ''/a'' = utf8_encode (js ''axcyy'')"
proof -
  define r0 where "r0 = new_edit_run (\<lambda>_. utf8_encode (js ''abcd''))"
  have "\<exists>r. edit_steps (\<lambda>p. p) sample_env two_calls two_events r0 = Some r
     \<and> (\<forall>i. mq_key r i = Some ''/a'' \<and> er_written r i \<longleftrightarrow> i = 0 \<or> i = 1) \<and> call_count r = 2"
    by (simp add: two_events_def r0_def new_edit_run_def mutation_queue.defs edit_run.defs new_mutation_queue_def
        withFileMutationQueue_def register_next_def getMutationQueueKey_def start_call_def finish_call_def settle_call_def
        resolved_def read_for_edit_def write_edited_def two_edits Let_def)
  then obtain r where r: "edit_steps (\<lambda>p. p) sample_env two_calls two_events r0 = Some r"
    "\<forall>i. mq_key r i = Some ''/a'' \<and> er_written r i \<longleftrightarrow> i = 0 \<or> i = 1" "call_count r = 2" by blast
  then have "writers r ''/a'' = [0, 1]" by (simp add: writers_def upt_rec)
  then show ?thesis
    using no_edit_is_lost [OF edit_steps_reachable [OF edit_reachable.initially r(1) [unfolded r0_def]], of "''/a''"] r(1)
    by (simp add: edits_in_turn_def two_edits r0_def)
qed

end
