(* ===== verification/Js_Regex.thy ===== *)
theory Js_Regex
  imports Main
begin

text \<open>
  The regular expressions the sources test error messages with: literals and character classes,
  their repetition, options, sequences and alternatives, all with the flag \<open>i\<close>. A test that is not
  anchored searches every position.
\<close>

datatype char_class = Digit | DigitOrComma | Space | AnyChar

definition is_digit :: "char \<Rightarrow> bool" where
  "is_digit c \<longleftrightarrow> 48 \<le> (of_char c :: nat) \<and> (of_char c :: nat) \<le> 57"

fun in_class :: "char_class \<Rightarrow> char \<Rightarrow> bool" where
  "in_class Digit c \<longleftrightarrow> is_digit c"
| "in_class DigitOrComma c \<longleftrightarrow> c = CHR '','' \<or> is_digit c"
| "in_class Space c \<longleftrightarrow> c \<in> {CHR '' '', CHR 0xA0, CHR 0x09, CHR 0x0A, CHR 0x0B, CHR 0x0C, CHR 0x0D}"
| "in_class AnyChar c \<longleftrightarrow> c \<noteq> CHR 0x0A \<and> c \<noteq> CHR 0x0D"

definition lower :: "char \<Rightarrow> char" where
  "lower c = (if 65 \<le> (of_char c :: nat) \<and> (of_char c :: nat) \<le> 90 then char_of ((of_char c :: nat) + 32) else c)"

text \<open>Both by the bits of the character, for evaluation.\<close>

lemma is_digit_code [code]:
  "is_digit (Char b0 b1 b2 b3 b4 b5 b6 b7) \<longleftrightarrow> b5 \<and> b4 \<and> \<not> b6 \<and> \<not> b7 \<and> \<not> (b3 \<and> (b2 \<or> b1))"
  by (cases b0; cases b1; cases b2; cases b3; cases b4; cases b5; cases b6; cases b7) (simp_all add: is_digit_def)

lemma lower_code [code]:
  "lower (Char b0 b1 b2 b3 b4 b5 b6 b7) =
     (if b6 \<and> \<not> b5 \<and> \<not> b7 \<and> (b0 \<or> b1 \<or> b2 \<or> b3 \<or> b4) \<and> \<not> (b4 \<and> b3 \<and> (b2 \<or> b1 \<and> b0))
      then Char b0 b1 b2 b3 b4 True b6 b7 else Char b0 b1 b2 b3 b4 b5 b6 b7)"
  by (cases b0; cases b1; cases b2; cases b3; cases b4; cases b5; cases b6; cases b7) (simp_all add: lower_def char_of_def bit_0)

datatype rx =
    Lit string
  | One char_class
  | Many char_class
  | Plus char_class
  | Opt rx
  | Seq "rx list"
  | Alt "rx list"

text \<open>What may be left of a text behind a match at its start.\<close>

definition class_rests :: "nat \<Rightarrow> char_class \<Rightarrow> string \<Rightarrow> string list" where
  "class_rests least cls s =
     map (\<lambda>n. drop n s) [least..<Suc (length (takeWhile (in_class cls) s))]"

fun rx_rests :: "rx \<Rightarrow> string \<Rightarrow> string list"
and seq_rests :: "rx list \<Rightarrow> string \<Rightarrow> string list"
and alt_rests :: "rx list \<Rightarrow> string \<Rightarrow> string list" where
  "rx_rests (Lit p) s = (if map lower p = map lower (take (length p) s) then [drop (length p) s] else [])"
| "rx_rests (One cls) s = (case s of c # s' \<Rightarrow> if in_class cls c then [s'] else [] | [] \<Rightarrow> [])"
| "rx_rests (Many cls) s = class_rests 0 cls s"
| "rx_rests (Plus cls) s = class_rests 1 cls s"
| "rx_rests (Opt r) s = rx_rests r s @ [s]"
| "rx_rests (Seq rs) s = seq_rests rs s"
| "rx_rests (Alt rs) s = alt_rests rs s"
| "seq_rests [] s = [s]"
| "seq_rests (r # rs) s = concat (map (seq_rests rs) (rx_rests r s))"
| "alt_rests [] s = []"
| "alt_rests (r # rs) s = rx_rests r s @ alt_rests rs s"

definition rx_test_start :: "rx \<Rightarrow> string \<Rightarrow> bool" where
  "rx_test_start r s \<longleftrightarrow> rx_rests r s \<noteq> []"

definition rx_test :: "rx \<Rightarrow> string \<Rightarrow> bool" where
  "rx_test r s \<longleftrightarrow> list_ex (\<lambda>n. rx_rests r (drop n s) \<noteq> []) [0..<Suc (length s)]"

section \<open>The language of an expression\<close>

inductive matches :: "rx \<Rightarrow> string \<Rightarrow> bool"
and matches_all :: "rx list \<Rightarrow> string \<Rightarrow> bool" where
  "map lower p = map lower u \<Longrightarrow> matches (Lit p) u"
| "in_class cls c \<Longrightarrow> matches (One cls) [c]"
| "\<forall>c\<in>set u. in_class cls c \<Longrightarrow> matches (Many cls) u"
| "\<forall>c\<in>set u. in_class cls c \<Longrightarrow> u \<noteq> [] \<Longrightarrow> matches (Plus cls) u"
| "matches (Opt r) []"
| "matches r u \<Longrightarrow> matches (Opt r) u"
| "matches_all rs u \<Longrightarrow> matches (Seq rs) u"
| "r \<in> set rs \<Longrightarrow> matches r u \<Longrightarrow> matches (Alt rs) u"
| "matches_all [] []"
| "matches r u \<Longrightarrow> matches_all rs v \<Longrightarrow> matches_all (r # rs) (u @ v)"

inductive_simps matches_simps:
  "matches (Lit p) u" "matches (One cls) u" "matches (Many cls) u" "matches (Plus cls) u" "matches (Opt r) u"
  "matches (Seq rs) u" "matches (Alt rs) u" "matches_all [] u" "matches_all (r # rs) u"

lemma class_rests_iff:
  "t \<in> set (class_rests k cls s) \<longleftrightarrow> (\<exists>u. s = u @ t \<and> k \<le> length u \<and> (\<forall>c\<in>set u. in_class cls c))"
proof
  assume "t \<in> set (class_rests k cls s)"
  then obtain n where n: "t = drop n s" "k \<le> n" "n \<le> length (takeWhile (in_class cls) s)"
    by (auto simp: class_rests_def)
  then have "take n s = take n (takeWhile (in_class cls) s)"
    by (metis append_take_drop_id take_append takeWhile_dropWhile_id diff_is_0_eq append.right_neutral take0)
  then have "\<forall>c\<in>set (take n s). in_class cls c"
    by (metis in_set_takeD set_takeWhileD)
  moreover have "n \<le> length s" using n(3) length_takeWhile_le le_trans by blast
  ultimately show "\<exists>u. s = u @ t \<and> k \<le> length u \<and> (\<forall>c\<in>set u. in_class cls c)"
    using n by (intro exI [of _ "take n s"]) auto
next
  assume "\<exists>u. s = u @ t \<and> k \<le> length u \<and> (\<forall>c\<in>set u. in_class cls c)"
  then obtain u where u: "s = u @ t" "k \<le> length u" "\<forall>c\<in>set u. in_class cls c" by blast
  then have "length u \<le> length (takeWhile (in_class cls) s)" by (simp add: takeWhile_append)
  then show "t \<in> set (class_rests k cls s)"
    using u by (auto simp: class_rests_def image_iff intro!: bexI [of _ "length u"])
qed

text \<open>The search finds a match exactly where the language has one.\<close>

lemma rx_rests_iff:
  "t \<in> set (rx_rests r s) \<longleftrightarrow> (\<exists>u. s = u @ t \<and> matches r u)"
  "t \<in> set (seq_rests rs s) \<longleftrightarrow> (\<exists>u. s = u @ t \<and> matches_all rs u)"
  "t \<in> set (alt_rests rs s) \<longleftrightarrow> (\<exists>u. s = u @ t \<and> (\<exists>r\<in>set rs. matches r u))"
proof (induction r s and rs s and rs s arbitrary: t and t and t rule: rx_rests_seq_rests_alt_rests.induct)
  case (1 p s)
  show ?case
  proof
    assume "t \<in> set (rx_rests (Lit p) s)"
    then show "\<exists>u. s = u @ t \<and> matches (Lit p) u"
      by (intro exI [of _ "take (length p) s"]) (auto simp: matches_simps split: if_splits)
  next
    assume "\<exists>u. s = u @ t \<and> matches (Lit p) u"
    then obtain u where u: "s = u @ t" "map lower p = map lower u" by (auto simp: matches_simps)
    then have "length p = length u" by (metis length_map)
    with u show "t \<in> set (rx_rests (Lit p) s)" by simp
  qed
next
  case (2 cls s)
  then show ?case by (cases s) (auto simp: matches_simps)
next
  case (3 cls s)
  then show ?case by (simp add: class_rests_iff matches_simps)
next
  case (4 cls s)
  then show ?case by (auto simp: class_rests_iff matches_simps Suc_le_eq)
next
  case (5 r s)
  then show ?case by (auto simp: matches_simps)
next
  case (9 r rs s)
  then show ?case by (auto simp: matches_simps) (metis append.assoc)+
qed (auto simp: matches_simps)

lemma rx_test_iff: "rx_test r s \<longleftrightarrow> (\<exists>a u b. s = a @ u @ b \<and> matches r u)"
proof
  assume "rx_test r s"
  then obtain n t where "t \<in> set (rx_rests r (drop n s))"
    by (auto simp: rx_test_def list_ex_iff neq_Nil_conv simp del: upt_Suc) (metis list.set_intros(1))
  then obtain u where "drop n s = u @ t" "matches r u" by (auto simp: rx_rests_iff)
  then show "\<exists>a u b. s = a @ u @ b \<and> matches r u" by (metis append_take_drop_id)
next
  assume "\<exists>a u b. s = a @ u @ b \<and> matches r u"
  then obtain a u b where s: "s = a @ u @ b" "matches r u" by blast
  then have "b \<in> set (rx_rests r (drop (length a) s))" by (auto simp: rx_rests_iff)
  then have "rx_rests r (drop (length a) s) \<noteq> []" by auto
  moreover have "length a \<in> set [0..<Suc (length s)]" using s by simp
  ultimately show "rx_test r s" by (auto simp: rx_test_def list_ex_iff simp del: upt_Suc)
qed

end
