(* ===== verification/Retry.thy ===== *)
theory Retry
  imports Js_Regex Messages
begin

text \<open>
  Telling failed responses apart and retrying them: \<open>packages/ai/src/utils/overflow.ts\<close> and
  \<open>packages/ai/src/utils/retry.ts\<close>. Delays are in milliseconds; the call that produces a response,
  the callbacks and the abortable sleep (whether it was slept through) are programs. A response
  without usage counts as no tokens, and the product with 0.99 is taken exactly.
\<close>

section \<open>Context overflow\<close>

definition OVERFLOW_PATTERNS :: "rx list" where
  "OVERFLOW_PATTERNS =
     [Seq [Lit ''prompt '', Opt (Lit ''is ''), Lit ''too long''],
      Lit ''prompt exceeds max length'',
      Lit ''request_too_large'',
      Lit ''input is too long for requested model'',
      Lit ''exceeds the context window'',
      Seq [Lit ''exceeds '', Opt (Lit ''the ''), Opt (Seq [Lit ''model'', Opt (Lit [CHR 0x27]),
        Lit ''s '']), Lit ''maximum context length'', Alt [Seq [Lit '' of '', Plus DigitOrComma,
        Lit '' token'', Opt (Lit ''s'')], Seq [Many Space, Lit ''('', Plus DigitOrComma, Lit '')'']]],
      Seq [Lit ''input token count'', Many AnyChar, Lit ''exceeds the maximum''],
      Seq [Lit ''maximum prompt length is '', Plus Digit],
      Lit ''reduce the length of the messages'',
      Seq [Lit ''maximum context length is '', Plus Digit, Lit '' tokens''],
      Seq [Lit ''exceeds '', Opt (Lit ''the ''), Lit ''maximum allowed input length of '',
        Plus DigitOrComma, Lit '' token'', Opt (Lit ''s'')],
      Seq [Lit ''input ('', Plus Digit, Lit '' tokens) is longer than the model'',
        Opt (Lit [CHR 0x27]), Lit ''s context length ('', Plus Digit, Lit '' tokens)''],
      Seq [Lit ''exceeds the limit of '', Plus Digit],
      Lit ''exceeds the available context size'',
      Lit ''greater than the context length'',
      Lit ''context window exceeds limit'',
      Lit ''exceeded model token limit'',
      Seq [Lit ''too large for model with '', Plus Digit, Lit '' maximum context length''],
      Seq [Lit ''prompt has '', Plus DigitOrComma, Lit '' token'', Opt (Lit ''s''),
        Lit '', but the configured context size is '', Plus DigitOrComma, Lit '' token'',
        Opt (Lit ''s'')],
      Lit ''model_context_window_exceeded'',
      Seq [Lit ''prompt too long; exceeded '', Opt (Lit ''max ''), Lit ''context length''],
      Lit ''range of input length should be'',
      Seq [Lit ''context'', Alt [Lit ''_'', Lit '' ''], Lit ''length'', Alt [Lit ''_'', Lit '' ''],
        Lit ''exceeded''],
      Lit ''too many tokens'',
      Lit ''token limit exceeded'']"

definition CEREBRAS_BODYLESS_OVERFLOW_PATTERN :: rx where
  "CEREBRAS_BODYLESS_OVERFLOW_PATTERN =
     Seq [Lit ''4'', Alt [Lit ''00'', Lit ''13''], Many Space, Opt (Lit ''status code''),
       Many Space, Lit ''(no body)'']"

text \<open>The first pattern of the source is anchored at the start.\<close>

definition NON_OVERFLOW_PREFIX :: rx where
  "NON_OVERFLOW_PREFIX =
     Seq [Alt [Lit ''Throttling error'', Lit ''Service unavailable''], Lit '':'']"

definition NON_OVERFLOW_PATTERNS :: "rx list" where
  "NON_OVERFLOW_PATTERNS =
     [Lit ''rate limit'',
      Lit ''too many requests'']"

definition input_tokens :: "assistant_message \<Rightarrow> nat" where
  "input_tokens message = (case am_usage message of Some u \<Rightarrow> us_input u + us_cacheRead u | None \<Rightarrow> 0)"

definition output_tokens :: "assistant_message \<Rightarrow> nat" where
  "output_tokens message = (case am_usage message of Some u \<Rightarrow> us_output u | None \<Rightarrow> 0)"

definition error_text :: "assistant_message \<Rightarrow> string" where
  "error_text message = (case am_errorMessage message of Some e \<Rightarrow> e | None \<Rightarrow> [])"

definition overflow_error :: "assistant_message \<Rightarrow> bool" where
  "overflow_error message \<longleftrightarrow>
     (let err = error_text message
      in am_stopReason message = StopError \<and> err \<noteq> []
         \<and> \<not> (rx_test_start NON_OVERFLOW_PREFIX err \<or> list_ex (\<lambda>p. rx_test p err) NON_OVERFLOW_PATTERNS)
         \<and> (list_ex (\<lambda>p. rx_test p err) OVERFLOW_PATTERNS
            \<or> am_provider message = ''cerebras'' \<and> rx_test_start CEREBRAS_BODYLESS_OVERFLOW_PATTERN err))"

text \<open>A context window of 0 is one that is not known.\<close>

definition isContextOverflow :: "assistant_message \<Rightarrow> nat \<Rightarrow> bool" where
  "isContextOverflow message contextWindow \<longleftrightarrow>
     overflow_error message
     \<or> contextWindow \<noteq> 0 \<and> am_stopReason message = StopStop \<and> input_tokens message > contextWindow
     \<or> contextWindow \<noteq> 0 \<and> am_stopReason message = StopLength \<and> output_tokens message = 0
        \<and> 100 * input_tokens message \<ge> 99 * contextWindow"

definition isRecoverableLength :: "assistant_message \<Rightarrow> nat \<Rightarrow> bool" where
  "isRecoverableLength message desiredMaxOutput \<longleftrightarrow>
     am_stopReason message = StopLength \<and> desiredMaxOutput > 0 \<and> output_tokens message < desiredMaxOutput"

section \<open>Transient errors\<close>

definition NON_RETRYABLE_PROVIDER_LIMIT_ERROR_PATTERN :: "rx list" where
  "NON_RETRYABLE_PROVIDER_LIMIT_ERROR_PATTERN =
     [Lit ''GoUsageLimitError'',
      Lit ''FreeUsageLimitError'',
      Lit ''Monthly usage limit reached'',
      Lit ''available balance'',
      Lit ''insufficient_quota'',
      Lit ''out of budget'',
      Lit ''quota exceeded'',
      Lit ''billing'',
      Lit ''subscription_sharing_usage_limit_exceeded'']"

definition RETRYABLE_PROVIDER_ERROR_PATTERN :: "rx list" where
  "RETRYABLE_PROVIDER_ERROR_PATTERN =
     [Lit ''overloaded'',
      Lit ''server_busy'',
      Lit ''servers are currently busy'',
      Lit ''currently experiencing high demand'',
      Lit ''model is at capacity'',
      Seq [Lit ''rate'', Opt (One AnyChar), Lit ''limit''],
      Lit ''too many requests'',
      Lit ''429'',
      Lit ''500'',
      Lit ''502'',
      Lit ''503'',
      Lit ''504'',
      Lit ''520'',
      Lit ''524'',
      Seq [Lit ''service'', Opt (One AnyChar), Lit ''unavailable''],
      Seq [Lit ''server'', Opt (One AnyChar), Lit ''error''],
      Seq [Lit ''internal'', Opt (One AnyChar), Lit ''error''],
      Seq [Lit ''provider'', Opt (One AnyChar), Lit ''returned'', Opt (One AnyChar),
        Opt (Seq [Lit ''an'', Opt (One AnyChar)]), Lit ''error''],
      Lit ''exceeded request buffer limit while retrying upstream'',
      Seq [Lit ''network'', Opt (One AnyChar), Lit ''error''],
      Seq [Lit ''connection'', Opt (One AnyChar), Lit ''error''],
      Seq [Lit ''connection'', Opt (One AnyChar), Lit ''refused''],
      Seq [Lit ''connection'', Opt (One AnyChar), Lit ''lost''],
      Lit ''other side closed'',
      Lit ''fetch failed'',
      Lit ''getaddrinfo'',
      Lit ''ENOTFOUND'',
      Lit ''EAI_AGAIN'',
      Seq [Lit ''upstream'', Opt (One AnyChar), Lit ''connect''],
      Lit ''reset before headers'',
      Lit ''socket hang up'',
      Lit ''socket connection was closed'',
      Seq [Lit ''time'', Opt (Lit ''d''), Lit '' out''],
      Lit ''timeout'',
      Lit ''terminated'',
      Seq [Lit ''websocket'', Opt (One AnyChar), Lit ''closed''],
      Seq [Lit ''websocket'', Opt (One AnyChar), Lit ''error''],
      Lit ''ended without'',
      Lit ''stream ended before message_stop'',
      Lit ''stream ended before a terminal response event'',
      Lit ''http2 request did not get a response'',
      Lit ''pending stream has been canceled'',
      Lit ''retry delay'',
      Lit ''you can retry your request'',
      Lit ''try your request again'',
      Lit ''please retry your request'',
      Lit ''ResourceExhausted'',
      Lit ''subscription_sharing_usage_unavailable'',
      Lit ''subscription_sharing_user_unavailable'']"

definition isRetryableAssistantError :: "assistant_message \<Rightarrow> bool" where
  "isRetryableAssistantError message \<longleftrightarrow>
     (let err = error_text message
      in am_stopReason message = StopError \<and> err \<noteq> []
         \<and> \<not> list_ex (\<lambda>p. rx_test p err) NON_RETRYABLE_PROVIDER_LIMIT_ERROR_PATTERN
         \<and> list_ex (\<lambda>p. rx_test p err) RETRYABLE_PROVIDER_ERROR_PATTERN)"

section \<open>The policy\<close>

record retry_policy =
  rt_enabled :: bool
  rt_maxRetries :: nat
  rt_baseDelayMs :: nat
  rt_maxAgentDelayMs :: "nat option"

definition DEFAULT_MAX_AGENT_RETRY_DELAY_MS :: nat where
  "DEFAULT_MAX_AGENT_RETRY_DELAY_MS = 60000"

definition MAX_SAFE_INTEGER :: nat where
  "MAX_SAFE_INTEGER = 2 ^ 53 - 1"

definition retryDelayMs :: "retry_policy \<Rightarrow> nat \<Rightarrow> nat" where
  "retryDelayMs policy attempt =
     (let delay = rt_baseDelayMs policy * 2 ^ (attempt - 1);
          safeDelay = (if delay \<le> MAX_SAFE_INTEGER then delay else MAX_SAFE_INTEGER)
      in min safeDelay
           (case rt_maxAgentDelayMs policy of Some n \<Rightarrow> n | None \<Rightarrow> DEFAULT_MAX_AGENT_RETRY_DELAY_MS))"

section \<open>Retrying one call\<close>

record 'w retry_callbacks =
  cb_onRetryScheduled :: "nat \<Rightarrow> nat \<Rightarrow> nat \<Rightarrow> string \<Rightarrow> ('w, unit) prog"
  cb_onRetryAttemptStart :: "('w, unit) prog"
  cb_onRetryFinished :: "bool \<Rightarrow> nat \<Rightarrow> string option \<Rightarrow> ('w, unit) prog"

definition retry_error :: "assistant_message \<Rightarrow> string" where
  "retry_error response = (if error_text response = [] then ''Unknown error'' else error_text response)"

definition finish_retries ::
  "'w retry_callbacks \<Rightarrow> (nat \<times> string) option \<Rightarrow> bool \<Rightarrow> string option \<Rightarrow> ('w, unit) prog" where
  "finish_retries callbacks lastRetry success finalError =
     (case lastRetry of
        Some (attempt, _) \<Rightarrow> cb_onRetryFinished callbacks success attempt finalError
      | None \<Rightarrow> ret ())"

function retry_loop ::
  "('w, assistant_message) prog \<Rightarrow> (nat \<Rightarrow> nat) \<Rightarrow> nat \<Rightarrow> (nat \<Rightarrow> ('w, bool) prog) \<Rightarrow> 'w retry_callbacks
     \<Rightarrow> nat \<Rightarrow> (nat \<times> string) option \<Rightarrow> ('w, assistant_message) prog" where
  "retry_loop produce delayMs maxAttempts sleep callbacks attempt lastRetry =
     bindp produce (\<lambda>response.
       if am_stopReason response = StopAborted
       then seqp (finish_retries callbacks lastRetry False None) (ret response)
       else if am_stopReason response \<noteq> StopError
       then seqp (finish_retries callbacks lastRetry True None) (ret response)
       else if attempt \<ge> maxAttempts \<or> \<not> isRetryableAssistantError response
       then seqp (finish_retries callbacks lastRetry False (am_errorMessage response)) (ret response)
       else let attempt' = attempt + 1; errorMessage = retry_error response; delay = delayMs attempt'
            in seqp (cb_onRetryScheduled callbacks attempt' maxAttempts delay errorMessage)
              (bindp (sleep delay) (\<lambda>slept.
                if slept
                then seqp (cb_onRetryAttemptStart callbacks)
                       (retry_loop produce delayMs maxAttempts sleep callbacks attempt' (Some (attempt', errorMessage)))
                else seqp (cb_onRetryFinished callbacks False attempt' (Some errorMessage))
                       (ret (response\<lparr>am_errorMessage := None, am_stopReason := StopAborted\<rparr>)))))"
  by pat_completeness auto
termination
  by (relation "measure (\<lambda>(_, _, maxAttempts, _, _, attempt, _). maxAttempts - attempt)") auto

declare retry_loop.simps [simp del]

definition retryAssistantCall ::
  "('w, assistant_message) prog \<Rightarrow> retry_policy option \<Rightarrow> (nat \<Rightarrow> ('w, bool) prog) \<Rightarrow> 'w retry_callbacks
     \<Rightarrow> ('w, assistant_message) prog" where
  "retryAssistantCall produce policy sleep callbacks =
     (let maxAttempts = (case policy of Some p \<Rightarrow> if rt_enabled p then rt_maxRetries p else 0 | None \<Rightarrow> 0);
          delayMs = (case policy of Some p \<Rightarrow> retryDelayMs p | None \<Rightarrow> (\<lambda>_. 0))
      in retry_loop produce delayMs maxAttempts sleep callbacks 0 None)"

text \<open>Delays grow with the attempts up to the cap.\<close>

lemma retryDelayMs_min:
  "retryDelayMs policy attempt = min (min (rt_baseDelayMs policy * 2 ^ (attempt - 1)) MAX_SAFE_INTEGER)
     (case rt_maxAgentDelayMs policy of Some n \<Rightarrow> n | None \<Rightarrow> DEFAULT_MAX_AGENT_RETRY_DELAY_MS)"
  by (simp add: retryDelayMs_def Let_def min_def)

text \<open>It is computed on integers, whose numerals are binary.\<close>

lemma retryDelayMs_code [code]:
  "retryDelayMs policy attempt = nat (min (min (int (rt_baseDelayMs policy) * 2 ^ (attempt - 1)) 9007199254740991)
     (case rt_maxAgentDelayMs policy of Some n \<Rightarrow> int n | None \<Rightarrow> 60000))"
proof -
  have "int (retryDelayMs policy attempt) = min (min (int (rt_baseDelayMs policy) * 2 ^ (attempt - 1)) 9007199254740991)
     (case rt_maxAgentDelayMs policy of Some n \<Rightarrow> int n | None \<Rightarrow> 60000)"
    unfolding retryDelayMs_min MAX_SAFE_INTEGER_def DEFAULT_MAX_AGENT_RETRY_DELAY_MS_def
    by (simp add: of_nat_min split: option.split)
  then show ?thesis by (metis nat_int)
qed

lemma retryDelayMs_bounds:
  "retryDelayMs policy attempt \<le> retryDelayMs policy (attempt + 1)"
  "retryDelayMs policy attempt
     \<le> (case rt_maxAgentDelayMs policy of Some n \<Rightarrow> n | None \<Rightarrow> DEFAULT_MAX_AGENT_RETRY_DELAY_MS)"
proof -
  have "(2 :: nat) ^ (attempt - 1) \<le> 2 ^ attempt" by (rule power_increasing) simp_all
  then show "retryDelayMs policy attempt \<le> retryDelayMs policy (attempt + 1)"
    unfolding retryDelayMs_min by (intro min.mono mult_le_mono2) simp_all
qed (simp add: retryDelayMs_min)

text \<open>An overflow is told by its text, a throttled request is none.\<close>

definition failed_response :: "string \<Rightarrow> assistant_message" where
  "failed_response err =
     \<lparr>am_content = Blocks [], am_api = ''api'', am_provider = ''anthropic'', am_model = ''m'', am_responseModel = None,
      am_responseId = None, am_providerThinkingLevel = None, am_thinkingLevel = None, am_diagnostics = None,
      am_usage = None, am_stopReason = StopError, am_deferred = None, am_errorMessage = Some err,
      am_rawStopReason = None, am_endTurn = None, am_timestamp = 0, am_durationMs = None\<rparr>"

lemma classified_errors:
  "overflow_error (failed_response ''prompt is too long: 213462 tokens'')"
  "\<not> overflow_error (failed_response ''Throttling error: Too many tokens'')"
  "isRetryableAssistantError (failed_response ''529 Overloaded'')"
  "\<not> isRetryableAssistantError (failed_response ''429 insufficient_quota'')"
  by code_simp+

section \<open>What the caller and the callbacks see\<close>

text \<open>The world answers the calls with the responses of a script and the sleeps with another, and
  logs what happens.\<close>

datatype retry_event =
    Called
  | RetryScheduled nat nat nat string
  | AttemptStarted
  | RetryFinished bool nat "string option"

record retry_world =
  rw_calls :: nat
  rw_log :: "retry_event list"

definition log_retry :: "retry_event \<Rightarrow> (retry_world, unit) prog" where
  "log_retry e = (\<lambda>w. (Inr (), w\<lparr>rw_log := rw_log w @ [e]\<rparr>))"

definition scripted_call :: "(nat \<Rightarrow> assistant_message) \<Rightarrow> (retry_world, assistant_message) prog" where
  "scripted_call script = (\<lambda>w. (Inr (script (rw_calls w)),
     w\<lparr>rw_calls := rw_calls w + 1, rw_log := rw_log w @ [Called]\<rparr>))"

definition scripted_sleep :: "(nat \<Rightarrow> bool) \<Rightarrow> nat \<Rightarrow> (retry_world, bool) prog" where
  "scripted_sleep slept ms = readp (\<lambda>w. slept (rw_calls w - 1))"

definition logged_callbacks :: "retry_world retry_callbacks" where
  "logged_callbacks = \<lparr>cb_onRetryScheduled = (\<lambda>a m d e. log_retry (RetryScheduled a m d e)),
     cb_onRetryAttemptStart = log_retry AttemptStarted,
     cb_onRetryFinished = (\<lambda>s a e. log_retry (RetryFinished s a e))\<rparr>"

text \<open>The events of one retry, after the call with number \<open>i\<close> failed.\<close>

definition scheduled :: "(nat \<Rightarrow> nat) \<Rightarrow> nat \<Rightarrow> (nat \<Rightarrow> assistant_message) \<Rightarrow> nat \<Rightarrow> retry_event" where
  "scheduled delayMs maxAttempts script i =
     RetryScheduled (i + 1) maxAttempts (delayMs (i + 1)) (retry_error (script i))"

definition retried :: "(nat \<Rightarrow> nat) \<Rightarrow> nat \<Rightarrow> (nat \<Rightarrow> assistant_message) \<Rightarrow> nat \<Rightarrow> retry_event list" where
  "retried delayMs maxAttempts script i = [scheduled delayMs maxAttempts script i, AttemptStarted, Called]"

text \<open>A run that ends with the response of call \<open>k\<close>, after as many retries.\<close>

definition ends_with ::
  "(nat \<Rightarrow> nat) \<Rightarrow> nat \<Rightarrow> (nat \<Rightarrow> assistant_message) \<Rightarrow> nat \<Rightarrow> assistant_message exc \<Rightarrow> retry_event list \<Rightarrow> bool" where
  "ends_with delayMs maxAttempts script k result rest \<longleftrightarrow>
     result = Inr (script k)
     \<and> (am_stopReason (script k) \<noteq> StopError \<or> k = maxAttempts \<or> \<not> isRetryableAssistantError (script k))
     \<and> (\<exists>success err. success = (am_stopReason (script k) \<noteq> StopError \<and> am_stopReason (script k) \<noteq> StopAborted)
          \<and> rest = (if k = 0 then [] else [RetryFinished success k err]))"

text \<open>A run that is aborted in the backoff after call \<open>k\<close>.\<close>

definition ends_asleep ::
  "(nat \<Rightarrow> nat) \<Rightarrow> nat \<Rightarrow> (nat \<Rightarrow> assistant_message) \<Rightarrow> nat \<Rightarrow> assistant_message exc \<Rightarrow> retry_event list \<Rightarrow> bool" where
  "ends_asleep delayMs maxAttempts script k result rest \<longleftrightarrow>
     k < maxAttempts \<and> isRetryableAssistantError (script k)
     \<and> result = Inr ((script k)\<lparr>am_errorMessage := None, am_stopReason := StopAborted\<rparr>)
     \<and> rest = [scheduled delayMs maxAttempts script k, RetryFinished False (k + 1) (Some (retry_error (script k)))]"

lemmas retry_run_simps = bindp_def seqp_def ret_def scripted_call_def scripted_sleep_def readp_def log_retry_def
  logged_callbacks_def finish_retries_def

lemma retry_loop_run:
  assumes "attempt \<le> maxAttempts" "rw_calls w = attempt"
    and "attempt = 0 \<and> lastRetry = None \<or> attempt > 0 \<and> (\<exists>e. lastRetry = Some (attempt, e))"
    and "retry_loop (scripted_call script) delayMs maxAttempts (scripted_sleep slept) logged_callbacks attempt lastRetry w
           = (result, w')"
  shows "\<exists>k rest. attempt \<le> k \<and> k \<le> maxAttempts \<and> rw_calls w' = k + 1
       \<and> (\<forall>i. attempt \<le> i \<and> i < k \<longrightarrow> isRetryableAssistantError (script i) \<and> slept i)
       \<and> rw_log w' = rw_log w @ Called # concat (map (retried delayMs maxAttempts script) [attempt..<k]) @ rest
       \<and> (ends_with delayMs maxAttempts script k result rest
            \<or> \<not> slept k \<and> ends_asleep delayMs maxAttempts script k result rest)"
  using assms
proof (induction "maxAttempts - attempt" arbitrary: attempt lastRetry w rule: less_induct)
  case less
  let ?m = "script attempt"
  show ?case
  proof (cases "am_stopReason ?m = StopError \<and> attempt < maxAttempts \<and> isRetryableAssistantError ?m")
    case False
    then have "\<exists>rest. result = Inr ?m \<and> rw_calls w' = attempt + 1 \<and> rw_log w' = rw_log w @ Called # rest
        \<and> ends_with delayMs maxAttempts script attempt result rest"
      using less.prems
      by (subst (asm) retry_loop.simps) (auto simp: retry_run_simps ends_with_def split: if_splits)
    then show ?thesis
      using less.prems(1) by (intro exI [of _ attempt]) auto
  next
    case retry: True
    show ?thesis
    proof (cases "slept attempt")
      case False
      then show ?thesis
        using less.prems retry
        by (intro exI [of _ attempt] exI [of _ "[scheduled delayMs maxAttempts script attempt,
              RetryFinished False (attempt + 1) (Some (retry_error ?m))]"])
           (auto simp: retry_loop.simps [of _ _ _ _ _ attempt] Let_def retry_run_simps ends_asleep_def scheduled_def)
    next
      case True
      define v where "v = \<lparr>rw_calls = attempt + 1, rw_log = rw_log w @ Called
          # [scheduled delayMs maxAttempts script attempt, AttemptStarted]\<rparr>"
      have run: "retry_loop (scripted_call script) delayMs maxAttempts (scripted_sleep slept) logged_callbacks (attempt + 1)
          (Some (attempt + 1, retry_error ?m)) v = (result, w')"
        using less.prems retry True
        by (cases w) (auto simp: retry_loop.simps [of _ _ _ _ _ attempt] Let_def retry_run_simps scheduled_def v_def)
      have "maxAttempts - (attempt + 1) < maxAttempts - attempt" using retry by auto
      note ih = less.hyps [OF this _ _ _ run]
      obtain k rest where k: "attempt + 1 \<le> k" "k \<le> maxAttempts" "rw_calls w' = k + 1"
        "\<forall>i. attempt + 1 \<le> i \<and> i < k \<longrightarrow> isRetryableAssistantError (script i) \<and> slept i"
        "rw_log w' = rw_log v @ Called # concat (map (retried delayMs maxAttempts script) [attempt + 1..<k]) @ rest"
        "ends_with delayMs maxAttempts script k result rest
           \<or> \<not> slept k \<and> ends_asleep delayMs maxAttempts script k result rest"
        using ih retry by (auto simp: v_def)
      have "[attempt..<k] = attempt # [attempt + 1..<k]" using k(1) by (simp add: upt_conv_Cons)
      then have "rw_log w' = rw_log w @ Called # concat (map (retried delayMs maxAttempts script) [attempt..<k]) @ rest"
        using k(5) by (simp add: v_def retried_def)
      moreover have "isRetryableAssistantError (script i) \<and> slept i" if "attempt \<le> i" "i < k" for i
        using that k(4) retry True by (cases "i = attempt") auto
      ultimately show ?thesis
        using k(1,2,3,6) by (intro exI [of _ k] exI [of _ rest]) simp
    qed
  qed
qed

text \<open>C19: for every sequence of responses and every abort of a backoff, a call is made once and then
  again for each transient error until a response is final, the attempts are used up or the
  backoff is aborted; so at most \<open>maxRetries + 1\<close> times. The last response, marked as aborted in
  the last case, is returned; every retry is announced with its number and delay, started after
  the delay, and a call that was retried is reported finished exactly once, at the end.\<close>

theorem retries_are_bounded:
  fixes script :: "nat \<Rightarrow> assistant_message" and slept :: "nat \<Rightarrow> bool" and p :: retry_policy
  assumes "retryAssistantCall (scripted_call script) (Some p) (scripted_sleep slept) logged_callbacks
      \<lparr>rw_calls = 0, rw_log = []\<rparr> = (result, w)"
    and "budget = (if rt_enabled p then rt_maxRetries p else 0)"
  shows "\<exists>k\<le>budget. rw_calls w = k + 1
       \<and> (\<forall>i<k. isRetryableAssistantError (script i) \<and> slept i)
       \<and> (\<exists>rest. rw_log w = Called # concat (map (retried (retryDelayMs p) budget script) [0..<k]) @ rest
            \<and> (ends_with (retryDelayMs p) budget script k result rest
                \<or> \<not> slept k \<and> ends_asleep (retryDelayMs p) budget script k result rest))"
  using retry_loop_run [of 0 budget "\<lparr>rw_calls = 0, rw_log = []\<rparr>" None script "retryDelayMs p" slept result w] assms
  by (auto simp: retryAssistantCall_def)

lemma retries_are_bounded_witness:
  "\<exists>w. retryAssistantCall
        (scripted_call (\<lambda>i. if i = 0 then failed_response ''529 Overloaded''
                            else (failed_response [])\<lparr>am_stopReason := StopStop\<rparr>))
        (Some \<lparr>rt_enabled = True, rt_maxRetries = 3, rt_baseDelayMs = 2000, rt_maxAgentDelayMs = None\<rparr>)
        (scripted_sleep (\<lambda>_. True)) logged_callbacks \<lparr>rw_calls = 0, rw_log = []\<rparr>
      = (Inr ((failed_response [])\<lparr>am_stopReason := StopStop\<rparr>), w)
    \<and> rw_calls w \<le> 3 + 1"
proof -
  let ?script = "\<lambda>i :: nat. if i = 0 then failed_response ''529 Overloaded''
      else (failed_response [])\<lparr>am_stopReason := StopStop\<rparr>"
  let ?p = "\<lparr>rt_enabled = True, rt_maxRetries = 3, rt_baseDelayMs = 2000, rt_maxAgentDelayMs = None\<rparr>"
  have "am_stopReason (failed_response e) = StopError" for e by (simp add: failed_response_def)
  then obtain w where w: "retryAssistantCall (scripted_call ?script) (Some ?p) (scripted_sleep (\<lambda>_. True)) logged_callbacks
      \<lparr>rw_calls = 0, rw_log = []\<rparr> = (Inr ((failed_response [])\<lparr>am_stopReason := StopStop\<rparr>), w)"
    using classified_errors(3)
    by (auto simp: retryAssistantCall_def Let_def retry_loop.simps [of _ _ _ _ _ "0::nat"] retry_loop.simps [of _ _ _ _ _ "Suc 0"]
        retry_run_simps)
  then show ?thesis
    using retries_are_bounded [OF w, of 3] by auto
qed

end
