(* ===== verification/Recovery.thy ===== *)
theory Recovery
  imports Retry Compaction_Properties Tool_Calls
begin

text \<open>
  What an agent session does after a run of the agent
  (\<open>packages/coding-agent/src/core/agent-session.ts\<close>): retrying transient errors with a backoff,
  recovering once from a context overflow or a truncated response by compacting, and compacting
  when the context grows past its threshold. A message in the agent's state is a value, so it
  carries the id of the entry it is persisted as, which the code finds by the identity of the
  message object. What happens while the session awaits (a backoff, an extension, the
  summarizer) is given by functions of the environment.
\<close>

section \<open>State and environment\<close>

type_synonym message_ref = "agent_message \<times> string option"
type_synonym assistant_ref = "assistant_message \<times> string option"

datatype compaction_reason = Overflow | Threshold

text \<open>The \<open>CompactionResult\<close> that is saved, of the summarizer or of an extension.\<close>

record saved_compaction =
  sc_summary :: string
  sc_firstKeptEntryId :: string
  sc_tokensBefore :: nat
  sc_usage :: "usage option"
  sc_details :: "json option"

datatype recovery_event =
    AutoRetryStart nat nat nat string
  | AutoRetryEnd bool nat "string option"
  | CompactionStart compaction_reason
  | CompactionEnd compaction_reason "(saved_compaction \<times> nat) option" bool bool "string option"
  | SessionCompactFailed compaction_reason "string option" bool bool
  | SessionCompacted session_entry bool compaction_reason bool
  | EntryAppended session_entry
  | AgentEndShown bool
  | QueueUpdate "string list" "string list"
  | MessageStartShown agent_message
  | MessageEndShown agent_message
  | SessionTree "string option" "string option" "session_entry option" "bool option"

record recovery =
  rv_session :: session
  rv_messages :: "message_ref list"
  rv_queuedMessages :: bool
  rv_steeringMessages :: "string list"
  rv_followUpMessages :: "string list"
  rv_pendingCustomMessages :: "custom_message list"
  rv_retryAttempt :: nat
  rv_overflowRecoveryAttempted :: bool
  rv_agentRunAbortRequested :: bool
  rv_failedResponse :: "assistant_message option"
  rv_lastAssistantMessage :: "assistant_ref option"
  rv_lastAssistantToolResults :: "message_ref list"
  rv_log :: "recovery_event list"

record model_limits =
  ml_contextWindow :: nat
  ml_maxTokens :: nat

text \<open>An await ends with a value; meanwhile an abort may be requested and messages may be queued.\<close>

record 'a awaited =
  aw_value :: 'a
  aw_abortRequested :: bool
  aw_queued :: bool

datatype before_compact = NoInterception | CancelCompaction | UseCompaction saved_compaction

record recovery_env =
  rn_session_env :: session_env
  rn_now :: "recovery \<Rightarrow> int"
  rn_retrySettings :: retry_policy
  rn_compactionSettings :: compaction_settings
  rn_model :: "model_limits option"
  rn_modelForMessage :: "assistant_message \<Rightarrow> model_limits option"
  rn_sleep :: "nat \<Rightarrow> recovery \<Rightarrow> bool awaited"
  rn_beforeCompact :: "compaction_preparation \<Rightarrow> compaction_reason \<Rightarrow> bool \<Rightarrow> recovery \<Rightarrow> before_compact exc awaited"
  rn_runDefaultCompaction :: "compaction_preparation \<Rightarrow> compaction_reason \<Rightarrow> recovery \<Rightarrow> saved_compaction exc awaited"
  rn_compactionAborted :: "recovery \<Rightarrow> bool"

definition rv_emit :: "recovery_event \<Rightarrow> (recovery, unit) prog" where
  "rv_emit e = (\<lambda>r. (Inr (), r\<lparr>rv_log := rv_log r @ [e]\<rparr>))"

definition rv_update :: "(recovery \<Rightarrow> recovery) \<Rightarrow> (recovery, unit) prog" where
  "rv_update f = (\<lambda>r. (Inr (), f r))"

definition rv_await :: "(recovery \<Rightarrow> 'a awaited) \<Rightarrow> (recovery, 'a) prog" where
  "rv_await f = (\<lambda>r. let a = f r in
     (Inr (aw_value a),
      r\<lparr>rv_agentRunAbortRequested := rv_agentRunAbortRequested r \<or> aw_abortRequested a,
        rv_queuedMessages := rv_queuedMessages r \<or> aw_queued a\<rparr>))"

definition on_session :: "(recovery \<Rightarrow> 'a session_op) \<Rightarrow> (recovery, 'a) prog" where
  "on_session f = (\<lambda>r. case f r (rv_session r) of (res, s) \<Rightarrow> (res, r\<lparr>rv_session := s\<rparr>))"

section \<open>Retrying\<close>

definition limits_window :: "recovery_env \<Rightarrow> assistant_message \<Rightarrow> nat" where
  "limits_window env message =
     (case rn_modelForMessage env message of
        Some m \<Rightarrow> ml_contextWindow m
      | None \<Rightarrow> (case rn_model env of Some m \<Rightarrow> ml_contextWindow m | None \<Rightarrow> 0))"

definition isRetryableError :: "recovery_env \<Rightarrow> assistant_message \<Rightarrow> bool" where
  "isRetryableError env message \<longleftrightarrow>
     \<not> isContextOverflow message (limits_window env message) \<and> isRetryableAssistantError message"

definition finishCancelledRetry :: "(recovery, unit) prog" where
  "finishCancelledRetry =
     bindp (readp rv_retryAttempt) (\<lambda>attempt.
       if attempt = 0 then ret ()
       else seqp (rv_update (\<lambda>r. r\<lparr>rv_retryAttempt := 0\<rparr>))
              (rv_emit (AutoRetryEnd False attempt (Some ''Retry cancelled''))))"

text \<open>\<open>agent.state.messages\<close> is what the session shows, each message with its entry.\<close>

definition projected_refs :: "session_projection \<Rightarrow> message_ref list" where
  "projected_refs p =
     concat (map (\<lambda>e. map (\<lambda>m. (m, Some (se_id (pe_sourceEntry e)))) (pe_messages e)) (sp_entries p))"

definition refreshFinalizedContext :: "(recovery, unit) prog" where
  "refreshFinalizedContext =
     (\<lambda>r. case sessionProjection (rv_session r) of
            None \<Rightarrow> (Inl STUCK, r)
          | Some p \<Rightarrow> (Inr (), r\<lparr>rv_messages := projected_refs p\<rparr>))"

definition omit_target :: "recovery_env \<Rightarrow> string option \<Rightarrow> (recovery, unit) prog" where
  "omit_target env targetId =
     (case targetId of
        None \<Rightarrow> ret ()
      | Some i \<Rightarrow>
          if i = [] then ret ()
          else bindp (on_session (\<lambda>r. appendContextEdit (rn_session_env env) (rn_now env r) i None))
                 (\<lambda>e. rv_emit (EntryAppended e)))"

definition omitRecoveryAttempt :: "recovery_env \<Rightarrow> message_ref list \<Rightarrow> (recovery, unit) prog" where
  "omitRecoveryAttempt env targets =
     bindp (readp rv_messages) (\<lambda>messages.
       if list_ex (\<lambda>t. snd t = None \<and> t \<in> set messages) targets
       then throw ''Cannot persist recovery omission because a projected message has no source entry''
       else seqp (forp (omit_target env \<circ> snd) targets) refreshFinalizedContext)"

definition prepareRetry :: "recovery_env \<Rightarrow> assistant_ref \<Rightarrow> (recovery, bool) prog" where
  "prepareRetry env ref =
     (let settings = rn_retrySettings env
      in if \<not> rt_enabled settings then ret False
         else bindp (readp rv_retryAttempt) (\<lambda>made.
           let attempt = made + 1
           in if attempt > rt_maxRetries settings then ret False
              else let delayMs = retryDelayMs settings attempt
                   in seqp (rv_update (\<lambda>r. r\<lparr>rv_retryAttempt := attempt\<rparr>))
                     (seqp (rv_emit (AutoRetryStart attempt (rt_maxRetries settings) delayMs (retry_error (fst ref))))
                     (seqp (omitRecoveryAttempt env [(AssistantMsg (fst ref), snd ref)])
                     (bindp (rv_await (rn_sleep env delayMs)) (\<lambda>slept.
                        if slept then ret True
                        else seqp finishCancelledRetry (ret False)))))))"

section \<open>Compacting\<close>

definition overflow_failure :: "compaction_reason \<Rightarrow> js_error \<Rightarrow> string" where
  "overflow_failure reason message =
     (case reason of
        Overflow \<Rightarrow> ''Context overflow recovery failed: '' @ message
      | Threshold \<Rightarrow> ''Auto-compaction failed: '' @ message)"

definition throwIfCompactionAborted :: "recovery_env \<Rightarrow> (recovery, unit) prog" where
  "throwIfCompactionAborted env =
     bindp (readp (rn_compactionAborted env)) (\<lambda>a. if a then throw ''This operation was aborted'' else ret ())"

text \<open>How a compaction that failed is reported: as aborted, without a message, when its signal fired
  or an extension cancelled it.\<close>

definition report_compaction_failure ::
  "recovery_env \<Rightarrow> compaction_reason \<Rightarrow> bool \<Rightarrow> bool \<Rightarrow> js_error \<Rightarrow> (recovery, bool) prog" where
  "report_compaction_failure env reason cancelled fromExtension message =
     bindp (readp (rn_compactionAborted env)) (\<lambda>signalled.
       let aborted = (signalled \<or> cancelled);
           errorMessage = (if aborted then None else Some (overflow_failure reason message))
       in seqp (rv_emit (CompactionEnd reason None aborted False errorMessage))
            (seqp (rv_emit (SessionCompactFailed reason errorMessage aborted fromExtension)) (ret False)))"

definition intercept_compaction ::
  "recovery_env \<Rightarrow> compaction_preparation \<Rightarrow> compaction_reason \<Rightarrow> bool \<Rightarrow> (recovery, before_compact) prog" where
  "intercept_compaction env preparation reason willRetry =
     seqp (throwIfCompactionAborted env)
       (bindp (rv_await (rn_beforeCompact env preparation reason willRetry)) liftp)"

text \<open>The entry extensions are told of is looked up by its summary.\<close>

definition savedCompactionEntry :: "string \<Rightarrow> session \<Rightarrow> session_entry option" where
  "savedCompactionEntry summary s =
     List.find (\<lambda>e. case se_kind e of Compaction d \<Rightarrow> co_summary d = summary | _ \<Rightarrow> False) (getEntries s)"

definition save_compaction ::
  "recovery_env \<Rightarrow> compaction_reason \<Rightarrow> bool \<Rightarrow> bool \<Rightarrow> saved_compaction \<Rightarrow> (recovery, bool) prog" where
  "save_compaction env reason willRetry fromExtension c =
     seqp (throwIfCompactionAborted env)
    (seqp (on_session (\<lambda>r. appendCompaction (rn_session_env env) (rn_now env r) (sc_summary c)
             (Some (sc_firstKeptEntryId c)) (sc_tokensBefore c) (sc_details c) (Some fromExtension) (sc_usage c)))
    (seqp refreshFinalizedContext
    (bindp (readp (\<lambda>r. total_tokens (map fst (rv_messages r)))) (\<lambda>after.
     bindp (readp (\<lambda>r. savedCompactionEntry (sc_summary c) (rv_session r))) (\<lambda>saved.
     seqp (case saved of Some e \<Rightarrow> rv_emit (SessionCompacted e fromExtension reason willRetry) | None \<Rightarrow> ret ())
    (seqp (rv_emit (CompactionEnd reason (Some (c, after)) False willRetry None))
          (if willRetry then ret True else readp rv_queuedMessages)))))))"

definition tryp :: "('w, 'a) prog \<Rightarrow> ('w, 'a exc) prog" where
  "tryp m = (\<lambda>w. case m w of (res, w') \<Rightarrow> (Inr res, w'))"

definition compact_and_report ::
  "recovery_env \<Rightarrow> compaction_preparation \<Rightarrow> compaction_reason \<Rightarrow> bool \<Rightarrow> (recovery, bool) prog" where
  "compact_and_report env preparation reason willRetry =
     seqp (rv_emit (CompactionStart reason))
    (bindp (tryp (intercept_compaction env preparation reason willRetry)) (\<lambda>intercepted.
       case intercepted of
         Inl message \<Rightarrow> report_compaction_failure env reason False False message
       | Inr CancelCompaction \<Rightarrow> report_compaction_failure env reason True False ''Compaction cancelled''
       | Inr (UseCompaction c) \<Rightarrow>
           catchp (seqp (throwIfCompactionAborted env) (save_compaction env reason willRetry True c))
             (report_compaction_failure env reason False True)
       | Inr NoInterception \<Rightarrow>
           catchp
             (seqp (throwIfCompactionAborted env)
               (bindp (bindp (rv_await (rn_runDefaultCompaction env preparation reason)) liftp)
                  (save_compaction env reason willRetry False)))
             (report_compaction_failure env reason False False)))"

text \<open>\<open>STUCK\<close> is a walk to the root that does not end.\<close>

definition runAutoCompaction :: "recovery_env \<Rightarrow> compaction_reason \<Rightarrow> bool \<Rightarrow> (recovery, bool) prog" where
  "runAutoCompaction env reason willRetry =
     (if rn_model env = None then ret False
      else bindp (readp (\<lambda>r. getBranch None (rv_session r))) (\<lambda>branch.
        case branch of
          None \<Rightarrow> throw STUCK
        | Some path \<Rightarrow>
            (case prepareCompaction path (rn_compactionSettings env) of
               None \<Rightarrow> throw STUCK
             | Some None \<Rightarrow> ret False
             | Some (Some preparation) \<Rightarrow> compact_and_report env preparation reason willRetry)))"

section \<open>Deciding whether to compact\<close>

text \<open>What the code reads of the session to judge a response.\<close>

record response_view =
  vw_branch :: "session_entry list"
  vw_projection :: session_projection

definition is_context_edit_of :: "string option \<Rightarrow> session_entry \<Rightarrow> bool" where
  "is_context_edit_of target e =
     (case se_kind e of ContextEdit t _ \<Rightarrow> Some t = target | _ \<Rightarrow> False)"

definition edit_omits :: "session_entry \<Rightarrow> bool" where
  "edit_omits e = (case se_kind e of ContextEdit _ replacement \<Rightarrow> replacement = None | _ \<Rightarrow> False)"

definition assistantIsProjected :: "response_view \<Rightarrow> string option \<Rightarrow> bool" where
  "assistantIsProjected view entryId =
     (case entryId of
        None \<Rightarrow> True
      | Some i \<Rightarrow> list_ex (\<lambda>e. se_id (pe_sourceEntry e) = i
                      \<and> list_ex (\<lambda>m. case m of AssistantMsg _ \<Rightarrow> True | _ \<Rightarrow> False) (pe_messages e))
                   (sp_entries (vw_projection view)))"

definition entriesAfterAssistant :: "response_view \<Rightarrow> string option \<Rightarrow> session_entry list" where
  "entriesAfterAssistant view entryId =
     (case entryId of
        None \<Rightarrow> []
      | Some i \<Rightarrow> (case find_index (\<lambda>e. se_id e = i) (vw_branch view) of
                    None \<Rightarrow> [] | Some k \<Rightarrow> drop (Suc k) (vw_branch view)))"

definition retainedForExplicitRecovery :: "response_view \<Rightarrow> string option \<Rightarrow> bool" where
  "retainedForExplicitRecovery view entryId \<longleftrightarrow>
     entryId = None
     \<or> (let later = entriesAfterAssistant view entryId;
            edits = filter (is_context_edit_of entryId) later
        in \<not> list_ex (\<lambda>e. is_compaction (se_kind e)) later \<and> (edits = [] \<or> \<not> edit_omits (last edits)))"

definition contextOverflowed :: "recovery_env \<Rightarrow> response_view \<Rightarrow> assistant_ref \<Rightarrow> bool" where
  "contextOverflowed env view ref \<longleftrightarrow>
     (let (message, entryId) = ref;
          usageMatches = (assistantIsProjected view entryId
            \<and> \<not> list_ex (\<lambda>e. is_context_edit (se_kind e)) (entriesAfterAssistant view entryId))
      in rn_modelForMessage env message \<noteq> None
         \<and> ((am_stopReason message = StopError \<and> isContextOverflow message 0
               \<and> retainedForExplicitRecovery view entryId)
            \<or> usageMatches \<and> isContextOverflow message (limits_window env message)))"

definition recoverableLength :: "recovery_env \<Rightarrow> response_view \<Rightarrow> assistant_ref \<Rightarrow> bool" where
  "recoverableLength env view ref \<longleftrightarrow>
     (case rn_modelForMessage env (fst ref) of
        None \<Rightarrow> False
      | Some m \<Rightarrow> assistantIsProjected view (snd ref) \<and> isRecoverableLength (fst ref) (ml_maxTokens m))"

text \<open>The size of the context, or \<open>None\<close> where only a usage older than the last compaction tells it.\<close>

definition thresholdTokens :: "response_view \<Rightarrow> message_ref list \<Rightarrow> assistant_message \<Rightarrow> nat option" where
  "thresholdTokens view refs message =
     (let messages = map fst refs;
          direct = (case am_usage message of Some u \<Rightarrow> calculateContextTokens u | None \<Rightarrow> 0);
          estimate = estimateContextTokens messages
      in if list_ex (\<lambda>e. is_context_edit (se_kind (pe_sourceEntry e))) (sp_entries (vw_projection view))
         then Some (ce_tokens (estimateProjectedContextTokens (vw_projection view) (vw_branch view)))
         else if am_stopReason message = StopError \<or> direct = 0
         then (case (ce_lastUsageIndex estimate, getLatestCompactionEntry (vw_branch view)) of
                 (Some i, Some c) \<Rightarrow>
                   (case messages ! i of
                      AssistantMsg m \<Rightarrow> if am_timestamp m \<le> se_timestamp c then None else Some (ce_tokens estimate)
                    | _ \<Rightarrow> Some (ce_tokens estimate))
               | _ \<Rightarrow> Some (ce_tokens estimate))
         else Some direct)"

definition recovery_failed_text :: "bool \<Rightarrow> string" where
  "recovery_failed_text overflowed =
     (if overflowed
      then ''Context overflow recovery failed after one compact-and-retry attempt. Try reducing context or switching to a larger-context model.''
      else ''Truncated response recovery failed after one compact-and-retry attempt.'')"

definition recover_overflow ::
  "recovery_env \<Rightarrow> bool \<Rightarrow> assistant_ref \<Rightarrow> message_ref list \<Rightarrow> (recovery, bool) prog" where
  "recover_overflow env overflowed ref toolResults =
     (if am_stopReason (fst ref) = StopStop then runAutoCompaction env Overflow False
      else bindp (readp rv_overflowRecoveryAttempted) (\<lambda>attempted.
        if attempted
        then let errorMessage = recovery_failed_text overflowed
             in seqp (rv_emit (CompactionEnd Overflow None False False (Some errorMessage)))
               (seqp (rv_emit (SessionCompactFailed Overflow (Some errorMessage) False False)) (ret False))
        else seqp (rv_update (\<lambda>r. r\<lparr>rv_overflowRecoveryAttempted := True\<rparr>))
            (seqp (omitRecoveryAttempt env ((AssistantMsg (fst ref), snd ref) # toolResults))
            (bindp (runAutoCompaction env Overflow True) (\<lambda>again.
             seqp (rv_update (\<lambda>r. if again then r\<lparr>rv_failedResponse := Some (fst ref)\<rparr> else r))
                  (ret again))))))"

definition view_session :: "(recovery, response_view) prog" where
  "view_session =
     (\<lambda>r. case (getBranch None (rv_session r), sessionProjection (rv_session r)) of
            (Some path, Some p) \<Rightarrow> (Inr \<lparr>vw_branch = path, vw_projection = p\<rparr>, r)
          | _ \<Rightarrow> (Inl STUCK, r))"

definition checkCompaction ::
  "recovery_env \<Rightarrow> assistant_ref \<Rightarrow> bool \<Rightarrow> message_ref list \<Rightarrow> (recovery, bool) prog" where
  "checkCompaction env ref skipAbortedCheck toolResults =
     (let message = fst ref; settings = rn_compactionSettings env
      in if \<not> cst_enabled settings \<or> skipAbortedCheck \<and> am_stopReason message = StopAborted then ret False
         else bindp view_session (\<lambda>view.
           if (case getLatestCompactionEntry (vw_branch view) of
                 Some c \<Rightarrow> am_timestamp message \<le> se_timestamp c | None \<Rightarrow> False)
           then ret False
           else if contextOverflowed env view ref \<or> recoverableLength env view ref
           then recover_overflow env (contextOverflowed env view ref) ref toolResults
           else bindp (readp rv_messages) (\<lambda>messages.
             case thresholdTokens view messages message of
               None \<Rightarrow> ret False
             | Some contextTokens \<Rightarrow>
                 if shouldCompact contextTokens (limits_window env message) settings
                 then runAutoCompaction env Threshold False
                 else ret False)))"

section \<open>Between and after the runs\<close>

text \<open>A message that ended is already in the agent's state; persisting it gives it its entry.\<close>

definition persistMessage :: "recovery_env \<Rightarrow> agent_message \<Rightarrow> (recovery, string option) prog" where
  "persistMessage env message =
     (case message of
        CustomMsg m \<Rightarrow>
          bindp (on_session (\<lambda>r. appendCustomMessageEntry (rn_session_env env) (rn_now env r)
                   (cm_customType m) (cm_content m) (cm_display m) (cm_details m)))
            (\<lambda>e. ret (Some (se_id e)))
      | BashMsg _ \<Rightarrow> ret None
      | BranchSummaryMsg _ \<Rightarrow> ret None
      | CompactionSummaryMsg _ \<Rightarrow> ret None
      | HookMsg _ \<Rightarrow> ret None
      | _ \<Rightarrow> bindp (on_session (\<lambda>r. appendMessage (rn_session_env env) (rn_now env r) message))
              (\<lambda>e. ret (Some (se_id e))))"

definition assistantEnded :: "assistant_ref \<Rightarrow> (recovery, unit) prog" where
  "assistantEnded ref =
     seqp (rv_update (\<lambda>r. r\<lparr>rv_lastAssistantMessage := Some ref,
             rv_overflowRecoveryAttempted := rv_overflowRecoveryAttempted r
               \<and> (am_stopReason (fst ref) = StopError \<or> am_stopReason (fst ref) = StopLength)\<rparr>))
       (bindp (readp rv_retryAttempt) (\<lambda>attempt.
          if am_stopReason (fst ref) \<noteq> StopError \<and> attempt > 0
          then seqp (rv_emit (AutoRetryEnd True attempt None)) (rv_update (\<lambda>r. r\<lparr>rv_retryAttempt := 0\<rparr>))
          else ret ()))"

definition messageEnded :: "recovery_env \<Rightarrow> agent_message \<Rightarrow> (recovery, unit) prog" where
  "messageEnded env message =
     seqp (rv_update (\<lambda>r. r\<lparr>rv_messages := rv_messages r @ [(message, None)]\<rparr>))
    (bindp (persistMessage env message) (\<lambda>entryId.
     seqp (rv_update (\<lambda>r. r\<lparr>rv_messages := butlast (rv_messages r) @ [(message, entryId)]\<rparr>))
          (case message of AssistantMsg m \<Rightarrow> assistantEnded (m, entryId) | _ \<Rightarrow> ret ())))"

fun last_assistant :: "agent_message list \<Rightarrow> assistant_message option" where
  "last_assistant [] = None"
| "last_assistant (m # ms) =
     (case last_assistant ms of
        Some a \<Rightarrow> Some a
      | None \<Rightarrow> (case m of AssistantMsg a \<Rightarrow> Some a | _ \<Rightarrow> None))"

definition willRetryAfterAgentEnd :: "recovery_env \<Rightarrow> agent_message list \<Rightarrow> recovery \<Rightarrow> bool" where
  "willRetryAfterAgentEnd env messages r \<longleftrightarrow>
     \<not> rv_agentRunAbortRequested r
     \<and> rt_enabled (rn_retrySettings env) \<and> rv_retryAttempt r < rt_maxRetries (rn_retrySettings env)
     \<and> (case last_assistant messages of Some m \<Rightarrow> isRetryableError env m | None \<Rightarrow> False)"

text \<open>A message of the agent's state, found from its end, with its entry.\<close>

definition ref_of :: "recovery \<Rightarrow> agent_message \<Rightarrow> message_ref" where
  "ref_of r m = (case List.find (\<lambda>ref. fst ref = m) (rev (rv_messages r)) of Some ref \<Rightarrow> ref | None \<Rightarrow> (m, None))"

text \<open>The texts that wait in the queues are kept for display: one that is delivered is taken out of the
  first queue that has it.\<close>

definition emitQueueUpdate :: "(recovery, unit) prog" where
  "emitQueueUpdate = bindp (readp (\<lambda>r. QueueUpdate (rv_steeringMessages r) (rv_followUpMessages r))) rv_emit"

definition removeDelivered :: "string \<Rightarrow> (recovery, unit) prog" where
  "removeDelivered messageText =
     bindp (readp (\<lambda>r. (rv_steeringMessages r, rv_followUpMessages r))) (\<lambda>(steering, followUp).
       if messageText \<in> set steering
       then seqp (rv_update (\<lambda>r. r\<lparr>rv_steeringMessages := remove1 messageText steering\<rparr>)) emitQueueUpdate
       else if messageText \<in> set followUp
       then seqp (rv_update (\<lambda>r. r\<lparr>rv_followUpMessages := remove1 messageText followUp\<rparr>)) emitQueueUpdate
       else ret ())"

definition userStarted :: "user_message \<Rightarrow> (recovery, unit) prog" where
  "userStarted message =
     seqp (rv_update (\<lambda>r. r\<lparr>rv_overflowRecoveryAttempted := False\<rparr>))
       (bindp (liftp (content_text (um_content message) [])) (\<lambda>messageText.
          if messageText = [] then ret () else removeDelivered messageText))"

definition queueSteer :: "string \<Rightarrow> (recovery, unit) prog" where
  "queueSteer text =
     seqp (rv_update (\<lambda>r. r\<lparr>rv_steeringMessages := rv_steeringMessages r @ [text]\<rparr>))
    (seqp emitQueueUpdate (rv_update (\<lambda>r. r\<lparr>rv_queuedMessages := True\<rparr>)))"

definition queueFollowUp :: "string \<Rightarrow> (recovery, unit) prog" where
  "queueFollowUp text =
     seqp (rv_update (\<lambda>r. r\<lparr>rv_followUpMessages := rv_followUpMessages r @ [text]\<rparr>))
    (seqp emitQueueUpdate (rv_update (\<lambda>r. r\<lparr>rv_queuedMessages := True\<rparr>)))"

text \<open>Custom messages sent during a run wait for the end of a turn.\<close>

definition appendCustomMessage :: "recovery_env \<Rightarrow> custom_message \<Rightarrow> (recovery, unit) prog" where
  "appendCustomMessage env m =
     seqp (on_session (\<lambda>r. appendCustomMessageEntry (rn_session_env env) (rn_now env r)
             (cm_customType m) (cm_content m) (cm_display m) (cm_details m)))
    (seqp refreshFinalizedContext
    (seqp (rv_emit (MessageStartShown (CustomMsg m))) (rv_emit (MessageEndShown (CustomMsg m)))))"

definition flushPendingCustomMessages :: "recovery_env \<Rightarrow> (recovery, unit) prog" where
  "flushPendingCustomMessages env =
     bindp (readp rv_pendingCustomMessages) (\<lambda>pending.
       seqp (rv_update (\<lambda>r. r\<lparr>rv_pendingCustomMessages := []\<rparr>))
            (forp (appendCustomMessage env) pending))"

definition handleAgentEvent :: "recovery_env \<Rightarrow> agent_event \<Rightarrow> (recovery, unit) prog" where
  "handleAgentEvent env event =
     (case event of
        MessageStart (UserMsg message) \<Rightarrow> userStarted message
      | AgentEnd messages \<Rightarrow> bindp (readp (willRetryAfterAgentEnd env messages)) (\<lambda>w. rv_emit (AgentEndShown w))
      | MessageEnd message \<Rightarrow> messageEnded env message
      | TurnEnd _ results \<Rightarrow>
          seqp (rv_update (\<lambda>r. r\<lparr>rv_lastAssistantToolResults := map (ref_of r \<circ> ToolResultMsg) results\<rparr>))
            (flushPendingCustomMessages env)
      | _ \<Rightarrow> ret ())"

definition not_aborted :: "(recovery, bool) prog \<Rightarrow> (recovery, bool) prog" where
  "not_aborted p = bindp (readp rv_agentRunAbortRequested) (\<lambda>aborted.
     if aborted then seqp finishCancelledRetry (ret False) else p)"

definition giveUpRetrying :: "assistant_message \<Rightarrow> (recovery, unit) prog" where
  "giveUpRetrying message =
     bindp (readp rv_retryAttempt) (\<lambda>attempt.
       if am_stopReason message = StopError \<and> attempt > 0
       then seqp (rv_emit (AutoRetryEnd False attempt (am_errorMessage message)))
              (rv_update (\<lambda>r. r\<lparr>rv_retryAttempt := 0\<rparr>))
       else ret ())"

definition continueFailed :: "assistant_message \<Rightarrow> (recovery, bool) prog" where
  "continueFailed message =
     bindp (readp rv_agentRunAbortRequested) (\<lambda>aborted.
       seqp (if aborted then finishCancelledRetry else ret ())
      (seqp (rv_update (\<lambda>r. r\<lparr>rv_failedResponse := Some message\<rparr>))
            (ret (\<not> aborted))))"

definition handlePostAgentRun :: "recovery_env \<Rightarrow> (recovery, bool) prog" where
  "handlePostAgentRun env =
     bindp (readp (\<lambda>r. (rv_lastAssistantMessage r, rv_lastAssistantToolResults r))) (\<lambda>(message, toolResults).
     seqp (rv_update (\<lambda>r. r\<lparr>rv_lastAssistantMessage := None, rv_lastAssistantToolResults := []\<rparr>))
    (not_aborted
      (case message of
         None \<Rightarrow> readp rv_queuedMessages
       | Some ref \<Rightarrow>
           bindp (if isRetryableError env (fst ref) then prepareRetry env ref else ret False) (\<lambda>retry.
             if retry then continueFailed (fst ref)
             else not_aborted
              (seqp (giveUpRetrying (fst ref))
              (bindp (checkCompaction env ref True toolResults) (\<lambda>again.
               readp (\<lambda>r. \<not> rv_agentRunAbortRequested r \<and> (again \<or> rv_queuedMessages r)))))))))"

text \<open>Before a run the last response is checked once more, an aborted one too. The run is closed when
  nothing continues it.\<close>

definition last_assistant_ref :: "message_ref list \<Rightarrow> assistant_ref option" where
  "last_assistant_ref refs =
     fold (\<lambda>ref found. case fst ref of AssistantMsg m \<Rightarrow> Some (m, snd ref) | _ \<Rightarrow> found) refs None"

definition checkBeforeRun :: "recovery_env \<Rightarrow> (recovery, unit) prog" where
  "checkBeforeRun env =
     seqp (rv_update (\<lambda>r. r\<lparr>rv_agentRunAbortRequested := False\<rparr>))
    (bindp (readp (last_assistant_ref \<circ> rv_messages)) (\<lambda>ref.
     seqp (case ref of None \<Rightarrow> ret () | Some a \<Rightarrow> bindp (checkCompaction env a False []) (\<lambda>_. ret ()))
          (rv_update (\<lambda>r. r\<lparr>rv_failedResponse := None\<rparr>))))"

definition settleRun :: "recovery_env \<Rightarrow> (recovery, unit) prog" where
  "settleRun env =
     bindp (readp rv_agentRunAbortRequested) (\<lambda>aborted.
       seqp (if aborted then finishCancelledRetry else ret ())
      (seqp (rv_update (\<lambda>r. r\<lparr>rv_failedResponse := None\<rparr>))
            (flushPendingCustomMessages env)))"

end
