(* ===== verification/Recovery_Properties.thy ===== *)
theory Recovery_Properties
  imports Recovery Session_Properties
begin

text \<open>
  Properties of the recovery of a session: retries follow their protocol, an overflow is
  recovered from once, and a failed attempt leaves the model's context but not the history.
\<close>

section \<open>The retry protocol\<close>

text \<open>What listeners see of retries: attempts count up from one, no further than the setting, and an
  end closes the last one started. The state is the number of the open attempt.\<close>

fun retry_scan :: "retry_policy \<Rightarrow> nat \<Rightarrow> recovery_event list \<Rightarrow> nat option" where
  "retry_scan policy opened [] = Some opened"
| "retry_scan policy opened (AutoRetryStart n m delay err # es) =
     (if n = opened + 1 \<and> n \<le> rt_maxRetries policy \<and> m = rt_maxRetries policy \<and> delay = retryDelayMs policy n
      then retry_scan policy n es else None)"
| "retry_scan policy opened (AutoRetryEnd success n err # es) =
     (if n = opened \<and> 0 < opened then retry_scan policy 0 es else None)"
| "retry_scan policy opened (_ # es) = retry_scan policy opened es"

lemma retry_scan_append:
  "retry_scan p n (xs @ ys) = (case retry_scan p n xs of None \<Rightarrow> None | Some k \<Rightarrow> retry_scan p k ys)"
  by (induction p n xs rule: retry_scan.induct) simp_all

fun is_retry_event :: "recovery_event \<Rightarrow> bool" where
  "is_retry_event (AutoRetryStart _ _ _ _) = True"
| "is_retry_event (AutoRetryEnd _ _ _) = True"
| "is_retry_event _ = False"

lemma retry_scan_other: "\<not> is_retry_event e \<Longrightarrow> retry_scan m n [e] = Some n"
  by (cases e) simp_all

definition retries_ok :: "recovery_env \<Rightarrow> recovery \<Rightarrow> bool" where
  "retries_ok env r \<longleftrightarrow>
     retry_scan (rn_retrySettings env) 0 (rv_log r) = Some (rv_retryAttempt r)
     \<and> rv_retryAttempt r \<le> rt_maxRetries (rn_retrySettings env)"

text \<open>A predicate on what is read decides the rest of a program.\<close>

lemma keeps_readp_bindp:
  "(\<And>w. I w \<Longrightarrow> I (snd (f (g w) w))) \<Longrightarrow> keeps I (bindp (readp g) f)"
  by (simp add: keeps_def bindp_def readp_def)

lemma keepsD: "keeps I m \<Longrightarrow> I w \<Longrightarrow> I (snd (m w))"
  by (simp add: keeps_def)

lemma bindp_read: "bindp (readp g) f r = f (g r) r"
  by (simp add: bindp_def readp_def)

lemma seqp_update: "seqp (rv_update f) m r = m (f r)"
  by (simp add: seqp_def bindp_def rv_update_def)

lemma seqp_emit: "seqp (rv_emit e) m r = m (r\<lparr>rv_log := rv_log r @ [e]\<rparr>)"
  by (simp add: seqp_def bindp_def rv_emit_def)

lemma keeps_on_session: "(\<And>r s. I r \<Longrightarrow> I (r\<lparr>rv_session := s\<rparr>)) \<Longrightarrow> keeps I (on_session f)"
  by (simp add: keeps_def on_session_def split: prod.split)

lemma keeps_rv_update: "(\<And>r. I r \<Longrightarrow> I (f r)) \<Longrightarrow> keeps I (rv_update f)"
  by (simp add: keeps_def rv_update_def)

lemma keeps_rv_emit: "(\<And>r. I r \<Longrightarrow> I (r\<lparr>rv_log := rv_log r @ [e]\<rparr>)) \<Longrightarrow> keeps I (rv_emit e)"
  by (simp add: keeps_def rv_emit_def)

lemma keeps_rv_await:
  "(\<And>r a q. I r \<Longrightarrow> I (r\<lparr>rv_agentRunAbortRequested := a, rv_queuedMessages := q\<rparr>)) \<Longrightarrow> keeps I (rv_await f)"
  by (simp add: keeps_def rv_await_def Let_def)

lemma keeps_tryp [keeps_intros]: "keeps I m \<Longrightarrow> keeps I (tryp m)"
  unfolding keeps_def tryp_def by (metis (no_types, lifting) case_prod_beta snd_conv)

text \<open>Where a program leads from a state, when it returns and when it throws.\<close>

definition leads :: "('w \<Rightarrow> bool) \<Rightarrow> ('w, 'a) prog \<Rightarrow> ('w \<Rightarrow> bool) \<Rightarrow> ('w \<Rightarrow> bool) \<Rightarrow> bool" where
  "leads P m Q E \<longleftrightarrow> (\<forall>w. P w \<longrightarrow> (case m w of (Inr x, w') \<Rightarrow> Q w' | (Inl e, w') \<Rightarrow> E w'))"

lemma leads_bindp_general:
  assumes "keeps P m" and "\<And>x. leads P (f x) Q E" and "\<And>w e w'. m w = (Inl e, w') \<Longrightarrow> P w' \<Longrightarrow> E w'"
  shows "leads P (bindp m f) Q E"
  unfolding leads_def
proof (intro allI impI)
  fix w assume P: "P w"
  obtain r w' where m: "m w = (r, w')" by fastforce
  have P': "P w'" using keeps_apply [OF assms(1) P m] .
  show "case bindp m f w of (Inr x, w') \<Rightarrow> Q w' | (Inl e, w') \<Rightarrow> E w'"
    using m P' assms(2) assms(3) [of w] by (cases r) (simp_all add: bindp_def leads_def)
qed

lemma leads_bindp: "keeps P m \<Longrightarrow> (\<And>x. leads P (f x) Q P) \<Longrightarrow> leads P (bindp m f) Q P"
  by (rule leads_bindp_general)

lemma leads_seqp: "keeps P m \<Longrightarrow> leads P k Q P \<Longrightarrow> leads P (seqp m k) Q P"
  by (simp add: seqp_def leads_bindp)

lemma leads_tryp: "keeps P m \<Longrightarrow> (\<And>x. leads P (f x) Q E) \<Longrightarrow> leads P (bindp (tryp m) f) Q E"
  by (rule leads_bindp_general [OF keeps_tryp]) (auto simp: tryp_def split: prod.splits)

lemma leads_emit: "keeps P (rv_emit e) \<Longrightarrow> leads P k Q E \<Longrightarrow> leads P (seqp (rv_emit e) k) Q E"
  unfolding seqp_def by (rule leads_bindp_general) (simp_all add: rv_emit_def)

lemma leads_catchp:
  assumes "leads P m Q P" and "\<And>e. leads P (h e) Q Q"
  shows "leads P (catchp m h) Q Q"
  unfolding leads_def
proof (intro allI impI)
  fix w assume P: "P w"
  obtain r w' where m: "m w = (r, w')" by fastforce
  note step = assms(1) [unfolded leads_def, rule_format, OF P]
  show "case catchp m h w of (Inr x, w') \<Rightarrow> Q w' | (Inl e, w') \<Rightarrow> Q w'"
  proof (cases r)
    case (Inl e)
    with step m have "P w'" by simp
    from assms(2) [unfolded leads_def, rule_format, OF this] m Inl show ?thesis by (simp add: catchp_def)
  next
    case (Inr x)
    with step m show ?thesis by (simp add: catchp_def)
  qed
qed

lemma leads_readp: "(\<And>x. leads P (f x) Q E) \<Longrightarrow> leads P (bindp (readp g) f) Q E"
  by (simp add: leads_def bindp_def readp_def)

lemma leads_snd: "leads P m Q Q \<Longrightarrow> P w \<Longrightarrow> Q (snd (m w))"
  unfolding leads_def by (cases "m w") (auto split: sum.splits)

lemma leads_then:
  assumes "leads P m Q Q" and "\<And>x. keeps Q (f x)"
  shows "leads P (bindp m f) Q Q"
  unfolding leads_def
proof (intro allI impI)
  fix w assume P: "P w"
  obtain r w' where m: "m w = (r, w')" by fastforce
  have Q: "Q w'" using leads_snd [OF assms(1) P] m by simp
  show "case bindp m f w of (Inr x, w') \<Rightarrow> Q w' | (Inl e, w') \<Rightarrow> Q w'"
    using m Q keeps_apply [OF assms(2) Q]
    by (cases r) (auto simp: bindp_def split: prod.split sum.split)
qed

lemma leads_weaken: "keeps P m \<Longrightarrow> (\<And>w. P w \<Longrightarrow> Q w) \<Longrightarrow> leads P m Q Q"
  unfolding leads_def keeps_def by (force split: prod.split sum.split)

text \<open>What an invariant must not depend on so that the session, its context and awaiting keep it.\<close>

locale run_invariant =
  fixes I :: "recovery \<Rightarrow> bool"
  assumes session: "I r \<Longrightarrow> I (r\<lparr>rv_session := s\<rparr>)"
    and messages: "I r \<Longrightarrow> I (r\<lparr>rv_messages := ms\<rparr>)"
    and flags: "I r \<Longrightarrow> I (r\<lparr>rv_agentRunAbortRequested := a, rv_queuedMessages := q\<rparr>)"
    and bookkeeping: "I r \<Longrightarrow> I (r\<lparr>rv_failedResponse := x\<rparr>)"
      "I r \<Longrightarrow> I (r\<lparr>rv_lastAssistantMessage := y, rv_lastAssistantToolResults := z\<rparr>)"
    and queues: "I r \<Longrightarrow> I (r\<lparr>rv_steeringMessages := st, rv_followUpMessages := fu, rv_pendingCustomMessages := pc\<rparr>)"
    and quiet: "I r \<Longrightarrow> \<not> is_retry_event e \<Longrightarrow> (\<And>reason res aborted err. e \<noteq> CompactionEnd reason res aborted True err)
      \<Longrightarrow> I (r\<lparr>rv_log := rv_log r @ [e]\<rparr>)"
begin

lemma keeps_session: "keeps I (on_session f)" "keeps I (rv_await g)"
  by (rule keeps_on_session keeps_rv_await; erule session flags)+

lemma keeps_quiet:
  "\<not> is_retry_event e \<Longrightarrow> (\<And>reason res aborted err. e \<noteq> CompactionEnd reason res aborted True err)
    \<Longrightarrow> keeps I (rv_emit e)"
  by (rule keeps_rv_emit) (rule quiet)

lemma keeps_refresh: "keeps I refreshFinalizedContext"
  by (simp add: keeps_def refreshFinalizedContext_def messages split: option.split)

lemma keeps_omit: "keeps I (omitRecoveryAttempt env targets)"
  unfolding omitRecoveryAttempt_def omit_target_def
  by (auto intro!: keeps_intros keeps_session keeps_refresh keeps_quiet split: option.split)

lemma queue: "I r \<Longrightarrow> I (r\<lparr>rv_steeringMessages := st\<rparr>)" "I r \<Longrightarrow> I (r\<lparr>rv_followUpMessages := fu\<rparr>)"
  "I r \<Longrightarrow> I (r\<lparr>rv_pendingCustomMessages := pc\<rparr>)"
proof -
  assume r: "I r"
  show "I (r\<lparr>rv_steeringMessages := st\<rparr>)"
    using queues [OF r, where st = st and fu = "rv_followUpMessages r" and pc = "rv_pendingCustomMessages r"] by simp
  show "I (r\<lparr>rv_followUpMessages := fu\<rparr>)"
    using queues [OF r, where st = "rv_steeringMessages r" and fu = fu and pc = "rv_pendingCustomMessages r"] by simp
  show "I (r\<lparr>rv_pendingCustomMessages := pc\<rparr>)"
    using queues [OF r, where st = "rv_steeringMessages r" and fu = "rv_followUpMessages r" and pc = pc] by simp
qed

lemma flag: "I r \<Longrightarrow> I (r\<lparr>rv_agentRunAbortRequested := a\<rparr>)" "I r \<Longrightarrow> I (r\<lparr>rv_queuedMessages := q\<rparr>)"
proof -
  show "I r \<Longrightarrow> I (r\<lparr>rv_agentRunAbortRequested := a\<rparr>)"
    using flags [where r = r and a = a and q = "rv_queuedMessages r"] by simp
  show "I r \<Longrightarrow> I (r\<lparr>rv_queuedMessages := q\<rparr>)"
    using flags [where r = r and a = "rv_agentRunAbortRequested r" and q = q] by simp
qed

lemma keeps_queue_update: "keeps I emitQueueUpdate"
  unfolding emitQueueUpdate_def by (rule keeps_readp_bindp) (simp add: rv_emit_def quiet)

lemma keeps_queued: "keeps I (queueSteer text)" "keeps I (queueFollowUp text)" "keeps I (removeDelivered text)"
  unfolding queueSteer_def queueFollowUp_def removeDelivered_def
  by (auto intro!: keeps_intros keeps_queue_update keeps_rv_update queue flag)

lemma keeps_flush: "keeps I (flushPendingCustomMessages env)"
  unfolding flushPendingCustomMessages_def appendCustomMessage_def
  by (auto intro!: keeps_intros keeps_session keeps_refresh keeps_quiet keeps_rv_update queue)

lemma keeps_throwIf: "keeps I (throwIfCompactionAborted env)"
  unfolding throwIfCompactionAborted_def by (auto intro!: keeps_intros)

lemma keeps_report: "keeps I (report_compaction_failure env reason cancelled fromExtension message)"
  unfolding report_compaction_failure_def Let_def by (auto intro!: keeps_intros keeps_quiet)

lemma keeps_intercept: "keeps I (intercept_compaction env preparation reason willRetry)"
  unfolding intercept_compaction_def by (auto intro!: keeps_intros keeps_session keeps_throwIf)

lemma keeps_save:
  assumes "\<And>c n. willRetry \<Longrightarrow> keeps I (rv_emit (CompactionEnd reason (Some (c, n)) False True None))"
  shows "keeps I (save_compaction env reason willRetry fromExtension c)"
proof -
  have "keeps I (rv_emit (CompactionEnd reason (Some (c, n)) False willRetry None))" for c n
    using assms by (cases willRetry) (auto intro: keeps_quiet)
  moreover have "keeps I (rv_emit (SessionCompacted e fromExtension reason willRetry))" for e
    by (auto intro: keeps_quiet)
  ultimately show ?thesis
    unfolding save_compaction_def
    by (auto intro!: keeps_intros keeps_session keeps_throwIf keeps_refresh split: option.split)
qed

lemma keeps_compact:
  assumes "\<And>c n. willRetry \<Longrightarrow> keeps I (rv_emit (CompactionEnd reason (Some (c, n)) False True None))"
  shows "keeps I (runAutoCompaction env reason willRetry)"
  unfolding runAutoCompaction_def compact_and_report_def
  by (auto intro!: keeps_intros keeps_session keeps_throwIf keeps_report keeps_intercept keeps_save keeps_quiet assms
      split: option.split sum.split before_compact.split)

text \<open>An automatic compaction that will retry says so at most once, at its end.\<close>

lemma compaction_ends_once:
  assumes weaker: "\<And>r. I r \<Longrightarrow> J r"
    and ends: "\<And>r reason c n. I r \<Longrightarrow> J (r\<lparr>rv_log := rv_log r @ [CompactionEnd reason (Some (c, n)) False True None]\<rparr>)"
  shows "leads I (runAutoCompaction env reason True) J J"
proof -
  have final: "leads I (seqp (rv_emit (CompactionEnd reason (Some (c, n)) False True None)) (ret True)) J I" for c n
    using ends by (simp add: leads_def seqp_def bindp_def rv_emit_def ret_def)
  have told: "keeps I (case saved of Some e \<Rightarrow> rv_emit (SessionCompacted e fromExtension reason True) | None \<Rightarrow> ret ())"
    for saved fromExtension by (auto intro!: keeps_intros keeps_quiet split: option.split)
  have save: "leads I (save_compaction env reason True fromExtension c) J I" for fromExtension c
    unfolding save_compaction_def if_P [OF TrueI]
    by (intro leads_bindp leads_seqp final told keeps_session keeps_throwIf keeps_refresh keeps_readp)
  have report: "leads I (report_compaction_failure env reason cancelled fromExtension message) J J"
    for cancelled fromExtension message by (rule leads_weaken [OF keeps_report]) (rule weaker)
  have rest: "leads I (case intercepted of
         Inl message \<Rightarrow> report_compaction_failure env reason False False message
       | Inr CancelCompaction \<Rightarrow> report_compaction_failure env reason True False ''Compaction cancelled''
       | Inr (UseCompaction c) \<Rightarrow>
           catchp (seqp (throwIfCompactionAborted env) (save_compaction env reason True True c))
             (report_compaction_failure env reason False True)
       | Inr NoInterception \<Rightarrow>
           catchp (seqp (throwIfCompactionAborted env)
               (bindp (bindp (rv_await (rn_runDefaultCompaction env preparation reason)) liftp)
                  (save_compaction env reason True False)))
             (report_compaction_failure env reason False False)) J J" for intercepted preparation
    by (auto split: sum.split before_compact.split
        intro!: report leads_catchp leads_seqp leads_bindp save keeps_throwIf keeps_session keeps_bindp keeps_liftp)
  have "leads I (compact_and_report env preparation reason True) J J" for preparation
    unfolding compact_and_report_def
    by (rule leads_emit [OF keeps_quiet]) (simp_all add: leads_tryp keeps_intercept rest)
  moreover have "leads I (ret False) J J" "leads I (throw STUCK :: (recovery, bool) prog) J J"
    using weaker by (simp_all add: leads_def ret_def throw_def)
  ultimately show ?thesis
    unfolding runAutoCompaction_def by (auto intro!: leads_readp split: option.split)
qed

end

section \<open>A session's run\<close>

datatype recovery_call =
    Handle agent_event
  | PostRun
  | StartRun
  | FinishRun
  | RequestAbort
  | Steer string
  | FollowUp string
  | SendCustom custom_message
  | TakeQueued

definition recover :: "recovery_env \<Rightarrow> recovery_call \<Rightarrow> recovery \<Rightarrow> recovery" where
  "recover env call r =
     (case call of
        Handle event \<Rightarrow> snd (handleAgentEvent env event r)
      | PostRun \<Rightarrow> snd (handlePostAgentRun env r)
      | StartRun \<Rightarrow> snd (checkBeforeRun env r)
      | FinishRun \<Rightarrow> snd (settleRun env r)
      | RequestAbort \<Rightarrow> r\<lparr>rv_agentRunAbortRequested := True\<rparr>
      | Steer text \<Rightarrow> snd (queueSteer text r)
      | FollowUp text \<Rightarrow> snd (queueFollowUp text r)
      | SendCustom m \<Rightarrow> r\<lparr>rv_pendingCustomMessages := rv_pendingCustomMessages r @ [m]\<rparr>
      | TakeQueued \<Rightarrow> r\<lparr>rv_queuedMessages := False\<rparr>)"

text \<open>An invariant of all calls whose events are allowed.\<close>

locale recovery_invariant = run_invariant I for I :: "recovery \<Rightarrow> bool" +
  fixes env :: recovery_env and allowed :: "agent_event \<Rightarrow> bool"
  assumes retry: "keeps I (prepareRetry env ref)"
    and cancel: "keeps I finishCancelledRetry"
    and give_up: "keeps I (giveUpRetrying m)"
    and overflow: "keeps I (recover_overflow env overflowed ref results)"
    and event: "allowed e \<Longrightarrow> keeps I (handleAgentEvent env e)"
begin

lemma keeps_view: "keeps I view_session"
  by (simp add: keeps_def view_session_def split: option.split)

lemma keeps_check: "keeps I (checkCompaction env ref skip results)"
  unfolding checkCompaction_def Let_def
  by (auto intro!: keeps_intros keeps_view overflow keeps_compact split: option.split)

lemma keeps_not_aborted: "keeps I p \<Longrightarrow> keeps I (not_aborted p)"
  unfolding not_aborted_def by (auto intro!: keeps_intros cancel)

lemma keeps_failed: "keeps I (rv_update (\<lambda>r. r\<lparr>rv_failedResponse := x\<rparr>))"
  by (rule keeps_rv_update) (rule bookkeeping)

lemma keeps_post: "keeps I (handlePostAgentRun env)"
proof -
  have "keeps I (rv_update (\<lambda>r. r\<lparr>rv_lastAssistantMessage := None, rv_lastAssistantToolResults := []\<rparr>))"
    by (rule keeps_rv_update) (rule bookkeeping)
  moreover have "keeps I (continueFailed m)" for m
    unfolding continueFailed_def by (auto intro!: keeps_intros cancel keeps_failed)
  ultimately show ?thesis
    unfolding handlePostAgentRun_def
    by (auto intro!: keeps_intros keeps_not_aborted retry give_up keeps_check split: option.split)
qed

lemma keeps_start: "keeps I (checkBeforeRun env)"
proof -
  have "keeps I (rv_update (\<lambda>r. r\<lparr>rv_agentRunAbortRequested := False\<rparr>))" by (rule keeps_rv_update) (rule flag)
  then show ?thesis
    unfolding checkBeforeRun_def by (auto intro!: keeps_intros keeps_check keeps_failed split: option.split)
qed

lemma keeps_finish: "keeps I (settleRun env)"
  unfolding settleRun_def by (auto intro!: keeps_intros cancel keeps_failed keeps_flush)

lemma keeps_recover: "I r \<Longrightarrow> (\<And>e. call = Handle e \<Longrightarrow> allowed e) \<Longrightarrow> I (recover env call r)"
  by (cases call) (auto simp: recover_def intro: keepsD [OF keeps_post] keepsD [OF keeps_start] keepsD [OF keeps_finish]
      keepsD [OF event] keepsD [OF keeps_queued(1)] keepsD [OF keeps_queued(2)] flag queue)

lemma keeps_run: "I r \<Longrightarrow> (\<And>e. Handle e \<in> set calls \<Longrightarrow> allowed e) \<Longrightarrow> I (fold (recover env) calls r)"
proof (induction calls arbitrary: r)
  case (Cons call calls)
  have "I (recover env call r)" by (rule keeps_recover) (use Cons.prems in auto)
  then show ?case using Cons by simp
qed simp

end

section \<open>Retries follow their protocol\<close>

interpretation retry_base: run_invariant "retries_ok env" for env
proof unfold_locales
  fix r e assume "retries_ok env r" "\<not> is_retry_event e"
  then show "retries_ok env (r\<lparr>rv_log := rv_log r @ [e]\<rparr>)"
    by (simp add: retries_ok_def retry_scan_append retry_scan_other)
qed (simp_all add: retries_ok_def)

lemma retries_cancel: "keeps (retries_ok env) finishCancelledRetry"
  unfolding finishCancelledRetry_def
  by (rule keeps_readp_bindp) (auto simp: seqp_update rv_emit_def ret_def retries_ok_def retry_scan_append)

lemma retries_give_up: "keeps (retries_ok env) (giveUpRetrying m)"
  unfolding giveUpRetrying_def
  by (rule keeps_readp_bindp) (auto simp: seqp_emit rv_update_def ret_def retries_ok_def retry_scan_append)

lemma retries_ended: "keeps (retries_ok env) (assistantEnded ref)"
proof -
  have "keeps (retries_ok env) (bindp (readp rv_retryAttempt) (\<lambda>attempt.
          if am_stopReason (fst ref) \<noteq> StopError \<and> attempt > 0
          then seqp (rv_emit (AutoRetryEnd True attempt None)) (rv_update (\<lambda>r. r\<lparr>rv_retryAttempt := 0\<rparr>))
          else ret ()))"
    by (rule keeps_readp_bindp) (auto simp: seqp_emit rv_update_def ret_def retries_ok_def retry_scan_append)
  then show ?thesis
    unfolding assistantEnded_def by (intro keeps_seqp keeps_rv_update) (simp add: retries_ok_def)
qed

lemma retries_prepare: "keeps (retries_ok env) (prepareRetry env ref)"
proof (cases "rt_enabled (rn_retrySettings env)")
  case True
  have rest: "keeps (retries_ok env) (seqp (omitRecoveryAttempt env targets)
      (bindp (rv_await f) (\<lambda>slept. if slept then ret True else seqp finishCancelledRetry (ret False))))" for targets f
    by (intro keeps_seqp keeps_bindp retry_base.keeps_omit retry_base.keeps_session)
      (simp add: keeps_ret keeps_seqp retries_cancel)
  have opened: "retries_ok env (w\<lparr>rv_retryAttempt := Suc (rv_retryAttempt w), rv_log := rv_log w @
       [AutoRetryStart (Suc (rv_retryAttempt w)) (rt_maxRetries (rn_retrySettings env))
          (retryDelayMs (rn_retrySettings env) (Suc (rv_retryAttempt w))) err]\<rparr>)"
    if "retries_ok env w" "\<not> rt_maxRetries (rn_retrySettings env) < Suc (rv_retryAttempt w)" for w err
    using that by (simp add: retries_ok_def retry_scan_append)
  show ?thesis
    unfolding prepareRetry_def Let_def
    using True
    by (simp, intro keeps_readp_bindp)
      (auto simp: seqp_update seqp_emit ret_def intro!: keepsD [OF rest] intro: opened)
qed (simp add: prepareRetry_def keeps_ret)

interpretation retry_protocol: recovery_invariant "retries_ok env" env "\<lambda>_. True" for env
proof unfold_locales
  fix ref overflowed results e
  show "keeps (retries_ok env) (recover_overflow env overflowed ref results)"
    unfolding recover_overflow_def Let_def
    by (auto intro!: keeps_intros retry_base.keeps_omit retry_base.keeps_compact retry_base.keeps_quiet keeps_rv_update
        keeps_rv_emit simp: retries_ok_def retry_scan_append)
  show "keeps (retries_ok env) (handleAgentEvent env e)"
    unfolding handleAgentEvent_def messageEnded_def persistMessage_def userStarted_def
    by (auto intro!: keeps_intros retry_base.keeps_session retry_base.keeps_quiet keeps_rv_update retries_ended
        retry_base.keeps_queued retry_base.keeps_flush simp: retries_ok_def split: agent_event.split agent_message.split)
qed (rule retries_prepare retries_cancel retries_give_up)+

section \<open>Overflow recovery happens once\<close>

fun is_recovery :: "recovery_event \<Rightarrow> bool" where
  "is_recovery (CompactionEnd _ _ _ willRetry _) = willRetry"
| "is_recovery _ = False"

definition recoveries :: "recovery \<Rightarrow> nat" where
  "recoveries r = length (filter is_recovery (rv_log r))"

text \<open>A user message and a response that neither failed nor was cut off allow another recovery.\<close>

fun allows_recovery :: "agent_event \<Rightarrow> bool" where
  "allows_recovery (MessageStart (UserMsg _)) = True"
| "allows_recovery (MessageEnd (AssistantMsg m)) = (am_stopReason m \<noteq> StopError \<and> am_stopReason m \<noteq> StopLength)"
| "allows_recovery _ = False"

text \<open>No more recoveries than a bound, one less while none was attempted.\<close>

definition recovered_once :: "nat \<Rightarrow> bool \<Rightarrow> recovery \<Rightarrow> bool" where
  "recovered_once c f r \<longleftrightarrow> recoveries r + of_bool f \<le> c + of_bool (rv_overflowRecoveryAttempted r)"

definition may_recover :: "nat \<Rightarrow> bool \<Rightarrow> recovery \<Rightarrow> bool" where
  "may_recover c f r \<longleftrightarrow> recoveries r + of_bool f \<le> c \<and> rv_overflowRecoveryAttempted r"

lemma not_recovery:
  "(\<And>reason res aborted err. e \<noteq> CompactionEnd reason res aborted True err) \<Longrightarrow> \<not> is_recovery e"
  by (cases e) auto

interpretation overflow_base: run_invariant "recovered_once c f" for c f
  by unfold_locales (simp_all add: recovered_once_def recoveries_def not_recovery)

interpretation overflow_chance: run_invariant "may_recover c f" for c f
  by unfold_locales (simp_all add: may_recover_def recoveries_def not_recovery)

lemma overflow_recovers: "keeps (recovered_once c f) (recover_overflow env overflowed ref results)"
proof -
  have chance: "may_recover c f r \<Longrightarrow> recovered_once c f r" for r
    by (simp add: may_recover_def recovered_once_def)
  have "leads (may_recover c f) (runAutoCompaction env Overflow True) (recovered_once c f) (recovered_once c f)"
    by (rule overflow_chance.compaction_ends_once [OF chance])
      (simp_all add: may_recover_def recovered_once_def recoveries_def)
  moreover have "keeps (recovered_once c f)
      (seqp (rv_update (\<lambda>r. if again then r\<lparr>rv_failedResponse := Some m\<rparr> else r)) (ret again))" for again m
    by (intro keeps_seqp keeps_rv_update keeps_ret) (simp add: overflow_base.bookkeeping)
  ultimately have rest: "leads (may_recover c f)
      (seqp (omitRecoveryAttempt env targets)
        (bindp (runAutoCompaction env Overflow True) (\<lambda>again.
           seqp (rv_update (\<lambda>r. if again then r\<lparr>rv_failedResponse := Some m\<rparr> else r)) (ret again))))
      (recovered_once c f) (recovered_once c f)" for targets m
    unfolding seqp_def [of "omitRecoveryAttempt env targets"]
    by (intro leads_bindp_general overflow_chance.keeps_omit leads_then chance)
  have fresh: "may_recover c f (r\<lparr>rv_overflowRecoveryAttempted := True\<rparr>)"
    if "recovered_once c f r" "\<not> rv_overflowRecoveryAttempted r" for r
    using that by (simp add: may_recover_def recovered_once_def recoveries_def)
  have refuse: "keeps (recovered_once c f) (seqp (rv_emit (CompactionEnd Overflow None False False err))
      (seqp (rv_emit (SessionCompactFailed Overflow err False False)) (ret False)))" for err
    by (intro keeps_seqp overflow_base.keeps_quiet keeps_ret) simp_all
  show ?thesis
  proof (cases "am_stopReason (fst ref) = StopStop")
    case True
    then show ?thesis by (simp add: recover_overflow_def overflow_base.keeps_compact)
  next
    case False
    show ?thesis
      unfolding recover_overflow_def Let_def if_not_P [OF False]
    proof (rule keeps_readp_bindp)
      fix r assume r: "recovered_once c f r"
      show "recovered_once c f (snd ((if rv_overflowRecoveryAttempted r
          then seqp (rv_emit (CompactionEnd Overflow None False False (Some (recovery_failed_text overflowed))))
            (seqp (rv_emit (SessionCompactFailed Overflow (Some (recovery_failed_text overflowed)) False False)) (ret False))
          else seqp (rv_update (\<lambda>r. r\<lparr>rv_overflowRecoveryAttempted := True\<rparr>))
            (seqp (omitRecoveryAttempt env ((AssistantMsg (fst ref), snd ref) # results))
              (bindp (runAutoCompaction env Overflow True) (\<lambda>again.
                 seqp (rv_update (\<lambda>r. if again then r\<lparr>rv_failedResponse := Some (fst ref)\<rparr> else r)) (ret again))))) r))"
        using keepsD [OF refuse r] leads_snd [OF rest fresh [OF r]]
        by (cases "rv_overflowRecoveryAttempted r") (simp_all add: seqp_update)
    qed
  qed
qed

interpretation overflow_once: recovery_invariant "recovered_once c f" env "\<lambda>e. \<not> allows_recovery e" for c f env
proof unfold_locales
  fix ref m
  show "keeps (recovered_once c f) finishCancelledRetry" "keeps (recovered_once c f) (giveUpRetrying m)"
    unfolding finishCancelledRetry_def giveUpRetrying_def
    by (auto intro!: keeps_intros keeps_rv_update keeps_rv_emit simp: recovered_once_def recoveries_def)
  then show "keeps (recovered_once c f) (prepareRetry env ref)"
    unfolding prepareRetry_def Let_def
    by (auto intro!: keeps_intros keeps_rv_update keeps_rv_emit overflow_base.keeps_omit overflow_base.keeps_session
        simp: recovered_once_def recoveries_def)
next
  fix e assume e: "\<not> allows_recovery e"
  have "keeps (recovered_once c f) (assistantEnded (m, i))" if "\<not> allows_recovery (MessageEnd (AssistantMsg m))" for m i
    using that unfolding assistantEnded_def
    by (auto intro!: keeps_intros keeps_rv_update keeps_rv_emit simp: recovered_once_def recoveries_def)
  then show "keeps (recovered_once c f) (handleAgentEvent env e)"
    using e unfolding handleAgentEvent_def messageEnded_def persistMessage_def
    by (auto intro!: keeps_intros overflow_base.keeps_session overflow_base.keeps_quiet keeps_rv_update
        overflow_base.keeps_flush simp: recovered_once_def recoveries_def split: agent_event.split agent_message.split)
qed (rule overflow_recovers)

section \<open>Omitting an attempt\<close>

lemma context_edits_omit:
  "se_kind e = ContextEdit t r \<Longrightarrow> map_of (context_edits (es @ [e])) i = (if i = t then Some r else map_of (context_edits es) i)"
  by (simp add: context_edits_snoc AList.update_conv')

lemma refs_of_entries:
  "projected_refs (project_path path es) =
     concat (map (\<lambda>ie. map (\<lambda>m. (m, Some (se_id (snd ie)))) (pe_messages (project_at (context_edits es) ie)))
       (List.enumerate 0 es))"
  by (auto simp: projected_refs_def project_path_def project_entries_def comp_def project_at_def Let_def
      split: prod.split intro!: arg_cong [of _ _ concat])

lemma omitted_refs:
  assumes "se_kind e = ContextEdit t None"
  shows "projected_refs (project_path path' (es @ [e])) = filter (\<lambda>ref. snd ref \<noteq> Some t) (projected_refs (project_path path es))"
proof -
  have "map (\<lambda>m. (m, Some (se_id (snd ie)))) (pe_messages (project_at (context_edits (es @ [e])) ie))
      = filter (\<lambda>ref. snd ref \<noteq> Some t) (map (\<lambda>m. (m, Some (se_id (snd ie)))) (pe_messages (project_at (context_edits es) ie)))"
    for ie :: "nat \<times> session_entry"
    by (simp add: project_at_def context_edits_omit [OF assms] projectContextEntry_def filter_map comp_def split: prod.split)
  moreover have "projectContextEntry e ed = []" for ed
    using assms by (simp add: projectContextEntry_def sessionEntryToContextMessages_def split: option.split)
  ultimately show ?thesis
    by (simp add: refs_of_entries enumerate_append_eq filter_concat comp_def project_at_def [of _ "(_, e)"])
qed

definition target_ids :: "message_ref list \<Rightarrow> string list" where
  "target_ids targets = filter (\<lambda>i. i \<noteq> []) (List.map_filter snd targets)"

definition keeps_all_but :: "string list \<Rightarrow> session \<Rightarrow> session \<Rightarrow> bool" where
  "keeps_all_but ids s s' \<longleftrightarrow>
     (\<exists>es p p'. getEntries s' = getEntries s @ es \<and> map se_kind es = map (\<lambda>t. ContextEdit t None) ids
        \<and> sessionProjection s = Some p \<and> sessionProjection s' = Some p'
        \<and> projected_refs p' = filter (\<lambda>ref. snd ref \<notin> Some ` set ids) (projected_refs p))"

lemma edit_omits_target:
  assumes ok: "session_ok env s" and edit: "appendContextEdit env now t None s = (Inr e, s')"
  shows "session_ok env s' \<and> keeps_all_but [t] s s'"
proof -
  have wf: "uuid_ok (sv_uuid env)" "session_wf env s" using ok by (simp_all add: session_ok_def)
  have ok': "session_ok env s'" using effect_ok [OF appendContextEdit_effect [OF ok edit] ok] by simp
  then have wf': "session_wf env s'" by (simp add: session_ok_def)
  have "appendKind env now (ContextEdit t None) s = (Inr e, s')"
    using edit by (auto simp: appendContextEdit_def split: if_splits option.splits)
  then obtain x where x: "appends env x s s'" "se_kind x = ContextEdit t None" "se_timestamp x = now"
    "Inr e = (Inr x :: session_entry exc) \<and> wrote env x s s' \<or> (\<exists>err. (Inr e :: session_entry exc) = Inl err)"
    by (rule appendKind_appends [OF wf])
  note path = appends_leaf_path [OF x(1) wf(2)]
  have "compacted_path (leaf_path s @ [x]) = compacted_path (leaf_path s) @ [x]"
    using path(2) x(2) by (intro compacted_path_snoc) simp_all
  then have "keeps_all_but [t] s s'"
    unfolding keeps_all_but_def
    using appends_fields(2) [OF x(1)] x(2) sessionProjection_eq [OF wf(2)] sessionProjection_eq [OF wf'] path(1)
      omitted_refs [OF x(2), of "leaf_path s @ [x]" "compacted_path (leaf_path s)" "leaf_path s"]
    by (intro exI [of _ "[x]"]) simp
  with ok' show ?thesis by simp
qed

lemma keeps_all_but_refl: "session_ok env s \<Longrightarrow> keeps_all_but [] s s"
  using sessionProjection_eq [of env s] by (auto simp: keeps_all_but_def session_ok_def)

lemma keeps_all_but_trans: "keeps_all_but xs s s' \<Longrightarrow> keeps_all_but ys s' s'' \<Longrightarrow> keeps_all_but (xs @ ys) s s''"
  unfolding keeps_all_but_def by (fastforce simp: image_Un intro: filter_cong)

lemma omit_target_effect:
  assumes "session_ok (rn_session_env env) (rv_session r)" and "omit_target env i r = (Inr u, r')"
  shows "session_ok (rn_session_env env) (rv_session r')
     \<and> keeps_all_but (target_ids [(m, i)]) (rv_session r) (rv_session r')"
  using assms edit_omits_target [OF assms(1)] keeps_all_but_refl [OF assms(1)]
  by (auto simp: omit_target_def target_ids_def List.map_filter_simps ret_def bindp_def on_session_def rv_emit_def
      split: option.splits if_splits prod.splits sum.splits)

lemma target_ids_Cons: "target_ids (t # ts) = target_ids [t] @ target_ids ts"
  by (simp add: target_ids_def List.map_filter_simps split: option.split)

lemma omit_targets_effect:
  assumes "session_ok (rn_session_env env) (rv_session r)" and "forp (omit_target env \<circ> snd) targets r = (Inr u, r')"
  shows "session_ok (rn_session_env env) (rv_session r') \<and> keeps_all_but (target_ids targets) (rv_session r) (rv_session r')"
  using assms
proof (induction targets arbitrary: r)
  case Nil
  then show ?case by (simp add: ret_def target_ids_def List.map_filter_simps keeps_all_but_refl)
next
  case (Cons t ts)
  from Cons.prems(2) obtain v r1 where t: "omit_target env (snd t) r = (Inr v, r1)"
    and ts: "forp (omit_target env \<circ> snd) ts r1 = (Inr u, r')" by (auto elim!: seqp_InrE simp: comp_def)
  from omit_target_effect [OF Cons.prems(1) t, of "fst t"]
  have 1: "session_ok (rn_session_env env) (rv_session r1)" "keeps_all_but (target_ids [t]) (rv_session r) (rv_session r1)"
    by simp_all
  from Cons.IH [OF 1(1) ts] keeps_all_but_trans [OF 1(2)] show ?case unfolding target_ids_Cons [of t ts] by blast
qed

lemma omission_effect:
  assumes "session_ok (rn_session_env env) (rv_session r)" and "omitRecoveryAttempt env targets r = (Inr u, r')"
  shows "keeps_all_but (target_ids targets) (rv_session r) (rv_session r')
     \<and> (\<exists>p. sessionProjection (rv_session r') = Some p \<and> rv_messages r' = projected_refs p)"
proof -
  from assms(2) obtain v r1 where all: "forp (omit_target env \<circ> snd) targets r = (Inr v, r1)"
    and show_: "refreshFinalizedContext r1 = (Inr u, r')"
    by (auto simp: omitRecoveryAttempt_def throw_def bindp_def readp_def elim!: seqp_InrE split: if_splits)
  then show ?thesis
    using omit_targets_effect [OF assms(1) all] by (auto simp: refreshFinalizedContext_def split: option.splits)
qed

interpretation attempt_base: run_invariant "\<lambda>r. rv_retryAttempt r = n" for n
  by unfold_locales simp_all

section \<open>Properties of the recovery\<close>

text \<open>A session whose only response was throttled, with the settings it is retried under.\<close>

definition throttled :: assistant_message where
  "throttled = failed_response ''429 Too Many Requests''"

definition throttled_session :: session where
  "throttled_session = snd (run_calls demo_session_env [(7, CallMessage (AssistantMsg throttled))] demo_talked)"

definition demo_recovery_env :: recovery_env where
  "demo_recovery_env =
     \<lparr>rn_session_env = demo_session_env, rn_now = (\<lambda>_. 8),
      rn_retrySettings = \<lparr>rt_enabled = True, rt_maxRetries = 1, rt_baseDelayMs = 2, rt_maxAgentDelayMs = None\<rparr>,
      rn_compactionSettings = \<lparr>cst_enabled = False, cst_reserveTokens = 0, cst_keepRecentTokens = 0\<rparr>,
      rn_model = Some \<lparr>ml_contextWindow = 100, ml_maxTokens = 10\<rparr>, rn_modelForMessage = (\<lambda>_. None),
      rn_sleep = (\<lambda>_ _. \<lparr>aw_value = True, aw_abortRequested = False, aw_queued = False\<rparr>),
      rn_beforeCompact = (\<lambda>_ _ _ _. \<lparr>aw_value = Inr NoInterception, aw_abortRequested = False, aw_queued = False\<rparr>),
      rn_runDefaultCompaction = (\<lambda>_ _ _. \<lparr>aw_value = Inl ''offline'', aw_abortRequested = False, aw_queued = False\<rparr>),
      rn_compactionAborted = (\<lambda>_. False)\<rparr>"

definition demo_recovery :: recovery where
  "demo_recovery =
     \<lparr>rv_session = throttled_session, rv_messages = [], rv_queuedMessages = False, rv_steeringMessages = [],
      rv_followUpMessages = [], rv_pendingCustomMessages = [], rv_retryAttempt = 0,
      rv_overflowRecoveryAttempted = False, rv_agentRunAbortRequested = False, rv_failedResponse = None,
      rv_lastAssistantMessage = Some (throttled, Some ''xx------''), rv_lastAssistantToolResults = [], rv_log = []\<rparr>"

lemma demo_recovery_ok: "session_ok (rn_session_env demo_recovery_env) (rv_session demo_recovery)"
proof -
  have "fst (run_calls demo_session_env [(7, CallMessage (AssistantMsg throttled))] demo_talked) = Inr ()" by code_simp
  then have run: "run_calls demo_session_env [(7, CallMessage (AssistantMsg throttled))] demo_talked = (Inr (), throttled_session)"
    by (simp add: throttled_session_def prod_eq_iff)
  have "session_ok demo_session_env throttled_session"
    using session_log.run_ok [OF run_calls_steps [OF run] demo_ok(2)] by simp
  then show ?thesis
    by (simp add: demo_recovery_env_def demo_recovery_def)
qed

text \<open>The same session with a response that overflowed, under an extension that compacts.\<close>

definition overflowed_response :: assistant_message where
  "overflowed_response = failed_response ''prompt is too long: 213462 tokens''"

definition overflowed_session :: session where
  "overflowed_session = snd (run_calls demo_session_env [(7, CallMessage (AssistantMsg overflowed_response))] demo_talked)"

definition demo_extension_env :: recovery_env where
  "demo_extension_env = demo_recovery_env\<lparr>
     rn_compactionSettings := \<lparr>cst_enabled = True, cst_reserveTokens = 0, cst_keepRecentTokens = 0\<rparr>,
     rn_modelForMessage := (\<lambda>_. Some \<lparr>ml_contextWindow = 100, ml_maxTokens = 10\<rparr>),
     rn_beforeCompact := (\<lambda>_ _ _ _. \<lparr>aw_value = Inr (UseCompaction \<lparr>sc_summary = ''so far'',
       sc_firstKeptEntryId = ''x-------'', sc_tokensBefore = 3, sc_usage = None, sc_details = None\<rparr>),
       aw_abortRequested = False, aw_queued = False\<rparr>)\<rparr>"

definition demo_overflow :: recovery where
  "demo_overflow = demo_recovery\<lparr>rv_session := overflowed_session,
     rv_lastAssistantMessage := Some (overflowed_response, Some ''xx------'')\<rparr>"

text \<open>
  C6: In any sequence of events, runs, aborts and queued messages, listeners see retries that
  follow their protocol: attempts are numbered from one without a gap and never exceed the
  setting, each with the delay of its number; an end closes exactly the attempt that is
  open; and the counter of the session is that attempt, zero when none is open.
\<close>

theorem retries_follow_protocol:
  assumes "rv_log r = []" and "rv_retryAttempt r = 0"
  shows "retry_scan (rn_retrySettings env) 0 (rv_log (fold (recover env) calls r))
       = Some (rv_retryAttempt (fold (recover env) calls r))
     \<and> rv_retryAttempt (fold (recover env) calls r) \<le> rt_maxRetries (rn_retrySettings env)"
  using retry_protocol.keeps_run [of env r calls] assms by (simp add: retries_ok_def)

theorem retries_follow_protocol_witness:
  "rv_log demo_recovery = [] \<and> rv_retryAttempt demo_recovery = 0
     \<and> length (rv_log (recover demo_recovery_env PostRun demo_recovery)) = 2
     \<and> retry_scan (rn_retrySettings demo_recovery_env) 0 (rv_log (fold (recover demo_recovery_env) [PostRun] demo_recovery))
       = Some (rv_retryAttempt (fold (recover demo_recovery_env) [PostRun] demo_recovery))"
proof -
  have "length (rv_log (recover demo_recovery_env PostRun demo_recovery)) = 2" by code_simp
  moreover have start: "rv_log demo_recovery = []" "rv_retryAttempt demo_recovery = 0" by (simp_all add: demo_recovery_def)
  ultimately show ?thesis using retries_follow_protocol [OF start, of demo_recovery_env "[PostRun]"] by simp
qed

text \<open>
  C13: Until a user message or a response that neither failed nor was cut off arrives, the
  session recovers at most once by compacting and running again, and not at all when it
  already did: an overflow that compacting does not cure cannot loop.
\<close>

theorem overflow_recovery_happens_once:
  assumes "\<And>e. Handle e \<in> set calls \<Longrightarrow> \<not> allows_recovery e"
  shows "recoveries (fold (recover env) calls r)
     \<le> recoveries r + (if rv_overflowRecoveryAttempted r then 0 else 1)"
proof -
  have "recovered_once (recoveries r) (rv_overflowRecoveryAttempted r) (fold (recover env) calls r)"
    by (rule overflow_once.keeps_run) (simp_all add: recovered_once_def assms)
  then show ?thesis by (auto simp: recovered_once_def of_bool_def split: if_splits)
qed

theorem overflow_recovery_happens_once_witness:
  "recoveries (recover demo_extension_env PostRun demo_overflow) = 1
     \<and> recoveries (fold (recover demo_extension_env) [PostRun] demo_overflow) \<le> recoveries demo_overflow + 1"
proof -
  have "recoveries (recover demo_extension_env PostRun demo_overflow) = 1" by code_simp
  moreover have "\<not> rv_overflowRecoveryAttempted demo_overflow" by (simp add: demo_overflow_def demo_recovery_def)
  moreover have "\<not> allows_recovery e" if "Handle e \<in> set [PostRun]" for e using that by simp
  ultimately show ?thesis using overflow_recovery_happens_once [of "[PostRun]" demo_extension_env demo_overflow] by simp
qed

text \<open>
  C7: When a failed response is retried, the retry is counted and the model's context is the
  old one without that response; the history still holds it, followed by one entry that
  omits it.
\<close>

theorem retry_omits_failed_response:
  assumes "session_ok (rn_session_env env) (rv_session r)" and "i \<noteq> []"
    and "prepareRetry env (m, Some i) r = (Inr True, r')"
  shows "\<exists>e p. getEntries (rv_session r') = getEntries (rv_session r) @ [e] \<and> se_kind e = ContextEdit i None
     \<and> sessionProjection (rv_session r) = Some p
     \<and> rv_messages r' = filter (\<lambda>ref. snd ref \<noteq> Some i) (projected_refs p)
     \<and> rv_retryAttempt r' = rv_retryAttempt r + 1"
proof -
  let ?s = "rn_retrySettings env" and ?n = "rv_retryAttempt r + 1"
  let ?q = "r\<lparr>rv_retryAttempt := ?n, rv_log := rv_log r @
      [AutoRetryStart ?n (rt_maxRetries ?s) (retryDelayMs ?s ?n) (retry_error m)]\<rparr>"
  let ?await = "bindp (rv_await (rn_sleep env (retryDelayMs ?s ?n)))
      (\<lambda>slept. if slept then ret True else seqp finishCancelledRetry (ret False))"
  have "seqp (omitRecoveryAttempt env [(AssistantMsg m, Some i)]) ?await ?q = (Inr True, r')"
    using assms(3) by (simp add: prepareRetry_def Let_def bindp_read seqp_update seqp_emit ret_def split: if_splits)
  then obtain v r1 where omit: "omitRecoveryAttempt env [(AssistantMsg m, Some i)] ?q = (Inr v, r1)"
    and await: "?await r1 = (Inr True, r')" by (rule seqp_InrE)
  from await have "r' = snd (rv_await (rn_sleep env (retryDelayMs ?s ?n)) r1)"
    by (auto simp: ret_def elim!: bindp_InrE seqp_InrE split: if_splits)
  then have same: "rv_session r' = rv_session r1" "rv_messages r' = rv_messages r1" "rv_retryAttempt r' = rv_retryAttempt r1"
    by (simp_all add: rv_await_def Let_def)
  have n: "rv_retryAttempt r1 = ?n"
    using keeps_apply [where I = "\<lambda>r. rv_retryAttempt r = ?n", OF attempt_base.keeps_omit _ omit] by simp
  have ids: "target_ids [(AssistantMsg m, Some i)] = [i]"
    using assms(2) by (simp add: target_ids_def List.map_filter_simps)
  have ok: "session_ok (rn_session_env env) (rv_session ?q)" using assms(1) by simp
  from omission_effect [OF ok omit] obtain p' where kept: "keeps_all_but [i] (rv_session r) (rv_session r1)"
    and p': "sessionProjection (rv_session r1) = Some p'" "rv_messages r1 = projected_refs p'" unfolding ids by auto
  from kept obtain e p where e: "getEntries (rv_session r1) = getEntries (rv_session r) @ [e]" "se_kind e = ContextEdit i None"
    and p: "sessionProjection (rv_session r) = Some p" "projected_refs p' = filter (\<lambda>ref. snd ref \<noteq> Some i) (projected_refs p)"
    unfolding keeps_all_but_def using p'(1) by (auto simp: Cons_eq_map_conv)
  show ?thesis
    using e p p'(2) n unfolding same by (intro exI [of _ e] exI [of _ p]) simp
qed

theorem retry_omits_failed_response_witness:
  "\<exists>r'. prepareRetry demo_recovery_env (throttled, Some ''xx------'') demo_recovery = (Inr True, r')
     \<and> length (getEntries (rv_session r')) = 3 \<and> rv_retryAttempt r' = 1"
proof -
  have "fst (prepareRetry demo_recovery_env (throttled, Some ''xx------'') demo_recovery) = Inr True" by code_simp
  then obtain r' where r': "prepareRetry demo_recovery_env (throttled, Some ''xx------'') demo_recovery = (Inr True, r')"
    by (metis prod.collapse)
  have "length (getEntries (rv_session demo_recovery)) = 2" "rv_retryAttempt demo_recovery = 0" by code_simp+
  with retry_omits_failed_response [OF demo_recovery_ok _ r'] r' show ?thesis by auto
qed

end
