(* ===== verification/Branch_Summary.thy ===== *)
theory Branch_Summary
  imports Compaction_Properties
begin

text \<open>
  Summaries of abandoned branches
  (\<open>packages/coding-agent/src/core/compaction/branch-summarization.ts\<close>): the entries between the
  old leaf and the deepest entry it shares with the target, the messages of them that fit a token
  budget, and the summary the model writes of them. The model call with its retries is the
  parameter \<open>request\<close> of the other summaries.
\<close>

section \<open>The abandoned branch\<close>

text \<open>The walk from the old leaf; the pushed entries, already reversed.\<close>

partial_function (option) collect_back ::
  "session \<Rightarrow> string option \<Rightarrow> string option \<Rightarrow> session_entry list \<Rightarrow> session_entry list option" where
  [code]: "collect_back s current commonAncestorId entries =
     (case current of
        None \<Rightarrow> Some entries
      | Some i \<Rightarrow>
          if i = [] \<or> current = commonAncestorId then Some entries
          else (case getEntry i s of
                  None \<Rightarrow> Some entries
                | Some e \<Rightarrow> collect_back s (se_parentId e) commonAncestorId (e # entries)))"

definition deepest_shared :: "session_entry list \<Rightarrow> session_entry list \<Rightarrow> string option" where
  "deepest_shared oldPath targetPath =
     map_option se_id (List.find (\<lambda>e. se_id e \<in> set (map se_id oldPath)) (rev targetPath))"

definition collectEntriesForBranchSummary ::
  "session \<Rightarrow> string option \<Rightarrow> string \<Rightarrow> (session_entry list \<times> string option) option" where
  "collectEntriesForBranchSummary s oldLeafId targetId =
     (if oldLeafId = None \<or> oldLeafId = Some [] then Some ([], None)
      else case getBranch oldLeafId s of
             None \<Rightarrow> None
           | Some oldPath \<Rightarrow>
               (case getBranch (Some targetId) s of
                  None \<Rightarrow> None
                | Some targetPath \<Rightarrow>
                    let commonAncestorId = deepest_shared oldPath targetPath
                    in map_option (\<lambda>entries. (entries, commonAncestorId))
                         (collect_back s oldLeafId commonAncestorId [])))"

section \<open>Messages within a budget\<close>

text \<open>Tool results and the entries that are not part of the conversation have no message.\<close>

definition branch_message :: "session_entry \<Rightarrow> agent_message option" where
  "branch_message e =
     (case se_kind e of
        MessageEntry (ToolResultMsg _) \<Rightarrow> None
      | MessageEntry m \<Rightarrow> Some m
      | CustomMessageEntry ct c details display \<Rightarrow>
          Some (CustomMsg (createCustomMessage ct c display details (se_timestamp e)))
      | BranchSummary b \<Rightarrow>
          Some (BranchSummaryMsg (createBranchSummaryMessage (br_summary b) (br_fromId b) (se_timestamp e)))
      | Compaction c \<Rightarrow>
          Some (CompactionSummaryMsg
            (createCompactionSummaryMessage (co_summary c) (co_tokensBefore c) (se_timestamp e)))
      | _ \<Rightarrow> None)"

record branch_preparation =
  bp_messages :: "agent_message list"
  bp_fileOps :: file_operations
  bp_totalTokens :: nat

definition nested_summary_files :: "session_entry list \<Rightarrow> file_operations" where
  "nested_summary_files entries =
     fold (\<lambda>e ops. case se_kind e of
             BranchSummary b \<Rightarrow> add_details (br_details b) (br_fromHook b) ops | _ \<Rightarrow> ops)
       entries createFileOps"

fun is_summary_entry :: "entry_kind \<Rightarrow> bool" where
  "is_summary_entry (Compaction _) = True"
| "is_summary_entry (BranchSummary _) = True"
| "is_summary_entry _ = False"

definition take_message :: "agent_message \<Rightarrow> branch_preparation \<Rightarrow> branch_preparation" where
  "take_message m p =
     p\<lparr>bp_messages := m # bp_messages p, bp_totalTokens := bp_totalTokens p + estimateTokens m\<rparr>"

text \<open>The second pass, over the entries from the newest to the oldest.\<close>

fun branch_walk :: "int \<Rightarrow> session_entry list \<Rightarrow> branch_preparation \<Rightarrow> branch_preparation" where
  "branch_walk tokenBudget [] p = p"
| "branch_walk tokenBudget (e # older) p =
     (case branch_message e of
        None \<Rightarrow> branch_walk tokenBudget older p
      | Some m \<Rightarrow>
          let p' = p\<lparr>bp_fileOps := extractFileOpsFromMessage m (bp_fileOps p)\<rparr>
          in if tokenBudget > 0 \<and> int (bp_totalTokens p + estimateTokens m) > tokenBudget
             then if is_summary_entry (se_kind e) \<and> 10 * int (bp_totalTokens p) < 9 * tokenBudget
                  then take_message m p'
                  else p'
             else branch_walk tokenBudget older (take_message m p'))"

definition prepareBranchEntries :: "session_entry list \<Rightarrow> int \<Rightarrow> branch_preparation" where
  "prepareBranchEntries entries tokenBudget =
     branch_walk tokenBudget (rev entries)
       \<lparr>bp_messages = [], bp_fileOps = nested_summary_files entries, bp_totalTokens = 0\<rparr>"

section \<open>The summary\<close>

definition BRANCH_SUMMARY_PREAMBLE :: string where
  "BRANCH_SUMMARY_PREAMBLE =
     js_join [NL]
      [''The user explored a different conversation branch before returning here.'',
       ''Summary of that exploration:'',
       [],
       []]"

definition BRANCH_SUMMARY_PROMPT :: string where
  "BRANCH_SUMMARY_PROMPT =
     js_join [NL]
      [''Create a structured summary of this conversation branch for context when returning later.'',
       [],
       ''Use this EXACT format:'',
       [],
       ''## Goal'',
       ''[What was the user trying to accomplish in this branch?]'',
       [],
       ''## Constraints & Preferences'',
       ''- [Any constraints, preferences, or requirements mentioned]'',
       ''- [Or '' @ [DQ] @ ''(none)'' @ [DQ] @ '' if none were mentioned]'',
       [],
       ''## Progress'',
       ''### Done'',
       ''- [x] [Completed tasks/changes]'',
       [],
       ''### In Progress'',
       ''- [ ] [Work that was started but not finished]'',
       [],
       ''### Blocked'',
       ''- [Issues preventing progress, if any]'',
       [],
       ''## Key Decisions'',
       ''- **[Decision]**: [Brief rationale]'',
       [],
       ''## Next Steps'',
       ''1. [What should happen next to continue this work]'',
       [],
       ''Keep each section concise. Preserve exact file paths, function names, and error messages.'']"

record branch_summary_options =
  bo_contextWindow :: nat
  bo_maxTokens :: nat
  bo_customInstructions :: "string option"
  bo_replaceInstructions :: bool
  bo_reserveTokens :: nat

datatype branch_summary_result =
    NoBranchContent string
  | BranchSummarized string "usage option" "string list" "string list"
  | BranchAborted
  | BranchFailed string

definition branch_token_budget :: "branch_summary_options \<Rightarrow> int" where
  "branch_token_budget options =
     int (if bo_contextWindow options = 0 then 128000 else bo_contextWindow options) - int (bo_reserveTokens options)"

definition branch_instructions :: "branch_summary_options \<Rightarrow> string" where
  "branch_instructions options =
     (let custom = (case bo_customInstructions options of Some c \<Rightarrow> c | None \<Rightarrow> [])
      in if custom = [] then BRANCH_SUMMARY_PROMPT
         else if bo_replaceInstructions options then custom
         else BRANCH_SUMMARY_PROMPT @ [NL, NL] @ ''Additional focus: '' @ custom)"

definition branch_prompt :: "agent_message list \<Rightarrow> branch_summary_options \<Rightarrow> string" where
  "branch_prompt messages options =
     ''<conversation>'' @ [NL] @ serializeConversation (convertToLlm messages) @ [NL] @ ''</conversation>'' @
     [NL, NL] @ branch_instructions options"

definition branch_result :: "file_operations \<Rightarrow> assistant_message \<Rightarrow> branch_summary_result" where
  "branch_result ops response =
     (if am_stopReason response = StopAborted then BranchAborted
      else case checked_summary ''Branch summarization'' response of
             Inl failure \<Rightarrow> BranchFailed failure
           | Inr (summary, u) \<Rightarrow>
               (case computeFileLists ops of
                  (readFiles, modifiedFiles) \<Rightarrow>
                    BranchSummarized
                      (BRANCH_SUMMARY_PREAMBLE @ summary @ formatFileOperations readFiles modifiedFiles)
                      u readFiles modifiedFiles))"

definition generateBranchSummary ::
  "'w completion \<Rightarrow> int \<Rightarrow> session_entry list \<Rightarrow> branch_summary_options \<Rightarrow> ('w, branch_summary_result) prog" where
  "generateBranchSummary request now entries options =
     (let p = prepareBranchEntries entries (branch_token_budget options)
      in if bp_messages p = [] then ret (NoBranchContent ''No content to summarize'')
         else bindp (request (buildSummarizationContext (branch_prompt (bp_messages p) options) now)
                      (limit_tokens 4096 (bo_maxTokens options)))
                (\<lambda>response. ret (branch_result (bp_fileOps p) response)))"

section \<open>Two branches\<close>

lemma collect_back_path:
  assumes "linear_from p xs" and "\<And>e. e \<in> set xs \<Longrightarrow> map_of (ss_byId s) (se_id e) = Some e \<and> se_id e \<noteq> []"
    and "\<And>e. e \<in> set xs \<Longrightarrow> Some (se_id e) \<noteq> ancestor" and "p = None \<or> p = ancestor"
  shows "collect_back s (if xs = [] then p else Some (se_id (last xs))) ancestor acc = Some (xs @ acc)"
  using assms(1,2,3)
proof (induction xs arbitrary: acc rule: rev_induct)
  case Nil
  then show ?case using assms(4) by (cases p) (auto simp: collect_back.simps)
next
  case (snoc e xs)
  have parent: "se_parentId e = (if xs = [] then p else Some (se_id (last xs)))" and "linear_from p xs"
    using snoc.prems(1) by (simp_all add: linear_from_snoc)
  then have "collect_back s (se_parentId e) ancestor (e # acc) = Some (xs @ e # acc)"
    unfolding parent by (intro snoc.IH) (use snoc.prems in auto)
  moreover have "map_of (ss_byId s) (se_id e) = Some e" "se_id e \<noteq> []" "Some (se_id e) \<noteq> ancestor"
    using snoc.prems(2,3) by simp_all
  ultimately show ?case
    by (subst collect_back.simps) (simp add: getEntry_def)
qed

lemma linear_from_suffix:
  "linear_from p (xs @ ys) \<Longrightarrow> linear_from (if xs = [] then p else Some (se_id (last xs))) ys"
  by (induction xs arbitrary: p) auto

lemma find_first: "\<forall>x \<in> set xs. \<not> P x \<Longrightarrow> P y \<Longrightarrow> List.find P (xs @ y # ys) = Some y"
  by (induction xs) simp_all

text \<open>Two paths of a history share a first part; after it they have nothing in common.\<close>

lemma paths_part:
  assumes "rooted es"
  obtains shared old new where "path_to es t = shared @ old" and "path_to es u = shared @ new"
    and "ids_of old \<inter> ids_of (path_to es u) = {}" and "ids_of new \<inter> ids_of (path_to es t) = {}"
    and "deepest_shared (path_to es t) (path_to es u) = (if shared = [] then None else Some (se_id (last shared)))"
proof (cases "\<exists>y \<in> set (path_to es u). se_id y \<in> ids_of (path_to es t)")
  case False
  then have "List.find (\<lambda>e. se_id e \<in> set (map se_id (path_to es t))) (rev (path_to es u)) = None"
    by (auto simp: find_None_iff)
  moreover have "ids_of (path_to es u) \<inter> ids_of (path_to es t) = {}" using False by blast
  ultimately show ?thesis by (intro that [of "[]"]) (auto simp: deepest_shared_def)
next
  case True
  from split_list_last_prop [OF this] obtain y ys xs where u: "path_to es u = ys @ y # xs"
    and y: "se_id y \<in> ids_of (path_to es t)" and none: "\<forall>x \<in> set xs. se_id x \<notin> ids_of (path_to es t)" by blast
  from y obtain z q1 q2 where z: "se_id z = se_id y" "path_to es t = q1 @ z # q2"
    by (metis (no_types, lifting) imageE split_list)
  have mem: "y \<in> set es" "z \<in> set es" using u z set_path_to [of es u] set_path_to [of es t] by auto
  have "z = y" using z(1) mem rooted_distinct [OF assms] by (auto simp: distinct_map dest: inj_onD)
  then have t: "path_to es t = q1 @ y # q2" using z(2) by simp
  have "q1 = ys" using path_before [OF assms t] path_before [OF assms u] by simp
  then have t': "path_to es t = (ys @ [y]) @ q2" using t by simp
  have xs: "ids_of xs \<inter> ids_of (path_to es t) = {}" using none by blast
  have "ids_of q2 \<inter> ids_of (ys @ [y]) = {}" using distinct_path_to [OF assms, of t] unfolding t' by auto
  moreover have "ids_of q2 \<inter> ids_of xs = {}" using xs unfolding t' by auto
  ultimately have "ids_of q2 \<inter> ids_of (path_to es u) = {}" unfolding u by (simp add: image_Un Int_Un_distrib)
  moreover note xs
  moreover have "deepest_shared (path_to es t) (path_to es u) = Some (se_id y)"
    using find_first [of "rev xs" "\<lambda>e. se_id e \<in> set (map se_id (path_to es t))" y "rev ys"] none y
    by (simp add: deepest_shared_def u)
  ultimately show ?thesis using t' u by (intro that [of "ys @ [y]" q2 xs]) simp_all
qed

text \<open>
  C17: Leaving a branch for another entry collects exactly what only the old branch has: both
  branches start with the same entries, the collected ones are all that follow them on the old
  branch, none of them is on the target's branch, and the reported ancestor is the last entry
  the branches share. The walk always ends.
\<close>

theorem collects_abandoned_branch:
  assumes "session_ok env s" and "i \<in> ids_of (getEntries s)"
  shows "\<exists>shared old new. getBranch (Some i) s = Some (shared @ old) \<and> getBranch (Some target) s = Some (shared @ new)
     \<and> ids_of old \<inter> ids_of (shared @ new) = {} \<and> ids_of new \<inter> ids_of (shared @ old) = {}
     \<and> collectEntriesForBranchSummary s (Some i) target
         = Some (old, if shared = [] then None else Some (se_id (last shared)))"
proof -
  have wf: "session_wf env s" using assms(1) by (simp add: session_ok_def)
  let ?es = "getEntries s"
  from wf have r: "rooted ?es" and ix: "ss_byId s = index_of ?es" by (auto elim: session_wf_getEntries)
  obtain shared old new where part: "path_to ?es (Some i) = shared @ old" "path_to ?es (Some target) = shared @ new"
    "ids_of old \<inter> ids_of (shared @ new) = {}" "ids_of new \<inter> ids_of (shared @ old) = {}"
    "deepest_shared (shared @ old) (shared @ new) = (if shared = [] then None else Some (se_id (last shared)))"
    using paths_part [OF r, of "Some i" "Some target"] by metis
  let ?a = "if shared = [] then None else Some (se_id (last shared))"
  have "i \<noteq> []" using assms(2) rooted_nonempty_id [OF r] by blast
  have last_i: "se_id (last (shared @ old)) = i" "shared @ old \<noteq> []"
    using path_to_last [OF r assms(2)] part(1) by auto
  have "linear_from ?a old"
    using linear_from_suffix [of None shared old] path_to_linear [OF r, of "Some i"] part(1) by simp
  moreover have "map_of (ss_byId s) (se_id e) = Some e \<and> se_id e \<noteq> []" if "e \<in> set old" for e
    using that set_path_to [of ?es "Some i"] part(1) lookup_index_of [OF r] rooted_id_nonempty [OF r] ix by auto
  moreover have "Some (se_id e) \<noteq> ?a" if "e \<in> set old" for e
    using that part(3) by (auto dest!: last_in_set)
  ultimately have "collect_back s (if old = [] then ?a else Some (se_id (last old))) ?a [] = Some (old @ [])"
    by (rule collect_back_path) (assumption | rule disjI2 [OF refl])+
  moreover have "(if old = [] then ?a else Some (se_id (last old))) = Some i" using last_i by auto
  ultimately have "collect_back s (Some i) ?a [] = Some old" by simp
  then show ?thesis
    using part \<open>i \<noteq> []\<close> getBranch_eq [OF wf, of "Some i"] getBranch_eq [OF wf, of "Some target"]
    by (intro exI [of _ shared] exI [of _ old] exI [of _ new])
      (simp add: collectEntriesForBranchSummary_def Let_def)
qed

definition demo_forked :: session where
  "demo_forked = snd (run_calls demo_session_env
     [(8, CallMessage demo_second), (9, CallBranch ''x-------''), (10, CallMessage demo_second)] demo_talked)"

theorem collects_abandoned_branch_witness:
  "\<exists>shared old new. getBranch (Some ''xx------'') demo_forked = Some (shared @ old)
     \<and> getBranch (Some ''xxx-----'') demo_forked = Some (shared @ new)
     \<and> collectEntriesForBranchSummary demo_forked (Some ''xx------'') ''xxx-----''
         = Some (old, if shared = [] then None else Some (se_id (last shared)))
     \<and> length old = 1"
proof -
  let ?calls = "[(8, CallMessage demo_second), (9, CallBranch ''x-------''), (10, CallMessage demo_second)]"
  have "fst (run_calls demo_session_env ?calls demo_talked) = Inr ()" by code_simp
  then have run: "run_calls demo_session_env ?calls demo_talked = (Inr (), demo_forked)"
    by (simp add: demo_forked_def prod_eq_iff)
  have ok: "session_ok demo_session_env demo_forked"
    using session_log.run_ok [OF run_calls_steps [OF run] demo_ok(2)] by simp
  have "list_ex (\<lambda>e. se_id e = ''xx------'') (getEntries demo_forked)" by code_simp
  then have known: "''xx------'' \<in> ids_of (getEntries demo_forked)" by (force simp: list_ex_iff)
  have one: "map_option (length \<circ> fst) (collectEntriesForBranchSummary demo_forked (Some ''xx------'') ''xxx-----'') = Some 1"
    by code_simp
  from collects_abandoned_branch [OF ok known, of "''xxx-----''"] obtain shared old new where
    "getBranch (Some ''xx------'') demo_forked = Some (shared @ old)"
    "getBranch (Some ''xxx-----'') demo_forked = Some (shared @ new)"
    "collectEntriesForBranchSummary demo_forked (Some ''xx------'') ''xxx-----''
         = Some (old, if shared = [] then None else Some (se_id (last shared)))" by blast
  with one show ?thesis by (intro exI [of _ shared] exI [of _ old] exI [of _ new]) simp
qed

section \<open>What fits the budget\<close>

text \<open>The entries that have a message, each with it.\<close>

definition spoken :: "session_entry list \<Rightarrow> (session_entry \<times> agent_message) list" where
  "spoken entries = List.map_filter (\<lambda>e. map_option (Pair e) (branch_message e)) entries"

lemma spoken_snoc:
  "spoken (es @ [e]) = spoken es @ (case branch_message e of None \<Rightarrow> [] | Some m \<Rightarrow> [(e, m)])"
  by (simp add: spoken_def map_filter_append List.map_filter_simps split: option.split)

text \<open>A budget that is zero or negative is no limit.\<close>

definition fits_budget :: "int \<Rightarrow> agent_message list \<Rightarrow> bool" where
  "fits_budget budget ms \<longleftrightarrow> budget \<le> 0 \<or> int (total_tokens ms) \<le> budget"

text \<open>
  What is chosen when \<open>newest\<close> are the messages taken so far and \<open>older\<close> the rest: the first of
  the rest joins them although it does not fit when it is a summary and less than nine tenths
  of the budget are used.
\<close>

definition chosen ::
  "int \<Rightarrow> (session_entry \<times> agent_message) list \<Rightarrow> agent_message list \<Rightarrow> agent_message list" where
  "chosen budget older newest =
     (if older \<noteq> [] \<and> is_summary_entry (se_kind (fst (last older))) \<and> 10 * int (total_tokens newest) < 9 * budget
      then snd (last older) # newest else newest)"

definition runs_out :: "int \<Rightarrow> (session_entry \<times> agent_message) list \<Rightarrow> agent_message list \<Rightarrow> bool" where
  "runs_out budget older newest \<longleftrightarrow>
     fits_budget budget newest \<and> (older \<noteq> [] \<longrightarrow> \<not> fits_budget budget (snd (last older) # newest))"

lemma total_tokens_Cons: "total_tokens (m # ms) = estimateTokens m + total_tokens ms"
  by (simp add: total_tokens_def)

lemma branch_walk_spec:
  assumes "bp_totalTokens p = total_tokens (bp_messages p)" and "fits_budget budget (bp_messages p)"
  shows "\<exists>older newest. spoken (rev es) = older @ newest
     \<and> runs_out budget older (map snd newest @ bp_messages p)
     \<and> bp_messages (branch_walk budget es p) = chosen budget older (map snd newest @ bp_messages p)
     \<and> bp_totalTokens (branch_walk budget es p) = total_tokens (bp_messages (branch_walk budget es p))"
  using assms
proof (induction es arbitrary: p)
  case Nil
  then show ?case by (simp add: spoken_def List.map_filter_simps runs_out_def chosen_def)
next
  case (Cons e es)
  show ?case
  proof (cases "branch_message e")
    case None
    with Cons show ?thesis by (simp add: spoken_snoc)
  next
    case (Some m)
    let ?p = "p\<lparr>bp_fileOps := extractFileOpsFromMessage m (bp_fileOps p)\<rparr>"
    let ?q = "take_message m ?p"
    have ms: "spoken (rev (e # es)) = spoken (rev es) @ [(e, m)]"
      using Some by (simp add: spoken_snoc)
    have over: "\<not> fits_budget budget (bp_messages ?q) \<longleftrightarrow>
        budget > 0 \<and> int (bp_totalTokens p + estimateTokens m) > budget"
      using Cons.prems(1) by (auto simp: fits_budget_def take_message_def total_tokens_Cons)
    show ?thesis
    proof (cases "fits_budget budget (bp_messages ?q)")
      case False
      with over Some Cons.prems have "bp_messages (branch_walk budget (e # es) p) =
          chosen budget (spoken (rev es) @ [(e, m)]) (bp_messages p)"
        "bp_totalTokens (branch_walk budget (e # es) p) = total_tokens (bp_messages (branch_walk budget (e # es) p))"
        by (auto simp: chosen_def take_message_def Let_def total_tokens_Cons)
      moreover have "runs_out budget (spoken (rev es) @ [(e, m)]) (bp_messages p)"
        using False Cons.prems by (simp add: runs_out_def take_message_def)
      ultimately show ?thesis
        unfolding ms by (intro exI [of _ "spoken (rev es) @ [(e, m)]"] exI [of _ "[]"]) simp
    next
      case True
      have "bp_totalTokens ?q = total_tokens (bp_messages ?q)"
        using Cons.prems by (simp add: take_message_def total_tokens_Cons)
      from Cons.IH [OF this True] obtain older newest where
        "spoken (rev es) = older @ newest" "runs_out budget older (map snd newest @ bp_messages ?q)"
        "bp_messages (branch_walk budget es ?q) = chosen budget older (map snd newest @ bp_messages ?q)"
        "bp_totalTokens (branch_walk budget es ?q) = total_tokens (bp_messages (branch_walk budget es ?q))" by blast
      moreover have "branch_walk budget (e # es) p = branch_walk budget es ?q" using Some True over by (auto simp: Let_def)
      moreover have "map snd newest @ bp_messages ?q = map snd (newest @ [(e, m)]) @ bp_messages p"
        by (simp add: take_message_def)
      ultimately show ?thesis
        unfolding ms by (intro exI [of _ older] exI [of _ "newest @ [(e, m)]"]) simp
    qed
  qed
qed

text \<open>
  C18: The messages to summarize are the longest run of the branch's newest messages that fits
  the budget, in order, with their token count; the one message before them, which does not
  fit, is taken as well exactly when it comes from a compaction or branch summary entry and
  less than nine tenths of the budget are used. A budget that is zero or negative, as for a
  model whose context window is no larger than the reserve, takes every message, however long
  the branch is.
\<close>

theorem branch_messages_fit_budget:
  "\<exists>older newest. spoken entries = older @ newest
     \<and> runs_out budget older (map snd newest)
     \<and> bp_messages (prepareBranchEntries entries budget) = chosen budget older (map snd newest)
     \<and> bp_totalTokens (prepareBranchEntries entries budget) = total_tokens (bp_messages (prepareBranchEntries entries budget))
     \<and> (if budget \<le> 0 then older = [] else True)"
proof -
  let ?start = "\<lparr>bp_messages = [], bp_fileOps = nested_summary_files entries, bp_totalTokens = 0\<rparr>"
  have "bp_totalTokens ?start = total_tokens (bp_messages ?start)" "fits_budget budget (bp_messages ?start)"
    by (auto simp: total_tokens_def fits_budget_def)
  from branch_walk_spec [OF this, of "rev entries"] show ?thesis
    unfolding prepareBranchEntries_def by (auto simp: runs_out_def fits_budget_def)
qed

text \<open>The walk passes over tool results, so the calls a tool made, which they record, leave no trace in the
  file lists of a branch summary, while compaction tracks them.\<close>

lemma nested_calls_are_missed:
  assumes "se_kind e = MessageEntry (ToolResultMsg m)"
  shows "prepareBranchEntries [e] budget = \<lparr>bp_messages = [], bp_fileOps = createFileOps, bp_totalTokens = 0\<rparr>"
  using assms by (simp add: prepareBranchEntries_def branch_message_def nested_summary_files_def)

end
