(* ===== verification/Tree_Navigation.thy ===== *)
theory Tree_Navigation
  imports Recovery_Properties Branch_Summary
begin

text \<open>
  Moving to another entry of the session tree: \<open>navigateTree\<close> of
  \<open>packages/coding-agent/src/core/agent-session.ts\<close>. The answer of the extensions and the model
  call are awaited; restoring the tools a transcript declares is left out.
\<close>

section \<open>Summarizing what is left\<close>

record tree_options =
  to_summarize :: bool
  to_customInstructions :: "string option"
  to_replaceInstructions :: bool
  to_label :: "string option"

record tree_interception =
  ti_cancel :: bool
  ti_summary :: "(string \<times> json option \<times> usage option) option"
  ti_customInstructions :: "string option"
  ti_replaceInstructions :: "bool option"
  ti_label :: "string option"

record tree_preparation =
  tp_targetId :: string
  tp_oldLeafId :: "string option"
  tp_commonAncestorId :: "string option"
  tp_entriesToSummarize :: "session_entry list"

record tree_env =
  te_recovery :: recovery_env
  te_isStreaming :: "recovery \<Rightarrow> bool"
  te_isCompacting :: "recovery \<Rightarrow> bool"
  te_beforeTree :: "tree_preparation \<Rightarrow> tree_options \<Rightarrow> recovery \<Rightarrow> tree_interception exc awaited"
  te_request :: "agent_message list \<Rightarrow> nat \<Rightarrow> recovery \<Rightarrow> assistant_message exc awaited"
  te_reserveTokens :: nat

text \<open>The summary that is saved: its text, details and usage, and whether it is from an extension.\<close>

record tree_summary =
  ts_text :: string
  ts_details :: "json option"
  ts_usage :: "usage option"
  ts_fromExtension :: bool

definition with_interception :: "tree_interception \<Rightarrow> tree_options \<Rightarrow> tree_options" where
  "with_interception i options =
     options\<lparr>to_customInstructions :=
               (case ti_customInstructions i of None \<Rightarrow> to_customInstructions options | Some c \<Rightarrow> Some c),
             to_replaceInstructions :=
               (case ti_replaceInstructions i of None \<Rightarrow> to_replaceInstructions options | Some b \<Rightarrow> b),
             to_label := (case ti_label i of None \<Rightarrow> to_label options | Some l \<Rightarrow> Some l)\<rparr>"

definition branch_options :: "tree_env \<Rightarrow> tree_options \<Rightarrow> branch_summary_options" where
  "branch_options env options =
     \<lparr>bo_contextWindow = (case rn_model (te_recovery env) of Some m \<Rightarrow> ml_contextWindow m | None \<Rightarrow> 0),
      bo_maxTokens = (case rn_model (te_recovery env) of Some m \<Rightarrow> ml_maxTokens m | None \<Rightarrow> 0),
      bo_customInstructions = to_customInstructions options,
      bo_replaceInstructions = to_replaceInstructions options,
      bo_reserveTokens = te_reserveTokens env\<rparr>"

definition file_details :: "string list \<Rightarrow> string list \<Rightarrow> json" where
  "file_details readFiles modifiedFiles =
     JObj [(''readFiles'', JArr (map JStr readFiles)), (''modifiedFiles'', JArr (map JStr modifiedFiles))]"

text \<open>\<open>None\<close> when the summary was aborted.\<close>

definition default_summary ::
  "tree_env \<Rightarrow> tree_options \<Rightarrow> session_entry list \<Rightarrow> (recovery, tree_summary option) prog" where
  "default_summary env options entries =
     bindp (readp (rn_now (te_recovery env))) (\<lambda>now.
     bindp (generateBranchSummary (\<lambda>context maxTokens. bindp (rv_await (te_request env context maxTokens)) liftp)
              now entries (branch_options env options)) (\<lambda>result.
       case result of
         BranchAborted \<Rightarrow> ret None
       | BranchFailed e \<Rightarrow> throw e
       | NoBranchContent text \<Rightarrow>
           ret (Some \<lparr>ts_text = text, ts_details = Some (file_details [] []), ts_usage = None, ts_fromExtension = False\<rparr>)
       | BranchSummarized text u readFiles modifiedFiles \<Rightarrow>
           ret (Some \<lparr>ts_text = text, ts_details = Some (file_details readFiles modifiedFiles), ts_usage = u,
                     ts_fromExtension = False\<rparr>)))"

text \<open>The outer \<open>None\<close> of the result is an aborted summary, the inner one none at all.\<close>

definition tree_summary_of ::
  "tree_env \<Rightarrow> tree_options \<Rightarrow> tree_interception \<Rightarrow> session_entry list \<Rightarrow> (recovery, tree_summary option option) prog" where
  "tree_summary_of env options i entries =
     (case (to_summarize options, ti_summary i) of
        (True, Some (text, details, u)) \<Rightarrow>
          ret (Some (if text = [] then None
                     else Some \<lparr>ts_text = text, ts_details = details, ts_usage = u, ts_fromExtension = True\<rparr>))
      | (True, None) \<Rightarrow>
          if entries = [] then ret (Some None)
          else bindp (default_summary env options entries) (\<lambda>summary. ret (map_option Some summary))
      | (False, _) \<Rightarrow> ret (Some None))"

section \<open>Moving the leaf\<close>

text \<open>The new leaf and the text for the editor: what the user wrote is edited again from its parent.\<close>

definition navigation_target :: "session_entry \<Rightarrow> (string option \<times> string option) exc" where
  "navigation_target e =
     (case se_kind e of
        MessageEntry (UserMsg m) \<Rightarrow> map_sum id (\<lambda>text. (se_parentId e, Some text)) (content_text (um_content m) [])
      | CustomMessageEntry ct c details display \<Rightarrow> map_sum id (\<lambda>text. (se_parentId e, Some text)) (content_text c [])
      | _ \<Rightarrow> Inr (Some (se_id e), None))"

definition append_label :: "tree_env \<Rightarrow> string \<Rightarrow> string option \<Rightarrow> (recovery, unit) prog" where
  "append_label env targetId label =
     (case label of
        None \<Rightarrow> ret ()
      | Some l \<Rightarrow>
          if l = [] then ret ()
          else bindp (on_session (\<lambda>r. appendLabelChange (rn_session_env (te_recovery env)) (rn_now (te_recovery env) r) targetId (Some l)))
                 (\<lambda>_. ret ()))"

definition move_leaf ::
  "tree_env \<Rightarrow> string \<Rightarrow> string option \<Rightarrow> tree_summary option \<Rightarrow> string option \<Rightarrow> (recovery, session_entry option) prog" where
  "move_leaf env targetId newLeafId summary label =
     (case summary of
        Some t \<Rightarrow>
          bindp (on_session (\<lambda>r. branchWithSummary (rn_session_env (te_recovery env)) (rn_now (te_recovery env) r) newLeafId
                   (ts_text t) (ts_details t) (Some (ts_fromExtension t)) (ts_usage t)))
            (\<lambda>e. seqp (append_label env (se_id e) label) (ret (Some e)))
      | None \<Rightarrow>
          seqp (case newLeafId of
                  None \<Rightarrow> rv_update (\<lambda>r. r\<lparr>rv_session := resetLeaf (rv_session r)\<rparr>)
                | Some i \<Rightarrow> on_session (\<lambda>_. branch i))
            (seqp (append_label env targetId label) (ret None)))"

section \<open>Navigation\<close>

datatype navigation_result =
    Navigated "string option" "session_entry option"
  | NavigationCancelled bool

definition navigate_to ::
  "tree_env \<Rightarrow> string option \<Rightarrow> session_entry \<Rightarrow> tree_options \<Rightarrow> tree_summary option \<Rightarrow> (recovery, navigation_result) prog" where
  "navigate_to env oldLeafId target options summary =
     bindp (liftp (navigation_target target)) (\<lambda>(newLeafId, editorText).
     bindp (move_leaf env (se_id target) newLeafId summary (to_label options)) (\<lambda>summaryEntry.
     seqp refreshFinalizedContext
    (bindp (readp (\<lambda>r. ss_leafId (rv_session r))) (\<lambda>leaf.
     seqp (rv_emit (SessionTree leaf oldLeafId summaryEntry (map_option ts_fromExtension summary)))
          (ret (Navigated editorText summaryEntry))))))"

definition navigateTree :: "tree_env \<Rightarrow> string \<Rightarrow> tree_options \<Rightarrow> (recovery, navigation_result) prog" where
  "navigateTree env targetId options =
     bindp (readp id) (\<lambda>r.
       let oldLeafId = ss_leafId (rv_session r)
       in if te_isStreaming env r
          then throw ''Wait for the current response to finish before navigating the session tree.''
          else if te_isCompacting env r
          then throw ''Wait for the current compaction or tree navigation to finish before navigating the session tree.''
          else if oldLeafId = Some targetId then ret (Navigated None None)
          else if to_summarize options \<and> rn_model (te_recovery env) = None
          then throw ''No model available for summarization''
          else (case getEntry targetId (rv_session r) of
             None \<Rightarrow> throw (''Entry '' @ targetId @ '' not found'')
           | Some target \<Rightarrow>
               (case collectEntriesForBranchSummary (rv_session r) oldLeafId targetId of
                  None \<Rightarrow> throw STUCK
                | Some (entries, commonAncestorId) \<Rightarrow>
                    bindp (bindp (rv_await (te_beforeTree env
                        \<lparr>tp_targetId = targetId, tp_oldLeafId = oldLeafId, tp_commonAncestorId = commonAncestorId,
                         tp_entriesToSummarize = entries\<rparr> options)) liftp) (\<lambda>i.
                      if ti_cancel i then ret (NavigationCancelled False)
                      else bindp (tree_summary_of env (with_interception i options) i entries) (\<lambda>summary.
                        case summary of
                          None \<Rightarrow> ret (NavigationCancelled True)
                        | Some s \<Rightarrow> navigate_to env oldLeafId target (with_interception i options) s)))))"

section \<open>What the model sees after a move\<close>

lemma on_session_eq:
  "on_session f r = (res, r') \<longleftrightarrow> (\<exists>s. f r (rv_session r) = (res, s) \<and> r' = r\<lparr>rv_session := s\<rparr>)"
  by (auto simp: on_session_def split: prod.split)

text \<open>From \<open>s\<close> the session went to \<open>leaf\<close>, and the messages \<open>ms\<close> have been added there.\<close>

definition reached ::
  "session_env \<Rightarrow> session \<Rightarrow> string option \<Rightarrow> agent_message list \<Rightarrow> session \<Rightarrow> bool" where
  "reached env s leaf ms s' \<longleftrightarrow>
     session_ok env s' \<and> prefix (getEntries s) (getEntries s')
     \<and> (\<exists>sx sx'. sessionContext (s\<lparr>ss_leafId := leaf\<rparr>) = Some sx \<and> sessionContext s' = Some sx'
           \<and> sx_messages sx' = sx_messages sx @ ms)"

lemma reached_leaf: "session_ok env s \<Longrightarrow> leaf_in leaf (getEntries s) \<Longrightarrow> reached env s leaf [] (s\<lparr>ss_leafId := leaf\<rparr>)"
  using sessionContext_eq [OF session_wf_leaf, of env s leaf]
  by (auto simp: reached_def session_ok_def session_wf_leaf)

lemma reached_append:
  assumes "reached env s leaf ms s1" and "appends env e s1 s2"
    and "\<not> is_compaction (se_kind e)" and "\<not> is_edit (se_kind e)"
  shows "reached env s leaf (ms @ sessionEntryToContextMessages e) s2"
proof -
  have wf: "session_wf env s1" "uuid_ok (sv_uuid env)" using assms(1) by (simp_all add: reached_def session_ok_def)
  have "edit_ok p (se_kind e)" for p using assms(4) by (auto simp: edit_ok_def is_edit_def)
  from appends_wf [OF assms(2) wf(1) this] have wf2: "session_wf env s2" .
  show ?thesis
    using appends_context [OF assms(2) wf(1) wf2 assms(3,4)] appends_fields(2) [OF assms(2)] assms(1) wf wf2
    by (auto simp: reached_def session_ok_def prefix_def)
qed

lemma sessionContext_index_label: "sessionContext (index_label t lb ts s) = sessionContext s"
  by (simp add: sessionContext_def sessionProjection_def leaf_of_def)

lemma reached_index_label: "reached env s leaf ms s' \<Longrightarrow> reached env s leaf ms (index_label t lb ts s')"
  by (simp add: reached_def session_ok_def sessionContext_index_label)

lemma append_label_reached:
  assumes "reached (rn_session_env (te_recovery env)) s leaf ms (rv_session r)" and "append_label env t label r = (Inr u, r')"
  shows "reached (rn_session_env (te_recovery env)) s leaf ms (rv_session r')"
proof (cases "label = None \<or> label = Some []")
  case True
  with assms show ?thesis by (auto simp: append_label_def ret_def)
next
  case False
  let ?env = "rn_session_env (te_recovery env)" and ?now = "rn_now (te_recovery env) r"
  from False assms(2) obtain l e s2 where l: "appendLabelChange ?env ?now t (Some l) (rv_session r) = (Inr e, s2)"
    and s2: "rv_session r' = s2"
    by (auto simp: append_label_def on_session_eq ret_def elim!: bindp_InrE split: option.splits if_splits)
  have "session_ok ?env (rv_session r)" using assms(1) by (simp add: reached_def)
  then show ?thesis using l
  proof (cases rule: appendLabelChange_cases)
    case (labelled e' s1)
    have "reached ?env s leaf (ms @ sessionEntryToContextMessages e') s1"
      using labelled(2) by (intro reached_append [OF assms(1) labelled(1)]) (simp_all add: is_edit_def)
    with labelled(2,6) s2 show ?thesis by (simp add: sessionEntryToContextMessages_def reached_index_label)
  qed simp_all
qed

lemma branchWithSummary_reached:
  assumes "session_ok env s" and "branchWithSummary env now leaf t d h u s = (Inr b, s')"
  shows "reached env s leaf (sessionEntryToContextMessages b) s'"
proof -
  have wf: "uuid_ok (sv_uuid env)" "session_wf env s" using assms(1) by (simp_all add: session_ok_def)
  obtain bd where k: "appendKind env now (BranchSummary bd) (s\<lparr>ss_leafId := leaf\<rparr>) = (Inr b, s')"
    and known: "leaf_in leaf (getEntries s)"
    using assms(2) byId_ids [OF wf(2)] by (auto simp: branchWithSummary_def split: option.splits if_splits)
  obtain e where e: "appends env e (s\<lparr>ss_leafId := leaf\<rparr>) s'" "se_kind e = BranchSummary bd" "se_timestamp e = now"
    "Inr b = (Inr e :: session_entry exc) \<and> wrote env e (s\<lparr>ss_leafId := leaf\<rparr>) s' \<or> (\<exists>err. (Inr b :: session_entry exc) = Inl err)"
    by (rule appendKind_appends [OF wf(1) session_wf_leaf [OF wf(2) known] k])
  have "reached env s leaf ([] @ sessionEntryToContextMessages e) s'"
    using e(2) by (intro reached_append [OF reached_leaf [OF assms(1) known] e(1)]) (simp_all add: is_edit_def)
  with e(4) show ?thesis by simp
qed

definition summary_messages :: "session_entry option \<Rightarrow> agent_message list" where
  "summary_messages b = (case b of None \<Rightarrow> [] | Some e \<Rightarrow> sessionEntryToContextMessages e)"

lemma go_to_leaf:
  assumes "session_ok env (rv_session r)"
    and "(case leaf of None \<Rightarrow> rv_update (\<lambda>r. r\<lparr>rv_session := resetLeaf (rv_session r)\<rparr>)
          | Some i \<Rightarrow> on_session (\<lambda>_. branch i)) r = (Inr u, r')"
  shows "reached env (rv_session r) leaf [] (rv_session r')"
proof -
  have "leaf_in leaf (getEntries (rv_session r)) \<and> rv_session r' = (rv_session r)\<lparr>ss_leafId := leaf\<rparr>"
    using assms(2) byId_ids [of env "rv_session r"] assms(1)
    by (cases leaf) (auto simp: on_session_eq rv_update_def resetLeaf_def branch_def session_ok_def split: if_splits)
  with reached_leaf [OF assms(1)] show ?thesis by simp
qed

lemma move_leaf_reached:
  assumes "session_ok (rn_session_env (te_recovery env)) (rv_session r)"
    and "move_leaf env t leaf summary label r = (Inr b, r')"
  shows "reached (rn_session_env (te_recovery env)) (rv_session r) leaf (summary_messages b) (rv_session r')"
proof (cases summary)
  case None
  with assms(2) obtain u r1 v where 1: "(case leaf of None \<Rightarrow> rv_update (\<lambda>r. r\<lparr>rv_session := resetLeaf (rv_session r)\<rparr>)
          | Some i \<Rightarrow> on_session (\<lambda>_. branch i)) r = (Inr u, r1)"
    and 2: "append_label env t label r1 = (Inr v, r')" and b: "b = None"
    by (auto simp: move_leaf_def ret_def elim!: seqp_InrE)
  from append_label_reached [OF go_to_leaf [OF assms(1) 1] 2] b show ?thesis by (simp add: summary_messages_def)
next
  case (Some x)
  with assms(2) obtain e r1 v where 1: "on_session (\<lambda>r. branchWithSummary (rn_session_env (te_recovery env))
        (rn_now (te_recovery env) r) leaf (ts_text x) (ts_details x) (Some (ts_fromExtension x)) (ts_usage x)) r = (Inr e, r1)"
    and 2: "append_label env (se_id e) label r1 = (Inr v, r')" and b: "b = Some e"
    by (auto simp: move_leaf_def ret_def elim!: bindp_InrE seqp_InrE)
  from 1 have "reached (rn_session_env (te_recovery env)) (rv_session r) leaf (sessionEntryToContextMessages e) (rv_session r1)"
    by (auto simp: on_session_eq intro!: branchWithSummary_reached [OF assms(1)])
  from append_label_reached [OF this 2] b show ?thesis by (simp add: summary_messages_def)
qed

lemma projected_refs_messages: "map fst (projected_refs p) = concat (map pe_messages (sp_entries p))"
  by (simp add: projected_refs_def map_concat comp_def)

lemma refreshed_messages:
  assumes "refreshFinalizedContext r = (Inr u, r')" and "sessionContext (rv_session r) = Some sx" and "session_ok env (rv_session r)"
  shows "map fst (rv_messages r') = sx_messages sx \<and> rv_session r' = rv_session r"
proof -
  have wf: "session_wf env (rv_session r)" using assms(3) by (simp add: session_ok_def)
  show ?thesis
    using assms(1,2) sessionProjection_eq [OF wf] sessionContext_eq [OF wf]
    by (auto simp: refreshFinalizedContext_def projected_refs_messages projected_messages_def project_path_def Let_def
        split: prod.splits)
qed

lemma navigate_to_shows:
  assumes "session_ok (rn_session_env (te_recovery env)) (rv_session r)"
    and "navigate_to env old e options summary r = (Inr (Navigated text b), r')"
  shows "\<exists>leaf sx. navigation_target e = Inr (leaf, text)
     \<and> session_ok (rn_session_env (te_recovery env)) (rv_session r') \<and> prefix (getEntries (rv_session r)) (getEntries (rv_session r'))
     \<and> sessionContext ((rv_session r)\<lparr>ss_leafId := leaf\<rparr>) = Some sx
     \<and> map fst (rv_messages r') = sx_messages sx @ summary_messages b"
proof -
  from assms(2) obtain leaf r1 u r2 where t: "navigation_target e = Inr (leaf, text)"
    and m: "move_leaf env (se_id e) leaf summary (to_label options) r = (Inr b, r1)"
    and f: "refreshFinalizedContext r1 = (Inr u, r2)" and r': "rv_messages r' = rv_messages r2" "rv_session r' = rv_session r2"
    by (auto simp: navigate_to_def liftp_def ret_def readp_def rv_emit_def elim!: bindp_InrE seqp_InrE)
  from move_leaf_reached [OF assms(1) m] obtain sx sx' where
    s: "session_ok (rn_session_env (te_recovery env)) (rv_session r1)" "prefix (getEntries (rv_session r)) (getEntries (rv_session r1))"
    "sessionContext ((rv_session r)\<lparr>ss_leafId := leaf\<rparr>) = Some sx" "sessionContext (rv_session r1) = Some sx'"
    "sx_messages sx' = sx_messages sx @ summary_messages b" by (auto simp: reached_def)
  from refreshed_messages [OF f s(4) s(1)] s t r' show ?thesis by auto
qed

text \<open>Until the leaf moves, nothing changes the session.\<close>

lemma keeps_generate:
  assumes "\<And>context n. keeps I (request context n)"
  shows "keeps I (generateBranchSummary request now entries options)"
  unfolding generateBranchSummary_def Let_def by (auto intro!: keeps_intros assms)

lemma keeps_summary: "keeps (\<lambda>r. rv_session r = s) (tree_summary_of env options i entries)"
proof -
  have await: "keeps (\<lambda>r. rv_session r = s) (rv_await f)" for f :: "recovery \<Rightarrow> 'a awaited"
    by (rule keeps_rv_await) simp
  show ?thesis
    unfolding tree_summary_of_def default_summary_def
    by (auto intro!: keeps_intros await keeps_generate split: option.split branch_summary_result.split bool.split)
qed

lemma navigateTree_cases:
  assumes "navigateTree env target options r = (Inr (Navigated text b), r')" and "ss_leafId (rv_session r) \<noteq> Some target"
  obtains e opts summary r1 where "getEntry target (rv_session r) = Some e" and "rv_session r1 = rv_session r"
    and "navigate_to env (ss_leafId (rv_session r)) e opts summary r1 = (Inr (Navigated text b), r')"
proof -
  let ?cont = "\<lambda>e i opts entries. bindp (tree_summary_of env opts i entries)
      (\<lambda>summary. case summary of None \<Rightarrow> ret (NavigationCancelled True)
         | Some x \<Rightarrow> navigate_to env (ss_leafId (rv_session r)) e opts x)"
  from assms obtain e entries a p i r0 where e: "getEntry target (rv_session r) = Some e"
    and w: "bindp (rv_await (te_beforeTree env p options)) liftp r = (Inr i, r0)"
    and c: "?cont e i (with_interception i options) entries r0 = (Inr (Navigated text b), r')"
    by (auto simp: navigateTree_def bindp_read throw_def ret_def Let_def elim!: bindp_InrE [of "bindp _ _"]
        split: if_splits option.splits)
  have "rv_session r0 = rv_session r"
    using w by (auto simp: rv_await_def liftp_def Let_def elim!: bindp_InrE)
  moreover from c obtain summary r1 where t: "tree_summary_of env (with_interception i options) i entries r0 = (Inr summary, r1)"
    and n: "(case summary of None \<Rightarrow> ret (NavigationCancelled True)
         | Some x \<Rightarrow> navigate_to env (ss_leafId (rv_session r)) e (with_interception i options) x) r1 = (Inr (Navigated text b), r')"
    by (rule bindp_InrE)
  moreover have "rv_session r1 = rv_session r0" by (rule keeps_apply [OF keeps_summary refl t])
  ultimately show thesis using e that by (auto simp: ret_def split: option.splits)
qed

text \<open>What is edited again instead of being shown.\<close>

definition put_back :: "entry_kind \<Rightarrow> content option" where
  "put_back k = (case k of MessageEntry (UserMsg m) \<Rightarrow> Some (um_content m) | CustomMessageEntry ct c details display \<Rightarrow> Some c | _ \<Rightarrow> None)"

lemma map_sum_Inr: "map_sum id f x = Inr y \<longleftrightarrow> (\<exists>z. x = Inr z \<and> y = f z)"
  by (cases x) auto

lemma navigation_target_eq:
  "navigation_target e = Inr (leaf, text) \<Longrightarrow>
     (case put_back (se_kind e) of None \<Rightarrow> leaf = Some (se_id e) \<and> text = None
      | Some c \<Rightarrow> leaf = se_parentId e \<and> (\<exists>t. content_text c [] = Inr t \<and> text = Some t))"
  by (auto simp: navigation_target_def put_back_def map_sum_Inr split: entry_kind.splits agent_message.splits)

text \<open>
  C16: Navigating to another entry of the session tree shows the model exactly what the session
  was there: a user's or an extension's message is put back into the editor and the leaf is its
  parent, any other entry becomes the leaf; the agent's messages are the context of that leaf,
  followed by the summary of what was left when one was saved. The history keeps every entry
  and stays well-formed.
\<close>

theorem navigation_shows_target:
  assumes "session_ok (rn_session_env (te_recovery env)) (rv_session r)"
    and "navigateTree env target options r = (Inr (Navigated text b), r')" and "ss_leafId (rv_session r) \<noteq> Some target"
  shows "\<exists>e leaf sx. e \<in> set (getEntries (rv_session r)) \<and> se_id e = target
     \<and> (case put_back (se_kind e) of None \<Rightarrow> leaf = Some target \<and> text = None
         | Some c \<Rightarrow> leaf = se_parentId e \<and> (\<exists>t. content_text c [] = Inr t \<and> text = Some t))
     \<and> session_ok (rn_session_env (te_recovery env)) (rv_session r') \<and> prefix (getEntries (rv_session r)) (getEntries (rv_session r'))
     \<and> sessionContext ((rv_session r)\<lparr>ss_leafId := leaf\<rparr>) = Some sx
     \<and> map fst (rv_messages r') = sx_messages sx @ summary_messages b"
proof -
  from navigateTree_cases [OF assms(2,3)] obtain e opts summary r1 where e: "getEntry target (rv_session r) = Some e"
    and same: "rv_session r1 = rv_session r"
    and n: "navigate_to env (ss_leafId (rv_session r)) e opts summary r1 = (Inr (Navigated text b), r')" .
  have ix: "ss_byId (rv_session r) = index_of (getEntries (rv_session r))"
    using assms(1) by (auto simp: session_ok_def elim: session_wf_getEntries)
  with e have at: "e \<in> set (getEntries (rv_session r))" "se_id e = target"
    by (auto simp: getEntry_def index_of_def dest: map_of_SomeD)
  from navigate_to_shows [OF _ n] assms(1) same obtain leaf sx where t: "navigation_target e = Inr (leaf, text)"
    and "session_ok (rn_session_env (te_recovery env)) (rv_session r')" "prefix (getEntries (rv_session r)) (getEntries (rv_session r'))"
    and "sessionContext ((rv_session r)\<lparr>ss_leafId := leaf\<rparr>) = Some sx"
    and "map fst (rv_messages r') = sx_messages sx @ summary_messages b" by auto
  with at navigation_target_eq [OF t] show ?thesis by (intro exI [of _ e] exI [of _ leaf] exI [of _ sx]) (simp split: option.splits)
qed

definition demo_tree_env :: tree_env where
  "demo_tree_env =
     \<lparr>te_recovery = demo_recovery_env, te_isStreaming = (\<lambda>_. False), te_isCompacting = (\<lambda>_. False),
      te_beforeTree = (\<lambda>_ _ _. \<lparr>aw_value = Inr \<lparr>ti_cancel = False, ti_summary = Some (''tried it'', None, None),
        ti_customInstructions = None, ti_replaceInstructions = None, ti_label = None\<rparr>,
        aw_abortRequested = False, aw_queued = False\<rparr>),
      te_request = (\<lambda>_ _ _. \<lparr>aw_value = Inl ''offline'', aw_abortRequested = False, aw_queued = False\<rparr>),
      te_reserveTokens = 0\<rparr>"

theorem navigation_shows_target_witness:
  "\<exists>b r'. navigateTree demo_tree_env ''x-------''
       \<lparr>to_summarize = True, to_customInstructions = None, to_replaceInstructions = False, to_label = Some ''left''\<rparr> demo_recovery
       = (Inr (Navigated (Some ''hi'') (Some b)), r')
     \<and> map fst (rv_messages r') = summary_messages (Some b)"
proof -
  let ?nav = "navigateTree demo_tree_env ''x-------''
       \<lparr>to_summarize = True, to_customInstructions = None, to_replaceInstructions = False, to_label = Some ''left''\<rparr> demo_recovery"
  have "(case fst ?nav of Inr (Navigated (Some t) (Some b)) \<Rightarrow> t = ''hi'' | _ \<Rightarrow> False)" by code_simp
  then obtain b where "fst ?nav = Inr (Navigated (Some ''hi'') (Some b))"
    by (auto split: sum.splits navigation_result.splits option.splits)
  then obtain r' where r': "?nav = (Inr (Navigated (Some ''hi'') (Some b)), r')" by (metis prod.collapse)
  have ok: "session_ok (rn_session_env (te_recovery demo_tree_env)) (rv_session demo_recovery)"
    using demo_recovery_ok by (simp add: demo_tree_env_def)
  have leaf: "ss_leafId (rv_session demo_recovery) \<noteq> Some ''x-------''" by code_simp
  have "list_all (\<lambda>e. se_id e \<noteq> ''x-------'' \<or> put_back (se_kind e) \<noteq> None \<and> se_parentId e = None) (getEntries (rv_session demo_recovery))"
    by code_simp
  moreover have "map_option sx_messages (sessionContext ((rv_session demo_recovery)\<lparr>ss_leafId := None\<rparr>)) = Some []" by code_simp
  ultimately show ?thesis using navigation_shows_target [OF ok r' leaf] r' by (auto simp: list_all_iff)
qed

end
