(* ===== verification/Delta.thy ===== *)
theory Delta
  imports Js_Json
begin

text \<open>
  Operations on JSON values (\<open>packages/chord/src/delta/index.ts\<close>): paths and their checks, the
  applier, and the codec that interns paths for a boundary. A value is a tree, so replacing a
  part of it stands for the mutation of the part in place. Numbers in operations are integers,
  and strings are lists of code units.
\<close>

section \<open>Operations\<close>

text \<open>A segment of a path, a string or a number.\<close>

datatype seg = Key string | Index int

type_synonym delta_path = "seg list"

text \<open>The tuples \<open>r\<close>, \<open>s\<close>, \<open>d\<close>, \<open>a\<close>, \<open>t\<close>, \<open>p\<close> and \<open>m\<close>.\<close>

datatype delta_op =
    OpReplace json
  | OpSet delta_path json
  | OpDelete delta_path
  | OpAppend delta_path string
  | OpTruncate delta_path int
  | OpSplice delta_path int int "json list"
  | OpReorder delta_path "int list"

fun isReplace :: "delta_op \<Rightarrow> bool" where
  "isReplace (OpReplace v) = True"
| "isReplace _ = False"

definition isBase :: "delta_op list \<Rightarrow> bool" where
  "isBase ops \<longleftrightarrow> ops \<noteq> [] \<and> isReplace (hd ops)"

section \<open>Errors\<close>

fun seg_text :: "seg \<Rightarrow> string" where
  "seg_text (Key k) = k"
| "seg_text (Index i) = dec_int i"

text \<open>\<open>JSON.stringify(path)\<close>\<close>

fun seg_json :: "seg \<Rightarrow> string" where
  "seg_json (Key k) = json_quote k"
| "seg_json (Index i) = dec_int i"

definition pathKey :: "delta_path \<Rightarrow> string" where
  "pathKey path = ''['' @ js_join '','' (map seg_json path) @ '']''"

definition UnsafePathError :: "seg \<Rightarrow> js_error" where
  "UnsafePathError s = ''unsafe path segment: '' @ seg_text s"

definition PathError :: "delta_path \<Rightarrow> js_error" where
  "PathError path = ''unresolvable path: '' @ pathKey path"

definition bind_exc :: "'a exc \<Rightarrow> ('a \<Rightarrow> 'b exc) \<Rightarrow> 'b exc" where
  "bind_exc r f = (case r of Inl e \<Rightarrow> Inl e | Inr x \<Rightarrow> f x)"

lemma bind_exc_simps [simp]: "bind_exc (Inl e) f = Inl e" "bind_exc (Inr x) f = f x"
  by (simp_all add: bind_exc_def)

lemma bind_exc_Inr_iff: "bind_exc r f = Inr y \<longleftrightarrow> (\<exists>x. r = Inr x \<and> f x = Inr y)"
  by (cases r) simp_all

lemma bind_exc_cong [fundef_cong]:
  "r = r' \<Longrightarrow> (\<And>x. r' = Inr x \<Longrightarrow> f x = f' x) \<Longrightarrow> bind_exc r f = bind_exc r' f'"
  by (cases r') simp_all

section \<open>Checks\<close>

definition RESERVED_SEGMENTS :: "string list" where
  "RESERVED_SEGMENTS = [''__proto__'', ''constructor'', ''prototype'']"

fun unsafe_seg :: "seg \<Rightarrow> bool" where
  "unsafe_seg (Key k) = (k \<in> set RESERVED_SEGMENTS)"
| "unsafe_seg (Index i) = (i < 0)"

definition assertSafePath :: "delta_path \<Rightarrow> unit exc" where
  "assertSafePath path =
     (case List.find unsafe_seg path of Some s \<Rightarrow> Inl (UnsafePathError s) | None \<Rightarrow> Inr ())"

definition assertPathArg :: "delta_path \<Rightarrow> bool \<Rightarrow> unit exc" where
  "assertPathArg path nonEmpty = (if nonEmpty \<and> path = [] then Inl ''path is empty'' else assertSafePath path)"

fun all_new_indices :: "int \<Rightarrow> int list \<Rightarrow> int list \<Rightarrow> bool" where
  "all_new_indices n seen [] = True"
| "all_new_indices n seen (i # is) = (0 \<le> i \<and> i < n \<and> i \<notin> set seen \<and> all_new_indices n (i # seen) is)"

definition assertPermutation :: "int list \<Rightarrow> unit exc" where
  "assertPermutation perm =
     (if all_new_indices (int (length perm)) [] perm then Inr () else Inl ''m permutation is not a bijection'')"

fun assertValidOp :: "delta_op \<Rightarrow> unit exc" where
  "assertValidOp (OpReplace v) = Inr ()"
| "assertValidOp (OpSet path v) = assertPathArg path True"
| "assertValidOp (OpDelete path) = assertPathArg path True"
| "assertValidOp (OpAppend path s) = assertPathArg path True"
| "assertValidOp (OpTruncate path n) = (if n < 0 then Inl ''t shape'' else assertPathArg path True)"
| "assertValidOp (OpSplice path i r items) =
     bind_exc (assertPathArg path False) (\<lambda>_.
       if i < 0 then Inl ''p index'' else if r < 0 then Inl ''p remove'' else Inr ())"
| "assertValidOp (OpReorder path perm) =
     bind_exc (assertPathArg path False) (\<lambda>_. assertPermutation perm)"

section \<open>The applier\<close>

text \<open>An own property of a container; \<open>full\<close> is the path an error names.\<close>

definition own_child :: "delta_path \<Rightarrow> json \<Rightarrow> seg \<Rightarrow> json exc" where
  "own_child full v s =
     (case v of
        JArr xs \<Rightarrow>
          (case s of
             Key k \<Rightarrow> Inl (UnsafePathError s)
           | Index i \<Rightarrow> if 0 \<le> i \<and> i < int (length xs) then Inr (xs ! nat i) else Inl (PathError full))
      | JObj kvs \<Rightarrow>
          (case map_of kvs (seg_text s) of Some c \<Rightarrow> Inr c | None \<Rightarrow> Inl (PathError full))
      | _ \<Rightarrow> Inl (PathError full))"

definition put_child :: "json \<Rightarrow> seg \<Rightarrow> json \<Rightarrow> json" where
  "put_child v s c =
     (case v of
        JArr xs \<Rightarrow>
          (case s of
             Key k \<Rightarrow> v
           | Index i \<Rightarrow> if i = int (length xs) then JArr (xs @ [c]) else JArr (xs[nat i := c]))
      | JObj kvs \<Rightarrow> JObj (AList.update (seg_text s) c kvs)
      | _ \<Rightarrow> v)"

fun is_container :: "json \<Rightarrow> bool" where
  "is_container (JArr xs) = True"
| "is_container (JObj kvs) = True"
| "is_container _ = False"

text \<open>\<open>resolve\<close> of a path, and what is done to the container there.\<close>

fun resolve_and :: "delta_path \<Rightarrow> (json \<Rightarrow> json exc) \<Rightarrow> delta_path \<Rightarrow> json \<Rightarrow> json exc" where
  "resolve_and full f [] v = (if is_container v then f v else Inl (PathError full))"
| "resolve_and full f (s # path) v =
     bind_exc (own_child full v s) (\<lambda>c. bind_exc (resolve_and full f path c) (\<lambda>c'. Inr (put_child v s c')))"

definition splice_at :: "int \<Rightarrow> int \<Rightarrow> 'a list \<Rightarrow> 'a list \<Rightarrow> 'a list" where
  "splice_at i r items xs = take (nat i) xs @ items @ drop (nat i + nat r) xs"

definition splice_value :: "delta_path \<Rightarrow> int \<Rightarrow> int \<Rightarrow> json list \<Rightarrow> json \<Rightarrow> json exc" where
  "splice_value path i r items v =
     (case v of JArr xs \<Rightarrow> Inr (JArr (splice_at i r items xs)) | _ \<Rightarrow> Inl (PathError path))"

definition reorder_value :: "delta_path \<Rightarrow> int list \<Rightarrow> json \<Rightarrow> json exc" where
  "reorder_value path perm v =
     (case v of
        JArr xs \<Rightarrow>
          if length xs = length perm then Inr (JArr (map (\<lambda>i. xs ! nat i) perm)) else Inl (PathError path)
      | _ \<Rightarrow> Inl (PathError path))"

text \<open>The checks of a key before a write, and the write of \<open>s\<close>.\<close>

definition check_key :: "json \<Rightarrow> seg \<Rightarrow> unit exc" where
  "check_key parent key =
     (case parent of
        JArr xs \<Rightarrow>
          (case key of
             Key k \<Rightarrow> Inl (UnsafePathError key)
           | Index i \<Rightarrow> if i > int (length xs) then Inl (UnsafePathError key) else Inr ())
      | _ \<Rightarrow> Inr ())"

definition delete_child :: "delta_path \<Rightarrow> seg \<Rightarrow> json \<Rightarrow> json exc" where
  "delete_child path key parent =
     (case parent of
        JArr xs \<Rightarrow>
          (case key of
             Key k \<Rightarrow> Inl (PathError path)
           | Index i \<Rightarrow> if i \<ge> int (length xs) then Inl (PathError path)
                        else Inr (JArr (splice_at i 1 [] xs)))
      | JObj kvs \<Rightarrow> Inr (JObj (AList.delete (seg_text key) kvs))
      | _ \<Rightarrow> Inr parent)"

definition edit_string :: "delta_path \<Rightarrow> seg \<Rightarrow> (string \<Rightarrow> string) \<Rightarrow> json \<Rightarrow> json exc" where
  "edit_string path key f parent =
     (case own_child path parent key of
        Inr (JStr s) \<Rightarrow> Inr (put_child parent key (JStr (f s)))
      | _ \<Rightarrow> Inl (PathError path))"

definition at_parent :: "delta_path \<Rightarrow> (seg \<Rightarrow> json \<Rightarrow> json exc) \<Rightarrow> json \<Rightarrow> json exc" where
  "at_parent path f doc =
     resolve_and (butlast path)
       (\<lambda>parent. bind_exc (check_key parent (last path)) (\<lambda>_. f (last path) parent)) (butlast path) doc"

fun apply_op :: "delta_op \<Rightarrow> json \<Rightarrow> json exc" where
  "apply_op (OpReplace v) doc = Inr v"
| "apply_op (OpSplice path i r items) doc = resolve_and path (splice_value path i r items) path doc"
| "apply_op (OpReorder path perm) doc = resolve_and path (reorder_value path perm) path doc"
| "apply_op (OpSet path v) doc = at_parent path (\<lambda>key parent. Inr (put_child parent key v)) doc"
| "apply_op (OpDelete path) doc = at_parent path (delete_child path) doc"
| "apply_op (OpAppend path s) doc = at_parent path (\<lambda>key. edit_string path key (\<lambda>t. t @ s)) doc"
| "apply_op (OpTruncate path n) doc = at_parent path (\<lambda>key. edit_string path key (drop (nat n))) doc"

fun applyOps :: "delta_op list \<Rightarrow> json \<Rightarrow> json exc" where
  "applyOps [] doc = Inr doc"
| "applyOps (op # ops) doc =
     bind_exc (assertValidOp op) (\<lambda>_. bind_exc (apply_op op doc) (applyOps ops))"

section \<open>The immutable applier\<close>

text \<open>\<open>Object.hasOwn\<close> of an array and a string: its length and its indices.\<close>

definition array_has :: "json list \<Rightarrow> string \<Rightarrow> bool" where
  "array_has xs k \<longleftrightarrow> k = ''length'' \<or> list_ex (\<lambda>i. k = dec i) [0..<length xs]"

text \<open>\<open>copyContainers\<close> copies the containers of a path, which leaves the value as it is; what
  remains is its check of the path.\<close>

fun copyContainers :: "delta_path \<Rightarrow> delta_path \<Rightarrow> json \<Rightarrow> unit exc" where
  "copyContainers full path v =
     (if \<not> is_container v then Inl (PathError full)
      else case path of
        [] \<Rightarrow> Inr ()
      | s # rest \<Rightarrow>
          (case (v, s) of
             (JArr xs, Key k) \<Rightarrow> if array_has xs k then Inl (UnsafePathError s) else Inl (PathError full)
           | _ \<Rightarrow> bind_exc (own_child full v s) (copyContainers full rest)))"

declare copyContainers.simps [simp del]

text \<open>The walk of \<open>appendCopy\<close> to the array and back; \<open>None\<close> takes the general path.\<close>

fun appendCopy :: "delta_path \<Rightarrow> int \<Rightarrow> json list \<Rightarrow> json \<Rightarrow> json option" where
  "appendCopy [] i items v =
     (case v of JArr xs \<Rightarrow> if i = int (length xs) then Some (JArr (xs @ items)) else None | _ \<Rightarrow> None)"
| "appendCopy (s # path) i items v =
     (case (v, s) of
        (JObj kvs, Key k) \<Rightarrow>
          if k \<in> set RESERVED_SEGMENTS then None
          else (case map_of kvs k of
                  None \<Rightarrow> None
                | Some c \<Rightarrow> map_option (\<lambda>c'. JObj (AList.update k c' kvs)) (appendCopy path i items c))
      | (JArr xs, Index n) \<Rightarrow>
          if 0 \<le> n \<and> n < int (length xs)
          then map_option (\<lambda>c'. JArr (xs[nat n := c'])) (appendCopy path i items (xs ! nat n))
          else None
      | _ \<Rightarrow> None)"

text \<open>The containers an operation makes its own before it is applied.\<close>

fun copied_path :: "delta_op \<Rightarrow> delta_path" where
  "copied_path (OpReplace v) = []"
| "copied_path (OpSplice path i r items) = path"
| "copied_path (OpReorder path perm) = path"
| "copied_path (OpSet path v) = butlast path"
| "copied_path (OpDelete path) = butlast path"
| "copied_path (OpAppend path s) = butlast path"
| "copied_path (OpTruncate path n) = butlast path"

definition apply_general :: "delta_op \<Rightarrow> json \<Rightarrow> json exc" where
  "apply_general op doc =
     bind_exc (copyContainers (copied_path op) (copied_path op) doc) (\<lambda>_. applyOps [op] doc)"

fun apply_immutable_op :: "bool \<Rightarrow> delta_op \<Rightarrow> json \<Rightarrow> json exc" where
  "apply_immutable_op owned (OpReplace v) doc = Inr v"
| "apply_immutable_op owned (OpSplice path i r items) doc =
     (case (if r = 0 \<and> \<not> owned then appendCopy path i items doc else None) of
        Some v \<Rightarrow> Inr v
      | None \<Rightarrow> apply_general (OpSplice path i r items) doc)"
| "apply_immutable_op owned op doc = apply_general op doc"

text \<open>
  All batches as one replay. \<open>owned n\<close> says whether the replay had already copied the array that
  its \<open>n\<close>th operation appends to, which decides how the append is built.
\<close>

fun applyImmutableBatches :: "(nat \<Rightarrow> bool) \<Rightarrow> delta_op list \<Rightarrow> json \<Rightarrow> json exc" where
  "applyImmutableBatches owned [] doc = Inr doc"
| "applyImmutableBatches owned (op # ops) doc =
     bind_exc (assertValidOp op) (\<lambda>_. bind_exc (apply_immutable_op (owned 0) op doc)
       (applyImmutableBatches (owned \<circ> Suc) ops))"

lemma copyContainers_resolve:
  "resolve_and full f path v = Inr v' \<Longrightarrow> copyContainers full' path v = Inr ()"
proof (induction path arbitrary: v v')
  case (Cons s path)
  then obtain c c' where c: "own_child full v s = Inr c" "resolve_and full f path c = Inr c'" "is_container v"
    by (auto simp: bind_exc_Inr_iff own_child_def split: json.splits)
  then have "own_child full' v s = Inr c" "\<And>xs k. \<not> (v = JArr xs \<and> s = Key k)"
    by (auto simp: own_child_def split: json.splits seg.splits option.splits if_splits)
  with c Cons.IH [OF c(2)] show ?case by (auto simp: copyContainers.simps [of _ "s # path"] split: json.splits seg.splits)
qed (auto simp: copyContainers.simps split: if_splits)

lemma apply_op_resolves: "apply_op op doc = Inr v \<Longrightarrow> isReplace op \<or> copyContainers full (copied_path op) doc = Inr ()"
  by (cases op) (auto simp: at_parent_def intro: copyContainers_resolve)

lemma applyOps_single: "applyOps [op] doc = bind_exc (assertValidOp op) (\<lambda>_. apply_op op doc)"
  by (cases "assertValidOp op"; cases "apply_op op doc") simp_all

lemma apply_general_eq:
  "assertValidOp op = Inr () \<Longrightarrow> \<not> isReplace op \<Longrightarrow> apply_general op doc = Inr v \<longleftrightarrow> apply_op op doc = Inr v"
  using apply_op_resolves [of op doc v] by (auto simp: apply_general_def bind_exc_Inr_iff applyOps_single)

lemma appendCopy_eq:
  "appendCopy path i items doc = Some v \<Longrightarrow> resolve_and full (splice_value full i 0 items) path doc = Inr v"
proof (induction path i items doc arbitrary: v rule: appendCopy.induct)
  case (2 s path i items doc)
  then show ?case
    by (auto simp: own_child_def put_child_def bind_exc_Inr_iff split: json.splits seg.splits if_splits option.splits)
qed (auto simp: splice_value_def splice_at_def split: json.splits if_splits)

lemma apply_immutable_op_eq:
  "assertValidOp op = Inr () \<Longrightarrow> apply_immutable_op owned op doc = Inr v \<longleftrightarrow> apply_op op doc = Inr v"
proof (cases op)
  case (OpSplice path i r items)
  assume "assertValidOp op = Inr ()"
  then show ?thesis
    using apply_general_eq [of op doc v] appendCopy_eq [of path i items doc _ path] OpSplice
    by (auto split: option.splits if_splits)
qed (simp_all add: apply_general_eq)

text \<open>
  C0: The immutable applier, with its copies and its short way for appends, gives what applying
  the operations one after the other to a mutable value gives, and fails when that fails,
  whichever arrays it has copied before.
\<close>

theorem immutable_apply_is_apply:
  "applyImmutableBatches owned ops doc = Inr v \<longleftrightarrow> applyOps ops doc = Inr v"
proof (induction ops arbitrary: owned doc)
  case (Cons op ops)
  show ?case
  proof (cases "assertValidOp op")
    case (Inr u)
    then show ?thesis using Cons apply_immutable_op_eq [of op "owned 0" doc] by (auto simp: bind_exc_Inr_iff)
  qed simp
qed simp

section \<open>The codec\<close>

text \<open>A path on the wire: inline or an id; the short tuples reuse the path of the operation before.\<close>

datatype wire_ref = PathRef delta_path | IdRef int

datatype wire_op =
    WireReplace json
  | WireSet "wire_ref option" json
  | WireDelete "wire_ref option"
  | WireAppend "wire_ref option" string
  | WireTruncate "wire_ref option" int
  | WireSplice "wire_ref option" int int "json list"
  | WireReorder "wire_ref option" "int list"
  | WireDefine int delta_path

record encoder =
  en_seen :: "string list"
  en_ids :: "(string, int) jsmap"
  en_nextId :: int

definition new_encoder :: encoder where
  "new_encoder = \<lparr>en_seen = [], en_ids = [], en_nextId = 0\<rparr>"

text \<open>The path and the tuple of an operation that has one.\<close>

fun op_path :: "delta_op \<Rightarrow> delta_path option" where
  "op_path (OpReplace v) = None"
| "op_path (OpSet path v) = Some path"
| "op_path (OpDelete path) = Some path"
| "op_path (OpAppend path s) = Some path"
| "op_path (OpTruncate path n) = Some path"
| "op_path (OpSplice path i r items) = Some path"
| "op_path (OpReorder path perm) = Some path"

fun wire_tuple :: "delta_op \<Rightarrow> wire_ref option \<Rightarrow> wire_op" where
  "wire_tuple (OpReplace v) ref = WireReplace v"
| "wire_tuple (OpSet path v) ref = WireSet ref v"
| "wire_tuple (OpDelete path) ref = WireDelete ref"
| "wire_tuple (OpAppend path s) ref = WireAppend ref s"
| "wire_tuple (OpTruncate path n) ref = WireTruncate ref n"
| "wire_tuple (OpSplice path i r items) ref = WireSplice ref i r items"
| "wire_tuple (OpReorder path perm) ref = WireReorder ref perm"

text \<open>A path is inline at its first use, defined at its second, and an id after that.\<close>

definition encode_ref :: "encoder \<Rightarrow> delta_path \<Rightarrow> wire_op list \<times> wire_ref \<times> encoder" where
  "encode_ref en path =
     (let key = pathKey path
      in case map_of (en_ids en) key of
           Some i \<Rightarrow> ([], IdRef i, en)
         | None \<Rightarrow>
             if key \<in> set (en_seen en)
             then let i = en_nextId en
                  in ([WireDefine i path], IdRef i,
                      en\<lparr>en_nextId := i + 1, en_ids := AList.update key i (en_ids en)\<rparr>)
             else ([], PathRef path, en\<lparr>en_seen := set_add key (en_seen en)\<rparr>))"

fun encode_from :: "string option \<Rightarrow> encoder \<Rightarrow> delta_op list \<Rightarrow> wire_op list \<times> encoder" where
  "encode_from previous en [] = ([], en)"
| "encode_from previous en (op # ops) =
     (case op_path op of
        None \<Rightarrow>
          (case encode_from None new_encoder ops of
             (out, en') \<Rightarrow> (wire_tuple op None # out, en'))
      | Some path \<Rightarrow>
          if Some (pathKey path) = previous
          then (case encode_from previous en ops of (out, en') \<Rightarrow> (wire_tuple op None # out, en'))
          else (case encode_ref en path of
                  (defs, ref, en1) \<Rightarrow>
                    (case encode_from (Some (pathKey path)) en1 ops of
                       (out, en') \<Rightarrow> (defs @ wire_tuple op (Some ref) # out, en'))))"

definition encode :: "encoder \<Rightarrow> delta_op list \<Rightarrow> wire_op list \<times> encoder" where
  "encode en ops = encode_from None en ops"

fun assertWireRef :: "wire_ref \<Rightarrow> unit exc" where
  "assertWireRef (IdRef i) = (if i < 0 then Inl ''bad path id'' else Inr ())"
| "assertWireRef (PathRef path) = assertSafePath path"

definition okRef :: "wire_ref option \<Rightarrow> unit exc" where
  "okRef ref = (case ref of None \<Rightarrow> Inr () | Some r \<Rightarrow> assertWireRef r)"

fun assertValidWireOp :: "wire_op \<Rightarrow> unit exc" where
  "assertValidWireOp (WireReplace v) = Inr ()"
| "assertValidWireOp (WireSet ref v) = okRef ref"
| "assertValidWireOp (WireDelete ref) = okRef ref"
| "assertValidWireOp (WireAppend ref s) = okRef ref"
| "assertValidWireOp (WireTruncate ref n) = bind_exc (okRef ref) (\<lambda>_. if n < 0 then Inl ''t count'' else Inr ())"
| "assertValidWireOp (WireSplice ref i r items) =
     bind_exc (okRef ref) (\<lambda>_. if i < 0 then Inl ''p index'' else if r < 0 then Inl ''p remove'' else Inr ())"
| "assertValidWireOp (WireReorder ref perm) = bind_exc (okRef ref) (\<lambda>_. assertPermutation perm)"
| "assertValidWireOp (WireDefine i path) = (if i < 0 then Inl ''# shape'' else assertSafePath path)"

type_synonym delta_decoder = "(int, delta_path) jsmap"

fun wire_ref_of :: "wire_op \<Rightarrow> wire_ref option" where
  "wire_ref_of (WireReplace v) = None"
| "wire_ref_of (WireSet ref v) = ref"
| "wire_ref_of (WireDelete ref) = ref"
| "wire_ref_of (WireAppend ref s) = ref"
| "wire_ref_of (WireTruncate ref n) = ref"
| "wire_ref_of (WireSplice ref i r items) = ref"
| "wire_ref_of (WireReorder ref perm) = ref"
| "wire_ref_of (WireDefine i path) = None"

definition decode_path :: "delta_decoder \<Rightarrow> delta_path option \<Rightarrow> wire_ref option \<Rightarrow> delta_path exc" where
  "decode_path de previous ref =
     (case ref of
        None \<Rightarrow> (case previous of None \<Rightarrow> Inl (PathError []) | Some path \<Rightarrow> Inr path)
      | Some (PathRef path) \<Rightarrow> Inr path
      | Some (IdRef i) \<Rightarrow>
          (case map_of de i of
             None \<Rightarrow> Inl (''unresolvable path: '' @ dec_int i) | Some path \<Rightarrow> Inr path))"

text \<open>Only \<open>p\<close> and \<open>m\<close> may address the whole value.\<close>

fun op_tuple :: "wire_op \<Rightarrow> delta_path \<Rightarrow> delta_op exc" where
  "op_tuple (WireReplace v) path = Inr (OpReplace v)"
| "op_tuple (WireSet ref v) path = (if path = [] then Inl (PathError path) else Inr (OpSet path v))"
| "op_tuple (WireDelete ref) path = (if path = [] then Inl (PathError path) else Inr (OpDelete path))"
| "op_tuple (WireAppend ref s) path = (if path = [] then Inl (PathError path) else Inr (OpAppend path s))"
| "op_tuple (WireTruncate ref n) path = (if path = [] then Inl (PathError path) else Inr (OpTruncate path n))"
| "op_tuple (WireSplice ref i r items) path = Inr (OpSplice path i r items)"
| "op_tuple (WireReorder ref perm) path = Inr (OpReorder path perm)"
| "op_tuple (WireDefine i path') path = Inl (PathError path)"

fun decode_from :: "delta_path option \<Rightarrow> delta_decoder \<Rightarrow> wire_op list \<Rightarrow> (delta_op list \<times> delta_decoder) exc" where
  "decode_from previous de [] = Inr ([], de)"
| "decode_from previous de (op # wire) =
     bind_exc (assertValidWireOp op) (\<lambda>_.
       case op of
         WireDefine i path \<Rightarrow> decode_from previous (AList.update i path de) wire
       | WireReplace v \<Rightarrow>
           bind_exc (decode_from None [] wire) (\<lambda>(out, de'). Inr (OpReplace v # out, de'))
       | _ \<Rightarrow>
           bind_exc (decode_path de previous (wire_ref_of op)) (\<lambda>path.
           bind_exc (op_tuple op path) (\<lambda>d.
           bind_exc (decode_from (Some path) de wire) (\<lambda>(out, de'). Inr (d # out, de')))))"

definition decode :: "delta_decoder \<Rightarrow> wire_op list \<Rightarrow> (delta_op list \<times> delta_decoder) exc" where
  "decode de wire = decode_from None de wire"

section \<open>The text of a path determines it\<close>

definition digit_value :: "string \<Rightarrow> nat" where
  "digit_value s = foldl (\<lambda>n c. 10 * n + (of_char c - 48)) 0 s"

lemma digit_value_dec: "digit_value (dec n) = n"
proof (induction n rule: dec.induct)
  case (1 n)
  show ?case
    by (subst dec.simps) (use 1 in \<open>auto simp: digit_value_def\<close>)
qed

lemma dec_digits: "c \<in> set (dec n) \<Longrightarrow> 48 \<le> (of_char c :: nat) \<and> (of_char c :: nat) < 58"
proof (induction n rule: dec.induct)
  case (1 n)
  then show ?case by (subst (asm) (2) dec.simps) (auto split: if_splits)
qed

lemma dec_inj: "dec m = dec n \<longleftrightarrow> m = n"
  by (metis digit_value_dec)

lemma dec_int_inj: "dec_int i = dec_int j \<Longrightarrow> i = j"
proof -
  have "hd (dec n) \<noteq> CHR ''-''" for n
    using dec_digits [of "hd (dec n)" n] by (auto simp: hd_in_set)
  then have no: "dec n \<noteq> CHR ''-'' # dec m" for n m by (metis list.sel(1))
  show "dec_int i = dec_int j \<Longrightarrow> i = j"
    using no no [symmetric] by (auto simp: dec_int_def dec_inj nat_eq_iff split: if_splits)
qed

text \<open>A number ends where a comma or a bracket follows.\<close>

definition seg_end :: "string \<Rightarrow> bool" where
  "seg_end s \<longleftrightarrow> s \<noteq> [] \<and> (hd s = CHR '','' \<or> hd s = CHR '']'')"

lemma dec_int_chars: "c \<in> set (dec_int i) \<Longrightarrow> c \<noteq> CHR '','' \<and> c \<noteq> CHR '']'' \<and> c \<noteq> DQ"
  using dec_digits by (fastforce simp: dec_int_def split: if_splits)

lemma until_end:
  assumes "xs @ x = ys @ y" and "seg_end x" and "seg_end y"
    and "\<And>c. c \<in> set xs \<union> set ys \<Longrightarrow> c \<noteq> CHR '','' \<and> c \<noteq> CHR '']''"
  shows "xs = ys \<and> x = y"
proof -
  let ?P = "\<lambda>c. c \<noteq> CHR '','' \<and> c \<noteq> CHR '']''"
  have t: "takeWhile ?P (zs @ z) = zs" if "seg_end z" "\<And>c. c \<in> set zs \<Longrightarrow> ?P c" for zs z
    using that by (auto simp: seg_end_def takeWhile_append neq_Nil_conv)
  have "xs = takeWhile ?P (xs @ x)" using t [OF assms(2), of xs] assms(4) by simp
  also have "\<dots> = ys" using t [OF assms(3), of ys] assms(4) unfolding assms(1) by simp
  finally show ?thesis using assms(1) by simp
qed

lemma hex_digit_inj: "m < 16 \<Longrightarrow> n < 16 \<Longrightarrow> hex_digit m = hex_digit n \<longleftrightarrow> m = n"
  by (auto simp: hex_digit_def dest!: arg_cong [of "char_of _" "char_of _" "of_char :: char \<Rightarrow> nat"])

lemma hex_pair_inj:
  assumes "hex_digit (of_char c div 16) = hex_digit (of_char d div 16)" "hex_digit (of_char c mod 16) = hex_digit (of_char d mod 16)"
  shows "c = d"
proof -
  have "(of_char c :: nat) div 16 < 16" for c :: char
  proof -
    show ?thesis using nat_of_char_less_256 [of c] by (simp add: less_mult_imp_div_less)
  qed
  then have "(of_char c :: nat) div 16 = of_char d div 16" "(of_char c :: nat) mod 16 = of_char d mod 16"
    using assms by (simp_all add: hex_digit_inj)
  then have "(of_char c :: nat) = of_char d" by (metis div_mult_mod_eq)
  then show ?thesis by simp
qed

lemma json_escape_prefix: "json_escape c @ x = json_escape d @ y \<Longrightarrow> c = d \<and> x = y"
  by (auto simp: json_escape_def split: if_splits dest: hex_pair_inj)

lemma json_escape_first: "json_escape c @ x \<noteq> DQ # y"
  by (auto simp: json_escape_def)

lemma quoted_prefix: "concat (map json_escape s) @ DQ # x = concat (map json_escape t) @ DQ # y \<Longrightarrow> s = t \<and> x = y"
proof (induction s arbitrary: t)
  case Nil
  then show ?case using json_escape_first by (cases t) (auto simp: append_assoc, metis)
next
  case (Cons c s)
  then obtain d t' where t: "t = d # t'" using json_escape_first [of c] by (cases t) auto
  with Cons.prems json_escape_prefix [of c _ d] have "c = d" "concat (map json_escape s) @ DQ # x = concat (map json_escape t') @ DQ # y"
    by auto
  with Cons.IH t show ?case by blast
qed

lemma seg_json_prefix:
  assumes "seg_json s @ x = seg_json t @ y" and "seg_end x" and "seg_end y"
  shows "s = t \<and> x = y"
proof (cases s; cases t)
  fix k l assume "s = Key k" "t = Key l"
  with assms(1) quoted_prefix [of k x l y] show ?thesis by (simp add: json_quote_def)
next
  fix i j assume ij: "s = Index i" "t = Index j"
  with until_end [of "dec_int i" x "dec_int j" y] assms dec_int_chars have "dec_int i = dec_int j \<and> x = y" by auto
  with ij dec_int_inj show ?thesis by auto
next
  fix k j assume "s = Key k" "t = Index j"
  with assms dec_int_chars [of "hd (dec_int j)" j] show ?thesis
    by (cases "dec_int j") (auto simp: json_quote_def seg_end_def)
next
  fix i l assume "s = Index i" "t = Key l"
  with assms dec_int_chars [of "hd (dec_int i)" i] show ?thesis
    by (cases "dec_int i") (auto simp: json_quote_def seg_end_def)
qed

lemma seg_json_start: "seg_json s @ x \<noteq> CHR '']'' # y"
proof (cases s)
  case (Index i)
  have "dec_int i \<noteq> []" by (simp add: dec_int_def)
  then show ?thesis using Index dec_int_chars [of "hd (dec_int i)" i] by (cases "dec_int i") auto
qed (simp add: json_quote_def)

lemma segs_text_Cons:
  "js_join '','' (map seg_json (s # p)) @ '']'' =
     seg_json s @ (if p = [] then '']'' else '','' @ js_join '','' (map seg_json p) @ '']'')"
  by (simp add: js_join_Cons)

lemma segs_prefix:
  "js_join '','' (map seg_json p) @ '']'' = js_join '','' (map seg_json q) @ '']'' \<Longrightarrow> p = q"
proof (induction p arbitrary: q)
  case Nil
  then show ?case using seg_json_start segs_text_Cons by (cases q) (simp, metis append_Nil js_join.simps(1) list.simps(8))
next
  case (Cons s p)
  show ?case
  proof (cases q)
    case Nil
    with Cons.prems show ?thesis unfolding Nil segs_text_Cons using seg_json_start by simp
  next
    case (Cons t q')
    from Cons.prems [unfolded Cons segs_text_Cons]
    have "s = t \<and> (if p = [] then '']'' else '','' @ js_join '','' (map seg_json p) @ '']'')
        = (if q' = [] then '']'' else '','' @ js_join '','' (map seg_json q') @ '']'')"
      by (rule seg_json_prefix) (simp_all add: seg_end_def)
    with Cons.IH [of q'] show ?thesis unfolding Cons by (auto split: if_splits)
  qed
qed

lemma pathKey_inj: "pathKey p = pathKey q \<longleftrightarrow> p = q"
  using segs_prefix [of p q] by (auto simp: pathKey_def)

section \<open>The codec is a round trip\<close>

text \<open>What the encoder and the decoder of one stream agree on.\<close>

definition synced :: "encoder \<Rightarrow> delta_decoder \<Rightarrow> bool" where
  "synced en de \<longleftrightarrow> 0 \<le> en_nextId en
     \<and> (\<forall>path i. map_of (en_ids en) (pathKey path) = Some i \<longrightarrow> 0 \<le> i \<and> i < en_nextId en \<and> map_of de i = Some path)"

lemma synced_new: "synced new_encoder []"
  by (simp add: synced_def new_encoder_def)

lemma valid_path: "assertValidOp op = Inr () \<Longrightarrow> op_path op = Some path \<Longrightarrow> assertSafePath path = Inr ()"
  by (cases op) (auto simp: assertPathArg_def bind_exc_Inr_iff split: if_splits)

lemma decode_tuple:
  assumes "assertValidOp op = Inr ()" and "op_path op = Some path" and "okRef ref = Inr ()"
    and "decode_path de pd ref = Inr path"
  shows "decode_from pd de (wire_tuple op ref # wire) =
     bind_exc (decode_from (Some path) de wire) (\<lambda>(out, de'). Inr (op # out, de'))"
  using assms by (cases op) (auto simp: assertPathArg_def bind_exc_Inr_iff split: if_splits)

lemma synced_define:
  assumes "synced en de"
  shows "synced (en\<lparr>en_nextId := en_nextId en + 1, en_ids := AList.update (pathKey path) (en_nextId en) (en_ids en)\<rparr>)
     (AList.update (en_nextId en) path de)"
  unfolding synced_def
proof (intro conjI allI impI)
  fix q i
  assume "map_of (en_ids (en\<lparr>en_nextId := en_nextId en + 1,
      en_ids := AList.update (pathKey path) (en_nextId en) (en_ids en)\<rparr>)) (pathKey q) = Some i"
  then have i: "if q = path then i = en_nextId en else map_of (en_ids en) (pathKey q) = Some i"
    by (simp add: AList.update_conv' pathKey_inj split: if_splits)
  have "0 \<le> i \<and> i < en_nextId en + 1 \<and> map_of (AList.update (en_nextId en) path de) i = Some q"
  proof (cases "q = path")
    case True
    with i assms show ?thesis by (simp add: synced_def AList.update_conv')
  next
    case False
    with i assms have "0 \<le> i" "i < en_nextId en" "map_of de i = Some q" unfolding synced_def by auto
    then show ?thesis by (simp add: AList.update_conv')
  qed
  then show "0 \<le> i" "i < en_nextId (en\<lparr>en_nextId := en_nextId en + 1,
      en_ids := AList.update (pathKey path) (en_nextId en) (en_ids en)\<rparr>)"
    "map_of (AList.update (en_nextId en) path de) i = Some q" by simp_all
qed (use assms in \<open>simp add: synced_def\<close>)

lemma encode_ref_synced:
  assumes "encode_ref en path = (defs, ref, en1)" and "synced en de" and "assertSafePath path = Inr ()"
  obtains de1 where "\<And>wire. decode_from pd de (defs @ wire) = decode_from pd de1 wire"
    and "decode_path de1 pd (Some ref) = Inr path" and "okRef (Some ref) = Inr ()" and "synced en1 de1"
proof (cases "map_of (en_ids en) (pathKey path)")
  case (Some i)
  then have i: "0 \<le> i" "map_of de i = Some path" using assms(2) unfolding synced_def by blast+
  from Some assms(1) have "defs = []" "ref = IdRef i" "en1 = en" by (simp_all add: encode_ref_def Let_def)
  with i assms(2) show ?thesis by (intro that [of de]) (simp_all add: decode_path_def okRef_def)
next
  case None
  show ?thesis
  proof (cases "pathKey path \<in> set (en_seen en)")
    case True
    let ?de1 = "AList.update (en_nextId en) path de"
    have "en1 = en\<lparr>en_nextId := en_nextId en + 1, en_ids := AList.update (pathKey path) (en_nextId en) (en_ids en)\<rparr>"
      using assms(1) None True by (simp add: encode_ref_def Let_def)
    then have "synced en1 ?de1" using synced_define [OF assms(2)] by simp
    then show ?thesis
      using assms None True
      by (intro that [of ?de1]) (auto simp: encode_ref_def Let_def decode_path_def okRef_def synced_def AList.update_conv')
  next
    case False
    with assms None show ?thesis
      by (intro that [of de]) (auto simp: encode_ref_def Let_def decode_path_def okRef_def synced_def)
  qed
qed

lemma decode_encode_from:
  assumes "\<forall>op \<in> set ops. assertValidOp op = Inr ()" and "synced en de"
    and "encode_from (map_option pathKey pd) en ops = (out, en')"
  shows "\<exists>de'. decode_from pd de out = Inr (ops, de') \<and> synced en' de'"
  using assms
proof (induction ops arbitrary: pd en de out)
  case (Cons op ops)
  note valid = Cons.prems(1)
  show ?case
  proof (cases "op_path op")
    case None
    then obtain v where op: "op = OpReplace v" by (cases op) auto
    obtain out1 where e: "encode_from None new_encoder ops = (out1, en')" and out: "out = WireReplace v # out1"
      using Cons.prems(3) op by (auto split: prod.splits)
    with Cons.IH [of new_encoder "[]" None out1] valid synced_new show ?thesis by (auto simp: op)
  next
    case (Some path)
    note safe = valid_path [OF _ Some]
    have vop: "assertValidOp op = Inr ()" using valid by simp
    show ?thesis
    proof (cases "Some (pathKey path) = map_option pathKey pd")
      case True
      then have pd: "pd = Some path" by (cases pd) (simp_all add: pathKey_inj)
      obtain out1 where e: "encode_from (map_option pathKey pd) en ops = (out1, en')" and out: "out = wire_tuple op None # out1"
        using Cons.prems(3) Some True by (auto split: prod.splits)
      from Cons.IH [OF _ Cons.prems(2) e] valid show ?thesis
        using decode_tuple [OF vop Some, of None de pd out1] by (auto simp: out okRef_def decode_path_def pd)
    next
      case False
      obtain defs ref en1 out1 where r: "encode_ref en path = (defs, ref, en1)"
        and e: "encode_from (map_option pathKey (Some path)) en1 ops = (out1, en')"
        and out: "out = defs @ wire_tuple op (Some ref) # out1"
        using Cons.prems(3) Some False by (auto split: prod.splits)
      obtain de1 where de1: "\<And>wire. decode_from pd de (defs @ wire) = decode_from pd de1 wire"
        "decode_path de1 pd (Some ref) = Inr path" "okRef (Some ref) = Inr ()" "synced en1 de1"
        using encode_ref_synced [OF r Cons.prems(2) safe [OF vop]] by metis
      from Cons.IH [OF _ de1(4) e] valid show ?thesis
        using decode_tuple [OF vop Some de1(3,2), of out1] by (auto simp: out de1(1))
    qed
  qed
qed auto

text \<open>The batches of one stream, encoded and decoded in order.\<close>

fun encode_all :: "encoder \<Rightarrow> delta_op list list \<Rightarrow> wire_op list list" where
  "encode_all en [] = []"
| "encode_all en (ops # batches) = (case encode en ops of (out, en') \<Rightarrow> out # encode_all en' batches)"

fun decode_ops :: "delta_decoder \<Rightarrow> wire_op list list \<Rightarrow> delta_op list list exc" where
  "decode_ops de [] = Inr []"
| "decode_ops de (wire # batches) =
     bind_exc (decode de wire) (\<lambda>(ops, de'). bind_exc (decode_ops de' batches) (\<lambda>rest. Inr (ops # rest)))"

lemma decode_encode_all:
  "\<forall>ops \<in> set batches. \<forall>op \<in> set ops. assertValidOp op = Inr () \<Longrightarrow> synced en de \<Longrightarrow>
     decode_ops de (encode_all en batches) = Inr batches"
proof (induction batches arbitrary: en de)
  case (Cons ops batches)
  obtain out en' where e: "encode en ops = (out, en')" by fastforce
  with decode_encode_from [of ops en de None out en'] Cons.prems obtain de' where
    d: "decode de out = Inr (ops, de')" "synced en' de'" by (auto simp: encode_def decode_def)
  with Cons e show ?case by simp
qed simp

text \<open>A batch that starts with a replacement needs no earlier one.\<close>

lemma encode_all_drop: "\<exists>en'. drop (length past) (encode_all en (past @ batches)) = encode_all en' batches"
  by (induction past arbitrary: en) (auto split: prod.split)

lemma base_is_fresh: "isBase ops \<Longrightarrow> encode en ops = encode new_encoder ops"
proof -
  assume "isBase ops"
  then obtain v rest where "ops = OpReplace v # rest"
    by (cases ops; cases "hd ops") (auto simp: isBase_def)
  then show ?thesis by (simp add: encode_def)
qed

text \<open>
  C15: What one encoder writes, a decoder reads back exactly: every operation of every batch, with
  paths interned and left out. A reader may start at any batch that begins with a replacement
  with a fresh decoder, whatever the encoder wrote before.
\<close>

theorem codec_round_trip:
  assumes "\<forall>ops \<in> set batches. \<forall>op \<in> set ops. assertValidOp op = Inr ()"
    and "past = [] \<or> batches \<noteq> [] \<and> isBase (hd batches)"
  shows "decode_ops [] (drop (length past) (encode_all new_encoder (past @ batches))) = Inr batches"
proof -
  obtain en where en: "drop (length past) (encode_all new_encoder (past @ batches)) = encode_all en batches"
    "past = [] \<longrightarrow> en = new_encoder" using encode_all_drop [of past new_encoder batches] by (cases past) auto
  have "encode_all en batches = encode_all new_encoder batches"
    using assms(2) en(2) base_is_fresh [of "hd batches" en] by (cases batches) auto
  with en(1) decode_encode_all [OF assms(1) synced_new] show ?thesis by simp
qed

theorem codec_round_trip_witness:
  "let title = [Key ''doc'', Key ''title'']; list = [Key ''doc'', Index 0];
       past = [[OpSet title (JStr ''a''), OpSet title (JStr ''b'')]];
       batches = [[OpReplace JNull, OpAppend title ''x'', OpDelete list, OpTruncate title 1, OpTruncate title 2]]
   in decode_ops [] (drop 1 (encode_all new_encoder (past @ batches))) = Inr batches
     \<and> drop 1 (encode_all new_encoder (past @ batches))
       = [[WireReplace JNull, WireAppend (Some (PathRef title)) ''x'', WireDelete (Some (PathRef list)),
           WireDefine 0 title, WireTruncate (Some (IdRef 0)) 1, WireTruncate None 2]]"
proof -
  let ?title = "[Key ''doc'', Key ''title'']" and ?list = "[Key ''doc'', Index 0]"
  let ?past = "[[OpSet ?title (JStr ''a''), OpSet ?title (JStr ''b'')]]"
  let ?batches = "[[OpReplace JNull, OpAppend ?title ''x'', OpDelete ?list, OpTruncate ?title 1, OpTruncate ?title 2]]"
  have "\<forall>ops \<in> set ?batches. \<forall>op \<in> set ops. assertValidOp op = Inr ()" by code_simp
  moreover have "isBase (hd ?batches)" by code_simp
  ultimately have "decode_ops [] (drop (length ?past) (encode_all new_encoder (?past @ ?batches))) = Inr ?batches"
    by (intro codec_round_trip) simp_all
  moreover have "drop 1 (encode_all new_encoder (?past @ ?batches))
       = [[WireReplace JNull, WireAppend (Some (PathRef ?title)) ''x'', WireDelete (Some (PathRef ?list)),
           WireDefine 0 ?title, WireTruncate (Some (IdRef 0)) 1, WireTruncate None 2]]" by code_simp
  ultimately show ?thesis by (simp add: Let_def)
qed

end
