(* ===== verification/Delta_Diff.thy ===== *)
theory Delta_Diff
  imports Delta
begin

text \<open>
  A compact batch of operations from one JSON revision to another
  (\<open>packages/chord/src/delta/diff.ts\<close> and \<open>overlap\<close> of \<open>index.ts\<close>). The code compares containers
  by identity first, so a container carries the identity of its object. A recursive call takes
  one unit of fuel, and the result is \<open>None\<close> when there is none left. An object lists its keys
  in the order of \<open>Object.keys\<close>.
\<close>

section \<open>Revisions\<close>

datatype revision =
    RNull
  | RBool bool
  | RNum string
  | RStr string
  | RArr nat "revision list"
  | RObj nat "(string \<times> revision) list"

fun plain :: "revision \<Rightarrow> json" where
  "plain RNull = JNull"
| "plain (RBool b) = JBool b"
| "plain (RNum n) = JNum n"
| "plain (RStr s) = JStr s"
| "plain (RArr i xs) = JArr (map plain xs)"
| "plain (RObj i kvs) = JObj (map (\<lambda>(k, v). (k, plain v)) kvs)"

text \<open>What \<open>===\<close> and the keys of a \<open>Map\<close> see of a value.\<close>

datatype ident = INull | IBool bool | INum string | IStr string | IArr nat | IObj nat

fun ident_of :: "revision \<Rightarrow> ident" where
  "ident_of RNull = INull"
| "ident_of (RBool b) = IBool b"
| "ident_of (RNum n) = INum n"
| "ident_of (RStr s) = IStr s"
| "ident_of (RArr i xs) = IArr i"
| "ident_of (RObj i kvs) = IObj i"

definition identical :: "revision \<Rightarrow> revision \<Rightarrow> bool" where
  "identical l r \<longleftrightarrow> ident_of l = ident_of r"

fun isContainer :: "revision \<Rightarrow> bool" where
  "isContainer (RArr i xs) = True"
| "isContainer (RObj i kvs) = True"
| "isContainer _ = False"

fun equalJson :: "revision \<Rightarrow> revision \<Rightarrow> bool"
and equal_elems :: "revision list \<Rightarrow> revision list \<Rightarrow> bool"
and equal_props :: "(string \<times> revision) list \<Rightarrow> (string \<times> revision) list \<Rightarrow> bool" where
  "equalJson (RArr i xs) (RArr j ys) = (i = j \<or> length xs = length ys \<and> equal_elems xs ys)"
| "equalJson (RObj i kvs) (RObj j kvs') = (i = j \<or> length kvs = length kvs' \<and> equal_props kvs kvs')"
| "equalJson l r = identical l r"
| "equal_elems (x # xs) (y # ys) = (equalJson x y \<and> equal_elems xs ys)"
| "equal_elems _ _ = True"
| "equal_props [] kvs' = True"
| "equal_props ((k, v) # kvs) kvs' =
     ((case map_of kvs' k of None \<Rightarrow> False | Some w \<Rightarrow> equalJson v w) \<and> equal_props kvs kvs')"

definition sameValue :: "revision \<Rightarrow> revision \<Rightarrow> bool" where
  "sameValue l r \<longleftrightarrow> identical l r \<or> equalJson l r"

section \<open>The batch\<close>

record batch =
  bt_ops :: "delta_op list"
  bt_overflowed :: bool

definition MAX_DELTA_OPERATIONS :: int where
  "MAX_DELTA_OPERATIONS = 4096"

definition emitOperation :: "delta_op \<Rightarrow> batch \<Rightarrow> batch" where
  "emitOperation op b =
     (if bt_overflowed b then b
      else if int (length (bt_ops b)) \<ge> MAX_DELTA_OPERATIONS then b\<lparr>bt_overflowed := True\<rparr>
      else b\<lparr>bt_ops := bt_ops b @ [op]\<rparr>)"

definition emitSet :: "delta_path \<Rightarrow> revision \<Rightarrow> batch \<Rightarrow> batch" where
  "emitSet path v = emitOperation (if path = [] then OpReplace (plain v) else OpSet path (plain v))"

section \<open>Strings\<close>

text \<open>\<open>s.indexOf(head, from)\<close>\<close>

definition index_from :: "string \<Rightarrow> string \<Rightarrow> nat \<Rightarrow> nat option" where
  "index_from s head start = map_option (\<lambda>k. start + k) (js_index_of head (drop start s))"

text \<open>The occurrences of a head of \<open>b\<close> from \<open>start\<close> on; at most \<open>left\<close> of them are tried.\<close>

fun try_candidates :: "nat \<Rightarrow> string \<Rightarrow> string \<Rightarrow> string \<Rightarrow> nat \<Rightarrow> nat option" where
  "try_candidates 0 last_part b head start = None"
| "try_candidates (Suc left) last_part b head start =
     (case index_from last_part head start of
        None \<Rightarrow> None
      | Some k \<Rightarrow>
          let n = length last_part - k
          in if n \<le> length b \<and> drop k last_part = take n b then Some n
             else try_candidates left last_part b head (k + 1))"

definition overlap :: "string \<Rightarrow> string \<Rightarrow> nat \<Rightarrow> nat" where
  "overlap a b scan =
     (if a = [] \<or> b = [] \<or> scan = 0 then 0
      else let last_part = (if length a > scan then drop (length a - scan) a else a);
               h = min 64 (length b)
           in case try_candidates 8 last_part b (take h b) 0 of
                Some n \<Rightarrow> n
              | None \<Rightarrow>
                  if h = 1 then 0
                  else (case try_candidates 8 last_part b (take 1 b) 0 of Some n \<Rightarrow> n | None \<Rightarrow> 0))"

definition DEFAULT_OVERLAP_SCAN :: nat where
  "DEFAULT_OVERLAP_SCAN = 65536"

definition emitString :: "string \<Rightarrow> string \<Rightarrow> delta_path \<Rightarrow> batch \<Rightarrow> batch" where
  "emitString old after path b =
     (if old = after then b
      else if length after > length old \<and> take (length old) after = old
      then emitOperation (OpAppend path (drop (length old) after)) b
      else let shared = overlap old after DEFAULT_OVERLAP_SCAN
           in if shared = 0 then emitOperation (OpSet path (JStr after)) b
              else let b1 = emitOperation (OpTruncate path (int (length old) - int shared)) b
                   in if length after > shared then emitOperation (OpAppend path (drop shared after)) b1 else b1)"

section \<open>Matching the elements of arrays\<close>

text \<open>The positions of every value, in order.\<close>

definition positions :: "revision list \<Rightarrow> nat \<Rightarrow> nat \<Rightarrow> (ident, nat list) jsmap" where
  "positions xs from stop =
     fold (\<lambda>i m. let key = ident_of (xs ! i)
                in AList.update key ((case map_of m key of Some is \<Rightarrow> is | None \<Rightarrow> []) @ [i]) m)
       [from..<stop] []"

definition indices_of :: "(ident, nat list) jsmap \<Rightarrow> revision \<Rightarrow> nat list" where
  "indices_of m v = (case map_of m (ident_of v) of Some is \<Rightarrow> is | None \<Rightarrow> [])"

text \<open>The loop over \<open>after\<close>: what is left of a value's positions are those not used yet.\<close>

fun take_positions :: "(ident, nat list) jsmap \<Rightarrow> revision list \<Rightarrow> nat list option" where
  "take_positions m [] = Some []"
| "take_positions m (v # vs) =
     (case indices_of m v of
        [] \<Rightarrow> None
      | i # left \<Rightarrow> map_option (\<lambda>is. i # is) (take_positions (AList.update (ident_of v) left m) vs))"

definition permutation :: "revision list \<Rightarrow> revision list \<Rightarrow> nat list option" where
  "permutation bs as =
     (if length bs \<noteq> length as then None else take_positions (positions bs 0 (length bs)) as)"

text \<open>A match pairs an index of \<open>before\<close> with one of \<open>after\<close>.\<close>

type_synonym array_match = "nat \<times> nat"

function lowerBound :: "nat list \<Rightarrow> nat \<Rightarrow> nat \<Rightarrow> nat \<Rightarrow> nat" where
  "lowerBound values v low high =
     (if low < high
      then let middle = (low + high) div 2
           in if values ! middle < v then lowerBound values v (middle + 1) high
              else lowerBound values v low middle
      else low)"
  by pat_completeness auto
termination by (relation "measure (\<lambda>(values, v, low, high). high - low)") auto

declare lowerBound.simps [simp del]

function advance :: "(nat \<Rightarrow> bool) \<Rightarrow> nat \<Rightarrow> nat \<Rightarrow> nat" where
  "advance p i stop = (if i < stop \<and> \<not> p i then advance p (Suc i) stop else i)"
  by pat_completeness auto
termination by (relation "measure (\<lambda>(p, i, stop). stop - i)") auto

declare advance.simps [simp del]

text \<open>Every index of the shorter side finds the next identical element of the longer one.\<close>

fun match_each :: "(nat \<Rightarrow> nat \<Rightarrow> bool) \<Rightarrow> nat list \<Rightarrow> nat \<Rightarrow> nat \<Rightarrow> (nat \<times> nat) list option" where
  "match_each same [] cursor stop = Some []"
| "match_each same (i # is) cursor stop =
     (let j = advance (same i) cursor stop
      in if j = stop then None
         else map_option (\<lambda>ms. (i, j) # ms) (match_each same is (Suc j) stop))"

definition identitySubsequence ::
  "revision list \<Rightarrow> nat \<Rightarrow> nat \<Rightarrow> revision list \<Rightarrow> nat \<Rightarrow> nat \<Rightarrow> array_match list option" where
  "identitySubsequence bs b0 b1 as a0 a1 =
     (if a1 - a0 < b1 - b0
      then map_option (map (\<lambda>(i, j). (j, i)))
             (match_each (\<lambda>i j. identical (bs ! j) (as ! i)) [a0..<a1] b0 b1)
      else if b1 - b0 < a1 - a0
      then match_each (\<lambda>i j. identical (bs ! i) (as ! j)) [b0..<b1] a0 a1
      else None)"

text \<open>\<open>next_index\<close> is \<open>previous + 1\<close>.\<close>

fun greedy_from :: "(ident, nat list) jsmap \<Rightarrow> revision list \<Rightarrow> nat list \<Rightarrow> nat \<Rightarrow> array_match list" where
  "greedy_from m as [] next_index = []"
| "greedy_from m as (i # is) next_index =
     (let candidates = indices_of m (as ! i);
          pos = lowerBound candidates next_index 0 (length candidates)
      in if pos < length candidates
         then (candidates ! pos, i) # greedy_from m as is (Suc (candidates ! pos))
         else greedy_from m as is next_index)"

definition greedyIdentityAnchors ::
  "(ident, nat list) jsmap \<Rightarrow> revision list \<Rightarrow> nat \<Rightarrow> nat \<Rightarrow> array_match list" where
  "greedyIdentityAnchors m as a0 a1 = greedy_from m as [a0..<a1] 0"

record match_candidate =
  mc_before :: nat
  mc_after :: nat
  mc_previous :: "nat option"

record anchors =
  ac_candidates :: "match_candidate list"
  ac_tails :: "nat list"
  ac_tailValues :: "nat list"

definition set_at :: "nat \<Rightarrow> 'a \<Rightarrow> 'a list \<Rightarrow> 'a list" where
  "set_at i x xs = (if i < length xs then xs[i := x] else xs @ [x])"

definition add_candidate :: "nat \<Rightarrow> nat \<Rightarrow> anchors \<Rightarrow> anchors" where
  "add_candidate afterIndex beforeIndex s =
     (let pos = lowerBound (ac_tailValues s) beforeIndex 0 (length (ac_tailValues s));
          c = \<lparr>mc_before = beforeIndex, mc_after = afterIndex,
               mc_previous = (if pos = 0 then None else Some (ac_tails s ! (pos - 1)))\<rparr>
      in \<lparr>ac_candidates = ac_candidates s @ [c],
          ac_tails = set_at pos (length (ac_candidates s)) (ac_tails s),
          ac_tailValues = set_at pos beforeIndex (ac_tailValues s)\<rparr>)"

definition collect_anchors :: "(ident, nat list) jsmap \<Rightarrow> revision list \<Rightarrow> nat \<Rightarrow> nat \<Rightarrow> anchors" where
  "collect_anchors m as a0 a1 =
     fold (\<lambda>i. fold (add_candidate i) (rev (indices_of m (as ! i)))) [a0..<a1]
       \<lparr>ac_candidates = [], ac_tails = [], ac_tailValues = []\<rparr>"

text \<open>The chain back from the last tail; it is as long as there are candidates at most.\<close>

fun chain_from :: "nat \<Rightarrow> match_candidate list \<Rightarrow> nat option \<Rightarrow> array_match list" where
  "chain_from (Suc n) cs (Some i) = chain_from n cs (mc_previous (cs ! i)) @ [(mc_before (cs ! i), mc_after (cs ! i))]"
| "chain_from _ cs _ = []"

definition MAX_IDENTITY_CANDIDATES :: int where
  "MAX_IDENTITY_CANDIDATES = 200000"

definition identityAnchors ::
  "revision list \<Rightarrow> nat \<Rightarrow> nat \<Rightarrow> revision list \<Rightarrow> nat \<Rightarrow> nat \<Rightarrow> array_match list" where
  "identityAnchors bs b0 b1 as a0 a1 =
     (let m = positions bs b0 b1;
          candidateCount = int (sum_list (map (\<lambda>i. length (indices_of m (as ! i))) [a0..<a1]))
      in if candidateCount > MAX_IDENTITY_CANDIDATES then greedyIdentityAnchors m as a0 a1
         else if candidateCount = 0 then []
         else let s = collect_anchors m as a0 a1
              in chain_from (length (ac_candidates s)) (ac_candidates s)
                   (if ac_tails s = [] then None else Some (last (ac_tails s))))"

text \<open>The table of common subsequence lengths, one row per element of \<open>before\<close>.\<close>

fun lcs_row :: "('a \<Rightarrow> 'a \<Rightarrow> bool) \<Rightarrow> 'a \<Rightarrow> 'a list \<Rightarrow> nat list \<Rightarrow> nat list" where
  "lcs_row eq x [] below = [0]"
| "lcs_row eq x (y # ys) below =
     (let rest = lcs_row eq x ys (tl below)
      in (if eq x y then hd (tl below) + 1 else max (hd below) (hd rest)) # rest)"

fun lcs_table :: "('a \<Rightarrow> 'a \<Rightarrow> bool) \<Rightarrow> 'a list \<Rightarrow> 'a list \<Rightarrow> nat list list" where
  "lcs_table eq [] ys = [replicate (length ys + 1) 0]"
| "lcs_table eq (x # xs) ys = (let below = lcs_table eq xs ys in lcs_row eq x ys (hd below) # below)"

function lcs_walk :: "(nat \<Rightarrow> nat \<Rightarrow> bool) \<Rightarrow> nat list list \<Rightarrow> nat \<Rightarrow> nat \<Rightarrow> nat \<Rightarrow> nat \<Rightarrow> array_match list" where
  "lcs_walk eq t n m left right =
     (if left < n \<and> right < m
      then if eq left right \<and> t ! left ! right = t ! (left + 1) ! (right + 1) + 1
           then (left, right) # lcs_walk eq t n m (left + 1) (right + 1)
           else if t ! (left + 1) ! right \<ge> t ! left ! (right + 1)
           then lcs_walk eq t n m (left + 1) right
           else lcs_walk eq t n m left (right + 1)
      else [])"
  by pat_completeness auto
termination by (relation "measure (\<lambda>(eq, t, n, m, left, right). (n - left) + (m - right))") auto

declare lcs_walk.simps [simp del]

definition lcsMatches ::
  "'a list \<Rightarrow> 'a list \<Rightarrow> ('a \<Rightarrow> 'a \<Rightarrow> bool) \<Rightarrow> int \<Rightarrow> array_match list option" where
  "lcsMatches xs ys eq maxCells =
     (if xs = [] \<or> ys = [] then Some []
      else if int (length xs) * int (length ys) > maxCells then None
      else Some (lcs_walk (\<lambda>i j. eq (xs ! i) (ys ! j)) (lcs_table eq xs ys) (length xs) (length ys) 0 0))"

definition semanticallyAligned :: "revision \<Rightarrow> revision \<Rightarrow> bool" where
  "semanticallyAligned l r \<longleftrightarrow>
     sameValue l r
     \<or> (case (l, r) of
          (RArr i xs, RArr j ys) \<Rightarrow>
            length xs = length ys \<and> list_ex (\<lambda>(x, y). isContainer x \<and> identical x y) (zip xs ys)
        | (RObj i kvs, RObj j kvs') \<Rightarrow>
            list_ex (\<lambda>(k, v). isContainer v \<and> (case map_of kvs' k of Some w \<Rightarrow> identical v w | None \<Rightarrow> False)) kvs
        | _ \<Rightarrow> False)"

definition MAX_SEMANTIC_CELLS :: int where
  "MAX_SEMANTIC_CELLS = 65536"

section \<open>The difference\<close>

definition sliced :: "nat \<Rightarrow> nat \<Rightarrow> 'a list \<Rightarrow> 'a list" where
  "sliced i j xs = take (j - i) (drop i xs)"

text \<open>The common prefix and suffix of two regions.\<close>

function trim_start :: "revision list \<Rightarrow> nat \<Rightarrow> nat \<Rightarrow> revision list \<Rightarrow> nat \<Rightarrow> nat \<Rightarrow> nat" where
  "trim_start bs b0 b1 as a0 a1 =
     (if b0 < b1 \<and> a0 < a1 \<and> sameValue (bs ! b0) (as ! a0)
      then Suc (trim_start bs (Suc b0) b1 as (Suc a0) a1) else 0)"
  by pat_completeness auto
termination by (relation "measure (\<lambda>(bs, b0, b1, as, a0, a1). b1 - b0)") auto

function trim_end :: "revision list \<Rightarrow> nat \<Rightarrow> nat \<Rightarrow> revision list \<Rightarrow> nat \<Rightarrow> nat \<Rightarrow> nat" where
  "trim_end bs b0 b1 as a0 a1 =
     (if b0 < b1 \<and> a0 < a1 \<and> sameValue (bs ! (b1 - 1)) (as ! (a1 - 1))
      then Suc (trim_end bs b0 (b1 - 1) as a0 (a1 - 1)) else 0)"
  by pat_completeness auto
termination by (relation "measure (\<lambda>(bs, b0, b1, as, a0, a1). b1)") auto

declare trim_start.simps [simp del] trim_end.simps [simp del]

definition positional_matches ::
  "revision list \<Rightarrow> nat \<Rightarrow> revision list \<Rightarrow> nat \<Rightarrow> nat \<Rightarrow> array_match list" where
  "positional_matches bs b0 as a0 n =
     map (\<lambda>i. (b0 + i, a0 + i)) (filter (\<lambda>i. sameValue (bs ! (b0 + i)) (as ! (a0 + i))) [0..<n])"

text \<open>The matches the code follows in a region, from the cheapest kind to the dearest; \<open>[]\<close> when it finds none.\<close>

definition region_matches ::
  "revision list \<Rightarrow> nat \<Rightarrow> nat \<Rightarrow> revision list \<Rightarrow> nat \<Rightarrow> nat \<Rightarrow> array_match list" where
  "region_matches bs b0 b1 as a0 a1 =
     (let positional = (if b1 - b0 = a1 - a0 then positional_matches bs b0 as a0 (b1 - b0) else [])
      in if positional \<noteq> [] then positional
         else case identitySubsequence bs b0 b1 as a0 a1 of
                Some (m # ms) \<Rightarrow> m # ms
              | _ \<Rightarrow>
                  let identity = identityAnchors bs b0 b1 as a0 a1
                  in if identity \<noteq> [] then identity
                     else (case lcsMatches (sliced b0 b1 bs) (sliced a0 a1 as) semanticallyAligned MAX_SEMANTIC_CELLS of
                             None \<Rightarrow> []
                           | Some ms \<Rightarrow> map (\<lambda>(i, j). (b0 + i, a0 + j)) ms))"

definition reserved_key :: "string \<times> revision \<Rightarrow> bool" where
  "reserved_key kv \<longleftrightarrow> fst kv \<in> set RESERVED_SEGMENTS"

fun emit_deletes :: "(string \<times> revision) list \<Rightarrow> (string \<times> revision) list \<Rightarrow> delta_path \<Rightarrow> batch \<Rightarrow> batch" where
  "emit_deletes [] as path b = b"
| "emit_deletes ((k, v) # kvs) as path b =
     (if bt_overflowed b then b
      else emit_deletes kvs as path
             (if map_of as k = None then emitOperation (OpDelete (path @ [Key k])) b else b))"

text \<open>The functions of the difference call each other; here they take the two they recurse through,
  and the recursion is tied below.\<close>

type_synonym value_fn = "revision \<Rightarrow> revision \<Rightarrow> delta_path \<Rightarrow> batch \<Rightarrow> batch option"
type_synonym region_fn =
  "revision list \<Rightarrow> revision list \<Rightarrow> delta_path \<Rightarrow> nat \<Rightarrow> nat \<Rightarrow> nat \<Rightarrow> nat \<Rightarrow> nat \<Rightarrow> batch \<Rightarrow> batch option"

fun processArrayMatches ::
  "value_fn \<Rightarrow> region_fn \<Rightarrow> revision list \<Rightarrow> revision list \<Rightarrow> delta_path \<Rightarrow> nat \<Rightarrow> nat \<Rightarrow> nat \<Rightarrow> nat \<Rightarrow> nat
     \<Rightarrow> array_match list \<Rightarrow> batch \<Rightarrow> batch option" where
  "processArrayMatches value region bs as path beforeAt beforeEnd afterAt afterEnd outputAt [] b =
     (if bt_overflowed b then Some b else region bs as path beforeAt beforeEnd afterAt afterEnd outputAt b)"
| "processArrayMatches value region bs as path beforeAt beforeEnd afterAt afterEnd outputAt ((i, j) # ms) b =
     (if bt_overflowed b then Some b
      else Option.bind (region bs as path beforeAt i afterAt j outputAt b) (\<lambda>b1.
        let out = outputAt + (j - afterAt)
        in Option.bind (if \<not> sameValue (bs ! i) (as ! j)
                        then value (bs ! i) (as ! j) (path @ [Index (int out)]) b1 else Some b1)
             (processArrayMatches value region bs as path (i + 1) beforeEnd (j + 1) afterEnd (out + 1) ms)))"

definition splice_region ::
  "revision list \<Rightarrow> delta_path \<Rightarrow> nat \<Rightarrow> nat \<Rightarrow> nat \<Rightarrow> nat \<Rightarrow> nat \<Rightarrow> batch \<Rightarrow> batch" where
  "splice_region as path b0 b1 a0 a1 out =
     emitOperation (OpSplice path (int out) (int (b1 - b0)) (map plain (sliced a0 a1 as)))"

definition diff_trimmed ::
  "value_fn \<Rightarrow> region_fn \<Rightarrow> region_fn" where
  "diff_trimmed value region bs as path b0 b1 a0 a1 out b =
     (if b1 - b0 = 0 \<and> a1 - a0 = 0 then Some b
      else if b1 - b0 = 0 \<or> a1 - a0 = 0 then Some (splice_region as path b0 b1 a0 a1 out b)
      else case region_matches bs b0 b1 as a0 a1 of
             m # ms \<Rightarrow> processArrayMatches value region bs as path b0 b1 a0 a1 out (m # ms) b
           | [] \<Rightarrow>
               if b1 - b0 = 1 \<and> a1 - a0 = 1
               then value (bs ! b0) (as ! a0) (path @ [Index (int out)]) b
               else Some (splice_region as path b0 b1 a0 a1 out b))"

definition diffArrayRegion :: "value_fn \<Rightarrow> region_fn \<Rightarrow> region_fn" where
  "diffArrayRegion value region bs as path beforeStart beforeEnd afterStart afterEnd outputStart b =
     (if bt_overflowed b then Some b
      else let p = trim_start bs beforeStart beforeEnd as afterStart afterEnd;
               q = trim_end bs (beforeStart + p) beforeEnd as (afterStart + p) afterEnd
           in diff_trimmed value region bs as path (beforeStart + p) (beforeEnd - q) (afterStart + p) (afterEnd - q)
                (outputStart + p) b)"

definition diffArray :: "region_fn \<Rightarrow> revision list \<Rightarrow> revision list \<Rightarrow> delta_path \<Rightarrow> batch \<Rightarrow> batch option" where
  "diffArray region bs as path b =
     (if length bs = length as \<and> equal_elems bs as then Some b
      else case (if length bs = length as \<and> length bs > 1
                   \<and> \<not> sameValue (hd bs) (hd as) \<and> \<not> sameValue (last bs) (last as)
                 then permutation bs as else None) of
        Some order \<Rightarrow> Some (emitOperation (OpReorder path (map int order)) b)
      | None \<Rightarrow> region bs as path 0 (length bs) 0 (length as) 0 b)"

fun diff_props ::
  "value_fn \<Rightarrow> (string \<times> revision) list \<Rightarrow> (string \<times> revision) list \<Rightarrow> delta_path \<Rightarrow> batch \<Rightarrow> batch option" where
  "diff_props value kvs [] path b = Some b"
| "diff_props value kvs ((k, v) # kvs') path b =
     (if bt_overflowed b then Some b
      else Option.bind
             (case map_of kvs k of
                Some w \<Rightarrow> value w v (path @ [Key k]) b
              | None \<Rightarrow> Some (emitSet (path @ [Key k]) v b))
             (diff_props value kvs kvs' path))"

definition plain_props :: "(string \<times> revision) list \<Rightarrow> (string \<times> json) list" where
  "plain_props kvs = map (\<lambda>(k, v). (k, plain v)) kvs"

definition diffObject ::
  "value_fn \<Rightarrow> (string \<times> revision) list \<Rightarrow> (string \<times> revision) list \<Rightarrow> delta_path \<Rightarrow> batch \<Rightarrow> batch option" where
  "diffObject value kvs kvs' path b =
     (if list_ex reserved_key (kvs @ kvs')
      then if length kvs = length kvs' \<and> equal_props kvs kvs' then Some b
           else Some (emitOperation
                  (if path = [] then OpReplace (JObj (plain_props kvs')) else OpSet path (JObj (plain_props kvs'))) b)
      else map_option (emit_deletes kvs kvs' path) (diff_props value kvs kvs' path b))"

definition diff_step :: "value_fn \<Rightarrow> region_fn \<Rightarrow> value_fn" where
  "diff_step value region old new path b =
     (if identical old new \<or> bt_overflowed b then Some b
      else case (old, new) of
        (RStr s, RStr t) \<Rightarrow> if path \<noteq> [] then Some (emitString s t path b) else Some (emitSet path new b)
      | (RArr i bs, RArr j as) \<Rightarrow> diffArray region bs as path b
      | (RObj i kvs, RObj j kvs') \<Rightarrow> diffObject value kvs kvs' path b
      | _ \<Rightarrow> Some (emitSet path new b))"

fun diffValue :: "nat \<Rightarrow> value_fn" and diff_region :: "nat \<Rightarrow> region_fn" where
  "diffValue 0 old new path b = None"
| "diffValue (Suc n) old new path b = diff_step (diffValue n) (diff_region n) old new path b"
| "diff_region 0 bs as path b0 b1 a0 a1 out b = None"
| "diff_region (Suc n) bs as path b0 b1 a0 a1 out b =
     diffArrayRegion (diffValue n) (diff_region n) bs as path b0 b1 a0 a1 out b"

section \<open>Choosing between the operations and the whole value\<close>

fun jsonCost :: "json \<Rightarrow> int"
and elems_cost :: "json list \<Rightarrow> int"
and props_cost :: "(string \<times> json) list \<Rightarrow> int" where
  "jsonCost JUndefined = 0"
| "jsonCost JNull = 4"
| "jsonCost (JStr s) = int (length s) + 2"
| "jsonCost (JNum s) = int (length s)"
| "jsonCost (JBool b) = (if b then 4 else 5)"
| "jsonCost (JArr xs) = 2 + elems_cost xs + (if xs = [] then 0 else int (length xs) - 1)"
| "jsonCost (JObj kvs) = 2 + props_cost kvs + (if kvs = [] then 0 else int (length kvs) - 1)"
| "elems_cost [] = 0"
| "elems_cost (x # xs) = jsonCost x + elems_cost xs"
| "props_cost [] = 0"
| "props_cost ((k, v) # kvs) = int (length k) + 3 + jsonCost v + props_cost kvs"

fun seg_cost :: "seg \<Rightarrow> int" where
  "seg_cost (Key k) = int (length k) + 2"
| "seg_cost (Index i) = int (length (dec_int i))"

definition pathCost :: "delta_path \<Rightarrow> int" where
  "pathCost path = 2 + sum_list (map seg_cost path) + (if path = [] then 0 else int (length path) - 1)"

definition number_cost :: "int \<Rightarrow> int" where
  "number_cost i = int (length (dec_int i))"

fun operationCost :: "delta_op \<Rightarrow> int" where
  "operationCost (OpReplace v) = 6 + jsonCost v"
| "operationCost (OpSet path v) = 7 + pathCost path + jsonCost v"
| "operationCost (OpDelete path) = 6 + pathCost path"
| "operationCost (OpAppend path s) = 7 + pathCost path + int (length s) + 2"
| "operationCost (OpTruncate path n) = 7 + pathCost path + number_cost n"
| "operationCost (OpSplice path i r items) =
     10 + pathCost path + number_cost i + number_cost r + jsonCost (JArr items)"
| "operationCost (OpReorder path perm) = 7 + pathCost path + jsonCost (JArr (map (\<lambda>i. JNum (dec_int i)) perm))"

definition choose_batch :: "revision \<Rightarrow> batch \<Rightarrow> delta_op list" where
  "choose_batch after b =
     (if bt_overflowed b then [OpReplace (plain after)]
      else if bt_ops b = [] \<or> isReplace (hd (bt_ops b)) then bt_ops b
      else let deltaCost = 2 + sum_list (map (\<lambda>op. operationCost op + 1) (bt_ops b))
           in if deltaCost < 65536 then bt_ops b
              else if deltaCost \<ge> jsonCost (plain after) + 6 then [OpReplace (plain after)] else bt_ops b)"

text \<open>Fuel for every call: a bound on their depth.\<close>

fun revision_size :: "revision \<Rightarrow> nat"
and revisions_size :: "revision list \<Rightarrow> nat"
and props_size :: "(string \<times> revision) list \<Rightarrow> nat" where
  "revision_size (RArr i xs) = 1 + revisions_size xs"
| "revision_size (RObj i kvs) = 1 + props_size kvs"
| "revision_size _ = 1"
| "revisions_size [] = 0"
| "revisions_size (x # xs) = revision_size x + revisions_size xs"
| "props_size [] = 0"
| "props_size ((k, v) # kvs) = revision_size v + props_size kvs"

definition diff_fuel :: "revision \<Rightarrow> revision \<Rightarrow> nat" where
  "diff_fuel old new = 3 * (revision_size old + revision_size new)"

definition diffRevisions :: "revision \<Rightarrow> revision \<Rightarrow> delta_op list option" where
  "diffRevisions old new =
     map_option (choose_batch new)
       (diffValue (diff_fuel old new) old new [] \<lparr>bt_ops = [], bt_overflowed = False\<rparr>)"

end
