(* ===== verification/Delta_Diff_Properties.thy ===== *)
theory Delta_Diff_Properties
  imports Delta_Diff
begin

text \<open>
  Applying the difference of two revisions to the first gives the second, up to the order of the
  keys of objects, and the fuel is enough.
\<close>

section \<open>Equality up to the order of keys\<close>

fun same_json :: "json \<Rightarrow> json \<Rightarrow> bool"
and same_elems :: "json list \<Rightarrow> json list \<Rightarrow> bool"
and same_props :: "(string \<times> json) list \<Rightarrow> (string \<times> json) list \<Rightarrow> bool" where
  "same_json (JArr xs) (JArr ys) = same_elems xs ys"
| "same_json (JObj kvs) (JObj kvs') = (same_props kvs kvs' \<and> set (map fst kvs') \<subseteq> set (map fst kvs))"
| "same_json v w = (v = w)"
| "same_elems [] [] = True"
| "same_elems (x # xs) (y # ys) = (same_json x y \<and> same_elems xs ys)"
| "same_elems _ _ = False"
| "same_props [] kvs' = True"
| "same_props ((k, v) # kvs) kvs' =
     ((case map_of kvs' k of None \<Rightarrow> False | Some w \<Rightarrow> same_json v w) \<and> same_props kvs kvs')"

lemma same_elems_iff: "same_elems xs ys \<longleftrightarrow> list_all2 same_json xs ys"
  by (induction xs ys rule: list_induct2') simp_all

lemma same_props_iff: "same_props kvs kvs' \<longleftrightarrow> (\<forall>(k, v) \<in> set kvs. \<exists>w. map_of kvs' k = Some w \<and> same_json v w)"
  by (induction kvs) (auto split: option.splits)

fun keys_distinct :: "json \<Rightarrow> bool" where
  "keys_distinct (JArr xs) = list_all keys_distinct xs"
| "keys_distinct (JObj kvs) = (distinct (map fst kvs) \<and> list_all (\<lambda>(k, v). keys_distinct v) kvs)"
| "keys_distinct v = True"

lemma same_json_refl: "keys_distinct v \<Longrightarrow> same_json v v"
proof (induction v)
  case (JArr xs)
  then show ?case by (auto simp: same_elems_iff list_all_iff list.rel_refl_strong)
next
  case (JObj kvs)
  then show ?case by (fastforce simp: same_props_iff list_all_iff)
qed auto

text \<open>The objects of one heap: an identity names one value, and the keys of an object are distinct.\<close>

fun subvalues :: "revision \<Rightarrow> revision list" where
  "subvalues (RArr i xs) = RArr i xs # concat (map subvalues xs)"
| "subvalues (RObj i kvs) = RObj i kvs # concat (map (\<lambda>(k, v). subvalues v) kvs)"
| "subvalues v = [v]"

fun own_keys :: "revision \<Rightarrow> string list" where
  "own_keys (RObj i kvs) = map fst kvs"
| "own_keys v = []"

definition coherent :: "revision list \<Rightarrow> bool" where
  "coherent vs \<longleftrightarrow> (\<forall>v \<in> set vs. distinct (own_keys v) \<and> (\<forall>w \<in> set vs. identical v w \<longrightarrow> v = w))"

lemma coherentD: "coherent U \<Longrightarrow> v \<in> set U \<Longrightarrow> w \<in> set U \<Longrightarrow> identical v w \<Longrightarrow> v = w"
  by (auto simp: coherent_def)

lemma coherent_keys: "coherent U \<Longrightarrow> RObj i kvs \<in> set U \<Longrightarrow> distinct (map fst kvs)"
  by (fastforce simp: coherent_def)

lemma subvalues_self [simp]: "v \<in> set (subvalues v)"
  by (cases v) simp_all

lemma subvalues_elem: "x \<in> set xs \<Longrightarrow> set (subvalues x) \<subseteq> set (subvalues (RArr i xs))"
  by auto

lemma subvalues_prop: "(k, v) \<in> set kvs \<Longrightarrow> set (subvalues v) \<subseteq> set (subvalues (RObj i kvs))"
  by force

lemma keys_distinct_plain: "(\<forall>w \<in> set (subvalues v). distinct (own_keys w)) \<Longrightarrow> keys_distinct (plain v)"
proof (induction v)
  case (RObj i kvs)
  then have "keys_distinct (plain v)" if "(k, v) \<in> set kvs" for k v
    using that subvalues_prop [OF that, of i] by fastforce
  with RObj.prems show ?case by (auto simp: list_all_iff comp_def case_prod_beta)
qed (auto simp: list_all_iff)

lemma same_json_plain: "coherent U \<Longrightarrow> set (subvalues v) \<subseteq> set U \<Longrightarrow> same_json (plain v) (plain v)"
  by (intro same_json_refl keys_distinct_plain) (auto simp: coherent_def)

lemma equal_props_keys: "equal_props kvs kvs' \<Longrightarrow> set (map fst kvs) \<subseteq> set (map fst kvs')"
proof (induction kvs)
  case (Cons kv kvs)
  then obtain w where "map_of kvs' (fst kv) = Some w" "equal_props kvs kvs'" by (cases kv) (auto split: option.splits)
  with Cons.IH show ?case by (auto dest!: map_of_SomeD simp: rev_image_eqI)
qed simp

lemma map_of_plain_props: "map_of (plain_props kvs) k = map_option plain (map_of kvs k)"
  by (induction kvs) (auto simp: plain_props_def)

lemma ident_of_eq [simp]:
  "ident_of v = INull \<longleftrightarrow> v = RNull" "ident_of v = IBool b \<longleftrightarrow> v = RBool b"
  "ident_of v = INum n \<longleftrightarrow> v = RNum n" "ident_of v = IStr s \<longleftrightarrow> v = RStr s"
  "INull = ident_of v \<longleftrightarrow> v = RNull" "IBool b = ident_of v \<longleftrightarrow> v = RBool b"
  "INum n = ident_of v \<longleftrightarrow> v = RNum n" "IStr s = ident_of v \<longleftrightarrow> v = RStr s"
  by (cases v; auto)+

lemma equalJson_same:
  assumes U: "coherent U"
  shows "set (subvalues l) \<subseteq> set U \<Longrightarrow> set (subvalues r) \<subseteq> set U \<Longrightarrow> equalJson l r \<Longrightarrow> same_json (plain l) (plain r)"
    and "(\<Union>x \<in> set xs. set (subvalues x)) \<subseteq> set U \<Longrightarrow> (\<Union>y \<in> set ys. set (subvalues y)) \<subseteq> set U
      \<Longrightarrow> length xs = length ys \<Longrightarrow> equal_elems xs ys \<Longrightarrow> list_all2 same_json (map plain xs) (map plain ys)"
    and "(\<Union>(k, v) \<in> set kvs. set (subvalues v)) \<subseteq> set U \<Longrightarrow> (\<Union>(k, v) \<in> set kvs'. set (subvalues v)) \<subseteq> set U
      \<Longrightarrow> equal_props kvs kvs' \<Longrightarrow> same_props (plain_props kvs) (plain_props kvs')"
proof (induction l r and xs ys and kvs kvs' rule: equalJson_equal_elems_equal_props.induct)
  case (1 i xs j ys)
  show ?case
  proof (cases "i = j")
    case True
    have "RArr i xs = RArr j ys" by (rule coherentD [OF U]) (use 1(2,3) True in \<open>auto simp: identical_def\<close>)
    then show ?thesis using same_json_plain [OF U 1(2)] by simp
  next
    case False
    with 1 show ?thesis by (simp add: same_elems_iff)
  qed
next
  case (2 i kvs j kvs')
  show ?case
  proof (cases "i = j")
    case True
    have "RObj i kvs = RObj j kvs'" by (rule coherentD [OF U]) (use 2(2,3) True in \<open>auto simp: identical_def\<close>)
    then show ?thesis using same_json_plain [OF U 2(2)] by simp
  next
    case False
    then have e: "length kvs = length kvs'" "equal_props kvs kvs'" using 2(4) by auto
    have "same_props (plain_props kvs) (plain_props kvs')" using 2 e False by (auto simp: case_prod_beta)
    moreover have "set (map fst kvs') \<subseteq> set (map fst kvs)"
    proof -
      have "distinct (map fst kvs)" "distinct (map fst kvs')" using coherent_keys [OF U] 2(2,3) by auto
      then have "card (set (map fst kvs)) = card (set (map fst kvs'))" using e(1) by (simp only: distinct_card length_map)
      with equal_props_keys [OF e(2)] have "set (map fst kvs) = set (map fst kvs')" by (intro card_subset_eq) simp_all
      then show ?thesis by simp
    qed
    ultimately show ?thesis by (simp add: plain_props_def comp_def case_prod_beta)
  qed
next
  case (7 k v kvs kvs')
  then obtain w where w: "map_of kvs' k = Some w" "equalJson v w" "equal_props kvs kvs'" by (auto split: option.splits)
  then have "(k, w) \<in> set kvs'" by (simp add: map_of_SomeD)
  then have "set (subvalues w) \<subseteq> set U" using 7(4) by blast
  with 7 w show ?case by (simp add: plain_props_def [of "_ # _"] plain_props_def [symmetric] map_of_plain_props)
qed (auto simp: identical_def plain_props_def)

lemma sameValue_same:
  "coherent U \<Longrightarrow> set (subvalues l) \<subseteq> set U \<Longrightarrow> set (subvalues r) \<subseteq> set U \<Longrightarrow> sameValue l r \<Longrightarrow> same_json (plain l) (plain r)"
  unfolding sameValue_def using equalJson_same(1) coherentD [of U l r] same_json_plain [of U l] subvalues_self by blast

section \<open>Edits at a path\<close>

fun get_at :: "delta_path \<Rightarrow> json \<Rightarrow> json option" where
  "get_at [] v = Some v"
| "get_at (s # path) v = (case own_child [] v s of Inr c \<Rightarrow> get_at path c | Inl e \<Rightarrow> None)"

fun put_at :: "delta_path \<Rightarrow> json \<Rightarrow> json \<Rightarrow> json" where
  "put_at [] y v = y"
| "put_at (s # path) y v = (case own_child [] v s of Inr c \<Rightarrow> put_child v s (put_at path y c) | Inl e \<Rightarrow> v)"

lemma own_child_Inr: "own_child full v s = Inr c \<longleftrightarrow> own_child [] v s = Inr c"
  by (auto simp: own_child_def split: json.splits seg.splits option.splits)

lemma own_child_put: "own_child [] v s = Inr c \<Longrightarrow> own_child [] (put_child v s c') s = Inr c'"
  by (auto simp: own_child_def put_child_def AList.update_conv' split: json.splits seg.splits option.splits if_splits)

lemma put_child_put: "own_child [] v s = Inr c \<Longrightarrow> put_child (put_child v s x) s y = put_child v s y"
  by (auto simp: own_child_def put_child_def split: json.splits seg.splits option.splits if_splits)

lemma get_at_ConsE:
  assumes "get_at (s # path) doc = Some x"
  obtains c where "own_child [] doc s = Inr c" and "get_at path c = Some x"
  using assms by (auto split: sum.splits)

lemma get_put: "get_at path doc = Some x \<Longrightarrow> get_at path (put_at path y doc) = Some y"
proof (induction path arbitrary: doc)
  case (Cons s path)
  then obtain c where c: "own_child [] doc s = Inr c" "get_at path c = Some x" by (elim get_at_ConsE)
  with Cons.IH [OF c(2)] own_child_put [OF c(1)] show ?case by simp
qed simp

lemma put_put: "get_at path doc = Some x \<Longrightarrow> put_at path z (put_at path y doc) = put_at path z doc"
proof (induction path arbitrary: doc)
  case (Cons s path)
  then obtain c where c: "own_child [] doc s = Inr c" "get_at path c = Some x" by (elim get_at_ConsE)
  with Cons.IH [OF c(2)] own_child_put [OF c(1)] put_child_put [OF c(1)] show ?case by simp
qed simp

lemma get_at_snoc: "get_at (path @ [s]) doc = Some c \<longleftrightarrow> (\<exists>x. get_at path doc = Some x \<and> own_child [] x s = Inr c)"
  by (induction path arbitrary: doc) (auto split: sum.splits)

lemma put_at_snoc:
  "get_at path doc = Some x \<Longrightarrow> own_child [] x s = Inr c \<Longrightarrow> put_at (path @ [s]) y doc = put_at path (put_child x s y) doc"
  by (induction path arbitrary: doc) (auto split: sum.splits)

lemma resolve_at: "get_at path doc = Some x \<Longrightarrow> is_container x \<Longrightarrow> f x = Inr y \<Longrightarrow> resolve_and full f path doc = Inr (put_at path y doc)"
proof (induction path arbitrary: doc)
  case (Cons s path)
  then obtain c where c: "own_child [] doc s = Inr c" "get_at path c = Some x" by (elim get_at_ConsE)
  with Cons.IH [OF c(2) Cons.prems(2,3)] own_child_Inr [of full doc s c] show ?case by simp
qed simp

text \<open>The operations turn the value \<open>x\<close> at the path into \<open>y\<close>, wherever the path is.\<close>

definition edits :: "delta_path \<Rightarrow> delta_op list \<Rightarrow> json \<Rightarrow> json \<Rightarrow> bool" where
  "edits path ops x y \<longleftrightarrow> (\<forall>doc. get_at path doc = Some x \<longrightarrow> applyOps ops doc = Inr (put_at path y doc))"

lemma applyOps_append: "applyOps (xs @ ys) doc = bind_exc (applyOps xs doc) (applyOps ys)"
proof (induction xs arbitrary: doc)
  case (Cons op xs)
  then show ?case by (cases "assertValidOp op"; cases "apply_op op doc") simp_all
qed simp

lemma put_same: "get_at path doc = Some x \<Longrightarrow> put_at path x doc = doc"
proof (induction path arbitrary: doc)
  case (Cons s path)
  then obtain c where c: "own_child [] doc s = Inr c" "get_at path c = Some x" by (elim get_at_ConsE)
  have "put_child doc s c = doc"
    using c(1) by (auto simp: own_child_def put_child_def update_triv split: json.splits seg.splits option.splits if_splits)
  with Cons.IH [OF c(2)] c show ?case by simp
qed simp

lemma edits_Nil: "edits path [] x x"
  by (simp add: edits_def put_same)

lemma edits_append: "edits path xs x y \<Longrightarrow> edits path ys y z \<Longrightarrow> edits path (xs @ ys) x z"
  by (auto simp: edits_def applyOps_append get_put put_put)

lemma edits_child:
  assumes "own_child [] x s = Inr c" and "edits (path @ [s]) ops c c'"
  shows "edits path ops x (put_child x s c')"
  unfolding edits_def using assms by (auto simp: edits_def get_at_snoc put_at_snoc)

lemma edits_op:
  assumes "assertValidOp op = Inr ()" and "\<And>doc. get_at path doc = Some x \<Longrightarrow> apply_op op doc = Inr (put_at path y doc)"
  shows "edits path [op] x y"
  using assms by (simp add: edits_def)

lemma at_parent_op:
  assumes "get_at path doc = Some p" and "is_container p" and "check_key p s = Inr ()" and "f s p = Inr p'"
  shows "at_parent (path @ [s]) f doc = Inr (put_at path p' doc)"
  using resolve_at [OF assms(1,2), of "\<lambda>parent. bind_exc (check_key parent s) (\<lambda>_. f s parent)" p'] assms(3,4)
  by (simp add: at_parent_def)

lemma own_child_key: "own_child [] p s = Inr c \<Longrightarrow> is_container p \<and> check_key p s = Inr ()"
  by (auto simp: own_child_def check_key_def split: json.splits seg.splits if_splits)

definition safe :: "delta_path \<Rightarrow> bool" where
  "safe path \<longleftrightarrow> assertSafePath path = Inr ()"

lemma safe_iff: "safe path \<longleftrightarrow> (\<forall>s \<in> set path. \<not> unsafe_seg s)"
  using find_None_iff [of unsafe_seg path] by (auto simp: safe_def assertSafePath_def split: option.splits)

lemma safe_Nil [simp]: "safe []"
  by (simp add: safe_iff)

lemma safe_snoc [simp]: "safe (path @ [s]) \<longleftrightarrow> safe path \<and> \<not> unsafe_seg s"
  by (auto simp: safe_iff)

text \<open>An operation on the child of a container.\<close>

lemma edits_in_child:
  assumes "assertValidOp op = Inr ()" and "\<And>doc. apply_op op doc = at_parent (path @ [s]) f doc"
    and "is_container p" and "check_key p s = Inr ()" and "f s p = Inr p'"
  shows "edits path [op] p p'"
  using at_parent_op [of path _ p s f p'] assms by (intro edits_op) simp_all

lemma edits_at_child:
  assumes "assertValidOp op = Inr ()" and "\<And>doc. apply_op op doc = at_parent path f doc" and "path \<noteq> []"
    and "\<And>p. own_child [] p (last path) = Inr c \<Longrightarrow> f (last path) p = Inr (put_child p (last path) c')"
  shows "edits path [op] c c'"
proof (rule edits_op [OF assms(1)])
  fix doc assume g: "get_at path doc = Some c"
  obtain q s where path: "path = q @ [s]" using assms(3) by (metis append_butlast_last_id)
  with g obtain p where p: "get_at q doc = Some p" "own_child [] p s = Inr c" by (auto simp: get_at_snoc)
  have "f s p = Inr (put_child p s c')" using assms(4) [of p] p(2) by (simp add: path)
  with own_child_key [OF p(2)] have "at_parent (q @ [s]) f doc = Inr (put_at q (put_child p s c') doc)"
    by (intro at_parent_op [OF p(1)]) simp_all
  with put_at_snoc [OF p] show "apply_op op doc = Inr (put_at path c' doc)" by (simp add: assms(2) path)
qed

lemma valid_nonempty: "path \<noteq> [] \<Longrightarrow> safe path \<Longrightarrow> assertPathArg path True = Inr ()"
  by (simp add: assertPathArg_def safe_def)

lemma edit_string_eq:
  "own_child [] p s = Inr (JStr t) \<Longrightarrow> edit_string path s f p = Inr (put_child p s (JStr (f t)))"
  using own_child_Inr [of path p s "JStr t"] by (simp add: edit_string_def)

lemma edits_set: "path \<noteq> [] \<Longrightarrow> safe path \<Longrightarrow> edits path [OpSet path v] x v"
  by (rule edits_at_child [where f = "\<lambda>key parent. Inr (put_child parent key v)"]) (simp_all add: valid_nonempty)

lemma edits_replace: "edits [] [OpReplace v] x v"
  by (rule edits_op) simp_all

lemma edits_append_text: "path \<noteq> [] \<Longrightarrow> safe path \<Longrightarrow> edits path [OpAppend path s] (JStr t) (JStr (t @ s))"
  by (rule edits_at_child [where f = "\<lambda>key. edit_string path key (\<lambda>t. t @ s)"]) (simp_all add: valid_nonempty edit_string_eq)

lemma edits_truncate:
  "path \<noteq> [] \<Longrightarrow> safe path \<Longrightarrow> 0 \<le> n \<Longrightarrow> edits path [OpTruncate path n] (JStr t) (JStr (drop (nat n) t))"
  by (rule edits_at_child [where f = "\<lambda>key. edit_string path key (drop (nat n))"]) (simp_all add: valid_nonempty edit_string_eq)

lemma edits_set_key:
  "safe (path @ [Key k]) \<Longrightarrow> edits path [OpSet (path @ [Key k]) v] (JObj kvs) (JObj (AList.update k v kvs))"
  by (rule edits_in_child [where s = "Key k" and f = "\<lambda>key parent. Inr (put_child parent key v)"]) (simp_all add: valid_nonempty check_key_def put_child_def)

lemma edits_delete_key:
  "safe (path @ [Key k]) \<Longrightarrow> edits path [OpDelete (path @ [Key k])] (JObj kvs) (JObj (AList.delete k kvs))"
  by (rule edits_in_child [where s = "Key k" and f = "delete_child (path @ [Key k])"]) (simp_all add: valid_nonempty check_key_def delete_child_def)

lemma edits_splice:
  "safe path \<Longrightarrow> 0 \<le> i \<Longrightarrow> 0 \<le> r \<Longrightarrow> edits path [OpSplice path i r items] (JArr xs) (JArr (splice_at i r items xs))"
  by (rule edits_op) (simp_all add: assertPathArg_def safe_def resolve_at splice_value_def)

lemma edits_reorder:
  "safe path \<Longrightarrow> assertPermutation perm = Inr () \<Longrightarrow> length perm = length xs \<Longrightarrow>
     edits path [OpReorder path perm] (JArr xs) (JArr (map (\<lambda>i. xs ! nat i) perm))"
  by (rule edits_op) (simp_all add: assertPathArg_def safe_def resolve_at reorder_value_def)

section \<open>Matches are increasing\<close>

definition increasing :: "array_match list \<Rightarrow> bool" where
  "increasing ms \<longleftrightarrow> sorted_wrt (<) (map fst ms) \<and> sorted_wrt (<) (map snd ms)"

definition matches_within :: "nat \<Rightarrow> nat \<Rightarrow> nat \<Rightarrow> nat \<Rightarrow> array_match list \<Rightarrow> bool" where
  "matches_within b0 b1 a0 a1 ms \<longleftrightarrow>
     increasing ms \<and> (\<forall>(i, j) \<in> set ms. b0 \<le> i \<and> i < b1 \<and> a0 \<le> j \<and> j < a1)"

lemma matches_within_Nil [simp]: "matches_within b0 b1 a0 a1 []"
  by (simp add: matches_within_def increasing_def)

lemma matches_within_Cons:
  "matches_within b0 b1 a0 a1 ((i, j) # ms) \<longleftrightarrow>
     b0 \<le> i \<and> i < b1 \<and> a0 \<le> j \<and> j < a1 \<and> matches_within (i + 1) b1 (j + 1) a1 ms"
  by (fastforce simp: matches_within_def increasing_def)

lemma positional_within:
  "b1 - b0 = n \<Longrightarrow> a1 - a0 = n \<Longrightarrow> matches_within b0 b1 a0 a1 (positional_matches bs b0 as a0 n)"
  by (auto simp: matches_within_def increasing_def positional_matches_def sorted_wrt_map intro!: sorted_wrt_filter)

lemma advance_spec: "i \<le> stop \<Longrightarrow> i \<le> advance p i stop \<and> advance p i stop \<le> stop"
proof (induction p i stop rule: advance.induct)
  case (1 p i stop)
  then show ?case by (subst (1 2) advance.simps) auto
qed

lemma match_each_spec:
  "match_each same is c stop = Some ms \<Longrightarrow> c \<le> stop \<Longrightarrow>
     map fst ms = is \<and> sorted_wrt (<) (map snd ms) \<and> (\<forall>j \<in> set (map snd ms). c \<le> j \<and> j < stop)"
proof (induction same "is" c stop arbitrary: ms rule: match_each.induct)
  case (2 same i "is" c stop)
  let ?j = "advance (same i) c stop"
  from advance_spec [OF 2(3)] have j: "c \<le> ?j" "?j \<le> stop" by simp_all
  from 2(2) obtain ms' where ms: "?j < stop" "match_each same is (Suc ?j) stop = Some ms'" "ms = (i, ?j) # ms'"
    using j by (auto simp: Let_def split: if_splits)
  from 2(1) [OF refl _ ms(2)] ms(1) have "map fst ms' = is \<and> sorted_wrt (<) (map snd ms')
      \<and> (\<forall>j \<in> set (map snd ms'). Suc ?j \<le> j \<and> j < stop)" by simp
  with ms j show ?case by fastforce
qed simp

lemma subsequence_within:
  assumes "identitySubsequence bs b0 b1 as a0 a1 = Some ms"
  shows "matches_within b0 b1 a0 a1 ms"
proof (cases "a1 - a0 < b1 - b0")
  case True
  with assms obtain ms' where "match_each (\<lambda>i j. identical (bs ! j) (as ! i)) [a0..<a1] b0 b1 = Some ms'"
    and ms: "ms = map (\<lambda>(i, j). (j, i)) ms'" by (auto simp: identitySubsequence_def)
  from match_each_spec [OF this(1)] True have m: "map fst ms' = [a0..<a1]" "sorted_wrt (<) (map snd ms')"
    "\<forall>j \<in> set (map snd ms'). b0 \<le> j \<and> j < b1" by auto
  have "map fst ms = map snd ms'" "map snd ms = map fst ms'" by (simp_all add: ms comp_def case_prod_beta)
  moreover from this have "i \<in> set (map snd ms') \<and> j \<in> set (map fst ms')" if "(i, j) \<in> set ms" for i j
    using that by (metis fst_conv snd_conv image_eqI set_map)
  ultimately show ?thesis using m by (fastforce simp: matches_within_def increasing_def)
next
  case False
  with assms have "match_each (\<lambda>i j. identical (bs ! i) (as ! j)) [b0..<b1] a0 a1 = Some ms" "a0 \<le> a1"
    by (auto simp: identitySubsequence_def split: if_splits)
  from match_each_spec [OF this] have m: "map fst ms = [b0..<b1]" "sorted_wrt (<) (map snd ms)"
    "\<forall>j \<in> set (map snd ms). a0 \<le> j \<and> j < a1" by auto
  have "i \<in> set (map fst ms) \<and> j \<in> set (map snd ms)" if "(i, j) \<in> set ms" for i j using that by force
  with m show ?thesis by (fastforce simp: matches_within_def increasing_def)
qed

lemma lcs_walk_within: "matches_within left n right m (lcs_walk eq t n m left right)"
proof (induction eq t n m left right rule: lcs_walk.induct)
  case (1 eq t n m left right)
  have weaker: "matches_within b0 b1 a0 a1 ms" if "matches_within b0' b1 a0' a1 ms" "b0 \<le> b0'" "a0 \<le> a0'" for b0 b0' b1 a0 a0' a1 ms
    using that by (fastforce simp: matches_within_def)
  show ?case
  proof (cases "left < n \<and> right < m")
    case lr: True
    consider (both) "eq left right \<and> t ! left ! right = t ! (left + 1) ! (right + 1) + 1"
      | (old) "\<not> (eq left right \<and> t ! left ! right = t ! (left + 1) ! (right + 1) + 1)" "t ! (left + 1) ! right \<ge> t ! left ! (right + 1)"
      | (new) "\<not> (eq left right \<and> t ! left ! right = t ! (left + 1) ! (right + 1) + 1)" "\<not> t ! (left + 1) ! right \<ge> t ! left ! (right + 1)"
      by blast
    then show ?thesis
    proof cases
      case both
      with 1(1) [OF lr both] lr show ?thesis by (subst lcs_walk.simps) (simp add: matches_within_Cons)
    next
      case old
      from weaker [OF 1(2) [OF lr old]] old lr show ?thesis by (subst lcs_walk.simps) auto
    next
      case new
      from weaker [OF 1(3) [OF lr new]] new lr show ?thesis by (subst lcs_walk.simps) auto
    qed
  next
    case False
    then have "lcs_walk eq t n m left right = []" by (subst lcs_walk.simps) (simp only: if_False)
    then show ?thesis by simp
  qed
qed

lemma lowerBound_spec:
  "sorted values \<Longrightarrow> low \<le> high \<Longrightarrow> high \<le> length values \<Longrightarrow>
     low \<le> lowerBound values v low high \<and> lowerBound values v low high \<le> high
     \<and> (\<forall>k. low \<le> k \<and> k < lowerBound values v low high \<longrightarrow> values ! k < v)
     \<and> (\<forall>k. lowerBound values v low high \<le> k \<and> k < high \<longrightarrow> v \<le> values ! k)"
proof (induction "values" v low high rule: lowerBound.induct)
  case (1 vs v low high)
  show ?case
  proof (cases "low < high")
    case True
    let ?m = "(low + high) div 2"
    have m: "low \<le> ?m" "?m < high" using True by auto
    show ?thesis
    proof (cases "vs ! ?m < v")
      case less: True
      with 1(1) [OF True refl less] 1(3-5) m have IH: "?m + 1 \<le> lowerBound vs v (?m + 1) high"
        "lowerBound vs v (?m + 1) high \<le> high"
        "\<forall>k. ?m + 1 \<le> k \<and> k < lowerBound vs v (?m + 1) high \<longrightarrow> vs ! k < v"
        "\<forall>k. lowerBound vs v (?m + 1) high \<le> k \<and> k < high \<longrightarrow> v \<le> vs ! k" by simp_all
      have "vs ! k < v" if "k < lowerBound vs v (?m + 1) high" for k
      proof (cases "k \<le> ?m")
        case True
        with sorted_nth_mono [OF 1(3) True] m 1(5) less show ?thesis by simp
      qed (use IH(3) that in auto)
      with IH m less True show ?thesis by (subst (1 2 3 4) lowerBound.simps) (auto simp: Let_def)
    next
      case ge: False
      with 1(2) [OF True refl ge] 1(3-5) m have IH: "low \<le> lowerBound vs v low ?m" "lowerBound vs v low ?m \<le> ?m"
        "\<forall>k. low \<le> k \<and> k < lowerBound vs v low ?m \<longrightarrow> vs ! k < v"
        "\<forall>k. lowerBound vs v low ?m \<le> k \<and> k < ?m \<longrightarrow> v \<le> vs ! k" by simp_all
      have "v \<le> vs ! k" if "lowerBound vs v low ?m \<le> k" "k < high" for k
      proof (cases "k < ?m")
        case False
        with sorted_nth_mono [OF 1(3), of ?m k] that 1(5) ge show ?thesis by simp
      qed (use IH(4) that in auto)
      with IH m ge True show ?thesis by (subst (1 2 3 4) lowerBound.simps) (auto simp: Let_def)
    qed
  next
    case False
    then have "lowerBound vs v low high = low" by (subst lowerBound.simps) (simp only: if_False)
    with False 1(4) show ?thesis by simp
  qed
qed

lemma positions_snoc:
  "from \<le> stop \<Longrightarrow> positions xs from (Suc stop) =
     AList.update (ident_of (xs ! stop)) (indices_of (positions xs from stop) (xs ! stop) @ [stop]) (positions xs from stop)"
  by (simp add: positions_def indices_of_def Let_def)

lemma indices_of_update: "indices_of (AList.update (ident_of v) is m) w = (if ident_of w = ident_of v then is else indices_of m w)"
  by (simp add: indices_of_def AList.update_conv')

lemma indices_of_positions:
  "indices_of (positions xs from stop) v = filter (\<lambda>i. ident_of (xs ! i) = ident_of v) [from..<stop]"
proof (induction stop)
  case (Suc stop)
  show ?case
  proof (cases "from \<le> stop")
    case True
    have "indices_of m (xs ! stop) = indices_of m v" if "ident_of (xs ! stop) = ident_of v" for m
      using that by (simp add: indices_of_def)
    with Suc True show ?thesis
      by (cases "ident_of (xs ! stop) = ident_of v") (simp_all add: positions_snoc indices_of_update)
  qed (simp add: positions_def indices_of_def)
qed (simp add: positions_def indices_of_def)

lemma indices_sorted: "sorted_wrt (<) (indices_of (positions xs from stop) v)"
  by (simp add: indices_of_positions sorted_wrt_filter)

lemma sorted_indices: "sorted (indices_of (positions xs from stop) v)"
  using indices_sorted [of xs "from" stop v] by (simp add: strict_sorted_iff)

lemma set_indices: "i \<in> set (indices_of (positions xs from stop) v) \<Longrightarrow> from \<le> i \<and> i < stop"
  by (simp add: indices_of_positions)

lemma greedy_within:
  "matches_within (max b0 next_index) b1 a0 a1 (greedy_from (positions bs b0 b1) as [a0..<a1] next_index)"
proof (induction "a1 - a0" arbitrary: a0 next_index)
  case (Suc n)
  let ?m = "positions bs b0 b1" and ?is = "indices_of (positions bs b0 b1) (as ! a0)"
  let ?p = "lowerBound ?is next_index 0 (length ?is)"
  have up: "[a0..<a1] = a0 # [Suc a0..<a1]" and n: "n = a1 - Suc a0" using Suc(2) by (simp_all add: upt_conv_Cons)
  have IH: "matches_within (max b0 k) b1 (Suc a0) a1 (greedy_from ?m as [Suc a0..<a1] k)" for k by (rule Suc(1) [OF n])
  have weaker: "matches_within b b1 a0 a1 ms" if "matches_within b b1 (Suc a0) a1 ms" for b ms
    using that by (fastforce simp: matches_within_def)
  show ?case
  proof (cases "?p < length ?is")
    case True
    from lowerBound_spec [OF sorted_indices, of 0 "length ?is" bs b0 b1 "as ! a0" next_index] True
    have "next_index \<le> ?is ! ?p" by simp
    moreover have "b0 \<le> ?is ! ?p" "?is ! ?p < b1" using set_indices [OF nth_mem [OF True]] by simp_all
    moreover have "max b0 (Suc (?is ! ?p)) = Suc (?is ! ?p)" using calculation by simp
    ultimately show ?thesis using IH [of "Suc (?is ! ?p)"] True Suc(2)
      unfolding up by (simp add: Let_def matches_within_Cons)
  next
    case False
    with weaker [OF IH [of next_index]] show ?thesis unfolding up by (simp add: Let_def)
  qed
qed simp

text \<open>The candidates so far: every one extends a chain that ends before it on both sides, the tails are
  sorted, and those of the current element of \<open>after\<close> are not before \<open>bound\<close>.\<close>

definition candidate_ok :: "nat \<Rightarrow> nat \<Rightarrow> nat \<Rightarrow> nat \<Rightarrow> match_candidate list \<Rightarrow> nat \<Rightarrow> bool" where
  "candidate_ok b0 b1 a0 a cs c \<longleftrightarrow>
     b0 \<le> mc_before (cs ! c) \<and> mc_before (cs ! c) < b1 \<and> a0 \<le> mc_after (cs ! c) \<and> mc_after (cs ! c) \<le> a
     \<and> (\<forall>p. mc_previous (cs ! c) = Some p \<longrightarrow>
          p < c \<and> mc_before (cs ! p) < mc_before (cs ! c) \<and> mc_after (cs ! p) < mc_after (cs ! c))"

definition anchors_ok :: "nat \<Rightarrow> nat \<Rightarrow> nat \<Rightarrow> nat \<Rightarrow> nat \<Rightarrow> anchors \<Rightarrow> bool" where
  "anchors_ok b0 b1 a0 a bound s \<longleftrightarrow>
     length (ac_tails s) = length (ac_tailValues s) \<and> sorted_wrt (<) (ac_tailValues s)
     \<and> (\<forall>t < length (ac_tails s). ac_tails s ! t < length (ac_candidates s)
           \<and> mc_before (ac_candidates s ! (ac_tails s ! t)) = ac_tailValues s ! t)
     \<and> (\<forall>c < length (ac_candidates s). candidate_ok b0 b1 a0 a (ac_candidates s) c
           \<and> (mc_after (ac_candidates s ! c) = a \<longrightarrow> bound \<le> mc_before (ac_candidates s ! c)))"

lemma candidate_ok_append: "c < length cs \<Longrightarrow> candidate_ok b0 b1 a0 a (cs @ [x]) c \<longleftrightarrow> candidate_ok b0 b1 a0 a cs c"
  by (auto simp: candidate_ok_def nth_append)

lemma sorted_set_at:
  assumes "sorted_wrt (<) xs" and "p \<le> length xs" and "\<forall>k < p. xs ! k < x" and "\<forall>k. p \<le> k \<and> k < length xs \<longrightarrow> x \<le> xs ! k"
  shows "sorted_wrt (<) (set_at p (x :: nat) xs)"
proof (cases "p < length xs")
  case True
  have "xs[p := x] ! i < xs[p := x] ! j" if "i < j" "j < length xs" for i j
  proof -
    have "xs ! i < xs ! j" using sorted_wrt_nth_less [OF assms(1) that] .
    moreover have "xs ! p < xs ! j" if "p < j" using sorted_wrt_nth_less [OF assms(1) that \<open>j < length xs\<close>] .
    ultimately show ?thesis using that assms(3,4) True by (cases "i = p"; cases "j = p") (auto intro: le_less_trans)
  qed
  with True show ?thesis by (simp add: set_at_def sorted_wrt_iff_nth_less)
next
  case False
  with assms show ?thesis by (auto simp: set_at_def sorted_wrt_append in_set_conv_nth)
qed

lemma nth_set_at: "p \<le> length xs \<Longrightarrow> k < length (set_at p x xs) \<Longrightarrow> set_at p x xs ! k = (if k = p then x else xs ! k)"
  by (auto simp: set_at_def nth_append)

lemma length_set_at: "p \<le> length xs \<Longrightarrow> length (set_at p x xs) = (if p = length xs then Suc p else length xs)"
  by (simp add: set_at_def)

lemma add_candidate_ok:
  assumes s: "anchors_ok b0 b1 a0 a bound s" and x: "b0 \<le> x" "x < b1" "x < bound" "a0 \<le> a"
  shows "anchors_ok b0 b1 a0 a x (add_candidate a x s)"
proof -
  let ?v = "ac_tailValues s" and ?t = "ac_tails s" and ?cs = "ac_candidates s"
  let ?p = "lowerBound ?v x 0 (length ?v)"
  let ?c = "\<lparr>mc_before = x, mc_after = a, mc_previous = (if ?p = 0 then None else Some (?t ! (?p - 1)))\<rparr>"
  have len: "length ?t = length ?v" and strict: "sorted_wrt (<) ?v" using s by (simp_all add: anchors_ok_def)
  have tails: "?t ! k < length ?cs" "mc_before (?cs ! (?t ! k)) = ?v ! k" if "k < length ?t" for k
    using s that by (simp_all add: anchors_ok_def)
  have cands: "candidate_ok b0 b1 a0 a ?cs c" "mc_after (?cs ! c) = a \<longrightarrow> bound \<le> mc_before (?cs ! c)" if "c < length ?cs" for c
    using s that by (simp_all add: anchors_ok_def)
  from lowerBound_spec [of ?v 0 "length ?v" x] strict have p: "?p \<le> length ?v" "\<forall>k < ?p. ?v ! k < x"
    "\<forall>k. ?p \<le> k \<and> k < length ?v \<longrightarrow> x \<le> ?v ! k" by (auto simp: strict_sorted_iff)
  have add: "add_candidate a x s =
      \<lparr>ac_candidates = ?cs @ [?c], ac_tails = set_at ?p (length ?cs) ?t, ac_tailValues = set_at ?p x ?v\<rparr>"
    by (simp add: add_candidate_def Let_def)
  have new: "candidate_ok b0 b1 a0 a (?cs @ [?c]) (length ?cs)"
  proof (cases "?p = 0")
    case False
    let ?q = "?t ! (?p - 1)"
    have k: "?p - 1 < length ?t" "?p - 1 < ?p" using False p(1) len by linarith+
    have q: "?q < length ?cs" "mc_before (?cs ! ?q) < x" using tails [OF k(1)] p(2) k(2) by auto
    moreover from cands(1) [OF q(1)] have "mc_after (?cs ! ?q) \<le> a" by (simp add: candidate_ok_def)
    moreover have "mc_after (?cs ! ?q) \<noteq> a" using cands(2) [OF q(1)] q(2) x(3) by auto
    ultimately show ?thesis using x False by (auto simp: candidate_ok_def nth_append)
  qed (use x in \<open>simp add: candidate_ok_def\<close>)
  show ?thesis
    unfolding anchors_ok_def add
  proof (intro conjI allI impI; simp only: anchors.simps)
    show "length (set_at ?p (length ?cs) ?t) = length (set_at ?p x ?v)" using p(1) len by (simp add: length_set_at)
    show "sorted_wrt (<) (set_at ?p x ?v)" by (rule sorted_set_at [OF strict p])
  next
    fix k assume k: "k < length (set_at ?p (length ?cs) ?t)"
    then have k': "k < length (set_at ?p x ?v)" using p(1) len by (simp add: length_set_at split: if_splits)
    have "k \<noteq> ?p \<Longrightarrow> k < length ?t" using k p(1) len by (simp add: length_set_at split: if_splits)
    then show "set_at ?p (length ?cs) ?t ! k < length (?cs @ [?c])"
      and "mc_before ((?cs @ [?c]) ! (set_at ?p (length ?cs) ?t ! k)) = set_at ?p x ?v ! k"
      using tails [of k] k k' p(1) len by (auto simp: nth_set_at nth_append)
  next
    fix c assume c: "c < length (?cs @ [?c])"
    then consider "c < length ?cs" | "c = length ?cs" by fastforce
    then show "candidate_ok b0 b1 a0 a (?cs @ [?c]) c"
      using new cands(1) by cases (simp_all add: candidate_ok_append)
    show "mc_after ((?cs @ [?c]) ! c) = a \<Longrightarrow> x \<le> mc_before ((?cs @ [?c]) ! c)"
      using cands(2) [of c] c x(3) by (cases "c < length ?cs") (auto simp: nth_append)
  qed
qed

lemma add_candidates_ok:
  "anchors_ok b0 b1 a0 a bound s \<Longrightarrow> a0 \<le> a \<Longrightarrow> sorted_wrt (>) is \<Longrightarrow> \<forall>i \<in> set is. b0 \<le> i \<and> i < b1 \<and> i < bound \<Longrightarrow>
     \<exists>bound'. anchors_ok b0 b1 a0 a bound' (fold (add_candidate a) is s)"
proof (induction "is" arbitrary: bound s)
  case (Cons i "is")
  then have "anchors_ok b0 b1 a0 a i (add_candidate a i s)" by (intro add_candidate_ok [OF Cons.prems(1)]) simp_all
  from Cons.IH [OF this] Cons.prems show ?case by simp
qed auto

lemma anchors_next: "anchors_ok b0 b1 a0 a bound s \<Longrightarrow> anchors_ok b0 b1 a0 (Suc a) bound' s"
  by (fastforce simp: anchors_ok_def candidate_ok_def)

lemma collect_anchors_ok:
  assumes "a0 < a1"
  shows "\<exists>bound. anchors_ok b0 b1 a0 (a1 - 1) bound (collect_anchors (positions bs b0 b1) as a0 a1)"
proof -
  let ?m = "positions bs b0 b1"
  let ?s = "\<lambda>n. fold (\<lambda>i. fold (add_candidate i) (rev (indices_of ?m (as ! i)))) [a0..<a0 + n]
       \<lparr>ac_candidates = [], ac_tails = [], ac_tailValues = []\<rparr>"
  have desc: "sorted_wrt (>) (rev (indices_of ?m v))" "\<forall>i \<in> set (rev (indices_of ?m v)). b0 \<le> i \<and> i < b1 \<and> i < b1" for v
    using indices_sorted [of bs b0 b1 v] by (simp add: sorted_wrt_rev, auto simp: set_indices)
  have "\<exists>bound. anchors_ok b0 b1 a0 (a0 + n) bound (?s (Suc n))" for n
  proof (induction n)
    case 0
    have "anchors_ok b0 b1 a0 a0 b1 (?s 0)" by (simp add: anchors_ok_def)
    from add_candidates_ok [OF this _ desc] show ?case by simp
  next
    case (Suc n)
    then obtain bound where "anchors_ok b0 b1 a0 (a0 + n) bound (?s (Suc n))" by blast
    from add_candidates_ok [OF anchors_next [OF this, of b1] _ desc] show ?case by simp
  qed
  from this [of "a1 - a0 - 1"] assms show ?thesis by (simp add: collect_anchors_def)
qed

lemma matches_within_snoc:
  "matches_within b0 b1 a0 a1 (ms @ [(i, j)]) \<longleftrightarrow>
     matches_within b0 i a0 j ms \<and> b0 \<le> i \<and> i < b1 \<and> a0 \<le> j \<and> j < a1"
  by (fastforce simp: matches_within_def increasing_def sorted_wrt_append)

lemma chain_within:
  assumes "\<forall>c < length cs. candidate_ok b0 b1 a0 a cs c" and "i < length cs"
  shows "matches_within b0 (Suc (mc_before (cs ! i))) a0 (Suc (mc_after (cs ! i))) (chain_from n cs (Some i))"
  using assms(2)
proof (induction n arbitrary: i)
  case (Suc n)
  have ok: "candidate_ok b0 b1 a0 a cs i" using assms(1) Suc.prems by simp
  show ?case
  proof (cases "mc_previous (cs ! i)")
    case None
    with ok show ?thesis by (cases n) (simp_all add: candidate_ok_def matches_within_Cons)
  next
    case (Some p)
    with ok have p: "p < i" "mc_before (cs ! p) < mc_before (cs ! i)" "mc_after (cs ! p) < mc_after (cs ! i)"
      by (simp_all add: candidate_ok_def)
    have "matches_within b0 (mc_before (cs ! i)) a0 (mc_after (cs ! i)) (chain_from n cs (Some p))"
      using Suc.IH [of p] p Suc.prems by (fastforce simp: matches_within_def)
    with ok Some show ?thesis by (simp add: matches_within_snoc candidate_ok_def)
  qed
qed simp

text \<open>More steps than candidates do not make the chain longer.\<close>

lemma chain_long_enough:
  assumes "\<forall>c < length cs. candidate_ok b0 b1 a0 a cs c" and "i < length cs" and "i < n"
  shows "chain_from n cs (Some i) = chain_from (Suc n) cs (Some i)"
  using assms(2,3)
proof (induction n arbitrary: i)
  case (Suc n)
  show ?case
  proof (cases "mc_previous (cs ! i)")
    case None
    then show ?thesis by (cases n) simp_all
  next
    case (Some p)
    have "candidate_ok b0 b1 a0 a cs i" using assms(1) Suc.prems by simp
    with Some have "p < i" by (simp add: candidate_ok_def)
    with Suc.IH [of p] Suc.prems Some show ?thesis by simp
  qed
qed simp

lemma identity_within: "matches_within b0 b1 a0 a1 (identityAnchors bs b0 b1 as a0 a1)"
proof (cases "a0 < a1")
  case True
  let ?s = "collect_anchors (positions bs b0 b1) as a0 a1"
  from collect_anchors_ok [OF True] obtain bound where ok: "anchors_ok b0 b1 a0 (a1 - 1) bound ?s" by blast
  have "matches_within b0 b1 a0 a1 (chain_from n (ac_candidates ?s) (Some (last (ac_tails ?s))))" if "ac_tails ?s \<noteq> []" for n
  proof -
    have i: "last (ac_tails ?s) < length (ac_candidates ?s)"
    proof -
      have "length (ac_tails ?s) - 1 < length (ac_tails ?s)" using that by simp
      with ok have "ac_tails ?s ! (length (ac_tails ?s) - 1) < length (ac_candidates ?s)" unfolding anchors_ok_def by blast
      with that show ?thesis by (simp add: last_conv_nth)
    qed
    have all: "\<forall>c < length (ac_candidates ?s). candidate_ok b0 b1 a0 (a1 - 1) (ac_candidates ?s) c"
      using ok by (simp add: anchors_ok_def)
    have "candidate_ok b0 b1 a0 (a1 - 1) (ac_candidates ?s) (last (ac_tails ?s))" using all i by blast
    with chain_within [OF all i, of n] True show ?thesis by (fastforce simp: candidate_ok_def matches_within_def)
  qed
  then show ?thesis
    using greedy_within [of b0 0 b1 a0 a1 bs as] by (auto simp: identityAnchors_def Let_def greedyIdentityAnchors_def)
next
  case False
  then show ?thesis by (simp add: identityAnchors_def Let_def MAX_IDENTITY_CANDIDATES_def)
qed

lemma lcs_within:
  assumes "lcsMatches xs ys eq n = Some ms"
  shows "matches_within 0 (length xs) 0 (length ys) ms"
  using assms by (auto simp: lcsMatches_def lcs_walk_within split: if_splits)

lemma region_matches_within:
  assumes "b0 \<le> b1" and "b1 \<le> length bs" and "a0 \<le> a1" and "a1 \<le> length as"
  shows "matches_within b0 b1 a0 a1 (region_matches bs b0 b1 as a0 a1)"
proof -
  have shift: "matches_within b0 b1 a0 a1 (map (\<lambda>(i, j). (b0 + i, a0 + j)) ms)"
    if "matches_within 0 (b1 - b0) 0 (a1 - a0) ms" for ms
    using that by (induction ms) (auto simp: matches_within_def increasing_def comp_def case_prod_beta sorted_wrt_map)
  have "matches_within b0 b1 a0 a1 (map (\<lambda>(i, j). (b0 + i, a0 + j)) ms)"
    if "lcsMatches (sliced b0 b1 bs) (sliced a0 a1 as) semanticallyAligned MAX_SEMANTIC_CELLS = Some ms" for ms
    using lcs_within [OF that] assms by (intro shift) (simp add: sliced_def)
  moreover note positional_within [of b1 b0 _ a1 a0 bs as] subsequence_within [of bs b0 b1 as a0 a1] identity_within [of b0 b1 a0 a1 bs as]
  ultimately show ?thesis
    unfolding region_matches_def Let_def by (auto split: option.split list.split)
qed

end
