(* ===== verification/Delta_Diff_Correct.thy ===== *)
theory Delta_Diff_Correct
  imports Delta_Diff_Properties
begin

text \<open>
  What every function of the difference adds to the batch: operations that turn the value at its path
  into the new one. The recursion through values and regions of arrays is closed by induction on the
  fuel.
\<close>

section \<open>Reordering\<close>

definition positions_ok :: "revision list \<Rightarrow> (ident, nat list) jsmap \<Rightarrow> bool" where
  "positions_ok bs m \<longleftrightarrow>
     (\<forall>v. distinct (indices_of m v) \<and> (\<forall>i \<in> set (indices_of m v). i < length bs \<and> ident_of (bs ! i) = ident_of v))"

lemma take_positions_spec:
  "positions_ok bs m \<Longrightarrow> take_positions m vs = Some is \<Longrightarrow>
     distinct is \<and> list_all2 (\<lambda>i v. i \<in> set (indices_of m v)) is vs"
proof (induction vs arbitrary: m "is")
  case (Cons v vs)
  from Cons.prems(2) obtain i left is' where v: "indices_of m v = i # left" and "is = i # is'"
    and rest: "take_positions (AList.update (ident_of v) left m) vs = Some is'" by (auto split: list.splits)
  let ?m = "AList.update (ident_of v) left m"
  have ok: "distinct (indices_of m w)" "\<And>j. j \<in> set (indices_of m w) \<Longrightarrow> j < length bs \<and> ident_of (bs ! j) = ident_of w" for w
    using Cons.prems(1) by (auto simp: positions_ok_def)
  have same: "indices_of m w = i # left" if "ident_of w = ident_of v" for w using v that by (simp add: indices_of_def)
  have sub: "set (indices_of ?m w) \<subseteq> set (indices_of m w)" and no: "i \<notin> set (indices_of ?m w)" for w
    using same [of w] ok(1) [of w] ok(2) [of _ w] ok(2) [of i v] ok(1) [of v] v by (auto simp: indices_of_update split: if_splits)
  have "distinct (indices_of ?m w)" for w using ok(1) [of w] ok(1) [of v] v by (simp add: indices_of_update)
  then have "positions_ok bs ?m" using sub ok(2) unfolding positions_ok_def by blast
  from Cons.IH [OF this rest] have IH: "distinct is'" "list_all2 (\<lambda>i v. i \<in> set (indices_of ?m v)) is' vs" by simp_all
  moreover have "i \<notin> set is'" using IH(2) no by (auto simp: list_all2_conv_all_nth in_set_conv_nth)
  moreover have "list_all2 (\<lambda>i v. i \<in> set (indices_of m v)) is' vs"
    using IH(2) sub by (elim list_all2_mono) blast
  ultimately show ?case using v \<open>is = i # is'\<close> by simp
qed simp

lemma all_new: "distinct (seen @ xs) \<Longrightarrow> \<forall>i \<in> set xs. 0 \<le> i \<and> i < n \<Longrightarrow> all_new_indices n seen xs"
  by (induction xs arbitrary: seen) auto

lemma permutation_spec:
  assumes "permutation bs as = Some p"
  shows "assertPermutation (map int p) = Inr ()" and "length p = length bs" and "length bs = length as"
    and "list_all2 (\<lambda>i v. i < length bs \<and> identical (bs ! i) v) p as"
proof -
  have len: "length bs = length as" and t: "take_positions (positions bs 0 (length bs)) as = Some p"
    using assms by (auto simp: permutation_def split: if_splits)
  have "positions_ok bs (positions bs 0 (length bs))" by (simp add: positions_ok_def indices_of_positions)
  from take_positions_spec [OF this t] have d: "distinct p"
    and in': "list_all2 (\<lambda>i v. i \<in> set (indices_of (positions bs 0 (length bs)) v)) p as" by simp_all
  show "length bs = length as" by (rule len)
  show l: "length p = length bs" using in' len by (simp add: list_all2_lengthD)
  show all: "list_all2 (\<lambda>i v. i < length bs \<and> identical (bs ! i) v) p as"
    using in' by (elim list_all2_mono) (simp add: indices_of_positions identical_def)
  then have "\<forall>i \<in> set p. i < length bs" by (auto simp: list_all2_conv_all_nth in_set_conv_nth)
  then have "all_new_indices (int (length p)) [] (map int p)" using d l by (intro all_new) (auto simp: distinct_map)
  then show "assertPermutation (map int p) = Inr ()" by (simp add: assertPermutation_def)
qed

section \<open>What a step of the difference adds\<close>

definition outcome :: "delta_path \<Rightarrow> json \<Rightarrow> (json \<Rightarrow> bool) \<Rightarrow> batch \<Rightarrow> batch \<Rightarrow> bool" where
  "outcome path x P b b' \<longleftrightarrow>
     bt_overflowed b' \<or> \<not> bt_overflowed b \<and> (\<exists>ops y. bt_ops b' = bt_ops b @ ops \<and> edits path ops x y \<and> P y)"

lemma outcome_emit: "edits path [op] x y \<Longrightarrow> P y \<Longrightarrow> outcome path x P b (emitOperation op b)"
  by (auto simp: outcome_def emitOperation_def)

lemma outcome_none: "P x \<Longrightarrow> outcome path x P b b"
  using edits_Nil [of path x] unfolding outcome_def by (metis append_Nil2)

lemma outcome_overflow: "bt_overflowed b' \<Longrightarrow> outcome path x P b b'"
  by (simp add: outcome_def)

lemma outcome_mono: "outcome path x P b b' \<Longrightarrow> bt_overflowed b \<Longrightarrow> bt_overflowed b'"
  by (auto simp: outcome_def)

lemma outcome_trans:
  assumes "outcome path x P b b1" and "\<And>y. P y \<Longrightarrow> outcome path y Q b1 b2" and "bt_overflowed b1 \<Longrightarrow> bt_overflowed b2"
  shows "outcome path x Q b b2"
proof (cases "bt_overflowed b2")
  case False
  with assms(1,3) obtain ops y where 1: "\<not> bt_overflowed b" "bt_ops b1 = bt_ops b @ ops" "edits path ops x y" "P y"
    by (auto simp: outcome_def)
  from assms(2) [OF 1(4)] False obtain ops' z where "bt_ops b2 = bt_ops b1 @ ops'" "edits path ops' y z" "Q z"
    by (auto simp: outcome_def)
  with 1 edits_append [OF 1(3)] show ?thesis unfolding outcome_def by (metis append_assoc)
qed (rule outcome_overflow)

lemma outcome_weaken: "outcome path x P b b' \<Longrightarrow> (\<And>y. P y \<Longrightarrow> Q y) \<Longrightarrow> outcome path x Q b b'"
  by (auto simp: outcome_def)

lemma outcome_child:
  assumes "own_child [] x s = Inr c" and "outcome (path @ [s]) c P b b'" and "\<And>c'. P c' \<Longrightarrow> Q (put_child x s c')"
  shows "outcome path x Q b b'"
  using assms(2,3) edits_child [OF assms(1)] unfolding outcome_def by blast

lemma emit_overflow: "bt_overflowed b \<Longrightarrow> emitOperation op b = b"
  by (simp add: emitOperation_def)

lemma try_candidates_spec:
  "try_candidates left part b head start = Some n \<Longrightarrow> n \<le> length part \<and> n \<le> length b \<and> drop (length part - n) part = take n b"
proof (induction left part b head start rule: try_candidates.induct)
  case (2 left part b head start)
  then obtain k where k: "index_from part head start = Some k" by (cases "index_from part head start") auto
  let ?n = "length part - k"
  show ?case
  proof (cases "?n \<le> length b \<and> drop k part = take ?n b")
    case True
    with 2(2) k have "n = ?n" by (simp add: Let_def)
    with True show ?thesis by (cases "k \<le> length part") simp_all
  next
    case False
    with 2(2) k have "try_candidates left part b head (k + 1) = Some n" by (simp add: Let_def split: if_splits)
    from 2(1) [OF k refl False this] show ?thesis .
  qed
qed simp

lemma overlap_spec:
  "overlap a b scan \<le> length a \<and> overlap a b scan \<le> length b \<and> drop (length a - overlap a b scan) a = take (overlap a b scan) b"
proof -
  define part where "part = (if length a > scan then drop (length a - scan) a else a)"
  have part: "length part \<le> length a" "part = drop (length a - length part) a" by (auto simp: part_def)
  have "n \<le> length a \<and> n \<le> length b \<and> drop (length a - n) a = take n b"
    if "try_candidates 8 part b head 0 = Some n" for head n
  proof -
    from try_candidates_spec [OF that] have n: "n \<le> length part" "n \<le> length b" "drop (length part - n) part = take n b" by simp_all
    have "drop (length part - n) part = drop (length a - n) a"
      by (subst part(2)) (use n(1) part(1) in \<open>simp add: drop_drop\<close>)
    with n part(1) show ?thesis by simp
  qed
  then show ?thesis
    unfolding overlap_def part_def [symmetric] Let_def by (auto split: option.split)
qed

lemma emitString_outcome:
  assumes "path \<noteq> []" and "safe path"
  shows "outcome path (JStr s) (\<lambda>y. y = JStr t) b (emitString s t path b)"
proof -
  let ?n = "overlap s t DEFAULT_OVERLAP_SCAN"
  note spec = overlap_spec [of s t DEFAULT_OVERLAP_SCAN]
  have 1: "outcome path (JStr s) (\<lambda>y. y = JStr t) b (emitOperation (OpAppend path (drop (length s) t)) b)"
    if "take (length s) t = s"
    using edits_append_text [OF assms, of "drop (length s) t" s] that by (intro outcome_emit) (simp, metis append_take_drop_id)
  have 2: "outcome path (JStr s) (\<lambda>y. y = JStr t) b (emitOperation (OpSet path (JStr t)) b)"
    by (rule outcome_emit [OF edits_set [OF assms]]) simp
  let ?b1 = "emitOperation (OpTruncate path (int (length s) - int ?n)) b"
  have t1: "outcome path (JStr s) (\<lambda>y. y = JStr (take ?n t)) b ?b1"
    using edits_truncate [OF assms, of "int (length s) - int ?n" s] spec by (intro outcome_emit) (auto simp: nat_diff_distrib)
  have t2: "outcome path (JStr (take ?n t)) (\<lambda>y. y = JStr t) b' (emitOperation (OpAppend path (drop ?n t)) b')" for b'
    using edits_append_text [OF assms, of "drop ?n t" "take ?n t"] by (intro outcome_emit) simp_all
  have 3: "outcome path (JStr s) (\<lambda>y. y = JStr t) b (emitOperation (OpAppend path (drop ?n t)) ?b1)"
    by (rule outcome_trans [OF t1]) (use t2 in \<open>simp_all add: emitOperation_def\<close>)
  show ?thesis
    using 1 2 3 t1 spec outcome_none [of "\<lambda>y. y = JStr t" "JStr s" path b]
    by (auto simp: emitString_def Let_def)
qed

section \<open>The difference of arrays\<close>

lemma revision_size_pos: "0 < revision_size v"
  by (cases v) simp_all

lemma revisions_size_append: "revisions_size (xs @ ys) = revisions_size xs + revisions_size ys"
  by (induction xs) simp_all

lemma sliced_split: "i \<le> j \<Longrightarrow> j < k \<Longrightarrow> k \<le> length xs \<Longrightarrow> sliced i k xs = sliced i j xs @ xs ! j # sliced (Suc j) k xs"
proof -
  assume a: "i \<le> j" "j < k" "k \<le> length xs"
  have "sliced i k xs = take (j - i) (drop i xs) @ take (k - j) (drop j xs)"
  proof -
    have "take (k - i) (drop i xs) = take (j - i + (k - j)) (drop i xs)" using a by simp
    also have "\<dots> = take (j - i) (drop i xs) @ take (k - j) (drop (j - i) (drop i xs))" by (rule take_add)
    finally show ?thesis using a by (simp add: sliced_def)
  qed
  also have "take (k - j) (drop j xs) = xs ! j # take (k - Suc j) (drop (Suc j) xs)"
    using a by (simp add: Cons_nth_drop_Suc [symmetric] Suc_diff_le take_Cons')
  finally show ?thesis by (simp add: sliced_def)
qed

lemma sliced_append: "i \<le> j \<Longrightarrow> j \<le> k \<Longrightarrow> k \<le> length xs \<Longrightarrow> sliced i k xs = sliced i j xs @ sliced j k xs"
proof -
  assume a: "i \<le> j" "j \<le> k" "k \<le> length xs"
  have "take (k - i) (drop i xs) = take (j - i + (k - j)) (drop i xs)" using a by simp
  also have "\<dots> = take (j - i) (drop i xs) @ take (k - j) (drop (j - i) (drop i xs))" by (rule take_add)
  finally show ?thesis using a by (simp add: sliced_def)
qed

lemma length_sliced: "j \<le> length xs \<Longrightarrow> length (sliced i j xs) = j - i"
  by (simp add: sliced_def)

lemma sliced_all: "sliced 0 (length xs) xs = xs"
  by (simp add: sliced_def)

lemma sliced_single: "i < length xs \<Longrightarrow> sliced i (Suc i) xs = [xs ! i]"
  using sliced_split [of i i "Suc i" xs] by (simp add: sliced_def)

lemma nth_sliced: "k < j - i \<Longrightarrow> j \<le> length xs \<Longrightarrow> sliced i j xs ! k = xs ! (i + k)"
  by (simp add: sliced_def)

definition in_heap :: "revision list \<Rightarrow> revision list \<Rightarrow> bool" where
  "in_heap U xs \<longleftrightarrow> (\<forall>x \<in> set xs. set (subvalues x) \<subseteq> set U)"

lemma in_heap_nth: "in_heap U xs \<Longrightarrow> i < length xs \<Longrightarrow> set (subvalues (xs ! i)) \<subseteq> set U"
  by (simp add: in_heap_def)

text \<open>What the recursive calls promise with fuel \<open>N\<close>.\<close>

definition value_ok :: "revision list \<Rightarrow> nat \<Rightarrow> value_fn \<Rightarrow> bool" where
  "value_ok U N f \<longleftrightarrow>
     (\<forall>old new path b. 3 * (revision_size old + revision_size new) \<le> N \<longrightarrow> in_heap U [old, new] \<longrightarrow> safe path \<longrightarrow>
        (\<exists>b'. f old new path b = Some b' \<and> outcome path (plain old) (\<lambda>y. same_json y (plain new)) b b'))"

definition region_outcome ::
  "revision list \<Rightarrow> revision list \<Rightarrow> delta_path \<Rightarrow> nat \<Rightarrow> nat \<Rightarrow> nat \<Rightarrow> nat \<Rightarrow> json list \<Rightarrow> json list \<Rightarrow> batch \<Rightarrow> batch \<Rightarrow> bool" where
  "region_outcome bs as path b0 b1 a0 a1 L R b b' \<longleftrightarrow>
     outcome path (JArr (L @ map plain (sliced b0 b1 bs) @ R))
       (\<lambda>y. \<exists>new. y = JArr (L @ new @ R) \<and> list_all2 same_json new (map plain (sliced a0 a1 as))) b b'"

definition region_size :: "revision list \<Rightarrow> revision list \<Rightarrow> nat \<Rightarrow> nat \<Rightarrow> nat \<Rightarrow> nat \<Rightarrow> nat" where
  "region_size bs as b0 b1 a0 a1 = revisions_size (sliced b0 b1 bs) + revisions_size (sliced a0 a1 as)"

definition region_ok :: "revision list \<Rightarrow> nat \<Rightarrow> region_fn \<Rightarrow> bool" where
  "region_ok U N f \<longleftrightarrow>
     (\<forall>bs as path b0 b1 a0 a1 L R b.
        3 * region_size bs as b0 b1 a0 a1 + 2 \<le> N \<longrightarrow> b0 \<le> b1 \<longrightarrow> b1 \<le> length bs \<longrightarrow> a0 \<le> a1 \<longrightarrow> a1 \<le> length as
        \<longrightarrow> in_heap U bs \<longrightarrow> in_heap U as \<longrightarrow> safe path \<longrightarrow>
        (\<exists>b'. f bs as path b0 b1 a0 a1 (length L) b = Some b' \<and> region_outcome bs as path b0 b1 a0 a1 L R b b'))"

lemma value_okE:
  assumes "value_ok U N f" and "3 * (revision_size old + revision_size new) \<le> N" and "in_heap U [old, new]" and "safe path"
  obtains b' where "f old new path b = Some b'" and "outcome path (plain old) (\<lambda>y. same_json y (plain new)) b b'"
  using assms unfolding value_ok_def by blast

lemma region_okE:
  assumes "region_ok U N f" and "3 * region_size bs as b0 b1 a0 a1 + 2 \<le> N" and "b0 \<le> b1" and "b1 \<le> length bs"
    and "a0 \<le> a1" and "a1 \<le> length as" and "in_heap U bs" and "in_heap U as" and "safe path" and "n = length L"
  obtains b' where "f bs as path b0 b1 a0 a1 n b = Some b'" and "region_outcome bs as path b0 b1 a0 a1 L R b b'"
  using assms unfolding region_ok_def by blast

text \<open>An element of the array is changed in its place.\<close>

lemma element_outcome:
  assumes "outcome (path @ [Index (int (length L))]) c P b b'"
  shows "outcome path (JArr (L @ c # R)) (\<lambda>y. \<exists>c'. y = JArr (L @ c' # R) \<and> P c') b b'"
proof (rule outcome_child [OF _ assms])
  show "own_child [] (JArr (L @ c # R)) (Index (int (length L))) = Inr c" by (simp add: own_child_def)
  show "\<exists>c''. put_child (JArr (L @ c # R)) (Index (int (length L))) c' = JArr (L @ c'' # R) \<and> P c''" if "P c'" for c'
    using that by (simp add: put_child_def)
qed

lemma region_size_split:
  assumes "b0 \<le> i" "i < b1" "b1 \<le> length bs" "a0 \<le> j" "j < a1" "a1 \<le> length as"
  shows "region_size bs as b0 b1 a0 a1 =
     region_size bs as b0 i a0 j + (revision_size (bs ! i) + revision_size (as ! j)) + region_size bs as (Suc i) b1 (Suc j) a1"
proof -
  have "sliced b0 b1 bs = sliced b0 i bs @ bs ! i # sliced (Suc i) b1 bs" "sliced a0 a1 as = sliced a0 j as @ as ! j # sliced (Suc j) a1 as"
    using assms by (simp_all only: sliced_split)
  then show ?thesis by (simp only: region_size_def revisions_size_append revisions_size.simps)
qed

lemma matched_element:
  assumes "coherent U" and "value_ok U N value" and "3 * (revision_size v + revision_size w) \<le> N"
    and "in_heap U [v, w]" and "safe path" and "out = length L"
  shows "\<exists>b'. (if \<not> sameValue v w then value v w (path @ [Index (int out)]) b else Some b) = Some b'
     \<and> outcome path (JArr (L @ plain v # R)) (\<lambda>y. \<exists>c. y = JArr (L @ c # R) \<and> same_json c (plain w)) b b'"
proof (cases "sameValue v w")
  case True
  then have "same_json (plain v) (plain w)"
    using assms(4) sameValue_same [OF assms(1)] by (simp add: in_heap_def)
  with True show ?thesis by (auto intro: outcome_none)
next
  case False
  have "safe (path @ [Index (int out)])" using assms(5) by simp
  from value_okE [OF assms(2-4) this] obtain b' where "value v w (path @ [Index (int out)]) b = Some b'"
    "outcome (path @ [Index (int out)]) (plain v) (\<lambda>y. same_json y (plain w)) b b'" .
  with False element_outcome [of path L] assms(6) show ?thesis by (intro exI [of _ b']) simp
qed

lemma join_outcomes:
  assumes 1: "region_outcome bs as path b0 i a0 j L (plain (bs ! i) # map plain (sliced (Suc i) b1 bs) @ R) b b2"
    and 2: "\<And>L' R'. length L' = length L + (j - a0) \<Longrightarrow> outcome path (JArr (L' @ plain (bs ! i) # R'))
        (\<lambda>y. \<exists>c. y = JArr (L' @ c # R') \<and> same_json c (plain (as ! j))) b2 b3"
    and 3: "\<And>L'. length L' = Suc (length L + (j - a0)) \<Longrightarrow> region_outcome bs as path (Suc i) b1 (Suc j) a1 L' R b3 b4"
    and range: "b0 \<le> i" "i < b1" "b1 \<le> length bs" "a0 \<le> j" "j < a1" "a1 \<le> length as"
  shows "region_outcome bs as path b0 b1 a0 a1 L R b b4"
  unfolding region_outcome_def
proof (rule outcome_trans)
  have "sliced b0 b1 bs = sliced b0 i bs @ bs ! i # sliced (Suc i) b1 bs" using range by (intro sliced_split)
  with 1 show "outcome path (JArr (L @ map plain (sliced b0 b1 bs) @ R))
      (\<lambda>y. \<exists>new. y = JArr (L @ new @ plain (bs ! i) # map plain (sliced (Suc i) b1 bs) @ R)
         \<and> list_all2 same_json new (map plain (sliced a0 j as))) b b2"
    by (simp add: region_outcome_def)
  show "bt_overflowed b4" if "bt_overflowed b2"
    using outcome_mono [OF 2 [of "replicate (length L + (j - a0)) JNull"] that]
      outcome_mono [OF 3 [unfolded region_outcome_def, of "replicate (Suc (length L + (j - a0))) JNull"]] by simp
next
  fix y
  assume "\<exists>new. y = JArr (L @ new @ plain (bs ! i) # map plain (sliced (Suc i) b1 bs) @ R)
      \<and> list_all2 same_json new (map plain (sliced a0 j as))"
  then obtain n1 where y: "y = JArr (L @ n1 @ plain (bs ! i) # map plain (sliced (Suc i) b1 bs) @ R)"
    and n1: "list_all2 same_json n1 (map plain (sliced a0 j as))" by blast
  have len: "length (L @ n1) = length L + (j - a0)"
    using list_all2_lengthD [OF n1] range by (simp add: length_sliced)
  have all: "sliced a0 a1 as = sliced a0 j as @ as ! j # sliced (Suc j) a1 as" using range by (intro sliced_split)
  show "outcome path y (\<lambda>y. \<exists>new. y = JArr (L @ new @ R) \<and> list_all2 same_json new (map plain (sliced a0 a1 as))) b2 b4"
  proof (rule outcome_trans)
    show "outcome path y (\<lambda>y. \<exists>c. y = JArr ((L @ n1) @ c # map plain (sliced (Suc i) b1 bs) @ R) \<and> same_json c (plain (as ! j))) b2 b3"
      using 2 [OF len] by (simp add: y)
    show "bt_overflowed b4" if "bt_overflowed b3"
      using that outcome_mono [OF 3 [unfolded region_outcome_def, of "replicate (Suc (length L + (j - a0))) JNull"]] by simp
  next
    fix z assume "\<exists>c. z = JArr ((L @ n1) @ c # map plain (sliced (Suc i) b1 bs) @ R) \<and> same_json c (plain (as ! j))"
    then obtain c where z: "z = JArr ((L @ n1 @ [c]) @ map plain (sliced (Suc i) b1 bs) @ R)" and c: "same_json c (plain (as ! j))"
      by auto
    have "length (L @ n1 @ [c]) = Suc (length L + (j - a0))" using len by simp
    from 3 [OF this, unfolded region_outcome_def] show "outcome path z (\<lambda>y. \<exists>new. y = JArr (L @ new @ R)
        \<and> list_all2 same_json new (map plain (sliced a0 a1 as))) b3 b4"
      unfolding z by (rule outcome_weaken) (use n1 c in \<open>auto simp: all intro!: list_all2_appendI\<close>)
  qed
qed

lemma process_outcome:
  assumes U: "coherent U" "value_ok U N value" "region_ok U N region"
    and arrays: "b1 \<le> length bs" "a1 \<le> length as" "in_heap U bs" "in_heap U as" "safe path"
  shows "matches_within b0 b1 a0 a1 ms \<Longrightarrow> b0 \<le> b1 \<Longrightarrow> a0 \<le> a1
    \<Longrightarrow> 3 * region_size bs as b0 b1 a0 a1 + (if ms = [] then 2 else 1) \<le> N \<Longrightarrow>
    \<exists>b'. processArrayMatches value region bs as path b0 b1 a0 a1 (length L) ms b = Some b'
       \<and> region_outcome bs as path b0 b1 a0 a1 L R b b'"
proof (induction ms arbitrary: b0 a0 L b)
  case Nil
  then have "3 * region_size bs as b0 b1 a0 a1 + 2 \<le> N" by simp
  from region_okE [OF U(3) this Nil.prems(2) arrays(1) Nil.prems(3) arrays(2-5) refl, where b = b and R = R] obtain b' where
    "region bs as path b0 b1 a0 a1 (length L) b = Some b'" "region_outcome bs as path b0 b1 a0 a1 L R b b'" .
  then show ?case by (cases "bt_overflowed b") (auto simp: region_outcome_def outcome_overflow)
next
  case (Cons m ms)
  obtain i j where m: "m = (i, j)" by fastforce
  from Cons.prems(1) have ij: "b0 \<le> i" "i < b1" "a0 \<le> j" "j < a1" "matches_within (Suc i) b1 (Suc j) a1 ms"
    by (simp_all add: m matches_within_Cons)
  have S: "region_size bs as b0 b1 a0 a1 = region_size bs as b0 i a0 j
      + (revision_size (bs ! i) + revision_size (as ! j)) + region_size bs as (Suc i) b1 (Suc j) a1"
    using region_size_split ij arrays(1,2) by simp
  have pos: "0 < revision_size (bs ! i)" "0 < revision_size (as ! j)" by (rule revision_size_pos)+
  have N: "3 * region_size bs as b0 i a0 j + 2 \<le> N" "3 * (revision_size (bs ! i) + revision_size (as ! j)) \<le> N"
    "3 * region_size bs as (Suc i) b1 (Suc j) a1 + 2 \<le> N" using Cons.prems(4) S pos by simp_all
  let ?rest = "plain (bs ! i) # map plain (sliced (Suc i) b1 bs) @ R"
  show ?case
  proof (cases "bt_overflowed b")
    case True
    then show ?thesis by (simp add: m region_outcome_def outcome_overflow)
  next
    case False
    from region_okE [OF U(3) N(1) ij(1) _ ij(3) _ arrays(3-5) refl, where b = b and R = ?rest] ij arrays obtain b2 where
      b2: "region bs as path b0 i a0 j (length L) b = Some b2" "region_outcome bs as path b0 i a0 j L ?rest b b2" by auto
    have w: "in_heap U [bs ! i, as ! j]" using in_heap_nth [OF arrays(3)] in_heap_nth [OF arrays(4)] ij arrays(1,2)
      by (simp add: in_heap_def)
    let ?out = "length L + (j - a0)"
    let ?elem = "if \<not> sameValue (bs ! i) (as ! j) then value (bs ! i) (as ! j) (path @ [Index (int ?out)]) b2 else Some b2"
    have ex: "\<exists>b'. ?elem = Some b' \<and> outcome path (JArr (L' @ plain (bs ! i) # R'))
        (\<lambda>y. \<exists>c. y = JArr (L' @ c # R') \<and> same_json c (plain (as ! j))) b2 b'" if "length L' = ?out" for L' R'
      by (rule matched_element [OF U(1,2) N(2) w arrays(5) that [symmetric]])
    obtain b3 where b3: "?elem = Some b3"
      using ex [of "replicate ?out JNull" "[]"] by auto
    have b3': "outcome path (JArr (L' @ plain (bs ! i) # R'))
        (\<lambda>y. \<exists>c. y = JArr (L' @ c # R') \<and> same_json c (plain (as ! j))) b2 b3" if "length L' = ?out" for L' R'
      using ex [OF that, of R'] b3 by simp
    have rest: "\<exists>b'. processArrayMatches value region bs as path (Suc i) b1 (Suc j) a1 (Suc ?out) ms b3 = Some b'
        \<and> region_outcome bs as path (Suc i) b1 (Suc j) a1 L' R b3 b'" if "length L' = Suc ?out" for L'
      using Cons.IH [OF ij(5), of L' b3] ij N(3) that by (simp split: if_splits)
    obtain b4 where b4: "processArrayMatches value region bs as path (Suc i) b1 (Suc j) a1 (Suc ?out) ms b3 = Some b4"
      using rest [of "replicate (Suc ?out) JNull"] by auto
    have b4': "region_outcome bs as path (Suc i) b1 (Suc j) a1 L' R b3 b4" if "length L' = Suc ?out" for L'
      using rest [OF that] b4 by simp
    have run: "processArrayMatches value region bs as path b0 b1 a0 a1 (length L) (m # ms) b = Some b4"
      using False b2(1) b3 b4 by (simp add: m Let_def)
    have "region_outcome bs as path b0 b1 a0 a1 L R b b4"
      by (rule join_outcomes [OF b2(2) b3' b4']) (use ij arrays in simp_all)
    with run show ?thesis by blast
  qed
qed

lemma splice_outcome:
  assumes "safe path" and "b0 \<le> b1" and "b1 \<le> length bs" and "in_heap U as" and "coherent U"
  shows "region_outcome bs as path b0 b1 a0 a1 L R b (splice_region as path b0 b1 a0 a1 (length L) b)"
proof -
  have "splice_at (int (length L)) (int (b1 - b0)) (map plain (sliced a0 a1 as)) (L @ map plain (sliced b0 b1 bs) @ R)
      = L @ map plain (sliced a0 a1 as) @ R"
    using assms(2,3) by (simp add: splice_at_def length_sliced nat_add_distrib [symmetric] del: nat_add_distrib)
  then have "edits path [OpSplice path (int (length L)) (int (b1 - b0)) (map plain (sliced a0 a1 as))]
      (JArr (L @ map plain (sliced b0 b1 bs) @ R)) (JArr (L @ map plain (sliced a0 a1 as) @ R))"
    using edits_splice [OF assms(1), of "int (length L)" "int (b1 - b0)"] by (metis of_nat_0_le_iff)
  moreover have "list_all2 same_json (map plain (sliced a0 a1 as)) (map plain (sliced a0 a1 as))"
    using assms(4) same_json_plain [OF assms(5)]
    by (auto simp: list_all2_same in_heap_def sliced_def dest!: in_set_takeD in_set_dropD)
  ultimately show ?thesis
    unfolding region_outcome_def splice_region_def by (intro outcome_emit) blast+
qed

lemma trimmed_outcome:
  assumes U: "coherent U" "value_ok U N value" "region_ok U N region"
    and range: "b0 \<le> b1" "b1 \<le> length bs" "a0 \<le> a1" "a1 \<le> length as"
    and heap: "in_heap U bs" "in_heap U as" "safe path"
    and N: "3 * region_size bs as b0 b1 a0 a1 + 1 \<le> N"
  shows "\<exists>b'. diff_trimmed value region bs as path b0 b1 a0 a1 (length L) b = Some b'
     \<and> region_outcome bs as path b0 b1 a0 a1 L R b b'"
proof -
  note splice = splice_outcome [OF heap(3) range(1,2) heap(2) U(1), of a0 a1 L R b]
  consider (none) "b1 - b0 = 0" "a1 - a0 = 0" | (one_side) "\<not> (b1 - b0 = 0 \<and> a1 - a0 = 0)" "b1 - b0 = 0 \<or> a1 - a0 = 0"
    | (matched) m ms where "b1 - b0 \<noteq> 0" "a1 - a0 \<noteq> 0" "region_matches bs b0 b1 as a0 a1 = m # ms"
    | (single) "b1 - b0 = 1" "a1 - a0 = 1" "region_matches bs b0 b1 as a0 a1 = []"
    | (other) "b1 - b0 \<noteq> 0" "a1 - a0 \<noteq> 0" "\<not> (b1 - b0 = 1 \<and> a1 - a0 = 1)" "region_matches bs b0 b1 as a0 a1 = []"
    by (metis list.exhaust)
  then show ?thesis
  proof cases
    case none
    then have "region_outcome bs as path b0 b1 a0 a1 L R b b"
      by (simp add: region_outcome_def sliced_def outcome_none)
    with none show ?thesis by (simp add: diff_trimmed_def)
  next
    case one_side
    then have "diff_trimmed value region bs as path b0 b1 a0 a1 (length L) b
        = Some (splice_region as path b0 b1 a0 a1 (length L) b)" 
      by (simp only: diff_trimmed_def if_not_P [OF one_side(1)] if_P [OF one_side(2)] if_True if_False)
    with splice show ?thesis by simp
  next
    case (matched m ms)
    have "matches_within b0 b1 a0 a1 (m # ms)" using region_matches_within [OF range] matched(3) by simp
    from process_outcome [OF U range(2,4) heap this range(1,3), of L b R] N matched show ?thesis
      by (simp add: diff_trimmed_def)
  next
    case single
    then have at: "b0 < length bs" "a0 < length as" "sliced b0 b1 bs = [bs ! b0]" "sliced a0 a1 as = [as ! a0]"
      using range sliced_single [of b0 bs] sliced_single [of a0 as] by (simp_all add: sliced_def)
    have "in_heap U [bs ! b0, as ! a0]" using in_heap_nth heap at by (simp add: in_heap_def)
    moreover have "3 * (revision_size (bs ! b0) + revision_size (as ! a0)) \<le> N" using N at by (simp add: region_size_def)
    moreover have "safe (path @ [Index (int (length L))])" using heap(3) by simp
    ultimately obtain b' where b': "value (bs ! b0) (as ! a0) (path @ [Index (int (length L))]) b = Some b'"
      "outcome (path @ [Index (int (length L))]) (plain (bs ! b0)) (\<lambda>y. same_json y (plain (as ! a0))) b b'"
      using value_okE [OF U(2)] by metis
    have "region_outcome bs as path b0 b1 a0 a1 L R b b'"
      unfolding region_outcome_def at(3,4) using element_outcome [OF b'(2), of R]
      by (auto elim!: outcome_weaken)
    with single b' show ?thesis by (simp add: diff_trimmed_def)
  next
    case other
    with splice show ?thesis by (auto simp: diff_trimmed_def)
  qed
qed

lemma trim_start_spec:
  "b0 \<le> b1 \<Longrightarrow> a0 \<le> a1 \<Longrightarrow> trim_start bs b0 b1 as a0 a1 \<le> b1 - b0 \<and> trim_start bs b0 b1 as a0 a1 \<le> a1 - a0
     \<and> (\<forall>k < trim_start bs b0 b1 as a0 a1. sameValue (bs ! (b0 + k)) (as ! (a0 + k)))"
proof (induction bs b0 b1 as a0 a1 rule: trim_start.induct)
  case (1 bs b0 b1 as a0 a1)
  show ?case
  proof (cases "b0 < b1 \<and> a0 < a1 \<and> sameValue (bs ! b0) (as ! a0)")
    case True
    with 1(1) [OF True] have IH: "trim_start bs (Suc b0) b1 as (Suc a0) a1 \<le> b1 - Suc b0"
      "trim_start bs (Suc b0) b1 as (Suc a0) a1 \<le> a1 - Suc a0"
      "\<forall>k < trim_start bs (Suc b0) b1 as (Suc a0) a1. sameValue (bs ! (Suc b0 + k)) (as ! (Suc a0 + k))" by simp_all
    have "trim_start bs b0 b1 as a0 a1 = Suc (trim_start bs (Suc b0) b1 as (Suc a0) a1)"
      using True by (subst trim_start.simps) simp
    with IH True show ?thesis by (auto simp: less_Suc_eq_0_disj)
  next
    case False
    then have "trim_start bs b0 b1 as a0 a1 = 0" by (subst trim_start.simps) (simp only: if_False)
    then show ?thesis by simp
  qed
qed

lemma trim_end_spec:
  "b0 \<le> b1 \<Longrightarrow> a0 \<le> a1 \<Longrightarrow> trim_end bs b0 b1 as a0 a1 \<le> b1 - b0 \<and> trim_end bs b0 b1 as a0 a1 \<le> a1 - a0
     \<and> (\<forall>k < trim_end bs b0 b1 as a0 a1. sameValue (bs ! (b1 - Suc k)) (as ! (a1 - Suc k)))"
proof (induction bs b0 b1 as a0 a1 rule: trim_end.induct)
  case (1 bs b0 b1 as a0 a1)
  show ?case
  proof (cases "b0 < b1 \<and> a0 < a1 \<and> sameValue (bs ! (b1 - 1)) (as ! (a1 - 1))")
    case True
    with 1(1) [OF True] have IH: "trim_end bs b0 (b1 - 1) as a0 (a1 - 1) \<le> b1 - 1 - b0"
      "trim_end bs b0 (b1 - 1) as a0 (a1 - 1) \<le> a1 - 1 - a0"
      "\<forall>k < trim_end bs b0 (b1 - 1) as a0 (a1 - 1). sameValue (bs ! (b1 - 1 - Suc k)) (as ! (a1 - 1 - Suc k))" by auto
    let ?n = "trim_end bs b0 (b1 - 1) as a0 (a1 - 1)"
    have n: "trim_end bs b0 b1 as a0 a1 = Suc ?n"
      using True by (subst trim_end.simps) simp
    have "Suc ?n \<le> b1 - b0" "Suc ?n \<le> a1 - a0" using IH(1,2) True by linarith+
    moreover have "sameValue (bs ! (b1 - Suc k)) (as ! (a1 - Suc k))" if "k < Suc ?n" for k
      using IH(3) True that by (cases k) auto
    ultimately show ?thesis unfolding n by blast
  next
    case False
    then have "trim_end bs b0 b1 as a0 a1 = 0" by (subst trim_end.simps) (simp only: if_False)
    then show ?thesis by simp
  qed
qed

lemma same_sliced:
  assumes "coherent U" and "in_heap U bs" and "in_heap U as" and "b + n \<le> length bs" and "a + n \<le> length as"
    and "\<forall>k < n. sameValue (bs ! (b + k)) (as ! (a + k))"
  shows "list_all2 same_json (map plain (sliced b (b + n) bs)) (map plain (sliced a (a + n) as))"
  using assms sameValue_same [OF assms(1)] in_heap_nth [OF assms(2)] in_heap_nth [OF assms(3)]
  by (auto simp: list_all2_conv_all_nth length_sliced nth_sliced)

lemma sliced_parts:
  assumes "b0 + p \<le> b1 - q" and "q \<le> b1" and "b1 \<le> length xs"
  shows "sliced b0 b1 xs = sliced b0 (b0 + p) xs @ sliced (b0 + p) (b1 - q) xs @ sliced (b1 - q) b1 xs"
proof -
  have "sliced b0 b1 xs = sliced b0 (b0 + p) xs @ sliced (b0 + p) b1 xs" using assms by (intro sliced_append) simp_all
  also have "sliced (b0 + p) b1 xs = sliced (b0 + p) (b1 - q) xs @ sliced (b1 - q) b1 xs" using assms by (intro sliced_append) simp_all
  finally show ?thesis .
qed

lemma region_step:
  assumes U: "coherent U" "value_ok U N value" "region_ok U N region"
  shows "region_ok U (Suc N) (diffArrayRegion value region)"
  unfolding region_ok_def
proof (intro allI impI)
  fix bs as path b0 b1 a0 a1 and L R :: "json list" and b
  assume N: "3 * region_size bs as b0 b1 a0 a1 + 2 \<le> Suc N" and range: "b0 \<le> b1" "b1 \<le> length bs" "a0 \<le> a1" "a1 \<le> length as"
    and heap: "in_heap U bs" "in_heap U as" "safe path"
  define p where "p = trim_start bs b0 b1 as a0 a1"
  define q where "q = trim_end bs (b0 + p) b1 as (a0 + p) a1"
  from trim_start_spec [OF range(1,3), of bs as] have p: "p \<le> b1 - b0" "p \<le> a1 - a0"
    "\<forall>k < p. sameValue (bs ! (b0 + k)) (as ! (a0 + k))" by (simp_all add: p_def)
  from trim_end_spec [of "b0 + p" b1 "a0 + p" a1 bs as] p range have q: "q \<le> b1 - (b0 + p)" "q \<le> a1 - (a0 + p)"
    "\<forall>k < q. sameValue (bs ! (b1 - Suc k)) (as ! (a1 - Suc k))" by (simp_all add: q_def)
  have "sameValue (bs ! (b1 - q + k)) (as ! (a1 - q + k))" if "k < q" for k
    using q(3) [rule_format, of "q - Suc k"] q(1,2) that range p(1,2) by (simp add: algebra_simps)
  with same_sliced [OF U(1) heap(1,2), of "b1 - q" q "a1 - q"] q(1,2) p(1,2) range
  have post: "list_all2 same_json (map plain (sliced (b1 - q) b1 bs)) (map plain (sliced (a1 - q) a1 as))" by simp
  have pre: "list_all2 same_json (map plain (sliced b0 (b0 + p) bs)) (map plain (sliced a0 (a0 + p) as))"
    using p range by (intro same_sliced [OF U(1) heap(1,2)]) simp_all
  have parts: "sliced b0 b1 bs = sliced b0 (b0 + p) bs @ sliced (b0 + p) (b1 - q) bs @ sliced (b1 - q) b1 bs"
    "sliced a0 a1 as = sliced a0 (a0 + p) as @ sliced (a0 + p) (a1 - q) as @ sliced (a1 - q) a1 as"
    using p(1,2) q(1,2) range by (simp_all only: sliced_parts)
  let ?L = "L @ map plain (sliced b0 (b0 + p) bs)" and ?R = "map plain (sliced (b1 - q) b1 bs) @ R"
  have len: "length ?L = length L + p" using p range by (simp add: length_sliced)
  have inner: "b0 + p \<le> b1 - q" "b1 - q \<le> length bs" "a0 + p \<le> a1 - q" "a1 - q \<le> length as"
    using p(1,2) q(1,2) range by linarith+
  have "3 * region_size bs as (b0 + p) (b1 - q) (a0 + p) (a1 - q) + 1 \<le> N"
    using N by (simp add: region_size_def parts revisions_size_append)
  from trimmed_outcome [OF U inner heap this, of ?L b ?R, unfolded len] obtain b' where
    b': "diff_trimmed value region bs as path (b0 + p) (b1 - q) (a0 + p) (a1 - q) (length L + p) b = Some b'"
    "region_outcome bs as path (b0 + p) (b1 - q) (a0 + p) (a1 - q) ?L ?R b b'" by blast
  have "region_outcome bs as path b0 b1 a0 a1 L R b b'"
    using b'(2) unfolding region_outcome_def parts map_append append_assoc
  proof (elim outcome_weaken exE conjE)
    fix y new assume y: "y = JArr (L @ map plain (sliced b0 (b0 + p) bs) @ new @ map plain (sliced (b1 - q) b1 bs) @ R)"
      and new: "list_all2 same_json new (map plain (sliced (a0 + p) (a1 - q) as))"
    show "\<exists>new. y = JArr (L @ new @ R) \<and> list_all2 same_json new
        (map plain (sliced a0 (a0 + p) as) @ map plain (sliced (a0 + p) (a1 - q) as) @ map plain (sliced (a1 - q) a1 as))"
      by (intro exI [of _ "map plain (sliced b0 (b0 + p) bs) @ new @ map plain (sliced (b1 - q) b1 bs)"])
        (simp add: y list_all2_appendI pre post new)
  qed
  with b'(1) show "\<exists>b'. diffArrayRegion value region bs as path b0 b1 a0 a1 (length L) b = Some b'
      \<and> region_outcome bs as path b0 b1 a0 a1 L R b b'"
    by (cases "bt_overflowed b")
      (auto simp: diffArrayRegion_def Let_def p_def [symmetric] q_def [symmetric] region_outcome_def outcome_overflow)
qed

lemma array_outcome:
  assumes U: "coherent U" "region_ok U N region" and heap: "in_heap U bs" "in_heap U as" "safe path"
    and N: "3 * (revisions_size bs + revisions_size as) + 2 \<le> N"
  shows "\<exists>b'. diffArray region bs as path b = Some b'
     \<and> outcome path (JArr (map plain bs)) (\<lambda>y. same_json y (JArr (map plain as))) b b'"
proof -
  have sub: "(\<Union>x \<in> set xs. set (subvalues x)) \<subseteq> set U" if "in_heap U xs" for xs using that by (auto simp: in_heap_def)
  have ex_region: "\<exists>b'. region bs as path 0 (length bs) 0 (length as) 0 b = Some b'
      \<and> outcome path (JArr (map plain bs)) (\<lambda>y. same_json y (JArr (map plain as))) b b'"
  proof -
    have "3 * region_size bs as 0 (length bs) 0 (length as) + 2 \<le> N" using N by (simp add: region_size_def sliced_all)
    from region_okE [OF U(2) this _ _ _ _ heap, of 0 "[]" b "[]"] obtain b' where
      "region bs as path 0 (length bs) 0 (length as) 0 b = Some b'"
      "region_outcome bs as path 0 (length bs) 0 (length as) [] [] b b'" by auto
    then show ?thesis by (auto simp: region_outcome_def sliced_all same_elems_iff elim!: outcome_weaken)
  qed
  let ?order = "if length bs = length as \<and> length bs > 1
      \<and> \<not> sameValue (hd bs) (hd as) \<and> \<not> sameValue (last bs) (last as) then permutation bs as else None"
  consider (equal) "length bs = length as" "equal_elems bs as"
    | (order) p where "\<not> (length bs = length as \<and> equal_elems bs as)" "?order = Some p"
    | (region) "\<not> (length bs = length as \<and> equal_elems bs as)" "?order = None"
    by fastforce
  then show ?thesis
  proof cases
    case equal
    then have "same_json (JArr (map plain bs)) (JArr (map plain as))"
      using equalJson_same(2) [OF U(1) sub sub] heap by (simp add: same_elems_iff)
    with equal show ?thesis by (auto simp: diffArray_def intro: outcome_none)
  next
    case (order p)
    then have "permutation bs as = Some p" by (simp split: if_splits)
    note spec = permutation_spec [OF this]
    have run: "diffArray region bs as path b = Some (emitOperation (OpReorder path (map int p)) b)"
      unfolding diffArray_def order(2) by (simp only: if_not_P [OF order(1)] option.case)
    have "same_json (map plain bs ! i) (plain v)" if "i < length bs" "identical (bs ! i) v" "v \<in> set as" for i v
    proof -
      have "set (subvalues (bs ! i)) \<subseteq> set U" "set (subvalues v) \<subseteq> set U"
        using in_heap_nth [OF heap(1) that(1)] heap(2) that(3) by (auto simp: in_heap_def)
      with that(2) have "same_json (plain (bs ! i)) (plain v)" by (intro sameValue_same [OF U(1)]) (simp_all add: sameValue_def)
      with that(1) show ?thesis by simp
    qed
    then have "list_all2 same_json (map (\<lambda>i. map plain bs ! nat i) (map int p)) (map plain as)"
      using spec(4) by (auto simp: list_all2_conv_all_nth)
    with edits_reorder [OF heap(3) spec(1), of "map plain bs"] spec(2) run show ?thesis
      by (auto simp: same_elems_iff intro!: outcome_emit)
  next
    case region
    have "diffArray region bs as path b = region bs as path 0 (length bs) 0 (length as) 0 b"
      unfolding diffArray_def region(2) by (simp only: if_not_P [OF region(1)] option.case)
    with ex_region show ?thesis by simp
  qed
qed

section \<open>The difference of objects\<close>

lemma emitSet_outcome: "safe path \<Longrightarrow> P (plain v) \<Longrightarrow> outcome path x P b (emitSet path v b)"
  unfolding emitSet_def by (cases "path = []") (auto intro: outcome_emit edits_set edits_replace)

lemma not_reserved: "\<not> reserved_key (k, v) \<Longrightarrow> safe path \<Longrightarrow> safe (path @ [Key k])"
  by (simp add: reserved_key_def)

text \<open>An object with distinct keys whose value for every key satisfies \<open>P\<close>.\<close>

definition object_with :: "(string \<Rightarrow> json option \<Rightarrow> bool) \<Rightarrow> json \<Rightarrow> bool" where
  "object_with P y \<longleftrightarrow> (\<exists>kvs. y = JObj kvs \<and> distinct (map fst kvs) \<and> (\<forall>k. P k (map_of kvs k)))"

lemma object_with_put:
  "distinct (map fst cur) \<Longrightarrow> P k (Some v) \<Longrightarrow> (\<And>k'. k' \<noteq> k \<Longrightarrow> P k' (map_of cur k')) \<Longrightarrow>
     object_with P (JObj (AList.update k v cur))"
  by (auto simp: object_with_def distinct_update update_conv')

definition has_value :: "revision \<Rightarrow> json option \<Rightarrow> bool" where
  "has_value v y \<longleftrightarrow> (\<exists>w. y = Some w \<and> same_json w (plain v))"

lemma property_outcome:
  assumes "value_ok U N value" and "in_heap U [v]" and "\<forall>w. map_of kvs k = Some w \<longrightarrow> in_heap U [w, v]
      \<and> 3 * (revision_size w + revision_size v) \<le> N" and "coherent U" and "safe (path @ [Key k])"
    and cur: "distinct (map fst cur)" "map_of cur k = map_option plain (map_of kvs k)"
  shows "\<exists>b'. (case map_of kvs k of Some w \<Rightarrow> value w v (path @ [Key k]) b | None \<Rightarrow> Some (emitSet (path @ [Key k]) v b)) = Some b'
     \<and> outcome path (JObj cur) (object_with (\<lambda>k' y. if k' = k then has_value v y else y = map_of cur k')) b b'"
proof (cases "map_of kvs k")
  case None
  have "same_json (plain v) (plain v)" using assms(2) by (intro same_json_plain [OF assms(4)]) (simp add: in_heap_def)
  then have new: "object_with (\<lambda>k' y. if k' = k then has_value v y else y = map_of cur k') (JObj (AList.update k (plain v) cur))"
    by (intro object_with_put [OF cur(1)]) (simp_all add: has_value_def)
  have "outcome path (JObj cur) (object_with (\<lambda>k' y. if k' = k then has_value v y else y = map_of cur k')) b
      (emitOperation (OpSet (path @ [Key k]) (plain v)) b)"
    by (rule outcome_emit [OF edits_set_key [OF assms(5)]]) (rule new)
  with None show ?thesis by (simp add: emitSet_def)
next
  case (Some w)
  with assms(3) have w: "in_heap U [w, v]" "3 * (revision_size w + revision_size v) \<le> N" by simp_all
  from value_okE [OF assms(1) w(2,1) assms(5)] obtain b' where b': "value w v (path @ [Key k]) b = Some b'"
    "outcome (path @ [Key k]) (plain w) (\<lambda>y. same_json y (plain v)) b b'" .
  have "outcome path (JObj cur) (object_with (\<lambda>k' y. if k' = k then has_value v y else y = map_of cur k')) b b'"
  proof (rule outcome_child [OF _ b'(2)])
    show "own_child [] (JObj cur) (Key k) = Inr (plain w)" using cur(2) Some by (simp add: own_child_def)
    show "object_with (\<lambda>k' y. if k' = k then has_value v y else y = map_of cur k') (put_child (JObj cur) (Key k) c')"
      if "same_json c' (plain v)" for c'
      using that by (simp add: put_child_def object_with_put [OF cur(1)] has_value_def)
  qed
  with b'(1) Some show ?thesis by simp
qed

definition prop_after :: "(string \<times> revision) list \<Rightarrow> (string \<times> json) list \<Rightarrow> string \<Rightarrow> json option \<Rightarrow> bool" where
  "prop_after rest cur k y \<longleftrightarrow> (case map_of rest k of Some v \<Rightarrow> has_value v y | None \<Rightarrow> y = map_of cur k)"

lemma props_outcome:
  assumes ok: "coherent U" "value_ok U N value" "safe path"
  shows "\<forall>(k, v) \<in> set rest. \<not> reserved_key (k, v) \<and> in_heap U [v]
        \<and> (\<forall>w. map_of kvs k = Some w \<longrightarrow> in_heap U [w, v] \<and> 3 * (revision_size w + revision_size v) \<le> N)
    \<Longrightarrow> distinct (map fst rest) \<Longrightarrow> distinct (map fst cur)
    \<Longrightarrow> \<forall>k \<in> fst ` set rest. map_of cur k = map_option plain (map_of kvs k)
    \<Longrightarrow> \<exists>b'. diff_props value kvs rest path b = Some b' \<and> outcome path (JObj cur) (object_with (prop_after rest cur)) b b'"
proof (induction rest arbitrary: cur b)
  case Nil
  then show ?case by (auto simp: object_with_def prop_after_def intro!: outcome_none)
next
  case (Cons kv rest)
  obtain k v where kv: "kv = (k, v)" by fastforce
  let ?one = "object_with (\<lambda>k' y. if k' = k then has_value v y else y = map_of cur k')"
  have new: "map_of rest k = None" using Cons.prems(2) by (simp add: kv map_of_eq_None_iff)
  show ?case
  proof (cases "bt_overflowed b")
    case True
    then show ?thesis by (simp add: kv outcome_overflow)
  next
    case False
    have "safe (path @ [Key k])" using not_reserved [of k v path] Cons.prems(1) ok(3) by (simp add: kv)
    from property_outcome [OF ok(2) _ _ ok(1) this Cons.prems(3), of v kvs b] Cons.prems(1,4) obtain b1 where
      b1: "(case map_of kvs k of Some w \<Rightarrow> value w v (path @ [Key k]) b | None \<Rightarrow> Some (emitSet (path @ [Key k]) v b)) = Some b1"
      "outcome path (JObj cur) ?one b b1" by (auto simp: kv)
    have rest: "\<exists>b'. diff_props value kvs rest path b1 = Some b'
        \<and> outcome path (JObj cur') (object_with (prop_after rest cur')) b1 b'"
      if "distinct (map fst cur')" "\<forall>k'. k' \<noteq> k \<longrightarrow> map_of cur' k' = map_of cur k'" for cur'
    proof (rule Cons.IH [OF _ _ that(1)])
      have "k \<notin> fst ` set rest" using Cons.prems(2) by (simp add: kv)
      then have "map_of cur' k' = map_option plain (map_of kvs k')" if "k' \<in> fst ` set rest" for k'
        using Cons.prems(4) \<open>\<forall>k'. k' \<noteq> k \<longrightarrow> map_of cur' k' = map_of cur k'\<close> that by (cases "k' = k") auto
      then show "\<forall>k \<in> fst ` set rest. map_of cur' k = map_option plain (map_of kvs k)" by blast
    qed (use Cons.prems(1,2) in simp_all)
    obtain b2 where b2: "diff_props value kvs rest path b1 = Some b2" using rest [OF Cons.prems(3)] by auto
    have "outcome path (JObj cur) (object_with (prop_after (kv # rest) cur)) b b2"
    proof (rule outcome_trans [OF b1(2)])
      fix y assume "?one y"
      then obtain cur' where y: "y = JObj cur'" and cur': "distinct (map fst cur')"
        "\<And>k'. if k' = k then has_value v (map_of cur' k') else map_of cur' k' = map_of cur k'" by (auto simp: object_with_def)
      then have "outcome path y (object_with (prop_after rest cur')) b1 b2" using rest [of cur'] b2 by auto
      moreover have "prop_after (kv # rest) cur k' z" if "prop_after rest cur' k' z" for k' z
        using that cur'(2) [of k'] new by (auto simp: prop_after_def kv split: option.splits if_splits)
      ultimately show "outcome path y (object_with (prop_after (kv # rest) cur)) b1 b2"
        by (elim outcome_weaken) (auto simp: object_with_def)
    next
      show "bt_overflowed b2" if "bt_overflowed b1" using rest [OF Cons.prems(3)] b2 outcome_mono that by fastforce
    qed
    with b1(1) b2 False show ?thesis by (simp add: kv)
  qed
qed

definition deleted :: "(string \<times> revision) list \<Rightarrow> (string \<times> revision) list \<Rightarrow> string \<Rightarrow> bool" where
  "deleted kvs as k \<longleftrightarrow> k \<in> fst ` set kvs \<and> map_of as k = None"

lemma deletes_outcome:
  assumes "safe path"
  shows "\<forall>kv \<in> set kvs. \<not> reserved_key kv \<Longrightarrow> distinct (map fst cur) \<Longrightarrow>
    outcome path (JObj cur) (object_with (\<lambda>k y. y = (if deleted kvs as k then None else map_of cur k)))
      b (emit_deletes kvs as path b)"
proof (induction kvs arbitrary: cur b)
  case Nil
  then show ?case by (auto simp: object_with_def deleted_def intro!: outcome_none)
next
  case (Cons kv kvs)
  obtain k v where kv: "kv = (k, v)" by fastforce
  have safe: "safe (path @ [Key k])" using not_reserved [of k v path] Cons.prems(1) assms by (simp add: kv)
  have IH: "outcome path (JObj cur) (object_with (\<lambda>k y. y = (if deleted kvs as k then None else map_of cur k)))
      b (emit_deletes kvs as path b)" if "distinct (map fst cur)" for cur b
    using Cons.IH [OF _ that] Cons.prems(1) by simp
  consider "bt_overflowed b" | (keep) "\<not> bt_overflowed b" "map_of as k \<noteq> None" | (drop) "\<not> bt_overflowed b" "map_of as k = None"
    by blast
  then show ?case
  proof cases
    case keep
    then have "deleted (kv # kvs) as = deleted kvs as" by (intro ext) (auto simp: deleted_def kv)
    with IH [OF Cons.prems(2), of b] keep show ?thesis by (auto simp: kv)
  next
    case drop
    let ?b1 = "emitOperation (OpDelete (path @ [Key k])) b" and ?cur = "AList.delete k cur"
    have "outcome path (JObj cur) (\<lambda>y. y = JObj ?cur) b ?b1" by (rule outcome_emit [OF edits_delete_key [OF safe] refl])
    moreover have "outcome path (JObj ?cur) (object_with (\<lambda>k y. y = (if deleted kvs as k then None else map_of ?cur k)))
        ?b1 (emit_deletes kvs as path ?b1)" using Cons.prems(2) by (intro IH distinct_delete)
    moreover have "(if deleted kvs as k' then None else map_of ?cur k') = (if deleted (kv # kvs) as k' then None else map_of cur k')"
      for k' using drop(2) by (auto simp: deleted_def kv delete_conv')
    ultimately have "outcome path (JObj cur) (object_with (\<lambda>k y. y = (if deleted (kv # kvs) as k then None else map_of cur k)))
        b (emit_deletes kvs as path ?b1)" by (auto intro: outcome_trans outcome_mono)
    with drop show ?thesis by (simp add: kv)
  qed (simp add: kv outcome_overflow)
qed

lemma kept_or_deleted:
  assumes "distinct (map fst kvs)" and cur: "distinct (map fst cur)" "\<And>k. map_of cur k =
      (if deleted kvs kvs' k then None else y k)" and y: "\<And>k. prop_after kvs' (plain_props kvs) k (y k)"
  shows "same_json (JObj cur) (JObj (plain_props kvs'))"
proof -
  have val: "has_value v (map_of cur k)" if "map_of kvs' k = Some v" for k v
    using y [of k] cur(2) [of k] that by (simp add: prop_after_def deleted_def)
  have none: "map_of cur k = None" if "map_of kvs' k = None" for k
    using y [of k] cur(2) [of k] that
    by (auto simp: prop_after_def deleted_def map_of_plain_props map_of_eq_None_iff image_iff split: if_splits)
  have "\<exists>w. map_of (plain_props kvs') k = Some w \<and> same_json v w" if "(k, v) \<in> set cur" for k v
  proof -
    have v: "map_of cur k = Some v" using cur(1) that by simp
    then obtain w where "map_of kvs' k = Some w" using none [of k] by (cases "map_of kvs' k") auto
    with val [OF this] v show ?thesis by (simp add: has_value_def map_of_plain_props)
  qed
  moreover have "k \<in> fst ` set cur" if "k \<in> fst ` set kvs'" for k
  proof -
    have "map_of kvs' k \<noteq> None" using that by (simp add: map_of_eq_None_iff)
    then obtain v where "map_of kvs' k = Some v" by blast
    from val [OF this] obtain w where "map_of cur k = Some w" by (auto simp: has_value_def)
    then have "(k, w) \<in> set cur" by (rule map_of_SomeD)
    then show ?thesis by (rule image_eqI [rotated]) simp
  qed
  moreover have "fst ` set (plain_props kvs') = fst ` set kvs'" by (force simp: plain_props_def)
  ultimately show ?thesis unfolding same_json.simps same_props_iff set_map by blast
qed

lemma props_size_elem: "(k, v) \<in> set kvs \<Longrightarrow> revision_size v \<le> props_size kvs"
  by (induction kvs) auto

lemma object_outcome:
  assumes ok: "coherent U" "value_ok U N value" "safe path"
    and heap: "in_heap U [RObj i kvs, RObj j kvs']" and N: "3 * (props_size kvs + props_size kvs') \<le> N"
  shows "\<exists>b'. diffObject value kvs kvs' path b = Some b'
     \<and> outcome path (JObj (plain_props kvs)) (\<lambda>y. same_json y (JObj (plain_props kvs'))) b b'"
proof -
  have objs: "set (subvalues (RObj i kvs)) \<subseteq> set U" "set (subvalues (RObj j kvs')) \<subseteq> set U" using heap by (simp_all add: in_heap_def)
  have in_U: "RObj i kvs \<in> set U" "RObj j kvs' \<in> set U" using objs subvalues_self by blast+
  have keys: "distinct (map fst kvs)" "distinct (map fst kvs')" using coherent_keys [OF ok(1)] in_U by blast+
  have self: "same_json (JObj (plain_props kvs')) (JObj (plain_props kvs'))"
    using same_json_plain [OF ok(1) objs(2)] by (simp add: plain_props_def)
  show ?thesis
  proof (cases "list_ex reserved_key (kvs @ kvs')")
    case True
    have "same_json (JObj (plain_props kvs)) (JObj (plain_props kvs'))" if "length kvs = length kvs'" "equal_props kvs kvs'"
    proof -
      have "equalJson (RObj i kvs) (RObj j kvs')" using that by simp
      from equalJson_same(1) [OF ok(1) objs this] show ?thesis by (simp add: plain_props_def)
    qed
    moreover have "outcome path x (\<lambda>y. same_json y (JObj (plain_props kvs'))) b
        (emitOperation (if path = [] then OpReplace (JObj (plain_props kvs')) else OpSet path (JObj (plain_props kvs'))) b)" for x
      using edits_set [OF _ ok(3)] edits_replace self by (auto intro!: outcome_emit)
    ultimately show ?thesis using True by (auto simp: diffObject_def intro: outcome_none)
  next
    case False
    then have free: "\<forall>kv \<in> set kvs. \<not> reserved_key kv" "\<forall>kv \<in> set kvs'. \<not> reserved_key kv" by (auto simp: list_ex_iff)
    have sub: "in_heap U [w]" if "(k, w) \<in> set kvs \<or> (k, w) \<in> set kvs'" for k w
      using that subset_trans [OF subvalues_prop objs(1)] subset_trans [OF subvalues_prop objs(2)]
      by (simp only: in_heap_def list.set) blast
    have each: "\<not> reserved_key (k, v) \<and> in_heap U [v]
        \<and> (\<forall>w. map_of kvs k = Some w \<longrightarrow> in_heap U [w, v] \<and> 3 * (revision_size w + revision_size v) \<le> N)"
      if "(k, v) \<in> set kvs'" for k v
    proof (intro conjI allI impI)
      show "\<not> reserved_key (k, v)" "in_heap U [v]" using free(2) sub that by blast+
      fix w assume "map_of kvs k = Some w"
      then have w: "(k, w) \<in> set kvs" by (rule map_of_SomeD)
      show "in_heap U [w, v]" using sub [of k w] sub [of k v] w that by (simp add: in_heap_def)
      show "3 * (revision_size w + revision_size v) \<le> N"
        using props_size_elem [OF w] props_size_elem [OF that] N by simp
    qed
    have cur: "distinct (map fst (plain_props kvs))" using keys(1) by (simp add: plain_props_def comp_def case_prod_beta)
    from props_outcome [OF ok _ keys(2) cur, of kvs b] each obtain b1 where b1: "diff_props value kvs kvs' path b = Some b1"
      "outcome path (JObj (plain_props kvs)) (object_with (prop_after kvs' (plain_props kvs))) b b1"
      by (auto simp: map_of_plain_props)
    have del: "outcome path (JObj m) (object_with (\<lambda>k y. y = (if deleted kvs kvs' k then None else map_of m k))) b1
        (emit_deletes kvs kvs' path b1)" if "distinct (map fst m)" for m
      by (rule deletes_outcome [OF ok(3) free(1) that])
    have "outcome path (JObj (plain_props kvs)) (\<lambda>y. same_json y (JObj (plain_props kvs'))) b (emit_deletes kvs kvs' path b1)"
    proof (rule outcome_trans [OF b1(2)])
      fix y assume "object_with (prop_after kvs' (plain_props kvs)) y"
      then obtain m where m: "y = JObj m" "distinct (map fst m)" "\<And>k. prop_after kvs' (plain_props kvs) k (map_of m k)"
        by (auto simp: object_with_def)
      show "outcome path y (\<lambda>y. same_json y (JObj (plain_props kvs'))) b1 (emit_deletes kvs kvs' path b1)"
        unfolding m(1)
      proof (rule outcome_weaken [OF del [OF m(2)]])
        fix z assume "object_with (\<lambda>k y. y = (if deleted kvs kvs' k then None else map_of m k)) z"
        then show "same_json z (JObj (plain_props kvs'))"
          unfolding object_with_def using kept_or_deleted [OF keys(1) _ _ m(3)] by blast
      qed
    qed (rule outcome_mono [OF del [OF cur]])
    with b1(1) False show ?thesis by (auto simp: diffObject_def)
  qed
qed

section \<open>The difference of revisions\<close>

lemma value_step:
  assumes U: "coherent U" "value_ok U N value" "region_ok U N region"
  shows "value_ok U (Suc N) (diff_step value region)"
  unfolding value_ok_def
proof (intro allI impI)
  fix old new path b
  assume N: "3 * (revision_size old + revision_size new) \<le> Suc N" and heap: "in_heap U [old, new]" and safe: "safe path"
  let ?goal = "\<lambda>r. \<exists>b'. r = Some b' \<and> outcome path (plain old) (\<lambda>y. same_json y (plain new)) b b'"
  have sub: "set (subvalues old) \<subseteq> set U" "set (subvalues new) \<subseteq> set U" using heap by (simp_all add: in_heap_def)
  have self: "same_json (plain new) (plain new)" by (rule same_json_plain [OF U(1) sub(2)])
  have "outcome path (plain old) (\<lambda>y. same_json y (plain new)) b (emitSet path new b)"
    by (rule emitSet_outcome [OF safe]) (rule self)
  then have set: "?goal (Some (emitSet path new b))" by blast
  show "?goal (diff_step value region old new path b)"
  proof (cases "identical old new \<or> bt_overflowed b")
    case True
    have "identical old new \<Longrightarrow> same_json (plain old) (plain new)" by (rule sameValue_same [OF U(1) sub]) (simp add: sameValue_def)
    with True show ?thesis by (auto simp: diff_step_def intro: outcome_none outcome_overflow)
  next
    case False
    consider (strings) s t where "old = RStr s" "new = RStr t" "path \<noteq> []"
      | (arrays) i bs j as where "old = RArr i bs" "new = RArr j as"
      | (objects) i kvs j kvs' where "old = RObj i kvs" "new = RObj j kvs'"
      | (other) "diff_step value region old new path b = Some (emitSet path new b)"
      using False by (cases old; cases new; cases "path = []") (simp_all add: diff_step_def)
    then show ?thesis
    proof cases
      case strings
      with False emitString_outcome [OF strings(3) safe, of s t b] show ?thesis by (auto simp: diff_step_def elim: outcome_weaken)
    next
      case arrays
      have "in_heap U bs" "in_heap U as" using sub by (auto simp: arrays in_heap_def)
      with array_outcome [OF U(1,3) this safe, of b] N False show ?thesis by (simp add: diff_step_def arrays)
    next
      case objects
      with object_outcome [OF U(1,2) safe heap [unfolded objects], of b] N False show ?thesis
        by (simp add: diff_step_def plain_props_def)
    next
      case other
      show ?thesis unfolding other by (rule set)
    qed
  qed
qed

lemma diff_ok:
  assumes "coherent U"
  shows "value_ok U N (diffValue N) \<and> region_ok U N (diff_region N)"
proof (induction N)
  case 0
  have no: "(3 * (revision_size old + revision_size new) \<le> 0) = False" for old new
    using revision_size_pos [of old] by simp
  show ?case unfolding value_ok_def region_ok_def no by simp
next
  case (Suc N)
  have "diffValue (Suc N) = diff_step (diffValue N) (diff_region N)"
    and "diff_region (Suc N) = diffArrayRegion (diffValue N) (diff_region N)" by (intro ext; simp)+
  with value_step [OF assms] region_step [OF assms] Suc show ?case by simp
qed

text \<open>C14: For an old and a new revision of one heap, where an identity names one value and the keys of
  an object are distinct, \<open>diffRevisions\<close> returns, with the fuel of \<open>diff_fuel\<close>, a batch of
  operations that \<open>applyOps\<close> accepts on the old revision and that turns it into the new one, up to the
  order of the keys of objects. This holds for every way the batch is built: reorders and splices of
  arrays, whatever matches the heuristics find, the overlap of strings, the deletes and sets of objects,
  the batch that overflows, and the batch that is replaced because the whole value is cheaper.\<close>

theorem difference_reaches_target:
  assumes "coherent (subvalues old @ subvalues new)"
  shows "\<exists>ops v. diffRevisions old new = Some ops \<and> applyOps ops (plain old) = Inr v \<and> same_json v (plain new)"
proof -
  let ?U = "subvalues old @ subvalues new" and ?b = "\<lparr>bt_ops = [], bt_overflowed = False\<rparr>"
  have "in_heap ?U [old, new]" by (simp add: in_heap_def)
  moreover have "3 * (revision_size old + revision_size new) \<le> diff_fuel old new" by (simp add: diff_fuel_def)
  ultimately obtain b where b: "diffValue (diff_fuel old new) old new [] ?b = Some b"
    "outcome [] (plain old) (\<lambda>y. same_json y (plain new)) ?b b"
    using value_okE [OF conjunct1 [OF diff_ok [OF assms]]] safe_Nil by metis
  have replace: "applyOps [OpReplace (plain new)] (plain old) = Inr (plain new)" "same_json (plain new) (plain new)"
    using same_json_plain [OF assms, of new] by simp_all
  have "choose_batch new b = [OpReplace (plain new)] \<or> \<not> bt_overflowed b \<and> choose_batch new b = bt_ops b"
    by (simp add: choose_batch_def Let_def)
  moreover have "\<exists>v. applyOps (bt_ops b) (plain old) = Inr v \<and> same_json v (plain new)" if "\<not> bt_overflowed b"
    using b(2) that by (auto simp: outcome_def edits_def)
  ultimately show ?thesis using b(1) replace by (auto simp: diffRevisions_def)
qed

definition demo_old_revision :: revision where
  "demo_old_revision = RObj 1
     [(''items'', RArr 2 [RNum ''1'', RNum ''2'', RNum ''3'']), (''gone'', RBool True), (''same'', RArr 3 [RNull])]"

definition demo_new_revision :: revision where
  "demo_new_revision = RObj 4
     [(''items'', RArr 5 [RNum ''1'', RNum ''3'', RStr ''x'']), (''title'', RStr ''t''), (''same'', RArr 3 [RNull])]"

lemma demo_difference:
  "diffRevisions demo_old_revision demo_new_revision = Some
     [OpSplice [Key ''items''] 1 1 [], OpSplice [Key ''items''] 2 0 [JStr ''x''],
      OpSet [Key ''title''] (JStr ''t''), OpDelete [Key ''gone'']]"
  by code_simp

lemma demo_coherent: "coherent (subvalues demo_old_revision @ subvalues demo_new_revision)"
  by code_simp

lemma difference_reaches_target_witness:
  "\<exists>ops v. diffRevisions demo_old_revision demo_new_revision = Some ops
     \<and> applyOps ops (plain demo_old_revision) = Inr v \<and> same_json v (plain demo_new_revision)"
  by (rule difference_reaches_target [OF demo_coherent])

end
