(* ===== verification/Spec2Isabelle.thy ===== *)
theory Spec2Isabelle
  imports Agent Run_Outcomes Compaction_Properties Session_Files Output_Accumulator Edit_Queue Tree_Navigation Delta_Diff_Correct
begin

text \<open>
  A model of the Pi coding agent, the TypeScript monorepo under \<open>src/packages\<close>: an agent that lets a
  language model call tools in a loop, keeps the conversation in a session tree on disk, and
  compacts it when it outgrows the context window. All paths below are relative to
  \<open>src/packages\<close>.

  \<^bold>\<open>Parts and how they interact.\<close> An agent (\<open>agent/src/agent.ts\<close>) takes a prompt and runs the agent loop
  (\<open>agent/src/agent-loop.ts\<close>): each turn streams one assistant response, executes the tool calls in
  it and goes on while there are tool results or queued messages. Its events are reduced into the
  agent's state and handled by the agent session (\<open>coding-agent/src/core/agent-session.ts\<close>), which
  appends messages to the session manager (\<open>core/session-manager.ts\<close>), retries failures and compacts
  (\<open>core/compaction\<close>). The context of the next request is projected from the session tree. The
  file tools (\<open>core/tools\<close>) read, write and edit files, edits through a queue per file. The deltas of
  \<open>chord\<close> carry changes of shared JSON state between processes.

  \<^bold>\<open>Theories.\<close>

  \<^item> \<open>Pi_Prelude\<close>, \<open>Js_Json\<close>, \<open>Text_Encoding\<close>, \<open>Js_Regex\<close>: the JavaScript library as far as the sources
    use it: insertion-ordered maps (locale \<open>js_map\<close>), string functions, JSON text, UTF-16 and UTF-8, and a
    matcher for the constructs of the regular expressions. An asynchronous function is a
    program over a world that returns (\<open>Inr\<close>) or throws (\<open>Inl\<close>).
  \<^item> \<open>Messages\<close>, \<open>Transcript\<close>, \<open>Event_Stream\<close>: \<open>ai/src/types.ts\<close>, \<open>ai/src/utils\<close> and
    \<open>core/messages.ts\<close>: the vocabulary of messages, system messages as deltas that are replayed, and
    the stream between a producer and its consumers (locale \<open>fifo\<close>).
  \<^item> \<open>Tool_Calls\<close>, \<open>Agent_Loop\<close>, \<open>Run_Invariants\<close>, \<open>Run_Outcomes\<close>, \<open>Agent\<close>: the loop and the agent. Parallel tool calls
    are tasks of atomic steps under a schedule read from the world, so every interleaving is
    covered. The locales \<open>world_frame\<close> and \<open>run_invariant\<close> say what the callbacks of an
    application may do and lift an invariant through the whole loop; \<open>Run_Outcomes\<close> interprets them
    with an abort signal that lasts and with a measure that only falls, \<open>Agent\<close> with the state that
    mirrors the events.
  \<^item> \<open>Session_Entries\<close>, \<open>Session_Context\<close>, \<open>Session_Manager\<close>, \<open>Session_Invariants\<close>, \<open>Session_Storage\<close>,
    \<open>Session_Properties\<close>, \<open>Session_Branching\<close>, \<open>Session_Files\<close>: \<open>core/session-manager.ts\<close>: file format and
    migrations, the context of a leaf, the class with its file, forks and extracted branches. The
    locale \<open>append_log\<close> is the abstract session: a log that only grows.
  \<^item> \<open>Summary_Utils\<close>, \<open>Compaction_Prompts\<close>, \<open>Compaction\<close>, \<open>Compaction_Properties\<close>, \<open>Branch_Summary\<close>:
    \<open>core/compaction\<close>: what is summarized, what is kept, and the requests.
  \<^item> \<open>Retry\<close>, \<open>Recovery\<close>, \<open>Recovery_Properties\<close>, \<open>Tree_Navigation\<close>: \<open>ai/src/utils/retry.ts\<close>,
    \<open>overflow.ts\<close> and the parts of \<open>core/agent-session.ts\<close> that follow a run or move in the tree. A
    locale carries an invariant through events, retries and compactions.
  \<^item> \<open>Truncate\<close>, \<open>Output_Accumulator\<close>, \<open>Edit_Diff\<close>, \<open>Edit_Properties\<close>, \<open>Diff_Display\<close>, \<open>File_Tools\<close>,
    \<open>File_Properties\<close>, \<open>Mutation_Queue\<close>, \<open>Edit_Queue\<close>: \<open>core/tools\<close>: truncation of output, its
    accumulation, matching and applying edits, the tools read, write and edit over pluggable operations
    (locales \<open>readable_files\<close> and \<open>writable_files\<close>), and the queue as a step relation over promises.
  \<^item> \<open>Delta\<close>, \<open>Delta_Diff\<close>, \<open>Delta_Diff_Properties\<close>, \<open>Delta_Diff_Correct\<close>: \<open>chord/src/delta/index.ts\<close> and
    \<open>diff.ts\<close>: operations on JSON values, appliers, codec, and the difference of two revisions.

  A definition has the name of the function, class or type it models; a helper without one in the
  source is named for what it does and stands before its user. A class is a record of its
  fields and a method a function on it; constructors of a datatype are the variants of the union.

  \<^bold>\<open>What the lemmas show.\<close> Of the loop: the event log is well bracketed and its messages are the
  returned ones, every attempted call starts and ends once, a run that was not aborted answers every
  call, nothing but tool calls, queued messages and hooks keeps it going, the tools declared are those
  that can be run, and the agent records exactly the run. Of sessions: entries are never changed or lost, reopening the file gives the same
  session, the path of a leaf is the one chain to its root, extracting a branch keeps what the
  model sees. Of compaction: calls and results are not separated, the context is replaced as
  prepared, what is kept fits the budget. Of recovery: retries are bounded and announced by their
  protocol, an overflow is recovered from once, a failed attempt leaves the context but not the
  history. Of the tools: truncation keeps the longest part within both limits, the snapshot of streamed
  output equals the truncation of the whole, edits change what they name and nothing else,
  interleaved edits lose no change. Of deltas: applying the difference of two
  revisions gives the second, and decoding gives what was encoded.

  \<^bold>\<open>Fuel and bounds.\<close> \<open>run_loop\<close> takes fuel, since a model may call tools for ever: \<open>None\<close> says that it was
  used up, more fuel never changes an outcome, and two units for every unit of a measure that each reason to go on
  makes smaller are enough (\<open>runAgentLoop_terminates\<close>). Following parents in a
  file with a cycle does not end: the path takes one unit per entry and is \<open>None\<close> there,
  and in a well-formed session it is found. \<open>diffValue\<close> takes fuel for every nested call; \<open>diff_fuel\<close>, three
  times the sizes of both values, is shown to be enough, since every three calls reach a smaller
  value or region. \<open>chain_from\<close> takes the number of candidates, and a chain never visits one twice
  (\<open>chain_long_enough\<close>). Every other function is total by a structural argument or a measure.

  \<^bold>\<open>Abstractions.\<close> Texts of messages and of session files are HOL strings; texts of the tools, whose limits
  count bytes and code units, are lists of 16-bit words. Numbers are integers, costs rationals, and numbers
  inside JSON values stay the text JSON gives them. The identity of a message object is the id of
  the entry it is kept as (\<open>Recovery\<close>), the identity of a container a number that names one value
  (\<open>Delta_Diff\<close>). What is not under \<open>src\<close> or belongs to the runtime is a parameter: the model call, the
  JSON text of a session line, random UUIDs, the clock, directory listings, path resolution, Unicode
  normalization, the package \<open>diff\<close>, image processing. What happens while the session
  awaits a sleep, an extension or a summarizer is a function of the environment. Objects that the code
  mutates in place are values that are replaced; a delta value is a tree, so a batch that puts one
  object at two places is outside the model, and its texts have 8-bit characters. Narrower than the code are
  also: offset and limit of the read tool, which are natural numbers (the code takes a negative limit); a failing
  write, which leaves the file as it was (the code can fail after it truncated it); the writes of a
  session file, of which only the exclusive creation can fail; an edit in the queue, whose checks for access and
  abort only end it early; and the order of the keys of a JSON object, which is that of
  insertion (JavaScript lists integer-like keys first).

  \<^bold>\<open>Not modelled.\<close> Of modelled files: \<open>getTree\<close> of the session manager (a view for the tree
  selector); of the agent session its prompt, model, tool and bash operations, forks, and emission to
  extensions; schemas, descriptions and renderers of tools. Whole parts: the providers, their
  wire formats and authentication (\<open>ai/src/api\<close>, \<open>providers\<close>, \<open>auth\<close>: protocols whose other side is not here),
  generated model tables, the terminal interface (\<open>tui\<close>, \<open>coding-agent/src/modes\<close>: presentation), extensions and
  packages (loading of third-party code), settings, trust and resources (configuration files), process
  execution and search tools (wrappers of programs), the connections and the change tracker of \<open>chord\<close>
  (JavaScript proxies), \<open>codemode\<close>, \<open>mcp\<close>, \<open>env\<close>, \<open>evals\<close> and \<open>telemetry\<close> (sandboxes, network
  transports, daemons and measurement), and \<open>durable\<close>, a second harness over transactional storage that
  shares only the message vocabulary with the agent modelled here.
\<close>

end
